(* ===== verification/Gm_Prelude.thy ===== *)
theory Gm_Prelude
  imports Main "HOL-Library.Word" "HOL-Library.AList"
begin

unbundle bit_operations_syntax

text \<open>
  What the components share: the machine integers of the C++ sources, the faults of a C++
  execution as values, the two associative containers of the standard library
  (\<open>std::map\<close>, iterated in key order, and \<open>std::unordered_map\<close>), the contract both keep
  as a locale, and generic lemmas on lists, bit fields and results.
\<close>

section \<open>Machine integers and faults\<close>

type_synonym u8 = "8 word"
type_synonym u16 = "16 word"
type_synonym u32 = "32 word"
type_synonym u64 = "64 word"

text \<open>
  A C++ execution that leaves the defined behaviour, or an exception that leaves the
  operation, is a value: a failed \<open>ASSERT_UTILS\<close> (which calls \<open>assert(false)\<close>), the
  dereference of a null pointer, an array access out of its bounds, the read of a variable
  that was never written, \<open>pop_front\<close> on an empty container, or a thrown exception with its
  message.
\<close>

datatype fault =
    Assert_fail
  | Null_deref
  | Out_of_range
  | Uninitialised
  | Empty_pop
  | Throw string

type_synonym 'a res = "fault + 'a"

definition rbind :: "'a res \<Rightarrow> ('a \<Rightarrow> 'b res) \<Rightarrow> 'b res" where
  "rbind x f = (case x of Inl e \<Rightarrow> Inl e | Inr v \<Rightarrow> f v)"

definition assert_utils :: "bool \<Rightarrow> 'a res \<Rightarrow> 'a res" where
  "assert_utils c k = (if c then k else Inl Assert_fail)"

text \<open>Integer division and remainder of C, which round towards zero.\<close>

definition c_div :: "int \<Rightarrow> int \<Rightarrow> int" where
  "c_div a b = sgn a * sgn b * (\<bar>a\<bar> div \<bar>b\<bar>)"

definition c_mod :: "int \<Rightarrow> int \<Rightarrow> int" where
  "c_mod a b = a - c_div a b * b"

lemma c_div_nonneg: "0 \<le> a \<Longrightarrow> 0 < b \<Longrightarrow> c_div a b = a div b"
  by (cases "a = 0") (simp_all add: c_div_def)

lemma c_mod_nonneg: "0 \<le> a \<Longrightarrow> 0 < b \<Longrightarrow> c_mod a b = a mod b"
  by (simp add: c_mod_def c_div_nonneg minus_div_mult_eq_mod)

text \<open>A range-for whose body may fault: it stops at the first fault.\<close>

fun rfold :: "('a \<Rightarrow> 's \<Rightarrow> 's res) \<Rightarrow> 'a list \<Rightarrow> 's \<Rightarrow> 's res" where
  "rfold f [] s = Inr s"
| "rfold f (x # xs) s = rbind (f x s) (rfold f xs)"

lemma rbind_simps [simp]:
  "rbind (Inl e) f = Inl e"
  "rbind (Inr v) f = f v"
  by (simp_all add: rbind_def)

lemma rbind_Inr_conv: "rbind x f = Inr r \<longleftrightarrow> (\<exists>v. x = Inr v \<and> f v = Inr r)"
  by (cases x) simp_all

lemma assert_utils_simps [simp]:
  "assert_utils True k = k"
  "assert_utils False k = Inl Assert_fail"
  by (simp_all add: assert_utils_def)

lemma assert_utils_Inr_conv: "assert_utils c k = Inr r \<longleftrightarrow> c \<and> k = Inr r"
  by (simp add: assert_utils_def)

lemma rfold_append: "rfold f (xs @ ys) s = rbind (rfold f xs s) (rfold f ys)"
proof (induction xs arbitrary: s)
  case Nil
  then show ?case by simp
next
  case (Cons x xs)
  then show ?case by (cases "f x s") simp_all
qed

lemma rfold_invariant:
  assumes "rfold f xs s = Inr t" and "P s"
    and "\<And>x s s'. x \<in> set xs \<Longrightarrow> P s \<Longrightarrow> f x s = Inr s' \<Longrightarrow> P s'"
  shows "P t"
  using assms
proof (induction xs arbitrary: s)
  case Nil
  then show ?case by simp
next
  case (Cons x xs)
  from Cons.prems(1) obtain s' where s': "f x s = Inr s'" "rfold f xs s' = Inr t"
    by (auto simp: rbind_Inr_conv)
  have "P s'" by (rule Cons.prems(3) [OF _ Cons.prems(2) s'(1)]) simp
  from s'(2) this show ?case by (rule Cons.IH) (auto intro: Cons.prems(3))
qed


section \<open>Bit fields\<close>

text \<open>
  Field \<open>(off, w)\<close> of a 32-bit unit: \<open>w\<close> bits from bit \<open>off\<close> upwards. Bit fields are
  allocated from the least significant bit, as the compilers this code is built with do.
\<close>

definition bf_get :: "nat \<Rightarrow> nat \<Rightarrow> u32 \<Rightarrow> u32" where
  "bf_get off w a = take_bit w (drop_bit off a)"

definition bf_set :: "nat \<Rightarrow> nat \<Rightarrow> u32 \<Rightarrow> u32 \<Rightarrow> u32" where
  "bf_set off w v a = (a AND NOT (push_bit off (mask w))) OR push_bit off (take_bit w v)"

lemma bit_bf_get: "bit (bf_get off w a) n \<longleftrightarrow> n < w \<and> bit a (off + n)"
  by (auto simp: bf_get_def bit_simps)

lemma bit_bf_set:
  "bit (bf_set off w v a) n \<longleftrightarrow>
     n < 32 \<and> (if off \<le> n \<and> n < off + w then bit v (n - off) else bit a n)"
  by (auto simp: bf_set_def bit_simps)

lemma bf_get_set_same: "off + w \<le> 32 \<Longrightarrow> bf_get off w (bf_set off w v a) = take_bit w v"
  by (rule bit_eqI) (auto simp: bit_bf_get bit_bf_set bit_simps)

lemma bf_get_set_disjoint:
  "off + w \<le> off' \<or> off' + w' \<le> off \<Longrightarrow> bf_get off w (bf_set off' w' v a) = bf_get off w a"
  by (rule bit_eqI) (auto simp: bit_bf_get bit_bf_set dest: bit_imp_le_length)

lemma unat_take_bit_32: "unat (take_bit w (a :: u32)) = unat a mod 2 ^ w"
  by (simp only: unsigned_take_bit_eq) (simp only: take_bit_eq_mod)

lemma unat_bf_get: "unat (bf_get off w a) = unat a div 2 ^ off mod 2 ^ w"
  by (simp only: bf_get_def unat_take_bit_32 unat_drop_bit_eq) (simp only: drop_bit_eq_div)

lemma bf_get_less: "unat (bf_get off w a) < 2 ^ w"
  by (simp add: unat_bf_get)


section \<open>Ordered maps: \<open>std::map\<close>\<close>

text \<open>
  A \<open>std::map\<close> is its list of entries in key order, which is the order the code iterates
  in. \<open>om_put\<close> is \<open>m[k] = v\<close>, \<open>om_ins\<close> is \<open>m.insert({k, v})\<close> (an entry that exists is
  kept), \<open>om_del\<close> is \<open>m.erase(k)\<close> and the look-up \<open>m.find(k)\<close> is \<^const>\<open>map_of\<close>.
\<close>

fun om_put :: "'k::linorder \<Rightarrow> 'v \<Rightarrow> ('k \<times> 'v) list \<Rightarrow> ('k \<times> 'v) list" where
  "om_put k v [] = [(k, v)]"
| "om_put k v ((a, b) # m) =
     (if k < a then (k, v) # (a, b) # m
      else if k = a then (k, v) # m
      else (a, b) # om_put k v m)"

fun om_del :: "'k::linorder \<Rightarrow> ('k \<times> 'v) list \<Rightarrow> ('k \<times> 'v) list" where
  "om_del k [] = []"
| "om_del k ((a, b) # m) = (if k = a then m else (a, b) # om_del k m)"

definition om_ins :: "'k::linorder \<Rightarrow> 'v \<Rightarrow> ('k \<times> 'v) list \<Rightarrow> ('k \<times> 'v) list" where
  "om_ins k v m = (case map_of m k of None \<Rightarrow> om_put k v m | Some _ \<Rightarrow> m)"

definition om_wf :: "('k::linorder \<times> 'v) list \<Rightarrow> bool" where
  "om_wf m = sorted_wrt (<) (map fst m)"

lemma om_wf_Nil [simp]: "om_wf []"
  by (simp add: om_wf_def)

lemma om_wf_Cons: "om_wf ((a, b) # m) \<longleftrightarrow> (\<forall>k \<in> fst ` set m. a < k) \<and> om_wf m"
  by (auto simp: om_wf_def)

lemma om_wf_distinct: "om_wf m \<Longrightarrow> distinct (map fst m)"
  by (auto simp: om_wf_def strict_sorted_iff)

lemma map_of_om_put [simp]: "map_of (om_put k v m) = (map_of m)(k \<mapsto> v)"
  by (induction k v m rule: om_put.induct) auto

lemma om_put_keys [simp]: "fst ` set (om_put k v m) = insert k (fst ` set m)"
  by (induction k v m rule: om_put.induct) auto

lemma om_wf_put [simp, intro]: "om_wf m \<Longrightarrow> om_wf (om_put k v m)"
  by (induction k v m rule: om_put.induct) (auto simp: om_wf_Cons)

lemma om_del_subset: "fst ` set (om_del k m) \<subseteq> fst ` set m"
  by (induction k m rule: om_del.induct) auto

lemma om_wf_del [simp, intro]: "om_wf m \<Longrightarrow> om_wf (om_del k m)"
  using om_del_subset by (induction k m rule: om_del.induct) (fastforce simp: om_wf_Cons)+

lemma map_of_om_del [simp]: "om_wf m \<Longrightarrow> map_of (om_del k m) = (map_of m)(k := None)"
proof (induction k m rule: om_del.induct)
  case (1 k)
  then show ?case by (simp add: fun_eq_iff)
next
  case (2 k a b m)
  then have "map_of m a = None"
    by (auto simp: om_wf_Cons map_of_eq_None_iff)
  with 2 show ?case by (auto simp: om_wf_Cons fun_eq_iff)
qed

lemma om_wf_ins [simp, intro]: "om_wf m \<Longrightarrow> om_wf (om_ins k v m)"
  by (simp add: om_ins_def split: option.split)

lemma map_of_om_ins:
  "map_of (om_ins k v m) = (if map_of m k = None then (map_of m)(k \<mapsto> v) else map_of m)"
  by (auto simp: om_ins_def split: option.split)


section \<open>The contract of a key-value container\<close>

text \<open>
  What the clients of either container use: a look-up after a store or an erase, and that
  both keep the container's well-formedness. An \<open>unordered_map\<close> is an association list
  with distinct keys, whose order stands for the unspecified iteration order; its store and
  erase are \<^const>\<open>AList.update\<close> and \<^const>\<open>AList.delete\<close>.
\<close>

locale kv_store =
  fixes get :: "'m \<Rightarrow> 'k \<Rightarrow> 'v option"
    and put :: "'k \<Rightarrow> 'v \<Rightarrow> 'm \<Rightarrow> 'm"
    and del :: "'k \<Rightarrow> 'm \<Rightarrow> 'm"
    and wf :: "'m \<Rightarrow> bool"
  assumes get_put: "wf m \<Longrightarrow> get (put k v m) k' = (if k' = k then Some v else get m k')"
    and get_del: "wf m \<Longrightarrow> get (del k m) k' = (if k' = k then None else get m k')"
    and wf_put: "wf m \<Longrightarrow> wf (put k v m)"
    and wf_del: "wf m \<Longrightarrow> wf (del k m)"
begin

text \<open>A run of stores: the last value stored for a key is the one found.\<close>

lemma wf_fold_put: "wf m \<Longrightarrow> wf (fold (\<lambda>(k, v). put k v) kvs m)"
  by (induction kvs arbitrary: m) (auto intro: wf_put)

lemma get_fold_put:
  "wf m \<Longrightarrow> get (fold (\<lambda>(k, v). put k v) kvs m) k =
     (case map_of (rev kvs) k of None \<Rightarrow> get m k | Some v \<Rightarrow> Some v)"
  by (induction kvs arbitrary: m)
     (auto simp: get_put wf_put map_add_def split: option.splits)

text \<open>Erasing a key from a run of stores leaves the others.\<close>

lemma get_del_fold_put:
  "wf m \<Longrightarrow> get (del k (fold (\<lambda>(k, v). put k v) kvs m)) k' =
     (if k' = k then None else get (fold (\<lambda>(k, v). put k v) kvs m) k')"
  by (simp add: get_del wf_fold_put)

end

interpretation om: kv_store map_of om_put om_del om_wf
  by unfold_locales auto

abbreviation um_wf :: "('k \<times> 'v) list \<Rightarrow> bool" where
  "um_wf m \<equiv> distinct (map fst m)"

interpretation um: kv_store map_of AList.update AList.delete um_wf
  by unfold_locales (auto simp: update_conv' delete_conv' distinct_update distinct_delete)

end
