(* ===== verification/Address.thy ===== *)
theory Address
  imports Gm_Prelude
begin

text \<open>
  \<open>LibActor/Address.h\<close>: the 32-bit address of an actor, a union of the whole word with two
  bit-field views of it. \<open>m_Detail\<close> is group (7 bits), channel (7), process (5) and index
  (13); \<open>m_Brief\<close> is everything but the index (19 bits) and the index (13).
\<close>

section \<open>The union and its constructors\<close>

type_synonym address = u32

definition m_Detail_m_Group :: "address \<Rightarrow> u32" where
  "m_Detail_m_Group a = bf_get 0 7 a"

definition m_Detail_m_Channel :: "address \<Rightarrow> u32" where
  "m_Detail_m_Channel a = bf_get 7 7 a"

definition m_Detail_m_Process :: "address \<Rightarrow> u32" where
  "m_Detail_m_Process a = bf_get 14 5 a"

definition m_Detail_m_Index :: "address \<Rightarrow> u32" where
  "m_Detail_m_Index a = bf_get 19 13 a"

definition m_Brief_mProcess :: "address \<Rightarrow> u32" where
  "m_Brief_mProcess a = bf_get 0 19 a"

definition m_Brief_m_Index :: "address \<Rightarrow> u32" where
  "m_Brief_m_Index a = bf_get 19 13 a"

text \<open>The constructor from four fields: the word is cleared, then each field is assigned.\<close>

definition Address_detail :: "u32 \<Rightarrow> u32 \<Rightarrow> u32 \<Rightarrow> u32 \<Rightarrow> address" where
  "Address_detail iGroupiD iChannelID iProcessID iIndex =
     bf_set 19 13 iIndex
       (bf_set 14 5 iProcessID
         (bf_set 7 7 iChannelID
           (bf_set 0 7 iGroupiD 0)))"

text \<open>The constructor from a process and an index takes 16-bit parameters.\<close>

definition Address_brief :: "u16 \<Rightarrow> u16 \<Rightarrow> address" where
  "Address_brief iProcessID index =
     bf_set 19 13 (ucast index) (bf_set 0 19 (ucast iProcessID) 0)"

definition Address_word :: "u32 \<Rightarrow> address" where
  "Address_word iIndex = iIndex"

definition Address_eq :: "address \<Rightarrow> address \<Rightarrow> bool" where
  "Address_eq a b \<longleftrightarrow> a = b"

definition Address_less :: "address \<Rightarrow> address \<Rightarrow> bool" where
  "Address_less a b \<longleftrightarrow> a < b"

lemmas address_fields =
  m_Detail_m_Group_def m_Detail_m_Channel_def m_Detail_m_Process_def m_Detail_m_Index_def
  m_Brief_mProcess_def m_Brief_m_Index_def


section \<open>Reading back what was stored\<close>

lemma unat_ucast_u16: "unat (ucast (ucast (a :: u32) :: u16) :: u32) = unat a mod 2 ^ 16"
proof -
  have "unat (ucast a :: u16) = unat a mod 2 ^ 16"
    by (simp only: unsigned_ucast_eq take_bit_eq_mod) simp
  moreover have "unat (ucast (b :: u16) :: u32) = unat b" for b
    using unsigned_less [of b, where ?'a = nat] by (simp only: unsigned_ucast_eq take_bit_eq_mod) simp
  ultimately show ?thesis by simp
qed

lemma Address_detail_bits:
  "m_Detail_m_Group (Address_detail g c p i) = take_bit 7 g"
  "m_Detail_m_Channel (Address_detail g c p i) = take_bit 7 c"
  "m_Detail_m_Process (Address_detail g c p i) = take_bit 5 p"
  "m_Detail_m_Index (Address_detail g c p i) = take_bit 13 i"
  by (simp_all add: address_fields Address_detail_def bf_get_set_same bf_get_set_disjoint)

lemma Address_brief_bits:
  "m_Brief_mProcess (Address_brief p i) = ucast p"
  "m_Brief_m_Index (Address_brief p i) = take_bit 13 (ucast i)"
  by (simp_all add: address_fields Address_brief_def bf_get_set_same bf_get_set_disjoint,
      rule bit_eqI) (auto simp: bit_simps dest: bit_imp_le_length)

text \<open>The two views of the word: the brief process is the three detail fields together.\<close>

lemma brief_process_of_detail:
  "unat (m_Brief_mProcess a) =
     unat (m_Detail_m_Group a) + 2 ^ 7 * unat (m_Detail_m_Channel a)
       + 2 ^ 14 * unat (m_Detail_m_Process a)"
proof -
  define n where "n = unat a"
  have "n mod (2 ^ 7 * (2 ^ 7 * 2 ^ 5)) =
      n mod 2 ^ 7 + 2 ^ 7 * (n div 2 ^ 7 mod 2 ^ 7)
        + 2 ^ 7 * (2 ^ 7 * (n div 2 ^ 7 div 2 ^ 7 mod 2 ^ 5))"
    unfolding mod_mult2_eq by (simp add: distrib_left)
  then have "n mod 2 ^ 19 =
      n mod 2 ^ 7 + 2 ^ 7 * (n div 2 ^ 7 mod 2 ^ 7) + 2 ^ 14 * (n div 2 ^ 14 mod 2 ^ 5)"
    by (simp add: div_mult2_eq [symmetric])
  then show ?thesis
    by (simp add: address_fields unat_bf_get n_def)
qed

lemma brief_index_is_detail_index: "m_Brief_m_Index a = m_Detail_m_Index a"
  by (simp add: address_fields)

text \<open>An address is determined by its fields, in either view.\<close>

lemma address_split: "unat a = unat (m_Brief_mProcess a) + 2 ^ 19 * unat (m_Brief_m_Index a)"
proof -
  have "unat a < 2 ^ 19 * 2 ^ 13" using unsigned_less [of a] by simp
  then have "unat a div 2 ^ 19 < 2 ^ 13"
    by (simp add: less_mult_imp_div_less mult.commute)
  then have "unat a = unat a mod 2 ^ 19 + 2 ^ 19 * (unat a div 2 ^ 19 mod 2 ^ 13)"
    by (simp add: mult.commute)
  then show ?thesis by (simp add: address_fields unat_bf_get)
qed

text \<open>
  Address round trip: the four fields given to the constructor are read back modulo their
  widths, the constructor inverts the accessors (every address is the constructor applied to
  its own fields), and the brief process number is the group, channel and process fields
  taken together.
\<close>

theorem address_roundtrip:
  "unat (m_Detail_m_Group (Address_detail g c p i)) = unat g mod 2 ^ 7 \<and>
   unat (m_Detail_m_Channel (Address_detail g c p i)) = unat c mod 2 ^ 7 \<and>
   unat (m_Detail_m_Process (Address_detail g c p i)) = unat p mod 2 ^ 5 \<and>
   unat (m_Detail_m_Index (Address_detail g c p i)) = unat i mod 2 ^ 13 \<and>
   Address_detail (m_Detail_m_Group a) (m_Detail_m_Channel a) (m_Detail_m_Process a)
     (m_Detail_m_Index a) = a \<and>
   unat (m_Brief_mProcess a) =
     unat (m_Detail_m_Group a) + 2 ^ 7 * unat (m_Detail_m_Channel a)
       + 2 ^ 14 * unat (m_Detail_m_Process a)"
proof -
  let ?b = "Address_detail (m_Detail_m_Group a) (m_Detail_m_Channel a) (m_Detail_m_Process a)
     (m_Detail_m_Index a)"
  have fields: "unat (m_Detail_m_Group ?b) = unat (m_Detail_m_Group a)"
    "unat (m_Detail_m_Channel ?b) = unat (m_Detail_m_Channel a)"
    "unat (m_Detail_m_Process ?b) = unat (m_Detail_m_Process a)"
    "unat (m_Detail_m_Index ?b) = unat (m_Detail_m_Index a)"
    by (simp_all only: Address_detail_bits unat_take_bit_32)
       (simp_all add: address_fields unat_bf_get)
  then have "unat ?b = unat a"
    by (simp only: address_split [of a] address_split [of ?b] brief_process_of_detail
        brief_index_is_detail_index)
  then have "?b = a" by (simp only: word_unat_eq_iff)
  then show ?thesis
    by (simp only: Address_detail_bits unat_take_bit_32 brief_process_of_detail)
qed

text \<open>
  The two-parameter constructor keeps a process number only below 2 to the 16: of the 19
  process bits of an address it can set 16, so a word is reproduced from its own brief fields
  (narrowed to the parameters' 16 bits, as the call does) exactly when its process number
  fits in 16 bits.
\<close>

theorem address_brief_truncates:
  "Address_brief (ucast (m_Brief_mProcess a)) (ucast (m_Brief_m_Index a)) = a \<longleftrightarrow>
   unat (m_Brief_mProcess a) < 2 ^ 16"
proof -
  let ?p = "ucast (m_Brief_mProcess a) :: u16" and ?i = "ucast (m_Brief_m_Index a) :: u16"
  have p: "unat (m_Brief_mProcess (Address_brief ?p ?i)) = unat (m_Brief_mProcess a) mod 2 ^ 16"
    by (simp only: Address_brief_bits unat_ucast_u16)
  have "unat (m_Brief_m_Index a) < 2 ^ 13"
    unfolding m_Brief_m_Index_def by (rule bf_get_less)
  then have i: "unat (m_Brief_m_Index (Address_brief ?p ?i)) = unat (m_Brief_m_Index a)"
    by (simp add: Address_brief_bits unat_take_bit_32 unat_ucast_u16)
  have "Address_brief ?p ?i = a \<longleftrightarrow> unat (Address_brief ?p ?i) = unat a"
    by (rule word_unat_eq_iff)
  also have "\<dots> \<longleftrightarrow> unat (m_Brief_mProcess a) mod 2 ^ 16 = unat (m_Brief_mProcess a)"
    by (simp only: address_split [of a] address_split [of "Address_brief ?p ?i"] p i) arith
  also have "\<dots> \<longleftrightarrow> unat (m_Brief_mProcess a) < 2 ^ 16"
    by (metis mod_less mod_less_divisor zero_less_numeral zero_less_power)
  finally show ?thesis .
qed

end
