(* ===== verification/Name_Pool.thy ===== *)
theory Name_Pool
  imports Gm_Prelude "HOL-Library.List_Lexorder" "HOL-Library.Char_ord"
begin

text \<open>
  \<open>LibActor/NamePool.h\<close> and \<open>LibActor/Name.h\<close>: interned strings. A name is a pointer into the
  pool, so two names are compared by comparing pointers. \<open>Utils/HashName.h\<close> is the other
  hashed string of the repository: it keeps the string beside its hash and compares both.
\<close>

section \<open>The hash function\<close>

text \<open>
  A \<open>char\<close> is signed on the compilers this code is built with, so \<open>hash + *ch\<close> adds the
  sign-extended character modulo 2 to the 32. A C string ends before its first NUL.
\<close>

definition char_u32 :: "char \<Rightarrow> u32" where
  "char_u32 c = scast (of_char c :: u8)"

definition c_str :: "string \<Rightarrow> string" where
  "c_str s = takeWhile (\<lambda>c. c \<noteq> CHR 0x00) s"

fun hash_loop :: "string \<Rightarrow> u32 \<Rightarrow> u32" where
  "hash_loop [] hash = hash"
| "hash_loop (c # cs) hash = hash_loop cs ((push_bit 5 hash + hash) + char_u32 c)"

definition NamePool_Hash :: "string \<Rightarrow> u32" where
  "NamePool_Hash str = hash_loop (c_str str) 5381"

lemma push_bit_5_plus: "push_bit 5 (h :: u32) + h = 33 * h"
  by (simp add: push_bit_eq_mult)

text \<open>The loop computes the polynomial with multiplier 33 and start value 5381.\<close>

lemma hash_loop_poly:
  "hash_loop s h = 33 ^ length s * h + (\<Sum>i<length s. 33 ^ (length s - 1 - i) * char_u32 (s ! i))"
proof (induction s arbitrary: h)
  case Nil
  then show ?case by simp
next
  case (Cons c s)
  have "hash_loop (c # s) h = hash_loop s (33 * h + char_u32 c)"
    by (simp add: push_bit_5_plus)
  also have "\<dots> = 33 ^ length (c # s) * h + (33 ^ length s * char_u32 c
      + (\<Sum>i<length s. 33 ^ (length s - 1 - i) * char_u32 (s ! i)))"
    by (simp add: Cons.IH algebra_simps)
  also have "33 ^ length s * char_u32 c
      + (\<Sum>i<length s. 33 ^ (length s - 1 - i) * char_u32 (s ! i))
    = (\<Sum>i<length (c # s). 33 ^ (length (c # s) - 1 - i) * char_u32 ((c # s) ! i))"
    by (simp add: sum.lessThan_Suc_shift del: sum.lessThan_Suc)
  finally show ?case .
qed


section \<open>The pool\<close>

text \<open>
  A bucket is a \<open>std::list\<close> of strings that only grows at its end, so the address
  \<open>it->c_str()\<close> of a string never changes: a pooled pointer is the bucket's key and the
  position in its list. The buckets are a \<open>std::map\<close> keyed by \<open>int32_t\<close>.
\<close>

type_synonym bucket = "string list"
type_synonym name_pool = "(int \<times> bucket) list"
type_synonym pooled_ptr = "int \<times> nat"

fun Bucket_Lookup_from :: "nat \<Rightarrow> bucket \<Rightarrow> string \<Rightarrow> nat option" where
  "Bucket_Lookup_from i [] str = None"
| "Bucket_Lookup_from i (it # rest) str =
     (if it = str then Some i else Bucket_Lookup_from (Suc i) rest str)"

definition Bucket_Lookup :: "bucket \<Rightarrow> string \<Rightarrow> nat \<times> bucket" where
  "Bucket_Lookup m_StringList str =
     (case Bucket_Lookup_from 0 m_StringList str of
        Some i \<Rightarrow> (i, m_StringList)
      | None \<Rightarrow> (length m_StringList, m_StringList @ [str]))"

definition NamePool_Lookup :: "name_pool \<Rightarrow> string option \<Rightarrow> pooled_ptr option \<times> name_pool" where
  "NamePool_Lookup pool str = (case str of
     None \<Rightarrow> (None, pool)
   | Some s \<Rightarrow>
       let iIndex = sint (NamePool_Hash s);
           refBucket = (case map_of pool iIndex of None \<Rightarrow> [] | Some b \<Rightarrow> b);
           (pos, b') = Bucket_Lookup refBucket (c_str s)
       in (Some (iIndex, pos), om_put iIndex b' pool))"

text \<open>\<open>Name\<close>: a default-constructed name and one made from a null pointer are null.\<close>

type_synonym name = "pooled_ptr option"

definition Name_make :: "name_pool \<Rightarrow> string option \<Rightarrow> name \<times> name_pool" where
  "Name_make pool str = (case str of None \<Rightarrow> (None, pool) | Some s \<Rightarrow> NamePool_Lookup pool (Some s))"

definition Name_IsNull :: "name \<Rightarrow> bool" where
  "Name_IsNull n \<longleftrightarrow> n = None"

definition Name_eq :: "name \<Rightarrow> name \<Rightarrow> bool" where
  "Name_eq a b \<longleftrightarrow> a = b"

text \<open>\<open>GetValue\<close> reads the string the pointer points to.\<close>

definition Name_GetValue :: "name_pool \<Rightarrow> name \<Rightarrow> string option" where
  "Name_GetValue pool n = (case n of
     None \<Rightarrow> None
   | Some (k, i) \<Rightarrow> (case map_of pool k of
       None \<Rightarrow> None
     | Some b \<Rightarrow> if i < length b then Some (b ! i) else None))"

definition pool_wf :: "name_pool \<Rightarrow> bool" where
  "pool_wf pool \<longleftrightarrow> om_wf pool \<and>
     (\<forall>k b. map_of pool k = Some b \<longrightarrow>
        distinct b \<and> (\<forall>s \<in> set b. c_str s = s \<and> sint (NamePool_Hash s) = k))"

definition pool_extends :: "name_pool \<Rightarrow> name_pool \<Rightarrow> bool" where
  "pool_extends p q \<longleftrightarrow>
     (\<forall>k b. map_of p k = Some b \<longrightarrow> (\<exists>b'. map_of q k = Some (b @ b')))"

lemma c_str_idem [simp]: "c_str (c_str s) = c_str s"
  by (simp add: c_str_def)

lemma NamePool_Hash_c_str [simp]: "NamePool_Hash (c_str s) = NamePool_Hash s"
  by (simp add: NamePool_Hash_def)

lemma Bucket_Lookup_from_None: "Bucket_Lookup_from i b s = None \<longleftrightarrow> s \<notin> set b"
  by (induction i b s rule: Bucket_Lookup_from.induct) auto

lemma Bucket_Lookup_from_Some:
  "Bucket_Lookup_from i b s = Some j \<Longrightarrow> i \<le> j \<and> j < i + length b \<and> b ! (j - i) = s"
proof (induction i b s rule: Bucket_Lookup_from.induct)
  case (1 i str)
  then show ?case by simp
next
  case (2 i it rest str)
  show ?case
  proof (cases "it = str")
    case True
    with 2 show ?thesis by simp
  next
    case False
    with 2 have "Suc i \<le> j \<and> j < Suc i + length rest \<and> rest ! (j - Suc i) = str"
      by simp
    then show ?thesis by (simp add: nth_Cons')
  qed
qed

lemma Bucket_Lookup_props:
  assumes "Bucket_Lookup b s = (i, b')"
  shows "\<exists>c. b' = b @ c" "i < length b'" "b' ! i = s" "distinct b \<Longrightarrow> distinct b'"
    "set b' = insert s (set b)"
proof -
  have "(\<exists>c. b' = b @ c) \<and> i < length b' \<and> b' ! i = s \<and> (distinct b \<longrightarrow> distinct b')
      \<and> set b' = insert s (set b)"
  proof (cases "Bucket_Lookup_from 0 b s")
    case None
    with assms show ?thesis
      by (auto simp: Bucket_Lookup_def Bucket_Lookup_from_None nth_append)
  next
    case (Some j)
    with assms have "b' = b" "i = j" by (simp_all add: Bucket_Lookup_def)
    moreover from Bucket_Lookup_from_Some [OF Some] have "j < length b" "b ! j = s" by simp_all
    ultimately show ?thesis by (metis append_Nil2 insert_absorb nth_mem)
  qed
  then show "\<exists>c. b' = b @ c" "i < length b'" "b' ! i = s" "distinct b \<Longrightarrow> distinct b'"
    "set b' = insert s (set b)"
    by blast+
qed

lemma pool_extends_refl [simp]: "pool_extends p p"
  by (auto simp: pool_extends_def)

lemma pool_extends_trans: "pool_extends p q \<Longrightarrow> pool_extends q r \<Longrightarrow> pool_extends p r"
  unfolding pool_extends_def by (metis append.assoc)

lemma NamePool_Lookup_None [simp]: "NamePool_Lookup p None = (None, p)"
  by (simp add: NamePool_Lookup_def)

text \<open>One look-up: the pointer reads back as the string, and the pool only grows.\<close>

lemma NamePool_Lookup_Some:
  assumes "pool_wf p" and "NamePool_Lookup p (Some s) = (q, p')"
  shows "pool_wf p'" "pool_extends p p'" "Name_GetValue p' q = Some (c_str s)"
    "\<exists>i. q = Some (sint (NamePool_Hash s), i)"
proof -
  define k where "k = sint (NamePool_Hash s)"
  define b where "b = (case map_of p k of None \<Rightarrow> [] | Some b \<Rightarrow> b)"
  obtain i b' where look: "Bucket_Lookup b (c_str s) = (i, b')"
    by (cases "Bucket_Lookup b (c_str s)")
  with assms(2) have q: "q = Some (k, i)" and p': "p' = om_put k b' p"
    by (auto simp: NamePool_Lookup_def Let_def k_def b_def)
  note B = Bucket_Lookup_props [OF look]
  have b: "distinct b" "\<forall>t \<in> set b. c_str t = t \<and> sint (NamePool_Hash t) = k"
    using assms(1) by (auto simp: b_def pool_wf_def dest: sym split: option.splits)
  show "pool_wf p'"
    using assms(1) B b by (auto simp: p' pool_wf_def k_def)
  show "pool_extends p p'"
    using B(1) by (auto simp: pool_extends_def p' b_def)
  show "Name_GetValue p' q = Some (c_str s)"
    using B by (simp add: Name_GetValue_def q p')
  show "\<exists>i. q = Some (sint (NamePool_Hash s), i)"
    by (simp add: q k_def)
qed

lemma Name_GetValue_extends:
  "pool_extends p p' \<Longrightarrow> Name_GetValue p q = Some v \<Longrightarrow> Name_GetValue p' q = Some v"
  by (fastforce simp: Name_GetValue_def pool_extends_def nth_append split: option.splits if_splits)

text \<open>In a well-formed pool a pointer is determined by the string it points to.\<close>

lemma Name_GetValue_inj:
  assumes "pool_wf p" and "Name_GetValue p q = Some v" and "Name_GetValue p r = Some v"
  shows "q = r"
proof -
  from assms obtain k i b where q: "q = Some (k, i)" "map_of p k = Some b" "i < length b" "b ! i = v"
    by (auto simp: Name_GetValue_def split: option.splits if_splits)
  from assms obtain l j c where r: "r = Some (l, j)" "map_of p l = Some c" "j < length c" "c ! j = v"
    by (auto simp: Name_GetValue_def split: option.splits if_splits)
  have "sint (NamePool_Hash v) = k" "sint (NamePool_Hash v) = l"
    using assms(1) q r unfolding pool_wf_def by (metis nth_mem)+
  with q r have "l = k" "c = b" by auto
  with q r assms(1) have "i = j" unfolding pool_wf_def by (metis nth_eq_iff_index_eq)
  with q r \<open>l = k\<close> show ?thesis by simp
qed

text \<open>Any run of constructions keeps the pool well-formed and every pointer readable.\<close>

fun Name_makes :: "name_pool \<Rightarrow> string option list \<Rightarrow> name_pool" where
  "Name_makes p [] = p"
| "Name_makes p (s # ss) = Name_makes (snd (Name_make p s)) ss"

lemma Name_make_props:
  assumes "pool_wf p"
  shows "pool_wf (snd (Name_make p s))" "pool_extends p (snd (Name_make p s))"
    "Name_GetValue (snd (Name_make p s)) (fst (Name_make p s)) = map_option c_str s"
proof -
  have *: "pool_wf (snd (Name_make p s)) \<and> pool_extends p (snd (Name_make p s)) \<and>
    Name_GetValue (snd (Name_make p s)) (fst (Name_make p s)) = map_option c_str s"
  proof (cases s)
    case None
    with assms show ?thesis by (simp add: Name_make_def Name_GetValue_def)
  next
    case (Some t)
    obtain q p' where "NamePool_Lookup p (Some t) = (q, p')"
      by (cases "NamePool_Lookup p (Some t)")
    with NamePool_Lookup_Some [OF assms this] Some show ?thesis
      by (simp add: Name_make_def)
  qed
  then show "pool_wf (snd (Name_make p s))" "pool_extends p (snd (Name_make p s))"
    "Name_GetValue (snd (Name_make p s)) (fst (Name_make p s)) = map_option c_str s"
    by blast+
qed

lemma Name_makes_props: "pool_wf p \<Longrightarrow> pool_wf (Name_makes p ss) \<and> pool_extends p (Name_makes p ss)"
proof (induction ss arbitrary: p)
  case Nil
  then show ?case by simp
next
  case (Cons s ss)
  note step = Name_make_props [OF Cons.prems, of s]
  from Cons.IH [OF step(1)] step(2) show ?case
    by (auto intro: pool_extends_trans)
qed

text \<open>
  C9. Interning: take any well-formed pool, make a name from a C string, make any number of
  other names, then make a second name. The two names compare equal, by their pointers,
  exactly when the two strings (or the two null pointers) are equal; both still read back as
  their strings in the final pool.
\<close>

theorem name_interning:
  assumes wf: "pool_wf p"
    and first: "Name_make p s = (n, p1)"
    and second: "Name_make (Name_makes p1 others) t = (m, p2)"
  shows "(Name_eq n m \<longleftrightarrow> map_option c_str s = map_option c_str t) \<and>
    Name_GetValue p2 n = map_option c_str s \<and> Name_GetValue p2 m = map_option c_str t"
proof -
  let ?q = "Name_makes p1 others"
  have p1: "pool_wf p1" "Name_GetValue p1 n = map_option c_str s"
    using Name_make_props [OF wf, of s] first by simp_all
  from Name_makes_props [OF p1(1)] have q: "pool_wf ?q" "pool_extends p1 ?q" by blast+
  have p2: "pool_wf p2" "pool_extends ?q p2" "Name_GetValue p2 m = map_option c_str t"
    using Name_make_props [OF q(1), of t] second by simp_all
  have n: "Name_GetValue p2 n = map_option c_str s"
  proof (cases s)
    case None
    with first show ?thesis by (auto simp: Name_make_def Name_GetValue_def)
  next
    case (Some u)
    from q(2) p2(2) have "pool_extends p1 p2" by (rule pool_extends_trans)
    then show ?thesis using p1(2) Some by (auto intro: Name_GetValue_extends)
  qed
  moreover have "n = m" if eq: "map_option c_str s = map_option c_str t"
  proof (cases s)
    case None
    with eq first second show ?thesis by (auto simp: Name_make_def)
  next
    case (Some u)
    then have "Name_GetValue p2 n = Some (c_str u)" "Name_GetValue p2 m = Some (c_str u)"
      using n p2(3) by (simp_all add: eq [symmetric])
    with p2(1) show ?thesis by (rule Name_GetValue_inj)
  qed
  ultimately show ?thesis using p2(3) by (auto simp: Name_eq_def)
qed

theorem name_interning_witness:
  "Name_eq (fst (Name_make [] (Some ''ab'')))
     (fst (Name_make (Name_makes (snd (Name_make [] (Some ''ab''))) [Some ''x'', None]) (Some ''ab'')))"
proof -
  have "pool_wf []" by (simp add: pool_wf_def)
  from name_interning [OF this prod.collapse [symmetric] prod.collapse [symmetric],
      of "Some ''ab''" "[Some ''x'', None]" "Some ''ab''"]
  show ?thesis by simp
qed


section \<open>Hashed strings\<close>

text \<open>
  A \<open>HashName\<close> holds a string and a hash. The hash of a \<open>std::string\<close> runs over all its
  characters; the constructors that take a hash keep it as given.
\<close>

datatype hash_name = HashName (m_strValue: string) (m_iHash: u32)

definition HashName_Hash_string :: "string \<Rightarrow> u32" where
  "HashName_Hash_string strValue = hash_loop strValue 5381"

definition HashName_Hash_cstr :: "string \<Rightarrow> u32" where
  "HashName_Hash_cstr pStr = hash_loop (c_str pStr) 5381"

definition HashName_of_string :: "string \<Rightarrow> hash_name" where
  "HashName_of_string strValue = HashName strValue (HashName_Hash_string strValue)"

definition HashName_of_cstr :: "string \<Rightarrow> hash_name" where
  "HashName_of_cstr pStr = HashName (c_str pStr) (HashName_Hash_cstr pStr)"

definition HashName_default :: hash_name where
  "HashName_default = HashName [] 0"

definition HashName_eq :: "hash_name \<Rightarrow> hash_name \<Rightarrow> bool" where
  "HashName_eq this other =
     (if m_iHash this \<noteq> m_iHash other then False
      else if m_strValue this = m_strValue other then True
      else m_strValue this = m_strValue other)"

definition HashName_less :: "hash_name \<Rightarrow> hash_name \<Rightarrow> bool" where
  "HashName_less this other =
     (if m_iHash this = m_iHash other then m_strValue this < m_strValue other
      else m_iHash this < m_iHash other)"

lemma HashName_eq_iff: "HashName_eq a b \<longleftrightarrow> a = b"
  by (cases a; cases b) (simp add: HashName_eq_def)

text \<open>\<open>operator<\<close> orders by hash, then by string: a linear order whose equality is \<open>operator==\<close>.\<close>

instantiation hash_name :: linorder
begin

definition less_hash_name :: "hash_name \<Rightarrow> hash_name \<Rightarrow> bool" where
  "a < b \<longleftrightarrow> HashName_less a b"

definition less_eq_hash_name :: "hash_name \<Rightarrow> hash_name \<Rightarrow> bool" where
  "a \<le> b \<longleftrightarrow> HashName_less a b \<or> HashName_eq a b"

instance
proof
  fix a b c :: hash_name
  show "a < b \<longleftrightarrow> a \<le> b \<and> \<not> b \<le> a"
    by (auto simp: less_hash_name_def less_eq_hash_name_def HashName_less_def HashName_eq_iff
        split: if_splits)
  show "a \<le> a"
    by (simp add: less_eq_hash_name_def HashName_eq_iff)
  show "a \<le> b \<Longrightarrow> b \<le> c \<Longrightarrow> a \<le> c"
    by (auto simp: less_eq_hash_name_def HashName_less_def HashName_eq_iff split: if_splits)
  show "a \<le> b \<Longrightarrow> b \<le> a \<Longrightarrow> a = b"
    by (auto simp: less_eq_hash_name_def HashName_less_def HashName_eq_iff split: if_splits)
  show "a \<le> b \<or> b \<le> a"
    by (cases a; cases b) (auto simp: less_eq_hash_name_def HashName_less_def HashName_eq_iff)
qed

end

text \<open>
  A map keyed by hashed strings finds exactly the key it stored: for strings without a
  NUL, the key built from the \<open>std::string\<close> and the key built from the C string are the
  same entry, keys built from different strings are different entries whatever their hashes,
  and both hash functions compute the multiply-by-33 polynomial of the string.
\<close>

theorem hash_name_map_lookup:
  fixes m :: "(hash_name \<times> 'v) list"
  assumes "om_wf m" and "c_str s = s" and "c_str t = t"
  shows "map_of (om_put (HashName_of_string s) v m) (HashName_of_cstr t) =
      (if s = t then Some v else map_of m (HashName_of_cstr t)) \<and>
    om_wf (om_put (HashName_of_string s) v m) \<and>
    m_iHash (HashName_of_cstr t) =
      33 ^ length t * 5381 + (\<Sum>i<length t. 33 ^ (length t - 1 - i) * char_u32 (t ! i))"
proof -
  have "HashName_of_cstr t = HashName_of_string t"
    using assms(3) by (simp add: HashName_of_cstr_def HashName_of_string_def
        HashName_Hash_cstr_def HashName_Hash_string_def)
  moreover have "HashName_of_string s = HashName_of_string t \<longleftrightarrow> s = t"
    by (auto simp: HashName_of_string_def)
  moreover have "om_wf (om_put (HashName_of_string s) v m)"
    using assms(1) by (rule om.wf_put)
  ultimately show ?thesis
    using assms(1) by (auto simp: om.get_put HashName_of_string_def HashName_Hash_string_def
        hash_loop_poly)
qed

theorem hash_name_map_lookup_witness:
  "map_of (om_put (HashName_of_string ''gold'') (7::nat) []) (HashName_of_cstr ''gold'') = Some 7"
  using hash_name_map_lookup [of "[]" "''gold''" "''gold''" "7::nat"]
  by (simp add: c_str_def)

end
