(* ===== verification/Paged_Directory.thy ===== *)
theory Paged_Directory
  imports Gm_Prelude
begin

text \<open>
  \<open>LibActor/Directory.h\<close>: a table of entries in pages of 256, allocated on demand. Indices are
  handed out in order; when all 8192 are gone the entries are searched for one to reuse. The
  entry type's \<open>IsUsed\<close> and its default constructor are parameters, as they are of the class
  template.
\<close>

section \<open>The directory\<close>

definition ENTRIES_PER_PAGE :: u32 where "ENTRIES_PER_PAGE = 256"
definition MAX_PAGES :: u32 where "MAX_PAGES = 32"

record 'e directory =
  m_iNextIndex :: u32
  m_Pages :: "'e list option list"
  m_iMaxIndex :: u32
  m_iReuseIndex :: u32

definition Directory_init :: "'e directory" where
  "Directory_init =
     \<lparr> m_iNextIndex = 0, m_Pages = replicate (unat MAX_PAGES) None,
       m_iMaxIndex = 0, m_iReuseIndex = 0 \<rparr>"

text \<open>
  \<open>GetEntry\<close> returns a reference: \<open>Directory_GetEntry\<close> reads through it and
  \<open>Directory_SetEntry\<close> writes through it.
\<close>

definition Directory_GetEntry :: "'e directory \<Rightarrow> u32 \<Rightarrow> 'e res" where
  "Directory_GetEntry d index =
     (let page = index div ENTRIES_PER_PAGE; offset = index mod ENTRIES_PER_PAGE in
      assert_utils (page < MAX_PAGES)
        (assert_utils (offset < ENTRIES_PER_PAGE)
          (case m_Pages d ! unat page of
             None \<Rightarrow> Inl Assert_fail
           | Some mEntries \<Rightarrow> Inr (mEntries ! unat offset))))"

definition Directory_SetEntry :: "'e directory \<Rightarrow> u32 \<Rightarrow> 'e \<Rightarrow> 'e directory" where
  "Directory_SetEntry d index e =
     (let page = index div ENTRIES_PER_PAGE; offset = index mod ENTRIES_PER_PAGE in
      case m_Pages d ! unat page of
        None \<Rightarrow> d
      | Some mEntries \<Rightarrow>
          d\<lparr>m_Pages := (m_Pages d)[unat page := Some (mEntries[unat offset := e])]\<rparr>)"

text \<open>The reuse loop: the first index whose entry is not used, if there is one.\<close>

fun Directory_scan :: "('e \<Rightarrow> bool) \<Rightarrow> 'e directory \<Rightarrow> nat list \<Rightarrow> u32 option res" where
  "Directory_scan IsUsed d [] = Inr None"
| "Directory_scan IsUsed d (i # is) =
     rbind (Directory_GetEntry d (of_nat i))
       (\<lambda>e. if \<not> IsUsed e then Inr (Some (of_nat i)) else Directory_scan IsUsed d is)"

definition Directory_indices :: "nat list" where
  "Directory_indices = [0..<unat (MAX_PAGES * ENTRIES_PER_PAGE)]"

definition Directory_reuse :: "('e \<Rightarrow> bool) \<Rightarrow> 'e directory \<Rightarrow> u32 \<Rightarrow> (u32 \<times> 'e directory) res" where
  "Directory_reuse IsUsed d index =
     rbind (Directory_scan IsUsed d Directory_indices)
       (\<lambda>found.
          let index = (case found of None \<Rightarrow> index | Some i \<Rightarrow> i);
              reuse = index + 1
          in Inr (index, d\<lparr>m_iReuseIndex :=
                   (if MAX_PAGES * ENTRIES_PER_PAGE \<le> reuse then 0 else reuse)\<rparr>))"

definition Directory_ensure_page :: "'e \<Rightarrow> 'e directory \<Rightarrow> u32 \<Rightarrow> 'e directory res" where
  "Directory_ensure_page dflt d index =
     (let page = unat (index div ENTRIES_PER_PAGE) in
      if length (m_Pages d) \<le> page then Inl Out_of_range
      else if m_Pages d ! page = None
      then Inr (d\<lparr>m_Pages := (m_Pages d)[page := Some (replicate (unat ENTRIES_PER_PAGE) dflt)]\<rparr>)
      else Inr d)"

definition Directory_Allocate ::
  "('e \<Rightarrow> bool) \<Rightarrow> 'e \<Rightarrow> 'e directory \<Rightarrow> u32 \<Rightarrow> (u32 \<times> 'e directory) res" where
  "Directory_Allocate IsUsed dflt d index =
     rbind
       (if index = - 1
        then (if m_iNextIndex d < MAX_PAGES * ENTRIES_PER_PAGE
              then Inr (m_iNextIndex d, d\<lparr>m_iNextIndex := m_iNextIndex d + 1\<rparr>)
              else Directory_reuse IsUsed d index)
        else Inr (index, d))
       (\<lambda>(index, d). rbind (Directory_ensure_page dflt d index)
          (\<lambda>d. Inr (index, if m_iNextIndex d < index then d\<lparr>m_iMaxIndex := index\<rparr> else d)))"

definition Directory_GetMaxIndex :: "'e directory \<Rightarrow> u32" where
  "Directory_GetMaxIndex d = m_iMaxIndex d"


section \<open>Well-formed directories\<close>

text \<open>
  An index is valid when its page exists. Every index handed out so far is valid.
\<close>

definition dir_valid :: "'e directory \<Rightarrow> u32 \<Rightarrow> bool" where
  "dir_valid d i \<longleftrightarrow> unat i < 8192 \<and> m_Pages d ! (unat i div 256) \<noteq> None"

definition dir_wf :: "'e directory \<Rightarrow> bool" where
  "dir_wf d \<longleftrightarrow> length (m_Pages d) = 32 \<and>
     (\<forall>es. Some es \<in> set (m_Pages d) \<longrightarrow> length es = 256) \<and>
     unat (m_iNextIndex d) \<le> 8192 \<and>
     (\<forall>i. unat i < unat (m_iNextIndex d) \<longrightarrow> dir_valid d i)"

lemma unat_page: "unat (i div 256 :: u32) = unat i div 256" "unat (i mod 256 :: u32) = unat i mod 256"
  by (simp_all add: unat_div unat_mod)

lemma page_less_iff: "(i div 256 :: u32) < 32 \<longleftrightarrow> unat i < 8192"
  by (simp add: word_less_nat_alt unat_page div_less_iff_less_mult)

lemma dir_consts [simp]:
  "ENTRIES_PER_PAGE = 256" "MAX_PAGES = 32" "MAX_PAGES * ENTRIES_PER_PAGE = 8192"
  by (simp_all add: ENTRIES_PER_PAGE_def MAX_PAGES_def)

lemma offset_less: "(i mod 256 :: u32) < 256"
  by (simp add: word_less_nat_alt unat_page)

lemma Directory_GetEntry_alt:
  "Directory_GetEntry d i =
     (if dir_valid d i then Inr (the (m_Pages d ! (unat i div 256)) ! (unat i mod 256))
      else Inl Assert_fail)"
  by (auto simp: Directory_GetEntry_def Let_def dir_valid_def page_less_iff offset_less unat_page
      assert_utils_def split: option.split)

lemma Directory_SetEntry_alt:
  "dir_valid d i \<Longrightarrow> Directory_SetEntry d i e =
     d\<lparr>m_Pages := (m_Pages d)[unat i div 256 :=
        Some ((the (m_Pages d ! (unat i div 256)))[unat i mod 256 := e])]\<rparr>"
  by (auto simp: Directory_SetEntry_def Let_def dir_valid_def unat_page split: option.split)

lemma page_index_less: "unat (i :: u32) < 8192 \<Longrightarrow> unat i div 256 < 32"
  by simp

lemma dir_wf_page:
  assumes "dir_wf d" and "dir_valid d i"
  shows "length (the (m_Pages d ! (unat i div 256))) = 256"
proof -
  from assms have "unat i div 256 < length (m_Pages d)"
    by (simp add: dir_wf_def dir_valid_def page_index_less)
  then have "m_Pages d ! (unat i div 256) \<in> set (m_Pages d)" by (rule nth_mem)
  with assms show ?thesis by (auto simp: dir_wf_def dir_valid_def)
qed

lemma same_cell_iff: "unat i div 256 = unat j div 256 \<and> unat i mod 256 = unat j mod 256 \<longleftrightarrow> i = (j :: u32)"
  by (metis div_mult_mod_eq word_unat_eq_iff)


section \<open>Reading and writing entries\<close>

lemma dir_valid_SetEntry:
  "dir_wf d \<Longrightarrow> dir_valid d i \<Longrightarrow> dir_valid (Directory_SetEntry d i e) j = dir_valid d j"
  by (auto simp: Directory_SetEntry_alt dir_valid_def nth_list_update dir_wf_def split: if_splits)

lemma dir_wf_SetEntry:
  assumes "dir_wf d" and "dir_valid d i"
  shows "dir_wf (Directory_SetEntry d i e)"
proof -
  have "length es = 256"
    if "Some es \<in> set ((m_Pages d)[unat i div 256 :=
        Some ((the (m_Pages d ! (unat i div 256)))[unat i mod 256 := e])])" for es
    using set_update_subset_insert that assms dir_wf_page [OF assms]
    by (fastforce simp: dir_wf_def)
  moreover have "dir_valid (Directory_SetEntry d i e) j" if "unat j < unat (m_iNextIndex d)" for j
    using that assms by (simp add: dir_valid_SetEntry dir_wf_def)
  ultimately show ?thesis
    using assms by (simp add: dir_wf_def Directory_SetEntry_alt)
qed

lemma GetEntry_SetEntry:
  assumes "dir_wf d" and "dir_valid d i" and "dir_valid d j"
  shows "Directory_GetEntry (Directory_SetEntry d i e) j =
    (if j = i then Inr e else Directory_GetEntry d j)"
proof -
  have len: "unat i div 256 < length (m_Pages d)"
    "length (the (m_Pages d ! (unat i div 256))) = 256"
    using assms dir_wf_page [OF assms(1,2)] by (auto simp: dir_wf_def dir_valid_def page_index_less)
  have v: "dir_valid (Directory_SetEntry d i e) j"
    using assms by (simp add: dir_valid_SetEntry)
  show ?thesis
    using assms(2,3) len
    by (auto simp: Directory_GetEntry_alt v)
       (auto simp: Directory_SetEntry_alt nth_list_update same_cell_iff [symmetric])
qed


section \<open>Allocation\<close>

lemma Directory_ensure_page_Inr:
  assumes "dir_wf d" and "Directory_ensure_page dflt d i = Inr d'"
  shows "dir_wf d'" "dir_valid d' i" "m_iNextIndex d' = m_iNextIndex d"
    "m_iMaxIndex d' = m_iMaxIndex d"
    "\<And>j. dir_valid d j \<Longrightarrow> dir_valid d' j \<and> Directory_GetEntry d' j = Directory_GetEntry d j"
    "\<And>j. dir_valid d' j \<Longrightarrow> \<not> dir_valid d j \<Longrightarrow> Directory_GetEntry d' j = Inr dflt"
proof -
  let ?n = "unat i div 256"
  from assms have n: "?n < 32" "unat i < 8192"
    by (auto simp: Directory_ensure_page_def Let_def unat_page dir_wf_def split: if_splits)
  let ?d = "d\<lparr>m_Pages := (m_Pages d)[?n := Some (replicate 256 dflt)]\<rparr>"
  have d': "d' = (if m_Pages d ! ?n = None then ?d else d)"
    using assms(2) n by (auto simp: Directory_ensure_page_def Let_def unat_page split: if_splits)
  show "dir_valid d' i"
    using n assms(1) by (auto simp: d' dir_valid_def dir_wf_def)
  show keep: "dir_valid d' j \<and> Directory_GetEntry d' j = Directory_GetEntry d j"
    if "dir_valid d j" for j
    using that n assms(1)
    by (auto simp: d' dir_valid_def dir_wf_def Directory_GetEntry_alt nth_list_update)
  show "m_iNextIndex d' = m_iNextIndex d" "m_iMaxIndex d' = m_iMaxIndex d"
    by (simp_all add: d')
  show "Directory_GetEntry d' j = Inr dflt" if "dir_valid d' j" "\<not> dir_valid d j" for j
  proof -
    have "unat j div 256 = ?n" "m_Pages d ! ?n = None"
      using that n assms(1) by (auto simp: d' dir_valid_def dir_wf_def nth_list_update split: if_splits)
    then show ?thesis
      using that(1) n assms(1) by (simp add: Directory_GetEntry_alt) (simp add: d' dir_wf_def)
  qed
  have "length es = 256" if "Some es \<in> set (m_Pages d')" for es
    using that assms(1) set_update_subset_insert
    by (fastforce simp: d' dir_wf_def split: if_splits)
  moreover have "dir_valid d' j" if "unat j < unat (m_iNextIndex d)" for j
    using that assms(1) keep by (simp add: dir_wf_def)
  ultimately show "dir_wf d'"
    using assms(1) by (auto simp: dir_wf_def d')
qed

lemma Directory_ensure_page_ok:
  "dir_wf d \<Longrightarrow> unat i < 8192 \<Longrightarrow> \<exists>d'. Directory_ensure_page dflt d i = Inr d'"
  by (simp add: Directory_ensure_page_def Let_def unat_page dir_wf_def not_le page_index_less)

text \<open>What the search for an unused entry finds.\<close>

lemma Directory_scan_Inr:
  assumes "Directory_scan P d is = Inr r"
  shows "(case r of
      None \<Rightarrow> \<forall>i \<in> set is. \<exists>e. Directory_GetEntry d (of_nat i) = Inr e \<and> P e
    | Some k \<Rightarrow> \<exists>xs i ys e. is = xs @ i # ys \<and> k = of_nat i \<and>
        Directory_GetEntry d k = Inr e \<and> \<not> P e \<and>
        (\<forall>j \<in> set xs. \<exists>e. Directory_GetEntry d (of_nat j) = Inr e \<and> P e))"
  using assms
proof (induction "is")
  case Nil
  then show ?case by simp
next
  case (Cons i "is")
  then obtain e where e: "Directory_GetEntry d (of_nat i) = Inr e"
    by (auto simp: rbind_Inr_conv)
  show ?case
  proof (cases "P e")
    case False
    with Cons.prems e have "r = Some (of_nat i)" by simp
    with e False show ?thesis by (auto intro!: exI [of _ "[]"])
  next
    case True
    with Cons.prems e have "Directory_scan P d is = Inr r" by simp
    note IH = Cons.IH [OF this]
    show ?thesis
    proof (cases r)
      case None
      with IH e True show ?thesis by simp
    next
      case (Some k)
      with IH obtain xs l ys where "is = xs @ l # ys" "k = of_nat l"
        "\<exists>e. Directory_GetEntry d k = Inr e \<and> \<not> P e"
        "\<forall>j \<in> set xs. \<exists>e. Directory_GetEntry d (of_nat j) = Inr e \<and> P e"
        by auto
      then have "i # is = (i # xs) @ l # ys \<and> k = of_nat l \<and>
          (\<exists>e. Directory_GetEntry d k = Inr e \<and> \<not> P e) \<and>
          (\<forall>j \<in> set (i # xs). \<exists>e. Directory_GetEntry d (of_nat j) = Inr e \<and> P e)"
        using e True by simp
      with Some show ?thesis by (simp only: option.case) blast
    qed
  qed
qed

lemma Directory_scan_ok:
  "(\<And>i. i \<in> set is \<Longrightarrow> dir_valid d (of_nat i)) \<Longrightarrow> \<exists>r. Directory_scan P d is = Inr r"
  by (induction "is") (auto simp: Directory_GetEntry_alt)

text \<open>
  Automatic allocation below the limit hands out the next index; at the limit it looks for
  the first entry that is not used.
\<close>

lemma Allocate_fresh:
  assumes "dir_wf d" and "unat (m_iNextIndex d) < 8192"
  obtains d' where "Directory_Allocate P dflt d (- 1) = Inr (m_iNextIndex d, d')"
    "dir_wf d'" "dir_valid d' (m_iNextIndex d)" "m_iNextIndex d' = m_iNextIndex d + 1"
    "m_iMaxIndex d' = m_iMaxIndex d"
    "\<And>j. dir_valid d j \<Longrightarrow> dir_valid d' j \<and> Directory_GetEntry d' j = Directory_GetEntry d j"
    "\<And>j. dir_valid d' j \<Longrightarrow> \<not> dir_valid d j \<Longrightarrow> Directory_GetEntry d' j = Inr dflt"
proof -
  let ?n = "m_iNextIndex d" and ?d = "d\<lparr>m_iNextIndex := m_iNextIndex d + 1\<rparr>"
  have n: "?n < 8192" "unat (?n + 1) = Suc (unat ?n)" "\<not> ?n + 1 < ?n"
    using assms(2) by (simp_all add: word_less_nat_alt unat_word_ariths)
  obtain d' where d': "Directory_ensure_page dflt d ?n = Inr d'"
    using Directory_ensure_page_ok [OF assms] by blast
  note E = Directory_ensure_page_Inr [OF assms(1) d']
  let ?r = "d'\<lparr>m_iNextIndex := ?n + 1\<rparr>"
  have "Directory_ensure_page dflt ?d ?n = Inr ?r"
    using d' E(3) by (auto simp: Directory_ensure_page_def Let_def split: if_splits)
  with n have "Directory_Allocate P dflt d (- 1) = Inr (?n, ?r)"
    by (simp add: Directory_Allocate_def)
  moreover have keep: "dir_valid ?r = dir_valid d'" "Directory_GetEntry ?r = Directory_GetEntry d'"
    by (simp_all add: fun_eq_iff dir_valid_def Directory_GetEntry_def)
  moreover have "dir_wf ?r"
  proof -
    have "dir_valid ?r i" if "unat i < unat (?n + 1)" for i
    proof (cases "i = ?n")
      case True
      then show ?thesis using E(2) by (simp add: keep)
    next
      case False
      then have "unat i < unat ?n" using that n(2) by (simp add: word_unat_eq_iff less_Suc_eq)
      then show ?thesis using E(1,3) by (simp add: keep dir_wf_def)
    qed
    then show ?thesis using E(1) assms(2) n(2) by (simp add: dir_wf_def)
  qed
  ultimately show thesis
    using that [of ?r] E by simp
qed

lemma set_Directory_indices: "set Directory_indices = {i. i < 8192}"
  by (auto simp: Directory_indices_def simp del: upt_rec_numeral)

lemma Directory_indices_split:
  assumes "Directory_indices = xs @ i # ys"
  shows "i = length xs" "xs = [0..<i]"
proof -
  obtain n where n: "Directory_indices = [0..<n]" by (simp add: Directory_indices_def)
  have len: "length xs < n" using arg_cong [OF assms, of length] by (simp add: n)
  have "[0..<n] ! length xs = i" by (simp add: assms flip: n)
  then show i: "i = length xs" using len by simp
  have "take (length xs) [0..<n] = xs" by (simp add: assms flip: n)
  then show "xs = [0..<i]" using len i by (simp add: take_upt)
qed

lemma Allocate_reuse:
  assumes "dir_wf d" and "m_iNextIndex d = 8192"
  obtains
    (found) i d' e where "Directory_Allocate P dflt d (- 1) = Inr (of_nat i, d')" "i < 8192"
      "dir_wf d'" "m_Pages d' = m_Pages d" "m_iNextIndex d' = 8192"
      "m_iMaxIndex d' = m_iMaxIndex d"
      "Directory_GetEntry d (of_nat i) = Inr e" "\<not> P e"
      "\<forall>j < i. \<exists>e. Directory_GetEntry d (of_nat j) = Inr e \<and> P e"
  | (full) "Directory_Allocate P dflt d (- 1) = Inl Out_of_range"
      "\<forall>j < 8192. \<exists>e. Directory_GetEntry d (of_nat j) = Inr e \<and> P e"
proof -
  have v: "dir_valid d (of_nat i)" if "i < 8192" for i
    using that assms by (simp add: dir_wf_def unat_of_nat)
  obtain r where r: "Directory_scan P d Directory_indices = Inr r"
    using Directory_scan_ok [of Directory_indices d P] v by (auto simp: set_Directory_indices)
  note S = Directory_scan_Inr [OF r]
  show thesis
  proof (cases r)
    case None
    have "unat (- 1 :: u32) div 256 = 16777215"
      by (simp add: unsigned_minus_1_eq_mask mask_eq_exp_minus_1)
    then have "Directory_Allocate P dflt d (- 1) = Inl Out_of_range"
      using r None assms by (simp add: Directory_Allocate_def Directory_reuse_def
          Directory_ensure_page_def Let_def unat_page dir_wf_def)
    moreover have "\<forall>j < 8192. \<exists>e. Directory_GetEntry d (of_nat j) = Inr e \<and> P e"
      using S None by (simp add: set_Directory_indices)
    ultimately show thesis by (rule full)
  next
    case (Some k)
    with S obtain xs i ys e where i: "Directory_indices = xs @ i # ys" "k = of_nat i"
        "Directory_GetEntry d k = Inr e" "\<not> P e"
        "\<forall>j \<in> set xs. \<exists>e. Directory_GetEntry d (of_nat j) = Inr e \<and> P e"
      by (simp only: option.case) blast
    have below: "\<forall>j < i. \<exists>e. Directory_GetEntry d (of_nat j) = Inr e \<and> P e"
      using i(5) by (subst (asm) Directory_indices_split(2) [OF i(1)]) simp
    have "i \<in> set Directory_indices" by (simp add: i(1))
    then have "i < 8192" by (simp add: set_Directory_indices)
    define ru where "ru = (if 8192 \<le> k + 1 then 0 else k + 1)"
    let ?d = "d\<lparr>m_iReuseIndex := ru\<rparr>"
    have k: "unat k = i" using \<open>i < 8192\<close> by (simp add: i(2) unat_of_nat)
    have v': "dir_valid ?d j = dir_valid d j" for j by (simp add: dir_valid_def)
    have "Directory_ensure_page dflt ?d k = Inr ?d"
      using v [OF \<open>i < 8192\<close>] k \<open>i < 8192\<close> assms(1) i(2)
      by (auto simp: Directory_ensure_page_def Let_def unat_page dir_valid_def dir_wf_def)
    moreover have "\<not> 8192 < k" using k \<open>i < 8192\<close> by (simp add: word_less_nat_alt)
    moreover have "Directory_reuse P d (- 1) = Inr (k, ?d)"
      using r Some by (simp add: Directory_reuse_def Let_def ru_def)
    ultimately have "Directory_Allocate P dflt d (- 1) = Inr (k, ?d)"
      using assms(2) by (simp add: Directory_Allocate_def)
    moreover have "dir_wf ?d" using assms(1) by (simp add: dir_wf_def v')
    ultimately show thesis
      using found [of i ?d e] \<open>i < 8192\<close> assms(2) i(2,3,4) below by simp
  qed
qed

text \<open>
  A run of automatic allocations from the empty directory. As long as indices are left, the
  run gives 0, 1, 2, ... in order.
\<close>

fun Directory_Allocates :: "('e \<Rightarrow> bool) \<Rightarrow> 'e \<Rightarrow> nat \<Rightarrow> 'e directory \<Rightarrow> (u32 list \<times> 'e directory) res" where
  "Directory_Allocates P dflt 0 d = Inr ([], d)"
| "Directory_Allocates P dflt (Suc n) d =
     rbind (Directory_Allocate P dflt d (- 1))
       (\<lambda>(i, d). rbind (Directory_Allocates P dflt n d) (\<lambda>(is, d). Inr (i # is, d)))"

lemma dir_wf_init: "dir_wf Directory_init"
  by (auto simp: dir_wf_def Directory_init_def)

lemma Directory_Allocates_fresh:
  assumes "dir_wf d" and "unat (m_iNextIndex d) + n \<le> 8192"
    and "\<And>i. dir_valid d i \<Longrightarrow> Directory_GetEntry d i = Inr dflt"
  shows "\<exists>d'. Directory_Allocates P dflt n d =
      Inr (map of_nat [unat (m_iNextIndex d)..<unat (m_iNextIndex d) + n], d') \<and>
    dir_wf d' \<and> unat (m_iNextIndex d') = unat (m_iNextIndex d) + n \<and>
    m_iMaxIndex d' = m_iMaxIndex d \<and>
    (\<forall>i. dir_valid d' i \<longrightarrow> Directory_GetEntry d' i = Inr dflt)"
  using assms
proof (induction n arbitrary: d)
  case 0
  then show ?case by simp
next
  case (Suc n)
  let ?n = "m_iNextIndex d"
  have n: "unat ?n < 8192" using Suc.prems(2) by simp
  obtain d1 where d1: "Directory_Allocate P dflt d (- 1) = Inr (?n, d1)" "dir_wf d1"
      "dir_valid d1 ?n" "m_iNextIndex d1 = ?n + 1" "m_iMaxIndex d1 = m_iMaxIndex d"
      "\<And>j. dir_valid d j \<Longrightarrow> dir_valid d1 j \<and> Directory_GetEntry d1 j = Directory_GetEntry d j"
      "\<And>j. dir_valid d1 j \<Longrightarrow> \<not> dir_valid d j \<Longrightarrow> Directory_GetEntry d1 j = Inr dflt"
    using Allocate_fresh [OF Suc.prems(1) n] by blast
  have n1: "unat (m_iNextIndex d1) = Suc (unat ?n)"
    using n by (simp add: d1(4) unat_word_ariths)
  have dflt: "Directory_GetEntry d1 i = Inr dflt" if "dir_valid d1 i" for i
    using that d1(6,7) Suc.prems(3) by metis
  obtain d' where d': "Directory_Allocates P dflt n d1 =
        Inr (map of_nat [Suc (unat ?n)..<Suc (unat ?n) + n], d')" "dir_wf d'"
      "unat (m_iNextIndex d') = Suc (unat ?n) + n" "m_iMaxIndex d' = m_iMaxIndex d1"
      "\<forall>i. dir_valid d' i \<longrightarrow> Directory_GetEntry d' i = Inr dflt"
    using Suc.IH [OF d1(2) _ dflt] n1 Suc.prems(2) by auto
  have "[unat ?n..<unat ?n + Suc n] = unat ?n # [Suc (unat ?n)..<Suc (unat ?n) + n]"
    by (simp add: upt_rec)
  with d1(1,5) d' show ?case by simp
qed



section \<open>The contract of an entry table\<close>

text \<open>
  What the framework relies on: an allocated index is readable and was not taken from another
  user's entry's place, entries other than the one written keep their value, and every
  operation keeps the table well-formed.
\<close>

locale entry_table =
  fixes alloc :: "'t \<Rightarrow> ('i \<times> 't) res"
    and get :: "'t \<Rightarrow> 'i \<Rightarrow> 'e res"
    and put :: "'t \<Rightarrow> 'i \<Rightarrow> 'e \<Rightarrow> 't"
    and valid :: "'t \<Rightarrow> 'i \<Rightarrow> bool"
    and inv :: "'t \<Rightarrow> bool"
  assumes get_valid: "inv t \<Longrightarrow> valid t i \<Longrightarrow> \<exists>e. get t i = Inr e"
    and get_invalid: "\<not> valid t i \<Longrightarrow> get t i = Inl Assert_fail"
    and alloc_inv: "inv t \<Longrightarrow> alloc t = Inr (i, t') \<Longrightarrow> inv t'"
    and alloc_valid: "inv t \<Longrightarrow> alloc t = Inr (i, t') \<Longrightarrow> valid t' i"
    and alloc_keep: "inv t \<Longrightarrow> alloc t = Inr (i, t') \<Longrightarrow> valid t j \<Longrightarrow> valid t' j \<and> get t' j = get t j"
    and put_inv: "inv t \<Longrightarrow> valid t i \<Longrightarrow> inv (put t i e)"
    and put_valid: "inv t \<Longrightarrow> valid t i \<Longrightarrow> valid (put t i e) j = valid t j"
    and get_put: "inv t \<Longrightarrow> valid t i \<Longrightarrow> valid t j \<Longrightarrow> get (put t i e) j = (if j = i then Inr e else get t j)"
begin

lemma get_Inr_valid: "get t i = Inr e \<Longrightarrow> valid t i"
  using get_invalid by (metis Inl_Inr_False)

text \<open>Writing through the reference of an allocated entry touches no other entry.\<close>

lemma alloc_put:
  assumes "inv t" and "alloc t = Inr (i, t')"
  shows "inv (put t' i e)" "get (put t' i e) i = Inr e"
    "valid t j \<Longrightarrow> j \<noteq> i \<Longrightarrow> get (put t' i e) j = get t j"
    "valid t j \<Longrightarrow> valid (put t' i e) j"
  using alloc_inv [OF assms] alloc_valid [OF assms] alloc_keep [OF assms]
  by (simp_all add: put_inv get_put put_valid)

text \<open>Two writes to the same entry leave the second; a read-modify-write is one write.\<close>

lemma get_put_put:
  "inv t \<Longrightarrow> valid t i \<Longrightarrow> valid t j \<Longrightarrow> get (put (put t i e) i e') j = get (put t i e') j"
  by (simp add: get_put put_inv put_valid)

end

lemma GetEntry_valid: "dir_valid d i \<Longrightarrow> \<exists>e. Directory_GetEntry d i = Inr e"
  by (simp add: Directory_GetEntry_alt)

lemma GetEntry_invalid: "\<not> dir_valid d i \<Longrightarrow> Directory_GetEntry d i = Inl Assert_fail"
  by (simp add: Directory_GetEntry_alt)

lemma Allocate_auto_Inr:
  assumes "dir_wf d" and "Directory_Allocate P dflt d (- 1) = Inr (i, d')"
  shows "dir_wf d'" "dir_valid d' i"
    "dir_valid d j \<Longrightarrow> dir_valid d' j \<and> Directory_GetEntry d' j = Directory_GetEntry d j"
proof -
  have "dir_wf d' \<and> dir_valid d' i \<and>
    (\<forall>j. dir_valid d j \<longrightarrow> dir_valid d' j \<and> Directory_GetEntry d' j = Directory_GetEntry d j)"
  proof (cases "unat (m_iNextIndex d) < 8192")
    case True
    with Allocate_fresh [OF assms(1) True, of P dflt] assms(2) show ?thesis
      by (metis Inr_inject prod.inject)
  next
    case False
    with assms(1) have "m_iNextIndex d = 8192"
      by (simp add: dir_wf_def word_unat_eq_iff)
    from assms(1) this show ?thesis
    proof (cases rule: Allocate_reuse [where P = P and dflt = dflt])
      case (found k d'' e)
      then have "d' = d''" "i = of_nat k" using assms(2) by simp_all
      moreover have "dir_valid d'' j = dir_valid d j" "Directory_GetEntry d'' j = Directory_GetEntry d j" for j
        using found(4) by (simp_all add: dir_valid_def Directory_GetEntry_def)
      moreover have "dir_valid d (of_nat k)"
        using found(7) by (simp add: Directory_GetEntry_alt split: if_splits)
      ultimately show ?thesis using found(3) by simp
    next
      case full
      with assms(2) show ?thesis by simp
    qed
  qed
  then show "dir_wf d'" "dir_valid d' i"
    "dir_valid d j \<Longrightarrow> dir_valid d' j \<and> Directory_GetEntry d' j = Directory_GetEntry d j"
    by blast+
qed

interpretation dir: entry_table "\<lambda>d. Directory_Allocate P dflt d (- 1)" Directory_GetEntry
  Directory_SetEntry dir_valid dir_wf
  for P dflt
  by unfold_locales
     (simp_all add: GetEntry_SetEntry dir_wf_SetEntry dir_valid_SetEntry GetEntry_valid
       GetEntry_invalid Allocate_auto_Inr)

text \<open>
  C8. The first 8192 automatic allocations from the empty directory return the indices 0, 1,
  2, ... in order, every allocated entry is readable and default-constructed, and
  \<open>GetMaxIndex\<close> is still 0 afterwards: the index just handed out is always below
  \<open>m_iNextIndex\<close>, so the update of \<open>m_iMaxIndex\<close> never runs.
\<close>

theorem directory_allocates_in_order:
  assumes "n \<le> 8192"
  shows "\<exists>d. Directory_Allocates P dflt n Directory_init = Inr (map of_nat [0..<n], d) \<and>
    (\<forall>i < n. Directory_GetEntry d (of_nat i) = Inr dflt) \<and> Directory_GetMaxIndex d = 0"
proof -
  have init: "m_iNextIndex Directory_init = 0" "m_iMaxIndex Directory_init = 0"
    "\<not> dir_valid Directory_init i" for i
    by (simp_all add: Directory_init_def dir_valid_def page_index_less)
  obtain d where d: "Directory_Allocates P dflt n Directory_init = Inr (map of_nat [0..<n], d)"
      "dir_wf d" "unat (m_iNextIndex d) = n" "m_iMaxIndex d = 0"
      "\<forall>i. dir_valid d i \<longrightarrow> Directory_GetEntry d i = Inr dflt"
    using Directory_Allocates_fresh [OF dir_wf_init, of n dflt P] assms by (auto simp: init)
  have "dir_valid d (of_nat i)" if "i < n" for i
    using that d(2,3) assms by (simp add: dir_wf_def unat_of_nat)
  with d show ?thesis by (auto simp: Directory_GetMaxIndex_def)
qed

theorem directory_allocates_in_order_witness:
  "(3::nat) \<le> 8192 \<and> (\<exists>d. Directory_Allocates (\<lambda>b. b) False 3 Directory_init = Inr ([0, 1, 2], d) \<and>
     (\<forall>i < 3. Directory_GetEntry d (of_nat i) = Inr False) \<and> Directory_GetMaxIndex d = 0)"
  using directory_allocates_in_order [of 3 "\<lambda>b. b" False] by (simp add: upt_rec)

text \<open>
  Reuse: when all 8192 indices have been handed out, an automatic allocation returns the
  least index whose entry is not used, changing no entry, and when every entry is used the
  search fails and the page table is indexed out of its bounds with the sentinel index.
\<close>

theorem directory_reuse:
  assumes "dir_wf d" and "m_iNextIndex d = 8192"
  shows "(\<exists>i d' e. Directory_Allocate P dflt d (- 1) = Inr (of_nat i, d') \<and> i < 8192 \<and>
       dir_wf d' \<and> m_Pages d' = m_Pages d \<and>
       Directory_GetEntry d (of_nat i) = Inr e \<and> \<not> P e \<and>
       (\<forall>j < i. \<exists>e. Directory_GetEntry d (of_nat j) = Inr e \<and> P e)) \<or>
     Directory_Allocate P dflt d (- 1) = Inl Out_of_range \<and>
       (\<forall>j < 8192. \<exists>e. Directory_GetEntry d (of_nat j) = Inr e \<and> P e)"
  using assms
proof (cases rule: Allocate_reuse [where P = P and dflt = dflt])
  case found
  then show ?thesis by blast
next
  case full
  then show ?thesis by blast
qed

definition full_directory :: "bool directory" where
  "full_directory =
     \<lparr> m_iNextIndex = 8192, m_Pages = replicate 32 (Some (replicate 256 True)),
       m_iMaxIndex = 0, m_iReuseIndex = 0 \<rparr>"

theorem directory_reuse_witness:
  "Directory_Allocate (\<lambda>b. b) False full_directory (- 1) = Inl Out_of_range"
proof -
  have v: "dir_valid full_directory i \<longleftrightarrow> unat i < 8192" for i
    by (auto simp: dir_valid_def full_directory_def page_index_less)
  have "dir_wf full_directory"
    by (simp add: dir_wf_def v) (simp add: full_directory_def)
  moreover have "m_iNextIndex full_directory = 8192" by (simp add: full_directory_def)
  moreover have "Directory_GetEntry full_directory (of_nat i) = Inr e \<Longrightarrow> e" for i e
    by (auto simp: Directory_GetEntry_alt v page_index_less split: if_splits)
       (simp add: full_directory_def page_index_less)
  ultimately show ?thesis
    using directory_reuse [of full_directory "\<lambda>b. b" False] by blast
qed

end
