(* ===== verification/Mailboxes.thy ===== *)
theory Mailboxes
  imports Address Name_Pool
begin

text \<open>
  \<open>LibActor/Message/*.h\<close> and \<open>LibActor/Mailbox.*\<close>: messages, the table of an actor's message
  handlers, and the mailbox, whose receive queue is swapped with its handling queue each time
  a worker processes it.
\<close>

section \<open>Messages\<close>

text \<open>
  A message carries its type's identifier, the sender's address and a value. A pointer to a
  message (\<open>IMessagePtr\<close>) may be null. Message types that were not registered all have the
  identifier 0 (the initialiser of the unspecialised \<open>MessageTraits\<close>).
\<close>

record 'v message =
  TypeID :: u32
  From :: address
  m_Value :: 'v

type_synonym 'v msg_ptr = "'v message option"

definition MessageTraits_TYPE_ID :: u32 where
  "MessageTraits_TYPE_ID = 0"

definition ValueMessage_make :: "address \<Rightarrow> u32 \<Rightarrow> 'v \<Rightarrow> 'v msg_ptr" where
  "ValueMessage_make from type_id value = Some \<lparr> TypeID = type_id, From = from, m_Value = value \<rparr>"


section \<open>Handler tables\<close>

text \<open>
  The handler objects are a parameter type. \<open>HandlerCollection_Handle\<close> returns the call that is
  made, the handler with the message's value and sender, or none.
\<close>

type_synonym 'h handlers = "(u32 \<times> 'h) list"

definition HandlerCollection_Add :: "'h handlers \<Rightarrow> u32 \<Rightarrow> 'h \<Rightarrow> (bool \<times> 'h handlers) res" where
  "HandlerCollection_Add m_mapHandles nHashValue pHandler =
     (case map_of m_mapHandles nHashValue of
        None \<Rightarrow> Inr (True, om_ins nHashValue pHandler m_mapHandles)
      | Some _ \<Rightarrow> Inl Assert_fail)"

definition MessageHandler_Handle :: "'h \<Rightarrow> 'v message \<Rightarrow> 'h \<times> 'v \<times> address" where
  "MessageHandler_Handle h message = (h, m_Value message, From message)"

definition HandlerCollection_Handle :: "'h handlers \<Rightarrow> 'v message \<Rightarrow> ('h \<times> 'v \<times> address) option" where
  "HandlerCollection_Handle m_mapHandles message =
     (case map_of m_mapHandles (TypeID message) of
        Some h \<Rightarrow> Some (MessageHandler_Handle h message)
      | None \<Rightarrow> None)"

definition HandlerCollection_Clear :: "'h handlers \<Rightarrow> 'h handlers" where
  "HandlerCollection_Clear m_mapHandles = []"

text \<open>
  Dispatch: after a handler is added under an identifier that was free, a message is
  given to that handler exactly when it carries this identifier, and every other message is
  dispatched as before; adding a second handler under the same identifier (in particular for
  any two unregistered message types, whose identifiers are both 0) fails.
\<close>

theorem handler_dispatch:
  assumes "om_wf hs" and "map_of hs k = None"
  shows "\<exists>hs'. HandlerCollection_Add hs k h = Inr (True, hs') \<and> om_wf hs' \<and>
    (\<forall>m :: 'v message. HandlerCollection_Handle hs' m =
       (if TypeID m = k then Some (h, m_Value m, From m) else HandlerCollection_Handle hs m)) \<and>
    (\<forall>h2. HandlerCollection_Add hs' k h2 = Inl Assert_fail)"
  using assms
  by (auto simp: HandlerCollection_Add_def HandlerCollection_Handle_def MessageHandler_Handle_def
      map_of_om_ins)

theorem handler_dispatch_witness:
  "\<exists>hs'. HandlerCollection_Add [] MessageTraits_TYPE_ID (7::nat) = Inr (True, hs') \<and>
    HandlerCollection_Handle hs' \<lparr> TypeID = 0, From = 5, m_Value = ''hi'' \<rparr> = Some (7, ''hi'', 5) \<and>
    HandlerCollection_Add hs' MessageTraits_TYPE_ID 8 = Inl Assert_fail"
proof -
  obtain hs' where "HandlerCollection_Add [] MessageTraits_TYPE_ID (7::nat) = Inr (True, hs')"
    "\<forall>m :: string message. HandlerCollection_Handle hs' m =
      (if TypeID m = MessageTraits_TYPE_ID then Some (7, m_Value m, From m)
       else HandlerCollection_Handle [] m)"
    "\<forall>h2. HandlerCollection_Add hs' MessageTraits_TYPE_ID h2 = Inl Assert_fail"
    using handler_dispatch [of "[]" MessageTraits_TYPE_ID "7::nat"] by auto
  then show ?thesis by (intro exI [of _ hs']) (simp add: MessageTraits_TYPE_ID_def)
qed


section \<open>The mailbox\<close>

text \<open>
  The scheduler and the actor are referred to by whether the pointer is set and by the
  actor's identity. \<open>m_nUnHanle\<close> counts the messages of the handling queue that are left.
\<close>

record 'v mailbox =
  m_pScheduler :: bool
  m_listRecive :: "'v msg_ptr list"
  m_pActor :: "nat option"
  m_listHandle :: "'v msg_ptr list"
  m_nUnHanle :: u32
  m_Name :: name
  mb_Address :: address

definition Mailbox_init :: "'v mailbox" where
  "Mailbox_init =
     \<lparr> m_pScheduler = False, m_listRecive = [], m_pActor = None, m_listHandle = [],
       m_nUnHanle = 0, m_Name = None, mb_Address = 0 \<rparr>"

definition Mailbox_SetName :: "name \<Rightarrow> 'v mailbox \<Rightarrow> 'v mailbox" where
  "Mailbox_SetName n mb = mb\<lparr>m_Name := n\<rparr>"

definition Mailbox_SetAddress :: "address \<Rightarrow> 'v mailbox \<Rightarrow> 'v mailbox" where
  "Mailbox_SetAddress a mb = mb\<lparr>mb_Address := a\<rparr>"

definition Mailbox_SetScheduler :: "bool \<Rightarrow> 'v mailbox \<Rightarrow> 'v mailbox" where
  "Mailbox_SetScheduler pScheduler mb = mb\<lparr>m_pScheduler := pScheduler\<rparr>"

text \<open>
  \<open>RegisterActor\<close> also writes the mailbox's address into the actor: the second component of
  the result is the address written.
\<close>

definition Mailbox_RegisterActor :: "nat option \<Rightarrow> 'v mailbox \<Rightarrow> ('v mailbox \<times> address) res" where
  "Mailbox_RegisterActor pActor mb =
     assert_utils (pActor \<noteq> None) (Inr (mb\<lparr>m_pActor := pActor\<rparr>, mb_Address mb))"

definition Mailbox_UnRegisterActor :: "'v mailbox \<Rightarrow> 'v mailbox" where
  "Mailbox_UnRegisterActor mb = mb\<lparr>m_pActor := None, m_listRecive := []\<rparr>"

definition Mailbox_IsHandling :: "'v mailbox \<Rightarrow> bool" where
  "Mailbox_IsHandling mb \<longleftrightarrow> m_nUnHanle mb \<noteq> 0"

definition Mailbox_IsUsed :: "'v mailbox \<Rightarrow> bool" where
  "Mailbox_IsUsed mb \<longleftrightarrow> m_pActor mb = None"

text \<open>\<open>DebugOut\<close> prints the index and the two queue lengths of a mailbox with messages left.\<close>

definition Mailbox_DebugOut :: "'v mailbox \<Rightarrow> (u32 \<times> nat \<times> nat) option" where
  "Mailbox_DebugOut mb =
     (if 0 < length (m_listRecive mb) \<or> 0 < length (m_listHandle mb)
      then Some (m_Brief_m_Index (mb_Address mb), length (m_listRecive mb), length (m_listHandle mb))
      else None)"

text \<open>
  \<open>PushMsg\<close>: its result, whether \<open>Schedule(this)\<close> is called, and the new mailbox.
\<close>

definition Mailbox_PushMsg :: "'v msg_ptr \<Rightarrow> 'v mailbox \<Rightarrow> (bool \<times> bool \<times> 'v mailbox) res" where
  "Mailbox_PushMsg pMsg mb =
     assert_utils (m_pScheduler mb)
       (if m_pActor mb = None then Inr (False, False, mb)
        else let mb' = mb\<lparr>m_listRecive := m_listRecive mb @ [pMsg]\<rparr>
             in Inr (True, length (m_listRecive mb') = 1, mb'))"

text \<open>
  The parts of \<open>Process\<close>: the swap of the two queues, the count taken before the loop, and one
  round of the loop (the front is handled, removed and counted down).
\<close>

definition Process_swap :: "'v mailbox \<Rightarrow> 'v mailbox" where
  "Process_swap mb = mb\<lparr>m_listHandle := m_listRecive mb, m_listRecive := m_listHandle mb\<rparr>"

definition Process_count :: "'v mailbox \<Rightarrow> 'v mailbox" where
  "Process_count mb = mb\<lparr>m_nUnHanle := of_nat (length (m_listHandle mb))\<rparr>"

definition Process_pop :: "'v mailbox \<Rightarrow> 'v mailbox" where
  "Process_pop mb = mb\<lparr>m_listHandle := tl (m_listHandle mb), m_nUnHanle := m_nUnHanle mb - 1\<rparr>"

text \<open>
  The actor's code is a parameter: its two hooks and what its handlers do, each on the state
  \<open>'s\<close> of the rest of the program, each saying whether it threw a \<open>std::exception\<close>.
\<close>

record ('h, 'v, 's) actor_code =
  m_HandleCollection :: "'h handlers"
  OnBeginMsgHandle :: "'s \<Rightarrow> bool \<times> 's"
  OnEndMsgHandle :: "'s \<Rightarrow> bool \<times> 's"
  run_handler :: "'h \<times> 'v \<times> address \<Rightarrow> 's \<Rightarrow> bool \<times> 's"

definition Process_handle :: "('h, 'v, 's) actor_code \<Rightarrow> 'v msg_ptr \<Rightarrow> 's \<Rightarrow> bool \<times> 's" where
  "Process_handle code pMsg s = (case pMsg of
     None \<Rightarrow> (False, s)
   | Some m \<Rightarrow> (case HandlerCollection_Handle (m_HandleCollection code) m of
       None \<Rightarrow> (False, s)
     | Some c \<Rightarrow> run_handler code c s))"

function (sequential) Process_loop ::
  "('h, 'v, 's) actor_code \<Rightarrow> 'v mailbox \<Rightarrow> 's \<Rightarrow> bool \<times> 'v mailbox \<times> 's" where
  "Process_loop code mb s =
     (case m_listHandle mb of
        [] \<Rightarrow> (False, mb, s)
      | pMsg # _ \<Rightarrow>
          (let (threw, s') = Process_handle code pMsg s in
           if threw then (True, mb, s') else Process_loop code (Process_pop mb) s'))"
  by pat_completeness auto
termination
  by (relation "measure (\<lambda>(_, mb, _). length (m_listHandle mb))") (auto simp: Process_pop_def)

declare Process_loop.simps [simp del]

text \<open>
  \<open>Process\<close> as one thread runs it when nothing else touches the mailbox meanwhile (the
  interleavings are in the theory \<open>Actor_System\<close>): an exception of the actor's code is caught
  and ends the call with the mailbox as it is at that point.
\<close>

definition Mailbox_Process ::
  "('h, 'v, 's) actor_code \<Rightarrow> 'v mailbox \<Rightarrow> 's \<Rightarrow> ('v mailbox \<times> 's) res" where
  "Mailbox_Process code mb s =
     (let mb1 = Process_swap mb in
      if m_pActor mb1 = None then Inl Null_deref
      else let (threw, s1) = OnBeginMsgHandle code s in
        if threw then Inr (mb1, s1)
        else let (threw, mb2, s2) = Process_loop code (Process_count mb1) s1 in
          if threw then Inr (mb2, s2)
          else let (threw, s3) = OnEndMsgHandle code s2 in Inr (mb2, s3))"


section \<open>What one call of Process does\<close>

text \<open>The reference: the messages handled one after the other up to the first exception.\<close>

fun handle_all :: "('h, 'v, 's) actor_code \<Rightarrow> 'v msg_ptr list \<Rightarrow> 's \<Rightarrow> 'v msg_ptr list \<times> 's" where
  "handle_all code [] s = ([], s)"
| "handle_all code (m # ms) s =
     (let (threw, s') = Process_handle code m s in
      if threw then (m # ms, s') else handle_all code ms s')"

lemma handle_all_suffix: "\<exists>d. ms = d @ fst (handle_all code ms s)"
proof (induction ms arbitrary: s)
  case Nil
  then show ?case by simp
next
  case (Cons m ms)
  obtain t s' where ts: "Process_handle code m s = (t, s')" by fastforce
  show ?case
  proof (cases t)
    case True
    with ts show ?thesis by simp
  next
    case False
    obtain d where "ms = d @ fst (handle_all code ms s')" using Cons.IH by blast
    with ts False have "m # ms = (m # d) @ fst (handle_all code (m # ms) s)" by simp
    then show ?thesis by (rule exI)
  qed
qed

lemma Process_loop_handle_all:
  assumes "m_nUnHanle mb = of_nat (length (m_listHandle mb))"
    and "handle_all code (m_listHandle mb) s = (left, s')"
  shows "Process_loop code mb s =
    (left \<noteq> [], mb\<lparr>m_listHandle := left, m_nUnHanle := of_nat (length left)\<rparr>, s')"
  using assms
proof (induction "m_listHandle mb" arbitrary: mb s)
  case Nil
  then show ?case by (simp add: Process_loop.simps [of code mb])
next
  case (Cons m ms)
  obtain t u where tu: "Process_handle code m s = (t, u)" by fastforce
  from Cons.hyps(2) have list: "m_listHandle mb = m # ms" ..
  show ?case
  proof (cases t)
    case True
    with tu list Cons.prems(2) have left: "left = m # ms" "s' = u" by simp_all
    have "mb\<lparr>m_listHandle := left, m_nUnHanle := of_nat (length left)\<rparr> = mb"
      using list Cons.prems(1) by (cases mb) (simp add: left)
    moreover have "Process_loop code mb s = (True, mb, u)"
      using tu True by (subst Process_loop.simps) (simp add: list)
    ultimately show ?thesis by (simp add: left)
  next
    case False
    have "Process_loop code (Process_pop mb) u =
      (left \<noteq> [], (Process_pop mb)\<lparr>m_listHandle := left, m_nUnHanle := of_nat (length left)\<rparr>, s')"
      using Cons.prems tu False list
      by (intro Cons.hyps(1)) (simp_all add: Process_pop_def)
    with tu False list show ?thesis
      by (simp add: Process_loop.simps [of code mb]) (simp add: Process_pop_def)
  qed
qed

text \<open>
  C5. Process, run alone on a registered mailbox whose earlier messages are done, handles the
  received messages in the order they were pushed, skipping null messages and messages no
  handler is registered for, and stops at the first exception. Without an exception both
  queues are empty and the count is 0; an exception leaves the message that threw and
  everything behind it in the handling queue, with the count at their number.
\<close>

theorem process_handles_in_order:
  assumes "m_pActor mb \<noteq> None" and "m_listHandle mb = []"
    and "OnBeginMsgHandle code s = (False, s1)"
    and "handle_all code (m_listRecive mb) s1 = (left, s2)"
    and "OnEndMsgHandle code s2 = (threw, s3)"
  shows "Mailbox_Process code mb s =
      Inr (mb\<lparr>m_listRecive := [], m_listHandle := left, m_nUnHanle := of_nat (length left)\<rparr>,
           if left = [] then s3 else s2) \<and>
    (\<exists>handled. m_listRecive mb = handled @ left)"
proof -
  let ?mb = "Process_count (Process_swap mb)"
  have "Process_loop code ?mb s1 =
    (left \<noteq> [], ?mb\<lparr>m_listHandle := left, m_nUnHanle := of_nat (length left)\<rparr>, s2)"
    using assms(4) by (intro Process_loop_handle_all) (simp_all add: Process_count_def Process_swap_def)
  moreover have "m_pActor (Process_swap mb) \<noteq> None"
    using assms(1) by (simp add: Process_swap_def)
  ultimately have "Mailbox_Process code mb s =
      Inr (?mb\<lparr>m_listHandle := left, m_nUnHanle := of_nat (length left)\<rparr>,
           if left = [] then s3 else s2)"
    using assms(3,5) by (simp add: Mailbox_Process_def Let_def)
  then show ?thesis
    using handle_all_suffix [of "m_listRecive mb" code s1] assms(2,4)
    by (simp add: Process_count_def Process_swap_def)
qed

definition demo_code :: "(nat, string, string list) actor_code" where
  "demo_code =
     \<lparr> m_HandleCollection = [(1, 7)], OnBeginMsgHandle = (\<lambda>s. (False, s)),
       OnEndMsgHandle = (\<lambda>s. (False, s)),
       run_handler = (\<lambda>(h, v, a) s. (v = ''bad'', s @ [v])) \<rparr>"

definition demo_msg :: "string \<Rightarrow> string msg_ptr" where
  "demo_msg v = ValueMessage_make 0 1 v"

definition demo_mailbox :: "string mailbox" where
  "demo_mailbox = Mailbox_init\<lparr>m_pActor := Some 3,
     m_listRecive := [demo_msg ''a'', None, demo_msg ''bad'', demo_msg ''c'']\<rparr>"

theorem process_handles_in_order_witness:
  "\<exists>mb'. Mailbox_Process demo_code demo_mailbox [] = Inr (mb', [''a'', ''bad'']) \<and>
    m_listHandle mb' = [demo_msg ''bad'', demo_msg ''c''] \<and> Mailbox_IsHandling mb'"
  using process_handles_in_order [of demo_mailbox demo_code "[]" "[]"
      "[demo_msg ''bad'', demo_msg ''c'']" "[''a'', ''bad'']" False "[''a'', ''bad'']"]
  by (simp add: demo_mailbox_def demo_code_def demo_msg_def ValueMessage_make_def Mailbox_init_def
      Process_handle_def HandlerCollection_Handle_def MessageHandler_Handle_def
      Mailbox_IsHandling_def)

end
