(* ===== verification/Scheduler.thy ===== *)
theory Scheduler
  imports Mailboxes "HOL-Library.Multiset"
begin

text \<open>
  \<open>LibActor/IScheduler.h\<close> and \<open>LibActor/SchedulerSemaphore.*\<close>: the queue of mailboxes that wait
  for a worker, the choice a worker makes in \<open>Pop\<close>, the constructor and \<open>Init\<close>, and the
  threads' life cycle up to \<open>Destroy\<close>. A mailbox is referred to by its index; the list holds
  pointers, which may be null.
\<close>

section \<open>The waiting list\<close>

type_synonym wait_list = "nat option list"

definition SchedulerSemaphore_Schedule :: "nat \<Rightarrow> wait_list \<Rightarrow> wait_list" where
  "SchedulerSemaphore_Schedule pMailBox m_listWaite = m_listWaite @ [Some pMailBox]"

text \<open>The loop of \<open>Pop\<close>: the mailbox found, what is left of the list, and the busy ones passed.\<close>

fun Pop_loop :: "(nat \<Rightarrow> bool) \<Rightarrow> wait_list \<Rightarrow> wait_list \<Rightarrow> nat option \<times> wait_list \<times> wait_list" where
  "Pop_loop IsHandling [] listBusy = (None, [], listBusy)"
| "Pop_loop IsHandling (pBox # rest) listBusy =
     (case pBox of
        Some b \<Rightarrow>
          (if \<not> IsHandling b then (Some b, rest, listBusy)
           else Pop_loop IsHandling rest (listBusy @ [Some b]))
      | None \<Rightarrow> Pop_loop IsHandling rest listBusy)"

definition SchedulerSemaphore_Pop :: "(nat \<Rightarrow> bool) \<Rightarrow> wait_list \<Rightarrow> nat option \<times> wait_list" where
  "SchedulerSemaphore_Pop IsHandling m_listWaite =
     (let (pBox, rest, listBusy) = Pop_loop IsHandling m_listWaite [] in (pBox, rest @ listBusy))"

text \<open>The mailboxes of a list, without the null pointers.\<close>

fun somes :: "'a option list \<Rightarrow> 'a list" where
  "somes [] = []"
| "somes (None # xs) = somes xs"
| "somes (Some x # xs) = x # somes xs"

lemma somes_append [simp]: "somes (xs @ ys) = somes xs @ somes ys"
  by (induction xs rule: somes.induct) auto

lemma set_somes: "x \<in> set (somes xs) \<longleftrightarrow> Some x \<in> set xs"
  by (induction xs rule: somes.induct) auto

lemma Pop_loop_somes:
  "Pop_loop busy wl acc = (b, rest, acc') \<Longrightarrow>
     (case b of
        None \<Rightarrow> rest = [] \<and> somes acc' = somes acc @ somes wl \<and> (\<forall>i \<in> set (somes wl). busy i)
      | Some i \<Rightarrow> \<not> busy i \<and> (\<exists>passed. somes wl = passed @ i # somes rest \<and>
          somes acc' = somes acc @ passed \<and> (\<forall>j \<in> set passed. busy j)))"
proof (induction busy wl acc rule: Pop_loop.induct)
  case (1 busy acc)
  then show ?case by simp
next
  case (2 busy p wl acc)
  show ?case
  proof (cases p)
    case None
    with 2 show ?thesis by (simp split: option.splits)
  next
    case (Some j)
    show ?thesis
    proof (cases "busy j")
      case False
      with 2 Some show ?thesis by auto
    next
      case True
      have "(case b of
        None \<Rightarrow> rest = [] \<and> somes acc' = somes (acc @ [Some j]) @ somes wl \<and> (\<forall>i \<in> set (somes wl). busy i)
      | Some i \<Rightarrow> \<not> busy i \<and> (\<exists>passed. somes wl = passed @ i # somes rest \<and>
          somes acc' = somes (acc @ [Some j]) @ passed \<and> (\<forall>j \<in> set passed. busy j)))"
        using 2 Some True by simp
      moreover have "\<exists>q. somes (p # wl) = q @ i # somes rest \<and> somes acc' = somes acc @ q \<and>
          (\<forall>k \<in> set q. busy k)"
        if "somes wl = passed @ i # somes rest" "somes acc' = somes (acc @ [Some j]) @ passed"
          "\<forall>k \<in> set passed. busy k" for i passed
        using that True Some by (intro exI [of _ "j # passed"]) simp
      ultimately show ?thesis
        using True Some by (cases b) auto
    qed
  qed
qed

lemma Pop_somes:
  assumes "SchedulerSemaphore_Pop busy wl = (b, wl')"
  shows "case b of
      None \<Rightarrow> somes wl' = somes wl \<and> (\<forall>i \<in> set (somes wl). busy i)
    | Some i \<Rightarrow> \<not> busy i \<and> (\<exists>passed rest. somes wl = passed @ i # rest \<and>
        somes wl' = rest @ passed \<and> (\<forall>j \<in> set passed. busy j))"
proof -
  obtain rest acc where L: "Pop_loop busy wl [] = (b, rest, acc)" "wl' = rest @ acc"
    using assms by (auto simp: SchedulerSemaphore_Pop_def split: prod.splits)
  from Pop_loop_somes [OF L(1)] L(2) show ?thesis
    by (cases b) auto
qed


section \<open>The contract of a scheduler\<close>

text \<open>
  What the mailboxes and the workers rely on: a scheduled mailbox waits until it is popped, a
  pop takes one mailbox that is not being handled, or none when all that wait are.
\<close>

locale scheduler_queue =
  fixes schedule :: "'b \<Rightarrow> 'q \<Rightarrow> 'q"
    and pop :: "('b \<Rightarrow> bool) \<Rightarrow> 'q \<Rightarrow> 'b option \<times> 'q"
    and waiting :: "'q \<Rightarrow> 'b multiset"
  assumes waiting_schedule: "waiting (schedule b q) = add_mset b (waiting q)"
    and pop_None: "pop busy q = (None, q') \<Longrightarrow> waiting q' = waiting q \<and> (\<forall>b \<in># waiting q. busy b)"
    and pop_Some: "pop busy q = (Some b, q') \<Longrightarrow> waiting q = add_mset b (waiting q') \<and> \<not> busy b"
begin

lemma pop_keeps:
  "pop busy q = (r, q') \<Longrightarrow> b \<in># waiting q \<Longrightarrow> r = Some b \<or> b \<in># waiting q'"
  by (cases r) (auto dest: pop_None pop_Some)

lemma pop_subset: "pop busy q = (r, q') \<Longrightarrow> b \<in># waiting q' \<Longrightarrow> b \<in># waiting q"
  by (cases r) (auto dest: pop_None pop_Some)

lemma pop_from_waiting: "pop busy q = (Some b, q') \<Longrightarrow> b \<in># waiting q"
  by (auto dest: pop_Some)

lemma pop_busy: "busy b \<Longrightarrow> pop busy q \<noteq> (Some b, q')"
  by (auto dest: pop_Some)

text \<open>A pop finds work whenever some waiting mailbox is not being handled.\<close>

lemma pop_finds: "b \<in># waiting q \<Longrightarrow> \<not> busy b \<Longrightarrow> \<exists>b' q'. pop busy q = (Some b', q') \<and> b' \<in># waiting q"
  by (metis option.exhaust pop_None pop_from_waiting surj_pair)

end

definition sem_waiting :: "wait_list \<Rightarrow> nat multiset" where
  "sem_waiting wl = mset (somes wl)"

interpretation sem: scheduler_queue SchedulerSemaphore_Schedule SchedulerSemaphore_Pop sem_waiting
proof
  fix b q show "sem_waiting (SchedulerSemaphore_Schedule b q) = add_mset b (sem_waiting q)"
    by (simp add: sem_waiting_def SchedulerSemaphore_Schedule_def)
next
  fix busy q q' assume "SchedulerSemaphore_Pop busy q = (None, q')"
  from Pop_somes [OF this] show "sem_waiting q' = sem_waiting q \<and> (\<forall>b \<in># sem_waiting q. busy b)"
    by (simp add: sem_waiting_def)
next
  fix busy q q' b assume "SchedulerSemaphore_Pop busy q = (Some b, q')"
  from Pop_somes [OF this] show "sem_waiting q = add_mset b (sem_waiting q') \<and> \<not> busy b"
    by (auto simp: sem_waiting_def)
qed

text \<open>
  C6. Pop takes the first waiting mailbox that is not being handled, moves the busy ones it
  passed to the end of the list in their order and drops null pointers; it returns null only
  when every waiting mailbox is being handled, and then keeps all of them waiting.
\<close>

theorem pop_takes_first_idle:
  assumes "SchedulerSemaphore_Pop busy wl = (b, wl')"
  shows "(case b of
      None \<Rightarrow> somes wl' = somes wl \<and> (\<forall>i \<in> set (somes wl). busy i)
    | Some i \<Rightarrow> \<not> busy i \<and> (\<exists>passed rest. somes wl = passed @ i # rest \<and>
        somes wl' = rest @ passed \<and> (\<forall>j \<in> set passed. busy j))) \<and>
    (\<forall>i. \<not> busy i \<and> Some i \<in> set wl \<longrightarrow> b \<noteq> None)"
  using Pop_somes [OF assms] by (auto simp: set_somes split: option.splits)

theorem pop_takes_first_idle_witness:
  "SchedulerSemaphore_Pop (\<lambda>i. i = 4) [Some 4, None, Some 7, Some 9] = (Some 7, [Some 9, Some 4]) \<and>
   \<not> ((7::nat) = 4)"
  using pop_takes_first_idle [of "\<lambda>i. i = 4" "[Some 4, None, Some 7, Some 9]" "Some 7" "[Some 9, Some 4]"]
  by (simp add: SchedulerSemaphore_Pop_def)


section \<open>Construction and Init\<close>

text \<open>
  \<open>m_iMaxThreadNum\<close> is an \<open>option\<close>: \<open>None\<close> is a member that was never written.
\<close>

definition SchedulerSemaphore_make :: "u32 \<Rightarrow> u32 \<Rightarrow> u32 option" where
  "SchedulerSemaphore_make hardware_concurrency nMaxThread =
     (if nMaxThread = 0
      then let nMaxThread = hardware_concurrency * 2;
               nMaxThread = (if nMaxThread = 0 then 4 else nMaxThread)
           in Some nMaxThread
      else None)"

text \<open>\<open>Init\<close> sets the running flag and starts the threads: the flag and the number started.\<close>

definition SchedulerSemaphore_Init :: "u32 option \<Rightarrow> (bool \<times> nat) res" where
  "SchedulerSemaphore_Init m_iMaxThreadNum =
     (case m_iMaxThreadNum of
        None \<Rightarrow> Inl Uninitialised
      | Some n \<Rightarrow> Inr (True, unat n))"

text \<open>
  The number of workers: with the default argument 0, twice the hardware's threads are
  started, or 4 when that number is unknown; with any other argument the member is never
  written and \<open>Init\<close> reads it uninitialised, so a requested number of threads is never used.
\<close>

theorem scheduler_thread_number:
  "SchedulerSemaphore_Init (SchedulerSemaphore_make hc n) =
     (if n \<noteq> 0 then Inl Uninitialised
      else if hc * 2 = 0 then Inr (True, 4)
      else Inr (True, unat (hc * 2)))"
  by (simp add: SchedulerSemaphore_make_def SchedulerSemaphore_Init_def Let_def)



section \<open>Threads and Destroy\<close>

text \<open>
  The life of a worker: \<open>ThreadFunc\<close> reads \<open>m_bRuning\<close>, enters \<open>Pop\<close>, which waits on the
  condition variable when the list is empty, and after \<open>Pop\<close> processes the mailbox and reads
  the flag again. \<open>Destroy\<close> clears the flag, notifies all, then joins. Here only what decides
  about waiting and ending is kept: whether the list is empty, and each worker's place.
  Waking without a notification (a spurious wake-up) is a step of its own, since the standard
  allows it but does not promise it.
\<close>

datatype place = At_flag | Entering | Waiting | Popping | Ended

datatype destroyer = Not_called | Flag_cleared | Joining | Joined

record threads =
  m_bRuning :: bool
  list_empty :: bool
  places :: "nat \<Rightarrow> place"
  destroy :: destroyer

datatype thread_label = Worker nat | Spurious nat | Call_Schedule | Destroying

inductive thread_step :: "nat \<Rightarrow> thread_label \<Rightarrow> threads \<Rightarrow> threads \<Rightarrow> bool" for n where
  flag_set: "w < n \<Longrightarrow> places s w = At_flag \<Longrightarrow> m_bRuning s \<Longrightarrow>
    thread_step n (Worker w) s (s\<lparr>places := (places s)(w := Entering)\<rparr>)"
| flag_clear: "w < n \<Longrightarrow> places s w = At_flag \<Longrightarrow> \<not> m_bRuning s \<Longrightarrow>
    thread_step n (Worker w) s (s\<lparr>places := (places s)(w := Ended)\<rparr>)"
| wait: "w < n \<Longrightarrow> places s w = Entering \<Longrightarrow> list_empty s \<Longrightarrow>
    thread_step n (Worker w) s (s\<lparr>places := (places s)(w := Waiting)\<rparr>)"
| no_wait: "w < n \<Longrightarrow> places s w = Entering \<Longrightarrow> \<not> list_empty s \<Longrightarrow>
    thread_step n (Worker w) s (s\<lparr>places := (places s)(w := Popping)\<rparr>)"
| spurious: "w < n \<Longrightarrow> places s w = Waiting \<Longrightarrow>
    thread_step n (Spurious w) s (s\<lparr>places := (places s)(w := Popping)\<rparr>)"
| pop_done: "w < n \<Longrightarrow> places s w = Popping \<Longrightarrow>
    thread_step n (Worker w) s (s\<lparr>places := (places s)(w := At_flag), list_empty := e\<rparr>)"
| schedule_none: "\<forall>w < n. places s w \<noteq> Waiting \<Longrightarrow>
    thread_step n Call_Schedule s (s\<lparr>list_empty := False\<rparr>)"
| schedule_one: "w < n \<Longrightarrow> places s w = Waiting \<Longrightarrow>
    thread_step n Call_Schedule s (s\<lparr>list_empty := False, places := (places s)(w := Popping)\<rparr>)"
| clear_flag: "destroy s = Not_called \<Longrightarrow>
    thread_step n Destroying s (s\<lparr>m_bRuning := False, destroy := Flag_cleared\<rparr>)"
| notify_all: "destroy s = Flag_cleared \<Longrightarrow>
    thread_step n Destroying s
      (s\<lparr>places := (\<lambda>w. if places s w = Waiting then Popping else places s w), destroy := Joining\<rparr>)"
| join: "destroy s = Joining \<Longrightarrow> \<forall>w < n. places s w = Ended \<Longrightarrow>
    thread_step n Destroying s (s\<lparr>destroy := Joined\<rparr>)"

inductive_cases thread_step_Worker: "thread_step n (Worker w) s t"
inductive_cases thread_step_Destroying: "thread_step n Destroying s t"

text \<open>Runs whose steps all carry a label of \<open>L\<close>.\<close>

inductive thread_run :: "nat \<Rightarrow> thread_label set \<Rightarrow> threads \<Rightarrow> threads \<Rightarrow> bool" for n L s where
  here: "thread_run n L s s"
| there: "thread_run n L s t \<Longrightarrow> thread_step n l t u \<Longrightarrow> l \<in> L \<Longrightarrow> thread_run n L s u"

definition threads_init :: threads where
  "threads_init =
     \<lparr> m_bRuning = True, list_empty = True, places = (\<lambda>_. At_flag), destroy = Not_called \<rparr>"

definition threads_hung :: "nat \<Rightarrow> threads \<Rightarrow> bool" where
  "threads_hung n s \<longleftrightarrow> destroy s = Joining \<and> (\<exists>w < n. places s w = Waiting)"

text \<open>A worker that waits when the join has begun keeps the join from ever completing.\<close>

lemma threads_hung_stays:
  assumes "thread_step n l s t" and "threads_hung n s" and "l \<noteq> Call_Schedule" and "\<forall>w. l \<noteq> Spurious w"
  shows "threads_hung n t"
proof -
  obtain v where v: "v < n" "places s v = Waiting" "destroy s = Joining"
    using assms(2) by (auto simp: threads_hung_def)
  from assms(1) have "places t v = Waiting \<and> destroy t = Joining"
    by (cases rule: thread_step.cases) (use v assms(3,4) in auto)
  with v(1) show ?thesis by (auto simp: threads_hung_def)
qed

lemma threads_hung_run:
  "thread_run n (range Worker \<union> {Destroying}) s t \<Longrightarrow> threads_hung n s \<Longrightarrow> threads_hung n t"
  by (induction rule: thread_run.induct) (auto intro: threads_hung_stays)

text \<open>
  C7. Lost wake-up in \<open>Destroy\<close>: for any positive number of workers there is a run in which
  a worker has read the running flag as set, \<open>Destroy\<close> then clears the flag and notifies, and
  the worker only afterwards starts to wait. From there on, whatever the workers and
  \<open>Destroy\<close> do, the join never completes, unless a spurious wake-up or a further
  \<open>Schedule\<close> intervenes.
\<close>

theorem destroy_lost_wakeup:
  assumes "0 < n"
  shows "\<exists>s. thread_run n (range Worker \<union> {Destroying}) threads_init s \<and> threads_hung n s \<and>
    (\<forall>t. thread_run n (range Worker \<union> {Destroying}) s t \<longrightarrow> destroy t = Joining)"
proof -
  let ?L = "range Worker \<union> {Destroying}"
  define s1 where "s1 = threads_init\<lparr>places := (places threads_init)(0 := Entering)\<rparr>"
  define s2 where "s2 = s1\<lparr>m_bRuning := False, destroy := Flag_cleared\<rparr>"
  define s3 where "s3 = s2\<lparr>places := (\<lambda>w. if places s2 w = Waiting then Popping else places s2 w),
    destroy := Joining\<rparr>"
  define s4 where "s4 = s3\<lparr>places := (places s3)(0 := Waiting)\<rparr>"
  have "thread_step n (Worker 0) threads_init s1"
    unfolding s1_def by (rule flag_set) (simp_all add: threads_init_def assms)
  from thread_run.there [OF thread_run.here this] have r1: "thread_run n ?L threads_init s1" by simp
  have "thread_step n Destroying s1 s2"
    unfolding s2_def by (rule clear_flag) (simp add: s1_def threads_init_def)
  from thread_run.there [OF r1 this] have r2: "thread_run n ?L threads_init s2" by simp
  have "thread_step n Destroying s2 s3"
    unfolding s3_def by (rule notify_all) (simp add: s2_def)
  from thread_run.there [OF r2 this] have r3: "thread_run n ?L threads_init s3" by simp
  have "thread_step n (Worker 0) s3 s4"
    unfolding s4_def by (rule wait) (simp_all add: s3_def s2_def s1_def threads_init_def assms)
  from thread_run.there [OF r3 this] have "thread_run n ?L threads_init s4" by simp
  moreover have hung: "threads_hung n s4"
    using assms by (auto simp: threads_hung_def s4_def s3_def)
  moreover have "destroy t = Joining" if "thread_run n ?L s4 t" for t
    using threads_hung_run [OF that hung] by (simp add: threads_hung_def)
  ultimately show ?thesis by blast
qed

theorem destroy_lost_wakeup_witness:
  "\<exists>s. thread_run 2 (range Worker \<union> {Destroying}) threads_init s \<and> threads_hung 2 s"
  using destroy_lost_wakeup [of 2] by auto

end
