(* ===== verification/Actor_System.thy ===== *)
theory Actor_System
  imports Scheduler
begin

text \<open>
  The mailboxes, the scheduler's waiting list and the worker threads together
  (\<open>Mailbox.cpp\<close> and \<open>SchedulerSemaphore.cpp\<close>), as a step relation. A step is one critical
  section or one round of the loop of \<open>Mailbox::Process\<close>: everything between two points where
  another thread can interleave. What an actor's code does to other mailboxes is a \<open>push\<close>
  step, which any thread can take at any time.
\<close>

section \<open>States and steps\<close>

text \<open>
  Where a worker is: about to pop, holding a popped mailbox, inside \<open>Process\<close> after the swap of
  the queues, or in its loop. In the last two it owns the mailbox's \<open>m_ActorMutex\<close>.
\<close>

datatype pc = At_pop | Popped nat | Swapped nat | Handling nat

text \<open>
  \<open>owed\<close> and \<open>handled\<close> are history variables, not data of the code: the messages a mailbox
  accepted and has not been told to drop by \<open>UnRegisterActor\<close>, and the messages whose handling
  has been completed. \<open>crashed\<close> marks the dereference of a null actor in \<open>Process\<close>.
\<close>

record 'v sys =
  boxes :: "nat \<Rightarrow> 'v mailbox"
  m_listWaite :: wait_list
  actor_lock :: "nat \<Rightarrow> nat option"
  pcs :: "nat \<Rightarrow> pc"
  owed :: "nat \<Rightarrow> 'v msg_ptr list"
  handled :: "nat \<Rightarrow> 'v msg_ptr list"
  crashed :: bool

definition sys_init :: "'v sys" where
  "sys_init =
     \<lparr> boxes = (\<lambda>_. Mailbox_init), m_listWaite = [], actor_lock = (\<lambda>_. None),
       pcs = (\<lambda>_. At_pop), owed = (\<lambda>_. []), handled = (\<lambda>_. []), crashed = False \<rparr>"

text \<open>What \<open>Framework::RegisterActor\<close> does to the mailbox it found for the actor.\<close>

definition RegisterActor_mailbox ::
  "bool \<Rightarrow> name \<Rightarrow> address \<Rightarrow> nat option \<Rightarrow> 'v mailbox \<Rightarrow> ('v mailbox \<times> address) res" where
  "RegisterActor_mailbox pScheduler name address pActor refMailBox =
     assert_utils (m_pActor refMailBox = None)
       (assert_utils (mb_Address refMailBox = 0)
         (Mailbox_RegisterActor pActor
           (Mailbox_SetAddress address
             (Mailbox_SetName name
               (Mailbox_SetScheduler pScheduler refMailBox)))))"

text \<open>
  The kinds of step: a worker's regular step, a step in which the actor's code throws, an
  actor's registration and its end, and a message pushed from anywhere.
\<close>

datatype label = Push nat | Work nat | Throws nat | Register nat | UnRegister nat

inductive step :: "label \<Rightarrow> 'v sys \<Rightarrow> 'v sys \<Rightarrow> bool" where
  push: "Mailbox_PushMsg m (boxes s i) = Inr (r, sched, mb) \<Longrightarrow>
    step (Push i) s (s\<lparr>boxes := (boxes s)(i := mb),
      m_listWaite := (if sched then SchedulerSemaphore_Schedule i (m_listWaite s) else m_listWaite s),
      owed := (owed s)(i := (if r then owed s i @ [m] else owed s i))\<rparr>)"
| pop: "pcs s w = At_pop \<Longrightarrow>
    SchedulerSemaphore_Pop (\<lambda>i. Mailbox_IsHandling (boxes s i)) (m_listWaite s) = (b, wl) \<Longrightarrow>
    step (Work w) s (s\<lparr>m_listWaite := wl,
      pcs := (pcs s)(w := (case b of None \<Rightarrow> At_pop | Some i \<Rightarrow> Popped i))\<rparr>)"
| swap: "pcs s w = Popped i \<Longrightarrow> actor_lock s i = None \<Longrightarrow>
    step (Work w) s (s\<lparr>boxes := (boxes s)(i := Process_swap (boxes s i)),
      actor_lock := (actor_lock s)(i := Some w), pcs := (pcs s)(w := Swapped i)\<rparr>)"
| null_actor: "pcs s w = Swapped i \<Longrightarrow> m_pActor (boxes s i) = None \<Longrightarrow>
    step (Work w) s (s\<lparr>crashed := True\<rparr>)"
| begin_throws: "pcs s w = Swapped i \<Longrightarrow> m_pActor (boxes s i) \<noteq> None \<Longrightarrow>
    step (Throws i) s (s\<lparr>actor_lock := (actor_lock s)(i := None), pcs := (pcs s)(w := At_pop)\<rparr>)"
| count: "pcs s w = Swapped i \<Longrightarrow> m_pActor (boxes s i) \<noteq> None \<Longrightarrow>
    step (Work w) s (s\<lparr>boxes := (boxes s)(i := Process_count (boxes s i)),
      pcs := (pcs s)(w := Handling i)\<rparr>)"
| handle: "pcs s w = Handling i \<Longrightarrow> m_listHandle (boxes s i) = m # ms \<Longrightarrow>
    step (Work w) s (s\<lparr>boxes := (boxes s)(i := Process_pop (boxes s i)),
      handled := (handled s)(i := handled s i @ [m])\<rparr>)"
| handler_throws: "pcs s w = Handling i \<Longrightarrow> m_listHandle (boxes s i) = Some m # ms \<Longrightarrow>
    step (Throws i) s (s\<lparr>actor_lock := (actor_lock s)(i := None), pcs := (pcs s)(w := At_pop)\<rparr>)"
| finish: "pcs s w = Handling i \<Longrightarrow> m_listHandle (boxes s i) = [] \<Longrightarrow>
    step (Work w) s (s\<lparr>actor_lock := (actor_lock s)(i := None), pcs := (pcs s)(w := At_pop)\<rparr>)"
| register: "RegisterActor_mailbox True n a (Some act) (boxes s i) = Inr (mb, a') \<Longrightarrow>
    step (Register i) s (s\<lparr>boxes := (boxes s)(i := mb)\<rparr>)"
| unregister: "actor_lock s i = None \<Longrightarrow>
    step (UnRegister i) s (s\<lparr>boxes := (boxes s)(i := Mailbox_UnRegisterActor (boxes s i)),
      owed := (owed s)(i := handled s i @ m_listHandle (boxes s i))\<rparr>)"

inductive_cases step_cases: "step l s t"

text \<open>Runs from a state whose labels are taken from a set.\<close>

inductive run :: "label set \<Rightarrow> 'v sys \<Rightarrow> 'v sys \<Rightarrow> bool" for L s where
  stay: "run L s s"
| move: "run L s t \<Longrightarrow> step l t u \<Longrightarrow> l \<in> L \<Longrightarrow> run L s u"

lemma run_invariant:
  assumes "run L s t" and "I s" and "\<And>l s t. l \<in> L \<Longrightarrow> step l s t \<Longrightarrow> I s \<Longrightarrow> I t"
  shows "I t"
  using assms(1) by (induction rule: run.induct) (auto intro: assms(2,3))

lemma run_mono: "run L s t \<Longrightarrow> L \<subseteq> M \<Longrightarrow> run M s t"
  by (induction rule: run.induct) (auto intro: run.intros)

text \<open>Runs in which no actor's code throws.\<close>

abbreviation quiet :: "label set" where
  "quiet \<equiv> UNIV - range Throws"


section \<open>The invariant of quiet runs\<close>

text \<open>
  Who owns a mailbox, what its queues hold against the history, the count, and that a
  mailbox with received messages is waiting or already in a worker's hand.
\<close>

definition owns :: "pc \<Rightarrow> nat \<Rightarrow> bool" where
  "owns p i \<longleftrightarrow> p = Swapped i \<or> p = Handling i"

definition owner_inv :: "'v sys \<Rightarrow> bool" where
  "owner_inv s \<longleftrightarrow> (\<forall>i w. actor_lock s i = Some w \<longleftrightarrow> owns (pcs s w) i)"

definition queue_inv :: "'v sys \<Rightarrow> bool" where
  "queue_inv s \<longleftrightarrow>
     (\<forall>i. owed s i = handled s i @ m_listHandle (boxes s i) @ m_listRecive (boxes s i) \<and>
       (actor_lock s i = None \<longrightarrow> m_listHandle (boxes s i) = []))"

definition waiting_inv :: "'v sys \<Rightarrow> bool" where
  "waiting_inv s \<longleftrightarrow>
     (\<forall>i. m_listRecive (boxes s i) \<noteq> [] \<longrightarrow>
        i \<in># sem_waiting (m_listWaite s) \<or> (\<exists>w. pcs s w = Popped i))"

named_theorems box_ops \<open>the mailbox operations, unfolded\<close>

lemmas box_op_defs [box_ops] =
  Process_swap_def Process_count_def Process_pop_def Mailbox_UnRegisterActor_def
  RegisterActor_mailbox_def Mailbox_RegisterActor_def Mailbox_SetAddress_def
  Mailbox_SetName_def Mailbox_SetScheduler_def

lemma PushMsg_Inr:
  "Mailbox_PushMsg m mb = Inr (r, sched, mb') \<longleftrightarrow>
     m_pScheduler mb \<and> (r \<longleftrightarrow> m_pActor mb \<noteq> None) \<and>
     (sched \<longleftrightarrow> r \<and> m_listRecive mb = []) \<and>
     mb' = (if r then mb\<lparr>m_listRecive := m_listRecive mb @ [m]\<rparr> else mb)"
  by (auto simp: Mailbox_PushMsg_def assert_utils_Inr_conv Let_def)

lemma RegisterActor_mailbox_Inr:
  "RegisterActor_mailbox sch n a (Some act) mb = Inr (mb', a') \<longleftrightarrow>
     m_pActor mb = None \<and> mb_Address mb = 0 \<and> a' = a \<and>
     mb' = mb\<lparr>m_pScheduler := sch, m_Name := n, mb_Address := a, m_pActor := Some act\<rparr>"
  by (auto simp: box_ops assert_utils_Inr_conv)

lemma owns_simps [simp]:
  "owns (Swapped j) i \<longleftrightarrow> j = i" "owns (Handling j) i \<longleftrightarrow> j = i"
  "\<not> owns At_pop i" "\<not> owns (Popped j) i"
  by (auto simp: owns_def)

text \<open>Taking a free mutex and giving it back keep the ownership relation exact.\<close>

lemma owner_take:
  assumes "\<forall>i w. L i = Some w \<longleftrightarrow> owns (P w) i" and "L j = None" and "\<forall>i. \<not> owns (P v) i"
    and "\<forall>i. owns p i \<longleftrightarrow> i = j"
  shows "\<forall>i w. (L(j := Some v)) i = Some w \<longleftrightarrow> owns ((P(v := p)) w) i"
proof (intro allI)
  fix i w
  have "\<not> owns (P w) j" using assms(1,2) by (metis option.distinct(1))
  then show "(L(j := Some v)) i = Some w \<longleftrightarrow> owns ((P(v := p)) w) i"
    using assms(1,3,4) by (metis fun_upd_apply option.inject)
qed

lemma owner_give:
  assumes "\<forall>i w. L i = Some w \<longleftrightarrow> owns (P w) i" and "owns (P v) j" and "\<forall>i. \<not> owns p i"
  shows "\<forall>i w. (L(j := None)) i = Some w \<longleftrightarrow> owns ((P(v := p)) w) i"
proof (intro allI)
  fix i w
  have "L j = Some v" using assms(1,2) by blast
  moreover have "owns (P v) i \<Longrightarrow> i = j" using assms(2) by (auto simp: owns_def)
  ultimately show "(L(j := None)) i = Some w \<longleftrightarrow> owns ((P(v := p)) w) i"
    using assms(1,3) by (metis fun_upd_apply option.distinct(1) option.inject)
qed

lemma owner_inv_init: "owner_inv sys_init"
  by (simp add: owner_inv_def sys_init_def)

lemma owner_inv_step: "step l s t \<Longrightarrow> owner_inv s \<Longrightarrow> owner_inv t"
proof (induction rule: step.induct)
  case (pop s w b wl)
  then show ?case by (auto simp: owner_inv_def split: option.splits)
next
  case (swap s w i)
  then show ?case
    using owner_take [of "actor_lock s" "pcs s" i w "Swapped i"]
    by (simp add: owner_inv_def eq_commute [of i])
next
  case (begin_throws s w i)
  then show ?case
    using owner_give [of "actor_lock s" "pcs s" w i At_pop] by (simp add: owner_inv_def)
next
  case (handler_throws s w i m ms)
  then show ?case
    using owner_give [of "actor_lock s" "pcs s" w i At_pop] by (simp add: owner_inv_def)
next
  case (finish s w i)
  then show ?case
    using owner_give [of "actor_lock s" "pcs s" w i At_pop] by (simp add: owner_inv_def)
next
  case (count s w i)
  then have "actor_lock s j = Some w \<longleftrightarrow> j = i" for j by (auto simp: owner_inv_def)
  with count show ?case by (auto simp: owner_inv_def)
qed (simp_all add: owner_inv_def)

lemma queue_inv_init: "queue_inv sys_init"
  by (simp add: queue_inv_def sys_init_def Mailbox_init_def)

lemma queue_inv_step:
  "step l s t \<Longrightarrow> l \<in> quiet \<Longrightarrow> owner_inv s \<Longrightarrow> queue_inv s \<Longrightarrow> queue_inv t"
proof (induction rule: step.induct)
  case (push m s i r sched mb)
  then show ?case by (auto simp: queue_inv_def PushMsg_Inr)
next
  case (handle s w i m ms)
  then have "actor_lock s i = Some w" by (auto simp: owner_inv_def)
  with handle show ?case by (auto simp: queue_inv_def box_ops)
next
  case (register n a act s i mb a')
  then show ?case by (auto simp: queue_inv_def RegisterActor_mailbox_Inr)
qed (auto simp: queue_inv_def box_ops)

lemma waiting_inv_init: "waiting_inv sys_init"
  by (simp add: waiting_inv_def sys_init_def Mailbox_init_def)

lemma waiting_inv_step:
  "step l s t \<Longrightarrow> queue_inv s \<Longrightarrow> waiting_inv s \<Longrightarrow> waiting_inv t"
proof (induction rule: step.induct)
  case (push m s i r sched mb)
  then show ?case by (auto simp: waiting_inv_def PushMsg_Inr sem.waiting_schedule)
next
  case (pop s w b wl)
  have "i \<in># sem_waiting wl \<or> (\<exists>v. ((pcs s)(w := case b of None \<Rightarrow> At_pop | Some i \<Rightarrow> Popped i)) v = Popped i)"
    if "i \<in># sem_waiting (m_listWaite s) \<or> (\<exists>v. pcs s v = Popped i)" for i
    using that
  proof
    assume "i \<in># sem_waiting (m_listWaite s)"
    from sem.pop_keeps [OF pop(2) this] show ?thesis by auto
  next
    assume "\<exists>v. pcs s v = Popped i"
    then obtain v where "pcs s v = Popped i" ..
    moreover from this have "v \<noteq> w" using pop(1) by auto
    ultimately show ?thesis by auto
  qed
  with pop(4) show ?case by (auto simp: waiting_inv_def)
next
  case (swap s w i)
  have "m_listHandle (boxes s i) = []"
    using swap by (simp add: queue_inv_def)
  moreover have "pcs s v = Popped j \<Longrightarrow> j \<noteq> i \<Longrightarrow> v \<noteq> w" for v j
    using swap(1) by auto
  ultimately show ?case
    using swap(4) by (simp add: waiting_inv_def box_ops) metis
next
  case (register n a act s i mb a')
  then show ?case by (auto simp: waiting_inv_def RegisterActor_mailbox_Inr)
next
  case (begin_throws s w i)
  then show ?case by (simp add: waiting_inv_def) (metis pc.distinct)
next
  case (count s w i)
  then show ?case by (simp add: waiting_inv_def box_ops) (metis pc.distinct)
next
  case (handler_throws s w i m ms)
  then show ?case by (simp add: waiting_inv_def) (metis pc.distinct)
next
  case (finish s w i)
  then show ?case by (simp add: waiting_inv_def) (metis pc.distinct)
qed (auto simp: waiting_inv_def box_ops)


lemma quiet_run_invariants:
  assumes "run quiet sys_init s"
  shows "owner_inv s" "queue_inv s" "waiting_inv s"
proof -
  have "owner_inv s \<and> queue_inv s \<and> waiting_inv s"
    using assms
    by (rule run_invariant [where I = "\<lambda>s. owner_inv s \<and> queue_inv s \<and> waiting_inv s"])
       (auto intro: owner_inv_init queue_inv_init waiting_inv_init owner_inv_step queue_inv_step
         waiting_inv_step)
  then show "owner_inv s" "queue_inv s" "waiting_inv s" by simp_all
qed

text \<open>
  C1. Delivery: in every interleaving of pushes, registrations, unregistrations and any
  number of workers in which no actor's code throws, (1) a mailbox is processed by at most
  one worker at a time; (2) the messages handled for a mailbox are exactly, in order and
  without loss or repetition, an initial part of the messages it accepted (less those an
  unregistration discarded); (3) no accepted message is stranded: while one is not handled
  the mailbox waits in the scheduler's list or is in a worker's hand.
\<close>

theorem actor_system_delivery:
  assumes "run quiet sys_init s"
  shows "(\<forall>i v w. owns (pcs s v) i \<and> owns (pcs s w) i \<longrightarrow> v = w) \<and>
    (\<forall>i. \<exists>pending. owed s i = handled s i @ pending) \<and>
    (\<forall>i. owed s i \<noteq> handled s i \<longrightarrow>
       Some i \<in> set (m_listWaite s) \<or> (\<exists>w. pcs s w = Popped i \<or> owns (pcs s w) i))"
proof -
  note I = quiet_run_invariants [OF assms]
  have "v = w" if "owns (pcs s v) i" "owns (pcs s w) i" for i v w
    using that I(1) by (metis owner_inv_def option.inject)
  moreover have "\<exists>pending. owed s i = handled s i @ pending" for i
    using I(2) by (auto simp: queue_inv_def)
  moreover have "Some i \<in> set (m_listWaite s) \<or> (\<exists>w. pcs s w = Popped i \<or> owns (pcs s w) i)"
    if "owed s i \<noteq> handled s i" for i
  proof (cases "m_listHandle (boxes s i) = []")
    case True
    with that I(2) have "m_listRecive (boxes s i) \<noteq> []" by (auto simp: queue_inv_def)
    with I(3) show ?thesis by (auto simp: waiting_inv_def sem_waiting_def set_somes)
  next
    case False
    with I(2) obtain w where "actor_lock s i = Some w" by (auto simp: queue_inv_def)
    with I(1) show ?thesis by (auto simp: owner_inv_def)
  qed
  ultimately show ?thesis by blast
qed


section \<open>Two runs with one mailbox\<close>

text \<open>
  The run that ends in the null dereference: an actor is registered, a message is pushed, the
  actor goes away, and then a worker pops the mailbox.
\<close>

definition one_box :: "'v msg_ptr list \<Rightarrow> nat option \<Rightarrow> 'v msg_ptr list \<Rightarrow> 'v mailbox" where
  "one_box recive act hand =
     \<lparr> m_pScheduler = True, m_listRecive = recive, m_pActor = act, m_listHandle = hand,
       m_nUnHanle = 0, m_Name = None, mb_Address = 1 \<rparr>"

definition one_box_state ::
  "'v mailbox \<Rightarrow> wait_list \<Rightarrow> nat option \<Rightarrow> pc \<Rightarrow> 'v msg_ptr list \<Rightarrow> bool \<Rightarrow> 'v sys" where
  "one_box_state mb wl lock p ow c =
     \<lparr> boxes = (\<lambda>_. Mailbox_init)(5 := mb), m_listWaite = wl,
       actor_lock = (\<lambda>_. None)(5 := lock), pcs = (\<lambda>_. At_pop)(0 := p),
       owed = (\<lambda>_. [])(5 := ow), handled = (\<lambda>_. []), crashed = c \<rparr>"

lemma one_box_state_simps [simp]:
  "boxes (one_box_state mb wl lock p ow c) 5 = mb" "m_listWaite (one_box_state mb wl lock p ow c) = wl"
  "actor_lock (one_box_state mb wl lock p ow c) 5 = lock" "pcs (one_box_state mb wl lock p ow c) 0 = p"
  "owed (one_box_state mb wl lock p ow c) 5 = ow" "handled (one_box_state mb wl lock p ow c) 5 = []"
  by (simp_all add: one_box_state_def)

lemma one_box_state_init: "sys_init = one_box_state Mailbox_init [] None At_pop [] False"
  by (simp add: one_box_state_def sys_init_def fun_upd_idem)

lemma null_run_steps:
  fixes c :: "'v msg_ptr list"
  shows "step (Register 5) (one_box_state Mailbox_init [] None At_pop c False)
      (one_box_state (one_box [] (Some 0) []) [] None At_pop c False)"
    and "step (Push 5) (one_box_state (one_box [] (Some 0) []) [] None At_pop [] False :: 'v sys)
      (one_box_state (one_box [None] (Some 0) []) [Some 5] None At_pop [None] False)"
    and "step (UnRegister 5) (one_box_state (one_box [None] (Some 0) []) [Some 5] None At_pop c False)
      (one_box_state (one_box [] None []) [Some 5] None At_pop [] False)"
    and "step (Work 0) (one_box_state (one_box [] None []) [Some 5] None At_pop c False)
      (one_box_state (one_box [] None []) [] None (Popped 5) c False)"
    and "step (Work 0) (one_box_state (one_box [] None []) [] None (Popped 5) c False)
      (one_box_state (one_box [] None []) [] (Some 0) (Swapped 5) c False)"
    and "step (Work 0) (one_box_state (one_box [] None []) [] (Some 0) (Swapped 5) c False)
      (one_box_state (one_box [] None []) [] (Some 0) (Swapped 5) c True)"
proof -
  let ?s = "one_box_state Mailbox_init [] None At_pop c False"
  have "RegisterActor_mailbox True None 1 (Some 0) (boxes ?s 5) = Inr (one_box [] (Some 0) [], 1)"
    by (simp add: RegisterActor_mailbox_Inr one_box_def Mailbox_init_def)
  from register [OF this] show "step (Register 5) ?s
      (one_box_state (one_box [] (Some 0) []) [] None At_pop c False)"
    by (simp add: one_box_state_def)
next
  let ?s = "one_box_state (one_box [] (Some 0) []) [] None At_pop [] False :: 'v sys"
  have "Mailbox_PushMsg None (boxes ?s 5) = Inr (True, True, one_box [None] (Some 0) [])"
    by (simp add: PushMsg_Inr one_box_def)
  from push [OF this] show "step (Push 5) ?s
      (one_box_state (one_box [None] (Some 0) []) [Some 5] None At_pop [None] False)"
    by (simp add: one_box_state_def SchedulerSemaphore_Schedule_def)
next
  let ?s = "one_box_state (one_box [None] (Some 0) []) [Some 5] None At_pop c False"
  have "actor_lock ?s 5 = None" by simp
  from unregister [OF this] show "step (UnRegister 5) ?s
      (one_box_state (one_box [] None []) [Some 5] None At_pop [] False)"
    by (simp add: one_box_state_def one_box_def Mailbox_UnRegisterActor_def)
next
  let ?s = "one_box_state (one_box [] None []) [Some 5] None At_pop c False"
  have "pcs ?s 0 = At_pop" by simp
  moreover have "SchedulerSemaphore_Pop (\<lambda>i. Mailbox_IsHandling (boxes ?s i)) (m_listWaite ?s) = (Some 5, [])"
    by (simp add: SchedulerSemaphore_Pop_def Mailbox_IsHandling_def one_box_def)
  ultimately show "step (Work 0) ?s (one_box_state (one_box [] None []) [] None (Popped 5) c False)"
    using pop [of ?s 0 "Some 5" "[]"] by (simp add: one_box_state_def)
next
  let ?s = "one_box_state (one_box [] None []) [] None (Popped 5) c False"
  have "pcs ?s 0 = Popped 5" "actor_lock ?s 5 = None" by simp_all
  from swap [OF this] show "step (Work 0) ?s
      (one_box_state (one_box [] None []) [] (Some 0) (Swapped 5) c False)"
    by (simp add: one_box_state_def one_box_def Process_swap_def)
next
  let ?s = "one_box_state (one_box [] None []) [] (Some 0) (Swapped 5) c False"
  have "pcs ?s 0 = Swapped 5" "m_pActor (boxes ?s 5) = None" by (simp_all add: one_box_def)
  from null_actor [OF this] show "step (Work 0) ?s
      (one_box_state (one_box [] None []) [] (Some 0) (Swapped 5) c True)"
    by (simp add: one_box_state_def)
qed

text \<open>A run that pushes a message to a registered actor up to its handling.\<close>

definition handling_state :: "'v msg_ptr \<Rightarrow> 'v sys" where
  "handling_state m =
     one_box_state ((one_box [] (Some 0) [m])\<lparr>m_nUnHanle := 1\<rparr>) [] (Some 0) (Handling 5) [m] False"

lemma handling_run: "run quiet sys_init (handling_state m)"
proof -
  let ?s1 = "one_box_state (one_box [] (Some 0) []) [] None At_pop [] False"
  let ?s2 = "one_box_state (one_box [m] (Some 0) []) [Some 5] None At_pop [m] False"
  let ?s3 = "one_box_state (one_box [m] (Some 0) []) [] None (Popped 5) [m] False"
  let ?s4 = "one_box_state (one_box [] (Some 0) [m]) [] (Some 0) (Swapped 5) [m] False"
  have "Mailbox_PushMsg m (boxes ?s1 5) = Inr (True, True, one_box [m] (Some 0) [])"
    by (simp add: PushMsg_Inr one_box_def)
  from push [OF this] have s2: "step (Push 5) ?s1 ?s2"
    by (simp add: one_box_state_def SchedulerSemaphore_Schedule_def)
  have "SchedulerSemaphore_Pop (\<lambda>i. Mailbox_IsHandling (boxes ?s2 i)) (m_listWaite ?s2) = (Some 5, [])"
    by (simp add: SchedulerSemaphore_Pop_def Mailbox_IsHandling_def one_box_def)
  then have s3: "step (Work 0) ?s2 ?s3"
    using pop [of ?s2 0 "Some 5" "[]"] by (simp add: one_box_state_def)
  have "pcs ?s3 0 = Popped 5" "actor_lock ?s3 5 = None" by simp_all
  from swap [OF this] have s4: "step (Work 0) ?s3 ?s4"
    by (simp add: one_box_state_def one_box_def Process_swap_def)
  have "pcs ?s4 0 = Swapped 5" "m_pActor (boxes ?s4 5) \<noteq> None" by (simp_all add: one_box_def)
  from count [OF this] have s5: "step (Work 0) ?s4 (handling_state m)"
    by (simp add: handling_state_def one_box_state_def one_box_def Process_count_def)
  show ?thesis
    unfolding one_box_state_init
    by (rule run.move [OF run.move [OF run.move [OF run.move [OF run.move
        [OF run.stay null_run_steps(1)] s2] s3] s4] s5]) auto
qed

lemma handling_state_simps:
  "pcs (handling_state m) 0 = Handling 5" "m_listHandle (boxes (handling_state m) 5) = [m]"
  "pcs (handling_state m) v \<noteq> Popped i" "owed (handling_state m) 5 = [m]"
  "handled (handling_state m) i = []" "m_listWaite (handling_state m) = []"
  by (simp_all add: handling_state_def one_box_state_def one_box_def)

text \<open>The delivery theorem applied to the second run: its message is in a worker's hand.\<close>

theorem actor_system_delivery_witness:
  "\<exists>w. pcs (handling_state (None :: nat msg_ptr)) w = Popped 5 \<or> owns (pcs (handling_state (None :: nat msg_ptr)) w) 5"
proof -
  have "owed (handling_state (None :: nat msg_ptr)) 5 \<noteq> handled (handling_state None) 5"
    by (simp add: handling_state_simps)
  then show ?thesis
    using actor_system_delivery [OF handling_run [of "None :: nat msg_ptr"]]
    by (auto simp: handling_state_simps)
qed


section \<open>Null actors\<close>

text \<open>Without unregistration every mailbox in circulation has an actor.\<close>

definition actor_inv :: "'v sys \<Rightarrow> bool" where
  "actor_inv s \<longleftrightarrow> \<not> crashed s \<and>
     (\<forall>i. i \<in># sem_waiting (m_listWaite s) \<or> (\<exists>w. pcs s w = Popped i \<or> owns (pcs s w) i) \<longrightarrow>
        m_pActor (boxes s i) \<noteq> None)"

lemma actor_inv_init: "actor_inv sys_init"
  by (simp add: actor_inv_def sys_init_def sem_waiting_def)

lemma actor_inv_step:
  "step l s t \<Longrightarrow> l \<notin> range UnRegister \<Longrightarrow> actor_inv s \<Longrightarrow> actor_inv t"
proof (induction rule: step.induct)
  case (push m s i r sched mb)
  then show ?case by (auto simp: actor_inv_def PushMsg_Inr sem.waiting_schedule)
next
  case (pop s w b wl)
  have "m_pActor (boxes s i) \<noteq> None"
    if "i \<in># sem_waiting wl \<or> (\<exists>v. ((pcs s)(w := case b of None \<Rightarrow> At_pop | Some i \<Rightarrow> Popped i)) v = Popped i
      \<or> owns (((pcs s)(w := case b of None \<Rightarrow> At_pop | Some i \<Rightarrow> Popped i)) v) i)" for i
  proof -
    have "i \<in># sem_waiting (m_listWaite s) \<or> (\<exists>v. pcs s v = Popped i \<or> owns (pcs s v) i)"
      using that pop(2) sem.pop_subset [OF pop(2)] sem.pop_from_waiting
      by (auto split: if_splits option.splits)
    with pop(4) show ?thesis by (auto simp: actor_inv_def)
  qed
  with pop(4) show ?case by (simp add: actor_inv_def)
next
  case (register n a act s i mb a')
  then show ?case by (auto simp: actor_inv_def RegisterActor_mailbox_Inr)
next
  case (null_actor s w i)
  then have "owns (pcs s w) i" by simp
  with null_actor show ?case unfolding actor_inv_def by blast
qed (auto simp: actor_inv_def box_ops split: if_splits)

text \<open>
  The null actor: as long as no actor is unregistered, \<open>Process\<close> never dereferences a null
  actor, whatever is pushed and thrown; but a message pushed just before its actor is
  unregistered leaves the mailbox in the scheduler's list, and a worker that then processes
  it dereferences the null pointer, in a run where nothing throws.
\<close>

theorem process_null_actor:
  "(\<forall>s :: 'v sys. run (UNIV - range UnRegister) sys_init s \<longrightarrow> \<not> crashed s) \<and>
   (\<exists>s :: 'v sys. run quiet sys_init s \<and> crashed s)"
proof
  show "\<forall>s :: 'v sys. run (UNIV - range UnRegister) sys_init s \<longrightarrow> \<not> crashed s"
  proof (intro allI impI)
    fix s :: "'v sys" assume "run (UNIV - range UnRegister) sys_init s"
    then have "actor_inv s"
      by (rule run_invariant [where I = actor_inv]) (auto intro: actor_inv_init actor_inv_step)
    then show "\<not> crashed s" by (simp add: actor_inv_def)
  qed
next
  note S = null_run_steps
  have "run quiet (one_box_state Mailbox_init [] None At_pop [] False)
      (one_box_state (one_box [] None []) [] (Some 0) (Swapped 5) [] True :: 'v sys)"
    by (rule run.move [OF run.move [OF run.move [OF run.move [OF run.move [OF run.move
        [OF run.stay S(1)] S(2)] S(3)] S(4)] S(5)] S(6)]) auto
  moreover have "crashed (one_box_state mb wl lock p ow True)" for mb :: "'v mailbox" and wl lock p ow
    by (simp add: one_box_state_def)
  ultimately show "\<exists>s :: 'v sys. run quiet sys_init s \<and> crashed s"
    unfolding one_box_state_init by blast
qed

theorem process_null_actor_witness:
  "\<not> (\<forall>s :: nat sys. run quiet sys_init s \<longrightarrow> \<not> crashed s)"
  using process_null_actor by blast


section \<open>A mailbox whose handler threw\<close>

text \<open>
  The catch in \<open>Process\<close> leaves \<open>m_nUnHanle\<close> as it was, so \<open>IsHandling\<close> stays true and \<open>Pop\<close>
  passes the mailbox over.
\<close>

definition stuck :: "'v sys \<Rightarrow> nat \<Rightarrow> bool" where
  "stuck s i \<longleftrightarrow> Mailbox_IsHandling (boxes s i) \<and> (\<forall>w. pcs s w \<noteq> Popped i \<and> \<not> owns (pcs s w) i)"

lemma stuck_step:
  "step l s t \<Longrightarrow> stuck s i \<Longrightarrow> stuck t i \<and> handled t i = handled s i"
proof (induction rule: step.induct)
  case (pop s w b wl)
  then have "b \<noteq> Some i"
    using sem.pop_busy [of "\<lambda>j. Mailbox_IsHandling (boxes s j)" i] by (auto simp: stuck_def)
  with pop show ?case by (auto simp: stuck_def split: option.splits)
next
  case (push m s j r sched mb)
  then show ?case by (auto simp: stuck_def PushMsg_Inr Mailbox_IsHandling_def)
next
  case (register n a act s j mb a')
  then show ?case by (auto simp: stuck_def RegisterActor_mailbox_Inr Mailbox_IsHandling_def)
next
  case (swap s w j)
  then have "j \<noteq> i" by (auto simp: stuck_def)
  with swap show ?case by (auto simp: stuck_def)
next
  case (count s w j)
  then have "j \<noteq> i" by (auto simp: stuck_def owns_def)
  with count show ?case by (auto simp: stuck_def)
next
  case (handle s w j m ms)
  then have "j \<noteq> i" by (auto simp: stuck_def owns_def)
  with handle show ?case by (auto simp: stuck_def)
qed (auto simp: stuck_def Mailbox_IsHandling_def box_ops)

lemma stuck_run: "run L s t \<Longrightarrow> stuck s i \<Longrightarrow> stuck t i \<and> handled t i = handled s i"
  by (induction rule: run.induct) (auto dest: stuck_step)

definition count_inv :: "'v sys \<Rightarrow> bool" where
  "count_inv s \<longleftrightarrow> (\<forall>w i. pcs s w = Handling i \<longrightarrow>
     m_nUnHanle (boxes s i) = of_nat (length (m_listHandle (boxes s i))))"

lemma count_inv_init: "count_inv sys_init"
  by (simp add: count_inv_def sys_init_def)

lemma count_inv_step: "step l s t \<Longrightarrow> owner_inv s \<Longrightarrow> count_inv s \<Longrightarrow> count_inv t"
proof (induction rule: step.induct)
  case (push m s i r sched mb)
  then show ?case by (auto simp: count_inv_def PushMsg_Inr)
next
  case (pop s w b wl)
  then show ?case by (auto simp: count_inv_def split: option.splits if_splits)
next
  case (swap s w i)
  then have "pcs s v \<noteq> Handling i" for v
    unfolding owner_inv_def by (metis option.distinct(1) owns_simps(2))
  with swap show ?case by (auto simp: count_inv_def)
next
  case (register n a act s i mb a')
  then show ?case by (auto simp: count_inv_def RegisterActor_mailbox_Inr)
qed (auto simp: count_inv_def box_ops)

text \<open>A mailbox with an actor has a scheduler, and one that is being handled has an actor.\<close>

definition actor_kept :: "'v sys \<Rightarrow> bool" where
  "actor_kept s \<longleftrightarrow> (\<forall>i. (m_pActor (boxes s i) \<noteq> None \<longrightarrow> m_pScheduler (boxes s i)) \<and>
     (\<forall>w. pcs s w = Handling i \<longrightarrow> m_pActor (boxes s i) \<noteq> None))"

lemma actor_kept_init: "actor_kept sys_init"
  by (simp add: actor_kept_def sys_init_def Mailbox_init_def)

lemma actor_kept_step: "step l s t \<Longrightarrow> owner_inv s \<Longrightarrow> actor_kept s \<Longrightarrow> actor_kept t"
proof (induction rule: step.induct)
  case (push m s i r sched mb)
  then show ?case by (auto simp: actor_kept_def PushMsg_Inr)
next
  case (pop s w b wl)
  then show ?case by (auto simp: actor_kept_def split: option.splits if_splits)
next
  case (register n a act s i mb a')
  then show ?case by (auto simp: actor_kept_def RegisterActor_mailbox_Inr)
next
  case (unregister s i)
  then have "pcs s w \<noteq> Handling i" for w
    unfolding owner_inv_def by (metis option.distinct(1) owns_simps(2))
  with unregister show ?case by (auto simp: actor_kept_def box_ops)
qed (auto simp: actor_kept_def box_ops)

text \<open>A worker that holds a popped mailbox with an actor can handle a message of it.\<close>

lemma popped_handles:
  assumes "pcs t v = Popped i" and "actor_lock t i = None"
    and "m_pActor (boxes t i) \<noteq> None" and "m_pScheduler (boxes t i)"
  shows "\<exists>u. run UNIV t u \<and> handled u i \<noteq> handled t i"
proof -
  obtain sched mb where push: "Mailbox_PushMsg None (boxes t i) = Inr (True, sched, mb)"
    and mb: "mb = (boxes t i)\<lparr>m_listRecive := m_listRecive (boxes t i) @ [None]\<rparr>"
    using assms(3,4) by (simp add: PushMsg_Inr)
  let ?t1 = "t\<lparr>boxes := (boxes t)(i := mb),
      m_listWaite := (if sched then SchedulerSemaphore_Schedule i (m_listWaite t) else m_listWaite t),
      owed := (owed t)(i := (if True then owed t i @ [None] else owed t i))\<rparr>"
  let ?t2 = "?t1\<lparr>boxes := (boxes ?t1)(i := Process_swap (boxes ?t1 i)),
      actor_lock := (actor_lock ?t1)(i := Some v), pcs := (pcs ?t1)(v := Swapped i)\<rparr>"
  let ?t3 = "?t2\<lparr>boxes := (boxes ?t2)(i := Process_count (boxes ?t2 i)), pcs := (pcs ?t2)(v := Handling i)\<rparr>"
  have s1: "step (Push i) t ?t1" by (rule step.push [OF push])
  have s2: "step (Work v) ?t1 ?t2" by (rule step.swap) (use assms in simp_all)
  have s3: "step (Work v) ?t2 ?t3"
    by (rule step.count) (use assms in \<open>simp_all add: mb Process_swap_def\<close>)
  obtain m ms where m: "m_listHandle (boxes ?t3 i) = m # ms"
    by (cases "m_listHandle (boxes ?t3 i)") (simp_all add: mb Process_swap_def Process_count_def)
  have s4: "step (Work v) ?t3 (?t3\<lparr>boxes := (boxes ?t3)(i := Process_pop (boxes ?t3 i)),
      handled := (handled ?t3)(i := handled ?t3 i @ [m])\<rparr>)"
    by (rule step.handle [OF _ m]) simp
  show ?thesis
    by (rule exI, rule conjI,
        rule run.move [OF run.move [OF run.move [OF run.move [OF run.stay s1] s2] s3] s4]) simp_all
qed

text \<open>
  C2. What becomes of a mailbox whose handler throws: in every reachable state, when the
  handler of a worker's front message throws (with fewer than 2 to the 32 messages to handle, so
  that the count of 32 bits is not 0), it depends on whether another worker has popped the same
  mailbox already. If none has, then in every continuation, with whatever pushes, registrations,
  workers and further exceptions, no message of the mailbox is ever handled again, while it goes
  on accepting messages as long as its actor is registered. If one has, there is a continuation
  in which that worker handles a message of it.
\<close>

theorem thrown_mailbox_silenced:
  assumes "run UNIV sys_init s" and "pcs s w = Handling i"
    and "m_listHandle (boxes s i) = Some m # ms" and "length ms < 2 ^ 32 - 1"
  defines "t \<equiv> s\<lparr>actor_lock := (actor_lock s)(i := None), pcs := (pcs s)(w := At_pop)\<rparr>"
  shows "step (Throws i) s t \<and>
    (if \<exists>v. pcs s v = Popped i then \<exists>u. run UNIV t u \<and> handled u i \<noteq> handled s i
     else \<forall>u. run UNIV t u \<longrightarrow> handled u i = handled s i \<and>
       (m_pActor (boxes u i) \<noteq> None \<and> m_pScheduler (boxes u i) \<longrightarrow>
         (\<exists>sched mb. Mailbox_PushMsg (Some m) (boxes u i) = Inr (True, sched, mb))))"
proof -
  have inv: "owner_inv s \<and> count_inv s \<and> actor_kept s"
    using assms(1)
    by (rule run_invariant [where I = "\<lambda>s. owner_inv s \<and> count_inv s \<and> actor_kept s"])
       (auto intro: owner_inv_init owner_inv_step count_inv_step count_inv_init actor_kept_init actor_kept_step)
  then have "m_nUnHanle (boxes s i) = of_nat (Suc (length ms))" and "owner_inv s"
    and act: "m_pActor (boxes s i) \<noteq> None" "m_pScheduler (boxes s i)"
    using assms(2,3) by (auto simp: count_inv_def actor_kept_def)
  moreover have "(of_nat (Suc (length ms)) :: u32) \<noteq> 0"
    using assms(4) by (simp only: word_of_nat_eq_0_iff) (auto dest: dvd_imp_le)
  moreover have "pcs s v = Handling i \<or> pcs s v = Swapped i \<Longrightarrow> v = w" for v
    using assms(2) \<open>owner_inv s\<close> by (metis option.inject owner_inv_def owns_def)
  ultimately have "stuck t i" if "\<not> (\<exists>v. pcs s v = Popped i)"
    using that by (auto simp: stuck_def t_def Mailbox_IsHandling_def owns_def)
  moreover have h: "handled t i = handled s i" by (simp add: t_def)
  moreover have "step (Throws i) s t"
    unfolding t_def using assms(2,3) by (rule handler_throws)
  moreover have "\<exists>u. run UNIV t u \<and> handled u i \<noteq> handled s i" if "pcs s v = Popped i" for v
  proof -
    have "v \<noteq> w" using that assms(2) by auto
    then have "pcs t v = Popped i" "actor_lock t i = None" "m_pActor (boxes t i) \<noteq> None" "m_pScheduler (boxes t i)"
      using that act by (simp_all add: t_def)
    from popped_handles [OF this] show ?thesis by (simp add: h)
  qed
  ultimately show ?thesis
    using stuck_run by (fastforce simp: PushMsg_Inr)
qed

theorem thrown_mailbox_silenced_witness:
  "\<exists>t :: nat sys. step (Throws 5) (handling_state (Some \<lparr> TypeID = 1, From = 2, m_Value = 3 \<rparr>)) t \<and>
    (\<forall>u. run UNIV t u \<longrightarrow> handled u 5 = [])"
proof -
  let ?m = "\<lparr> TypeID = 1, From = 2, m_Value = 3 :: nat \<rparr>"
  have "run UNIV sys_init (handling_state (Some ?m))"
    by (rule run_mono [OF handling_run]) simp
  from thrown_mailbox_silenced [OF this, of 0 5 ?m "[]"] show ?thesis
    by (auto simp: handling_state_simps)
qed

end
