(* ===== verification/Framework.thy ===== *)
theory Framework
  imports Actor_System Paged_Directory
begin

text \<open>
  \<open>LibActor/Framework.*\<close> and \<open>LibActor/Actor.*\<close>: the framework owns the directory of
  mailboxes, registers actors in it, and routes messages by address: to itself (index 0), to
  a mailbox of its own process, or to the end point. Each function is one call seen by
  itself; the concurrent life of the mailboxes is in \<open>Actor_System\<close>.
\<close>

section \<open>State\<close>

text \<open>
  Actors are numbered; \<open>actor_address\<close> is the member \<open>m_Address\<close> of each actor object. The
  scheduler's list is reached through \<open>fw_pScheduler\<close>, which says whether the pointer is set;
  so do \<open>m_pEndPoint\<close> and \<open>m_pIoServicePool\<close>.
\<close>

record 'v framework =
  m_bDestory :: bool
  m_MailBoxes :: "'v mailbox directory"
  fw_pScheduler :: bool
  fw_waiting :: wait_list
  m_Address :: address
  m_pEndPoint :: bool
  m_pIoServicePool :: bool
  fw_listRecive :: "'v msg_ptr list"
  actor_address :: "nat \<Rightarrow> address"

abbreviation Mailboxes_Allocate :: "'v mailbox directory \<Rightarrow> (u32 \<times> 'v mailbox directory) res" where
  "Mailboxes_Allocate d \<equiv> Directory_Allocate Mailbox_IsUsed Mailbox_init d (- 1)"

definition Framework_make :: "bool \<Rightarrow> 'v framework res" where
  "Framework_make pScheduler =
     rbind (Mailboxes_Allocate Directory_init)
       (\<lambda>(_, d). Inr
          \<lparr> m_bDestory = False, m_MailBoxes = d, fw_pScheduler = pScheduler, fw_waiting = [],
            m_Address = Address_word 0, m_pEndPoint = False, m_pIoServicePool = False,
            fw_listRecive = [], actor_address = (\<lambda>_. 0) \<rparr>)"

text \<open>The body of \<open>Init\<close> is commented out but for its \<open>return false\<close>.\<close>

definition Framework_Init :: "'v framework \<Rightarrow> bool \<times> 'v framework" where
  "Framework_Init f = (False, f)"

definition Framework_IsRuning :: "'v framework \<Rightarrow> bool" where
  "Framework_IsRuning f \<longleftrightarrow> \<not> m_bDestory f"


section \<open>Operations\<close>

text \<open>\<open>IScheduler::RunOnce\<close> does nothing unless overridden, and \<open>SchedulerSemaphore\<close> does not.\<close>

definition Framework_RunOnce :: "'v framework \<Rightarrow> 'v framework res" where
  "Framework_RunOnce f = (if fw_pScheduler f then Inr f else Inl Null_deref)"

definition Framework_SendInternal :: "'v msg_ptr \<Rightarrow> address \<Rightarrow> 'v framework \<Rightarrow> (bool \<times> 'v framework) res" where
  "Framework_SendInternal pMsg adress f =
     assert_utils (m_Brief_mProcess (m_Address f) = m_Brief_mProcess adress)
       (let index = m_Detail_m_Index adress in
        rbind (Directory_GetEntry (m_MailBoxes f) index)
          (\<lambda>refMailBox. rbind (Mailbox_PushMsg pMsg refMailBox)
            (\<lambda>(r, sched, mb). Inr (r, f
               \<lparr>m_MailBoxes := Directory_SetEntry (m_MailBoxes f) index mb,
                fw_waiting := (if sched then SchedulerSemaphore_Schedule (unat index) (fw_waiting f)
                               else fw_waiting f)\<rparr>))))"

definition Framework_SystemMsg :: "'v msg_ptr \<Rightarrow> 'v framework \<Rightarrow> bool \<times> 'v framework" where
  "Framework_SystemMsg pMsg f = (True, f\<lparr>fw_listRecive := fw_listRecive f @ [pMsg]\<rparr>)"

text \<open>\<open>EndPoint::SendMsg\<close>, in both forms, returns true and sends nothing.\<close>

definition EndPoint_SendMsg :: "'v msg_ptr \<Rightarrow> address list \<Rightarrow> bool" where
  "EndPoint_SendMsg pMsg listAdress = True"

definition Framework_SendEndPoint :: "'v msg_ptr \<Rightarrow> address list \<Rightarrow> 'v framework \<Rightarrow> (bool \<times> 'v framework) res" where
  "Framework_SendEndPoint pMsg listAdress f =
     (if m_pEndPoint f then Inr (EndPoint_SendMsg pMsg listAdress, f) else Inl Null_deref)"

text \<open>Routing inside the process, shared by the two forms of \<open>SendMsg\<close>; its result is ignored.\<close>

definition Framework_route :: "'v msg_ptr \<Rightarrow> address \<Rightarrow> 'v framework \<Rightarrow> 'v framework res" where
  "Framework_route pMsg adress f =
     (if m_Detail_m_Index adress = 0
      then Inr (snd (Framework_SystemMsg pMsg f))
      else rbind (Framework_SendInternal pMsg adress f) (\<lambda>(_, f). Inr f))"

definition Framework_SendMsg :: "'v msg_ptr \<Rightarrow> address \<Rightarrow> 'v framework \<Rightarrow> (bool \<times> 'v framework) res" where
  "Framework_SendMsg pMsg adress f =
     (if m_Brief_mProcess adress = m_Brief_mProcess (m_Address f)
      then rbind (Framework_route pMsg adress f) (\<lambda>f. Inr (True, f))
      else rbind (Framework_SendEndPoint pMsg [adress] f) (\<lambda>(_, f). Inr (True, f)))"

definition Framework_SendMsg_list ::
  "'v msg_ptr \<Rightarrow> address list \<Rightarrow> 'v framework \<Rightarrow> (bool \<times> 'v framework) res" where
  "Framework_SendMsg_list pMsg listAdress f =
     rbind
       (rfold (\<lambda>it (f, listEndPoint).
          if m_Brief_mProcess it = m_Brief_mProcess (m_Address f)
          then rbind (Framework_route pMsg it f) (\<lambda>f. Inr (f, listEndPoint))
          else Inr (f, listEndPoint @ [it])) listAdress (f, []))
       (\<lambda>(f, listEndPoint).
          if listEndPoint \<noteq> [] then Framework_SendEndPoint pMsg listEndPoint f else Inr (True, f))"

definition Framework_RegisterActor :: "nat \<Rightarrow> name \<Rightarrow> 'v framework \<Rightarrow> 'v framework res" where
  "Framework_RegisterActor pActor name f =
     rbind (Mailboxes_Allocate (m_MailBoxes f))
       (\<lambda>(nNewIndex, d). assert_utils (nNewIndex \<noteq> - 1)
         (rbind (Directory_GetEntry d nNewIndex)
           (\<lambda>refMailBox. rbind
              (RegisterActor_mailbox (fw_pScheduler f) name
                 (Address_brief (ucast (m_Brief_mProcess (m_Address f))) (ucast nNewIndex))
                 (Some pActor) refMailBox)
              (\<lambda>(mb, address). Inr (f
                 \<lparr>m_MailBoxes := Directory_SetEntry d nNewIndex mb,
                  actor_address := (actor_address f)(pActor := address)\<rparr>)))))"

definition Framework_UnRegisterActor :: "nat \<Rightarrow> 'v framework \<Rightarrow> 'v framework res" where
  "Framework_UnRegisterActor pActor f =
     (let index = m_Detail_m_Index (actor_address f pActor) in
      rbind (Directory_GetEntry (m_MailBoxes f) index)
        (\<lambda>refMailBox. Inr (f\<lparr>m_MailBoxes :=
            Directory_SetEntry (m_MailBoxes f) index (Mailbox_UnRegisterActor refMailBox)\<rparr>)))"

text \<open>
  \<open>Destroy\<close>: the result lists what \<open>DebugOut\<close> prints for the mailboxes from 1 up to, not
  including, the directory's maximum index.
\<close>

definition Framework_Destroy :: "'v framework \<Rightarrow> (u32 \<times> nat \<times> nat) option list res" where
  "Framework_Destroy f =
     (if \<not> m_pEndPoint f then Inl Null_deref
      else if \<not> m_pIoServicePool f then Inl Null_deref
      else rfold (\<lambda>i out. rbind (Directory_GetEntry (m_MailBoxes f) (of_nat i))
             (\<lambda>refMailBox. Inr (out @ [Mailbox_DebugOut refMailBox])))
           [1..<unat (Directory_GetMaxIndex (m_MailBoxes f))] [])"

text \<open>
  Actors: constructed without an address an actor registers itself; the destructor
  unregisters the mailbox its address names, whoever that mailbox belongs to.
\<close>

definition Actor_make :: "nat \<Rightarrow> name \<Rightarrow> address \<Rightarrow> 'v framework \<Rightarrow> 'v framework res" where
  "Actor_make this name address f =
     (let f = f\<lparr>actor_address := (actor_address f)(this := address)\<rparr> in
      if Address_eq address (Address_word 0) then Framework_RegisterActor this name f else Inr f)"

definition Actor_destroy :: "nat \<Rightarrow> 'v framework \<Rightarrow> 'v framework res" where
  "Actor_destroy this f = Framework_UnRegisterActor this f"

definition Actor_SendMsg :: "'v msg_ptr \<Rightarrow> address \<Rightarrow> 'v framework \<Rightarrow> (bool \<times> 'v framework) res" where
  "Actor_SendMsg pMsg address f = Framework_SendMsg pMsg address f"

definition Actor_SendValueMsg ::
  "nat \<Rightarrow> u32 \<Rightarrow> 'v \<Rightarrow> address \<Rightarrow> 'v framework \<Rightarrow> (bool \<times> 'v framework) res" where
  "Actor_SendValueMsg this type_id value address f =
     (let pMsg = ValueMessage_make (actor_address f this) type_id value in
      if pMsg \<noteq> None then Actor_SendMsg pMsg address f else Inr (False, f))"


section \<open>The states a framework can reach\<close>

text \<open>
  A step is a call that returns, or anything the workers do to a registered mailbox's queues
  and to the waiting list.
\<close>

inductive fw_step :: "'v framework \<Rightarrow> 'v framework \<Rightarrow> bool" where
  send: "Framework_SendMsg m a f = Inr (r, f') \<Longrightarrow> fw_step f f'"
| send_list: "Framework_SendMsg_list m as f = Inr (r, f') \<Longrightarrow> fw_step f f'"
| send_value: "Actor_SendValueMsg act ty v a f = Inr (r, f') \<Longrightarrow> fw_step f f'"
| make_actor: "Actor_make act n a f = Inr f' \<Longrightarrow> fw_step f f'"
| destroy_actor: "Actor_destroy act f = Inr f' \<Longrightarrow> fw_step f f'"
| run_once: "Framework_RunOnce f = Inr f' \<Longrightarrow> fw_step f f'"
| work: "Directory_GetEntry (m_MailBoxes f) i = Inr mb \<Longrightarrow> m_pActor mb \<noteq> None \<Longrightarrow>
    fw_step f (f\<lparr>m_MailBoxes := Directory_SetEntry (m_MailBoxes f) i
        (mb\<lparr>m_listRecive := rs, m_listHandle := hs, m_nUnHanle := n\<rparr>), fw_waiting := wl\<rparr>)"

inductive fw_reach :: "'v framework \<Rightarrow> bool" where
  made: "Framework_make sch = Inr f \<Longrightarrow> fw_reach f"
| stepped: "fw_reach f \<Longrightarrow> fw_step f f' \<Longrightarrow> fw_reach f'"

text \<open>
  The directory is well-formed with index 0 taken; the mailboxes not handed out yet are
  default-constructed; a mailbox with an actor carries the address of its own index; the
  framework's own address is the word 0; and the end point is not set.
\<close>

definition mailbox_ok :: "u32 \<Rightarrow> u32 \<Rightarrow> 'v mailbox \<Rightarrow> bool" where
  "mailbox_ok bound i mb \<longleftrightarrow>
     (bound \<le> i \<longrightarrow> mb = Mailbox_init) \<and>
     (m_pActor mb \<noteq> None \<longrightarrow> mb_Address mb = Address_brief 0 (ucast i))"

definition fw_inv :: "'v framework \<Rightarrow> bool" where
  "fw_inv f \<longleftrightarrow> dir_wf (m_MailBoxes f) \<and> 0 < m_iNextIndex (m_MailBoxes f) \<and>
     (\<forall>i mb. Directory_GetEntry (m_MailBoxes f) i = Inr mb \<longrightarrow>
        mailbox_ok (m_iNextIndex (m_MailBoxes f)) i mb) \<and>
     m_Address f = Address_word 0 \<and> \<not> m_pEndPoint f \<and> \<not> m_pIoServicePool f"

lemma fw_inv_entry:
  "fw_inv f \<Longrightarrow> Directory_GetEntry (m_MailBoxes f) i = Inr mb \<Longrightarrow>
     mailbox_ok (m_iNextIndex (m_MailBoxes f)) i mb"
  by (simp add: fw_inv_def)

lemma SetEntry_next [simp]: "m_iNextIndex (Directory_SetEntry d i e) = m_iNextIndex d"
  by (simp add: Directory_SetEntry_def Let_def split: option.split)

lemma fw_inv_SetEntry:
  assumes "fw_inv f" and "Directory_GetEntry (m_MailBoxes f) i = Inr mb"
    and "mailbox_ok (m_iNextIndex (m_MailBoxes f)) i mb'"
  shows "fw_inv (f\<lparr>m_MailBoxes := Directory_SetEntry (m_MailBoxes f) i mb', fw_waiting := wl\<rparr>)"
proof -
  have v: "dir_valid (m_MailBoxes f) i" using assms(2) by (rule dir.get_Inr_valid)
  have wf: "dir_wf (m_MailBoxes f)" using assms(1) by (simp add: fw_inv_def)
  have "mailbox_ok (m_iNextIndex (m_MailBoxes f)) j e"
    if e: "Directory_GetEntry (Directory_SetEntry (m_MailBoxes f) i mb') j = Inr e" for j e
  proof -
    have "dir_valid (m_MailBoxes f) j"
      using dir.get_Inr_valid [OF e] by (simp add: dir.put_valid [OF wf v])
    with e show ?thesis
      using assms(1,3) by (auto simp: dir.get_put [OF wf v] fw_inv_def split: if_splits)
  qed
  with assms(1) show ?thesis
    by (simp add: fw_inv_def dir.put_inv [OF wf v])
qed

lemma SendInternal_Inr:
  assumes "Framework_SendInternal m a f = Inr (r, f')"
  obtains mb s mb' where "Directory_GetEntry (m_MailBoxes f) (m_Detail_m_Index a) = Inr mb"
    "Mailbox_PushMsg m mb = Inr (r, s, mb')"
    "f' = f\<lparr>m_MailBoxes := Directory_SetEntry (m_MailBoxes f) (m_Detail_m_Index a) mb',
      fw_waiting := (if s then SchedulerSemaphore_Schedule (unat (m_Detail_m_Index a)) (fw_waiting f)
                     else fw_waiting f)\<rparr>"
  using assms by (auto simp: Framework_SendInternal_def Let_def assert_utils_Inr_conv rbind_Inr_conv)

lemma fw_inv_SendInternal:
  assumes "fw_inv f" and "Framework_SendInternal m a f = Inr (r, f')"
  shows "fw_inv f'"
proof -
  obtain mb s mb' where mb: "Directory_GetEntry (m_MailBoxes f) (m_Detail_m_Index a) = Inr mb"
    "Mailbox_PushMsg m mb = Inr (r, s, mb')" and
    f': "f' = f\<lparr>m_MailBoxes := Directory_SetEntry (m_MailBoxes f) (m_Detail_m_Index a) mb',
      fw_waiting := (if s then SchedulerSemaphore_Schedule (unat (m_Detail_m_Index a)) (fw_waiting f)
                     else fw_waiting f)\<rparr>"
    using assms(2) by (rule SendInternal_Inr)
  have ok: "mailbox_ok (m_iNextIndex (m_MailBoxes f)) (m_Detail_m_Index a) mb"
    using assms(1) mb(1) by (simp add: fw_inv_def)
  then have "mailbox_ok (m_iNextIndex (m_MailBoxes f)) (m_Detail_m_Index a) mb'"
    using mb(2) by (auto simp: mailbox_ok_def PushMsg_Inr Mailbox_init_def split: if_splits)
  then show ?thesis unfolding f' by (rule fw_inv_SetEntry [OF assms(1) mb(1)])
qed

lemma fw_inv_route: "fw_inv f \<Longrightarrow> Framework_route m a f = Inr f' \<Longrightarrow> fw_inv f'"
  by (auto simp: Framework_route_def Framework_SystemMsg_def rbind_Inr_conv fw_inv_SendInternal
      split: if_splits) (simp add: fw_inv_def)

lemma fw_inv_SendEndPoint: "fw_inv f \<Longrightarrow> Framework_SendEndPoint m as f = Inl Null_deref"
  by (simp add: fw_inv_def Framework_SendEndPoint_def)

lemma fw_inv_SendMsg: "fw_inv f \<Longrightarrow> Framework_SendMsg m a f = Inr (r, f') \<Longrightarrow> fw_inv f'"
  by (auto simp: Framework_SendMsg_def rbind_Inr_conv fw_inv_SendEndPoint fw_inv_route
      split: if_splits)

lemma fw_inv_SendMsg_list:
  assumes "fw_inv f" and "Framework_SendMsg_list m as f = Inr (r, f')"
  shows "fw_inv f'"
proof -
  obtain g es where g: "rfold (\<lambda>it (f, es).
          if m_Brief_mProcess it = m_Brief_mProcess (m_Address f)
          then rbind (Framework_route m it f) (\<lambda>f. Inr (f, es))
          else Inr (f, es @ [it])) as (f, []) = Inr (g, es)"
    and f': "(if es \<noteq> [] then Framework_SendEndPoint m es g else Inr (True, g)) = Inr (r, f')"
    using assms(2) by (auto simp: Framework_SendMsg_list_def rbind_Inr_conv)
  have "case (g, es) of (f, _) \<Rightarrow> fw_inv f"
    using g by (rule rfold_invariant)
      (auto simp: assms(1) rbind_Inr_conv fw_inv_route split: if_splits)
  then show ?thesis
    using f' by (auto simp: fw_inv_SendEndPoint split: if_splits)
qed

lemma RegisterActor_Inr:
  assumes "Framework_RegisterActor act n f = Inr f'"
  obtains i d mb mb' where "Mailboxes_Allocate (m_MailBoxes f) = Inr (i, d)"
    "Directory_GetEntry d i = Inr mb" "m_pActor mb = None" "mb_Address mb = 0"
    "mb' = mb\<lparr>m_pScheduler := fw_pScheduler f, m_Name := n,
       mb_Address := Address_brief (ucast (m_Brief_mProcess (m_Address f))) (ucast i),
       m_pActor := Some act\<rparr>"
    "f' = f\<lparr>m_MailBoxes := Directory_SetEntry d i mb',
       actor_address := (actor_address f)(act := mb_Address mb')\<rparr>"
  using assms
  by (auto simp: Framework_RegisterActor_def rbind_Inr_conv assert_utils_Inr_conv RegisterActor_mailbox_Inr)

text \<open>Once the directory hands out no more fresh indices, registration cannot succeed.\<close>

lemma RegisterActor_full:
  assumes wf: "dir_wf (m_MailBoxes f)" and full: "m_iNextIndex (m_MailBoxes f) = 8192"
  shows "\<exists>e. Framework_RegisterActor act n f = Inl e"
  using wf full
proof (cases rule: Allocate_reuse [where P = Mailbox_IsUsed and dflt = Mailbox_init])
  case (found i d' e)
  have "Directory_GetEntry d' (of_nat i) = Inr e"
    using found by (simp add: Directory_GetEntry_def)
  then show ?thesis
    using found by (auto simp: Framework_RegisterActor_def RegisterActor_mailbox_def
        Mailbox_IsUsed_def assert_utils_def)
next
  case full
  then show ?thesis by (simp add: Framework_RegisterActor_def)
qed

lemma fw_next_less:
  assumes "fw_inv f" and "m_iNextIndex (m_MailBoxes f) \<noteq> 8192"
  shows "unat (m_iNextIndex (m_MailBoxes f)) < 8192"
proof -
  have "unat (m_iNextIndex (m_MailBoxes f)) \<le> 8192"
    using assms(1) by (simp add: fw_inv_def dir_wf_def)
  moreover have "unat (m_iNextIndex (m_MailBoxes f)) \<noteq> unat (8192 :: u32)"
    using assms(2) by (simp only: word_unat_eq_iff) simp
  ultimately show ?thesis by simp
qed

lemma m_Brief_mProcess_0 [simp]: "m_Brief_mProcess (Address_word 0) = 0"
  by (simp add: m_Brief_mProcess_def Address_word_def bf_get_def)

text \<open>A fresh registration: the mailbox found and the framework afterwards.\<close>

lemma RegisterActor_fresh:
  fixes f :: "'v framework" and nm :: name and act :: nat
  assumes inv: "fw_inv f" and n: "m_iNextIndex (m_MailBoxes f) \<noteq> 8192"
  defines "i \<equiv> m_iNextIndex (m_MailBoxes f)"
  defines "mb' \<equiv> (Mailbox_init :: 'v mailbox)\<lparr>m_pScheduler := fw_pScheduler f, m_Name := nm,
       mb_Address := Address_brief 0 (ucast i), m_pActor := Some act\<rparr>"
  shows "\<exists>d. Mailboxes_Allocate (m_MailBoxes f) = Inr (i, d) \<and>
    dir_wf d \<and> dir_valid d i \<and> m_iNextIndex d = i + 1 \<and>
    (\<forall>j mb. Directory_GetEntry d j = Inr mb \<longrightarrow> j = i \<or> mailbox_ok (i + 1) j mb) \<and>
    (\<forall>j. dir_valid (m_MailBoxes f) j \<longrightarrow>
       dir_valid d j \<and> Directory_GetEntry d j = Directory_GetEntry (m_MailBoxes f) j) \<and>
    Framework_RegisterActor act nm f = Inr (f\<lparr>m_MailBoxes := Directory_SetEntry d i mb',
       actor_address := (actor_address f)(act := mb_Address mb')\<rparr>)"
proof -
  have wf: "dir_wf (m_MailBoxes f)" using inv by (simp add: fw_inv_def)
  obtain d where d: "Mailboxes_Allocate (m_MailBoxes f) = Inr (i, d)" "dir_wf d" "dir_valid d i"
    "m_iNextIndex d = i + 1"
    "\<And>j. dir_valid (m_MailBoxes f) j \<Longrightarrow>
       dir_valid d j \<and> Directory_GetEntry d j = Directory_GetEntry (m_MailBoxes f) j"
    "\<And>j. dir_valid d j \<Longrightarrow> \<not> dir_valid (m_MailBoxes f) j \<Longrightarrow>
       Directory_GetEntry d j = Inr Mailbox_init"
    using Allocate_fresh [OF wf fw_next_less [OF inv n], of Mailbox_IsUsed Mailbox_init]
    unfolding i_def by metis
  have ok: "mailbox_ok i j mb" if "Directory_GetEntry d j = Inr mb" for j mb
  proof (cases "dir_valid (m_MailBoxes f) j")
    case True
    with d(5) that inv show ?thesis by (simp add: fw_inv_def i_def)
  next
    case False
    have "mb = Mailbox_init" using d(6) [OF dir.get_Inr_valid [OF that] False] that by simp
    then show ?thesis by (simp add: mailbox_ok_def) (simp add: Mailbox_init_def)
  qed
  have lt: "unat i < 8192" unfolding i_def using inv n by (rule fw_next_less)
  have suc: "i + 1 \<le> j" if "i \<le> j" "j \<noteq> i" for j
    using that lt by (simp add: word_le_nat_alt word_unat_eq_iff unat_word_ariths)
  have le: "i \<le> i + 1" using lt by (simp add: word_le_nat_alt unat_word_ariths)
  have "mailbox_ok (i + 1) j mb" if "Directory_GetEntry d j = Inr mb" "j \<noteq> i" for j mb
    using ok [OF that(1)] le by (auto simp: mailbox_ok_def)
  moreover have get: "Directory_GetEntry d i = Inr Mailbox_init"
    using ok [of i] GetEntry_valid [OF d(3)] by (auto simp: mailbox_ok_def)
  moreover have "i \<noteq> - 1" using lt
    by (auto simp: word_unat_eq_iff unsigned_minus_1_eq_mask mask_eq_exp_minus_1)
  moreover have "Framework_RegisterActor act nm f = Inr (f\<lparr>m_MailBoxes := Directory_SetEntry d i mb',
       actor_address := (actor_address f)(act := mb_Address mb')\<rparr>)"
    using \<open>i \<noteq> - 1\<close> d(1) get inv
    by (simp add: Framework_RegisterActor_def RegisterActor_mailbox_def Mailbox_RegisterActor_def
        Mailbox_SetAddress_def Mailbox_SetName_def Mailbox_SetScheduler_def mb'_def fw_inv_def)
       (simp add: Mailbox_init_def)
  ultimately show ?thesis using d by blast
qed

lemma RegisterActor_next:
  "fw_inv f \<Longrightarrow> m_iNextIndex (m_MailBoxes f) \<noteq> 8192 \<Longrightarrow>
     \<exists>f'. Framework_RegisterActor act nm f = Inr f' \<and>
       m_iNextIndex (m_MailBoxes f') = m_iNextIndex (m_MailBoxes f) + 1"
  using RegisterActor_fresh [of f act nm] by auto

lemma fw_inv_RegisterActor:
  fixes f :: "'v framework"
  assumes inv: "fw_inv f" and r: "Framework_RegisterActor act n f = Inr f'"
  shows "fw_inv f'"
proof (cases "m_iNextIndex (m_MailBoxes f) = 8192")
  case True
  with inv r RegisterActor_full [of f act n] show ?thesis by (auto simp: fw_inv_def)
next
  case False
  let ?i = "m_iNextIndex (m_MailBoxes f)"
  let ?mb = "(Mailbox_init :: 'v mailbox)\<lparr>m_pScheduler := fw_pScheduler f, m_Name := n,
       mb_Address := Address_brief 0 (ucast ?i), m_pActor := Some act\<rparr>"
  obtain d where d: "dir_wf d" "dir_valid d ?i" "m_iNextIndex d = ?i + 1"
    "\<And>j mb. Directory_GetEntry d j = Inr mb \<Longrightarrow> j = ?i \<or> mailbox_ok (?i + 1) j mb"
    and reg: "Framework_RegisterActor act n f = Inr (f\<lparr>m_MailBoxes := Directory_SetEntry d ?i ?mb,
       actor_address := (actor_address f)(act := mb_Address ?mb)\<rparr>)"
    using RegisterActor_fresh [OF inv False, of act n] by blast
  have lt: "unat ?i < 8192" using inv False by (rule fw_next_less)
  have nle: "\<not> ?i + 1 \<le> ?i" using lt by (simp add: word_le_nat_alt unat_word_ariths)
  have pos: "0 < ?i + 1" using lt by (simp add: word_less_nat_alt unat_word_ariths)
  have "mailbox_ok (?i + 1) j mb" if e: "Directory_GetEntry (Directory_SetEntry d ?i ?mb) j = Inr mb" for j mb
  proof (cases "j = ?i")
    case True
    with e d(1,2) nle show ?thesis by (auto simp: dir.get_put mailbox_ok_def)
  next
    case False
    have "dir_valid d j" using dir.get_Inr_valid [OF e] by (simp add: dir.put_valid [OF d(1,2)])
    with e d(1,2) False have "Directory_GetEntry d j = Inr mb" by (simp add: dir.get_put)
    with d(4) False show ?thesis by blast
  qed
  with inv r d(1,2,3) reg pos show ?thesis
    by (auto simp: fw_inv_def dir.put_inv)
qed

lemma fw_inv_address: "fw_inv (f\<lparr>actor_address := g\<rparr>) = fw_inv f"
  by (simp add: fw_inv_def)

lemma fw_inv_UnRegisterActor:
  assumes "fw_inv f" and "Framework_UnRegisterActor act f = Inr f'"
  shows "fw_inv f'"
proof -
  let ?i = "m_Detail_m_Index (actor_address f act)"
  obtain mb where mb: "Directory_GetEntry (m_MailBoxes f) ?i = Inr mb" and
    f': "f' = f\<lparr>m_MailBoxes := Directory_SetEntry (m_MailBoxes f) ?i (Mailbox_UnRegisterActor mb)\<rparr>"
    using assms(2) by (auto simp: Framework_UnRegisterActor_def Let_def rbind_Inr_conv)
  have "mailbox_ok (m_iNextIndex (m_MailBoxes f)) ?i (Mailbox_UnRegisterActor mb)"
    using fw_inv_entry [OF assms(1) mb]
    by (auto simp: mailbox_ok_def Mailbox_UnRegisterActor_def Mailbox_init_def)
  from fw_inv_SetEntry [OF assms(1) mb this, of "fw_waiting f"] show ?thesis
    by (simp add: f')
qed

lemma fw_inv_step: "fw_step f f' \<Longrightarrow> fw_inv f \<Longrightarrow> fw_inv f'"
proof (induction rule: fw_step.induct)
  case (send_value act ty v a f r f')
  then show ?case
    by (auto simp: Actor_SendValueMsg_def Actor_SendMsg_def ValueMessage_make_def Let_def
        intro: fw_inv_SendMsg)
next
  case (make_actor act n a f f')
  then show ?case
    by (auto simp: Actor_make_def Let_def fw_inv_address split: if_splits
        intro: fw_inv_RegisterActor [rotated])
next
  case (work f i mb wl n hs rs)
  have "mailbox_ok (m_iNextIndex (m_MailBoxes f)) i
      (mb\<lparr>m_listRecive := rs, m_listHandle := hs, m_nUnHanle := n\<rparr>)"
    using fw_inv_entry [OF work(3,1)] work(2) by (auto simp: mailbox_ok_def Mailbox_init_def)
  then show ?case by (rule fw_inv_SetEntry [OF work(3,1)])
qed (auto simp: Actor_destroy_def Framework_RunOnce_def split: if_splits
    intro: fw_inv_SendMsg fw_inv_SendMsg_list fw_inv_UnRegisterActor)

lemma fw_inv_make:
  fixes f :: "'v framework"
  assumes r: "Framework_make sch = Inr f"
  shows "fw_inv f"
proof -
  have n: "m_iNextIndex Directory_init = 0" "\<not> dir_valid Directory_init j" for j
    by (simp_all add: Directory_init_def dir_valid_def page_index_less)
  have "unat (m_iNextIndex Directory_init) < 8192" by (simp add: n)
  then obtain d :: "'v mailbox directory" where d: "Mailboxes_Allocate Directory_init = Inr (0, d)" "dir_wf d" "m_iNextIndex d = 1"
    "\<And>j. dir_valid d j \<Longrightarrow> Directory_GetEntry d j = Inr Mailbox_init"
    by (rule Allocate_fresh [OF dir_wf_init, of Mailbox_IsUsed Mailbox_init]) (simp_all add: n, blast)
  have "mailbox_ok k j mb" if "Directory_GetEntry d j = Inr mb" for k j mb
  proof -
    have "mb = Mailbox_init" using d(4) [OF dir.get_Inr_valid [OF that]] that by simp
    then show ?thesis by (simp add: mailbox_ok_def) (simp add: Mailbox_init_def)
  qed
  then show ?thesis
    using r d by (auto simp: Framework_make_def fw_inv_def)
qed

lemma fw_reach_inv: "fw_reach f \<Longrightarrow> fw_inv f"
  by (induction rule: fw_reach.induct) (auto intro: fw_inv_make fw_inv_step)

text \<open>The index is read back from the address of a mailbox.\<close>

lemma registered_index:
  assumes "unat (i :: u32) < 8192"
  shows "m_Detail_m_Index (Address_brief 0 (ucast i)) = i"
proof -
  have "unat (m_Detail_m_Index (Address_brief 0 (ucast i))) = unat i"
    using assms by (simp add: Address_brief_bits unat_take_bit_32 unat_ucast_u16
        flip: brief_index_is_detail_index)
  then show ?thesis by (simp only: word_unat_eq_iff)
qed

lemma registered_process: "m_Brief_mProcess (Address_brief 0 i) = 0"
  by (simp add: Address_brief_bits)


text \<open>The framework's own address and end point are not touched by routing.\<close>

lemma route_keeps:
  "Framework_route m a f = Inr f' \<Longrightarrow> m_Address f' = m_Address f \<and> m_pEndPoint f' = m_pEndPoint f"
  by (auto simp: Framework_route_def Framework_SystemMsg_def rbind_Inr_conv split: if_splits
      elim!: SendInternal_Inr)

text \<open>Every number of indices up to 8192 is handed out in some reachable state.\<close>

lemma Framework_make_ok:
  obtains f :: "'v framework" where "Framework_make sch = Inr f" "fw_reach f"
    "m_iNextIndex (m_MailBoxes f) = 1" "fw_pScheduler f = sch"
proof -
  have n: "m_iNextIndex (Directory_init :: 'v mailbox directory) = 0" by (simp add: Directory_init_def)
  then have "unat (m_iNextIndex (Directory_init :: 'v mailbox directory)) < 8192" by simp
  then obtain d :: "'v mailbox directory" where "Mailboxes_Allocate Directory_init = Inr (0, d)"
      "m_iNextIndex d = 1"
    by (rule Allocate_fresh [OF dir_wf_init, of Mailbox_IsUsed Mailbox_init]) (simp add: n)
  then show thesis
    using that by (simp add: Framework_make_def) (metis fw_reach.made Framework_make_def rbind_simps(2)
      case_prod_conv framework.select_convs(2,3))
qed

lemma fw_reach_next:
  assumes "n < 8192"
  shows "\<exists>f :: 'v framework. fw_reach f \<and> m_iNextIndex (m_MailBoxes f) = of_nat (Suc n)"
  using assms
proof (induction n)
  case 0
  obtain f :: "'v framework" where "fw_reach f" "m_iNextIndex (m_MailBoxes f) = 1"
    by (rule Framework_make_ok)
  then show ?case by (intro exI [of _ f]) simp
next
  case (Suc n)
  then obtain f :: "'v framework" where f: "fw_reach f" "m_iNextIndex (m_MailBoxes f) = of_nat (Suc n)"
    by auto
  have ne: "of_nat (Suc n) \<noteq> (8192 :: u32)"
    using Suc.prems by (simp only: word_unat_eq_iff) (simp add: unat_of_nat del: of_nat_Suc)
  let ?f = "f\<lparr>actor_address := (actor_address f)(0 := 0)\<rparr>"
  have "fw_inv ?f" using fw_reach_inv [OF f(1)] by (simp add: fw_inv_address)
  moreover have "m_iNextIndex (m_MailBoxes ?f) = of_nat (Suc n)" using f(2) by simp
  ultimately obtain g where reg: "Framework_RegisterActor 0 None ?f = Inr g"
    and g: "m_iNextIndex (m_MailBoxes g) = of_nat (Suc n) + 1"
    using RegisterActor_next [of ?f 0 None] ne by metis
  have "Actor_make 0 None 0 f = Inr g"
    using reg by (simp add: Actor_make_def Address_eq_def Address_word_def)
  then have "fw_reach g" using f(1) by (blast intro: fw_reach.stepped fw_step.make_actor)
  moreover have "m_iNextIndex (m_MailBoxes g) = of_nat (Suc (Suc n))"
    using g by simp
  ultimately show ?case by blast
qed

section \<open>Properties\<close>

text \<open>
  C4. In every state a framework reaches from its constructor: the directory is well-formed,
  every mailbox with an actor carries the address whose index is its own place in the
  directory, so two registered mailboxes never share an address, and every mailbox not yet
  handed out is default-constructed.
\<close>

theorem framework_addresses:
  assumes "fw_reach f"
  shows "dir_wf (m_MailBoxes f) \<and>
    (\<forall>i mb. Directory_GetEntry (m_MailBoxes f) i = Inr mb \<longrightarrow>
       (m_pActor mb \<noteq> None \<longrightarrow> m_Detail_m_Index (mb_Address mb) = i) \<and>
       (m_iNextIndex (m_MailBoxes f) \<le> i \<longrightarrow> mb = Mailbox_init)) \<and>
    (\<forall>i j mb mb'. Directory_GetEntry (m_MailBoxes f) i = Inr mb \<and>
       Directory_GetEntry (m_MailBoxes f) j = Inr mb' \<and> m_pActor mb \<noteq> None \<and> m_pActor mb' \<noteq> None \<and>
       Address_eq (mb_Address mb) (mb_Address mb') \<longrightarrow> i = j)"
proof -
  have inv: "fw_inv f" using assms by (rule fw_reach_inv)
  have idx: "m_Detail_m_Index (mb_Address mb) = i"
    if e: "Directory_GetEntry (m_MailBoxes f) i = Inr mb" "m_pActor mb \<noteq> None" for i mb
  proof -
    have "mb_Address mb = Address_brief 0 (ucast i)"
      using inv e by (simp add: fw_inv_def mailbox_ok_def)
    moreover have "unat i < 8192"
      using dir.get_Inr_valid [OF e(1)] by (simp add: dir_valid_def)
    ultimately show ?thesis by (simp add: registered_index)
  qed
  then show ?thesis
    using inv by (auto simp: fw_inv_def mailbox_ok_def Address_eq_def) (metis option.distinct(1))
qed

theorem framework_addresses_witness:
  "\<exists>f :: nat framework. Framework_make True = Inr f \<and> dir_wf (m_MailBoxes f)"
proof -
  obtain f :: "nat framework" where "Framework_make True = Inr f" "fw_reach f"
    by (rule Framework_make_ok)
  with framework_addresses [of f] show ?thesis by blast
qed

text \<open>
  C3. Registration and delivery: in a reachable framework with a scheduler and an index left,
  registering an actor succeeds and gives it the address of the next index; a message sent to
  that address is accepted, becomes the only received message of the actor's mailbox, and
  puts that mailbox at the end of the scheduler's list; no other mailbox changes.
\<close>

theorem register_then_send:
  assumes "fw_reach f" and "fw_pScheduler f" and "m_iNextIndex (m_MailBoxes f) \<noteq> 8192"
  defines "i \<equiv> m_iNextIndex (m_MailBoxes f)"
  shows "\<exists>f' f'' mb. Framework_RegisterActor act nm f = Inr f' \<and>
    actor_address f' act = Address_brief 0 (ucast i) \<and>
    Framework_SendMsg m (actor_address f' act) f' = Inr (True, f'') \<and>
    Directory_GetEntry (m_MailBoxes f'') i = Inr mb \<and>
    m_pActor mb = Some act \<and> m_Name mb = nm \<and> m_listRecive mb = [m] \<and>
    fw_waiting f'' = fw_waiting f @ [Some (unat i)] \<and>
    (\<forall>j. j \<noteq> i \<and> dir_valid (m_MailBoxes f) j \<longrightarrow>
       Directory_GetEntry (m_MailBoxes f'') j = Directory_GetEntry (m_MailBoxes f) j)"
proof -
  have inv: "fw_inv f" using assms(1) by (rule fw_reach_inv)
  let ?mb = "(Mailbox_init :: 'a mailbox)\<lparr>m_pScheduler := fw_pScheduler f, m_Name := nm,
       mb_Address := Address_brief 0 (ucast i), m_pActor := Some act\<rparr>"
  obtain d where d: "dir_wf d" "dir_valid d i"
    "\<forall>j. dir_valid (m_MailBoxes f) j \<longrightarrow>
       dir_valid d j \<and> Directory_GetEntry d j = Directory_GetEntry (m_MailBoxes f) j"
    and reg: "Framework_RegisterActor act nm f = Inr (f\<lparr>m_MailBoxes := Directory_SetEntry d i ?mb,
       actor_address := (actor_address f)(act := mb_Address ?mb)\<rparr>)"
    using RegisterActor_fresh [OF inv assms(3), of act nm] unfolding i_def by blast
  let ?f' = "f\<lparr>m_MailBoxes := Directory_SetEntry d i ?mb,
       actor_address := (actor_address f)(act := mb_Address ?mb)\<rparr>"
  have lt: "unat i < 8192" using fw_next_less [OF inv assms(3)] by (simp add: i_def)
  have pos: "i \<noteq> 0" using inv by (auto simp: fw_inv_def i_def)
  have own: "m_Address f = Address_word 0" using inv by (simp add: fw_inv_def)
  have push: "Mailbox_PushMsg m ?mb = Inr (True, True, ?mb\<lparr>m_listRecive := [m]\<rparr>)"
    using assms(2) by (simp add: PushMsg_Inr) (simp add: Mailbox_init_def)
  have send: "Framework_SendMsg m (Address_brief 0 (ucast i)) ?f' = Inr (True, ?f'
      \<lparr>m_MailBoxes := Directory_SetEntry (Directory_SetEntry d i ?mb) i (?mb\<lparr>m_listRecive := [m]\<rparr>),
       fw_waiting := fw_waiting f @ [Some (unat i)]\<rparr>)"
    using push pos d(1,2)
    by (simp add: Framework_SendMsg_def Framework_route_def Framework_SendInternal_def
        registered_index [OF lt] registered_process own dir.get_put SchedulerSemaphore_Schedule_def)
  have frame: "Directory_GetEntry (Directory_SetEntry (Directory_SetEntry d i ?mb) i mb') j =
      (if j = i then Inr mb' else Directory_GetEntry d j)" if "dir_valid d j" for j mb'
    using that d(1,2) by (simp add: dir.get_put dir.put_inv dir.put_valid)
  from reg send d show ?thesis by (simp add: frame)
qed

theorem register_then_send_witness:
  "\<exists>(f :: nat framework) f' f'' mb. Framework_make True = Inr f \<and>
     Framework_RegisterActor 7 None f = Inr f' \<and> actor_address f' 7 = 0x80000 \<and>
     Framework_SendMsg None 0x80000 f' = Inr (True, f'') \<and>
     Directory_GetEntry (m_MailBoxes f'') 1 = Inr mb \<and> m_listRecive mb = [None]"
proof -
  obtain f :: "nat framework" where f: "Framework_make True = Inr f" "fw_reach f"
      "m_iNextIndex (m_MailBoxes f) = 1" "fw_pScheduler f"
    by (rule Framework_make_ok [of True]) blast
  have a: "Address_brief 0 1 = 0x80000"
    by (simp add: Address_brief_def bf_set_def)
  obtain f' f'' mb where "Framework_RegisterActor 7 None f = Inr f'"
      "actor_address f' 7 = Address_brief 0 (ucast (1 :: u32))"
      "Framework_SendMsg None (actor_address f' 7) f' = Inr (True, f'')"
      "Directory_GetEntry (m_MailBoxes f'') 1 = Inr mb" "m_listRecive mb = [None]"
    using register_then_send [of f 7 None None] f by auto
  with f(1) show ?thesis by (intro exI conjI) (simp_all add: a)
qed

text \<open>
  A framework registers at most 8191 actors in its life: once the directory's indices are
  used up, every further registration fails, although mailboxes may have been unregistered.
  (The directory looks for a mailbox for which \<open>IsUsed\<close> is false, and \<open>Mailbox::IsUsed\<close> is
  true exactly when the mailbox has no actor, so the search returns an occupied one.)
\<close>

theorem register_full_fails:
  assumes "fw_reach f" and "m_iNextIndex (m_MailBoxes f) = 8192"
  shows "\<exists>e. Framework_RegisterActor act nm f = Inl e"
  using RegisterActor_full fw_reach_inv [OF assms(1)] assms(2) by (auto simp: fw_inv_def)

theorem register_full_fails_witness:
  "\<exists>(f :: nat framework) e. fw_reach f \<and> m_iNextIndex (m_MailBoxes f) = 8192 \<and>
     Framework_RegisterActor 7 None f = Inl e"
proof -
  obtain f :: "nat framework" where f: "fw_reach f" "m_iNextIndex (m_MailBoxes f) = 8192"
    using fw_reach_next [of 8191] by auto
  with register_full_fails [OF f, of 7 None] show ?thesis by blast
qed

text \<open>
  The end point is never set: in every reachable state \<open>Destroy\<close> and a message to another
  process dereference a null pointer, and \<open>Init\<close> returns false.
\<close>

theorem framework_no_end_point:
  assumes "fw_reach f"
  shows "Framework_Destroy f = Inl Null_deref \<and>
    (\<forall>m a. m_Brief_mProcess a \<noteq> 0 \<longrightarrow> Framework_SendMsg m a f = Inl Null_deref) \<and>
    Framework_Init f = (False, f)"
  using fw_reach_inv [OF assms]
  by (simp add: fw_inv_def Framework_Destroy_def Framework_SendMsg_def Framework_SendEndPoint_def
      Framework_Init_def)

theorem framework_no_end_point_witness:
  "\<exists>f :: nat framework. Framework_make True = Inr f \<and> Framework_Destroy f = Inl Null_deref \<and>
     Framework_SendMsg None 3 f = Inl Null_deref"
proof -
  obtain f :: "nat framework" where f: "Framework_make True = Inr f" "fw_reach f"
    by (rule Framework_make_ok)
  have "m_Brief_mProcess 3 \<noteq> 0" by (simp add: m_Brief_mProcess_def bf_get_def take_bit_eq_mask mask_numeral)
  with f framework_no_end_point [OF f(2)] show ?thesis by blast
qed

text \<open>
  Sending to a list of addresses is sending to its addresses of this process one by one,
  in order, followed, when there are others, by one call of the end point with exactly those.
\<close>

theorem send_list_one_by_one:
  "Framework_SendMsg_list m as f =
     (let local = (\<lambda>a. m_Brief_mProcess a = m_Brief_mProcess (m_Address f)) in
      rbind (rfold (\<lambda>a f. rbind (Framework_SendMsg m a f) (\<lambda>(_, f). Inr f)) (filter local as) f)
        (\<lambda>f'. if list_all local as then Inr (True, f')
              else Framework_SendEndPoint m (filter (\<lambda>a. \<not> local a) as) f'))"
proof -
  define local where "local = (\<lambda>a. m_Brief_mProcess a = m_Brief_mProcess (m_Address f))"
  have "rfold (\<lambda>it (f, es).
          if m_Brief_mProcess it = m_Brief_mProcess (m_Address f)
          then rbind (Framework_route m it f) (\<lambda>f. Inr (f, es))
          else Inr (f, es @ [it])) as (g, es) =
      rbind (rfold (\<lambda>a f. rbind (Framework_SendMsg m a f) (\<lambda>(_, f). Inr f)) (filter local as) g)
        (\<lambda>f'. Inr (f', es @ filter (\<lambda>a. \<not> local a) as))"
    if "m_Address g = m_Address f" for g es
    using that
  proof (induction as arbitrary: g es)
    case Nil
    then show ?case by simp
  next
    case (Cons a as)
    show ?case
    proof (cases "local a")
      case False
      with Cons show ?thesis by (simp add: local_def)
    next
      case True
      show ?thesis
      proof (cases "Framework_route m a g")
        case (Inl e)
        with True Cons.prems show ?thesis by (simp add: local_def Framework_SendMsg_def)
      next
        case (Inr h)
        then have "m_Address h = m_Address f" using route_keeps Cons.prems by metis
        with Inr True Cons show ?thesis by (simp add: local_def Framework_SendMsg_def)
      qed
    qed
  qed
  from this [of f "[]"] show ?thesis
    unfolding Framework_SendMsg_list_def Let_def
    by (cases "rfold (\<lambda>a f. rbind (Framework_SendMsg m a f) (\<lambda>(_, f). Inr f)) (filter local as) f")
       (auto simp: filter_empty_conv local_def list_all_iff)
qed

end
