(* ===== verification/String_Value.thy ===== *)
theory String_Value
  imports Gm_Prelude "HOL-Library.Char_ord"
begin

text \<open>
  \<open>DataHandle/TData/StringValue.h\<close> and \<open>Utils/StringUtils.h\<close>: values as text. A \<open>const char*\<close>
  is the characters before its NUL; a \<open>std::string\<close> is its characters. The conversions of
  the C and C++ libraries (\<open>atoi\<close>, \<open>_atoi64\<close>, \<open>std::stoi\<close>, \<open>strtoull\<close>, \<open>snprintf\<close> with
  \<open>%d\<close>, \<open>%u\<close>, \<open>%lld\<close> and \<open>%llu\<close>) are written out below; \<open>_atoi64\<close> exists in Microsoft's
  library only, which documents that \<open>atoi\<close> and \<open>_atoi64\<close> return the nearest
  representable value on overflow. The floating-point conversions are not modelled.
\<close>

section \<open>Decimal text\<close>

definition is_digit :: "char \<Rightarrow> bool" where
  "is_digit c \<longleftrightarrow> 48 \<le> (of_char c :: nat) \<and> (of_char c :: nat) < 58"

definition digit_val :: "char \<Rightarrow> nat" where
  "digit_val c = of_char c - 48"

definition digit_char :: "nat \<Rightarrow> char" where
  "digit_char d = char_of (48 + d)"

definition digits_val :: "string \<Rightarrow> nat" where
  "digits_val s = foldl (\<lambda>a c. 10 * a + digit_val c) 0 s"

fun dec_of_nat :: "nat \<Rightarrow> string" where
  "dec_of_nat n = (if n < 10 then [digit_char n] else dec_of_nat (n div 10) @ [digit_char (n mod 10)])"

declare dec_of_nat.simps [simp del]

definition dec_of_int :: "int \<Rightarrow> string" where
  "dec_of_int i = (if i < 0 then CHR ''-'' # dec_of_nat (nat (- i)) else dec_of_nat (nat i))"

text \<open>What \<open>isspace\<close> accepts: tab, line feed, vertical tab, form feed, return and space.\<close>

definition is_space :: "char \<Rightarrow> bool" where
  "is_space c \<longleftrightarrow> (of_char c :: nat) = 32 \<or> 9 \<le> (of_char c :: nat) \<and> (of_char c :: nat) \<le> 13"

text \<open>
  The integer at the start of a text: spaces are skipped, a sign may follow, then the longest
  run of digits; no digits is \<open>None\<close>.
\<close>

definition leading_nat :: "string \<Rightarrow> nat option" where
  "leading_nat s = (let ds = takeWhile is_digit s in if ds = [] then None else Some (digits_val ds))"

definition leading_int :: "string \<Rightarrow> int option" where
  "leading_int s = (case dropWhile is_space s of
     [] \<Rightarrow> None
   | c # cs \<Rightarrow>
       if c = CHR ''-'' then map_option (\<lambda>n. - int n) (leading_nat cs)
       else if c = CHR ''+'' then map_option int (leading_nat cs)
       else map_option int (leading_nat (c # cs)))"

definition clamp :: "nat \<Rightarrow> int \<Rightarrow> int" where
  "clamp w i = max (- (2 ^ (w - 1))) (min (2 ^ (w - 1) - 1) i)"

definition atoi :: "string \<Rightarrow> int" where
  "atoi s = (case leading_int s of None \<Rightarrow> 0 | Some i \<Rightarrow> clamp 32 i)"

definition atoi64 :: "string \<Rightarrow> int" where
  "atoi64 s = (case leading_int s of None \<Rightarrow> 0 | Some i \<Rightarrow> clamp 64 i)"

definition std_stoi :: "string \<Rightarrow> int res" where
  "std_stoi s = (case leading_int s of
     None \<Rightarrow> Inl (Throw ''invalid stoi argument'')
   | Some i \<Rightarrow> if clamp 32 i = i then Inr i else Inl (Throw ''stoi argument out of range''))"

definition std_stoll :: "string \<Rightarrow> int res" where
  "std_stoll s = (case leading_int s of
     None \<Rightarrow> Inl (Throw ''invalid stoll argument'')
   | Some i \<Rightarrow> if clamp 64 i = i then Inr i else Inl (Throw ''stoll argument out of range''))"

text \<open>\<open>strtoull\<close> negates modulo 2 to the 64 when the text has a minus sign.\<close>

definition std_stoull :: "string \<Rightarrow> u64 res" where
  "std_stoull s = (case leading_int s of
     None \<Rightarrow> Inl (Throw ''invalid stoull argument'')
   | Some i \<Rightarrow> if \<bar>i\<bar> < 2 ^ 64 then Inr (of_int i) else Inl (Throw ''stoull argument out of range''))"


section \<open>Reading back decimal text\<close>

lemma digit_char: "d < 10 \<Longrightarrow> is_digit (digit_char d) \<and> digit_val (digit_char d) = d"
  by (simp add: is_digit_def digit_val_def digit_char_def of_char_of)

lemma dec_of_nat_digits: "\<forall>c \<in> set (dec_of_nat n). is_digit c"
proof (induction n rule: dec_of_nat.induct)
  case (1 n)
  then show ?case by (subst dec_of_nat.simps) (auto simp: digit_char)
qed

lemma dec_of_nat_Nil [simp]: "dec_of_nat n \<noteq> []"
  by (subst dec_of_nat.simps) simp

lemma digits_val_snoc: "digits_val (s @ [c]) = 10 * digits_val s + digit_val c"
  by (simp add: digits_val_def)

lemma digits_val_dec [simp]: "digits_val (dec_of_nat n) = n"
proof (induction n rule: dec_of_nat.induct)
  case (1 n)
  show ?case
  proof (cases "n < 10")
    case True
    then show ?thesis by (subst dec_of_nat.simps) (simp add: digits_val_def digit_char)
  next
    case False
    then have "digits_val (dec_of_nat n) = 10 * (n div 10) + digit_val (digit_char (n mod 10))"
      using 1 by (subst dec_of_nat.simps) (simp add: digits_val_snoc)
    then show ?thesis by (simp add: digit_char)
  qed
qed

lemma takeWhile_dec:
  assumes "r = [] \<or> \<not> is_digit (hd r)"
  shows "takeWhile is_digit (dec_of_nat n @ r) = dec_of_nat n"
proof -
  have "takeWhile is_digit r = []" using assms by (cases r) auto
  then show ?thesis using dec_of_nat_digits [of n] by (simp add: takeWhile_append2)
qed

lemma leading_nat_dec: "r = [] \<or> \<not> is_digit (hd r) \<Longrightarrow> leading_nat (dec_of_nat n @ r) = Some n"
  by (simp add: leading_nat_def takeWhile_dec)

lemma is_digit_not: "is_digit c \<Longrightarrow> \<not> is_space c \<and> c \<noteq> CHR ''-'' \<and> c \<noteq> CHR ''+'' \<and>
    c \<noteq> CHR ''|'' \<and> c \<noteq> CHR '':'' \<and> c \<noteq> CHR 0x00"
  by (auto simp: is_digit_def is_space_def)

lemma leading_int_dec_nat:
  assumes "r = [] \<or> \<not> is_digit (hd r)"
  shows "leading_int (dec_of_nat n @ r) = Some (int n)"
proof -
  obtain c cs where c: "dec_of_nat n = c # cs" by (cases "dec_of_nat n") auto
  then have "is_digit c" using dec_of_nat_digits [of n] by simp
  from is_digit_not [OF this] show ?thesis
    using leading_nat_dec [OF assms, of n] by (simp add: leading_int_def c)
qed

lemma leading_int_dec:
  assumes "r = [] \<or> \<not> is_digit (hd r)"
  shows "leading_int (dec_of_int i @ r) = Some i"
  using leading_int_dec_nat [OF assms] leading_nat_dec [OF assms]
  by (simp add: dec_of_int_def) (simp add: leading_int_def is_space_def)

lemmas leading_int_dec_nat' [simp] = leading_int_dec_nat [where r = "[]", simplified]
lemmas leading_int_dec' [simp] = leading_int_dec [where r = "[]", simplified]

lemma clamp_id: "clamp w i = i \<longleftrightarrow> - (2 ^ (w - 1)) \<le> i \<and> i < 2 ^ (w - 1)"
proof -
  have "(0 :: int) < 2 ^ (w - 1)" by simp
  then show ?thesis unfolding clamp_def by linarith
qed


section \<open>Values of each type\<close>

definition get_u32_cstr :: "string \<Rightarrow> u32" where
  "get_u32_cstr pStr = of_int (atoi pStr)"

definition get_u32_string :: "string \<Rightarrow> u32 res" where
  "get_u32_string str = map_sum id of_int (std_stoi str)"

definition ToString_u32 :: "u32 \<Rightarrow> string" where
  "ToString_u32 iValue = dec_of_nat (unat iValue)"

definition get_i32_cstr :: "string \<Rightarrow> int" where
  "get_i32_cstr pStr = atoi pStr"

definition get_i32_string :: "string \<Rightarrow> int res" where
  "get_i32_string str = std_stoi str"

definition ToString_i32 :: "int \<Rightarrow> string" where
  "ToString_i32 iValue = dec_of_int iValue"

definition get_i64_cstr :: "string \<Rightarrow> int" where
  "get_i64_cstr pStr = atoi64 pStr"

definition get_i64_string :: "string \<Rightarrow> int res" where
  "get_i64_string str = std_stoll str"

definition ToString_i64 :: "int \<Rightarrow> string" where
  "ToString_i64 iValue = dec_of_int iValue"

definition get_u64_cstr :: "string \<Rightarrow> u64" where
  "get_u64_cstr pStr = of_int (atoi64 pStr)"

definition get_u64_string :: "string \<Rightarrow> u64 res" where
  "get_u64_string str = std_stoull str"

definition ToString_u64 :: "u64 \<Rightarrow> string" where
  "ToString_u64 iValue = dec_of_nat (unat iValue)"

text \<open>
  What a function sees of a text behind a \<open>const char*\<close>: the characters before the first NUL.
\<close>

definition c_str :: "string \<Rightarrow> string" where
  "c_str s = takeWhile (\<lambda>c. c \<noteq> CHR 0x00) s"

lemma c_str_append: "c_str (s @ t) = (if CHR 0x00 \<in> set s then c_str s else s @ c_str t)"
  by (induction s) (auto simp: c_str_def)

lemma c_str_id: "CHR 0x00 \<notin> set s \<Longrightarrow> c_str s = s"
  using c_str_append [of s "[]"] by (simp add: c_str_def)

text \<open>
  A string value is quoted. Reading it drops the first and the last character of the C
  string; on one of fewer than two characters \<open>pStr + 1\<close> or \<open>erase(end() - 1)\<close> leaves the
  string.
\<close>

definition get_string_cstr :: "string \<Rightarrow> string res" where
  "get_string_cstr pStr = (let p = c_str pStr in
     if length p < 2 then Inl Out_of_range else Inr (butlast (tl p)))"

definition ToString_string :: "string \<Rightarrow> string" where
  "ToString_string strValue = CHR 0x22 # strValue @ [CHR 0x22]"

text \<open>
  Reading a string value back: the value, when it holds no NUL; otherwise what stands before
  the NUL without its last character, since the closing quote is behind the cut.
\<close>

lemma get_ToString_string:
  "get_string_cstr (ToString_string s) =
     (if CHR 0x00 \<notin> set s then Inr s
      else if c_str s = [] then Inl Out_of_range else Inr (butlast (c_str s)))"
proof -
  have q: "c_str (ToString_string s) = CHR 0x22 # c_str (s @ [CHR 0x22])"
    by (simp add: ToString_string_def c_str_def)
  have one: "c_str [CHR 0x22] = [CHR 0x22]" by (simp add: c_str_def)
  show ?thesis
  proof (cases "CHR 0x00 \<in> set s")
    case True
    then have "c_str (ToString_string s) = CHR 0x22 # c_str s"
      using q by (simp add: c_str_append)
    with True show ?thesis by (cases "c_str s") (simp_all add: get_string_cstr_def)
  next
    case False
    then have "c_str (ToString_string s) = CHR 0x22 # s @ [CHR 0x22]"
      using q by (simp add: c_str_append one)
    with False show ?thesis by (simp add: get_string_cstr_def)
  qed
qed

definition get_bool_cstr :: "string \<Rightarrow> bool" where
  "get_bool_cstr pStr = (if ''true'' = c_str pStr \<or> ''1'' = c_str pStr then True else False)"

definition ToString_bool :: "bool \<Rightarrow> string" where
  "ToString_bool bValue = (if bValue then ''1'' else ''0'')"

definition ToU32 :: "string \<Rightarrow> u32" where
  "ToU32 pSrc = of_int (atoi pSrc)"

definition ToI32 :: "string \<Rightarrow> int" where
  "ToI32 pSrc = atoi pSrc"

definition ToU64 :: "string \<Rightarrow> u64" where
  "ToU64 pSrc = of_int (atoi64 pSrc)"

definition ToI64 :: "string \<Rightarrow> int" where
  "ToI64 pSrc = atoi64 pSrc"

definition ToBool :: "string \<Rightarrow> bool" where
  "ToBool pStr = (if ''true'' = c_str pStr \<or> ''1'' = c_str pStr then True else False)"

text \<open>
  The contract of a value type's text form: reading back what was written gives the value,
  for the values of a domain, and the text written is never empty and holds neither a
  separator of a message nor a NUL.
\<close>

definition plain_text :: "string \<Rightarrow> bool" where
  "plain_text s \<longleftrightarrow> s \<noteq> [] \<and> CHR 0x00 \<notin> set s \<and> CHR ''|'' \<notin> set s \<and> CHR '':'' \<notin> set s"

locale text_codec =
  fixes enc :: "'v \<Rightarrow> string"
    and dec :: "string \<Rightarrow> 'v res"
    and dom :: "'v \<Rightarrow> bool"
  assumes dec_enc: "dom v \<Longrightarrow> dec (enc v) = Inr v"
    and enc_plain: "dom v \<Longrightarrow> plain_text (enc v)"
begin

lemma enc_inj: "dom v \<Longrightarrow> dom w \<Longrightarrow> enc v = enc w \<Longrightarrow> v = w"
  by (metis dec_enc Inr_inject)

end

lemma clamp_unat: "clamp n (int k) = int k \<longleftrightarrow> k < 2 ^ (n - 1)"
proof -
  have "int k < 2 ^ (n - 1) \<longleftrightarrow> k < 2 ^ (n - 1)" by (metis of_nat_less_iff of_nat_numeral of_nat_power)
  moreover have "- (2 ^ (n - 1)) \<le> int k" by (rule order_trans [of _ 0]) simp_all
  ultimately show ?thesis by (simp add: clamp_id)
qed

lemma clamp_uint: "clamp n (uint v) = uint v \<longleftrightarrow> unat v < 2 ^ (n - 1)"
  using clamp_unat [of n "unat v"] by simp

lemma plain_dec_of_nat: "plain_text (dec_of_nat n)"
proof -
  have "c \<noteq> CHR 0x00 \<and> c \<noteq> CHR ''|'' \<and> c \<noteq> CHR '':''" if "c \<in> set (dec_of_nat n)" for c
    using dec_of_nat_digits [of n] that by (auto simp: is_digit_def)
  then show ?thesis unfolding plain_text_def by (metis dec_of_nat_Nil)
qed

lemma plain_dec_of_int: "plain_text (dec_of_int i)"
  using plain_dec_of_nat [of "nat i"] plain_dec_of_nat [of "nat (- i)"]
  by (simp add: dec_of_int_def plain_text_def)

interpretation u32_cstr: text_codec ToString_u32 "\<lambda>s. Inr (get_u32_cstr s)" "\<lambda>v. unat v < 2 ^ 31"
  by unfold_locales
     (simp_all add: ToString_u32_def get_u32_cstr_def atoi_def clamp_uint [THEN iffD2]
        plain_dec_of_nat)

interpretation u32_string: text_codec ToString_u32 get_u32_string "\<lambda>v. unat v < 2 ^ 31"
  by unfold_locales
     (simp_all add: ToString_u32_def get_u32_string_def std_stoi_def
        clamp_uint plain_dec_of_nat)

interpretation i32_cstr: text_codec ToString_i32 "\<lambda>s. Inr (get_i32_cstr s)" "\<lambda>v. clamp 32 v = v"
  by unfold_locales (simp_all add: ToString_i32_def get_i32_cstr_def atoi_def plain_dec_of_int)

interpretation i64_cstr: text_codec ToString_i64 "\<lambda>s. Inr (get_i64_cstr s)" "\<lambda>v. clamp 64 v = v"
  by unfold_locales (simp_all add: ToString_i64_def get_i64_cstr_def atoi64_def plain_dec_of_int)

interpretation u64_cstr: text_codec ToString_u64 "\<lambda>s. Inr (get_u64_cstr s)" "\<lambda>v. unat v < 2 ^ 63"
  by unfold_locales
     (simp_all add: ToString_u64_def get_u64_cstr_def atoi64_def clamp_uint [THEN iffD2]
        plain_dec_of_nat)

interpretation u64_string: text_codec ToString_u64 get_u64_string "\<lambda>_. True"
proof
  fix v :: u64
  have "int (unat v) < 2 ^ 64" using unsigned_less [of v] by simp
  then show "get_u64_string (ToString_u64 v) = Inr v"
    by (simp add: ToString_u64_def get_u64_string_def std_stoull_def)
  show "plain_text (ToString_u64 v)" by (simp add: ToString_u64_def plain_dec_of_nat)
qed

interpretation bool_cstr: text_codec ToString_bool "\<lambda>s. Inr (get_bool_cstr s)" "\<lambda>_. True"
  by unfold_locales (auto simp: ToString_bool_def get_bool_cstr_def plain_text_def c_str_def)

interpretation string_cstr: text_codec ToString_string get_string_cstr
  "\<lambda>s. CHR 0x00 \<notin> set s \<and> CHR ''|'' \<notin> set s \<and> CHR '':'' \<notin> set s"
  by unfold_locales (simp_all add: get_ToString_string, simp add: plain_text_def ToString_string_def)



section \<open>Searching and splitting\<close>

text \<open>
  \<open>SubString\<close> follows \<open>pSub\<close> along \<open>pSrc\<close> and returns what comes after it, or null; the end
  of \<open>pSrc\<close> is tested before the end of \<open>pSub\<close>.
\<close>

fun SubString :: "string \<Rightarrow> string \<Rightarrow> string option" where
  "SubString [] pSub = None"
| "SubString (a # pSrc) [] = Some (a # pSrc)"
| "SubString (a # pSrc) (b # pSub) = (if a \<noteq> b then None else SubString pSrc pSub)"

definition GetKey64 :: "string \<Rightarrow> string \<Rightarrow> u64 res" where
  "GetKey64 pSrc pSub = (case SubString pSrc pSub of
     None \<Rightarrow> Inl Null_deref
   | Some rest \<Rightarrow> Inr (of_int (atoi64 rest)))"

lemma SubString_iff: "SubString s t = Some r \<longleftrightarrow> r \<noteq> [] \<and> s = t @ r"
  by (induction s t rule: SubString.induct) auto

text \<open>
  \<open>FindFirstOf\<close>, with the C string's NUL as its end; the index is never advanced. A loop that
  does not end is \<open>None\<close>.
\<close>

partial_function (option) FindFirstOf_from :: "string \<Rightarrow> char \<Rightarrow> nat \<Rightarrow> int option" where
  "FindFirstOf_from pStr seq iIndex =
     (let c = (if iIndex < length pStr then pStr ! iIndex else CHR 0x00) in
      if c \<noteq> CHR 0x0A
      then (if c = seq then Some (int iIndex) else FindFirstOf_from pStr seq iIndex)
      else Some (- 1))"

definition FindFirstOf :: "string \<Rightarrow> char \<Rightarrow> int option" where
  "FindFirstOf pStr seq = FindFirstOf_from pStr seq 0"

text \<open>\<open>std::string::find_first_of(c, pos)\<close> and \<open>substr(pos, n)\<close>.\<close>

fun index_of :: "char \<Rightarrow> string \<Rightarrow> nat option" where
  "index_of c [] = None"
| "index_of c (x # xs) = (if x = c then Some 0 else map_option Suc (index_of c xs))"

definition find_first_of :: "string \<Rightarrow> char \<Rightarrow> nat \<Rightarrow> nat option" where
  "find_first_of str c pos = map_option (\<lambda>k. pos + k) (index_of c (drop pos str))"

definition substr :: "string \<Rightarrow> nat \<Rightarrow> nat \<Rightarrow> string" where
  "substr str pos n = take n (drop pos str)"

lemma index_of_less: "index_of c xs = Some k \<Longrightarrow> k < length xs \<and> xs ! k = c"
  by (induction xs arbitrary: k) (auto split: if_splits)

function Split_loop :: "string \<Rightarrow> char \<Rightarrow> nat \<Rightarrow> string list \<Rightarrow> nat \<times> string list" where
  "Split_loop str seq iLast vOut =
     (case find_first_of str seq iLast of
        None \<Rightarrow> (iLast, vOut)
      | Some iIndex \<Rightarrow> Split_loop str seq (iIndex + 1) (vOut @ [substr str iLast (iIndex - iLast)]))"
  by pat_completeness auto
termination
  by (relation "measure (\<lambda>(str, seq, iLast, vOut). Suc (length str) - iLast)")
     (auto simp: find_first_of_def dest!: index_of_less)

declare Split_loop.simps [simp del]

definition Split :: "string \<Rightarrow> string list \<Rightarrow> char \<Rightarrow> string list" where
  "Split str vOut seq =
     (let (iLast, vOut) = Split_loop str seq 0 vOut in
      if 0 < length str - iLast then vOut @ [substr str iLast (length str - iLast)] else vOut)"

text \<open>The reference: the pieces between the separators.\<close>

fun pieces :: "char \<Rightarrow> string \<Rightarrow> string list" where
  "pieces c [] = [[]]"
| "pieces c (x # xs) =
     (if x = c then [] # pieces c xs
      else (case pieces c xs of [] \<Rightarrow> [[x]] | p # ps \<Rightarrow> (x # p) # ps))"

lemma pieces_Nil [simp]: "pieces c s \<noteq> []"
  by (induction s) (auto split: list.splits)

lemma pieces_index_of:
  "pieces c s = (case index_of c s of
     None \<Rightarrow> [s] | Some k \<Rightarrow> take k s # pieces c (drop (Suc k) s))"
  by (induction s) (auto split: option.splits)

lemma Split_loop_pieces:
  "iLast \<le> length str \<Longrightarrow> Split_loop str seq iLast vOut = (l, v) \<Longrightarrow>
     l \<le> length str \<and> v @ [drop l str] = vOut @ pieces seq (drop iLast str)"
proof (induction str seq iLast vOut rule: Split_loop.induct)
  case (1 str seq iLast vOut)
  show ?case
  proof (cases "index_of seq (drop iLast str)")
    case None
    then have "pieces seq (drop iLast str) = [drop iLast str]"
      by (simp add: pieces_index_of [of seq "drop iLast str"])
    with None 1(2,3) show ?thesis
      by (auto simp: find_first_of_def Split_loop.simps [of str seq iLast])
  next
    case (Some k)
    then have k: "iLast + k < length str" using index_of_less [OF Some] by auto
    have "Split_loop str seq (iLast + k + 1) (vOut @ [take k (drop iLast str)]) = (l, v)"
      using 1(3) Some by (simp add: find_first_of_def substr_def Split_loop.simps [of str seq iLast])
    moreover have "find_first_of str seq iLast = Some (iLast + k)"
      using Some by (simp add: find_first_of_def)
    ultimately have "l \<le> length str \<and> v @ [drop l str] =
        (vOut @ [take k (drop iLast str)]) @ pieces seq (drop (iLast + k + 1) str)"
      using 1(1) [of "iLast + k"] k by (simp add: substr_def)
    with Some show ?thesis
      by (simp add: pieces_index_of [of seq "drop iLast str"] add.commute add.left_commute)
  qed
qed

lemma Split_pieces:
  "Split str vOut seq = vOut @
     (if last (pieces seq str) = [] then butlast (pieces seq str) else pieces seq str)"
proof -
  obtain l v where L: "Split_loop str seq 0 vOut = (l, v)" by fastforce
  have "l \<le> length str" and eq: "v @ [drop l str] = vOut @ pieces seq str"
    using Split_loop_pieces [OF _ L] by simp_all
  have ps: "pieces seq str = butlast (pieces seq str) @ [last (pieces seq str)]"
    by (rule append_butlast_last_id [symmetric]) simp
  from eq ps have "v @ [drop l str] = (vOut @ butlast (pieces seq str)) @ [last (pieces seq str)]"
    by (metis append_assoc)
  then have v: "v = vOut @ butlast (pieces seq str)" "last (pieces seq str) = drop l str"
    by (simp_all only: append1_eq_conv)
  then have "pieces seq str = butlast (pieces seq str) @ [drop l str]"
    using ps by simp
  then have "v @ [drop l str] = vOut @ pieces seq str" using v(1) by (metis append_assoc)
  then show ?thesis
    using L v by (simp add: Split_def substr_def)
qed

text \<open>Joining texts with a separator none of them holds, and splitting again.\<close>

lemma pieces_append: "c \<notin> set p \<Longrightarrow> pieces c (p @ c # s) = p # pieces c s"
  by (induction p) auto

lemma pieces_plain: "c \<notin> set p \<Longrightarrow> pieces c p = [p]"
  by (induction p) auto

lemma pieces_terminated:
  "\<forall>p \<in> set ps. c \<notin> set p \<Longrightarrow> pieces c (concat (map (\<lambda>p. p @ [c]) ps)) = ps @ [[]]"
  by (induction ps) (auto simp: pieces_append)

text \<open>Texts each ended by the separator are split into exactly these texts.\<close>

lemma Split_terminated:
  "\<forall>p \<in> set ps. c \<notin> set p \<Longrightarrow> Split (concat (map (\<lambda>p. p @ [c]) ps)) [] c = ps"
  by (simp add: Split_pieces pieces_terminated)



section \<open>lexical_castor\<close>

text \<open>
  \<open>std::strtoull(s, NULL, 0)\<close>: spaces, a sign, then hexadecimal digits after \<open>0x\<close> or \<open>0X\<close>,
  octal digits after another \<open>0\<close>, decimal digits otherwise. A value that does not fit is
  \<open>ULLONG_MAX\<close>, and a minus sign negates the result modulo 2 to the 64.
\<close>

definition hex_val :: "char \<Rightarrow> nat option" where
  "hex_val c = (let n = of_char c :: nat in
     if is_digit c then Some (n - 48)
     else if 97 \<le> n \<and> n < 103 then Some (n - 87)
     else if 65 \<le> n \<and> n < 71 then Some (n - 55)
     else None)"

fun base_val :: "nat \<Rightarrow> nat \<Rightarrow> string \<Rightarrow> nat" where
  "base_val b acc [] = acc"
| "base_val b acc (c # cs) = (case hex_val c of
     Some d \<Rightarrow> if d < b then base_val b (b * acc + d) cs else acc
   | None \<Rightarrow> acc)"

definition strtoull_magnitude :: "string \<Rightarrow> nat" where
  "strtoull_magnitude s =
     (case s of
        [] \<Rightarrow> 0
      | c # cs \<Rightarrow>
          if c \<noteq> CHR ''0'' then base_val 10 0 s
          else (case cs of
              [] \<Rightarrow> 0
            | x # ds \<Rightarrow>
                if (x = CHR ''x'' \<or> x = CHR ''X'') \<and> ds \<noteq> [] \<and> hex_val (hd ds) \<noteq> None
                then base_val 16 0 ds else base_val 8 0 s))"

definition strtoull_0 :: "string \<Rightarrow> u64" where
  "strtoull_0 s =
     (let t = dropWhile is_space s;
          neg = (t \<noteq> [] \<and> hd t = CHR ''-'');
          u = (if t \<noteq> [] \<and> (hd t = CHR ''-'' \<or> hd t = CHR ''+'') then tl t else t);
          n = strtoull_magnitude u
      in if 2 ^ 64 \<le> n then - 1 else if neg then - of_nat n else of_nat n)"

definition lexical_cast_u64 :: "string \<Rightarrow> u64" where
  "lexical_cast_u64 s = strtoull_0 s"

definition lexical_cast_bool :: "string \<Rightarrow> bool" where
  "lexical_cast_bool s = (if lexical_cast_u64 s \<noteq> 0 then True else False)"

text \<open>The narrower types keep the low bits; a signed value is its \<^const>\<open>sint\<close>.\<close>

definition lexical_cast_i8 :: "string \<Rightarrow> u8" where
  "lexical_cast_i8 s = ucast (lexical_cast_u64 s)"

definition lexical_cast_u8 :: "string \<Rightarrow> u8" where
  "lexical_cast_u8 s = ucast (lexical_cast_u64 s)"

definition lexical_cast_i16 :: "string \<Rightarrow> u16" where
  "lexical_cast_i16 s = ucast (lexical_cast_u64 s)"

definition lexical_cast_u16 :: "string \<Rightarrow> u16" where
  "lexical_cast_u16 s = ucast (lexical_cast_u64 s)"

definition lexical_cast_i32 :: "string \<Rightarrow> u32" where
  "lexical_cast_i32 s = ucast (lexical_cast_u64 s)"

definition lexical_cast_u32 :: "string \<Rightarrow> u32" where
  "lexical_cast_u32 s = ucast (lexical_cast_u64 s)"

definition lexical_cast_i64 :: "string \<Rightarrow> u64" where
  "lexical_cast_i64 s = lexical_cast_u64 s"

definition lexical_cast_string :: "string \<Rightarrow> string" where
  "lexical_cast_string s = s"

text \<open>\<open>strto\<close> with a default, for an empty text.\<close>

definition strto_default :: "(string \<Rightarrow> 't) \<Rightarrow> string \<Rightarrow> 't \<Rightarrow> 't" where
  "strto_default strto s def = (if s = [] then def else strto s)"


section \<open>The splitting and joining templates\<close>

text \<open>
  \<open>splitString\<close> and \<open>splitString2\<close> on strings are declared but defined nowhere in the
  sources, and \<open>tostr\<close> is the stream output of a type: all three are parameters.
\<close>

definition splitString_T ::
  "(string \<Rightarrow> 't) \<Rightarrow> (string \<Rightarrow> string \<Rightarrow> bool \<Rightarrow> string list) \<Rightarrow>
   string \<Rightarrow> string \<Rightarrow> bool \<Rightarrow> 't list \<Rightarrow> 't list" where
  "splitString_T strto splitString str sep bStrip vResult =
     foldl (\<lambda>vResult t. vResult @ [strto t]) vResult (splitString str sep bStrip)"

definition splitString_T_new ::
  "(string \<Rightarrow> 't) \<Rightarrow> (string \<Rightarrow> string \<Rightarrow> bool \<Rightarrow> string list) \<Rightarrow>
   string \<Rightarrow> string \<Rightarrow> bool \<Rightarrow> 't list" where
  "splitString_T_new strto splitString str sep bStrip =
     splitString_T strto splitString str sep bStrip []"

definition splitString2_vector ::
  "(string \<Rightarrow> 'a) \<Rightarrow> (string \<Rightarrow> 'b) \<Rightarrow> (string \<Rightarrow> string \<Rightarrow> string \<Rightarrow> (string \<times> string) list) \<Rightarrow>
   string \<Rightarrow> string \<Rightarrow> string \<Rightarrow> ('a \<times> 'b) list \<Rightarrow> ('a \<times> 'b) list" where
  "splitString2_vector strto1 strto2 splitString2 str sep1 sep2 vResult =
     foldl (\<lambda>vResult kv. vResult @ [(strto1 (fst kv), strto2 (snd kv))]) vResult
       (splitString2 str sep1 sep2)"

definition splitString2_map ::
  "(string \<Rightarrow> 'a::linorder) \<Rightarrow> (string \<Rightarrow> 'b) \<Rightarrow>
   (string \<Rightarrow> string \<Rightarrow> string \<Rightarrow> (string \<times> string) list) \<Rightarrow>
   string \<Rightarrow> string \<Rightarrow> string \<Rightarrow> ('a \<times> 'b) list \<Rightarrow> ('a \<times> 'b) list" where
  "splitString2_map strto1 strto2 splitString2 str sep1 sep2 mResult =
     foldl (\<lambda>mResult kv. om_put (strto1 (fst kv)) (strto2 (snd kv)) mResult) mResult
       (splitString2 str sep1 sep2)"

definition splitString2_map_new ::
  "(string \<Rightarrow> 'a::linorder) \<Rightarrow> (string \<Rightarrow> 'b) \<Rightarrow>
   (string \<Rightarrow> string \<Rightarrow> string \<Rightarrow> (string \<times> string) list) \<Rightarrow>
   string \<Rightarrow> string \<Rightarrow> string \<Rightarrow> ('a \<times> 'b) list" where
  "splitString2_map_new strto1 strto2 splitString2 str sep1 sep2 =
     splitString2_map strto1 strto2 splitString2 str sep1 sep2 []"

definition joinString :: "('t \<Rightarrow> string) \<Rightarrow> 't list \<Rightarrow> string \<Rightarrow> string" where
  "joinString tostr v sep =
     foldl (\<lambda>sResult x. (if sResult \<noteq> [] then sResult @ sep else sResult) @ tostr x) [] v"

definition joinString2 ::
  "('a \<Rightarrow> string) \<Rightarrow> ('b \<Rightarrow> string) \<Rightarrow> ('a \<times> 'b) list \<Rightarrow> string \<Rightarrow> string \<Rightarrow> string" where
  "joinString2 tostr1 tostr2 v sep1 sep2 =
     foldl (\<lambda>sResult kv. (if sResult \<noteq> [] then sResult @ sep1 else sResult)
         @ tostr1 (fst kv) @ sep2 @ tostr2 (snd kv)) [] v"

text \<open>The overload for a \<open>std::map\<close> goes through its entries in key order.\<close>

definition joinString2_map ::
  "('a::linorder \<Rightarrow> string) \<Rightarrow> ('b \<Rightarrow> string) \<Rightarrow> ('a \<times> 'b) list \<Rightarrow> string \<Rightarrow> string \<Rightarrow> string" where
  "joinString2_map tostr1 tostr2 v sep1 sep2 =
     foldl (\<lambda>sResult kv. (if sResult \<noteq> [] then sResult @ sep1 else sResult)
         @ tostr1 (fst kv) @ sep2 @ tostr2 (snd kv)) [] v"

text \<open>The separator goes between elements, once a text that is not empty has been written.\<close>

fun join_with :: "string \<Rightarrow> string list \<Rightarrow> string" where
  "join_with sep [] = []"
| "join_with sep [t] = t"
| "join_with sep (t # u # ts) = t @ sep @ join_with sep (u # ts)"

lemma joinString_foldl:
  "acc \<noteq> [] \<Longrightarrow> foldl (\<lambda>sResult x. (if sResult \<noteq> [] then sResult @ sep else sResult) @ tostr x) acc v =
     acc @ concat (map (\<lambda>x. sep @ tostr x) v)"
  by (induction v arbitrary: acc) auto

lemma join_with_concat: "join_with sep (t # ts) = t @ concat (map (\<lambda>x. sep @ x) ts)"
  by (induction ts arbitrary: t) auto

lemma joinString_join_with:
  "joinString tostr v sep = join_with sep (dropWhile (\<lambda>t. t = []) (map tostr v))"
proof (induction v)
  case Nil
  then show ?case by (simp add: joinString_def)
next
  case (Cons x v)
  show ?case
  proof (cases "tostr x = []")
    case True
    with Cons show ?thesis by (simp add: joinString_def)
  next
    case False
    have "map (\<lambda>a. sep @ tostr a) v = map (\<lambda>a. sep @ a) (map tostr v)" by simp
    with False show ?thesis
      by (simp only: joinString_def foldl.simps if_False append_Nil dropWhile.simps list.map
          not_True_eq_False simp_thms joinString_foldl [OF False] join_with_concat)
  qed
qed

lemma pieces_join_with:
  "\<forall>p \<in> set ps. c \<notin> set p \<Longrightarrow> ps \<noteq> [] \<Longrightarrow> pieces c (join_with [c] ps) = ps"
  by (induction "[c]" ps rule: join_with.induct) (auto simp: pieces_plain pieces_append)



section \<open>Properties\<close>

lemma sint_clamp_32: "clamp 32 (sint (v :: u32)) = sint v"
  using sint_greater_eq [of v] sint_less [of v] by (simp add: clamp_id)

lemma sint_clamp_64: "clamp 64 (sint (v :: u64)) = sint v"
  using sint_greater_eq [of v] sint_less [of v] by (simp add: clamp_id)

lemma clamp_above: "2 ^ (n - 1) \<le> unat v \<Longrightarrow> clamp n (uint v) = 2 ^ (n - 1) - 1"
proof -
  assume "2 ^ (n - 1) \<le> unat v"
  then have "(2 :: int) ^ (n - 1) \<le> uint v" by (metis of_nat_le_iff of_nat_numeral of_nat_power uint_nat)
  moreover have "(0 :: int) < 2 ^ (n - 1)" by simp
  ultimately show ?thesis unfolding clamp_def by linarith
qed

text \<open>
  C10. Writing a value with \<open>ToString\<close> and reading it back with \<open>get\<close>, for every value of the
  integer types, booleans and texts: 32-bit and 64-bit signed integers and booleans come back
  as they were. A \<open>uint32_t\<close> comes back only below 2 to the 31: from a C string it otherwise
  becomes 2147483647, and from a \<open>std::string\<close> \<open>std::stoi\<close> throws. A \<open>uint64_t\<close> comes back
  from a C string only below 2 to the 63, and otherwise becomes 9223372036854775807; from a
  \<open>std::string\<close> it always comes back. A text without NUL comes back; of one with a NUL the
  characters before it come back, without the last of them, and when there are none the code
  erases from an empty string. Values of type float and double are not covered.
\<close>

theorem value_text_roundtrip:
  "get_i32_cstr (ToString_i32 (sint (v :: u32))) = sint v \<and>
   get_i64_cstr (ToString_i64 (sint (w :: u64))) = sint w \<and>
   get_bool_cstr (ToString_bool b) = b \<and>
   get_string_cstr (ToString_string s) =
     (if CHR 0x00 \<notin> set s then Inr s
      else let p = takeWhile (\<lambda>c. c \<noteq> CHR 0x00) s in
        if p = [] then Inl Out_of_range else Inr (butlast p)) \<and>
   get_u32_cstr (ToString_u32 v) = (if unat v < 2 ^ 31 then v else 2147483647) \<and>
   get_u32_string (ToString_u32 v) =
     (if unat v < 2 ^ 31 then Inr v else Inl (Throw ''stoi argument out of range'')) \<and>
   get_u64_cstr (ToString_u64 w) = (if unat w < 2 ^ 63 then w else 9223372036854775807) \<and>
   get_u64_string (ToString_u64 w) = Inr w"
proof -
  have "get_string_cstr (ToString_string s) =
     (if CHR 0x00 \<notin> set s then Inr s
      else let p = takeWhile (\<lambda>c. c \<noteq> CHR 0x00) s in
        if p = [] then Inl Out_of_range else Inr (butlast p))"
    by (simp add: get_ToString_string c_str_def Let_def)
  moreover have "get_bool_cstr (ToString_bool b) = b"
    using bool_cstr.dec_enc [of b] by simp
  moreover have "get_i32_cstr (ToString_i32 (sint v)) = sint v"
    using i32_cstr.dec_enc [OF sint_clamp_32] by simp
  moreover have "get_i64_cstr (ToString_i64 (sint w)) = sint w"
    using i64_cstr.dec_enc [OF sint_clamp_64] by simp
  moreover have "get_u32_cstr (ToString_u32 v) = (if unat v < 2 ^ 31 then v else 2147483647)"
    using u32_cstr.dec_enc [of v] clamp_above [of 32 v]
    by (auto simp: get_u32_cstr_def ToString_u32_def atoi_def)
  moreover have "get_u32_string (ToString_u32 v) =
     (if unat v < 2 ^ 31 then Inr v else Inl (Throw ''stoi argument out of range''))"
    using u32_string.dec_enc [of v] clamp_uint [of 32 v]
    by (auto simp: get_u32_string_def ToString_u32_def std_stoi_def)
  moreover have "get_u64_cstr (ToString_u64 w) = (if unat w < 2 ^ 63 then w else 9223372036854775807)"
    using u64_cstr.dec_enc [of w] clamp_above [of 64 w]
    by (auto simp: get_u64_cstr_def ToString_u64_def atoi64_def)
  moreover have "get_u64_string (ToString_u64 w) = Inr w"
    using u64_string.dec_enc [of w] by simp
  ultimately show ?thesis by blast
qed

text \<open>
  Split and join: \<open>Split\<close> returns the pieces between the separators, without the last
  one when that is empty; the pieces joined by the separator are the text again; and texts
  that are not empty and do not hold the separator come back from joining and splitting.
\<close>

theorem split_join:
  assumes "\<forall>p \<in> set ps. p \<noteq> [] \<and> c \<notin> set p"
  shows "Split (joinString (\<lambda>t. t) ps [c]) [] c = ps \<and>
    Split s out c = out @ (if last (pieces c s) = [] then butlast (pieces c s) else pieces c s) \<and>
    join_with [c] (pieces c s) = s"
proof -
  have "dropWhile (\<lambda>t. t = []) ps = ps" using assms by (cases ps) auto
  then have j: "joinString (\<lambda>t. t) ps [c] = join_with [c] ps" by (simp add: joinString_join_with)
  have "Split (join_with [c] ps) [] c = ps"
  proof (cases "ps = []")
    case True
    then show ?thesis by (simp add: Split_pieces)
  next
    case False
    then have "last ps \<noteq> []" using assms by simp
    with False assms show ?thesis by (simp add: Split_pieces pieces_join_with)
  qed
  moreover have "join_with [c] (pieces c s) = s"
  proof (induction s)
    case Nil
    then show ?case by simp
  next
    case (Cons x s)
    obtain p ps where p: "pieces c s = p # ps" by (cases "pieces c s") auto
    with Cons show ?case by (cases ps) auto
  qed
  ultimately show ?thesis by (simp add: j Split_pieces)
qed

theorem split_join_witness:
  "Split (joinString (\<lambda>t. t) [''ab'', ''c''] '','') [] CHR '','' = [''ab'', ''c''] \<and>
   Split ''x,,y,'' [] CHR '','' = [''x'', [], ''y'']"
  using split_join [of "[''ab'', ''c'']" "CHR '',''" "''x,,y,''" "[]"] by simp

lemma FindFirstOf_from_Some:
  assumes "FindFirstOf_from s c i = Some r"
  shows "(if i < length s then s ! i else CHR 0x00) \<in> {CHR 0x0A, c}"
proof (rule FindFirstOf_from.raw_induct [where P = "\<lambda>s c i r.
        (if i < length s then s ! i else CHR 0x00) \<in> {CHR 0x0A, c}", OF _ assms])
  fix f :: "string \<Rightarrow> char \<Rightarrow> nat \<Rightarrow> int option" and s c i r
  let ?c = "if i < length s then s ! i else CHR 0x00"
  assume IH: "\<And>s c i r. f s c i = Some r \<Longrightarrow> (if i < length s then s ! i else CHR 0x00) \<in> {CHR 0x0A, c}"
    and eq: "(let d = ?c in if d \<noteq> CHR 0x0A then if d = c then Some (int i) else f s c i else Some (- 1)) = Some r"
  then have "?c = CHR 0x0A \<or> ?c = c \<or> f s c i = Some r" unfolding Let_def by presburger
  with IH [of s c i r] show "?c \<in> {CHR 0x0A, c}" by blast
qed

text \<open>
  \<open>FindFirstOf\<close> looks at the first character only: it returns -1 when that is a line
  feed, 0 when it is the one looked for, and otherwise its loop never ends, since the index
  is not advanced.
\<close>

theorem find_first_of_first_only:
  "FindFirstOf pStr seq =
     (let c = (if pStr = [] then CHR 0x00 else hd pStr) in
      if c = CHR 0x0A then Some (- 1) else if c = seq then Some 0 else None)"
proof -
  let ?c = "if pStr = [] then CHR 0x00 else hd pStr"
  have c: "(if 0 < length pStr then pStr ! 0 else CHR 0x00) = ?c" by (simp add: hd_conv_nth)
  have "FindFirstOf_from pStr seq 0 = None" if "?c \<noteq> CHR 0x0A" "?c \<noteq> seq"
    using FindFirstOf_from_Some [of pStr seq 0] that unfolding c
    by (cases "FindFirstOf_from pStr seq 0") auto
  moreover have "FindFirstOf_from pStr seq 0 =
      (if ?c \<noteq> CHR 0x0A then (if ?c = seq then Some 0 else FindFirstOf_from pStr seq 0) else Some (- 1))"
    by (subst FindFirstOf_from.simps) (simp add: Let_def hd_conv_nth)
  ultimately show ?thesis
    unfolding FindFirstOf_def Let_def by presburger
qed


lemma base_val_digits:
  "\<forall>c \<in> set s. is_digit c \<Longrightarrow> base_val 10 acc s = foldl (\<lambda>a c. 10 * a + digit_val c) acc s"
  by (induction s arbitrary: acc) (auto simp: hex_val_def digit_val_def is_digit_def)

lemma hd_dec_of_nat: "0 < n \<Longrightarrow> hd (dec_of_nat n) \<noteq> CHR ''0''"
proof (induction n rule: dec_of_nat.induct)
  case (1 n)
  show ?case
  proof (cases "n < 10")
    case True
    then have "digit_val (digit_char n) = n" by (simp add: digit_char)
    then have "digit_char n \<noteq> CHR ''0''" using 1(2) by (auto simp: digit_val_def)
    with True show ?thesis by (subst dec_of_nat.simps) simp
  next
    case False
    with 1 show ?thesis by (subst dec_of_nat.simps) simp
  qed
qed

lemma strtoull_magnitude_dec: "strtoull_magnitude (dec_of_nat n) = n"
proof (cases "n = 0")
  case True
  moreover have "char_of (48 :: nat) = CHR ''0''" by (simp add: char_of_eq_iff)
  ultimately show ?thesis by (simp add: strtoull_magnitude_def dec_of_nat.simps digit_char_def)
next
  case False
  obtain c cs where c: "dec_of_nat n = c # cs" by (cases "dec_of_nat n") auto
  have "base_val 10 0 (dec_of_nat n) = n"
    using base_val_digits [OF dec_of_nat_digits] digits_val_dec [of n] by (simp add: digits_val_def)
  then show ?thesis using hd_dec_of_nat [of n] False by (simp add: strtoull_magnitude_def c)
qed

lemma strtoull_0_dec:
  assumes "n < 2 ^ 64"
  shows "strtoull_0 (dec_of_nat n) = of_nat n" "strtoull_0 (CHR ''-'' # dec_of_nat n) = - of_nat n"
proof -
  obtain c cs where c: "dec_of_nat n = c # cs" by (cases "dec_of_nat n") auto
  then have "is_digit c" using dec_of_nat_digits [of n] by simp
  from is_digit_not [OF this] have "dropWhile is_space (c # cs) = c # cs" "c \<noteq> CHR ''-''" "c \<noteq> CHR ''+''"
    by simp_all
  then show "strtoull_0 (dec_of_nat n) = of_nat n"
    using strtoull_magnitude_dec [of n] assms by (simp add: strtoull_0_def c Let_def)
  show "strtoull_0 (CHR ''-'' # dec_of_nat n) = - of_nat n"
    using strtoull_magnitude_dec [of n] assms by (simp add: strtoull_0_def Let_def is_space_def)
qed

lemma strtoull_0_int:
  assumes "\<bar>i\<bar> < 2 ^ 64"
  shows "strtoull_0 (dec_of_int i) = of_int i"
proof (cases "i < 0")
  case True
  then have "nat (- i) < 2 ^ 64" using assms by (simp add: nat_less_iff)
  with True show ?thesis by (simp add: dec_of_int_def strtoull_0_dec of_nat_nat)
next
  case False
  then have "nat i < 2 ^ 64" using assms by (simp add: nat_less_iff)
  with False show ?thesis by (simp add: dec_of_int_def strtoull_0_dec of_nat_nat)
qed

text \<open>
  \<open>lexical_castor\<close> reads back the decimal text of every 32-bit and 64-bit integer, signed
  or not (the signed ones through the unsigned conversion and its wrap-around), but it
  detects the base, so a decimal number with a leading zero is read as octal.
\<close>

theorem lexical_cast_roundtrip:
  "lexical_cast_u64 (ToString_u64 w) = w \<and>
   lexical_cast_i64 (ToString_i64 (sint w)) = w \<and>
   lexical_cast_u32 (ToString_u32 v) = v \<and>
   lexical_cast_i32 (ToString_i32 (sint v)) = v \<and>
   lexical_cast_i32 ''-007'' = - 7 \<and> lexical_cast_i32 ''010'' = 8"
proof -
  have w: "\<bar>sint w\<bar> < 2 ^ 64" using sint_greater_eq [of w] sint_less [of w] by simp
  have v: "\<bar>sint v\<bar> < 2 ^ 64" using sint_greater_eq [of v] sint_less [of v] by simp
  have "unat w < 2 ^ 64" "unat v < 2 ^ 32" using unsigned_less [of w] unsigned_less [of v] by simp_all
  moreover have "lexical_cast_i32 ''-007'' = - 7" "lexical_cast_i32 ''010'' = 8"
    by (simp_all add: lexical_cast_i32_def lexical_cast_u64_def strtoull_0_def strtoull_magnitude_def
        Let_def is_space_def hex_val_def is_digit_def)
  moreover have "ucast (of_int (sint v) :: u64) = v"
    by (rule bit_eqI) (simp add: bit_simps)
  moreover have "ucast (ucast v :: u64) = v"
    by (rule bit_eqI) (auto simp: bit_simps dest: bit_imp_le_length)
  ultimately show ?thesis
    using strtoull_0_int [OF w] strtoull_0_int [OF v]
    by (simp add: lexical_cast_i64_def lexical_cast_i32_def lexical_cast_u32_def lexical_cast_u64_def
        ToString_u64_def ToString_i64_def ToString_u32_def ToString_i32_def strtoull_0_dec)
qed

end
