(* ===== verification/Key_Fields.thy ===== *)
theory Key_Fields
  imports String_Value
begin

text \<open>
  \<open>DataHandle/TData/keyFieldMgr.h\<close>: the registry of redis keys and fields. An index is a key
  (its upper 24 bits) and a field of that key (its low byte); the registry gives their names,
  and groups keys by database table. The registry is a singleton: its state is passed along.
\<close>

section \<open>The registry\<close>

datatype field_type =
    FT_int32_t | FT_uint32_t | FT_int64_t | FT_uint64_t | FT_float | FT_double
  | FT_datetime | FT_bool | FT_string

record field_name_type =
  Name :: string
  eType :: field_type

text \<open>\<open>pName\<close> is null in an entry that only \<open>AddField\<close> has made.\<close>

record datakey =
  pName :: "string option"
  mField :: "(u32 \<times> field_name_type) list"

record key_field_mgr =
  mKey :: "(u32 \<times> datakey) list"
  mPackageDBName :: "(string \<times> u32 list) list"
  mRepeatedDBName :: "(string \<times> u32) list"

definition KeyFieldMgr_init :: key_field_mgr where
  "KeyFieldMgr_init = \<lparr> mKey = [], mPackageDBName = [], mRepeatedDBName = [] \<rparr>"

abbreviation key_part :: "u32 \<Rightarrow> u32" where
  "key_part i \<equiv> i AND NOT 0xFF"

abbreviation field_part :: "u32 \<Rightarrow> u32" where
  "field_part i \<equiv> i AND 0xFF"

text \<open>\<open>m[k]\<close> of an \<open>unordered_map\<close> makes a default entry when there is none.\<close>

definition um_at :: "'k \<Rightarrow> 'v \<Rightarrow> ('k \<times> 'v) list \<Rightarrow> 'v" where
  "um_at k d m = (case map_of m k of None \<Rightarrow> d | Some v \<Rightarrow> v)"

definition Datakey_default :: datakey where
  "Datakey_default = \<lparr> pName = None, mField = [] \<rparr>"

definition Datakey_GetField :: "datakey \<Rightarrow> u32 \<Rightarrow> string option" where
  "Datakey_GetField d iField = map_option Name (map_of (mField d) iField)"

definition AddKey :: "string \<Rightarrow> u32 \<Rightarrow> key_field_mgr \<Rightarrow> key_field_mgr" where
  "AddKey pKey iIndex mgr =
     (let iKey = key_part iIndex in
      mgr\<lparr>mKey := AList.update iKey ((um_at iKey Datakey_default (mKey mgr))\<lparr>pName := Some pKey\<rparr>) (mKey mgr)\<rparr>)"

definition AddField :: "string \<Rightarrow> u32 \<Rightarrow> field_type \<Rightarrow> key_field_mgr \<Rightarrow> key_field_mgr" where
  "AddField pField iIndex ty mgr =
     (let iKey = key_part iIndex; iField = field_part iIndex;
          entry = um_at iKey Datakey_default (mKey mgr) in
      mgr\<lparr>mKey := AList.update iKey
        (entry\<lparr>mField := AList.update iField \<lparr> Name = pField, eType = ty \<rparr> (mField entry)\<rparr>) (mKey mgr)\<rparr>)"

text \<open>The table's \<open>std::set\<close> and the table's index take \<open>iIndex\<close> as it is, not its key part.\<close>

definition AddPackageDB :: "string \<Rightarrow> u32 \<Rightarrow> key_field_mgr \<Rightarrow> key_field_mgr" where
  "AddPackageDB pDB iIndex mgr =
     mgr\<lparr>mPackageDBName := AList.update pDB (insort iIndex (removeAll iIndex (um_at pDB [] (mPackageDBName mgr))))
           (mPackageDBName mgr)\<rparr>"

definition AddRepeatedDB :: "string \<Rightarrow> u32 \<Rightarrow> key_field_mgr \<Rightarrow> key_field_mgr" where
  "AddRepeatedDB pDB iIndex mgr =
     mgr\<lparr>mRepeatedDBName := AList.update pDB iIndex (mRepeatedDBName mgr)\<rparr>"

text \<open>
  \<open>FindDataKey\<close> looks up \<open>iKey && (~0xFF)\<close>, a truth value: 1 for every index but 0.
\<close>

definition FindDataKey :: "key_field_mgr \<Rightarrow> u32 \<Rightarrow> datakey option" where
  "FindDataKey mgr iKey = map_of (mKey mgr) (if iKey \<noteq> 0 \<and> (NOT 0xFF :: u32) \<noteq> 0 then 1 else 0)"

definition FindKeyField :: "key_field_mgr \<Rightarrow> u32 \<Rightarrow> string option \<times> string option" where
  "FindKeyField mgr iKeyField =
     (case map_of (mKey mgr) (key_part iKeyField) of
        Some d \<Rightarrow> (pName d, Datakey_GetField d (field_part iKeyField))
      | None \<Rightarrow> (None, None))"

definition FindKey :: "key_field_mgr \<Rightarrow> u32 \<Rightarrow> string option" where
  "FindKey mgr iKey =
     (case map_of (mKey mgr) (key_part iKey) of Some d \<Rightarrow> pName d | None \<Rightarrow> None)"

definition FindField :: "key_field_mgr \<Rightarrow> u32 \<Rightarrow> string option" where
  "FindField mgr iField =
     (case map_of (mKey mgr) (key_part iField) of
        Some d \<Rightarrow> Datakey_GetField d (field_part iField)
      | None \<Rightarrow> None)"

definition FindPackageDB :: "key_field_mgr \<Rightarrow> string \<Rightarrow> u32 list" where
  "FindPackageDB mgr strDBTableName =
     (case map_of (mPackageDBName mgr) strDBTableName of Some s \<Rightarrow> s | None \<Rightarrow> [])"

definition FindRepeatedDB :: "key_field_mgr \<Rightarrow> string \<Rightarrow> datakey option" where
  "FindRepeatedDB mgr strDBTableName =
     (case map_of (mRepeatedDBName mgr) strDBTableName of
        Some i \<Rightarrow> map_of (mKey mgr) i
      | None \<Rightarrow> None)"

text \<open>\<open>CheckKeyFiled\<close> throws on a null name.\<close>

definition CheckKeyFiled :: "string option \<Rightarrow> string res" where
  "CheckKeyFiled keyField = (case keyField of
     None \<Rightarrow> Inl (Throw ''can't find redis key field name!'')
   | Some s \<Rightarrow> Inr s)"


section \<open>Runs of registrations\<close>

datatype registration =
    Reg_key string u32
  | Reg_field string u32 field_type
  | Reg_package string u32
  | Reg_repeated string u32

fun reg_apply :: "registration \<Rightarrow> key_field_mgr \<Rightarrow> key_field_mgr" where
  "reg_apply (Reg_key n i) = AddKey n i"
| "reg_apply (Reg_field n i t) = AddField n i t"
| "reg_apply (Reg_package n i) = AddPackageDB n i"
| "reg_apply (Reg_repeated n i) = AddRepeatedDB n i"

definition reg_run :: "registration list \<Rightarrow> key_field_mgr" where
  "reg_run rs = fold reg_apply rs KeyFieldMgr_init"

text \<open>What the registrations say: the names by key part, and by index.\<close>

fun key_names :: "registration list \<Rightarrow> (u32 \<times> string) list" where
  "key_names [] = []"
| "key_names (Reg_key n i # rs) = (key_part i, n) # key_names rs"
| "key_names (_ # rs) = key_names rs"

fun field_names :: "registration list \<Rightarrow> (u32 \<times> string) list" where
  "field_names [] = []"
| "field_names (Reg_field n i t # rs) = (i, n) # field_names rs"
| "field_names (_ # rs) = field_names rs"

lemma key_names_append [simp]: "key_names (rs @ ss) = key_names rs @ key_names ss"
  by (induction rs rule: key_names.induct) auto

lemma field_names_append [simp]: "field_names (rs @ ss) = field_names rs @ field_names ss"
  by (induction rs rule: field_names.induct) auto

lemma index_parts: "key_part i = key_part j \<and> field_part i = field_part j \<longleftrightarrow> i = j"
proof -
  have "i = key_part i OR field_part i" for i :: u32
    by (rule bit_eqI) (auto simp: bit_simps)
  then show ?thesis by metis
qed

lemma key_part_idem [simp]: "key_part (key_part i) = key_part i"
  by (rule bit_eqI) (auto simp: bit_simps)

definition mgr_inv :: "key_field_mgr \<Rightarrow> bool" where
  "mgr_inv mgr \<longleftrightarrow> (\<forall>k d. map_of (mKey mgr) k = Some d \<longrightarrow> key_part k = k)"

lemmas registry_ops = AddKey_def AddField_def AddPackageDB_def AddRepeatedDB_def Let_def
  um_at_def update_conv'

lemma mgr_inv_apply: "mgr_inv mgr \<Longrightarrow> mgr_inv (reg_apply r mgr)"
  by (cases r) (auto simp: mgr_inv_def registry_ops)

lemma reg_run_snoc: "reg_run (rs @ [r]) = reg_apply r (reg_run rs)"
  by (simp add: reg_run_def)

lemma mgr_inv_run: "mgr_inv (reg_run rs)"
  by (induction rs rule: rev_induct)
     (simp_all add: reg_run_snoc mgr_inv_apply, simp add: reg_run_def mgr_inv_def KeyFieldMgr_init_def)

lemma FindKey_run: "FindKey (reg_run rs) i = map_of (rev (key_names rs)) (key_part i)"
proof (induction rs rule: rev_induct)
  case Nil
  then show ?case by (simp add: reg_run_def FindKey_def KeyFieldMgr_init_def)
next
  case (snoc r rs)
  then show ?case
    by (cases r)
       (auto simp: reg_run_snoc FindKey_def registry_ops Datakey_default_def split: option.splits)
qed

lemma FindField_run: "FindField (reg_run rs) i = map_of (rev (field_names rs)) i"
proof (induction rs rule: rev_induct)
  case Nil
  then show ?case by (simp add: reg_run_def FindField_def KeyFieldMgr_init_def)
next
  case (snoc r rs)
  show ?case
  proof (cases r)
    case (Reg_field n j t)
    have "FindField (AddField n j t mgr) i = (if i = j then Some n else FindField mgr i)" for mgr
      using index_parts [of i j]
      by (auto simp: FindField_def registry_ops Datakey_GetField_def Datakey_default_def
          split: option.splits)
    with snoc Reg_field show ?thesis by (simp add: reg_run_snoc)
  qed (use snoc in \<open>auto simp: reg_run_snoc FindField_def registry_ops Datakey_GetField_def
      Datakey_default_def split: option.splits\<close>)
qed

text \<open>
  The registry: after any run of registrations, the name found for a key is the last one
  registered with the same upper 24 bits, and the name found for a field is the last one
  registered for exactly this index, whatever order keys and fields were registered in;
  \<open>FindKeyField\<close> agrees with the two.
\<close>

theorem registry_lookup:
  "FindKey (reg_run rs) i = map_of (rev (key_names rs)) (key_part i) \<and>
   FindField (reg_run rs) i = map_of (rev (field_names rs)) i \<and>
   FindKeyField (reg_run rs) i = (FindKey (reg_run rs) i, FindField (reg_run rs) i)"
  using FindKey_run [of rs i] FindField_run [of rs i]
  by (simp add: FindKeyField_def FindKey_def FindField_def split: option.splits)

text \<open>
  \<open>FindDataKey\<close> finds nothing for any index but 0, whatever was registered: it looks up
  the truth value of the index and the mask instead of their bitwise conjunction.
\<close>

theorem find_data_key_only_zero:
  "FindDataKey (reg_run rs) i = (if i = 0 then map_of (mKey (reg_run rs)) 0 else None)"
proof -
  have "map_of (mKey (reg_run rs)) 1 = None"
  proof (rule ccontr)
    assume "map_of (mKey (reg_run rs)) 1 \<noteq> None"
    then have "key_part 1 = 1" using mgr_inv_run [of rs] by (auto simp: mgr_inv_def)
    moreover have "key_part 1 = 0" by (rule bit_eqI) (auto simp: bit_simps)
    ultimately show False by simp
  qed
  then show ?thesis by (simp add: FindDataKey_def)
qed

end
