(* ===== verification/Redis_Messages.thy ===== *)
theory Redis_Messages
  imports Key_Fields
begin

text \<open>
  \<open>DataHandle/RedisAdapter/RedisBuffer.*\<close> and \<open>RedisSyncData.h\<close>: changed values are collected
  by key, written as HMSET commands, and announced by PUBLISH commands whose text the other
  processes parse.
\<close>

section \<open>The buffer of changes\<close>

type_synonym field_buffer = "(u32 \<times> string) list"
type_synonym key_buffer = "(u64 \<times> (u64 \<times> field_buffer) list) list"
type_synonym redis_buffer = "(u32 \<times> key_buffer) list"

definition om_at :: "'k::linorder \<Rightarrow> 'v \<Rightarrow> ('k \<times> 'v) list \<Rightarrow> 'v" where
  "om_at k d m = (case map_of m k of None \<Rightarrow> d | Some v \<Rightarrow> v)"

definition FieldBuffer_ValueChange :: "u32 \<Rightarrow> string \<Rightarrow> field_buffer \<Rightarrow> field_buffer" where
  "FieldBuffer_ValueChange iKeyField strValue mapField = om_put iKeyField strValue mapField"

definition KeyBuffer_ValueChange :: "u32 \<Rightarrow> u64 \<Rightarrow> u64 \<Rightarrow> string \<Rightarrow> key_buffer \<Rightarrow> key_buffer" where
  "KeyBuffer_ValueChange iKeyField iFirstKey iSecondKey strValue mapBuffer =
     (let itFirst = om_at iFirstKey [] mapBuffer;
          itSecond = om_at iSecondKey [] itFirst
      in om_put iFirstKey
           (om_put iSecondKey (FieldBuffer_ValueChange iKeyField strValue itSecond) itFirst) mapBuffer)"

definition RedisBuffer_AddValueChange :: "u64 \<Rightarrow> u64 \<Rightarrow> u32 \<Rightarrow> string \<Rightarrow> redis_buffer \<Rightarrow> redis_buffer" where
  "RedisBuffer_AddValueChange i64Key iIndex iKeyField strValue m_mBuffer =
     om_put (key_part iKeyField)
       (KeyBuffer_ValueChange iKeyField i64Key iIndex strValue (om_at (key_part iKeyField) [] m_mBuffer))
       m_mBuffer"

definition RedisBuffer_Clear :: "redis_buffer \<Rightarrow> redis_buffer" where
  "RedisBuffer_Clear m_mBuffer = []"

text \<open>
  \<open>Batch\<close> hands the commands to a callback one by one; a missing name throws with the
  commands before it already handed over and the buffer kept. \<open>emit_all\<close> is a loop whose body
  emits commands and may throw.
\<close>

type_synonym emitted = "string list \<times> fault option"

fun emit_all :: "('a \<Rightarrow> emitted) \<Rightarrow> 'a list \<Rightarrow> emitted" where
  "emit_all f [] = ([], None)"
| "emit_all f (x # xs) =
     (case f x of
        (cmds, Some e) \<Rightarrow> (cmds, Some e)
      | (cmds, None) \<Rightarrow> (let (cmds', e) = emit_all f xs in (cmds @ cmds', e)))"

text \<open>The fields of one entry, appended to the two streams.\<close>

definition Batch_fields ::
  "key_field_mgr \<Rightarrow> field_buffer \<Rightarrow> string \<times> string \<Rightarrow> (string \<times> string) res" where
  "Batch_fields mgr mapField = rfold
     (\<lambda>(f, v) (ssSave, ssPub).
        rbind (CheckKeyFiled (FindField mgr f))
          (\<lambda>sField. Inr (ssSave @ sField @ '' '' @ v @ '' '',
                         ssPub @ dec_of_nat (unat f) @ '':'' @ v @ ''|'')))
     mapField"

definition Batch_entry ::
  "key_field_mgr \<Rightarrow> u32 \<Rightarrow> string \<Rightarrow> u64 \<Rightarrow> u64 \<Rightarrow> field_buffer \<Rightarrow> (string \<times> string) res" where
  "Batch_entry mgr redisKey sKey first second mapField =
     (let ssSave = ''HMSET '' @ sKey;
          ssPub = ''publish '' @ dec_of_nat (unat redisKey) @ '' S|'' @ dec_of_nat (unat first) @ ''|''
                    @ dec_of_nat (unat second) @ ''|'';
          ssSave = (if first \<noteq> 0
                    then ssSave @ '':'' @ dec_of_nat (unat first)
                           @ (if second \<noteq> 0 then '':'' @ dec_of_nat (unat second) else [])
                    else ssSave);
          ssSave = ssSave @ '' ''
      in Batch_fields mgr mapField (ssSave, ssPub))"

definition Batch_key :: "key_field_mgr \<Rightarrow> u32 \<times> key_buffer \<Rightarrow> emitted" where
  "Batch_key mgr = (\<lambda>(redisKey, mapBuffer).
     case CheckKeyFiled (FindKey mgr redisKey) of
       Inl e \<Rightarrow> ([], Some e)
     | Inr sKey \<Rightarrow> emit_all (\<lambda>(first, seconds). emit_all (\<lambda>(second, mapField).
         (case Batch_entry mgr redisKey sKey first second mapField of
            Inl e \<Rightarrow> ([], Some e)
          | Inr (ssSave, ssPub) \<Rightarrow> ([ssSave, ssPub], None))) seconds) mapBuffer)"

definition RedisBuffer_Batch :: "key_field_mgr \<Rightarrow> redis_buffer \<Rightarrow> emitted \<times> redis_buffer" where
  "RedisBuffer_Batch mgr m_mBuffer =
     (let out = emit_all (Batch_key mgr) m_mBuffer in
      (out, if snd out = None then RedisBuffer_Clear m_mBuffer else m_mBuffer))"


section \<open>Parsing a published change\<close>

datatype sync_type = eNULL | eAdd | eDelete | eSet

text \<open>The two keys are not initialised by the constructor: \<open>None\<close> until they are parsed.\<close>

record redis_sync_data =
  sd_eType :: sync_type
  RedisKey :: u32
  Firstkey :: "u64 option"
  SecondKey :: "u64 option"
  sd_mValue :: "(u32 \<times> string) list"

definition RedisSyncData_make :: "u32 \<Rightarrow> redis_sync_data" where
  "RedisSyncData_make iRedisKey =
     \<lparr> sd_eType = eNULL, RedisKey = iRedisKey, Firstkey = None, SecondKey = None, sd_mValue = [] \<rparr>"

text \<open>The loop over the fields of a set message: it returns false at the first malformed one.\<close>

fun Parse_fields :: "string list \<Rightarrow> redis_sync_data \<Rightarrow> (bool \<times> redis_sync_data) res" where
  "Parse_fields [] d = Inr (True, d)"
| "Parse_fields (s # ss) d =
     (let vField = Split s [] CHR '':'' in
      if length vField \<noteq> 2 then Inr (False, d)
      else rbind (std_stoi (vField ! 0))
        (\<lambda>i. Parse_fields ss (d\<lparr>sd_mValue := om_put (of_int i) (vField ! 1) (sd_mValue d)\<rparr>)))"

definition RedisSyncData_Parse :: "string \<Rightarrow> redis_sync_data \<Rightarrow> (bool \<times> redis_sync_data) res" where
  "RedisSyncData_Parse pStrMsg d =
     (let vSplit = Split (c_str pStrMsg) [] CHR ''|'' in
      if length vSplit < 3 then Inr (False, d)
      else rbind (std_stoull (vSplit ! 1)) (\<lambda>k1.
        let d = d\<lparr>Firstkey := Some k1\<rparr> in
        rbind (std_stoull (vSplit ! 2)) (\<lambda>k2.
          let d = d\<lparr>SecondKey := Some k2\<rparr>;
              c = (case vSplit ! 0 of [] \<Rightarrow> CHR 0x00 | x # _ \<Rightarrow> x) in
          if c = CHR ''A'' then Inr (True, d\<lparr>sd_eType := eAdd\<rparr>)
          else if c = CHR ''D'' then Inr (True, d\<lparr>sd_eType := eDelete\<rparr>)
          else if c = CHR ''S'' then
            (let d = d\<lparr>sd_eType := eSet\<rparr> in
             if length vSplit < 4 then Inr (False, d)
             else Parse_fields (drop 3 vSplit) d)
          else Inr (True, d))))"

text \<open>\<open>GetString\<close>: the next token from an offset, and the offset behind its separator.\<close>

function GetString_loop :: "string \<Rightarrow> char \<Rightarrow> nat \<Rightarrow> nat \<times> nat" where
  "GetString_loop pStr seq iOffSet =
     (if iOffSet < length pStr
      then (if pStr ! iOffSet = seq then (iOffSet + 1, 1) else GetString_loop pStr seq (iOffSet + 1))
      else (iOffSet, 0))"
  by pat_completeness auto
termination by (relation "measure (\<lambda>(pStr, seq, i). length pStr - i)") auto

declare GetString_loop.simps [simp del]

definition RedisSyncData_GetString :: "string \<Rightarrow> nat \<Rightarrow> char \<Rightarrow> string \<times> nat" where
  "RedisSyncData_GetString pStr iBegin seq =
     (let (iOffSet, iCorrect) = GetString_loop pStr seq iBegin;
          iCorrect = (if iOffSet = iBegin then 0 else iCorrect)
      in (substr pStr iBegin (iOffSet - iBegin - iCorrect), iOffSet))"


section \<open>What is published is what is parsed\<close>

definition pub_payload :: "u64 \<Rightarrow> u64 \<Rightarrow> field_buffer \<Rightarrow> string" where
  "pub_payload first second fs =
     concat (map (\<lambda>p. p @ ''|'')
       ([''S'', dec_of_nat (unat first), dec_of_nat (unat second)]
         @ map (\<lambda>(f, v). dec_of_nat (unat f) @ '':'' @ v) fs))"

definition save_fields :: "key_field_mgr \<Rightarrow> field_buffer \<Rightarrow> string" where
  "save_fields mgr fs = concat (map (\<lambda>(f, v). the (FindField mgr f) @ '' '' @ v @ '' '') fs)"

lemma Batch_fields_ok:
  assumes "\<forall>(f, v) \<in> set fs. FindField mgr f \<noteq> None"
  shows "Batch_fields mgr fs (a, b) =
    Inr (a @ save_fields mgr fs, b @ concat (map (\<lambda>(f, v). dec_of_nat (unat f) @ '':'' @ v @ ''|'') fs))"
  using assms
proof (induction fs arbitrary: a b)
  case Nil
  then show ?case by (simp add: Batch_fields_def save_fields_def)
next
  case (Cons fv fs)
  obtain f v where fv: "fv = (f, v)" by fastforce
  obtain n where n: "FindField mgr f = Some n" using Cons.prems fv by auto
  have "Batch_fields mgr ((f, v) # fs) (a, b) =
      Batch_fields mgr fs (a @ n @ '' '' @ v @ '' '', b @ dec_of_nat (unat f) @ '':'' @ v @ ''|'')"
    by (simp add: Batch_fields_def CheckKeyFiled_def n)
  with Cons fv n show ?case by (simp add: save_fields_def)
qed

lemma Batch_entry_ok:
  assumes "\<forall>(f, v) \<in> set fs. FindField mgr f \<noteq> None"
  shows "\<exists>r. Batch_entry mgr rk sKey first second fs =
    Inr (''HMSET '' @ r, ''publish '' @ dec_of_nat (unat rk) @ '' '' @ pub_payload first second fs)"
proof -
  have "concat (map (\<lambda>(f, v). dec_of_nat (unat f) @ '':'' @ v @ ''|'') fs) =
      concat (map ((\<lambda>p. p @ ''|'') \<circ> (\<lambda>(f, v). dec_of_nat (unat f) @ '':'' @ v)) fs)"
    by (induction fs) auto
  then show ?thesis
    by (simp add: Batch_entry_def Let_def Batch_fields_ok [OF assms] pub_payload_def)
qed

lemma dec_plain:
  "CHR ''|'' \<notin> set (dec_of_nat n)" "CHR '':'' \<notin> set (dec_of_nat n)" "CHR 0x00 \<notin> set (dec_of_nat n)"
  using plain_dec_of_nat [of n] by (auto simp: plain_text_def)

lemma std_stoull_dec [simp]: "std_stoull (dec_of_nat (unat (k :: u64))) = Inr k"
  using u64_string.dec_enc [of k] by (simp add: get_u64_string_def ToString_u64_def)

lemma std_stoi_dec: "n < 2 ^ 31 \<Longrightarrow> std_stoi (dec_of_nat n) = Inr (int n)"
  by (simp add: std_stoi_def clamp_unat)

lemma Split_payload:
  assumes "\<forall>(f, v) \<in> set fs. CHR ''|'' \<notin> set v"
  shows "Split (pub_payload first second fs) [] CHR ''|'' =
    [''S'', dec_of_nat (unat first), dec_of_nat (unat second)]
      @ map (\<lambda>(f, v). dec_of_nat (unat f) @ '':'' @ v) fs"
  unfolding pub_payload_def
  by (rule Split_terminated) (use assms dec_plain in auto)

lemma c_str_payload:
  assumes "\<forall>(f, v) \<in> set fs. CHR 0x00 \<notin> set v"
  shows "c_str (pub_payload first second fs) = pub_payload first second fs"
  unfolding pub_payload_def
  by (rule c_str_id) (use assms dec_plain in auto)

lemma Split_field:
  assumes "v \<noteq> []" and "CHR '':'' \<notin> set v"
  shows "Split (dec_of_nat n @ '':'' @ v) [] CHR '':'' = [dec_of_nat n, v]"
  using assms dec_plain [of n] by (simp add: Split_pieces pieces_append pieces_plain)

lemma om_put_above: "\<forall>k \<in> fst ` set m. k < a \<Longrightarrow> om_put a v m = m @ [(a, v)]"
  by (induction a v m rule: om_put.induct) auto

lemma Parse_fields_ok:
  assumes "om_wf (sd_mValue d @ fs)"
    and "\<forall>(f, v) \<in> set fs. unat f < 2 ^ 31 \<and> plain_text v"
  shows "Parse_fields (map (\<lambda>(f, v). dec_of_nat (unat f) @ '':'' @ v) fs) d =
    Inr (True, d\<lparr>sd_mValue := sd_mValue d @ fs\<rparr>)"
  using assms
proof (induction fs arbitrary: d)
  case Nil
  then show ?case by simp
next
  case (Cons fv fs)
  obtain f v where fv: "fv = (f, v)" by fastforce
  have f: "unat f < 2 ^ 31" "v \<noteq> []" "CHR '':'' \<notin> set v"
    using Cons.prems(2) fv by (auto simp: plain_text_def)
  have "\<forall>k \<in> fst ` set (sd_mValue d). k < f"
    using Cons.prems(1) fv by (auto simp: om_wf_def sorted_wrt_append)
  then have put: "om_put f v (sd_mValue d) = sd_mValue d @ [(f, v)]" by (rule om_put_above)
  have "Parse_fields (map (\<lambda>(f, v). dec_of_nat (unat f) @ '':'' @ v) fs)
        (d\<lparr>sd_mValue := sd_mValue d @ [(f, v)]\<rparr>) =
      Inr (True, d\<lparr>sd_mValue := sd_mValue d @ (f, v) # fs\<rparr>)"
    using Cons.IH [of "d\<lparr>sd_mValue := sd_mValue d @ [(f, v)]\<rparr>"] Cons.prems fv by simp
  moreover have "std_stoi (dec_of_nat (unat f)) = Inr (int (unat f))"
    using f(1) by (rule std_stoi_dec)
  ultimately show ?case
    using Split_field [OF f(2,3)] put by (simp add: fv)
qed

lemma Parse_payload:
  assumes "om_wf fs" and "fs \<noteq> []"
    and "\<forall>(f, v) \<in> set fs. unat f < 2 ^ 31 \<and> plain_text v"
  shows "RedisSyncData_Parse (pub_payload first second fs) (RedisSyncData_make rk) =
    Inr (True, \<lparr> sd_eType = eSet, RedisKey = rk, Firstkey = Some first, SecondKey = Some second,
      sd_mValue = fs \<rparr>)"
proof -
  have "\<forall>(f, v) \<in> set fs. CHR ''|'' \<notin> set v" using assms(3) by (auto simp: plain_text_def)
  note split = Split_payload [OF this]
  have "\<forall>(f, v) \<in> set fs. CHR 0x00 \<notin> set v" using assms(3) by (auto simp: plain_text_def)
  note cut = c_str_payload [OF this]
  have "0 < length fs" using assms(2) by simp
  then show ?thesis
    using Parse_fields_ok [of "\<lparr> sd_eType = eSet, RedisKey = rk, Firstkey = Some first,
        SecondKey = Some second, sd_mValue = [] \<rparr>" fs] assms
    by (simp add: RedisSyncData_Parse_def cut split RedisSyncData_make_def Let_def)
qed



section \<open>Runs of changes\<close>

text \<open>A change is the first key, the second key, the field index and the value's text.\<close>

type_synonym change = "(u64 \<times> u64 \<times> u32) \<times> string"

fun buffer_run :: "change list \<Rightarrow> redis_buffer \<Rightarrow> redis_buffer" where
  "buffer_run [] buf = buf"
| "buffer_run (((k, i, f), v) # cs) buf = buffer_run cs (RedisBuffer_AddValueChange k i f v buf)"

text \<open>The entries of a buffer in the order \<open>Batch\<close> goes through them.\<close>

definition buffer_entries :: "redis_buffer \<Rightarrow> (u32 \<times> u64 \<times> u64 \<times> field_buffer) list" where
  "buffer_entries buf = concat (map (\<lambda>(rk, kb). concat (map (\<lambda>(k, sb).
     map (\<lambda>(i, fb). (rk, k, i, fb)) sb) kb)) buf)"

definition buffer_wf :: "redis_buffer \<Rightarrow> bool" where
  "buffer_wf buf \<longleftrightarrow> om_wf buf \<and>
     (\<forall>(rk, kb) \<in> set buf. om_wf kb \<and> kb \<noteq> [] \<and>
        (\<forall>(k, sb) \<in> set kb. om_wf sb \<and> sb \<noteq> [] \<and>
           (\<forall>(i, fb) \<in> set sb. om_wf fb \<and> fb \<noteq> [] \<and> (\<forall>f \<in> fst ` set fb. key_part f = rk))))"

definition buffer_get :: "redis_buffer \<Rightarrow> u64 \<times> u64 \<times> u32 \<Rightarrow> string option" where
  "buffer_get buf = (\<lambda>(k, i, f).
     map_of (om_at i [] (om_at k [] (om_at (key_part f) [] buf))) f)"

lemma set_om_put: "om_wf m \<Longrightarrow> set (om_put k v m) = {(k, v)} \<union> {x \<in> set m. fst x \<noteq> k}"
  by (induction k v m rule: om_put.induct) (force simp: om_wf_Cons)+

lemma om_put_neq_Nil [simp]: "om_put k v m \<noteq> []"
  by (induction k v m rule: om_put.induct) auto

lemma om_at_wf:
  assumes "om_wf m" and "\<forall>(k, v) \<in> set m. P v" and "P d"
  shows "P (om_at k d m)"
  using assms by (auto simp: om_at_def split: option.split dest: map_of_SomeD)

lemma om_at_put: "om_at k d (om_put k' v m) = (if k = k' then v else om_at k d m)"
  by (simp add: om_at_def)

lemma ball_om_put:
  "om_wf m \<Longrightarrow> \<forall>(a, b) \<in> set m. Q a b \<Longrightarrow> Q k v \<Longrightarrow> \<forall>(a, b) \<in> set (om_put k v m). Q a b"
  by (auto simp: set_om_put)

lemma ball_om_at: "\<forall>(a, b) \<in> set m. Q a b \<Longrightarrow> Q k d \<Longrightarrow> Q k (om_at k d m)"
  by (auto simp: om_at_def split: option.split dest: map_of_SomeD)

lemma buffer_wf_add:
  assumes "buffer_wf buf"
  shows "buffer_wf (RedisBuffer_AddValueChange k i f v buf)"
proof -
  define fok where "fok rk fb \<longleftrightarrow> om_wf fb \<and> (\<forall>f \<in> fst ` set fb. key_part f = rk)"
    for rk and fb :: field_buffer
  define sok where "sok rk sb \<longleftrightarrow> om_wf sb \<and> (\<forall>(i, fb) \<in> set sb. fok rk fb \<and> fb \<noteq> [])"
    for rk and sb :: "(u64 \<times> field_buffer) list"
  define kok where "kok rk kb \<longleftrightarrow> om_wf kb \<and> (\<forall>(k, sb) \<in> set kb. sok rk sb \<and> sb \<noteq> [])"
    for rk and kb :: key_buffer
  have wf: "buffer_wf b \<longleftrightarrow> om_wf b \<and> (\<forall>(rk, kb) \<in> set b. kok rk kb \<and> kb \<noteq> [])" for b
    by (simp add: buffer_wf_def kok_def sok_def fok_def conj_commute conj_left_commute)
  let ?rk = "key_part f"
  let ?kb = "om_at ?rk [] buf"
  let ?sb = "om_at k [] ?kb"
  let ?fb = "om_at i [] ?sb"
  have kb: "kok ?rk ?kb"
  proof -
    have "\<forall>(rk, kb) \<in> set buf. kok rk kb" using assms unfolding wf by blast
    then show ?thesis by (rule ball_om_at) (simp add: kok_def)
  qed
  have sb: "sok ?rk ?sb"
  proof -
    have "\<forall>(k, sb) \<in> set ?kb. sok ?rk sb" using kb unfolding kok_def by blast
    then show ?thesis by (rule ball_om_at) (simp add: sok_def)
  qed
  have fb: "fok ?rk ?fb"
    using sb ball_om_at [of ?sb "\<lambda>_. fok ?rk" i "[]"] by (auto simp: sok_def fok_def)
  have "fok ?rk (om_put f v ?fb)" using fb by (auto simp: fok_def)
  then have "sok ?rk (om_put i (om_put f v ?fb) ?sb)"
    using sb unfolding sok_def by (intro conjI ball_om_put) (simp_all del: split_paired_All)
  then have "kok ?rk (om_put k (om_put i (om_put f v ?fb) ?sb) ?kb)"
    using kb unfolding kok_def by (intro conjI ball_om_put) simp_all
  then show ?thesis
    using assms unfolding wf RedisBuffer_AddValueChange_def KeyBuffer_ValueChange_def
      FieldBuffer_ValueChange_def Let_def
    by (intro conjI ball_om_put) simp_all
qed

lemma buffer_get_add:
  "buffer_get (RedisBuffer_AddValueChange k i f v buf) = (buffer_get buf)((k, i, f) \<mapsto> v)"
  by (auto simp: fun_eq_iff buffer_get_def RedisBuffer_AddValueChange_def KeyBuffer_ValueChange_def
      FieldBuffer_ValueChange_def Let_def om_at_put)

lemma buffer_run_wf: "buffer_wf buf \<Longrightarrow> buffer_wf (buffer_run cs buf)"
  by (induction cs buf rule: buffer_run.induct) (auto intro: buffer_wf_add)

lemma buffer_run_get: "buffer_get (buffer_run cs buf) = buffer_get buf ++ map_of (rev cs)"
  by (induction cs buf rule: buffer_run.induct)
     (auto simp: buffer_get_add map_add_def fun_eq_iff split: option.split)

lemma om_mem: "om_wf m \<Longrightarrow> (k, b) \<in> set m \<longleftrightarrow> map_of m k = Some b"
  using om_wf_distinct by (metis map_of_SomeD map_of_is_SomeI)

lemma buffer_entries_mem:
  "(rk, k, i, fb) \<in> set (buffer_entries buf) \<longleftrightarrow>
     (\<exists>kb sb. (rk, kb) \<in> set buf \<and> (k, sb) \<in> set kb \<and> (i, fb) \<in> set sb)"
proof -
  have "(rk, k, i, fb) \<in> set (buffer_entries buf) \<longleftrightarrow>
      (\<exists>x \<in> set buf. \<exists>y \<in> set (snd x). \<exists>z \<in> set (snd y). (rk, k, i, fb) = (fst x, fst y, fst z, snd z))"
    by (simp add: buffer_entries_def split_def image_iff)
  then show ?thesis by simp force
qed

text \<open>What an entry holds is what the look-up gives.\<close>

lemma buffer_entries_get:
  assumes "buffer_wf buf"
  shows "buffer_get buf (k, i, f) = Some v \<longleftrightarrow>
    (\<exists>fb. (key_part f, k, i, fb) \<in> set (buffer_entries buf) \<and> map_of fb f = Some v)"
proof -
  let ?rk = "key_part f"
  have wf: "om_wf buf" "\<And>kb. (?rk, kb) \<in> set buf \<Longrightarrow> om_wf kb"
    "\<And>kb sb. (?rk, kb) \<in> set buf \<Longrightarrow> (k, sb) \<in> set kb \<Longrightarrow> om_wf sb"
    using assms by (fastforce simp: buffer_wf_def)+
  have at: "om_at a [] m = b \<and> b \<noteq> [] \<longleftrightarrow> (a, b) \<in> set m \<and> b \<noteq> []"
    if "om_wf m" for a :: "'k::linorder" and m :: "('k \<times> 'v list) list" and b
    using that by (auto simp: om_at_def om_mem split: option.split)
  have "buffer_get buf (k, i, f) = Some v \<longleftrightarrow>
      (\<exists>kb sb fb. (?rk, kb) \<in> set buf \<and> (k, sb) \<in> set kb \<and> (i, fb) \<in> set sb \<and> map_of fb f = Some v)"
  proof
    assume "buffer_get buf (k, i, f) = Some v"
    then have v: "map_of (om_at i [] (om_at k [] (om_at ?rk [] buf))) f = Some v"
      by (simp add: buffer_get_def)
    let ?kb = "om_at ?rk [] buf"
    let ?sb = "om_at k [] ?kb"
    let ?fb = "om_at i [] ?sb"
    have "?fb \<noteq> []" using v by auto
    moreover from this have "?sb \<noteq> []" by (auto simp: om_at_def)
    moreover from this have "?kb \<noteq> []" by (auto simp: om_at_def)
    ultimately have "(?rk, ?kb) \<in> set buf" "(k, ?sb) \<in> set ?kb" "(i, ?fb) \<in> set ?sb"
      using at wf by metis+
    with v show "\<exists>kb sb fb. (?rk, kb) \<in> set buf \<and> (k, sb) \<in> set kb \<and> (i, fb) \<in> set sb \<and> map_of fb f = Some v"
      by blast
  next
    assume "\<exists>kb sb fb. (?rk, kb) \<in> set buf \<and> (k, sb) \<in> set kb \<and> (i, fb) \<in> set sb \<and> map_of fb f = Some v"
    then obtain kb sb fb where e: "(?rk, kb) \<in> set buf" "(k, sb) \<in> set kb" "(i, fb) \<in> set sb"
      "map_of fb f = Some v" by blast
    then have "om_at ?rk [] buf = kb" "om_at k [] kb = sb" "om_at i [] sb = fb"
      using wf by (simp_all add: om_at_def om_mem)
    with e show "buffer_get buf (k, i, f) = Some v" by (simp add: buffer_get_def)
  qed
  also have "\<dots> \<longleftrightarrow> (\<exists>fb. (?rk, k, i, fb) \<in> set (buffer_entries buf) \<and> map_of fb f = Some v)"
    unfolding buffer_entries_mem by blast
  finally show ?thesis .
qed



section \<open>Batch\<close>

lemma emit_all_ok:
  "(\<And>x. x \<in> set xs \<Longrightarrow> f x = (g x, None)) \<Longrightarrow> emit_all f xs = (concat (map g xs), None)"
  by (induction xs) simp_all

definition entry_named :: "key_field_mgr \<Rightarrow> u32 \<times> u64 \<times> u64 \<times> field_buffer \<Rightarrow> bool" where
  "entry_named mgr = (\<lambda>(rk, k, i, fb).
     FindKey mgr rk \<noteq> None \<and> (\<forall>(f, v) \<in> set fb. FindField mgr f \<noteq> None))"

definition entry_commands :: "key_field_mgr \<Rightarrow> u32 \<times> u64 \<times> u64 \<times> field_buffer \<Rightarrow> string list" where
  "entry_commands mgr = (\<lambda>(rk, k, i, fb).
     case Batch_entry mgr rk (the (FindKey mgr rk)) k i fb of
       Inl e \<Rightarrow> [] | Inr (ssSave, ssPub) \<Rightarrow> [ssSave, ssPub])"

text \<open>With every name registered, \<open>Batch\<close> emits two commands per entry and clears the buffer.\<close>

lemma Batch_entry_Inr:
  "entry_named mgr (rk, k, i, fb) \<Longrightarrow> \<exists>c. Batch_entry mgr rk sKey k i fb = Inr c"
  using Batch_entry_ok [of fb mgr rk sKey k i] by (auto simp: entry_named_def)

lemma Batch_key_ok:
  assumes sKey: "FindKey mgr rk = Some sKey"
    and named: "\<And>k sb i fb. (k, sb) \<in> set kb \<Longrightarrow> (i, fb) \<in> set sb \<Longrightarrow> entry_named mgr (rk, k, i, fb)"
  shows "Batch_key mgr (rk, kb) =
    (concat (map (\<lambda>(k, sb). concat (map (\<lambda>(i, fb). entry_commands mgr (rk, k, i, fb)) sb)) kb), None)"
proof -
  let ?g = "\<lambda>k (i, fb). case Batch_entry mgr rk sKey k i fb of
      Inl e \<Rightarrow> ([], Some e) | Inr (ssSave, ssPub) \<Rightarrow> ([ssSave, ssPub], None)"
  have entry: "?g k (i, fb) = (entry_commands mgr (rk, k, i, fb), None)"
    if "(k, sb) \<in> set kb" "(i, fb) \<in> set sb" for k sb i fb
    using Batch_entry_Inr [OF named [OF that], of sKey] by (auto simp: entry_commands_def sKey)
  have inner: "emit_all (?g k) sb = (concat (map (\<lambda>(i, fb). entry_commands mgr (rk, k, i, fb)) sb), None)"
    if "(k, sb) \<in> set kb" for k sb
  proof (rule emit_all_ok)
    fix x assume x: "x \<in> set sb"
    obtain i fb where "x = (i, fb)" by (rule prod.exhaust)
    with x show "?g k x = ((\<lambda>(i, fb). entry_commands mgr (rk, k, i, fb)) x, None)"
      using entry [OF that] by simp
  qed
  have "emit_all (\<lambda>(k, sb). emit_all (?g k) sb) kb =
      (concat (map (\<lambda>(k, sb). concat (map (\<lambda>(i, fb). entry_commands mgr (rk, k, i, fb)) sb)) kb), None)"
  proof (rule emit_all_ok)
    fix x assume x: "x \<in> set kb"
    obtain k sb where "x = (k, sb)" by (rule prod.exhaust)
    with x show "(\<lambda>(k, sb). emit_all (?g k) sb) x =
        ((\<lambda>(k, sb). concat (map (\<lambda>(i, fb). entry_commands mgr (rk, k, i, fb)) sb)) x, None)"
      using inner by simp
  qed
  then show ?thesis by (simp add: Batch_key_def sKey CheckKeyFiled_def)
qed

lemma concat_map_concat: "concat (map f (concat xss)) = concat (map (\<lambda>xs. concat (map f xs)) xss)"
  by (induction xss) simp_all

lemma Batch_ok:
  assumes "\<forall>e \<in> set (buffer_entries buf). entry_named mgr e"
    and "\<forall>(rk, kb) \<in> set buf. FindKey mgr rk \<noteq> None"
  shows "RedisBuffer_Batch mgr buf =
    ((concat (map (entry_commands mgr) (buffer_entries buf)), None), [])"
proof -
  let ?h = "\<lambda>(rk, kb). concat (map (\<lambda>(k, sb).
      concat (map (\<lambda>(i, fb). entry_commands mgr (rk, k, i, fb)) sb)) kb)"
  have "emit_all (Batch_key mgr) buf = (concat (map ?h buf), None)"
  proof (rule emit_all_ok)
    fix x assume "x \<in> set buf"
    moreover obtain rk kb where x: "x = (rk, kb)" by (rule prod.exhaust)
    ultimately have mem: "(rk, kb) \<in> set buf" by simp
    with assms(2) have "FindKey mgr rk \<noteq> None" by blast
    then obtain sKey where "FindKey mgr rk = Some sKey" by blast
    moreover have "entry_named mgr (rk, k, i, fb)" if "(k, sb) \<in> set kb" "(i, fb) \<in> set sb" for k sb i fb
    proof -
      have "(rk, k, i, fb) \<in> set (buffer_entries buf)"
        unfolding buffer_entries_mem using mem that by blast
      with assms(1) show ?thesis by blast
    qed
    ultimately show "Batch_key mgr x = (?h x, None)"
      by (simp add: x Batch_key_ok)
  qed
  moreover have "concat (map ?h buf) = concat (map (entry_commands mgr) (buffer_entries buf))"
    by (simp add: buffer_entries_def concat_map_concat comp_def split_def)
  ultimately show ?thesis by (simp add: RedisBuffer_Batch_def RedisBuffer_Clear_def)
qed


section \<open>From a change to the parsed message\<close>

lemma FindKey_key_part [simp]: "FindKey mgr (key_part f) = FindKey mgr f"
  by (simp add: FindKey_def)

lemma publish_text_inj:
  assumes "''publish '' @ dec_of_nat a @ '' '' @ p = ''publish '' @ dec_of_nat b @ '' '' @ q"
  shows "a = b \<and> p = q"
proof -
  have eq: "dec_of_nat a @ '' '' @ p = dec_of_nat b @ '' '' @ q" using assms by simp
  have "leading_nat (dec_of_nat n @ '' '' @ r) = Some n" for n r
    by (rule leading_nat_dec) (simp add: is_digit_def)
  then have "a = b" using eq by (metis option.inject)
  with eq show ?thesis by simp
qed

lemma entry_commands_publish:
  assumes "entry_named mgr (rk, k, i, fb)"
  shows "''publish '' @ dec_of_nat n @ '' '' @ p \<in> set (entry_commands mgr (rk, k, i, fb)) \<longleftrightarrow>
    n = unat rk \<and> p = pub_payload k i fb"
proof -
  let ?s = "the (FindKey mgr rk)"
  have "\<forall>(f, v) \<in> set fb. FindField mgr f \<noteq> None" using assms by (simp add: entry_named_def)
  from Batch_entry_ok [OF this, of rk ?s k i] obtain r where
    e: "Batch_entry mgr rk ?s k i fb =
      Inr (''HMSET '' @ r, ''publish '' @ dec_of_nat (unat rk) @ '' '' @ pub_payload k i fb)" by blast
  have set: "set (entry_commands mgr (rk, k, i, fb)) =
      {''HMSET '' @ r, ''publish '' @ dec_of_nat (unat rk) @ '' '' @ pub_payload k i fb}"
    by (simp only: entry_commands_def split e sum.case list.set)
  have "''publish '' @ dec_of_nat n @ '' '' @ p \<noteq> ''HMSET '' @ r" by simp
  then show ?thesis
    unfolding set using publish_text_inj [of n p "unat rk" "pub_payload k i fb"] by blast
qed

lemma mem_concat_entries:
  "c \<in> set (concat (map h es)) \<longleftrightarrow> (\<exists>r k i fb. (r, k, i, fb) \<in> set es \<and> c \<in> set (h (r, k, i, fb)))"
  by (simp only: set_concat set_map UN_iff Bex_def image_iff split_paired_Ex) blast

text \<open>A change whose names are registered and whose text survives the message format.\<close>

definition change_ok :: "key_field_mgr \<Rightarrow> u32 \<Rightarrow> string \<Rightarrow> bool" where
  "change_ok mgr f v \<longleftrightarrow>
     FindKey mgr f \<noteq> None \<and> FindField mgr f \<noteq> None \<and> unat f < 2 ^ 31 \<and> plain_text v"

definition changes_ok :: "key_field_mgr \<Rightarrow> change list \<Rightarrow> bool" where
  "changes_ok mgr cs \<longleftrightarrow> (\<forall>k i f v. ((k, i, f), v) \<in> set cs \<longrightarrow> change_ok mgr f v)"

lemma run_wf: "buffer_wf (buffer_run cs [])"
  by (rule buffer_run_wf) (simp add: buffer_wf_def)

lemma run_get: "buffer_get (buffer_run cs []) = map_of (rev cs)"
  by (simp add: buffer_run_get)
     (auto simp: fun_eq_iff buffer_get_def om_at_def map_add_def split: option.split)

lemma pair_ballD: "\<forall>(a, b) \<in> S. Q a b \<Longrightarrow> (a, b) \<in> S \<Longrightarrow> Q a b"
  by simp blast

lemma entry_wf:
  assumes "buffer_wf buf" and "(rk, k, i, fb) \<in> set (buffer_entries buf)"
  shows "om_wf fb" "fb \<noteq> []" "\<And>f v. (f, v) \<in> set fb \<Longrightarrow> key_part f = rk"
proof -
  obtain kb sb where m: "(rk, kb) \<in> set buf" "(k, sb) \<in> set kb" "(i, fb) \<in> set sb"
    using assms(2) unfolding buffer_entries_mem by blast
  note wf = assms(1) [unfolded buffer_wf_def, THEN conjunct2]
  note kb = pair_ballD [OF wf m(1), THEN conjunct2, THEN conjunct2]
  note sb = pair_ballD [OF kb m(2), THEN conjunct2, THEN conjunct2]
  have *: "om_wf fb \<and> fb \<noteq> [] \<and> (\<forall>f \<in> fst ` set fb. key_part f = rk)"
    by (rule pair_ballD [OF sb m(3)])
  then show "om_wf fb" "fb \<noteq> []" by simp_all
  show "key_part f = rk" if "(f, v) \<in> set fb" for f v
  proof -
    have "f \<in> fst ` set fb" using that by (rule image_eqI [rotated]) simp
    with * show ?thesis by blast
  qed
qed

lemma key_has_entry:
  assumes "buffer_wf buf" and "(rk, kb) \<in> set buf"
  shows "\<exists>k i fb. (rk, k, i, fb) \<in> set (buffer_entries buf)"
proof -
  note wf = assms(1) [unfolded buffer_wf_def, THEN conjunct2]
  note kb = pair_ballD [OF wf assms(2), THEN conjunct2]
  obtain x where "x \<in> set kb" using kb by (meson last_in_set)
  obtain k sb where "x = (k, sb)" by (rule prod.exhaust)
  with \<open>x \<in> set kb\<close> have sb: "(k, sb) \<in> set kb" by simp
  from pair_ballD [OF kb [THEN conjunct2] sb] have "sb \<noteq> []" by simp
  then obtain y where "y \<in> set sb" by (meson last_in_set)
  obtain i fb where "y = (i, fb)" by (rule prod.exhaust)
  with \<open>y \<in> set sb\<close> sb assms(2) show ?thesis unfolding buffer_entries_mem by blast
qed

lemma run_entry:
  assumes "changes_ok mgr cs" and e: "(rk, k, i, fb) \<in> set (buffer_entries (buffer_run cs []))"
    and f: "(f, v) \<in> set fb"
  shows "change_ok mgr f v"
proof -
  have "map_of fb f = Some v" using f om_mem [OF entry_wf(1) [OF run_wf e]] by simp
  moreover have "key_part f = rk" using f by (rule entry_wf(3) [OF run_wf e])
  ultimately have "buffer_get (buffer_run cs []) (k, i, f) = Some v"
    using e by (subst buffer_entries_get [OF run_wf]) blast
  then have "map_of (rev cs) (k, i, f) = Some v" by (simp only: run_get)
  then have "((k, i, f), v) \<in> set cs" by (auto dest: map_of_SomeD)
  with assms(1) show ?thesis unfolding changes_ok_def by blast
qed

lemma run_named:
  assumes "changes_ok mgr cs" and e: "(rk, k, i, fb) \<in> set (buffer_entries (buffer_run cs []))"
  shows "entry_named mgr (rk, k, i, fb)"
proof -
  note ok = run_entry [OF assms]
  obtain x where "x \<in> set fb" using entry_wf(2) [OF run_wf e] by (meson last_in_set)
  obtain f v where "x = (f, v)" by (rule prod.exhaust)
  with \<open>x \<in> set fb\<close> have fv: "(f, v) \<in> set fb" by simp
  have "FindKey mgr rk = FindKey mgr f" using entry_wf(3) [OF run_wf e fv] FindKey_key_part by metis
  then have "FindKey mgr rk \<noteq> None" using ok [OF fv] by (simp add: change_ok_def)
  moreover have "\<forall>(f, v) \<in> set fb. FindField mgr f \<noteq> None"
    using ok unfolding change_ok_def by blast
  ultimately show ?thesis by (simp add: entry_named_def)
qed

lemma run_batch:
  assumes "changes_ok mgr cs"
  shows "RedisBuffer_Batch mgr (buffer_run cs []) =
    ((concat (map (entry_commands mgr) (buffer_entries (buffer_run cs []))), None), [])"
proof (rule Batch_ok)
  show "\<forall>e \<in> set (buffer_entries (buffer_run cs [])). entry_named mgr e"
    using run_named [OF assms] by (metis prod_cases4)
  have "FindKey mgr rk \<noteq> None" if r: "(rk, kb) \<in> set (buffer_run cs [])" for rk kb
    using key_has_entry [OF run_wf r] run_named [OF assms] unfolding entry_named_def by blast
  then show "\<forall>(rk, kb) \<in> set (buffer_run cs []). FindKey mgr rk \<noteq> None" by blast
qed

lemma run_parse:
  assumes "changes_ok mgr cs" and e: "(rk, k, i, fb) \<in> set (buffer_entries (buffer_run cs []))"
  shows "RedisSyncData_Parse (pub_payload k i fb) (RedisSyncData_make rk) =
    Inr (True, \<lparr> sd_eType = eSet, RedisKey = rk, Firstkey = Some k, SecondKey = Some i, sd_mValue = fb \<rparr>)"
  using entry_wf(1,2) [OF run_wf e] run_entry [OF assms]
  by (intro Parse_payload) (auto simp: change_ok_def)

lemma run_published:
  assumes "changes_ok mgr cs"
  shows "''publish '' @ dec_of_nat (unat rk) @ '' '' @ p \<in>
      set (concat (map (entry_commands mgr) (buffer_entries (buffer_run cs [])))) \<longleftrightarrow>
    (\<exists>k i fb. (rk, k, i, fb) \<in> set (buffer_entries (buffer_run cs [])) \<and> p = pub_payload k i fb)"
  unfolding mem_concat_entries
  using entry_commands_publish [OF run_named [OF assms]] by (metis word_unat_eq_iff)

text \<open>
  C11. From a change to the texts for the other processes: collect any run of value changes and
  batch them. If the key and the field of every change have registered names, the field indices
  are below 2 to the 31, and no value is empty or holds a bar, a colon or a NUL, then the batch
  succeeds and empties the buffer, and parsing the texts it publishes gives exactly the last
  value of every changed field of every key. Without these hypotheses it does not:
  \<open>colon_value_not_synced\<close> shows it for a value with a colon.
\<close>

theorem published_changes_are_parsed:
  assumes "changes_ok mgr cs"
  shows "\<exists>cmds. RedisBuffer_Batch mgr (buffer_run cs []) = ((cmds, None), []) \<and>
    (\<forall>k i f v. map_of (rev cs) (k, i, f) = Some v \<longleftrightarrow>
      (\<exists>payload d. ''publish '' @ dec_of_nat (unat (key_part f)) @ '' '' @ payload \<in> set cmds \<and>
        RedisSyncData_Parse payload (RedisSyncData_make (key_part f)) = Inr (True, d) \<and>
        sd_eType d = eSet \<and> Firstkey d = Some k \<and> SecondKey d = Some i \<and>
        map_of (sd_mValue d) f = Some v))"
proof -
  let ?cmds = "concat (map (entry_commands mgr) (buffer_entries (buffer_run cs [])))"
  have "map_of (rev cs) (k, i, f) = Some v \<longleftrightarrow>
      (\<exists>payload d. ''publish '' @ dec_of_nat (unat (key_part f)) @ '' '' @ payload \<in> set ?cmds \<and>
        RedisSyncData_Parse payload (RedisSyncData_make (key_part f)) = Inr (True, d) \<and>
        sd_eType d = eSet \<and> Firstkey d = Some k \<and> SecondKey d = Some i \<and>
        map_of (sd_mValue d) f = Some v)" for k i f v
    unfolding run_published [OF assms] run_get [symmetric] buffer_entries_get [OF run_wf]
    using run_parse [OF assms, of "key_part f"] by fastforce
  with run_batch [OF assms] show ?thesis by blast
qed

definition demo_registry :: key_field_mgr where
  "demo_registry = reg_run [Reg_key ''player.base'' 0x100, Reg_field ''Level'' 0x101 FT_uint32_t]"

theorem published_changes_are_parsed_witness:
  "\<exists>cmds payload d. RedisBuffer_Batch demo_registry (buffer_run [((10, 0, 0x101), ''6''), ((10, 0, 0x101), ''7'')] [])
      = ((cmds, None), []) \<and>
    ''publish '' @ dec_of_nat 256 @ '' '' @ payload \<in> set cmds \<and>
    RedisSyncData_Parse payload (RedisSyncData_make 256) = Inr (True, d) \<and>
    map_of (sd_mValue d) 0x101 = Some ''7''"
proof -
  let ?cs = "[((10, 0, 0x101), ''6''), ((10, 0, 0x101), ''7'')] :: change list"
  have "FindKey demo_registry 0x101 = Some ''player.base''" "FindField demo_registry 0x101 = Some ''Level''"
    unfolding demo_registry_def FindKey_run FindField_run by simp_all
  then have "changes_ok demo_registry ?cs"
    by (auto simp: changes_ok_def change_ok_def plain_text_def)
  from published_changes_are_parsed [OF this] obtain cmds where
    "RedisBuffer_Batch demo_registry (buffer_run ?cs []) = ((cmds, None), [])" and
    c: "\<And>k i f v. map_of (rev ?cs) (k, i, f) = Some v \<longleftrightarrow>
      (\<exists>payload d. ''publish '' @ dec_of_nat (unat (key_part f)) @ '' '' @ payload \<in> set cmds \<and>
        RedisSyncData_Parse payload (RedisSyncData_make (key_part f)) = Inr (True, d) \<and>
        sd_eType d = eSet \<and> Firstkey d = Some k \<and> SecondKey d = Some i \<and>
        map_of (sd_mValue d) f = Some v)" by blast
  moreover have "map_of (rev ?cs) (10, 0, 0x101) = Some ''7''" by simp
  ultimately show ?thesis using c [of 10 0 "0x101" "''7''"] by auto
qed


lemma length_pieces: "length (pieces c s) = Suc (count_list s c)"
proof (induction s)
  case Nil
  then show ?case by simp
next
  case (Cons x s)
  then show ?case by (cases "pieces c s") auto
qed

lemma last_pieces: "s \<noteq> [] \<Longrightarrow> last s \<noteq> c \<Longrightarrow> last (pieces c s) \<noteq> []"
proof (induction s)
  case Nil
  then show ?case by simp
next
  case (Cons x s)
  show ?case
  proof (cases "s = []")
    case True
    with Cons.prems show ?thesis by simp
  next
    case False
    with Cons have "last (pieces c s) \<noteq> []" by simp
    then show ?thesis by (cases "pieces c s") (auto split: if_splits)
  qed
qed

text \<open>
  A text value that holds a colon is written to redis but never reaches the other
  processes: parsing the published text returns false.
\<close>

theorem colon_value_not_synced:
  assumes "CHR '':'' \<in> set s" and "CHR ''|'' \<notin> set s" and "CHR 0x00 \<notin> set s"
    and "FindField mgr f \<noteq> None"
    and "Batch_entry mgr rk sKey k i [(f, ToString_string s)] =
      Inr (ssSave, ''publish '' @ dec_of_nat (unat rk) @ '' '' @ payload)"
  shows "\<exists>d. RedisSyncData_Parse payload (RedisSyncData_make rk) = Inr (False, d)"
proof -
  let ?v = "ToString_string s"
  let ?t = "dec_of_nat (unat f) @ '':'' @ ?v"
  have "\<forall>(f, v) \<in> set [(f, ?v)]. FindField mgr f \<noteq> None" using assms(4) by simp
  then obtain r where "Batch_entry mgr rk sKey k i [(f, ?v)] = Inr (''HMSET '' @ r,
      ''publish '' @ dec_of_nat (unat rk) @ '' '' @ pub_payload k i [(f, ?v)])"
    by (rule Batch_entry_ok [THEN exE])
  with assms(5) have "''publish '' @ dec_of_nat (unat rk) @ '' '' @ payload =
      ''publish '' @ dec_of_nat (unat rk) @ '' '' @ pub_payload k i [(f, ?v)]"
    by (simp only: sum.inject prod.inject)
  from publish_text_inj [OF this] have "payload = pub_payload k i [(f, ?v)]" by simp
  moreover have "\<forall>(f, v) \<in> set [(f, ?v)]. CHR ''|'' \<notin> set v"
    using assms(2) by (simp add: ToString_string_def)
  moreover have "\<forall>(f, v) \<in> set [(f, ?v)]. CHR 0x00 \<notin> set v"
    using assms(3) by (simp add: ToString_string_def)
  ultimately have split: "Split (c_str payload) [] CHR ''|'' =
      [''S'', dec_of_nat (unat k), dec_of_nat (unat i), ?t]"
    using Split_payload [of "[(f, ?v)]" k i] c_str_payload [of "[(f, ?v)]" k i] by simp
  have "last ?t = CHR 0x22" by (simp add: ToString_string_def)
  then have "last (pieces CHR '':'' ?t) \<noteq> []" by (intro last_pieces) simp_all
  then have "length (Split ?t [] CHR '':'') = Suc (count_list ?t CHR '':'')"
    by (simp add: Split_pieces length_pieces del: count_list_append)
  moreover have "0 < count_list s CHR '':''"
    using assms(1) by (metis count_list_0_iff gr0I)
  ultimately have "length (Split ?t [] CHR '':'') \<noteq> 2" by (simp add: ToString_string_def)
  then show ?thesis by (simp add: RedisSyncData_Parse_def split Let_def)
qed

theorem colon_value_not_synced_witness:
  "\<exists>ssSave payload d. Batch_entry demo_registry 0x100 ''player.base'' 10 0 [(0x101, ToString_string ''a:b'')] =
      Inr (ssSave, ''publish '' @ dec_of_nat (unat (0x100 :: u32)) @ '' '' @ payload) \<and>
    RedisSyncData_Parse payload (RedisSyncData_make 0x100) = Inr (False, d)"
proof -
  have f: "FindField demo_registry 0x101 \<noteq> None"
    unfolding demo_registry_def FindField_run by simp
  then have "\<forall>(f, v) \<in> set [(0x101, ToString_string ''a:b'')]. FindField demo_registry f \<noteq> None"
    by simp
  then obtain r where
    r: "Batch_entry demo_registry 0x100 ''player.base'' 10 0 [(0x101, ToString_string ''a:b'')] =
      Inr (''HMSET '' @ r, ''publish '' @ dec_of_nat (unat (0x100 :: u32)) @ '' '' @
        pub_payload 10 0 [(0x101, ToString_string ''a:b'')])" by (rule Batch_entry_ok [THEN exE])
  have "\<exists>d. RedisSyncData_Parse (pub_payload 10 0 [(0x101, ToString_string ''a:b'')])
      (RedisSyncData_make 0x100) = Inr (False, d)"
    by (rule colon_value_not_synced [OF _ _ _ f r]) simp_all
  then obtain d where "RedisSyncData_Parse (pub_payload 10 0 [(0x101, ToString_string ''a:b'')])
      (RedisSyncData_make 0x100) = Inr (False, d)" ..
  with r show ?thesis by (intro exI conjI)
qed

end
