(* ===== verification/Redis_Listening.thy ===== *)
theory Redis_Listening
  imports Redis_Messages
begin

text \<open>
  \<open>TData/SyncValue.h\<close>, \<open>RedisAdapter/RedisListen.*\<close> and \<open>RedisAdapter/RedisSubMgr.*\<close>: each
  adapter's listener keeps the parsed messages it is interested in and exports them as
  changes of its structures; the subscription manager subscribes to redis keys and hands
  messages to the listeners.
\<close>

section \<open>Changes to structures\<close>

type_synonym sync_value = "(u32 \<times> string) list"

record sync_repeated =
  sr_mValue :: "(u64 \<times> sync_value) list"
  vChange :: "(u64 \<times> bool) list"

record sync_struct =
  stValue :: sync_value
  mRepeated :: "(u32 \<times> sync_repeated) list"

definition SyncRepeated_default :: sync_repeated where
  "SyncRepeated_default = \<lparr> sr_mValue = [], vChange = [] \<rparr>"

definition SyncStruct_default :: sync_struct where
  "SyncStruct_default = \<lparr> stValue = [], mRepeated = [] \<rparr>"

definition SyncValue_AddValue :: "u32 \<Rightarrow> string \<Rightarrow> sync_value \<Rightarrow> sync_value" where
  "SyncValue_AddValue iKeyField strValue mValue = AList.update iKeyField strValue mValue"

definition SyncStruct_AddValue :: "u64 \<Rightarrow> u32 \<Rightarrow> string \<Rightarrow> sync_struct \<Rightarrow> sync_struct" where
  "SyncStruct_AddValue iIndex iKeyField strValue st =
     (if iIndex = 0
      then st\<lparr>stValue := SyncValue_AddValue iKeyField strValue (stValue st)\<rparr>
      else let rep = um_at (key_part iKeyField) SyncRepeated_default (mRepeated st);
               val = um_at iIndex [] (sr_mValue rep);
               rep = rep\<lparr>sr_mValue := AList.update iIndex (SyncValue_AddValue iKeyField strValue val)
                           (sr_mValue rep)\<rparr>
           in st\<lparr>mRepeated := AList.update (key_part iKeyField) rep (mRepeated st)\<rparr>)"

definition SyncStruct_RepeatedModify :: "u64 \<Rightarrow> u32 \<Rightarrow> bool \<Rightarrow> sync_struct \<Rightarrow> sync_struct" where
  "SyncStruct_RepeatedModify iIndex iRedisKey bAdd st =
     (let rep = um_at (key_part iRedisKey) SyncRepeated_default (mRepeated st) in
      st\<lparr>mRepeated := AList.update (key_part iRedisKey)
           (rep\<lparr>vChange := vChange rep @ [(iIndex, bAdd)]\<rparr>) (mRepeated st)\<rparr>)"


section \<open>The subscription manager\<close>

text \<open>Listeners are numbered; an unordered set is the list of its elements.\<close>

record redis_sub_mgr =
  m_mListen :: "(u32 \<times> nat) list"
  m_AllRedisKey :: "u32 list"
  m_listRedisKey :: "u32 list"

definition RedisSubMgr_init :: redis_sub_mgr where
  "RedisSubMgr_init = \<lparr> m_mListen = [], m_AllRedisKey = [], m_listRedisKey = [] \<rparr>"

definition RedisSubMgr_AddListen :: "u32 \<Rightarrow> nat \<Rightarrow> redis_sub_mgr \<Rightarrow> redis_sub_mgr" where
  "RedisSubMgr_AddListen iActorID pListen sub = sub\<lparr>m_mListen := om_put iActorID pListen (m_mListen sub)\<rparr>"

definition RedisSubMgr_RemoveListen :: "u32 \<Rightarrow> redis_sub_mgr \<Rightarrow> redis_sub_mgr" where
  "RedisSubMgr_RemoveListen iActorID sub =
     (if map_of (m_mListen sub) iActorID \<noteq> None
      then sub\<lparr>m_mListen := om_del iActorID (m_mListen sub)\<rparr> else sub)"

definition RedisSubMgr_AddRediskey :: "u32 list \<Rightarrow> redis_sub_mgr \<Rightarrow> redis_sub_mgr" where
  "RedisSubMgr_AddRediskey vRedisKey sub =
     fold (\<lambda>it sub. if it \<notin> set (m_AllRedisKey sub)
         then sub\<lparr>m_AllRedisKey := List.insert it (m_AllRedisKey sub),
                  m_listRedisKey := m_listRedisKey sub @ [it]\<rparr>
         else sub) vRedisKey sub"

definition RedisSubMgr_GetSubString :: "redis_sub_mgr \<Rightarrow> string \<times> redis_sub_mgr" where
  "RedisSubMgr_GetSubString sub =
     (let listTemp = m_listRedisKey sub; sub = sub\<lparr>m_listRedisKey := []\<rparr> in
      if listTemp = [] then ([], sub)
      else (''SUBSCRIBE '' @ concat (map (\<lambda>it. dec_of_nat (unat it) @ '' '') listTemp), sub))"


section \<open>Listeners\<close>

record redis_listen =
  m_vKey :: "u64 list"
  m_vRedisKey :: "u32 list"
  m_listSyncData :: "redis_sync_data list"

definition RedisListen_init :: redis_listen where
  "RedisListen_init = \<lparr> m_vKey = [], m_vRedisKey = [], m_listSyncData = [] \<rparr>"

text \<open>The keys of a stored message; only messages that were parsed are stored.\<close>

definition parsed_key :: "u64 option \<Rightarrow> u64" where
  "parsed_key k = (case k of None \<Rightarrow> 0 | Some v \<Rightarrow> v)"

definition RedisListen_Merge ::
  "u64 \<Rightarrow> u32 list \<Rightarrow> redis_listen \<Rightarrow> redis_sub_mgr \<Rightarrow> redis_listen \<times> redis_sub_mgr" where
  "RedisListen_Merge iKey vRedisKey l sub =
     (l\<lparr>m_vKey := List.insert iKey (m_vKey l), m_vRedisKey := fold List.insert vRedisKey (m_vRedisKey l)\<rparr>,
      RedisSubMgr_AddRediskey vRedisKey sub)"

definition RedisListen_AddSyncData :: "redis_sync_data list \<Rightarrow> redis_listen \<Rightarrow> redis_listen" where
  "RedisListen_AddSyncData listData l =
     fold (\<lambda>it l. if RedisKey it \<notin> set (m_vRedisKey l) \<or> parsed_key (Firstkey it) \<notin> set (m_vKey l) then l
                 else l\<lparr>m_listSyncData := m_listSyncData l @ [it]\<rparr>) listData l"

text \<open>One message exported into the map of changes by first key.\<close>

type_synonym sync_map = "(u64 \<times> sync_struct) list"

definition Export_one :: "redis_sync_data \<Rightarrow> sync_map \<Rightarrow> sync_map" where
  "Export_one it m =
     (let k = parsed_key (Firstkey it); i = parsed_key (SecondKey it); st = um_at k SyncStruct_default m in
      case sd_eType it of
        eAdd \<Rightarrow> AList.update k (SyncStruct_RepeatedModify i (RedisKey it) True st) m
      | eDelete \<Rightarrow> AList.update k (SyncStruct_RepeatedModify i (RedisKey it) True st) m
      | eSet \<Rightarrow> AList.update k
          (fold (\<lambda>itValue st. SyncStruct_AddValue i (RedisKey it) (snd itValue) st) (sd_mValue it) st) m
      | eNULL \<Rightarrow> m)"

definition RedisListen_ExportSyncData :: "redis_listen \<Rightarrow> sync_map \<Rightarrow> redis_listen \<times> sync_map" where
  "RedisListen_ExportSyncData l mSyncData =
     (l\<lparr>m_listSyncData := []\<rparr>, fold Export_one (m_listSyncData l) mSyncData)"

text \<open>
  One round of the subscription thread: the SUBSCRIBE command sent, if any, and the messages
  read (a parameter, they come from redis) handed to every listener.
\<close>

definition RedisSubMgr_poll ::
  "redis_sync_data list \<Rightarrow> redis_sub_mgr \<Rightarrow> (nat \<Rightarrow> redis_listen) \<Rightarrow>
   string option \<times> redis_sub_mgr \<times> (nat \<Rightarrow> redis_listen)" where
  "RedisSubMgr_poll listData sub ls =
     (let (strCmd, sub) = RedisSubMgr_GetSubString sub in
      (if strCmd \<noteq> [] then Some strCmd else None, sub,
       if 0 < length listData
       then fold (\<lambda>(_, p) ls. ls(p := RedisListen_AddSyncData listData (ls p))) (m_mListen sub) ls
       else ls))"


section \<open>Subscriptions\<close>

datatype sub_call = Call_add "u32 list" | Call_get

text \<open>A run of calls, and the keys of every SUBSCRIBE command it produced.\<close>

fun sub_run :: "sub_call list \<Rightarrow> redis_sub_mgr \<Rightarrow> u32 list \<times> redis_sub_mgr" where
  "sub_run [] sub = ([], sub)"
| "sub_run (Call_add ks # cs) sub = sub_run cs (RedisSubMgr_AddRediskey ks sub)"
| "sub_run (Call_get # cs) sub =
     (let (out, sub') = sub_run cs (snd (RedisSubMgr_GetSubString sub)) in (m_listRedisKey sub @ out, sub'))"

fun added_keys :: "sub_call list \<Rightarrow> u32 set" where
  "added_keys [] = {}"
| "added_keys (Call_add ks # cs) = set ks \<union> added_keys cs"
| "added_keys (Call_get # cs) = added_keys cs"

lemma AddRediskey_spec:
  "distinct (done_ks @ m_listRedisKey sub) \<Longrightarrow> set (m_AllRedisKey sub) = set (done_ks @ m_listRedisKey sub) \<Longrightarrow>
   (let s = RedisSubMgr_AddRediskey ks sub in
    distinct (done_ks @ m_listRedisKey s) \<and> set (m_AllRedisKey s) = set (done_ks @ m_listRedisKey s) \<and>
    set (m_AllRedisKey s) = set (m_AllRedisKey sub) \<union> set ks)"
proof (induction ks arbitrary: sub)
  case Nil
  then show ?case by (simp add: RedisSubMgr_AddRediskey_def)
next
  case (Cons k ks)
  let ?s = "if k \<notin> set (m_AllRedisKey sub)
      then sub\<lparr>m_AllRedisKey := List.insert k (m_AllRedisKey sub),
               m_listRedisKey := m_listRedisKey sub @ [k]\<rparr> else sub"
  have "RedisSubMgr_AddRediskey (k # ks) sub = RedisSubMgr_AddRediskey ks ?s"
    by (simp add: RedisSubMgr_AddRediskey_def)
  moreover have s: "distinct (done_ks @ m_listRedisKey ?s)"
      "set (m_AllRedisKey ?s) = set (done_ks @ m_listRedisKey ?s)"
      "set (m_AllRedisKey ?s) = insert k (set (m_AllRedisKey sub))"
    using Cons.prems by auto
  moreover have "set (m_AllRedisKey ?s) \<union> set ks = set (m_AllRedisKey sub) \<union> set (k # ks)"
    by (simp only: s(3)) simp
  ultimately show ?case using Cons.IH [OF s(1,2)] unfolding Let_def by metis
qed

lemma sub_run_spec:
  "distinct (done_ks @ m_listRedisKey sub) \<Longrightarrow> set (m_AllRedisKey sub) = set (done_ks @ m_listRedisKey sub) \<Longrightarrow>
   sub_run cs sub = (out, sub') \<Longrightarrow>
   distinct (done_ks @ out @ m_listRedisKey sub') \<and>
   set (done_ks @ out @ m_listRedisKey sub') = set (m_AllRedisKey sub) \<union> added_keys cs"
proof (induction cs sub arbitrary: done_ks out rule: sub_run.induct)
  case (1 sub)
  then show ?case by simp
next
  case (2 ks cs sub)
  from AddRediskey_spec [OF 2(2,3), of ks] 2(1) [of done_ks out] 2(4) show ?case
    by (auto simp: Let_def)
next
  case (3 cs sub)
  let ?s = "snd (RedisSubMgr_GetSubString sub)"
  have s: "m_listRedisKey ?s = []" "m_AllRedisKey ?s = m_AllRedisKey sub"
    by (simp_all add: RedisSubMgr_GetSubString_def Let_def)
  obtain o' where o': "sub_run cs ?s = (o', sub')" "out = m_listRedisKey sub @ o'"
    using 3(4) by (auto simp: Let_def split: prod.splits)
  have "distinct ((done_ks @ m_listRedisKey sub) @ m_listRedisKey ?s)"
    "set (m_AllRedisKey ?s) = set ((done_ks @ m_listRedisKey sub) @ m_listRedisKey ?s)"
    using 3(2,3) by (simp_all add: s)
  from 3(1) [OF this o'(1)] show ?case by (simp add: o' s)
qed

lemma GetSubString_text:
  "fst (RedisSubMgr_GetSubString sub) =
     (if m_listRedisKey sub = [] then []
      else ''SUBSCRIBE '' @ concat (map (\<lambda>it. dec_of_nat (unat it) @ '' '') (m_listRedisKey sub)))"
  by (simp add: RedisSubMgr_GetSubString_def Let_def)

text \<open>
  Subscriptions: in any run of key additions and SUBSCRIBE commands from the start, every
  key that was added is named in exactly one command, once, or still waits for the next one,
  and no other key is; a command lists the waiting keys in the order they were added.
\<close>

theorem subscribe_once:
  assumes "sub_run cs RedisSubMgr_init = (out, sub)"
  shows "distinct (out @ m_listRedisKey sub) \<and>
    set (out @ m_listRedisKey sub) = added_keys cs \<and>
    fst (RedisSubMgr_GetSubString sub) =
      (if m_listRedisKey sub = [] then []
       else ''SUBSCRIBE '' @ concat (map (\<lambda>it. dec_of_nat (unat it) @ '' '') (m_listRedisKey sub)))"
  using sub_run_spec [of "[]" RedisSubMgr_init cs out sub] assms GetSubString_text
  by (simp add: RedisSubMgr_init_def)

theorem subscribe_once_witness:
  "sub_run [Call_add [256, 512], Call_get, Call_add [512, 768]] RedisSubMgr_init =
     ([256, 512], \<lparr> m_mListen = [], m_AllRedisKey = [768, 512, 256], m_listRedisKey = [768] \<rparr>) \<and>
   distinct [256, 512, 768 :: u32]"
proof -
  have r: "sub_run [Call_add [256, 512], Call_get, Call_add [512, 768]] RedisSubMgr_init =
     ([256, 512], \<lparr> m_mListen = [], m_AllRedisKey = [768, 512, 256], m_listRedisKey = [768] \<rparr>)"
    by (simp add: RedisSubMgr_AddRediskey_def RedisSubMgr_GetSubString_def RedisSubMgr_init_def Let_def)
  from subscribe_once [OF r] r show ?thesis by simp
qed


section \<open>What is lost on export\<close>

lemma AddValue_twice:
  "SyncStruct_AddValue i f v (SyncStruct_AddValue i f w st) = SyncStruct_AddValue i f v st"
  by (simp add: SyncStruct_AddValue_def SyncValue_AddValue_def Let_def um_at_def update_conv')

lemma AddValue_fold:
  "SyncStruct_AddValue i f v (fold (\<lambda>x. SyncStruct_AddValue i f (snd x)) fs st) = SyncStruct_AddValue i f v st"
proof (induction fs arbitrary: st)
  case Nil
  then show ?case by simp
next
  case (Cons x fs)
  then show ?case by (simp add: AddValue_twice)
qed

text \<open>
  Exporting messages: a message that an element was deleted has the same effect as one
  that it was added; and a message that sets several fields has the effect of its last value
  alone, stored under the redis key instead of the field's index, whatever the fields were.
\<close>

theorem export_deletes_as_adds:
  "Export_one (d\<lparr>sd_eType := eDelete\<rparr>) m = Export_one (d\<lparr>sd_eType := eAdd\<rparr>) m \<and>
   Export_one (d\<lparr>sd_eType := eSet, sd_mValue := fs @ [(f, v)]\<rparr>) m =
     (let k = parsed_key (Firstkey d) in
      AList.update k (SyncStruct_AddValue (parsed_key (SecondKey d)) (RedisKey d) v
        (um_at k SyncStruct_default m)) m)"
  by (simp add: Export_one_def Let_def AddValue_fold)

end
