(* ===== verification/Redis_Wrap.thy ===== *)
theory Redis_Wrap
  imports Redis_Listening
begin

text \<open>
  \<open>RedisAdapter/RedisWrap.*\<close>: the connection to redis and the reading of its replies. The
  client library is not part of the sources modelled: its command function and the replies it
  reads are parameters, and a reply is a value of the type below, after \<open>redisReply\<close>.
\<close>

section \<open>Replies\<close>

datatype redis_reply =
    Reply_string string
  | Reply_array "redis_reply option list"
  | Reply_integer int
  | Reply_nil
  | Reply_status string
  | Reply_error string

text \<open>The member \<open>str\<close>, which is null in a reply that holds no text, and \<open>element\<close>.\<close>

fun reply_str :: "redis_reply option \<Rightarrow> string res" where
  "reply_str (Some (Reply_string s)) = Inr s"
| "reply_str (Some (Reply_status s)) = Inr s"
| "reply_str (Some (Reply_error s)) = Inr s"
| "reply_str _ = Inl Null_deref"

fun reply_elements :: "redis_reply option \<Rightarrow> redis_reply option list" where
  "reply_elements (Some (Reply_array es)) = es"
| "reply_elements _ = []"

text \<open>A loop whose body may throw, keeping the state reached: the fault, if any, and the state.\<close>

fun efold :: "('a \<Rightarrow> 's \<Rightarrow> fault option \<times> 's) \<Rightarrow> 'a list \<Rightarrow> 's \<Rightarrow> fault option \<times> 's" where
  "efold f [] s = (None, s)"
| "efold f (x # xs) s =
     (case f x s of (Some e, s) \<Rightarrow> (Some e, s) | (None, s) \<Rightarrow> efold f xs s)"

type_synonym 'r redis_command = "string \<Rightarrow> 'r \<Rightarrow> redis_reply option \<times> 'r"


section \<open>The connection\<close>

text \<open>
  \<open>m_bBlock\<close> is not written by the constructor. The context and the thread are seen by whether
  the pointers are set.
\<close>

record redis_wrap =
  m_bBlock :: "bool option"
  m_strHost :: string
  m_iPort :: u32
  m_iTimeOutMS :: u32
  m_pContext :: bool
  m_pThread :: bool
  m_RunFlag :: bool

definition RedisWrap_make :: "bool \<Rightarrow> redis_wrap" where
  "RedisWrap_make run_flag =
     \<lparr> m_bBlock = None, m_strHost = [], m_iPort = 0, m_iTimeOutMS = 0, m_pContext = False,
       m_pThread = False, m_RunFlag = run_flag \<rparr>"

text \<open>
  \<open>redisConnect\<close> and \<open>redisConnectNonBlock\<close> are parameters: whether they return a context.
  The time-out given to \<open>redisSetTimeout\<close> is the second component (a \<open>long\<close> has 32 bits here).
\<close>

definition RedisWrap_Connect ::
  "(string \<Rightarrow> u32 \<Rightarrow> bool) \<Rightarrow> (string \<Rightarrow> u32 \<Rightarrow> bool) \<Rightarrow> redis_wrap \<Rightarrow>
   (bool \<times> (int \<times> int) option \<times> redis_wrap) res" where
  "RedisWrap_Connect redisConnect redisConnectNonBlock w =
     (case m_bBlock w of
        None \<Rightarrow> Inl Uninitialised
      | Some b \<Rightarrow>
          (let w = w\<lparr>m_pContext := (if b then redisConnect (m_strHost w) (m_iPort w)
                                   else redisConnectNonBlock (m_strHost w) (m_iPort w))\<rparr> in
           if \<not> m_pContext w then Inr (False, None, w)
           else Inr (True, Some (c_div (sint (m_iTimeOutMS w)) 1000, uint (m_iTimeOutMS w mod 1000) * 1000), w)))"

definition RedisWrap_Init ::
  "(string \<Rightarrow> u32 \<Rightarrow> bool) \<Rightarrow> (string \<Rightarrow> u32 \<Rightarrow> bool) \<Rightarrow> string \<Rightarrow> u32 \<Rightarrow> bool \<Rightarrow> u32 \<Rightarrow>
   redis_wrap \<Rightarrow> (bool \<times> (int \<times> int) option \<times> redis_wrap) res" where
  "RedisWrap_Init redisConnect redisConnectNonBlock strHost iPort bBlock iTimeOutMS w =
     (if m_pContext w \<or> m_pThread w then Inr (False, None, w)
      else RedisWrap_Connect redisConnect redisConnectNonBlock
        (w\<lparr>m_strHost := strHost, m_iPort := iPort, m_bBlock := Some bBlock, m_iTimeOutMS := iTimeOutMS\<rparr>))"

definition RedisWrap_SetThreadFunc :: "redis_wrap \<Rightarrow> (bool \<times> redis_wrap) res" where
  "RedisWrap_SetThreadFunc w =
     (case m_bBlock w of
        None \<Rightarrow> Inl Uninitialised
      | Some b \<Rightarrow> if b \<or> m_pThread w then Inr (False, w)
                  else Inr (True, w\<lparr>m_RunFlag := True, m_pThread := True\<rparr>))"

definition RedisWrap_Stop :: "redis_wrap \<Rightarrow> redis_wrap res" where
  "RedisWrap_Stop w =
     (case m_bBlock w of
        None \<Rightarrow> Inl Uninitialised
      | Some b \<Rightarrow>
          (let w = (if \<not> b \<and> m_pThread w then w\<lparr>m_RunFlag := False\<rparr> else w);
               w = (if m_pContext w then w\<lparr>m_pContext := False\<rparr> else w);
               w = (if m_pThread w then w\<lparr>m_pThread := False\<rparr> else w)
           in Inr w))"


section \<open>Commands\<close>

text \<open>\<open>DoCmd\<close> also prints the command and, for an error reply, the error.\<close>

definition RedisWrap_DoCmd :: "'r redis_command \<Rightarrow> string \<Rightarrow> 'r \<Rightarrow> redis_reply option \<times> 'r" where
  "RedisWrap_DoCmd redisCommand strCmd r = redisCommand strCmd r"

definition RedisWrap_Execute :: "'r redis_command \<Rightarrow> string \<Rightarrow> 'r \<Rightarrow> 'r" where
  "RedisWrap_Execute redisCommand strCmd r = snd (RedisWrap_DoCmd redisCommand strCmd r)"

text \<open>
  \<open>Load\<close> into values: which value is given which text, in order, and the values left in the
  list. Taking the front of an empty list is a fault.
\<close>

fun Load_elements :: "redis_reply option list \<Rightarrow> 'v list \<Rightarrow> (('v \<times> string) list \<times> 'v list) res" where
  "Load_elements [] listValue = Inr ([], listValue)"
| "Load_elements (e # es) [] = Inl Empty_pop"
| "Load_elements (e # es) (pValue # listValue) =
     rbind (Load_elements es listValue) (\<lambda>(syncs, left).
       Inr ((case e of Some (Reply_string s) \<Rightarrow> (pValue, s) # syncs | _ \<Rightarrow> syncs), left))"

definition RedisWrap_Load ::
  "'r redis_command \<Rightarrow> string \<Rightarrow> 'v list \<Rightarrow> 'r \<Rightarrow> (('v \<times> string) list \<times> 'v list) res \<times> 'r" where
  "RedisWrap_Load redisCommand strQuery listValue r =
     (let (pResult, r) = RedisWrap_DoCmd redisCommand strQuery r in
      (case pResult of
         Some (Reply_array es) \<Rightarrow> Load_elements es listValue
       | _ \<Rightarrow> Inr ([], listValue), r))"

definition RedisWrap_Load_strings ::
  "'r redis_command \<Rightarrow> string \<Rightarrow> string list \<Rightarrow> 'r \<Rightarrow> string list \<times> 'r" where
  "RedisWrap_Load_strings redisCommand strQuery listValue r =
     (let (pResult, r) = RedisWrap_DoCmd redisCommand strQuery r in
      (case pResult of
         Some (Reply_array es) \<Rightarrow>
           listValue @ map (\<lambda>e. case e of Some (Reply_string s) \<Rightarrow> s | _ \<Rightarrow> []) es
       | _ \<Rightarrow> listValue, r))"

text \<open>One SCAN: the keys of the table that are texts, less the prefix, and the next cursor.\<close>

fun Scan_table :: "string \<Rightarrow> redis_reply option list \<Rightarrow> u64 list \<Rightarrow> u64 list res" where
  "Scan_table strkey [] listKey = Inr listKey"
| "Scan_table strkey (Some (Reply_string s) # es) listKey =
     rbind (GetKey64 s strkey) (\<lambda>k. Scan_table strkey es (listKey @ [k]))"
| "Scan_table strkey (_ # es) listKey = Scan_table strkey es listKey"

definition RedisWrap_ScanKey ::
  "'r redis_command \<Rightarrow> string \<Rightarrow> string \<Rightarrow> u64 list \<Rightarrow> 'r \<Rightarrow> (u32 \<times> u64 list) res \<times> 'r" where
  "RedisWrap_ScanKey redisCommand strScan strkey listKey r =
     (let (pResult, r) = RedisWrap_DoCmd redisCommand strScan r in
      (case pResult of
         Some (Reply_array es) \<Rightarrow>
           (if length es < 2 then Inr (0, listKey)
            else rbind (reply_str (es ! 0)) (\<lambda>s.
              (case es ! 1 of
                 None \<Rightarrow> Inl Null_deref
               | pTable \<Rightarrow> rbind (Scan_table strkey (reply_elements pTable) listKey)
                   (\<lambda>listKey. Inr (of_int (atoi s), listKey)))))
       | _ \<Rightarrow> Inr (0, listKey), r))"

text \<open>The scan loop ends when the cursor is 0 again; \<open>None\<close> is a loop that does not end.\<close>

partial_function (option) Scan_loop ::
  "'r redis_command \<Rightarrow> string \<Rightarrow> string \<Rightarrow> u32 \<Rightarrow> u64 list \<Rightarrow> 'r \<Rightarrow> (u64 list res \<times> 'r) option" where
  "Scan_loop redisCommand strMatch strKey iIndex listOut r =
     (case RedisWrap_ScanKey redisCommand (''SCAN '' @ dec_of_nat (unat iIndex) @ strMatch) strKey listOut r of
        (Inl e, r) \<Rightarrow> Some (Inl e, r)
      | (Inr (iIndex, listOut), r) \<Rightarrow>
          (if iIndex = 0 then Some (Inr listOut, r)
           else Scan_loop redisCommand strMatch strKey iIndex listOut r))"

text \<open>
  The overload that scans all pages collects into a local list, which is dropped: \<open>listKey\<close>
  is returned as it was given.
\<close>

definition RedisWrap_ScanKey_all ::
  "'r redis_command \<Rightarrow> u64 \<Rightarrow> string \<Rightarrow> u64 list \<Rightarrow> 'r \<Rightarrow> (u64 list res \<times> 'r) option" where
  "RedisWrap_ScanKey_all redisCommand i64Key strKeyName listKey r =
     (let strKey = strKeyName @ '':'' @ dec_of_nat (unat i64Key) @ '':'';
          ssMatch = '' MATCH '' @ strKey @ ''*'' in
      map_option (\<lambda>(out, r). (map_sum id (\<lambda>_. listKey) out, r))
        (Scan_loop redisCommand ssMatch strKey 0 [] r))"

text \<open>
  \<open>AsyncCommand\<close> appends the command to the output buffer and writes until the buffer is
  empty or a write fails: the outcomes of the writes are given, each a failure or whether
  the buffer is empty.
\<close>

fun AsyncCommand_writes :: "bool option list \<Rightarrow> nat option" where
  "AsyncCommand_writes [] = None"
| "AsyncCommand_writes (None # ws) = Some 1"
| "AsyncCommand_writes (Some iDone # ws) =
     (if iDone then Some 1 else map_option Suc (AsyncCommand_writes ws))"

text \<open>
  \<open>ReadSyncData\<close>, on the replies the client has ready (a null reply or an error ends the list):
  the flag it returns and the messages read; up to ten per call.
\<close>

fun ReadSyncData ::
  "redis_reply list \<Rightarrow> redis_sync_data list \<Rightarrow> (bool \<times> redis_sync_data list \<times> redis_reply list) res" where
  "ReadSyncData [] listData = Inr (True, listData, [])"
| "ReadSyncData (pReply # rest) listData =
     (case pReply of
        Reply_array es \<Rightarrow>
          (if length es \<noteq> 3 then ReadSyncData rest listData
           else rbind (reply_str (es ! 0)) (\<lambda>kind.
             if kind \<noteq> ''message'' then ReadSyncData rest listData
             else rbind (reply_str (es ! 1)) (\<lambda>key.
               rbind (reply_str (es ! 2)) (\<lambda>text.
               rbind (RedisSyncData_Parse text (RedisSyncData_make (of_int (atoi key)))) (\<lambda>(ok, d).
                 (let listData = (if ok then listData @ [d] else listData) in
                  if 10 \<le> length listData then Inr (False, listData, rest)
                  else ReadSyncData rest listData))))))
      | _ \<Rightarrow> ReadSyncData rest listData)"


section \<open>Scanning all keys\<close>

text \<open>
  A server that answers SCAN: \<open>page c\<close> is the next cursor and the numbers of the keys of the
  page at cursor \<open>c\<close>, and a chain of cursors from \<open>c\<close> leads back to 0.
\<close>

definition scan_reply :: "string \<Rightarrow> nat \<times> nat list \<Rightarrow> redis_reply option" where
  "scan_reply strKey = (\<lambda>(c, ks). Some (Reply_array [Some (Reply_string (dec_of_nat c)),
     Some (Reply_array (map (\<lambda>k. Some (Reply_string (strKey @ dec_of_nat k))) ks))]))"

inductive scan_chain :: "(nat \<Rightarrow> nat \<times> nat list) \<Rightarrow> nat \<Rightarrow> nat list \<Rightarrow> bool" for page where
  last_page: "page c = (0, ks) \<Longrightarrow> scan_chain page c ks"
| next_page: "page c = (c', ks) \<Longrightarrow> 0 < c' \<Longrightarrow> scan_chain page c' ks' \<Longrightarrow> scan_chain page c (ks @ ks')"

definition scan_server ::
  "'r redis_command \<Rightarrow> string \<Rightarrow> (nat \<Rightarrow> nat \<times> nat list) \<Rightarrow> 'r \<Rightarrow> bool" where
  "scan_server redisCommand strKey page r \<longleftrightarrow>
     (\<forall>c. redisCommand (''SCAN '' @ dec_of_nat c @ '' MATCH '' @ strKey @ ''*'') r =
        (scan_reply strKey (page c), r)) \<and>
     (\<forall>c. fst (page c) < 2 ^ 31 \<and> (\<forall>k \<in> set (snd (page c)). k < 2 ^ 63))"

lemma GetKey64_dec: "k < 2 ^ 63 \<Longrightarrow> GetKey64 (strKey @ dec_of_nat k) strKey = Inr (of_nat k)"
proof -
  assume k: "k < 2 ^ 63"
  have "SubString (strKey @ dec_of_nat k) strKey = Some (dec_of_nat k)"
    by (simp add: SubString_iff)
  moreover have "atoi64 (dec_of_nat k) = int k"
    using k by (simp add: atoi64_def clamp_unat [of 64, THEN iffD2])
  ultimately show ?thesis by (simp add: GetKey64_def)
qed

lemma Scan_table_dec:
  "\<forall>k \<in> set ks. k < 2 ^ 63 \<Longrightarrow>
     Scan_table strKey (map (\<lambda>k. Some (Reply_string (strKey @ dec_of_nat k))) ks) out =
       Inr (out @ map of_nat ks)"
  by (induction ks arbitrary: out) (simp_all add: GetKey64_dec)

lemma ScanKey_page:
  assumes "scan_server redisCommand strKey page r" and "page c = (c', ks)"
  shows "RedisWrap_ScanKey redisCommand (''SCAN '' @ dec_of_nat c @ '' MATCH '' @ strKey @ ''*'')
      strKey out r = (Inr (of_nat c', out @ map of_nat ks), r)"
proof -
  have "c' < 2 ^ 31" "\<forall>k \<in> set ks. k < 2 ^ 63"
    using assms by (auto simp: scan_server_def dest: spec [of _ c])
  moreover have "redisCommand (''SCAN '' @ dec_of_nat c @ '' MATCH '' @ strKey @ ''*'') r =
      (scan_reply strKey (c', ks), r)"
    using assms by (auto simp: scan_server_def)
  ultimately show ?thesis
    by (simp only: RedisWrap_ScanKey_def RedisWrap_DoCmd_def Let_def split scan_reply_def)
       (simp add: Scan_table_dec atoi_def clamp_unat [of 32, THEN iffD2])
qed

lemma Scan_loop_chain:
  assumes "scan_chain page c ks" and "scan_server redisCommand strKey page r" and "c < 2 ^ 31"
  shows "Scan_loop redisCommand ('' MATCH '' @ strKey @ ''*'') strKey (of_nat c) out r =
    Some (Inr (out @ map of_nat ks), r)"
  using assms(1,3)
proof (induction arbitrary: out rule: scan_chain.induct)
  case (last_page c ks)
  then have "unat (of_nat c :: u32) = c" by (simp add: unat_of_nat)
  then show ?case
    using ScanKey_page [OF assms(2) last_page(1), of out] by (subst Scan_loop.simps) simp
next
  case (next_page c c' ks ks')
  have c: "unat (of_nat c :: u32) = c" using next_page(5) by (simp add: unat_of_nat)
  have c': "c' < 2 ^ 31" using assms(2) next_page(1) by (auto simp: scan_server_def dest: spec [of _ c])
  then have "unat (of_nat c' :: u32) = c'" by (simp add: unat_of_nat)
  then have "of_nat c' \<noteq> (0 :: u32)" using next_page(2) by (metis neq0_conv unsigned_0)
  then show ?case
    using ScanKey_page [OF assms(2) next_page(1), of out] next_page(4) [OF c'] c
    by (subst Scan_loop.simps) simp
qed

end
