(* ===== verification/Redis_Adapter.thy ===== *)
theory Redis_Adapter
  imports Redis_Wrap
begin

text \<open>
  \<open>RedisAdapter/RedisAdapter.*\<close>, the implementation of \<open>TData/IDataAdapter.h\<close>: loading and
  saving the values of a structure as fields of redis hashes, collecting changes, and the
  keys of repeated elements.
\<close>

section \<open>State\<close>

text \<open>
  A value is seen by its field index and its text; a \<open>ValueMap\<close> is keyed by field index. The
  structures registered with an adapter are numbered.
\<close>

record ivalue =
  iv_KeyField :: u32
  iv_text :: string

type_synonym value_map = "(u32 \<times> ivalue) list"

record redis_adapter =
  m_pRedisWarp :: bool
  m_Buffer :: redis_buffer
  m_Listen :: redis_listen
  m_iActorId :: u32
  m_AllData :: "(u64 \<times> nat list) list"

text \<open>An adapter with the state it shares: the subscription manager and redis.\<close>

record 'r world =
  w_adapter :: redis_adapter
  w_sub :: redis_sub_mgr
  w_redis :: 'r

definition RedisAdapter_make :: redis_adapter where
  "RedisAdapter_make =
     \<lparr> m_pRedisWarp = False, m_Buffer = [], m_Listen = RedisListen_init, m_iActorId = 0, m_AllData = [] \<rparr>"

text \<open>\<open>pListen\<close> stands for the address of the adapter's listener.\<close>

definition RedisAdapter_Init :: "u32 \<Rightarrow> nat \<Rightarrow> 'r world \<Rightarrow> 'r world" where
  "RedisAdapter_Init iActorId pListen w =
     (let w = w\<lparr>w_adapter := (w_adapter w)\<lparr>m_iActorId := iActorId\<rparr>\<rparr> in
      if 0 < iActorId then w\<lparr>w_sub := RedisSubMgr_AddListen iActorId pListen (w_sub w)\<rparr> else w)"

definition RedisAdapter_destroy :: "'r world \<Rightarrow> 'r world" where
  "RedisAdapter_destroy w =
     (if m_iActorId (w_adapter w) \<noteq> 0
      then w\<lparr>w_sub := RedisSubMgr_RemoveListen (m_iActorId (w_adapter w)) (w_sub w)\<rparr> else w)"

definition RedisAdapter_SetRedisWrap :: "bool \<Rightarrow> 'r world \<Rightarrow> 'r world" where
  "RedisAdapter_SetRedisWrap pWrap w = w\<lparr>w_adapter := (w_adapter w)\<lparr>m_pRedisWarp := pWrap\<rparr>\<rparr>"

text \<open>
  \<open>SyncData\<close> goes through a map it has just made: the structures synchronised, in order, with
  their changes.
\<close>

definition RedisAdapter_SyncData :: "redis_adapter \<Rightarrow> (nat \<times> sync_struct) list" where
  "RedisAdapter_SyncData a =
     (let mSyncData = ([] :: sync_map) in
      concat (map (\<lambda>(k, st). case map_of (m_AllData a) k of
          Some structs \<Rightarrow> map (\<lambda>p. (p, st)) structs
        | None \<Rightarrow> []) mSyncData))"

definition RedisAdapter_RegistStruct :: "u64 \<Rightarrow> nat \<Rightarrow> 'r world \<Rightarrow> 'r world" where
  "RedisAdapter_RegistStruct key p w =
     (let a = w_adapter w in w\<lparr>w_adapter := a\<lparr>m_AllData :=
        AList.update key (List.insert p (um_at key [] (m_AllData a))) (m_AllData a)\<rparr>\<rparr>)"

definition RedisAdapter_UnRegistStruct :: "u64 \<Rightarrow> nat \<Rightarrow> 'r world \<Rightarrow> 'r world" where
  "RedisAdapter_UnRegistStruct key p w =
     (let a = w_adapter w in w\<lparr>w_adapter := a\<lparr>m_AllData :=
        AList.update key (removeAll p (um_at key [] (m_AllData a))) (m_AllData a)\<rparr>\<rparr>)"


section \<open>Changes\<close>

definition RedisAdapter_SetValue :: "u64 \<Rightarrow> ivalue \<Rightarrow> 'r world \<Rightarrow> 'r world" where
  "RedisAdapter_SetValue iKey pValue w =
     (let a = w_adapter w in w\<lparr>w_adapter := a\<lparr>m_Buffer :=
        RedisBuffer_AddValueChange iKey 0 (iv_KeyField pValue) (iv_text pValue) (m_Buffer a)\<rparr>\<rparr>)"

definition RedisAdapter_SetValue_index :: "u64 \<Rightarrow> u64 \<Rightarrow> ivalue \<Rightarrow> 'r world \<Rightarrow> 'r world" where
  "RedisAdapter_SetValue_index iKey iIndex pValue w =
     (let a = w_adapter w in w\<lparr>w_adapter := a\<lparr>m_Buffer :=
        RedisBuffer_AddValueChange iKey 0 (iv_KeyField pValue) (iv_text pValue) (m_Buffer a)\<rparr>\<rparr>)"

text \<open>
  \<open>PubAndSet\<close> executes every command the buffer emits; without a connection the first one
  dereferences a null pointer.
\<close>

definition RedisAdapter_PubAndSet ::
  "'r redis_command \<Rightarrow> key_field_mgr \<Rightarrow> 'r world \<Rightarrow> fault option \<times> 'r world" where
  "RedisAdapter_PubAndSet redisCommand mgr w =
     (let a = w_adapter w; ((cmds, e), buf) = RedisBuffer_Batch mgr (m_Buffer a) in
      if cmds \<noteq> [] \<and> \<not> m_pRedisWarp a then (Some Null_deref, w)
      else (e, w\<lparr>w_redis := fold (RedisWrap_Execute redisCommand) cmds (w_redis w),
                w_adapter := a\<lparr>m_Buffer := buf\<rparr>\<rparr>))"


section \<open>Loading and saving\<close>

definition group_values :: "value_map \<Rightarrow> (u32 \<times> ivalue list) list" where
  "group_values mValue =
     fold (\<lambda>(k, v) m. om_put (key_part k) (om_at (key_part k) [] m @ [v]) m) mValue []"

definition name_or :: "string \<Rightarrow> string option \<Rightarrow> string res" where
  "name_or msg n = (case n of None \<Rightarrow> Inl (Throw msg) | Some s \<Rightarrow> Inr s)"

definition no_key :: string where "no_key = ''can't find redis key name!''"
definition no_field :: string where "no_field = ''can't find redis Field name!''"
definition no_name :: string where "no_name = ''can't find redis key field name!''"
definition no_wrap :: string where "no_wrap = ''None RedisWarp set!!!!''"

text \<open>The fields of a group, each followed by a space; with their texts for saving.\<close>

definition query_fields :: "string \<Rightarrow> key_field_mgr \<Rightarrow> ivalue list \<Rightarrow> string \<Rightarrow> string res" where
  "query_fields msg mgr = rfold (\<lambda>v ss.
     rbind (name_or msg (FindField mgr (iv_KeyField v))) (\<lambda>sField. Inr (ss @ sField @ '' '')))"

definition save_values :: "key_field_mgr \<Rightarrow> ivalue list \<Rightarrow> string \<Rightarrow> string res" where
  "save_values mgr = rfold (\<lambda>v ss.
     rbind (name_or no_field (FindField mgr (iv_KeyField v)))
       (\<lambda>sField. Inr (ss @ sField @ '' '' @ iv_text v @ '' '')))"

text \<open>
  One group of \<open>Load\<close>: the values synchronised so far with their texts, the redis keys met so
  far, and the world. \<open>suffix\<close> is what follows the key's name.
\<close>

type_synonym 'r loading = "(ivalue \<times> string) list \<times> u32 list \<times> 'r world"

definition Load_group ::
  "'r redis_command \<Rightarrow> key_field_mgr \<Rightarrow> string \<Rightarrow> string \<Rightarrow> string \<Rightarrow> u32 \<times> ivalue list \<Rightarrow>
   'r loading \<Rightarrow> fault option \<times> 'r loading" where
  "Load_group redisCommand mgr msgKey msgField suffix = (\<lambda>(rk, vs) (syncs, added, w).
     case name_or msgKey (FindKey mgr rk) of
       Inl e \<Rightarrow> (Some e, syncs, added, w)
     | Inr sKey \<Rightarrow>
         (let added = List.insert rk added in
          case query_fields msgField mgr vs (''HMGET '' @ sKey @ suffix @ '' '') of
            Inl e \<Rightarrow> (Some e, syncs, added, w)
          | Inr ssQuery \<Rightarrow>
              if \<not> m_pRedisWarp (w_adapter w) then (Some (Throw no_wrap), syncs, added, w)
              else (case RedisWrap_Load redisCommand ssQuery vs (w_redis w) of
                  (Inl e, r) \<Rightarrow> (Some e, syncs, added, w\<lparr>w_redis := r\<rparr>)
                | (Inr (new, left), r) \<Rightarrow> (None, syncs @ new, added, w\<lparr>w_redis := r\<rparr>))))"

definition Load_all ::
  "'r redis_command \<Rightarrow> key_field_mgr \<Rightarrow> string \<Rightarrow> string \<Rightarrow> string \<Rightarrow> u64 \<Rightarrow> value_map \<Rightarrow>
   'r world \<Rightarrow> fault option \<times> (ivalue \<times> string) list \<times> 'r world" where
  "Load_all redisCommand mgr msgKey msgField suffix iKey mValue w =
     (case efold (Load_group redisCommand mgr msgKey msgField suffix) (group_values mValue) ([], [], w) of
        (Some e, syncs, added, w) \<Rightarrow> (Some e, syncs, w)
      | (None, syncs, added, w) \<Rightarrow>
          (let (l, sub) = RedisListen_Merge iKey added (m_Listen (w_adapter w)) (w_sub w) in
           (None, syncs, w\<lparr>w_adapter := (w_adapter w)\<lparr>m_Listen := l\<rparr>, w_sub := sub\<rparr>)))"

definition key_suffix :: "u64 \<Rightarrow> string" where
  "key_suffix iKey = '':'' @ dec_of_nat (unat iKey)"

definition key_index_suffix :: "u64 \<Rightarrow> u64 \<Rightarrow> string" where
  "key_index_suffix iKey iIndex = '':'' @ dec_of_nat (unat iKey) @ '':'' @ dec_of_nat (unat iIndex)"

definition RedisAdapter_Load ::
  "'r redis_command \<Rightarrow> key_field_mgr \<Rightarrow> u64 \<Rightarrow> value_map \<Rightarrow> 'r world \<Rightarrow>
   fault option \<times> (ivalue \<times> string) list \<times> 'r world" where
  "RedisAdapter_Load redisCommand mgr iKey mValue w =
     Load_all redisCommand mgr no_name no_name (key_suffix iKey) iKey mValue w"

definition RedisAdapter_Load_index ::
  "'r redis_command \<Rightarrow> key_field_mgr \<Rightarrow> u64 \<Rightarrow> u64 \<Rightarrow> value_map \<Rightarrow> 'r world \<Rightarrow>
   fault option \<times> (ivalue \<times> string) list \<times> 'r world" where
  "RedisAdapter_Load_index redisCommand mgr iKey iIndex mValue w =
     Load_all redisCommand mgr no_key no_field (key_index_suffix iKey iIndex) iKey mValue w"

text \<open>
  Saving a structure's own values throws when the key's name is found, and writes a null
  pointer to the stream when it is not.
\<close>

definition Save_group ::
  "'r redis_command \<Rightarrow> key_field_mgr \<Rightarrow> u64 \<Rightarrow> u32 \<times> ivalue list \<Rightarrow> 'r world \<Rightarrow> fault option \<times> 'r world" where
  "Save_group redisCommand mgr iKey = (\<lambda>(rk, vs) w.
     if FindKey mgr rk \<noteq> None then (Some (Throw no_key), w) else (Some Null_deref, w))"

definition RedisAdapter_Save ::
  "'r redis_command \<Rightarrow> key_field_mgr \<Rightarrow> u64 \<Rightarrow> value_map \<Rightarrow> 'r world \<Rightarrow> fault option \<times> 'r world" where
  "RedisAdapter_Save redisCommand mgr iKey mValue w =
     efold (Save_group redisCommand mgr iKey) (group_values mValue) w"

definition Save_group_index ::
  "'r redis_command \<Rightarrow> key_field_mgr \<Rightarrow> string \<Rightarrow> u32 \<times> ivalue list \<Rightarrow> 'r world \<Rightarrow> fault option \<times> 'r world" where
  "Save_group_index redisCommand mgr suffix = (\<lambda>(rk, vs) w.
     case name_or no_key (FindKey mgr rk) of
       Inl e \<Rightarrow> (Some e, w)
     | Inr sKey \<Rightarrow>
         (case save_values mgr vs (''HMSET '' @ sKey @ suffix @ '' '') of
            Inl e \<Rightarrow> (Some e, w)
          | Inr ssSave \<Rightarrow>
              if \<not> m_pRedisWarp (w_adapter w) then (Some (Throw no_wrap), w)
              else (None, w\<lparr>w_redis := RedisWrap_Execute redisCommand ssSave (w_redis w)\<rparr>)))"

definition RedisAdapter_Save_index ::
  "'r redis_command \<Rightarrow> key_field_mgr \<Rightarrow> u64 \<Rightarrow> u64 \<Rightarrow> value_map \<Rightarrow> 'r world \<Rightarrow> fault option \<times> 'r world" where
  "RedisAdapter_Save_index redisCommand mgr iKey iIndex mValue w =
     efold (Save_group_index redisCommand mgr (key_index_suffix iKey iIndex)) (group_values mValue) w"


section \<open>Repeated elements\<close>

definition RedisAdapter_GetAllKey ::
  "'r redis_command \<Rightarrow> key_field_mgr \<Rightarrow> u64 \<Rightarrow> u32 \<Rightarrow> 'r world \<Rightarrow> (u64 list res \<times> 'r world) option" where
  "RedisAdapter_GetAllKey redisCommand mgr i64Key iRediskey w =
     (case FindKey mgr iRediskey of
        None \<Rightarrow> Some (Inl (Throw no_key), w)
      | Some sKey \<Rightarrow>
          if \<not> m_pRedisWarp (w_adapter w) then Some (Inl (Throw no_wrap), w)
          else (let strKey = sKey @ '':'' @ dec_of_nat (unat i64Key) @ '':'' in
                map_option (\<lambda>(out, r). (out, w\<lparr>w_redis := r\<rparr>))
                  (Scan_loop redisCommand ('' MATCH '' @ strKey @ ''*'') strKey 0 [] (w_redis w))))"

definition RedisAdapter_AddRepeated ::
  "'r redis_command \<Rightarrow> u64 \<Rightarrow> u64 \<Rightarrow> u32 \<Rightarrow> 'r world \<Rightarrow> fault option \<times> 'r world" where
  "RedisAdapter_AddRepeated redisCommand i64Key i64Index iRedisKey w =
     (if \<not> m_pRedisWarp (w_adapter w) then (Some Null_deref, w)
      else (None, w\<lparr>w_redis := RedisWrap_Execute redisCommand
        (''publish '' @ dec_of_nat (unat iRedisKey) @ '' A|'' @ dec_of_nat (unat i64Key) @ ''|''
           @ dec_of_nat (unat i64Index)) (w_redis w)\<rparr>))"

definition RedisAdapter_RemoveRepeated ::
  "'r redis_command \<Rightarrow> key_field_mgr \<Rightarrow> u64 \<Rightarrow> u64 \<Rightarrow> u32 \<Rightarrow> 'r world \<Rightarrow> fault option \<times> 'r world" where
  "RedisAdapter_RemoveRepeated redisCommand mgr i64Key i64Index iRedisKey w =
     (case CheckKeyFiled (FindKey mgr iRedisKey) of
        Inl e \<Rightarrow> (Some e, w)
      | Inr sKey \<Rightarrow>
          if \<not> m_pRedisWarp (w_adapter w) then (Some Null_deref, w)
          else (let del = ''DEL '' @ sKey @ '':'' @ dec_of_nat (unat i64Key) @ '':'' @ dec_of_nat (unat i64Index);
                    pub = ''publish '' @ dec_of_nat (unat iRedisKey) @ '' D|'' @ dec_of_nat (unat i64Key)
                            @ ''|'' @ dec_of_nat (unat i64Index)
                in (None, w\<lparr>w_redis := RedisWrap_Execute redisCommand pub
                      (RedisWrap_Execute redisCommand del (w_redis w))\<rparr>)))"


section \<open>Groups\<close>

definition group_inv :: "ivalue set \<Rightarrow> (u32 \<times> ivalue list) list \<Rightarrow> bool" where
  "group_inv V m \<longleftrightarrow> om_wf m \<and> \<Union> (set ` snd ` set m) = V \<and>
     (\<forall>rk vs. (rk, vs) \<in> set m \<longrightarrow> vs \<noteq> [] \<and> (\<forall>v \<in> set vs. key_part (iv_KeyField v) = rk))"

lemma group_inv_put:
  assumes "group_inv V m" and "key_part (iv_KeyField v) = k"
  shows "group_inv (insert v V) (om_put k (om_at k [] m @ [v]) m)"
proof -
  have wf: "om_wf m" using assms(1) by (simp add: group_inv_def)
  have "\<Union> (set ` snd ` set (om_put k (om_at k [] m @ [v]) m)) = insert v V"
  proof (cases "map_of m k")
    case None
    then have "k \<notin> fst ` set m" by (simp add: map_of_eq_None_iff)
    then have "{x \<in> set m. fst x \<noteq> k} = set m" by force
    with assms(1) None show ?thesis by (auto simp: set_om_put [OF wf] om_at_def group_inv_def)
  next
    case (Some vs)
    then have "(k, vs) \<in> set m" by (simp add: om_mem [OF wf])
    moreover have "x = (k, vs)" if "x \<in> set m" "fst x = k" for x
      using that Some om_mem [OF wf] by (metis option.inject prod.collapse)
    ultimately have "set m = insert (k, vs) {x \<in> set m. fst x \<noteq> k}" by blast
    then have "\<Union> (set ` snd ` set m) = set vs \<union> \<Union> (set ` snd ` {x \<in> set m. fst x \<noteq> k})"
      by (metis (no_types, lifting) image_insert snd_conv Union_insert)
    with assms(1) Some show ?thesis by (auto simp: set_om_put [OF wf] om_at_def group_inv_def)
  qed
  moreover have "\<forall>x \<in> set (om_at k [] m). key_part (iv_KeyField x) = k"
    using assms(1) by (cases "map_of m k") (auto simp: om_at_def group_inv_def dest: map_of_SomeD)
  ultimately show ?thesis
    using assms by (auto simp: group_inv_def set_om_put [OF wf])
qed

lemma group_values_inv:
  assumes "\<forall>(k, v) \<in> set mValue. iv_KeyField v = k"
  shows "group_inv (snd ` set mValue) (group_values mValue)"
proof -
  have "group_inv (V \<union> snd ` set kvs) (fold (\<lambda>(k, v) m. om_put (key_part k) (om_at (key_part k) [] m @ [v]) m) kvs m)"
    if "group_inv V m" "\<forall>(k, v) \<in> set kvs. iv_KeyField v = k" for V m kvs
    using that
  proof (induction kvs arbitrary: V m)
    case Nil
    then show ?case by simp
  next
    case (Cons x kvs)
    obtain k v where x: "x = (k, v)" by (rule prod.exhaust)
    have "group_inv (insert v V) (om_put (key_part k) (om_at (key_part k) [] m @ [v]) m)"
      using Cons.prems x by (intro group_inv_put) auto
    from Cons.IH [OF this] Cons.prems(2) show ?case by (simp add: x)
  qed
  from this [of "{}" "[]" mValue] show ?thesis
    using assms by (simp add: group_values_def group_inv_def)
qed



section \<open>A server that keeps hashes\<close>

text \<open>
  What redis documents of HMSET and HMGET, for texts that are not empty and hold neither
  spaces (the client splits the command at them) nor per cent signs (the client takes the
  command as a format) nor NUL (the command is passed as a C string): \<open>hget\<close> is a field of a
  hash.
\<close>

definition word_text :: "string \<Rightarrow> bool" where
  "word_text s \<longleftrightarrow> s \<noteq> [] \<and> CHR '' '' \<notin> set s \<and> CHR ''%'' \<notin> set s \<and> CHR 0x00 \<notin> set s"

definition hash_server ::
  "'r redis_command \<Rightarrow> ('r \<Rightarrow> string \<times> string \<Rightarrow> string option) \<Rightarrow> bool" where
  "hash_server redisCommand hget \<longleftrightarrow>
     (\<forall>r k fvs. word_text k \<and> fvs \<noteq> [] \<and> (\<forall>(f, v) \<in> set fvs. word_text f \<and> word_text v) \<longrightarrow>
        hget (snd (redisCommand (''HMSET '' @ k @ '' '' @ concat (map (\<lambda>(f, v). f @ '' '' @ v @ '' '') fvs)) r)) =
          hget r ++ map_of (rev (map (\<lambda>(f, v). ((k, f), v)) fvs))) \<and>
     (\<forall>r k fs. word_text k \<and> fs \<noteq> [] \<and> (\<forall>f \<in> set fs. word_text f) \<longrightarrow>
        redisCommand (''HMGET '' @ k @ '' '' @ concat (map (\<lambda>f. f @ '' '') fs)) r =
          (Some (Reply_array (map (\<lambda>f. Some (case hget r (k, f) of
             None \<Rightarrow> Reply_nil | Some v \<Rightarrow> Reply_string v)) fs)), r))"

lemma hash_server_set:
  "hash_server redisCommand hget \<Longrightarrow> word_text k \<Longrightarrow> fvs \<noteq> [] \<Longrightarrow>
     \<forall>(f, v) \<in> set fvs. word_text f \<and> word_text v \<Longrightarrow>
   hget (snd (redisCommand (''HMSET '' @ k @ '' '' @ concat (map (\<lambda>(f, v). f @ '' '' @ v @ '' '') fvs)) r)) =
     hget r ++ map_of (rev (map (\<lambda>(f, v). ((k, f), v)) fvs))"
  unfolding hash_server_def by blast

lemma hash_server_get:
  "hash_server redisCommand hget \<Longrightarrow> word_text k \<Longrightarrow> fs \<noteq> [] \<Longrightarrow> \<forall>f \<in> set fs. word_text f \<Longrightarrow>
   redisCommand (''HMGET '' @ k @ '' '' @ concat (map (\<lambda>f. f @ '' '') fs)) r =
     (Some (Reply_array (map (\<lambda>f. Some (case hget r (k, f) of
        None \<Rightarrow> Reply_nil | Some v \<Rightarrow> Reply_string v)) fs)), r)"
  unfolding hash_server_def by blast

definition name_of :: "key_field_mgr \<Rightarrow> u32 \<Rightarrow> string" where
  "name_of mgr f = the (FindField mgr f)"

text \<open>A value that can be stored: its names are registered and every text is a word.\<close>

definition storable :: "key_field_mgr \<Rightarrow> ivalue \<Rightarrow> bool" where
  "storable mgr v \<longleftrightarrow>
     (case FindKey mgr (iv_KeyField v) of None \<Rightarrow> False | Some k \<Rightarrow> word_text k) \<and>
     (case FindField mgr (iv_KeyField v) of None \<Rightarrow> False | Some f \<Rightarrow> word_text f) \<and>
     word_text (iv_text v)"

lemma storable_field: "storable mgr v \<Longrightarrow>
    FindField mgr (iv_KeyField v) = Some (name_of mgr (iv_KeyField v)) \<and>
    word_text (name_of mgr (iv_KeyField v))"
  by (auto simp: storable_def name_of_def split: option.splits)

lemma query_fields_ok:
  "\<forall>v \<in> set vs. storable mgr v \<Longrightarrow>
     query_fields msg mgr vs ss = Inr (ss @ concat (map (\<lambda>f. f @ '' '') (map (name_of mgr \<circ> iv_KeyField) vs)))"
  by (induction vs arbitrary: ss)
     (auto simp: query_fields_def name_or_def dest!: storable_field)

lemma save_values_ok:
  "\<forall>v \<in> set vs. storable mgr v \<Longrightarrow>
     save_values mgr vs ss = Inr (ss @ concat (map (\<lambda>(f, t). f @ '' '' @ t @ '' '')
       (map (\<lambda>v. (name_of mgr (iv_KeyField v), iv_text v)) vs)))"
  by (induction vs arbitrary: ss)
     (auto simp: save_values_def name_or_def dest!: storable_field)

lemma word_text_suffix: "word_text k \<Longrightarrow> word_text (k @ key_index_suffix a b)"
proof -
  assume k: "word_text k"
  have "c \<noteq> CHR '' '' \<and> c \<noteq> CHR ''%'' \<and> c \<noteq> CHR 0x00" if "c \<in> set (dec_of_nat n)" for c n
  proof -
    have "is_digit c" using dec_of_nat_digits that by blast
    then show ?thesis by (auto simp: is_digit_def)
  qed
  with k show ?thesis by (auto simp: word_text_def key_index_suffix_def)
qed

text \<open>Where the values of a group are stored.\<close>

definition slot :: "key_field_mgr \<Rightarrow> string \<Rightarrow> ivalue \<Rightarrow> string \<times> string" where
  "slot mgr suffix v = (the (FindKey mgr (iv_KeyField v)) @ suffix, name_of mgr (iv_KeyField v))"

definition group_ok :: "key_field_mgr \<Rightarrow> u32 \<times> ivalue list \<Rightarrow> bool" where
  "group_ok mgr = (\<lambda>(rk, vs). vs \<noteq> [] \<and> (\<forall>v \<in> set vs. key_part (iv_KeyField v) = rk \<and> storable mgr v))"

lemma group_key:
  assumes "group_ok mgr (rk, vs)"
  obtains k where "FindKey mgr rk = Some k" "word_text k"
    "\<And>v. v \<in> set vs \<Longrightarrow> slot mgr suffix v = (k @ suffix, name_of mgr (iv_KeyField v))"
proof -
  from assms obtain u us where vs: "vs = u # us" by (cases vs) (auto simp: group_ok_def)
  have key: "FindKey mgr (iv_KeyField v) = FindKey mgr rk" if "v \<in> set vs" for v
    using assms that FindKey_key_part [of mgr "iv_KeyField v"] by (auto simp: group_ok_def)
  from assms obtain k where "FindKey mgr (iv_KeyField u) = Some k" "word_text k"
    by (auto simp: group_ok_def vs storable_def split: option.splits)
  then show thesis using that key vs by (auto simp: slot_def)
qed

lemma Save_group_ok:
  assumes server: "hash_server redisCommand hget" and wrap: "m_pRedisWarp (w_adapter w)"
    and g: "group_ok mgr (rk, vs)"
  shows "\<exists>w'. Save_group_index redisCommand mgr (key_index_suffix a b) (rk, vs) w = (None, w') \<and>
    w_adapter w' = w_adapter w \<and> w_sub w' = w_sub w \<and>
    hget (w_redis w') = hget (w_redis w) ++
      map_of (rev (map (\<lambda>v. (slot mgr (key_index_suffix a b) v, iv_text v)) vs))"
proof -
  obtain k where k: "FindKey mgr rk = Some k" "word_text k"
    "\<And>v. v \<in> set vs \<Longrightarrow> slot mgr (key_index_suffix a b) v =
       (k @ key_index_suffix a b, name_of mgr (iv_KeyField v))"
    using group_key [OF g] by blast
  let ?key = "k @ key_index_suffix a b"
  let ?fvs = "map (\<lambda>v. (name_of mgr (iv_KeyField v), iv_text v)) vs"
  have st: "\<forall>v \<in> set vs. storable mgr v" using g by (simp add: group_ok_def)
  then have words: "\<forall>(f, v) \<in> set ?fvs. word_text f \<and> word_text v"
    by (auto simp: storable_field) (auto simp: storable_def)
  let ?cmd = "''HMSET '' @ ?key @ '' '' @ concat (map (\<lambda>(f, t). f @ '' '' @ t @ '' '') ?fvs)"
  let ?w = "w\<lparr>w_redis := RedisWrap_Execute redisCommand ?cmd (w_redis w)\<rparr>"
  have "Save_group_index redisCommand mgr (key_index_suffix a b) (rk, vs) w = (None, ?w)"
    using k(1) wrap save_values_ok [OF st, of "''HMSET '' @ ?key @ '' ''"]
    by (simp add: Save_group_index_def name_or_def)
  moreover have redis: "w_redis ?w = snd (redisCommand ?cmd (w_redis w))"
    by (simp add: RedisWrap_Execute_def RedisWrap_DoCmd_def)
  have fvs: "?fvs \<noteq> []" using g by (simp add: group_ok_def)
  have slots: "map (\<lambda>(f, v). ((?key, f), v)) ?fvs =
      map (\<lambda>v. (slot mgr (key_index_suffix a b) v, iv_text v)) vs"
    using k(3) by simp
  have "hget (w_redis ?w) = hget (w_redis w) ++ map_of (rev (map (\<lambda>(f, v). ((?key, f), v)) ?fvs))"
    unfolding redis by (rule hash_server_set [OF server word_text_suffix [OF k(2)] fvs words])
  then have "hget (w_redis ?w) = hget (w_redis w) ++
      map_of (rev (map (\<lambda>v. (slot mgr (key_index_suffix a b) v, iv_text v)) vs))"
    by (simp only: slots)
  ultimately show ?thesis by (intro exI [of _ ?w]) simp
qed

lemma Save_groups_ok:
  assumes server: "hash_server redisCommand hget" and wrap: "m_pRedisWarp (w_adapter w)"
    and gs: "\<forall>g \<in> set gs. group_ok mgr g"
  shows "\<exists>w'. efold (Save_group_index redisCommand mgr (key_index_suffix a b)) gs w = (None, w') \<and>
    w_adapter w' = w_adapter w \<and> w_sub w' = w_sub w \<and>
    hget (w_redis w') = hget (w_redis w) ++ map_of (rev (map (\<lambda>v. (slot mgr (key_index_suffix a b) v, iv_text v))
      (concat (map snd gs))))"
  using wrap gs
proof (induction gs arbitrary: w)
  case Nil
  then show ?case by simp
next
  case (Cons g gs)
  obtain rk vs where g: "g = (rk, vs)" by (rule prod.exhaust)
  with Cons.prems have "group_ok mgr (rk, vs)" by simp
  from Save_group_ok [OF server Cons.prems(1) this, of a b] obtain w1 where
    w1: "Save_group_index redisCommand mgr (key_index_suffix a b) (rk, vs) w = (None, w1)"
      "w_adapter w1 = w_adapter w" "w_sub w1 = w_sub w"
      "hget (w_redis w1) = hget (w_redis w) ++
        map_of (rev (map (\<lambda>v. (slot mgr (key_index_suffix a b) v, iv_text v)) vs))" by blast
  have "m_pRedisWarp (w_adapter w1)" "\<forall>g \<in> set gs. group_ok mgr g" using Cons.prems w1(2) by simp_all
  from Cons.IH [OF this] w1 show ?case by (fastforce simp: g)
qed

lemma Load_elements_strings:
  "length ts = length vs \<Longrightarrow>
     Load_elements (map (\<lambda>t. Some (Reply_string t)) ts) vs = Inr (zip vs ts, [])"
  by (induction ts vs rule: list_induct2) simp_all

lemma Load_group_ok:
  assumes server: "hash_server redisCommand hget" and wrap: "m_pRedisWarp (w_adapter w)"
    and g: "group_ok mgr (rk, vs)"
    and stored: "\<forall>v \<in> set vs. hget (w_redis w) (slot mgr (key_index_suffix a b) v) = Some (tx v)"
  shows "Load_group redisCommand mgr msgKey msgField (key_index_suffix a b) (rk, vs) (syncs, added, w) =
    (None, syncs @ map (\<lambda>v. (v, tx v)) vs, List.insert rk added, w)"
proof -
  obtain k where k: "FindKey mgr rk = Some k" "word_text k"
    "\<And>v. v \<in> set vs \<Longrightarrow> slot mgr (key_index_suffix a b) v =
       (k @ key_index_suffix a b, name_of mgr (iv_KeyField v))"
    using group_key [OF g] by blast
  let ?key = "k @ key_index_suffix a b"
  let ?fs = "map (name_of mgr \<circ> iv_KeyField) vs"
  have st: "\<forall>v \<in> set vs. storable mgr v" using g by (simp add: group_ok_def)
  let ?cmd = "''HMGET '' @ ?key @ '' '' @ concat (map (\<lambda>f. f @ '' '') ?fs)"
  have "\<forall>f \<in> set ?fs. word_text f" using st by (auto simp: storable_field)
  moreover have "?fs \<noteq> []" using g by (simp add: group_ok_def)
  ultimately have "redisCommand ?cmd (w_redis w) = (Some (Reply_array (map (\<lambda>f. Some (case hget (w_redis w) (?key, f) of
      None \<Rightarrow> Reply_nil | Some v \<Rightarrow> Reply_string v)) ?fs)), w_redis w)"
    by (intro hash_server_get [OF server word_text_suffix [OF k(2)]])
  moreover have "map (\<lambda>f. Some (case hget (w_redis w) (?key, f) of
      None \<Rightarrow> Reply_nil | Some v \<Rightarrow> Reply_string v)) ?fs = map (\<lambda>t. Some (Reply_string t)) (map tx vs)"
    using stored k(3) by simp
  ultimately have "RedisWrap_Load redisCommand ?cmd vs (w_redis w) =
      (Inr (zip vs (map tx vs), []), w_redis w)"
    by (simp only: RedisWrap_Load_def RedisWrap_DoCmd_def Let_def split option.case redis_reply.case
        Load_elements_strings length_map)
  moreover have "query_fields msgField mgr vs (''HMGET '' @ k @ key_index_suffix a b @ '' '') = Inr ?cmd"
    using query_fields_ok [OF st] by simp
  ultimately show ?thesis
    using wrap k(1) by (simp add: Load_group_def name_or_def Let_def zip_map2 zip_same_conv_map)
qed

lemma Load_groups_ok:
  assumes server: "hash_server redisCommand hget" and wrap: "m_pRedisWarp (w_adapter w)"
    and gs: "\<forall>g \<in> set gs. group_ok mgr g"
    and stored: "\<forall>v \<in> set (concat (map snd gs)).
      hget (w_redis w) (slot mgr (key_index_suffix a b) v) = Some (tx v)"
  shows "\<exists>added'. efold (Load_group redisCommand mgr msgKey msgField (key_index_suffix a b)) gs (syncs, added, w) =
    (None, syncs @ map (\<lambda>v. (v, tx v)) (concat (map snd gs)), added', w)"
  using gs stored
proof (induction gs arbitrary: syncs added)
  case Nil
  then show ?case by simp
next
  case (Cons g gs)
  obtain rk vs where g: "g = (rk, vs)" by (rule prod.exhaust)
  have "Load_group redisCommand mgr msgKey msgField (key_index_suffix a b) (rk, vs) (syncs, added, w) =
    (None, syncs @ map (\<lambda>v. (v, tx v)) vs, List.insert rk added, w)"
    using Cons.prems g by (intro Load_group_ok [OF server wrap]) auto
  moreover have "\<forall>g \<in> set gs. group_ok mgr g" "\<forall>v \<in> set (concat (map snd gs)).
      hget (w_redis w) (slot mgr (key_index_suffix a b) v) = Some (tx v)"
    using Cons.prems by simp_all
  note Cons.IH [OF this, of "syncs @ map (\<lambda>v. (v, tx v)) vs" "List.insert rk added"]
  ultimately show ?case by (simp add: g)
qed



section \<open>Properties\<close>

text \<open>An executable server, for concrete runs: hashes as an association list.\<close>

fun pair_up :: "string list \<Rightarrow> (string \<times> string) list" where
  "pair_up (f # v # rest) = (f, v) # pair_up rest"
| "pair_up _ = []"

definition demo_redis :: "((string \<times> string) \<times> string) list redis_command" where
  "demo_redis cmd r = (case filter (\<lambda>p. p \<noteq> []) (pieces CHR '' '' cmd) of
     c # k # args \<Rightarrow>
       (if c = ''HMSET''
        then (Some (Reply_status ''OK''), rev (map (\<lambda>(f, v). ((k, f), v)) (pair_up args)) @ r)
        else (Some (Reply_array (map (\<lambda>f. Some (case map_of r (k, f) of
               None \<Rightarrow> Reply_nil | Some v \<Rightarrow> Reply_string v)) args)), r))
   | _ \<Rightarrow> (None, r))"

lemma pair_up_flat: "pair_up (concat (map (\<lambda>(f, v). [f, v]) fvs)) = fvs"
  by (induction fvs) auto

lemma pieces_words:
  assumes "\<forall>p \<in> set ps. word_text p"
  shows "filter (\<lambda>p. p \<noteq> []) (pieces CHR '' '' (concat (map (\<lambda>p. p @ '' '') ps))) = ps"
proof -
  have "pieces CHR '' '' (concat (map (\<lambda>p. p @ '' '') ps)) = ps @ [[]]"
    using assms by (intro pieces_terminated) (simp add: word_text_def)
  moreover have "filter (\<lambda>p. p \<noteq> []) ps = ps"
    using assms by (simp add: filter_id_conv word_text_def)
  ultimately show ?thesis by simp
qed

lemma demo_redis_server: "hash_server demo_redis map_of"
  unfolding hash_server_def
proof (intro conjI allI impI)
  fix r k fvs assume a: "word_text k \<and> fvs \<noteq> [] \<and> (\<forall>(f, v) \<in> set fvs. word_text f \<and> word_text v)"
  let ?ps = "''HMSET'' # k # concat (map (\<lambda>(f, v). [f, v]) fvs)"
  have "concat (map (\<lambda>p. p @ '' '') ?ps) =
      ''HMSET '' @ k @ '' '' @ concat (map (\<lambda>(f, v). f @ '' '' @ v @ '' '') fvs)"
    by (simp add: concat_map_concat comp_def split_def)
  moreover have "\<forall>p \<in> set ?ps. word_text p" using a by (auto simp: word_text_def)
  note pieces_words [OF this]
  ultimately have "snd (demo_redis (''HMSET '' @ k @ '' '' @ concat (map (\<lambda>(f, v). f @ '' '' @ v @ '' '') fvs)) r) =
      rev (map (\<lambda>(f, v). ((k, f), v)) fvs) @ r"
    by (simp only: demo_redis_def list.case pair_up_flat) simp
  then show "map_of (snd (demo_redis (''HMSET '' @ k @ '' '' @ concat (map (\<lambda>(f, v). f @ '' '' @ v @ '' '') fvs)) r)) =
      map_of r ++ map_of (rev (map (\<lambda>(f, v). ((k, f), v)) fvs))"
    by (simp only: map_of_append)
next
  fix r :: "((string \<times> string) \<times> string) list" and k fs
  assume a: "word_text k \<and> fs \<noteq> [] \<and> (\<forall>f \<in> set fs. word_text f)"
  have "concat (map (\<lambda>p. p @ '' '') (''HMGET'' # k # fs)) =
      ''HMGET '' @ k @ '' '' @ concat (map (\<lambda>f. f @ '' '') fs)" by simp
  moreover have "\<forall>p \<in> set (''HMGET'' # k # fs). word_text p" using a by (auto simp: word_text_def)
  note pieces_words [OF this]
  ultimately show "demo_redis (''HMGET '' @ k @ '' '' @ concat (map (\<lambda>f. f @ '' '') fs)) r =
      (Some (Reply_array (map (\<lambda>f. Some (case map_of r (k, f) of
         None \<Rightarrow> Reply_nil | Some v \<Rightarrow> Reply_string v)) fs)), r)"
    by (simp only: demo_redis_def list.case) simp
qed

lemma map_of_slots:
  assumes "u \<in> set vs" and "\<And>v. v \<in> set vs \<Longrightarrow> slot mgr sfx v = slot mgr sfx u \<Longrightarrow> v = u"
  shows "map_of (rev (map (\<lambda>v. (slot mgr sfx v, iv_text v)) vs)) (slot mgr sfx u) = Some (iv_text u)"
proof (cases "map_of (rev (map (\<lambda>v. (slot mgr sfx v, iv_text v)) vs)) (slot mgr sfx u)")
  case None
  then show ?thesis using assms(1) by (force simp: map_of_eq_None_iff)
next
  case (Some t)
  then obtain v where "v \<in> set vs" "slot mgr sfx v = slot mgr sfx u" "t = iv_text v"
    by (auto dest!: map_of_SomeD)
  with assms(2) Some show ?thesis by blast
qed

lemma slot_names:
  assumes "slot mgr sfx u = slot mgr sfx v" and "storable mgr u" and "storable mgr v"
  shows "FindKeyField mgr (iv_KeyField u) = FindKeyField mgr (iv_KeyField v)"
proof -
  have kf: "FindKeyField mgr i = (FindKey mgr i, FindField mgr i)" for i
    by (simp add: FindKeyField_def FindKey_def FindField_def split: option.split)
  have names: "FindKey mgr (iv_KeyField x) = Some (the (FindKey mgr (iv_KeyField x)))"
    "FindField mgr (iv_KeyField x) = Some (name_of mgr (iv_KeyField x))" if "storable mgr x" for x
    using that storable_field [OF that] by (auto simp: storable_def split: option.splits)
  have "the (FindKey mgr (iv_KeyField u)) = the (FindKey mgr (iv_KeyField v))"
    "name_of mgr (iv_KeyField u) = name_of mgr (iv_KeyField v)"
    using assms(1) by (simp_all add: slot_def)
  then show ?thesis using names [OF assms(2)] names [OF assms(3)] unfolding kf by metis
qed

lemma group_values_ok:
  assumes vals: "\<forall>(k, v) \<in> set mValue. iv_KeyField v = k \<and> storable mgr v"
  shows "set (concat (map snd (group_values mValue))) = snd ` set mValue \<and>
    (\<forall>g \<in> set (group_values mValue). group_ok mgr g)"
proof -
  let ?gs = "group_values mValue"
  have inv: "group_inv (snd ` set mValue) ?gs" by (rule group_values_inv) (use vals in auto)
  then have V: "set (concat (map snd ?gs)) = snd ` set mValue" by (simp add: group_inv_def image_image)
  have "group_ok mgr g" if g: "g \<in> set ?gs" for g
  proof -
    obtain rk vs where g': "g = (rk, vs)" by (rule prod.exhaust)
    have "set vs \<subseteq> set (concat (map snd ?gs))" using g g' by force
    then have "\<forall>v \<in> set vs. storable mgr v" using vals V by force
    with inv g show ?thesis unfolding g' group_ok_def split group_inv_def by blast
  qed
  with V show ?thesis by blast
qed

lemma slot_KeyField: "iv_KeyField u = iv_KeyField v \<Longrightarrow> slot mgr sfx u = slot mgr sfx v"
  by (simp add: slot_def)

lemma names_inj:
  assumes vals: "\<forall>(k, v) \<in> set mValue. iv_KeyField v = k \<and> storable mgr v"
    and names: "\<forall>u \<in> snd ` set mValue. \<forall>v \<in> snd ` set mValue.
      FindKeyField mgr (iv_KeyField u) = FindKeyField mgr (iv_KeyField v) \<longrightarrow> u = v"
    and "u \<in> snd ` set mValue" "v \<in> snd ` set mValue" "slot mgr sfx v = slot mgr sfx u"
  shows "v = u"
proof -
  have "storable mgr u" "storable mgr v" using vals assms(3,4) by auto
  then have "FindKeyField mgr (iv_KeyField u) = FindKeyField mgr (iv_KeyField v)"
    using slot_names assms(5) by metis
  then show ?thesis using names assms(3,4) by metis
qed

text \<open>What was saved can be loaded into any values with the same field indices, by any client.\<close>

lemma save_then_load:
  assumes server: "hash_server redisCommand hget" and wrap: "m_pRedisWarp (w_adapter w)"
    and vals: "\<forall>(k, v) \<in> set mValue. iv_KeyField v = k \<and> storable mgr v"
    and names: "\<forall>u \<in> snd ` set mValue. \<forall>v \<in> snd ` set mValue.
      FindKeyField mgr (iv_KeyField u) = FindKeyField mgr (iv_KeyField v) \<longrightarrow> u = v"
  shows "\<exists>w1. RedisAdapter_Save_index redisCommand mgr iKey iIndex mValue w = (None, w1) \<and>
    w_adapter w1 = w_adapter w \<and> w_sub w1 = w_sub w \<and>
    (\<forall>w2 mValue' tx. hget (w_redis w2) = hget (w_redis w1) \<longrightarrow> m_pRedisWarp (w_adapter w2) \<longrightarrow>
      (\<forall>(k, v) \<in> set mValue'. iv_KeyField v = k \<and> storable mgr v) \<longrightarrow>
      (\<forall>v' \<in> snd ` set mValue'. \<exists>v \<in> snd ` set mValue. iv_KeyField v = iv_KeyField v' \<and> tx v' = iv_text v) \<longrightarrow>
      (\<exists>syncs w3. RedisAdapter_Load_index redisCommand mgr iKey iIndex mValue' w2 = (None, syncs, w3) \<and>
         w_redis w3 = w_redis w2 \<and> set syncs = (\<lambda>v. (v, tx v)) ` snd ` set mValue'))"
proof -
  let ?sfx = "key_index_suffix iKey iIndex"
  let ?vs = "concat (map snd (group_values mValue))"
  have V: "set ?vs = snd ` set mValue" and gs: "\<forall>g \<in> set (group_values mValue). group_ok mgr g"
    using group_values_ok [OF vals] by blast+
  obtain w1 where w1: "RedisAdapter_Save_index redisCommand mgr iKey iIndex mValue w = (None, w1)"
    "w_adapter w1 = w_adapter w" "w_sub w1 = w_sub w"
    "hget (w_redis w1) = hget (w_redis w) ++ map_of (rev (map (\<lambda>v. (slot mgr ?sfx v, iv_text v)) ?vs))"
    using Save_groups_ok [OF server wrap gs, of iKey iIndex] unfolding RedisAdapter_Save_index_def by blast
  have stored: "hget (w_redis w1) (slot mgr ?sfx u) = Some (iv_text u)" if u: "u \<in> snd ` set mValue" for u
    using map_of_slots [of u ?vs mgr ?sfx] names_inj [OF vals names u] u
    by (simp only: w1(4) map_add_Some_iff V) blast
  have "\<exists>syncs w3. RedisAdapter_Load_index redisCommand mgr iKey iIndex mValue' w2 = (None, syncs, w3) \<and>
      w_redis w3 = w_redis w2 \<and> set syncs = (\<lambda>v. (v, tx v)) ` snd ` set mValue'"
    if w2: "hget (w_redis w2) = hget (w_redis w1)" "m_pRedisWarp (w_adapter w2)"
      and vals': "\<forall>(k, v) \<in> set mValue'. iv_KeyField v = k \<and> storable mgr v"
      and tx: "\<forall>v' \<in> snd ` set mValue'. \<exists>v \<in> snd ` set mValue. iv_KeyField v = iv_KeyField v' \<and> tx v' = iv_text v"
    for w2 mValue' tx
  proof -
    let ?gs' = "group_values mValue'"
    have V': "set (concat (map snd ?gs')) = snd ` set mValue'" and gs': "\<forall>g \<in> set ?gs'. group_ok mgr g"
      using group_values_ok [OF vals'] by blast+
    have "hget (w_redis w2) (slot mgr ?sfx v') = Some (tx v')" if "v' \<in> snd ` set mValue'" for v'
      using tx that stored slot_KeyField w2(1) by metis
    then obtain added where
      "efold (Load_group redisCommand mgr no_key no_field ?sfx) ?gs' ([], [], w2) =
        (None, [] @ map (\<lambda>v. (v, tx v)) (concat (map snd ?gs')), added, w2)"
      using Load_groups_ok [OF server w2(2) gs', where tx = tx and syncs = "[]" and added = "[]" and a = iKey
          and b = iIndex and msgKey = no_key and msgField = no_field] V' by blast
    then have "\<exists>w3. RedisAdapter_Load_index redisCommand mgr iKey iIndex mValue' w2 =
        (None, map (\<lambda>v. (v, tx v)) (concat (map snd ?gs')), w3) \<and> w_redis w3 = w_redis w2"
      by (simp add: RedisAdapter_Load_index_def Load_all_def split_def Let_def)
    moreover have "set (map (\<lambda>v. (v, tx v)) (concat (map snd ?gs'))) = (\<lambda>v. (v, tx v)) ` snd ` set mValue'"
      by (simp only: set_map V')
    ultimately show ?thesis by blast
  qed
  with w1 show ?thesis by blast
qed

text \<open>
  C12. Saving and loading an element, for values the adapter can store: with a connection to a
  server that keeps hashes as redis documents, when every value has its own registered name and
  every name and text is a word - not empty and without spaces, per cent signs and NUL, since
  the adapter passes the command to hiredis as a format - saving the values succeeds, and loading
  the same fields then succeeds and gives every value exactly the text it was saved with. Texts
  with a space or a per cent sign are not covered; the code does not store them as they are.
\<close>

theorem saved_values_are_loaded:
  assumes server: "hash_server redisCommand hget" and wrap: "m_pRedisWarp (w_adapter w)"
    and vals: "\<forall>(k, v) \<in> set mValue. iv_KeyField v = k \<and> storable mgr v"
    and names: "\<forall>u \<in> snd ` set mValue. \<forall>v \<in> snd ` set mValue.
      FindKeyField mgr (iv_KeyField u) = FindKeyField mgr (iv_KeyField v) \<longrightarrow> u = v"
  shows "\<exists>w1 syncs w2. RedisAdapter_Save_index redisCommand mgr iKey iIndex mValue w = (None, w1) \<and>
    RedisAdapter_Load_index redisCommand mgr iKey iIndex mValue w1 = (None, syncs, w2) \<and>
    set syncs = (\<lambda>v. (v, iv_text v)) ` snd ` set mValue"
proof -
  obtain w1 where "RedisAdapter_Save_index redisCommand mgr iKey iIndex mValue w = (None, w1)"
    "w_adapter w1 = w_adapter w" and load:
    "\<And>w2 mValue' tx. hget (w_redis w2) = hget (w_redis w1) \<Longrightarrow> m_pRedisWarp (w_adapter w2) \<Longrightarrow>
      \<forall>(k, v) \<in> set mValue'. iv_KeyField v = k \<and> storable mgr v \<Longrightarrow>
      \<forall>v' \<in> snd ` set mValue'. \<exists>v \<in> snd ` set mValue. iv_KeyField v = iv_KeyField v' \<and> tx v' = iv_text v \<Longrightarrow>
      \<exists>syncs w3. RedisAdapter_Load_index redisCommand mgr iKey iIndex mValue' w2 = (None, syncs, w3) \<and>
         w_redis w3 = w_redis w2 \<and> set syncs = (\<lambda>v. (v, tx v)) ` snd ` set mValue'"
    using save_then_load [OF assms, of iKey iIndex] by blast
  moreover have "m_pRedisWarp (w_adapter w1)" using wrap calculation(2) by simp
  ultimately show ?thesis using load [OF refl _ vals, of iv_text] by blast
qed


definition element_registry :: key_field_mgr where
  "element_registry = reg_run [Reg_key ''player.bagequip'' 0x100,
     Reg_field ''ConfigId'' 0x100 FT_uint32_t, Reg_field ''Level'' 0x101 FT_uint32_t]"

definition demo_world :: "((string \<times> string) \<times> string) list world" where
  "demo_world = \<lparr> w_adapter = RedisAdapter_make\<lparr>m_pRedisWarp := True\<rparr>, w_sub = RedisSubMgr_init, w_redis = [] \<rparr>"

lemma element_registry_names:
  "FindKey element_registry 0x100 = Some ''player.bagequip''"
  "FindKey element_registry 0x101 = Some ''player.bagequip''"
  "FindField element_registry 0x100 = Some ''ConfigId''"
  "FindField element_registry 0x101 = Some ''Level''"
  unfolding element_registry_def FindKey_run FindField_run by simp_all

definition config_value :: ivalue where
  "config_value = \<lparr> iv_KeyField = 0x100, iv_text = ''10010'' \<rparr>"

definition level_value :: ivalue where
  "level_value = \<lparr> iv_KeyField = 0x101, iv_text = ''1'' \<rparr>"

definition element_values :: value_map where
  "element_values = [(0x100, config_value), (0x101, level_value)]"

lemma element_storable: "storable element_registry config_value" "storable element_registry level_value"
  unfolding storable_def config_value_def level_value_def ivalue.simps element_registry_names option.case
  by (simp_all add: word_text_def)

lemma element_values_ok:
  "\<forall>(k, v) \<in> set element_values. iv_KeyField v = k \<and> storable element_registry v"
proof -
  have "iv_KeyField config_value = 0x100" "iv_KeyField level_value = 0x101"
    by (simp_all only: config_value_def level_value_def ivalue.simps)
  then show ?thesis
    unfolding element_values_def list.set ball_simps split using element_storable by simp
qed

lemma element_values_distinct:
  "\<forall>u \<in> snd ` set element_values. \<forall>v \<in> snd ` set element_values.
     FindKeyField element_registry (iv_KeyField u) = FindKeyField element_registry (iv_KeyField v) \<longrightarrow> u = v"
proof -
  have kf: "FindKeyField element_registry i = (FindKey element_registry i, FindField element_registry i)" for i
    by (simp add: FindKeyField_def FindKey_def FindField_def split: option.split)
  have "Some ''ConfigId'' \<noteq> Some ''Level''" by simp
  then have "FindField element_registry (iv_KeyField config_value) \<noteq> FindField element_registry (iv_KeyField level_value)"
    by (simp only: config_value_def level_value_def ivalue.simps element_registry_names simp_thms)
  then have "FindKeyField element_registry (iv_KeyField config_value) \<noteq>
      FindKeyField element_registry (iv_KeyField level_value)"
    unfolding kf by (simp only: prod.inject simp_thms)
  moreover have "snd ` set element_values = {config_value, level_value}"
    by (simp only: element_values_def list.set image_insert image_empty snd_conv)
  ultimately show ?thesis by (metis insertE singletonD)
qed

theorem saved_values_are_loaded_witness:
  "\<exists>w1 syncs w2.
     RedisAdapter_Save_index demo_redis element_registry 10000 10 element_values demo_world = (None, w1) \<and>
     RedisAdapter_Load_index demo_redis element_registry 10000 10 element_values w1 = (None, syncs, w2) \<and>
     (level_value, ''1'') \<in> set syncs"
proof -
  have wrap: "m_pRedisWarp (w_adapter demo_world)" by (simp add: demo_world_def)
  have "iv_text level_value = ''1''" "level_value \<in> snd ` set element_values"
    by (simp_all only: level_value_def ivalue.simps element_values_def list.set image_insert snd_conv insert_iff simp_thms)
  then have mem: "(level_value, ''1'') \<in> (\<lambda>v. (v, iv_text v)) ` snd ` set element_values" by (metis imageI)
  obtain w1 syncs w2 where
    "RedisAdapter_Save_index demo_redis element_registry 10000 10 element_values demo_world = (None, w1)"
    "RedisAdapter_Load_index demo_redis element_registry 10000 10 element_values w1 = (None, syncs, w2)"
    and syncs: "set syncs = (\<lambda>v. (v, iv_text v)) ` snd ` set element_values"
    using saved_values_are_loaded [OF demo_redis_server wrap element_values_ok element_values_distinct,
        of 10000 10] by (elim exE conjE)
  then show ?thesis using mem [folded syncs] by (intro exI conjI)
qed

lemma om_put_not_Nil: "om_put k v m \<noteq> []"
  by (cases m) (simp_all add: split_def Let_def split: if_split)

lemma group_values_not_Nil: "mValue \<noteq> [] \<Longrightarrow> group_values mValue \<noteq> []"
proof -
  have "fold (\<lambda>(k, v) m. om_put (key_part k) (om_at (key_part k) [] m @ [v]) m) kvs m \<noteq> []" if "m \<noteq> []"
    for kvs :: value_map and m
    using that by (induction kvs arbitrary: m) (simp_all add: split_def om_put_not_Nil)
  then show "mValue \<noteq> [] \<Longrightarrow> group_values mValue \<noteq> []"
    by (cases mValue) (simp_all add: group_values_def split_def om_put_not_Nil)
qed

text \<open>
  Saving a structure's own values never succeeds: whatever is registered, the first group
  throws (the test for a missing key name is inverted) or dereferences the missing name, and
  no command is sent.
\<close>

theorem save_never_succeeds:
  assumes "mValue \<noteq> []"
  shows "\<exists>e. RedisAdapter_Save redisCommand mgr iKey mValue w = (Some e, w)"
proof -
  obtain g gs where "group_values mValue = g # gs"
    using group_values_not_Nil [OF assms] by (meson neq_Nil_conv)
  then show ?thesis
    by (simp add: RedisAdapter_Save_def Save_group_def split_def)
qed

theorem save_never_succeeds_witness:
  "\<exists>e. RedisAdapter_Save demo_redis element_registry 10000 element_values demo_world = (Some e, demo_world)"
  by (rule save_never_succeeds) (simp only: element_values_def list.distinct not_False_eq_True)

text \<open>
  All keys of the repeated elements: with a server whose SCAN pages lead back to cursor 0,
  \<open>GetAllKey\<close> ends and returns the indices of all pages, in order.
\<close>

theorem get_all_keys:
  assumes "FindKey mgr iRediskey = Some sKey" and "m_pRedisWarp (w_adapter w)"
    and "scan_server redisCommand (sKey @ '':'' @ dec_of_nat (unat i64Key) @ '':'') page (w_redis w)"
    and "scan_chain page 0 ks"
  shows "RedisAdapter_GetAllKey redisCommand mgr i64Key iRediskey w = Some (Inr (map of_nat ks), w)"
  using assms(1,2) Scan_loop_chain [OF assms(4,3), of "[]"]
  by (simp add: RedisAdapter_GetAllKey_def Let_def)

definition demo_pages :: "nat \<Rightarrow> nat \<times> nat list" where
  "demo_pages c = (if c = 0 then (17, [10, 11]) else (0, [12]))"

definition demo_scan :: "unit redis_command" where
  "demo_scan cmd r = (scan_reply ''player.bagequip:10000:''
     (if take 6 cmd = ''SCAN 0'' then demo_pages 0 else demo_pages 1), r)"

theorem get_all_keys_witness:
  "RedisAdapter_GetAllKey demo_scan element_registry 10000 0x100
     \<lparr> w_adapter = RedisAdapter_make\<lparr>m_pRedisWarp := True\<rparr>, w_sub = RedisSubMgr_init, w_redis = () \<rparr> =
   Some (Inr [10, 11, 12],
     \<lparr> w_adapter = RedisAdapter_make\<lparr>m_pRedisWarp := True\<rparr>, w_sub = RedisSubMgr_init, w_redis = () \<rparr>)"
proof -
  let ?w = "\<lparr> w_adapter = RedisAdapter_make\<lparr>m_pRedisWarp := True\<rparr>, w_sub = RedisSubMgr_init, w_redis = () \<rparr>"
  have dec: "dec_of_nat (unat (10000 :: u64)) = ''10000''" 
    by (simp add: dec_of_nat.simps digit_char_def char_of_eq_iff)
  have hd: "take 1 (dec_of_nat c) = ''0'' \<longleftrightarrow> c = 0" for c
  proof (cases "c = 0")
    case True
    then show ?thesis by (simp add: dec_of_nat.simps digit_char_def char_of_eq_iff)
  next
    case False
    obtain a as where "dec_of_nat c = a # as" by (cases "dec_of_nat c") auto
    with hd_dec_of_nat [of c] False show ?thesis by simp
  qed
  have "take 6 (''SCAN '' @ dec_of_nat c @ t) = ''SCAN 0'' \<longleftrightarrow> c = 0" for c t
  proof -
    obtain a as where "dec_of_nat c = a # as" by (cases "dec_of_nat c") auto
    with hd [of c] show ?thesis by simp
  qed
  then have "scan_server demo_scan (''player.bagequip'' @ '':'' @ dec_of_nat (unat (10000 :: u64)) @ '':'') demo_pages (w_redis ?w)"
    unfolding dec by (auto simp: scan_server_def demo_scan_def demo_pages_def)
  moreover have "scan_chain demo_pages 0 ([10, 11] @ [12])"
    by (rule next_page [where c' = 17], simp add: demo_pages_def, simp, rule last_page, simp add: demo_pages_def)
  ultimately show ?thesis
    using get_all_keys [OF element_registry_names(1), of ?w demo_scan 10000 demo_pages "[10, 11, 12]"] by simp
qed

lemma om_put_put: "om_put k v (om_put k w m) = om_put k v m"
  by (induction k w m rule: om_put.induct) auto

text \<open>
  The index of a changed element is lost: a change of an element's value is recorded
  exactly like one of the structure's own values, so of two changes of the same field in
  different elements only the last remains; and \<open>SyncData\<close> applies no change to any
  structure, whatever messages were received.
\<close>

theorem set_value_loses_index:
  "RedisAdapter_SetValue_index iKey i v w = RedisAdapter_SetValue iKey v w \<and>
   RedisAdapter_SetValue_index iKey j (v\<lparr>iv_text := t\<rparr>) (RedisAdapter_SetValue_index iKey i v w) =
     RedisAdapter_SetValue_index iKey j (v\<lparr>iv_text := t\<rparr>) w \<and>
   RedisAdapter_SyncData a = []"
  by (simp add: RedisAdapter_SetValue_index_def RedisAdapter_SetValue_def RedisAdapter_SyncData_def
      RedisBuffer_AddValueChange_def KeyBuffer_ValueChange_def FieldBuffer_ValueChange_def Let_def
      om_at_put om_put_put)

end
