(* ===== verification/Data_Model.thy ===== *)
theory Data_Model
  imports Redis_Adapter
begin

text \<open>
  The data model, \<open>TData/IBase.h\<close>, \<open>TValue.h\<close>, \<open>TStruct.h\<close>, \<open>TRepeated.h\<close> and the interface
  \<open>IDataAdapter.h\<close>: values with a field index, structures of values, and repeated containers of
  structures, loaded from and saved to a data adapter and updated from received changes.

  A template parameter is a parameter here: the type of a value is the constructor of its
  \<open>cell\<close>, the element type of a container is its default value and its copy constructor, the
  data adapter is a record of its operations. A container's \<open>m_pHandle\<close> leads to the structure
  that owns it; what the container uses of the owner is passed to it as \<open>owner\<close>: the owner's
  key and whether the owner has a data adapter.
\<close>

section \<open>Values\<close>

datatype cell =
    Cell_u32 u32
  | Cell_i32 int
  | Cell_i64 int
  | Cell_u64 u64
  | Cell_string string
  | Cell_bool bool

text \<open>\<open>StringValue::get(pStr, m_Value)\<close> and \<open>StringValue::ToString(m_Value)\<close>, by the type of the value.\<close>

fun cell_get :: "string \<Rightarrow> cell \<Rightarrow> cell res" where
  "cell_get pStr (Cell_u32 _) = Inr (Cell_u32 (get_u32_cstr pStr))"
| "cell_get pStr (Cell_i32 _) = Inr (Cell_i32 (get_i32_cstr pStr))"
| "cell_get pStr (Cell_i64 _) = Inr (Cell_i64 (get_i64_cstr pStr))"
| "cell_get pStr (Cell_u64 _) = Inr (Cell_u64 (get_u64_cstr pStr))"
| "cell_get pStr (Cell_string _) = map_sum id Cell_string (get_string_cstr pStr)"
| "cell_get pStr (Cell_bool _) = Inr (Cell_bool (get_bool_cstr pStr))"

fun cell_text :: "cell \<Rightarrow> string" where
  "cell_text (Cell_u32 v) = ToString_u32 v"
| "cell_text (Cell_i32 v) = ToString_i32 v"
| "cell_text (Cell_i64 v) = ToString_i64 v"
| "cell_text (Cell_u64 v) = ToString_u64 v"
| "cell_text (Cell_string v) = ToString_string v"
| "cell_text (Cell_bool v) = ToString_bool v"

text \<open>
  \<open>TBaseValue\<close>, and \<open>TValue\<close> where \<open>m_IsConst\<close> is false: a value the program may assign.
  \<open>m_KeyField\<close> is the template argument.
\<close>

record tvalue =
  m_Value :: cell
  m_KeyField :: u32
  m_IsConst :: bool
  m_pDataHandle :: bool

definition TBaseValue_make :: "cell \<Rightarrow> u32 \<Rightarrow> tvalue" where
  "TBaseValue_make init kf = \<lparr> m_Value = init, m_KeyField = kf, m_IsConst = True, m_pDataHandle = False \<rparr>"

definition TValue_make :: "cell \<Rightarrow> u32 \<Rightarrow> tvalue" where
  "TValue_make init kf = (TBaseValue_make init kf)\<lparr>m_IsConst := False\<rparr>"

definition TBaseValue_Init :: "cell \<Rightarrow> tvalue \<Rightarrow> tvalue" where
  "TBaseValue_Init value v = v\<lparr>m_Value := value\<rparr>"

definition TBaseValue_ToString :: "tvalue \<Rightarrow> string" where
  "TBaseValue_ToString v = cell_text (m_Value v)"

text \<open>A value as the data adapter sees it.\<close>

definition ivalue_of :: "tvalue \<Rightarrow> ivalue" where
  "ivalue_of v = \<lparr> iv_KeyField = m_KeyField v, iv_text = TBaseValue_ToString v \<rparr>"

text \<open>Whether \<open>ValueChange\<close> of the owner is called, and the value.\<close>

definition TBaseValue_Sync :: "string \<Rightarrow> tvalue \<Rightarrow> (bool \<times> tvalue) res" where
  "TBaseValue_Sync pStr v =
     (case cell_get pStr (m_Value v) of
        Inl e \<Rightarrow> Inl e
      | Inr new \<Rightarrow>
          if m_Value v \<noteq> new \<and> m_IsConst v
          then (if m_pDataHandle v then Inr (True, v\<lparr>m_Value := new\<rparr>) else Inl Null_deref)
          else Inr (False, v\<lparr>m_Value := new\<rparr>))"

text \<open>The assignment of a \<open>TValue\<close>: whether \<open>SetValue\<close> of the owner is called, and the value.\<close>

definition TValue_assign :: "cell \<Rightarrow> tvalue \<Rightarrow> (bool \<times> tvalue) res" where
  "TValue_assign value v =
     (if m_Value v \<noteq> value
      then (if m_pDataHandle v then Inr (True, v\<lparr>m_Value := value\<rparr>) else Inl Null_deref)
      else Inr (False, v))"


section \<open>The data adapter\<close>

text \<open>
  \<open>IDataAdapter\<close>. \<open>Load\<close> returns its result with the values it synchronised and their texts, in
  order; an exception is a fault. \<open>GetAllKey\<close> may not end.
\<close>

type_synonym 'w loader = "value_map \<Rightarrow> 'w \<Rightarrow> bool res \<times> (ivalue \<times> string) list \<times> 'w"

record 'w data_adapter =
  ad_Load :: "u64 \<Rightarrow> 'w loader"
  ad_Load_index :: "u64 \<Rightarrow> u64 \<Rightarrow> 'w loader"
  ad_Save :: "u64 \<Rightarrow> value_map \<Rightarrow> 'w \<Rightarrow> fault option \<times> 'w"
  ad_Save_index :: "u64 \<Rightarrow> u64 \<Rightarrow> value_map \<Rightarrow> 'w \<Rightarrow> fault option \<times> 'w"
  ad_SetValue :: "u64 \<Rightarrow> ivalue \<Rightarrow> 'w \<Rightarrow> 'w"
  ad_SetValue_index :: "u64 \<Rightarrow> u64 \<Rightarrow> ivalue \<Rightarrow> 'w \<Rightarrow> 'w"
  ad_RegistStruct :: "u64 \<Rightarrow> nat \<Rightarrow> 'w \<Rightarrow> 'w"
  ad_UnRegistStruct :: "u64 \<Rightarrow> nat \<Rightarrow> 'w \<Rightarrow> 'w"
  ad_GetAllKey :: "u64 \<Rightarrow> u32 \<Rightarrow> 'w \<Rightarrow> (u64 list res \<times> 'w) option"
  ad_AddRepeated :: "u64 \<Rightarrow> u64 \<Rightarrow> u32 \<Rightarrow> 'w \<Rightarrow> fault option \<times> 'w"
  ad_RemoveRepeated :: "u64 \<Rightarrow> u64 \<Rightarrow> u32 \<Rightarrow> 'w \<Rightarrow> fault option \<times> 'w"

definition load_result ::
  "fault option \<times> (ivalue \<times> string) list \<times> 'w \<Rightarrow> bool res \<times> (ivalue \<times> string) list \<times> 'w" where
  "load_result = (\<lambda>(e, rest). (case e of None \<Rightarrow> Inr True | Some e \<Rightarrow> Inl e, rest))"

text \<open>The redis adapter as a data adapter; its two \<open>Load\<close> return true.\<close>

definition redis_data_adapter :: "'r redis_command \<Rightarrow> key_field_mgr \<Rightarrow> 'r world data_adapter" where
  "redis_data_adapter redisCommand mgr =
     \<lparr> ad_Load = \<lambda>k m w. load_result (RedisAdapter_Load redisCommand mgr k m w),
       ad_Load_index = \<lambda>k i m w. load_result (RedisAdapter_Load_index redisCommand mgr k i m w),
       ad_Save = RedisAdapter_Save redisCommand mgr,
       ad_Save_index = RedisAdapter_Save_index redisCommand mgr,
       ad_SetValue = RedisAdapter_SetValue,
       ad_SetValue_index = RedisAdapter_SetValue_index,
       ad_RegistStruct = RedisAdapter_RegistStruct,
       ad_UnRegistStruct = RedisAdapter_UnRegistStruct,
       ad_GetAllKey = RedisAdapter_GetAllKey redisCommand mgr,
       ad_AddRepeated = RedisAdapter_AddRepeated redisCommand,
       ad_RemoveRepeated = RedisAdapter_RemoveRepeated redisCommand mgr \<rparr>"


section \<open>Structures\<close>

text \<open>
  \<open>IStruct\<close> with the data handle of \<open>TStruct\<close>, for an element of a container; a structure with
  containers has the member \<open>m_mRepeated\<close> besides. The values registered with a structure are
  its members, and are kept in \<open>m_mValue\<close>.
\<close>

record istruct =
  m_i64Key :: u64
  m_bNotifyValueChange :: bool
  m_mValue :: "(u32 \<times> tvalue) list"
  m_pDataHanle :: bool

text \<open>
  The element type of a container: a default-constructed element, and what copying an element
  into the container makes of it.
\<close>

record value_type =
  vt_new :: istruct
  vt_copy :: "istruct \<Rightarrow> istruct"

record trepeated =
  rep_key :: u32
  rep_type :: value_type
  m_pHandle :: bool
  rep_mValue :: "(u64 \<times> istruct) list"

record tstruct = istruct +
  m_mRepeated :: "(u64 \<times> trepeated) list"

definition IStruct_SetKey :: "u64 \<Rightarrow> 'a istruct_scheme \<Rightarrow> 'a istruct_scheme" where
  "IStruct_SetKey iKey s = s\<lparr>m_i64Key := iKey\<rparr>"

definition IStruct_GetKey :: "'a istruct_scheme \<Rightarrow> u64" where
  "IStruct_GetKey s = m_i64Key s"

definition IStruct_SetNotifyState :: "bool \<Rightarrow> 'a istruct_scheme \<Rightarrow> 'a istruct_scheme" where
  "IStruct_SetNotifyState bNotify s = s\<lparr>m_bNotifyValueChange := bNotify\<rparr>"

definition IStruct_RegistValue :: "tvalue \<Rightarrow> 'a istruct_scheme \<Rightarrow> 'a istruct_scheme" where
  "IStruct_RegistValue value s = s\<lparr>m_mValue := om_ins (m_KeyField value) value (m_mValue s)\<rparr>"

definition IStruct_RegisRepeated :: "trepeated \<Rightarrow> tstruct \<Rightarrow> tstruct" where
  "IStruct_RegisRepeated repeated s =
     s\<lparr>m_mRepeated := om_ins (ucast (rep_key repeated)) repeated (m_mRepeated s)\<rparr>"

text \<open>\<open>SetDataHandle\<close> of a value, called by the structure that has it as a member.\<close>

definition TBaseValue_SetDataHandle :: "tvalue \<Rightarrow> 'a istruct_scheme \<Rightarrow> 'a istruct_scheme" where
  "TBaseValue_SetDataHandle v s = IStruct_RegistValue (v\<lparr>m_pDataHandle := True\<rparr>) s"

definition TStruct_make :: istruct where
  "TStruct_make = \<lparr> m_i64Key = 0, m_bNotifyValueChange = False, m_mValue = [], m_pDataHanle = False \<rparr>"

text \<open>A structure constructed with members: each is registered in turn.\<close>

definition struct_of :: "tvalue list \<Rightarrow> istruct" where
  "struct_of vs = fold TBaseValue_SetDataHandle vs TStruct_make"

text \<open>The key and the data adapter of an owner, as its containers use them.\<close>

definition owner_of :: "'a istruct_scheme \<Rightarrow> u64 \<times> bool" where
  "owner_of s = (m_i64Key s, m_pDataHanle s)"

text \<open>
  \<open>TStruct::ValueChange\<close>: the field indices for which \<open>OnValueChange\<close> is called. \<open>rep\<close> is
  \<open>IsRepeated\<close> of the data handle's type; \<open>IRepeated::ValueChange\<close> does nothing.
\<close>

definition TStruct_ValueChange :: "bool \<Rightarrow> u32 \<Rightarrow> 'a istruct_scheme \<Rightarrow> u32 list res" where
  "TStruct_ValueChange rep iKeyFiled s =
     (if \<not> m_bNotifyValueChange s then Inr []
      else if \<not> m_pDataHanle s then Inl Null_deref
      else if rep then Inr [] else Inr [iKeyFiled])"

text \<open>\<open>Sync\<close> of the member with index \<open>k\<close>, with the calls of \<open>OnValueChange\<close>.\<close>

definition sync_member ::
  "bool \<Rightarrow> u32 \<Rightarrow> string \<Rightarrow> 'a istruct_scheme \<Rightarrow> (u32 list \<times> 'a istruct_scheme) res" where
  "sync_member rep k pStr s =
     (case map_of (m_mValue s) k of
        None \<Rightarrow> Inr ([], s)
      | Some v \<Rightarrow> rbind (TBaseValue_Sync pStr v) (\<lambda>(changed, v').
          (let s' = s\<lparr>m_mValue := om_put k v' (m_mValue s)\<rparr> in
           if changed then rbind (TStruct_ValueChange rep (m_KeyField v') s') (\<lambda>ev. Inr (ev, s'))
           else Inr ([], s'))))"

text \<open>\<open>IStruct::Sync(const SyncValue&)\<close>: only the values the program may not assign take the change.\<close>

definition Sync_value_step ::
  "bool \<Rightarrow> u32 \<times> string \<Rightarrow> u32 list \<times> 'a istruct_scheme \<Rightarrow> (u32 list \<times> 'a istruct_scheme) res" where
  "Sync_value_step rep = (\<lambda>(k, pStr) (evs, s).
     (case map_of (m_mValue s) k of
        Some v \<Rightarrow> if m_IsConst v then rbind (sync_member rep k pStr s) (\<lambda>(ev, s). Inr (evs @ ev, s))
                  else Inr (evs, s)
      | None \<Rightarrow> Inr (evs, s)))"

definition IStruct_Sync_value ::
  "bool \<Rightarrow> sync_value \<Rightarrow> 'a istruct_scheme \<Rightarrow> (u32 list \<times> 'a istruct_scheme) res" where
  "IStruct_Sync_value rep stVal s =
     (if m_mValue s = [] then Inr ([], s) else rfold (Sync_value_step rep) stVal ([], s))"


section \<open>Loading and saving\<close>

definition ivalues :: "'a istruct_scheme \<Rightarrow> value_map" where
  "ivalues s = map (\<lambda>(k, v). (k, ivalue_of v)) (m_mValue s)"

text \<open>The adapter synchronises members through the pointers of the value map.\<close>

definition apply_sync ::
  "bool \<Rightarrow> ivalue \<times> string \<Rightarrow> u32 list \<times> 'a istruct_scheme \<Rightarrow> fault option \<times> u32 list \<times> 'a istruct_scheme" where
  "apply_sync rep = (\<lambda>(v, pStr) (evs, s).
     (case sync_member rep (iv_KeyField v) pStr s of
        Inl e \<Rightarrow> (Some e, evs, s)
      | Inr (ev, s) \<Rightarrow> (None, evs @ ev, s)))"

definition load_values ::
  "bool \<Rightarrow> 'w loader \<Rightarrow> 'a istruct_scheme \<Rightarrow> 'w \<Rightarrow> bool res \<times> u32 list \<times> 'a istruct_scheme \<times> 'w" where
  "load_values rep load s w =
     (let (ok, syncs, w) = load (ivalues s) w;
          (e, evs, s) = efold (apply_sync rep) syncs ([], s)
      in (case e of None \<Rightarrow> ok | Some e \<Rightarrow> Inl e, evs, s, w))"

text \<open>What a container calls on its owner, given the owner's key and whether it has an adapter.\<close>

definition TStruct_Load_index :: "'w data_adapter \<Rightarrow> u64 \<times> bool \<Rightarrow> u64 \<Rightarrow> 'w loader" where
  "TStruct_Load_index A = (\<lambda>(key, handle) iIndex mValue w.
     if \<not> handle then (Inr False, [], w) else ad_Load_index A key iIndex mValue w)"

definition TStruct_Save_index ::
  "'w data_adapter \<Rightarrow> u64 \<times> bool \<Rightarrow> u64 \<Rightarrow> value_map \<Rightarrow> 'w \<Rightarrow> fault option \<times> 'w" where
  "TStruct_Save_index A = (\<lambda>(key, handle) iIndex mValue w.
     if \<not> handle then (Some Null_deref, w) else ad_Save_index A key iIndex mValue w)"

definition TStruct_SetValue_index ::
  "'w data_adapter \<Rightarrow> u64 \<times> bool \<Rightarrow> u64 \<Rightarrow> ivalue \<Rightarrow> 'w \<Rightarrow> 'w" where
  "TStruct_SetValue_index A = (\<lambda>(key, handle) iIndex value w.
     if handle then ad_SetValue_index A key iIndex value w else w)"

definition TStruct_AddRepeated ::
  "'w data_adapter \<Rightarrow> u64 \<times> bool \<Rightarrow> u64 \<Rightarrow> u32 \<Rightarrow> 'w \<Rightarrow> fault option \<times> 'w" where
  "TStruct_AddRepeated A = (\<lambda>(key, handle) i64Index iRedisKey w.
     if handle then ad_AddRepeated A key i64Index iRedisKey w else (None, w))"

definition TStruct_RemoveRepeated ::
  "'w data_adapter \<Rightarrow> u64 \<times> bool \<Rightarrow> u64 \<Rightarrow> u32 \<Rightarrow> 'w \<Rightarrow> fault option \<times> 'w" where
  "TStruct_RemoveRepeated A = (\<lambda>(key, handle) i64Index iRedisKey w.
     if handle then ad_RemoveRepeated A key i64Index iRedisKey w else (None, w))"

definition TStruct_GetAllKey ::
  "'w data_adapter \<Rightarrow> u64 \<times> bool \<Rightarrow> u32 \<Rightarrow> 'w \<Rightarrow> (u64 list res \<times> 'w) option" where
  "TStruct_GetAllKey A = (\<lambda>(key, handle) iKey w.
     if \<not> handle then Some (Inr [], w) else ad_GetAllKey A key iKey w)"

text \<open>What an element calls on its container.\<close>

definition TBaseRepeat_Load_index ::
  "'w data_adapter \<Rightarrow> u64 \<times> bool \<Rightarrow> trepeated \<Rightarrow> u64 \<Rightarrow> 'w loader" where
  "TBaseRepeat_Load_index A owner r iIndex mValue w =
     (if \<not> m_pHandle r then (Inr False, [], w) else TStruct_Load_index A owner iIndex mValue w)"

definition TBaseRepeat_Save_index ::
  "'w data_adapter \<Rightarrow> u64 \<times> bool \<Rightarrow> trepeated \<Rightarrow> u64 \<Rightarrow> value_map \<Rightarrow> 'w \<Rightarrow> fault option \<times> 'w" where
  "TBaseRepeat_Save_index A owner r iIndex mValue w =
     (if m_pHandle r then TStruct_Save_index A owner iIndex mValue w else (None, w))"

definition TBaseRepeat_SetValue ::
  "'w data_adapter \<Rightarrow> u64 \<times> bool \<Rightarrow> trepeated \<Rightarrow> u64 \<Rightarrow> ivalue \<Rightarrow> 'w \<Rightarrow> 'w" where
  "TBaseRepeat_SetValue A owner r iIndex value w =
     (if m_pHandle r then TStruct_SetValue_index A owner iIndex value w else w)"


section \<open>Elements of a container\<close>

text \<open>\<open>TStruct<IRepeated>\<close>: an element has no containers of its own.\<close>

definition element_SetDataHandle :: "istruct \<Rightarrow> istruct" where
  "element_SetDataHandle e = e\<lparr>m_pDataHanle := True\<rparr>"

definition element_Load ::
  "'w data_adapter \<Rightarrow> u64 \<times> bool \<Rightarrow> trepeated \<Rightarrow> istruct \<Rightarrow> 'w \<Rightarrow> bool res \<times> istruct \<times> 'w" where
  "element_Load A owner r e w =
     (if \<not> m_pDataHanle e then (Inr False, e, w)
      else let bNotify = m_bNotifyValueChange e;
               e = e\<lparr>m_bNotifyValueChange := False\<rparr>;
               (ok, evs, e, w) =
                 (if m_mValue e = [] then (Inr True, [], e, w)
                  else load_values True (TBaseRepeat_Load_index A owner r (m_i64Key e)) e w)
           in (case ok of
                 Inl f \<Rightarrow> (Inl f, e, w)
               | Inr bOK \<Rightarrow> (Inr bOK, e\<lparr>m_bNotifyValueChange := bNotify\<rparr>, w)))"

definition element_Save ::
  "'w data_adapter \<Rightarrow> u64 \<times> bool \<Rightarrow> trepeated \<Rightarrow> istruct \<Rightarrow> 'w \<Rightarrow> fault option \<times> 'w" where
  "element_Save A owner r e w =
     (if \<not> m_pDataHanle e then (None, w)
      else TBaseRepeat_Save_index A owner r (m_i64Key e) (ivalues e) w)"

text \<open>The assignment of a member of an element.\<close>

definition element_assign ::
  "'w data_adapter \<Rightarrow> u64 \<times> bool \<Rightarrow> trepeated \<Rightarrow> u32 \<Rightarrow> cell \<Rightarrow> istruct \<Rightarrow> 'w \<Rightarrow> (istruct \<times> 'w) res" where
  "element_assign A owner r k value e w =
     (case map_of (m_mValue e) k of
        None \<Rightarrow> Inr (e, w)
      | Some v \<Rightarrow> rbind (TValue_assign value v) (\<lambda>(changed, v').
          (let e' = e\<lparr>m_mValue := om_put k v' (m_mValue e)\<rparr> in
           Inr (e', if changed \<and> m_pDataHanle e
                    then TBaseRepeat_SetValue A owner r (m_i64Key e) (ivalue_of v') w else w))))"


section \<open>Containers\<close>

definition TBaseRepeat_make :: "u32 \<Rightarrow> value_type \<Rightarrow> trepeated" where
  "TBaseRepeat_make key vt = \<lparr> rep_key = key, rep_type = vt, m_pHandle = False, rep_mValue = [] \<rparr>"

text \<open>\<open>SetDataHandle\<close> of a container, called by the structure that has it as a member.\<close>

definition TBaseRepeat_SetDataHandle :: "trepeated \<Rightarrow> tstruct \<Rightarrow> tstruct" where
  "TBaseRepeat_SetDataHandle r s = IStruct_RegisRepeated (r\<lparr>m_pHandle := True\<rparr>) s"

definition TBaseRepeat_Get :: "u64 \<Rightarrow> trepeated \<Rightarrow> istruct option" where
  "TBaseRepeat_Get iIndex r = map_of (rep_mValue r) iIndex"

definition TBaseRepeat_Size :: "trepeated \<Rightarrow> u32" where
  "TBaseRepeat_Size r = of_nat (length (rep_mValue r))"

text \<open>
  One key of \<open>Load\<close>: a new element is loaded and, when that succeeds and the key is free, its
  copy enters the container; the element itself is destroyed.
\<close>

definition Load_element ::
  "'w data_adapter \<Rightarrow> u64 \<times> bool \<Rightarrow> u64 \<Rightarrow> trepeated \<times> 'w \<Rightarrow> fault option \<times> trepeated \<times> 'w" where
  "Load_element A owner it = (\<lambda>(r, w).
     (case element_Load A owner r (element_SetDataHandle (IStruct_SetKey it (vt_new (rep_type r)))) w of
        (Inl f, stData, w) \<Rightarrow> (Some f, r, w)
      | (Inr ok, stData, w) \<Rightarrow>
          (None, if ok \<and> map_of (rep_mValue r) it = None
                 then r\<lparr>rep_mValue := om_ins it (element_SetDataHandle (vt_copy (rep_type r) stData)) (rep_mValue r)\<rparr>
                 else r, w)))"

definition TBaseRepeat_Load ::
  "'w data_adapter \<Rightarrow> u64 \<times> bool \<Rightarrow> trepeated \<Rightarrow> 'w \<Rightarrow> (fault option \<times> trepeated \<times> 'w) option" where
  "TBaseRepeat_Load A owner r w =
     (if \<not> m_pHandle r then Some (Some Null_deref, r, w)
      else map_option (\<lambda>(ks, w). (case ks of
          Inl f \<Rightarrow> (Some f, r, w)
        | Inr listKey \<Rightarrow> efold (Load_element A owner) listKey (r, w)))
        (TStruct_GetAllKey A owner (rep_key r) w))"

text \<open>
  \<open>AddIndex\<close> works on the element in the container, made by \<open>operator[]\<close> when it is missing; the
  \<open>insert\<close> that follows finds the key taken.
\<close>

definition TBaseRepeat_AddIndex ::
  "'w data_adapter \<Rightarrow> u64 \<times> bool \<Rightarrow> u64 \<Rightarrow> trepeated \<times> 'w \<Rightarrow> fault option \<times> trepeated \<times> 'w" where
  "TBaseRepeat_AddIndex A owner iIndex = (\<lambda>(r, w).
     let stData = om_at iIndex (vt_new (rep_type r)) (rep_mValue r);
         stData = element_SetDataHandle (IStruct_SetKey iIndex stData);
         (ok, stData, w) = element_Load A owner r stData w
     in (case ok of Inl f \<Rightarrow> Some f | Inr _ \<Rightarrow> None,
         r\<lparr>rep_mValue := om_put iIndex stData (rep_mValue r)\<rparr>, w))"

definition TBaseRepeat_RemoveIndex :: "u64 \<Rightarrow> trepeated \<Rightarrow> trepeated" where
  "TBaseRepeat_RemoveIndex iIndex r = r\<lparr>rep_mValue := om_del iIndex (rep_mValue r)\<rparr>"

definition Sync_change ::
  "'w data_adapter \<Rightarrow> u64 \<times> bool \<Rightarrow> u64 \<times> bool \<Rightarrow> trepeated \<times> 'w \<Rightarrow> fault option \<times> trepeated \<times> 'w" where
  "Sync_change A owner = (\<lambda>(iIndex, add) (r, w).
     if add then TBaseRepeat_AddIndex A owner iIndex (r, w)
     else (None, TBaseRepeat_RemoveIndex iIndex r, w))"

definition Sync_element :: "u64 \<times> sync_value \<Rightarrow> trepeated \<Rightarrow> fault option \<times> trepeated" where
  "Sync_element = (\<lambda>(iIndex, stVal) r.
     (case map_of (rep_mValue r) iIndex of
        None \<Rightarrow> (None, r)
      | Some e \<Rightarrow>
          (case IStruct_Sync_value True stVal e of
             Inl f \<Rightarrow> (Some f, r)
           | Inr (_, e') \<Rightarrow> (None, r\<lparr>rep_mValue := om_put iIndex e' (rep_mValue r)\<rparr>))))"

definition TBaseRepeat_Sync ::
  "'w data_adapter \<Rightarrow> u64 \<times> bool \<Rightarrow> sync_repeated \<Rightarrow> trepeated \<Rightarrow> 'w \<Rightarrow> fault option \<times> trepeated \<times> 'w" where
  "TBaseRepeat_Sync A owner stRepeated r w =
     (case efold (Sync_change A owner) (vChange stRepeated) (r, w) of
        (Some f, r, w) \<Rightarrow> (Some f, r, w)
      | (None, r, w) \<Rightarrow>
          (let (e, r) = efold Sync_element (sr_mValue stRepeated) r in (e, r, w)))"

definition TBaseRepeat_Save ::
  "'w data_adapter \<Rightarrow> u64 \<times> bool \<Rightarrow> trepeated \<Rightarrow> 'w \<Rightarrow> fault option \<times> 'w" where
  "TBaseRepeat_Save A owner r w =
     efold (\<lambda>(_, e) w. element_Save A owner r e w) (rep_mValue r) w"

text \<open>\<open>TRepeated\<close>: adding a copy of a structure, and removing an element.\<close>

definition TRepeated_Add ::
  "'w data_adapter \<Rightarrow> u64 \<times> bool \<Rightarrow> istruct \<Rightarrow> u64 \<Rightarrow> trepeated \<Rightarrow> 'w \<Rightarrow> fault option \<times> bool \<times> trepeated \<times> 'w" where
  "TRepeated_Add A owner stData i64Index r w =
     (let key = IStruct_GetKey stData in
      if map_of (rep_mValue r) key \<noteq> None then (None, False, r, w)
      else let e = element_SetDataHandle (IStruct_SetKey i64Index (vt_copy (rep_type r) stData));
               r = r\<lparr>rep_mValue := om_put key e (rep_mValue r)\<rparr>
           in (case element_Save A owner r e w of
                 (Some f, w) \<Rightarrow> (Some f, False, r, w)
               | (None, w) \<Rightarrow>
                   (case (if m_pHandle r then TStruct_AddRepeated A owner i64Index (rep_key r) w else (None, w)) of
                      (f, w) \<Rightarrow> (f, f = None, r, w))))"

definition TRepeated_Remove ::
  "'w data_adapter \<Rightarrow> u64 \<times> bool \<Rightarrow> u64 \<Rightarrow> trepeated \<Rightarrow> 'w \<Rightarrow> fault option \<times> trepeated \<times> 'w" where
  "TRepeated_Remove A owner i64Index r w =
     (let r = r\<lparr>rep_mValue := om_del i64Index (rep_mValue r)\<rparr> in
      if \<not> m_pHandle r then (Some Null_deref, r, w)
      else let (e, w) = TStruct_RemoveRepeated A owner i64Index (rep_key r) w in (e, r, w))"


section \<open>Structures with containers\<close>

definition TStruct_SetDataHandle :: "'w data_adapter \<Rightarrow> nat \<Rightarrow> tstruct \<Rightarrow> 'w \<Rightarrow> tstruct \<times> 'w" where
  "TStruct_SetDataHandle A this s w =
     (s\<lparr>m_pDataHanle := True\<rparr>, ad_RegistStruct A (IStruct_GetKey s) this w)"

definition TStruct_destroy :: "'w data_adapter \<Rightarrow> nat \<Rightarrow> tstruct \<Rightarrow> 'w \<Rightarrow> 'w" where
  "TStruct_destroy A this s w =
     (if m_pDataHanle s then ad_UnRegistStruct A (IStruct_GetKey s) this w else w)"

definition TStruct_SetValue :: "'w data_adapter \<Rightarrow> ivalue \<Rightarrow> tstruct \<Rightarrow> 'w \<Rightarrow> 'w" where
  "TStruct_SetValue A value s w = (if m_pDataHanle s then ad_SetValue A (m_i64Key s) value w else w)"

definition TStruct_assign ::
  "'w data_adapter \<Rightarrow> u32 \<Rightarrow> cell \<Rightarrow> tstruct \<Rightarrow> 'w \<Rightarrow> (tstruct \<times> 'w) res" where
  "TStruct_assign A k value s w =
     (case map_of (m_mValue s) k of
        None \<Rightarrow> Inr (s, w)
      | Some v \<Rightarrow> rbind (TValue_assign value v) (\<lambda>(changed, v').
          (let s' = s\<lparr>m_mValue := om_put k v' (m_mValue s)\<rparr> in
           Inr (s', if changed then TStruct_SetValue A (ivalue_of v') s' w else w))))"

text \<open>\<open>it.second->Load()\<close> for every container, in key order.\<close>

fun Load_containers ::
  "'w data_adapter \<Rightarrow> u64 \<times> bool \<Rightarrow> (u64 \<times> trepeated) list \<Rightarrow> 'w \<Rightarrow>
   (fault option \<times> (u64 \<times> trepeated) list \<times> 'w) option" where
  "Load_containers A owner [] w = Some (None, [], w)"
| "Load_containers A owner ((k, r) # rs) w =
     (case TBaseRepeat_Load A owner r w of
        None \<Rightarrow> None
      | Some (Some f, r, w) \<Rightarrow> Some (Some f, (k, r) # rs, w)
      | Some (None, r, w) \<Rightarrow>
          map_option (\<lambda>(e, rs, w). (e, (k, r) # rs, w)) (Load_containers A owner rs w))"

definition TStruct_Load ::
  "'w data_adapter \<Rightarrow> tstruct \<Rightarrow> 'w \<Rightarrow> (bool res \<times> u32 list \<times> tstruct \<times> 'w) option" where
  "TStruct_Load A s w =
     (if \<not> m_pDataHanle s then Some (Inr False, [], s, w)
      else let bNotify = m_bNotifyValueChange s;
               s = s\<lparr>m_bNotifyValueChange := False\<rparr>;
               (ok, evs, s, w) =
                 (if m_mValue s = [] then (Inr True, [], s, w)
                  else load_values False (ad_Load A (m_i64Key s)) s w)
           in (case ok of
                 Inl f \<Rightarrow> Some (Inl f, evs, s, w)
               | Inr bOK \<Rightarrow>
                   map_option (\<lambda>(e, rs, w). (case e of
                       Some f \<Rightarrow> (Inl f, evs, s\<lparr>m_mRepeated := rs\<rparr>, w)
                     | None \<Rightarrow> (Inr bOK, evs, s\<lparr>m_mRepeated := rs, m_bNotifyValueChange := bNotify\<rparr>, w)))
                   (Load_containers A (owner_of s) (m_mRepeated s) w)))"

definition TStruct_Save_values :: "'w data_adapter \<Rightarrow> value_map \<Rightarrow> tstruct \<Rightarrow> 'w \<Rightarrow> fault option \<times> 'w" where
  "TStruct_Save_values A mValue s w = (if m_pDataHanle s then ad_Save A (m_i64Key s) mValue w else (None, w))"

definition TStruct_Save :: "'w data_adapter \<Rightarrow> tstruct \<Rightarrow> 'w \<Rightarrow> fault option \<times> 'w" where
  "TStruct_Save A s w =
     (if \<not> m_pDataHanle s then (None, w)
      else case ad_Save A (m_i64Key s) (ivalues s) w of
          (Some f, w) \<Rightarrow> (Some f, w)
        | (None, w) \<Rightarrow> efold (\<lambda>(_, r) w. TBaseRepeat_Save A (owner_of s) r w) (m_mRepeated s) w)"

text \<open>\<open>IStruct::Sync(const SyncStruct&)\<close>, with the calls of \<open>OnValueChange\<close>.\<close>

definition Sync_container ::
  "'w data_adapter \<Rightarrow> u32 \<times> sync_repeated \<Rightarrow> tstruct \<times> 'w \<Rightarrow> fault option \<times> tstruct \<times> 'w" where
  "Sync_container A = (\<lambda>(k, stRepeated) (s, w).
     (case map_of (m_mRepeated s) (ucast k) of
        None \<Rightarrow> (None, s, w)
      | Some r \<Rightarrow>
          (let (e, r, w) = TBaseRepeat_Sync A (owner_of s) stRepeated r w in
           (e, s\<lparr>m_mRepeated := om_put (ucast k) r (m_mRepeated s)\<rparr>, w))))"

definition IStruct_Sync ::
  "'w data_adapter \<Rightarrow> sync_struct \<Rightarrow> tstruct \<Rightarrow> 'w \<Rightarrow> fault option \<times> u32 list \<times> tstruct \<times> 'w" where
  "IStruct_Sync A stStruct s w =
     (case IStruct_Sync_value False (stValue stStruct) s of
        Inl f \<Rightarrow> (Some f, [], s, w)
      | Inr (evs, s) \<Rightarrow>
          (let (e, s, w) = efold (Sync_container A) (mRepeated stStruct) (s, w) in (e, evs, s, w)))"


section \<open>The data of the example program\<close>

text \<open>
  \<open>Test/DataDesc.h\<close>: its copy constructor copies the members and constructs the base anew, so
  the copy has key 0 and no data handle; the members are registered with the copy.
\<close>

definition bagequip_data :: istruct where
  "bagequip_data = struct_of [TValue_make (Cell_u32 0) 0x100, TValue_make (Cell_u32 0) 0x101]"

definition bagequip_data_copy :: "istruct \<Rightarrow> istruct" where
  "bagequip_data_copy other = struct_of (map snd (m_mValue other))"

definition bagequip_type :: value_type where
  "bagequip_type = \<lparr> vt_new = bagequip_data, vt_copy = bagequip_data_copy \<rparr>"

definition player_base_data :: tstruct where
  "player_base_data = TBaseRepeat_SetDataHandle (TBaseRepeat_make 0x100 bagequip_type)
     (istruct.extend (struct_of [TValue_make (Cell_u32 0) 0, TBaseValue_make (Cell_u32 0) 1])
        \<lparr> m_mRepeated = [] \<rparr>)"

definition DataDesc_Index_Regist :: key_field_mgr where
  "DataDesc_Index_Regist = reg_run
     [Reg_key ''player.base'' 0, Reg_package ''player_base'' 0,
      Reg_field ''Level'' 0 FT_uint32_t, Reg_field ''Nation'' 1 FT_uint32_t, Reg_field ''Offical'' 2 FT_uint32_t,
      Reg_key ''player.bagequip'' 0x100, Reg_repeated ''player_bagequip'' 0x100,
      Reg_field ''ConfigId'' 0x100 FT_uint32_t, Reg_field ''Level'' 0x101 FT_uint32_t,
      Reg_key ''monster.base'' 0x10000, Reg_package ''monster_base'' 0x10000,
      Reg_field ''Level'' 0x10000 FT_uint32_t]"

end
