(* ===== verification/Data_Types.thy ===== *)
theory Data_Types
  imports Data_Model
begin

text \<open>
  What every operation of the data model keeps: the members of a structure, their field indices
  and their types, and for a container that all its elements are structures of its element type
  in key order, attached to the container.
\<close>

section \<open>Signatures\<close>

fun cell_type :: "cell \<Rightarrow> field_type" where
  "cell_type (Cell_u32 _) = FT_uint32_t"
| "cell_type (Cell_i32 _) = FT_int32_t"
| "cell_type (Cell_i64 _) = FT_int64_t"
| "cell_type (Cell_u64 _) = FT_uint64_t"
| "cell_type (Cell_string _) = FT_string"
| "cell_type (Cell_bool _) = FT_bool"

definition value_sig :: "tvalue \<Rightarrow> u32 \<times> field_type \<times> bool \<times> bool" where
  "value_sig v = (m_KeyField v, cell_type (m_Value v), m_IsConst v, m_pDataHandle v)"

definition signature :: "'a istruct_scheme \<Rightarrow> (u32 \<times> u32 \<times> field_type \<times> bool \<times> bool) list" where
  "signature s = map (\<lambda>(k, v). (k, value_sig v)) (m_mValue s)"

definition struct_wf :: "'a istruct_scheme \<Rightarrow> bool" where
  "struct_wf s \<longleftrightarrow> om_wf (m_mValue s) \<and> (\<forall>k v. map_of (m_mValue s) k = Some v \<longrightarrow> m_KeyField v = k)"

text \<open>A structure of the same type as another.\<close>

definition like :: "'a istruct_scheme \<Rightarrow> 'b istruct_scheme \<Rightarrow> bool" where
  "like s t \<longleftrightarrow> struct_wf s \<and> signature s = signature t"

lemma like_upd [simp]:
  "like (s\<lparr>m_i64Key := x\<rparr>) t = like s t"
  "like (s\<lparr>m_bNotifyValueChange := b\<rparr>) t = like s t"
  "like (s\<lparr>m_pDataHanle := b\<rparr>) t = like s t"
  "like s (t\<lparr>m_i64Key := x\<rparr>) = like s t"
  "like s (t\<lparr>m_bNotifyValueChange := b\<rparr>) = like s t"
  "like s (t\<lparr>m_pDataHanle := b\<rparr>) = like s t"
  by (simp_all add: like_def struct_wf_def signature_def)

lemma like_refl: "struct_wf s \<Longrightarrow> like s s"
  by (simp add: like_def)

lemma like_trans: "like s t \<Longrightarrow> like t u \<Longrightarrow> like s u"
  by (simp add: like_def)

lemma om_put_same:
  "om_wf m \<Longrightarrow> map_of m k = Some v \<Longrightarrow> f v' = f v \<Longrightarrow>
     map (\<lambda>(k, v). (k, f v)) (om_put k v' m) = map (\<lambda>(k, v). (k, f v)) m"
proof (induction k v' m rule: om_put.induct)
  case (2 k v' a b m)
  have "\<not> k < a"
    using 2(2,3) by (cases "k = a") (fastforce simp: om_wf_Cons dest: map_of_SomeD)+
  with 2 show ?case by (auto simp: om_wf_Cons)
qed simp

lemma put_member_like:
  assumes "struct_wf s" and "map_of (m_mValue s) k = Some v" and "value_sig v' = value_sig v"
  shows "like (s\<lparr>m_mValue := om_put k v' (m_mValue s)\<rparr>) s"
proof -
  have wf: "om_wf (m_mValue s)" using assms(1) by (simp add: struct_wf_def)
  have "m_KeyField v' = k" using assms by (simp add: struct_wf_def value_sig_def)
  then have "struct_wf (s\<lparr>m_mValue := om_put k v' (m_mValue s)\<rparr>)"
    using assms(1) by (simp add: struct_wf_def)
  then show ?thesis
    using om_put_same [OF wf assms(2), of value_sig v'] assms(3) by (simp add: like_def signature_def)
qed

lemma cell_get_type: "cell_get t c = Inr c' \<Longrightarrow> cell_type c' = cell_type c"
proof (cases c)
  case (Cell_string x)
  then show "cell_get t c = Inr c' \<Longrightarrow> cell_type c' = cell_type c"
    by (cases "get_string_cstr t") auto
qed auto

lemma TBaseValue_Sync_sig: "TBaseValue_Sync t v = Inr (n, v') \<Longrightarrow> value_sig v' = value_sig v"
  by (auto simp: TBaseValue_Sync_def value_sig_def dest!: cell_get_type split: sum.splits if_splits)

lemma TValue_assign_sig:
  "TValue_assign c v = Inr (n, v') \<Longrightarrow> cell_type c = cell_type (m_Value v) \<Longrightarrow> value_sig v' = value_sig v"
  by (auto simp: TValue_assign_def value_sig_def split: if_splits)


section \<open>Synchronising\<close>

text \<open>The rest of a structure, which synchronising leaves alone.\<close>

definition same_head :: "'a istruct_scheme \<Rightarrow> 'a istruct_scheme \<Rightarrow> bool" where
  "same_head s t \<longleftrightarrow> m_i64Key s = m_i64Key t \<and> m_bNotifyValueChange s = m_bNotifyValueChange t \<and>
     m_pDataHanle s = m_pDataHanle t \<and> istruct.more s = istruct.more t"

lemma same_head_refl [simp]: "same_head s s"
  by (simp add: same_head_def)

lemma same_head_trans: "same_head s t \<Longrightarrow> same_head t u \<Longrightarrow> same_head s u"
  by (simp add: same_head_def)

lemma sync_member_like:
  assumes "struct_wf s" and "sync_member rep k t s = Inr (ev, s')"
  shows "like s' s \<and> same_head s' s"
proof (cases "map_of (m_mValue s) k")
  case None
  then show ?thesis using assms by (simp add: sync_member_def like_refl)
next
  case (Some v)
  then obtain n v' where v': "TBaseValue_Sync t v = Inr (n, v')"
    "s' = s\<lparr>m_mValue := om_put k v' (m_mValue s)\<rparr>"
    using assms(2) by (auto simp: sync_member_def Let_def rbind_Inr_conv split: if_splits)
  then show ?thesis
    using put_member_like [OF assms(1) Some TBaseValue_Sync_sig [OF v'(1)]] by (simp add: same_head_def)
qed

lemma like_struct_wf: "like s t \<Longrightarrow> struct_wf s"
  by (simp add: like_def)

lemma Sync_value_stepE:
  assumes "Sync_value_step rep (k, t) (evs, u) = Inr b"
  obtains "b = (evs, u)" | ev u' where "sync_member rep k t u = Inr (ev, u')" "b = (evs @ ev, u')"
  using assms by (auto simp: Sync_value_step_def rbind_Inr_conv split: option.splits if_splits)

lemma IStruct_Sync_value_like:
  fixes s :: "'a istruct_scheme"
  assumes "struct_wf s" and "IStruct_Sync_value rep vs s = Inr (ev, s')"
  shows "like s' s \<and> same_head s' s"
proof (cases "m_mValue s = []")
  case True
  then show ?thesis using assms by (simp add: IStruct_Sync_value_def like_refl)
next
  case False
  let ?P = "\<lambda>(evs :: u32 list, t :: 'a istruct_scheme). like t s \<and> same_head t s"
  have "?P (ev, s')"
  proof (rule rfold_invariant [where P = ?P])
    show "rfold (Sync_value_step rep) vs ([], s) = Inr (ev, s')"
      using assms(2) False by (simp add: IStruct_Sync_value_def)
    show "?P ([], s)" using assms(1) by (simp add: like_refl)
  next
    fix x :: "u32 \<times> string" and a b :: "u32 list \<times> 'a istruct_scheme"
    obtain k t evs u where x: "x = (k, t)" "a = (evs, u)" by (meson surj_pair)
    assume P: "?P a" and step: "Sync_value_step rep x a = Inr b"
    then have u: "like u s" "same_head u s" by (simp_all add: x)
    from step [unfolded x] show "?P b"
    proof (cases rule: Sync_value_stepE)
      case 1
      then show ?thesis using u by simp
    next
      case (2 ev u')
      have "like u' u \<and> same_head u' u" using sync_member_like [OF like_struct_wf [OF u(1)] 2(1)] .
      then have "like u' s \<and> same_head u' s" using u like_trans same_head_trans by metis
      then show ?thesis by (simp add: 2(2))
    qed
  qed
  then show ?thesis by simp
qed

lemma efold_invariant:
  assumes "P s" and "\<And>x s. P s \<Longrightarrow> P (snd (f x s))"
  shows "P (snd (efold f xs s))"
  using assms(1)
proof (induction xs arbitrary: s)
  case Nil
  then show ?case by simp
next
  case (Cons x xs)
  obtain e t where f: "f x s = (e, t)" by (rule prod.exhaust)
  then have "P t" using assms(2) [OF Cons.prems, of x] by simp
  with Cons.IH f show ?case by (cases e) simp_all
qed

lemma apply_syncs_like:
  fixes s :: "'a istruct_scheme"
  assumes "struct_wf s" and "efold (apply_sync rep) syncs (evs0, s) = (e, evs, s')"
  shows "like s' s \<and> same_head s' s"
proof -
  let ?P = "\<lambda>p :: u32 list \<times> 'a istruct_scheme. like (snd p) s \<and> same_head (snd p) s"
  have "?P (snd (efold (apply_sync rep) syncs (evs0, s)))"
  proof (rule efold_invariant)
    show "?P (evs0, s)" using assms(1) by (simp add: like_refl)
  next
    fix x :: "ivalue \<times> string" and a :: "u32 list \<times> 'a istruct_scheme"
    assume P: "?P a"
    obtain v t evs u where x: "x = (v, t)" "a = (evs, u)" by (meson surj_pair)
    show "?P (snd (apply_sync rep x a))"
    proof (cases "sync_member rep (iv_KeyField v) t u")
      case (Inl f)
      then show ?thesis using P by (simp add: apply_sync_def x)
    next
      case (Inr r)
      obtain ev u' where r: "r = (ev, u')" by (rule prod.exhaust)
      have "like u' u \<and> same_head u' u"
        using sync_member_like [OF _ Inr [unfolded r]] P by (simp add: x like_def)
      then have "like u' s \<and> same_head u' s"
        using P like_trans same_head_trans by (metis snd_conv x(2))
      then show ?thesis using Inr by (simp add: apply_sync_def x r)
    qed
  qed
  then show ?thesis using assms(2) by simp
qed

lemma load_values_like:
  assumes "struct_wf s" and "load_values rep load s w = (ok, evs, s', w')"
  shows "like s' s \<and> same_head s' s"
proof -
  obtain ok1 syncs w1 where "load (ivalues s) w = (ok1, syncs, w1)" by (metis prod_cases3)
  moreover obtain e evs1 s1 where "efold (apply_sync rep) syncs ([], s) = (e, evs1, s1)" by (metis prod_cases3)
  ultimately show ?thesis
    using assms apply_syncs_like [OF assms(1)] by (auto simp: load_values_def)
qed


section \<open>Elements and containers\<close>

lemma element_Load_like:
  assumes "struct_wf e" and "element_Load A owner r e w = (ok, e', w')"
  shows "like e' e \<and> m_i64Key e' = m_i64Key e \<and> m_pDataHanle e' = m_pDataHanle e"
proof (cases "m_pDataHanle e")
  case False
  then show ?thesis using assms by (simp add: element_Load_def like_refl)
next
  case True
  let ?e = "e\<lparr>m_bNotifyValueChange := False\<rparr>"
  let ?l = "if m_mValue ?e = [] then (Inr True, [], ?e, w)
            else load_values True (TBaseRepeat_Load_index A owner r (m_i64Key ?e)) ?e w"
  obtain ok1 evs e1 w1 where l: "?l = (ok1, evs, e1, w1)" by (metis prod_cases4)
  have wf: "struct_wf ?e" using assms(1) by (simp add: struct_wf_def)
  have "like e1 ?e \<and> same_head e1 ?e"
  proof (cases "m_mValue ?e = []")
    case True
    then show ?thesis using l wf by (auto simp: like_refl)
  next
    case False
    then show ?thesis using l load_values_like [OF wf] by simp
  qed
  moreover have "e' = e1 \<or> e' = e1\<lparr>m_bNotifyValueChange := m_bNotifyValueChange e\<rparr>"
    using assms(2) True l by (cases ok1) (auto simp: element_Load_def Let_def split_def)
  ultimately show ?thesis using True by (auto simp: same_head_def)
qed

text \<open>An element type whose default value and copies are structures of one signature.\<close>

definition vt_ok :: "value_type \<Rightarrow> bool" where
  "vt_ok vt \<longleftrightarrow> struct_wf (vt_new vt) \<and> (\<forall>s. like s (vt_new vt) \<longrightarrow> like (vt_copy vt s) (vt_new vt))"

definition element_ok :: "trepeated \<Rightarrow> istruct \<Rightarrow> bool" where
  "element_ok r e \<longleftrightarrow> like e (vt_new (rep_type r)) \<and> m_pDataHanle e"

definition container_ok :: "value_type \<Rightarrow> trepeated \<Rightarrow> bool" where
  "container_ok vt r \<longleftrightarrow> rep_type r = vt \<and> vt_ok vt \<and> om_wf (rep_mValue r) \<and>
     (\<forall>i e. map_of (rep_mValue r) i = Some e \<longrightarrow> element_ok r e)"

lemma container_ok_put:
  assumes "container_ok vt r" and "element_ok r e"
  shows "container_ok vt (r\<lparr>rep_mValue := om_put i e (rep_mValue r)\<rparr>)"
  using assms by (auto simp: container_ok_def element_ok_def)

lemma container_ok_del: "container_ok vt r \<Longrightarrow> container_ok vt (r\<lparr>rep_mValue := om_del i (rep_mValue r)\<rparr>)"
  by (auto simp: container_ok_def element_ok_def)

lemma container_ok_handle [simp]: "container_ok vt (r\<lparr>m_pHandle := b\<rparr>) = container_ok vt r"
  by (simp add: container_ok_def element_ok_def)

lemma new_element_like:
  "vt_ok (rep_type r) \<Longrightarrow> like (element_SetDataHandle (IStruct_SetKey i (vt_new (rep_type r)))) (vt_new (rep_type r))"
  by (simp add: element_SetDataHandle_def IStruct_SetKey_def vt_ok_def like_refl)

lemma Load_element_ok:
  assumes "container_ok vt r"
  shows "container_ok vt (fst (snd (Load_element A owner i (r, w))))"
proof -
  let ?e = "element_SetDataHandle (IStruct_SetKey i (vt_new (rep_type r)))"
  obtain ok st w1 where l: "element_Load A owner r ?e w = (ok, st, w1)" by (metis prod_cases3)
  have vt: "vt_ok (rep_type r)" using assms by (simp add: container_ok_def)
  note e = new_element_like [OF vt, of i]
  have "like st (vt_new (rep_type r))"
    using element_Load_like [OF like_struct_wf [OF e] l] e like_trans by blast
  then have "element_ok r (element_SetDataHandle (vt_copy (rep_type r) st))"
    using vt by (simp add: element_ok_def element_SetDataHandle_def vt_ok_def)
  then show ?thesis
    using assms l container_ok_put [OF assms]
    by (cases ok) (simp_all add: Load_element_def om_ins_def split: option.split)
qed

lemma efold_container:
  assumes "container_ok vt r" and "\<And>x r w. container_ok vt r \<Longrightarrow> container_ok vt (fst (snd (f x (r, w))))"
  shows "container_ok vt (fst (snd (efold f xs (r, w))))"
proof -
  have "container_ok vt (fst (snd (f x p)))" if "container_ok vt (fst p)" for x p
    using assms(2) [of "fst p" x "snd p"] that by simp
  then show ?thesis using efold_invariant [of "\<lambda>p. container_ok vt (fst p)" "(r, w)" f xs] assms(1) by simp
qed

lemma TBaseRepeat_Load_ok:
  assumes "container_ok vt r" and "TBaseRepeat_Load A owner r w = Some (e, r', w')"
  shows "container_ok vt r'"
proof (cases "m_pHandle r")
  case True
  then obtain ks w1 where ks: "(case ks of Inl f \<Rightarrow> (Some f, r, w1)
      | Inr listKey \<Rightarrow> efold (Load_element A owner) listKey (r, w1)) = (e, r', w')"
    using assms(2) by (auto simp: TBaseRepeat_Load_def)
  show ?thesis
  proof (cases ks)
    case (Inr l)
    have "container_ok vt (fst (snd (efold (Load_element A owner) l (r, w1))))"
      by (rule efold_container [where f = "Load_element A owner", OF assms(1)]) (rule Load_element_ok)
    then show ?thesis using ks Inr by simp
  qed (use assms(1) ks in auto)
qed (use assms in \<open>auto simp: TBaseRepeat_Load_def\<close>)

lemma TBaseRepeat_AddIndex_ok:
  assumes "container_ok vt r"
  shows "container_ok vt (fst (snd (TBaseRepeat_AddIndex A owner i (r, w))))"
proof -
  let ?e = "om_at i (vt_new (rep_type r)) (rep_mValue r)"
  let ?e' = "element_SetDataHandle (IStruct_SetKey i ?e)"
  have vt: "vt_ok (rep_type r)" using assms by (simp add: container_ok_def)
  have "like ?e (vt_new (rep_type r))"
    using assms vt by (auto simp: om_at_def container_ok_def element_ok_def vt_ok_def like_refl split: option.split)
  then have e': "like ?e' (vt_new (rep_type r))" "m_pDataHanle ?e'"
    by (simp_all add: element_SetDataHandle_def IStruct_SetKey_def)
  obtain ok st w1 where l: "element_Load A owner r ?e' w = (ok, st, w1)" by (metis prod_cases3)
  have "element_ok r st"
    using element_Load_like [OF like_struct_wf [OF e'(1)] l] e' like_trans unfolding element_ok_def by blast
  then show ?thesis using container_ok_put [OF assms] l by (simp add: TBaseRepeat_AddIndex_def Let_def)
qed

lemma Sync_change_ok:
  "container_ok vt r \<Longrightarrow> container_ok vt (fst (snd (Sync_change A owner c (r, w))))"
  using TBaseRepeat_AddIndex_ok [of vt r A owner "fst c" w]
  by (cases c) (simp add: Sync_change_def TBaseRepeat_RemoveIndex_def container_ok_del)

lemma Sync_element_ok:
  assumes "container_ok vt r"
  shows "container_ok vt (snd (Sync_element c r))"
proof -
  obtain i vs where c: "c = (i, vs)" by (rule prod.exhaust)
  show ?thesis
  proof (cases "map_of (rep_mValue r) i")
    case None
    then show ?thesis using assms by (simp add: Sync_element_def c)
  next
    case (Some e)
    then have e: "element_ok r e" using assms by (simp add: container_ok_def)
    show ?thesis
    proof (cases "IStruct_Sync_value True vs e")
      case (Inl f)
      then show ?thesis using assms Some by (simp add: Sync_element_def c)
    next
      case (Inr p)
      obtain evs e' where p: "p = (evs, e')" by (rule prod.exhaust)
      have "like e' e \<and> same_head e' e"
        using IStruct_Sync_value_like [OF _ Inr [unfolded p]] e by (simp add: element_ok_def like_def)
      then have "element_ok r e'" using e like_trans unfolding element_ok_def same_head_def by blast
      then show ?thesis using Some Inr p container_ok_put [OF assms] by (simp add: Sync_element_def c)
    qed
  qed
qed

lemma TBaseRepeat_Sync_ok:
  assumes "container_ok vt r"
  shows "container_ok vt (fst (snd (TBaseRepeat_Sync A owner st r w)))"
proof -
  obtain e r1 w1 where s: "efold (Sync_change A owner) (vChange st) (r, w) = (e, r1, w1)" by (metis prod_cases3)
  have "container_ok vt r1"
    using efold_container [where f = "Sync_change A owner", OF assms Sync_change_ok, of "vChange st" w] s by simp
  then have "container_ok vt (snd (efold Sync_element (sr_mValue st) r1))"
    using efold_invariant [of "container_ok vt" r1 Sync_element] Sync_element_ok by blast
  with \<open>container_ok vt r1\<close> show ?thesis
    by (cases e) (simp_all add: TBaseRepeat_Sync_def s split_def Let_def)
qed

lemma TRepeated_Add_ok:
  assumes "container_ok vt r" and "like stData (vt_new (rep_type r))"
  shows "container_ok vt (fst (snd (snd (TRepeated_Add A owner stData i r w))))"
proof -
  let ?e = "element_SetDataHandle (IStruct_SetKey i (vt_copy (rep_type r) stData))"
  have "element_ok r ?e"
    using assms by (simp add: element_ok_def element_SetDataHandle_def IStruct_SetKey_def container_ok_def vt_ok_def)
  from container_ok_put [OF assms(1) this] show ?thesis
    using assms(1) by (simp add: TRepeated_Add_def Let_def split_def split: option.split prod.split)
qed

lemma TRepeated_Remove_ok:
  "container_ok vt r \<Longrightarrow> container_ok vt (fst (snd (TRepeated_Remove A owner i r w)))"
  by (simp add: TRepeated_Remove_def Let_def split_def container_ok_del)

lemma element_assign_ok:
  assumes "container_ok vt r" and "map_of (rep_mValue r) i = Some e"
    and "map_of (m_mValue e) k = Some v" and "cell_type c = cell_type (m_Value v)"
    and "element_assign A owner r k c e w = Inr (e', w')"
  shows "container_ok vt (r\<lparr>rep_mValue := om_put i e' (rep_mValue r)\<rparr>)"
proof -
  have e: "like e (vt_new (rep_type r))" "m_pDataHanle e"
    using assms(1,2) by (auto simp: container_ok_def element_ok_def)
  from assms(3,5) obtain n v' where v': "TValue_assign c v = Inr (n, v')"
    "e' = e\<lparr>m_mValue := om_put k v' (m_mValue e)\<rparr>"
    by (auto simp: element_assign_def rbind_Inr_conv Let_def)
  have "like e' e"
    using put_member_like [OF like_struct_wf [OF e(1)] assms(3) TValue_assign_sig [OF v'(1) assms(4)]] v'(2) by simp
  then have "element_ok r e'" using e v'(2) like_trans unfolding element_ok_def by auto
  then show ?thesis by (rule container_ok_put [OF assms(1)])
qed


section \<open>Reachable containers\<close>

text \<open>
  The states of a container under any sequence of its operations, whatever the adapter answers
  and whichever operation throws: it is attached to its owner, loaded, synchronised, structures
  of its element type are added, elements are removed and their members assigned values of
  their types.
\<close>

inductive container_run :: "'w data_adapter \<Rightarrow> u64 \<times> bool \<Rightarrow> u32 \<Rightarrow> value_type \<Rightarrow> trepeated \<Rightarrow> bool"
  for A :: "'w data_adapter" and owner key vt where
  made: "container_run A owner key vt (TBaseRepeat_make key vt)"
| attached: "container_run A owner key vt r \<Longrightarrow> container_run A owner key vt (r\<lparr>m_pHandle := True\<rparr>)"
| loaded: "container_run A owner key vt r \<Longrightarrow> TBaseRepeat_Load A owner r w = Some (e, r', w') \<Longrightarrow>
    container_run A owner key vt r'"
| synced: "container_run A owner key vt r \<Longrightarrow> TBaseRepeat_Sync A owner st r w = (e, r', w') \<Longrightarrow>
    container_run A owner key vt r'"
| added: "container_run A owner key vt r \<Longrightarrow> like stData (vt_new vt) \<Longrightarrow>
    TRepeated_Add A owner stData i r w = (e, ok, r', w') \<Longrightarrow> container_run A owner key vt r'"
| removed: "container_run A owner key vt r \<Longrightarrow> TRepeated_Remove A owner i r w = (e, r', w') \<Longrightarrow>
    container_run A owner key vt r'"
| assigned: "container_run A owner key vt r \<Longrightarrow> map_of (rep_mValue r) i = Some e \<Longrightarrow>
    map_of (m_mValue e) k = Some v \<Longrightarrow> cell_type c = cell_type (m_Value v) \<Longrightarrow>
    element_assign A owner r k c e w = Inr (e', w') \<Longrightarrow>
    container_run A owner key vt (r\<lparr>rep_mValue := om_put i e' (rep_mValue r)\<rparr>)"


lemma container_run_ok:
  assumes "container_run A owner key vt r" and "vt_ok vt"
  shows "container_ok vt r"
  using assms(1)
proof induction
  case made
  then show ?case using assms(2) by (simp add: container_ok_def TBaseRepeat_make_def)
next
  case (attached r)
  then show ?case by simp
next
  case (loaded r w e r' w')
  show ?case by (rule TBaseRepeat_Load_ok [OF loaded.IH loaded.hyps(2)])
next
  case (synced r st w e r' w')
  then show ?case using TBaseRepeat_Sync_ok [of vt r A owner st w] by simp
next
  case (added r stData i w e ok r' w')
  moreover have "rep_type r = vt" using added.IH by (simp add: container_ok_def)
  ultimately show ?case using TRepeated_Add_ok [of vt r stData A owner i w] by simp
next
  case (removed r i w e r' w')
  then show ?case using TRepeated_Remove_ok [of vt r A owner i w] by simp
next
  case (assigned r i e k v c w e' w')
  show ?case by (rule element_assign_ok [OF assigned.IH assigned.hyps(2-5)])
qed

lemma signature_upd [simp]:
  "signature (s\<lparr>m_i64Key := x\<rparr>) = signature s"
  "signature (s\<lparr>m_bNotifyValueChange := b\<rparr>) = signature s"
  "signature (s\<lparr>m_pDataHanle := b\<rparr>) = signature s"
  by (simp_all add: signature_def)

lemma struct_of_wf_step:
  "struct_wf s \<Longrightarrow> struct_wf (TBaseValue_SetDataHandle v s)"
  by (auto simp: struct_wf_def TBaseValue_SetDataHandle_def IStruct_RegistValue_def map_of_om_ins)

lemma struct_of_wf: "struct_wf (struct_of vs)"
proof -
  have "struct_wf (fold TBaseValue_SetDataHandle vs s)" if "struct_wf s" for s :: istruct
    using that by (induction vs arbitrary: s) (simp_all add: struct_of_wf_step)
  moreover have "struct_wf TStruct_make" by (simp add: struct_wf_def TStruct_make_def)
  ultimately show ?thesis by (simp add: struct_of_def)
qed

text \<open>A copy that registers the members of another structure with a new one.\<close>

lemma om_put_last: "om_wf (m @ [(k, v)]) \<Longrightarrow> om_put k v m = m @ [(k, v)]"
proof (induction m)
  case (Cons x m)
  obtain a b where x: "x = (a, b)" by (rule prod.exhaust)
  with Cons.prems have "a < k" "om_wf (m @ [(k, v)])" by (auto simp: om_wf_Cons)
  with Cons.IH x show ?case by auto
qed simp

lemma map_of_none: "k \<notin> fst ` set m \<Longrightarrow> map_of m k = None"
  by (simp add: map_of_eq_None_iff)

lemma copied_members:
  assumes "om_wf m" and "\<forall>(k, v) \<in> set m. m_KeyField v = k"
  shows "m_mValue (struct_of (map snd m)) = map (\<lambda>(k, v). (k, v\<lparr>m_pDataHandle := True\<rparr>)) m"
proof -
  have "m_mValue (fold TBaseValue_SetDataHandle (map snd m) s) =
      m_mValue s @ map (\<lambda>(k, v). (k, v\<lparr>m_pDataHandle := True\<rparr>)) m"
    if "om_wf (m_mValue s @ m)" "\<forall>(k, v) \<in> set m. m_KeyField v = k" for s :: istruct and m
    using that
  proof (induction m arbitrary: s)
    case (Cons x m)
    obtain k v where x: "x = (k, v)" by (rule prod.exhaust)
    let ?v = "v\<lparr>m_pDataHandle := True\<rparr>"
    have k: "m_KeyField v = k" using Cons.prems(2) x by simp
    have "om_wf (m_mValue s @ [(k, ?v)])" "k \<notin> fst ` set (m_mValue s)"
      using Cons.prems(1) by (auto simp: x om_wf_def sorted_wrt_append)
    then have "m_mValue (TBaseValue_SetDataHandle v s) = m_mValue s @ [(k, ?v)]"
      using om_put_last [of "m_mValue s" k ?v]
      by (simp add: TBaseValue_SetDataHandle_def IStruct_RegistValue_def om_ins_def k map_of_none)
    moreover have "om_wf ((m_mValue s @ [(k, ?v)]) @ m)"
      using Cons.prems(1) by (simp add: x om_wf_def)
    ultimately show ?case using Cons.IH [of "TBaseValue_SetDataHandle v s"] Cons.prems(2) by (simp add: x)
  qed simp
  from this [of TStruct_make m] assms show ?thesis by (simp add: struct_of_def TStruct_make_def)
qed

lemma struct_wf_members: "struct_wf s \<Longrightarrow> \<forall>(k, v) \<in> set (m_mValue s). m_KeyField v = k"
  using om_wf_distinct by (fastforce simp: struct_wf_def)

lemma copy_like:
  assumes "like s t" and "\<forall>(k, f, ty, c, h) \<in> set (signature t). h"
  shows "like (struct_of (map snd (m_mValue s))) t"
proof -
  have wf: "struct_wf s" and sg: "signature s = signature t" using assms(1) by (simp_all add: like_def)
  have h: "m_pDataHandle v" if "(k, v) \<in> set (m_mValue s)" for k v
  proof -
    have "(k, value_sig v) \<in> set (signature s)" using that by (force simp: signature_def)
    then show ?thesis using assms(2) sg by (auto simp: value_sig_def)
  qed
  have "m_mValue (struct_of (map snd (m_mValue s))) = map (\<lambda>(k, v). (k, v\<lparr>m_pDataHandle := True\<rparr>)) (m_mValue s)"
    using copied_members [OF _ struct_wf_members [OF wf]] wf by (simp add: struct_wf_def)
  then have "signature (struct_of (map snd (m_mValue s))) = signature s"
    using h by (auto simp: signature_def value_sig_def)
  then show ?thesis using sg struct_of_wf by (simp add: like_def)
qed

lemma bagequip_members:
  "m_mValue bagequip_data =
     [(0x100, (TValue_make (Cell_u32 0) 0x100)\<lparr>m_pDataHandle := True\<rparr>),
      (0x101, (TValue_make (Cell_u32 0) 0x101)\<lparr>m_pDataHandle := True\<rparr>)]"
  by (simp add: bagequip_data_def struct_of_def TStruct_make_def TBaseValue_SetDataHandle_def
      IStruct_RegistValue_def om_ins_def TValue_make_def TBaseValue_make_def)

lemma bagequip_type_ok: "vt_ok bagequip_type"
proof -
  have "\<forall>(k, f, ty, c, h) \<in> set (signature bagequip_data). h"
    by (simp add: signature_def bagequip_members value_sig_def)
  then show ?thesis
    using copy_like struct_of_wf
    by (auto simp: vt_ok_def bagequip_type_def bagequip_data_copy_def bagequip_data_def)
qed

text \<open>
  Containers are well-typed: whatever operations ran, whatever the adapter answered and
  whichever of them threw, the elements of a container are in strict key order, and every
  element has exactly the members of the element type, with their field indices and types and
  the same assignable ones, and is attached to the container.
\<close>

theorem container_elements_typed:
  assumes "container_run A owner key vt r" and "vt_ok vt"
  shows "sorted_wrt (<) (map fst (rep_mValue r)) \<and>
    (\<forall>i e. TBaseRepeat_Get i r = Some e \<longrightarrow> signature e = signature (vt_new vt) \<and> m_pDataHanle e)"
  using container_run_ok [OF assms]
  by (auto simp: container_ok_def element_ok_def like_def om_wf_def TBaseRepeat_Get_def)

theorem container_elements_typed_witness:
  "let r = fst (snd (snd (TRepeated_Add (redis_data_adapter demo_redis DataDesc_Index_Regist) (10000, True)
       bagequip_data 10 ((TBaseRepeat_make 0x100 bagequip_type)\<lparr>m_pHandle := True\<rparr>) demo_world)))
   in sorted_wrt (<) (map fst (rep_mValue r)) \<and>
    (\<forall>i e. TBaseRepeat_Get i r = Some e \<longrightarrow> signature e = signature (vt_new bagequip_type) \<and> m_pDataHanle e)"
proof -
  let ?A = "redis_data_adapter demo_redis DataDesc_Index_Regist"
  let ?r = "(TBaseRepeat_make 0x100 bagequip_type)\<lparr>m_pHandle := True\<rparr>"
  obtain e ok r' w' where r': "TRepeated_Add ?A (10000, True) bagequip_data 10 ?r demo_world = (e, ok, r', w')"
    by (metis prod_cases4)
  have "like bagequip_data (vt_new bagequip_type)"
    using bagequip_type_ok by (simp add: bagequip_type_def vt_ok_def like_refl)
  then have "container_run ?A (10000, True) 0x100 bagequip_type r'"
    using added [OF attached [OF made] _ r'] by blast
  from container_elements_typed [OF this bagequip_type_ok] show ?thesis unfolding Let_def r' fst_conv snd_conv .
qed


section \<open>What a container holds\<close>

text \<open>
  The loads that \<open>Load\<close> performs for the indices redis holds, one after the other: the index,
  the outcome and the element afterwards. An exception ends them.
\<close>

fun element_loads ::
  "'w data_adapter \<Rightarrow> u64 \<times> bool \<Rightarrow> trepeated \<Rightarrow> u64 list \<Rightarrow> 'w \<Rightarrow> (u64 \<times> bool res \<times> istruct) list \<times> 'w" where
  "element_loads A owner r [] w = ([], w)"
| "element_loads A owner r (i # is) w =
     (case element_Load A owner r (element_SetDataHandle (IStruct_SetKey i (vt_new (rep_type r)))) w of
        (Inl f, e, w) \<Rightarrow> ([(i, Inl f, e)], w)
      | (Inr ok, e, w) \<Rightarrow>
          (let (ls, w) = element_loads A owner r is w in ((i, Inr ok, e) # ls, w)))"

text \<open>The element of the first load of an index that succeeded.\<close>

definition first_loaded :: "(u64 \<times> bool res \<times> istruct) list \<Rightarrow> u64 \<Rightarrow> istruct option" where
  "first_loaded ls i = map_of (map (\<lambda>(i, _, e). (i, e)) (filter (\<lambda>(_, ok, _). ok = Inr True) ls)) i"

definition raised :: "(u64 \<times> bool res \<times> istruct) list \<Rightarrow> fault option" where
  "raised ls = (if ls = [] then None else case fst (snd (last ls)) of Inl f \<Rightarrow> Some f | Inr _ \<Rightarrow> None)"

lemma first_loaded_simps [simp]:
  "first_loaded [] = (\<lambda>_. None)"
  "first_loaded ((i, ok, e) # ls) = (if ok = Inr True then (first_loaded ls)(i \<mapsto> e) else first_loaded ls)"
  by (auto simp: first_loaded_def fun_eq_iff)

lemma load_upd: "TBaseRepeat_Load_index A owner (r\<lparr>rep_mValue := m\<rparr>) = TBaseRepeat_Load_index A owner r"
  by (simp add: fun_eq_iff TBaseRepeat_Load_index_def)

lemma element_Load_upd [simp]:
  "element_Load A owner (r\<lparr>rep_mValue := m\<rparr>) e w = element_Load A owner r e w"
  by (simp add: element_Load_def load_upd Let_def)

lemma element_loads_upd [simp]:
  "element_loads A owner (r\<lparr>rep_mValue := m\<rparr>) is w = element_loads A owner r is w"
  by (induction "is" arbitrary: w) (simp_all split: sum.splits prod.splits)

lemma raised_Cons [simp]:
  "raised ((i, Inr ok, e) # ls) = raised ls" "raised [(i, Inl f, e)] = Some f" "raised [] = None"
  by (simp_all add: raised_def)

lemma Load_elements:
  assumes "element_loads A owner r is w = (ls, w')"
  shows "\<exists>m. efold (Load_element A owner) is (r, w) = (raised ls, r\<lparr>rep_mValue := m\<rparr>, w') \<and>
    map_of m = (\<lambda>i. map_option (\<lambda>e. element_SetDataHandle (vt_copy (rep_type r) e)) (first_loaded ls i)) ++ map_of (rep_mValue r)"
  using assms
proof (induction "is" arbitrary: r w ls)
  case Nil
  then have "ls = []" "w' = w" by simp_all
  then show ?case by (intro exI [of _ "rep_mValue r"]) (auto simp: fun_eq_iff map_add_def split: option.splits)
next
  case (Cons i "is")
  let ?c = "\<lambda>e. element_SetDataHandle (vt_copy (rep_type r) e)"
  obtain ok e w1 where l: "element_Load A owner r (element_SetDataHandle (IStruct_SetKey i (vt_new (rep_type r)))) w = (ok, e, w1)"
    by (metis prod_cases3)
  show ?case
  proof (cases ok)
    case (Inl f)
    with Cons.prems l have "ls = [(i, Inl f, e)]" "w' = w1" by simp_all
    with l Inl show ?thesis
      by (intro exI [of _ "rep_mValue r"]) (auto simp: Load_element_def fun_eq_iff map_add_def split: option.splits)
  next
    case (Inr b)
    obtain ls' where ls: "element_loads A owner r is w1 = (ls', w')" "ls = (i, Inr b, e) # ls'"
      using Cons.prems l Inr by (auto split: prod.splits)
    let ?m = "if b \<and> map_of (rep_mValue r) i = None then om_ins i (?c e) (rep_mValue r) else rep_mValue r"
    have step: "Load_element A owner i (r, w) = (None, r\<lparr>rep_mValue := ?m\<rparr>, w1)"
      using l Inr by (simp add: Load_element_def)
    have "element_loads A owner (r\<lparr>rep_mValue := ?m\<rparr>) is w1 = (ls', w')" using ls(1) by simp
    from Cons.IH [OF this] obtain m where m:
      "efold (Load_element A owner) is (r\<lparr>rep_mValue := ?m\<rparr>, w1) = (raised ls', r\<lparr>rep_mValue := m\<rparr>, w')"
      "map_of m = (\<lambda>i. map_option ?c (first_loaded ls' i)) ++ map_of ?m" by (simp del: map_of_om_ins) blast
    have "map_of m = (\<lambda>i. map_option ?c (first_loaded ls i)) ++ map_of (rep_mValue r)"
      unfolding m(2) ls(2) by (auto simp: fun_eq_iff map_add_def map_of_om_ins split: option.splits)
    then show ?thesis using step m(1) ls(2) by auto
  qed
qed

text \<open>
  C13. What loading puts into a container, in every state of it and for every adapter: when the
  container has an owner and the adapter names the indices redis holds, \<open>Load\<close> tries them in
  order up to the first exception and ends as the last attempt does. An index the container had
  keeps its element; any other has an element afterwards exactly when an attempt for it
  succeeded, and then a copy of what its first success loaded, attached to the container.
  Elements whose load fails are not entered.
\<close>

theorem load_fills_container:
  assumes "m_pHandle r" and "TStruct_GetAllKey A owner (rep_key r) w = Some (Inr listKey, w1)"
    and "element_loads A owner r listKey w1 = (ls, w2)"
  shows "\<exists>r'. TBaseRepeat_Load A owner r w = Some (raised ls, r', w2) \<and>
    (\<forall>i. TBaseRepeat_Get i r' = (case TBaseRepeat_Get i r of Some e \<Rightarrow> Some e
       | None \<Rightarrow> map_option (\<lambda>e. element_SetDataHandle (vt_copy (rep_type r) e)) (first_loaded ls i)))"
proof -
  from Load_elements [OF assms(3)] obtain m where m:
    "efold (Load_element A owner) listKey (r, w1) = (raised ls, r\<lparr>rep_mValue := m\<rparr>, w2)"
    "map_of m = (\<lambda>i. map_option (\<lambda>e. element_SetDataHandle (vt_copy (rep_type r) e)) (first_loaded ls i)) ++ map_of (rep_mValue r)"
    by blast
  then show ?thesis
    using assms(1,2)
    by (auto simp: TBaseRepeat_Load_def TBaseRepeat_Get_def map_add_def comp_def split: option.splits)
qed

lemma Sync_change_member:
  assumes "om_wf (rep_mValue r)" and "Sync_change A owner (j, add) (r, w) = (f, r', w')"
  shows "om_wf (rep_mValue r') \<and> (TBaseRepeat_Get i r' \<noteq> None \<longleftrightarrow> (if i = j then add else TBaseRepeat_Get i r \<noteq> None))
    \<and> (i \<noteq> j \<longrightarrow> TBaseRepeat_Get i r' = TBaseRepeat_Get i r)"
  using assms
  by (auto simp: Sync_change_def TBaseRepeat_AddIndex_def TBaseRepeat_RemoveIndex_def TBaseRepeat_Get_def Let_def
      split: if_splits prod.splits)

lemma Sync_changes_members:
  assumes "om_wf (rep_mValue r)" and "efold (Sync_change A owner) cs (r, w) = (None, r', w')"
  shows "om_wf (rep_mValue r') \<and> (TBaseRepeat_Get i r' \<noteq> None \<longleftrightarrow>
      (case map_of (rev cs) i of Some add \<Rightarrow> add | None \<Rightarrow> TBaseRepeat_Get i r \<noteq> None)) \<and>
    (i \<notin> fst ` set cs \<longrightarrow> TBaseRepeat_Get i r' = TBaseRepeat_Get i r)"
  using assms
proof (induction cs arbitrary: r w)
  case (Cons c cs)
  obtain j add where c: "c = (j, add)" by (rule prod.exhaust)
  obtain f r1 w1 where s: "Sync_change A owner (j, add) (r, w) = (f, r1, w1)" by (metis prod_cases3)
  with Cons.prems(2) c have e: "efold (Sync_change A owner) cs (r1, w1) = (None, r', w')"
    by (cases f) simp_all
  note one = Sync_change_member [OF Cons.prems(1) s, of i]
  from Cons.IH [OF _ e] one show ?case by (auto simp: c map_add_def split: option.splits)
qed simp

lemma Sync_elements_members:
  assumes "efold Sync_element es r = (f, r')"
  shows "(TBaseRepeat_Get i r' \<noteq> None \<longleftrightarrow> TBaseRepeat_Get i r \<noteq> None) \<and>
    (i \<notin> fst ` set es \<longrightarrow> TBaseRepeat_Get i r' = TBaseRepeat_Get i r)"
  using assms
proof (induction es arbitrary: r)
  case (Cons c es)
  obtain j vs where c: "c = (j, vs)" by (rule prod.exhaust)
  obtain g r1 where s: "Sync_element (j, vs) r = (g, r1)" by (rule prod.exhaust)
  then have one: "(TBaseRepeat_Get i r1 \<noteq> None \<longleftrightarrow> TBaseRepeat_Get i r \<noteq> None) \<and>
      (i \<noteq> j \<longrightarrow> TBaseRepeat_Get i r1 = TBaseRepeat_Get i r)"
    by (auto simp: Sync_element_def TBaseRepeat_Get_def split: option.splits sum.splits prod.splits if_splits)
  show ?case
  proof (cases g)
    case None
    with Cons.prems s c have "efold Sync_element es r1 = (f, r')" by simp
    from Cons.IH [OF this] one show ?thesis by (auto simp: c)
  next
    case (Some h)
    with Cons.prems s c have "r' = r1" by simp
    with one show ?thesis by (auto simp: c)
  qed
qed simp

definition half_loaded :: "((string \<times> string) \<times> string) list world data_adapter" where
  "half_loaded = (redis_data_adapter demo_redis DataDesc_Index_Regist)
     \<lparr>ad_GetAllKey := (\<lambda>_ _ w. Some (Inr [10, 11], w)), ad_Load_index := (\<lambda>_ i _ w. (Inr (i = 10), [], w))\<rparr>"

lemma half_loads:
  "element_Load half_loaded (10000, True) ((TBaseRepeat_make 0x100 bagequip_type)\<lparr>m_pHandle := True\<rparr>)
     (element_SetDataHandle (IStruct_SetKey i bagequip_data)) w =
   (Inr (i = 10), element_SetDataHandle (IStruct_SetKey i bagequip_data), w)"
proof -
  have "m_mValue bagequip_data \<noteq> []" by (simp add: bagequip_members)
  then show ?thesis
    by (simp add: element_Load_def element_SetDataHandle_def IStruct_SetKey_def load_values_def half_loaded_def
      TBaseRepeat_Load_index_def TStruct_Load_index_def TBaseRepeat_make_def Let_def)
qed

theorem load_fills_container_witness:
  "\<exists>r'. TBaseRepeat_Load half_loaded (10000, True) ((TBaseRepeat_make 0x100 bagequip_type)\<lparr>m_pHandle := True\<rparr>)
       demo_world = Some (None, r', demo_world) \<and>
    TBaseRepeat_Get 10 r' = Some (element_SetDataHandle (bagequip_data_copy (element_SetDataHandle (IStruct_SetKey 10 bagequip_data)))) \<and>
    TBaseRepeat_Get 11 r' = None"
proof -
  let ?r = "(TBaseRepeat_make 0x100 bagequip_type)\<lparr>m_pHandle := True\<rparr>"
  let ?e = "\<lambda>i. element_SetDataHandle (IStruct_SetKey i bagequip_data)"
  have vt: "vt_new (rep_type ?r) = bagequip_data" "vt_copy (rep_type ?r) = bagequip_data_copy"
    by (simp_all add: TBaseRepeat_make_def bagequip_type_def)
  have h: "m_pHandle ?r" by simp
  have g: "TStruct_GetAllKey half_loaded (10000, True) (rep_key ?r) demo_world = Some (Inr [10, 11], demo_world)"
    by (simp add: TStruct_GetAllKey_def half_loaded_def)
  have l: "element_loads half_loaded (10000, True) ?r [10, 11] demo_world =
      ([(10, Inr True, ?e 10), (11, Inr False, ?e 11)], demo_world)"
    by (simp only: element_loads.simps vt half_loads) simp
  have "TBaseRepeat_Get i ?r = None" for i by (simp add: TBaseRepeat_make_def TBaseRepeat_Get_def)
  with load_fills_container [OF h g l] show ?thesis unfolding vt by fastforce
qed

lemma struct_of_key: "m_i64Key (struct_of vs) = 0"
proof -
  have "m_i64Key (fold TBaseValue_SetDataHandle vs s) = m_i64Key s" for s :: istruct
    by (induction vs arbitrary: s) (simp_all add: TBaseValue_SetDataHandle_def IStruct_RegistValue_def)
  then show ?thesis by (simp add: struct_of_def TStruct_make_def)
qed

text \<open>
  The elements of the example program lose their key when a container is loaded: \<open>Load\<close> enters
  a copy, whose copy constructor makes the base anew, and sets the key of the original only. The
  element under the index has key 0, under which its later changes and saves are recorded.
\<close>

theorem loaded_element_key_lost:
  assumes "rep_type r = bagequip_type" and "TBaseRepeat_Load A owner r w = Some (f, r', w')"
    and "TBaseRepeat_Get i r = None" and "TBaseRepeat_Get i r' = Some e"
  shows "IStruct_GetKey e = 0"
proof (cases "m_pHandle r")
  case False
  with assms show ?thesis by (auto simp: TBaseRepeat_Load_def)
next
  case True
  then obtain ks w1 where g: "TStruct_GetAllKey A owner (rep_key r) w = Some (ks, w1)"
    using assms(2) by (auto simp: TBaseRepeat_Load_def)
  show ?thesis
  proof (cases ks)
    case (Inl x)
    with True g assms show ?thesis by (auto simp: TBaseRepeat_Load_def)
  next
    case (Inr l)
    obtain ls w2 where ls: "element_loads A owner r l w1 = (ls, w2)" by (rule prod.exhaust)
    from Load_elements [OF ls] obtain m where
      "efold (Load_element A owner) l (r, w1) = (raised ls, r\<lparr>rep_mValue := m\<rparr>, w2)"
      "map_of m = (\<lambda>i. map_option (\<lambda>e. element_SetDataHandle (vt_copy (rep_type r) e)) (first_loaded ls i)) ++
         map_of (rep_mValue r)" by blast
    with True g Inr assms show ?thesis
      by (auto simp: TBaseRepeat_Load_def TBaseRepeat_Get_def map_add_def bagequip_type_def bagequip_data_copy_def
        element_SetDataHandle_def IStruct_GetKey_def struct_of_key)
  qed
qed

theorem loaded_element_key_lost_witness:
  "\<exists>r' e. TBaseRepeat_Load half_loaded (10000, True) ((TBaseRepeat_make 0x100 bagequip_type)\<lparr>m_pHandle := True\<rparr>)
       demo_world = Some (None, r', demo_world) \<and> TBaseRepeat_Get 10 r' = Some e \<and> IStruct_GetKey e = 0"
proof -
  let ?r = "(TBaseRepeat_make 0x100 bagequip_type)\<lparr>m_pHandle := True\<rparr>"
  let ?e = "\<lambda>i. element_SetDataHandle (IStruct_SetKey i bagequip_data)"
  have vt: "rep_type ?r = bagequip_type" "vt_new bagequip_type = bagequip_data"
    by (simp_all add: TBaseRepeat_make_def bagequip_type_def)
  have l: "element_loads half_loaded (10000, True) ?r [10, 11] demo_world =
      ([(10, Inr True, ?e 10), (11, Inr False, ?e 11)], demo_world)"
    by (simp only: element_loads.simps vt half_loads) simp
  have "TBaseRepeat_Load half_loaded (10000, True) ?r demo_world =
      map_option (\<lambda>(ks, w). efold (Load_element half_loaded (10000, True)) [10, 11] (?r, demo_world)) (Some ((), ()))"
    by (simp add: TBaseRepeat_Load_def TStruct_GetAllKey_def half_loaded_def)
  moreover obtain m where m:
    "efold (Load_element half_loaded (10000, True)) [10, 11] (?r, demo_world) = (None, ?r\<lparr>rep_mValue := m\<rparr>, demo_world)"
    "map_of m = (\<lambda>i. map_option (\<lambda>e. element_SetDataHandle (vt_copy (rep_type ?r) e))
       (first_loaded [(10, Inr True, ?e 10), (11, Inr False, ?e 11)] i)) ++ map_of (rep_mValue ?r)"
    using Load_elements [OF l] by auto
  moreover have "map_of (rep_mValue ?r) i = None" for i by (simp add: TBaseRepeat_make_def)
  ultimately show ?thesis
    using loaded_element_key_lost [OF vt(1), of half_loaded "(10000, True)" demo_world None "?r\<lparr>rep_mValue := m\<rparr>" demo_world 10]
    by (auto simp: TBaseRepeat_Get_def map_add_def)
qed

text \<open>
  What a synchronisation that does not throw makes of the indices of a container: an index is
  in it exactly when the last change of the index added it, or, without a change, when it was
  in it before; elements neither changed nor named are the same. An index that is added has an
  element even when loading it failed.
\<close>

theorem sync_follows_changes:
  assumes "om_wf (rep_mValue r)" and "TBaseRepeat_Sync A owner st r w = (None, r', w')"
  shows "(TBaseRepeat_Get i r' \<noteq> None \<longleftrightarrow> (case map_of (rev (vChange st)) i of
       Some add \<Rightarrow> add | None \<Rightarrow> TBaseRepeat_Get i r \<noteq> None)) \<and>
    (i \<notin> fst ` set (vChange st) \<and> i \<notin> fst ` set (sr_mValue st) \<longrightarrow> TBaseRepeat_Get i r' = TBaseRepeat_Get i r)"
proof -
  obtain f r1 w1 where c: "efold (Sync_change A owner) (vChange st) (r, w) = (f, r1, w1)" by (metis prod_cases3)
  obtain g r2 where e: "efold Sync_element (sr_mValue st) r1 = (g, r2)" by (rule prod.exhaust)
  from assms(2) c e have "f = None" "r' = r2" by (auto simp: TBaseRepeat_Sync_def split: option.splits)
  with Sync_changes_members [OF assms(1), of A owner "vChange st" w r1 w1 i] Sync_elements_members [OF e, of i] c
  show ?thesis by auto
qed

lemma half_add:
  "TBaseRepeat_AddIndex half_loaded (10000, True) i (r, w) =
     (None, r\<lparr>rep_mValue := om_put i (element_SetDataHandle (IStruct_SetKey i bagequip_data)) (rep_mValue r)\<rparr>, w)"
  if "rep_type r = bagequip_type" "m_pHandle r" "TBaseRepeat_Get i r = None"
proof -
  have "m_mValue bagequip_data \<noteq> []" by (simp add: bagequip_members)
  with that show ?thesis
    by (simp add: TBaseRepeat_AddIndex_def om_at_def TBaseRepeat_Get_def bagequip_type_def element_Load_def
      element_SetDataHandle_def IStruct_SetKey_def load_values_def half_loaded_def
      TBaseRepeat_Load_index_def TStruct_Load_index_def Let_def)
qed

theorem sync_follows_changes_witness:
  "\<exists>r'. TBaseRepeat_Sync half_loaded (10000, True)
      \<lparr> sr_mValue = [], vChange = [(10, True), (11, True), (10, False)] \<rparr>
      ((TBaseRepeat_make 0x100 bagequip_type)\<lparr>m_pHandle := True\<rparr>) demo_world = (None, r', demo_world) \<and>
    TBaseRepeat_Get 10 r' = None \<and> TBaseRepeat_Get 11 r' \<noteq> None"
proof -
  let ?r = "(TBaseRepeat_make 0x100 bagequip_type)\<lparr>m_pHandle := True\<rparr>"
  let ?st = "\<lparr> sr_mValue = [], vChange = [(10, True), (11, True), (10, False)] \<rparr> :: sync_repeated"
  have "\<exists>r'. TBaseRepeat_Sync half_loaded (10000, True) ?st ?r demo_world = (None, r', demo_world)"
    by (simp add: TBaseRepeat_Sync_def Sync_change_def half_add TBaseRepeat_make_def TBaseRepeat_Get_def)
  then obtain r' where r': "TBaseRepeat_Sync half_loaded (10000, True) ?st ?r demo_world = (None, r', demo_world)" ..
  have "om_wf (rep_mValue ?r)" by (simp add: TBaseRepeat_make_def)
  from sync_follows_changes [OF this r', of 10] sync_follows_changes [OF this r', of 11] r' show ?thesis by auto
qed

end
