(* ===== verification/Data_Sharing.thy ===== *)
theory Data_Sharing
  imports Data_Types
begin

text \<open>
  The data model over the redis adapter: an element added by one process is read back by
  another, and the paths on which elements or notifications are lost.
\<close>

section \<open>Values and their texts\<close>

text \<open>The values whose text is read back as the value.\<close>

fun cell_dom :: "cell \<Rightarrow> bool" where
  "cell_dom (Cell_u32 v) \<longleftrightarrow> unat v < 2 ^ 31"
| "cell_dom (Cell_i32 v) \<longleftrightarrow> clamp 32 v = v"
| "cell_dom (Cell_i64 v) \<longleftrightarrow> clamp 64 v = v"
| "cell_dom (Cell_u64 v) \<longleftrightarrow> unat v < 2 ^ 63"
| "cell_dom (Cell_string s) \<longleftrightarrow> CHR 0x00 \<notin> set s \<and> CHR ''|'' \<notin> set s \<and> CHR '':'' \<notin> set s"
| "cell_dom (Cell_bool _) \<longleftrightarrow> True"

lemma cell_read_back: "cell_dom c \<Longrightarrow> cell_type c' = cell_type c \<Longrightarrow> cell_get (cell_text c) c' = Inr c"
  using u32_cstr.dec_enc i32_cstr.dec_enc i64_cstr.dec_enc u64_cstr.dec_enc string_cstr.dec_enc [simplified]
    bool_cstr.dec_enc
  by (cases c; cases c'; simp)

definition cells :: "'a istruct_scheme \<Rightarrow> (u32 \<times> cell) list" where
  "cells s = map (\<lambda>(k, v). (k, m_Value v)) (m_mValue s)"

lemma map_of_cells: "map_of (cells s) k = map_option m_Value (map_of (m_mValue s) k)"
  by (simp add: cells_def map_of_map)

lemma cells_keys: "map fst (cells s) = map fst (m_mValue s)"
  by (simp add: cells_def split_def comp_def)

lemma like_keys: "like s t \<Longrightarrow> map fst (m_mValue s) = map fst (m_mValue t)"
proof -
  have "map fst (signature u) = map fst (m_mValue u)" for u :: "'c istruct_scheme"
    by (simp add: signature_def split_def comp_def)
  moreover have "map fst (signature u) = map fst (m_mValue u)" for u :: "'d istruct_scheme"
    by (simp add: signature_def split_def comp_def)
  ultimately show "like s t \<Longrightarrow> map fst (m_mValue s) = map fst (m_mValue t)"
    by (metis like_def)
qed

lemma map_of_ext:
  assumes "map fst xs = map fst ys" and "distinct (map fst xs)" and "\<And>k. map_of xs k = map_of ys k"
  shows "xs = ys"
proof (rule nth_equalityI)
  show len: "length xs = length ys" using assms(1) by (metis length_map)
  fix i
  assume i: "i < length xs"
  have k: "fst (xs ! i) = fst (ys ! i)" using assms(1) i len by (metis nth_map)
  have "map_of xs (fst (xs ! i)) = Some (snd (xs ! i))" using assms(2) i by (simp add: map_of_eq_Some_iff)
  moreover have "map_of ys (fst (ys ! i)) = Some (snd (ys ! i))"
    using assms(1,2) i len by (simp add: map_of_eq_Some_iff)
  ultimately show "xs ! i = ys ! i" using assms(3) [of "fst (xs ! i)"] k by (simp add: prod_eq_iff)
qed

lemma like_member_sig:
  assumes "like s t" and "map_of (m_mValue s) k = Some v"
  shows "\<exists>v'. map_of (m_mValue t) k = Some v' \<and> value_sig v' = value_sig v"
proof -
  have "map_of (signature s) k = map_option value_sig (map_of (m_mValue s) k)"
    "map_of (signature t) k = map_option value_sig (map_of (m_mValue t) k)"
    by (simp_all add: signature_def map_of_map)
  then show ?thesis using assms by (auto simp: like_def)
qed


section \<open>Applying what was loaded\<close>

lemma sync_member_cell:
  assumes "map_of (m_mValue s) k = Some v" and "m_pDataHandle v" and "\<not> m_bNotifyValueChange s"
    and "cell_get t (m_Value v) = Inr c"
  shows "sync_member rep k t s = Inr ([], s\<lparr>m_mValue := om_put k (v\<lparr>m_Value := c\<rparr>) (m_mValue s)\<rparr>)"
  using assms by (simp add: sync_member_def TBaseValue_Sync_def TStruct_ValueChange_def Let_def)

text \<open>Every member can take the texts of \<open>syncs\<close>, and these give it the value \<open>target\<close>.\<close>

definition syncs_ok :: "(u32 \<Rightarrow> cell) \<Rightarrow> (ivalue \<times> string) list \<Rightarrow> 'a istruct_scheme \<Rightarrow> bool" where
  "syncs_ok target syncs s \<longleftrightarrow> (\<forall>v t. (v, t) \<in> set syncs \<longrightarrow>
     (\<exists>x. map_of (m_mValue s) (iv_KeyField v) = Some x \<and> m_pDataHandle x \<and>
        (\<forall>c. cell_type c = cell_type (m_Value x) \<longrightarrow> cell_get t c = Inr (target (iv_KeyField v)))))"

lemma syncs_ok_like:
  assumes "syncs_ok target syncs s" and "like s' s"
  shows "syncs_ok target syncs s'"
  unfolding syncs_ok_def
proof (intro allI impI)
  fix v t
  assume "(v, t) \<in> set syncs"
  then obtain x where x: "map_of (m_mValue s) (iv_KeyField v) = Some x" "m_pDataHandle x"
    "\<And>c. cell_type c = cell_type (m_Value x) \<Longrightarrow> cell_get t c = Inr (target (iv_KeyField v))"
    using assms(1) unfolding syncs_ok_def by blast
  have "map_of (signature s') (iv_KeyField v) = map_of (signature s) (iv_KeyField v)"
    using assms(2) by (simp add: like_def)
  then obtain x' where "map_of (m_mValue s') (iv_KeyField v) = Some x'" "value_sig x' = value_sig x"
    using x(1) by (auto simp: signature_def map_of_map)
  then show "\<exists>x. map_of (m_mValue s') (iv_KeyField v) = Some x \<and> m_pDataHandle x \<and>
      (\<forall>c. cell_type c = cell_type (m_Value x) \<longrightarrow> cell_get t c = Inr (target (iv_KeyField v)))"
    using x(2,3) by (intro exI [of _ x']) (auto simp: value_sig_def)
qed

lemma apply_syncs_cells:
  assumes "struct_wf s" and "\<not> m_bNotifyValueChange s" and "syncs_ok target syncs s"
  shows "\<exists>s'. efold (apply_sync rep) syncs (evs, s) = (None, evs, s') \<and>
    (\<forall>k. map_of (cells s') k =
      (if k \<in> iv_KeyField ` fst ` set syncs then Some (target k) else map_of (cells s) k))"
  using assms
proof (induction syncs arbitrary: s)
  case Nil
  then show ?case by simp
next
  case (Cons y syncs)
  obtain v t where y: "y = (v, t)" by (rule prod.exhaust)
  let ?k = "iv_KeyField v"
  obtain x where x: "map_of (m_mValue s) ?k = Some x" "m_pDataHandle x"
    "cell_get t (m_Value x) = Inr (target ?k)"
    using Cons.prems(3) [unfolded syncs_ok_def, rule_format, of v t] y by auto
  let ?x = "x\<lparr>m_Value := target ?k\<rparr>"
  let ?s = "s\<lparr>m_mValue := om_put ?k ?x (m_mValue s)\<rparr>"
  have step: "sync_member rep ?k t s = Inr ([], ?s)" by (rule sync_member_cell [OF x(1,2) Cons.prems(2) x(3)])
  have like: "like ?s s" using sync_member_like [OF Cons.prems(1) step] by blast
  have "syncs_ok target syncs s" using Cons.prems(3) by (auto simp: syncs_ok_def)
  from Cons.IH [OF like_struct_wf [OF like] _ syncs_ok_like [OF this like]] Cons.prems(2)
  obtain s' where "efold (apply_sync rep) syncs (evs, ?s) = (None, evs, s')"
    "\<And>k. map_of (cells s') k = (if k \<in> iv_KeyField ` fst ` set syncs then Some (target k) else map_of (cells ?s) k)"
    by auto
  then show ?case using step by (auto simp: y apply_sync_def map_of_cells)
qed


section \<open>An element added here and read there\<close>

text \<open>
  What an element type's copying has to keep, and what has to be known of the members: their
  names are registered, no two share one, and their texts are words that are read back.
\<close>

definition copies_cells :: "value_type \<Rightarrow> bool" where
  "copies_cells vt \<longleftrightarrow> (\<forall>s. like s (vt_new vt) \<longrightarrow> cells (vt_copy vt s) = cells s)"

definition members_storable :: "key_field_mgr \<Rightarrow> 'a istruct_scheme \<Rightarrow> bool" where
  "members_storable mgr s \<longleftrightarrow> (\<forall>(k, v) \<in> set (m_mValue s). storable mgr (ivalue_of v))"

definition members_named :: "key_field_mgr \<Rightarrow> 'a istruct_scheme \<Rightarrow> bool" where
  "members_named mgr s \<longleftrightarrow> (\<forall>k \<in> fst ` set (m_mValue s). \<forall>k' \<in> fst ` set (m_mValue s).
     FindKeyField mgr k = FindKeyField mgr k' \<longrightarrow> k = k')"

text \<open>A command that publishes leaves the hashes alone.\<close>

definition publish_keeps :: "'r redis_command \<Rightarrow> ('r \<Rightarrow> string \<times> string \<Rightarrow> string option) \<Rightarrow> bool" where
  "publish_keeps redisCommand hget \<longleftrightarrow> (\<forall>s r. hget (snd (redisCommand (''publish '' @ s) r)) = hget r)"

lemma ivalues_KeyField:
  assumes "struct_wf s" and "members_storable mgr s"
  shows "\<forall>(k, v) \<in> set (ivalues s). iv_KeyField v = k \<and> storable mgr v"
  using struct_wf_members [OF assms(1)] assms(2)
  by (fastforce simp: ivalues_def members_storable_def ivalue_of_def)

lemma struct_wf_distinct: "struct_wf s \<Longrightarrow> distinct (map fst (m_mValue s))"
  by (rule om_wf_distinct) (simp add: struct_wf_def)

lemma ivalues_mem:
  assumes "struct_wf s"
  shows "v \<in> snd ` set (ivalues s) \<longleftrightarrow> (\<exists>k x. map_of (m_mValue s) k = Some x \<and> v = ivalue_of x \<and> iv_KeyField v = k)"
proof
  assume "v \<in> snd ` set (ivalues s)"
  then obtain k x where x: "(k, x) \<in> set (m_mValue s)" "v = ivalue_of x" by (auto simp: ivalues_def)
  then have "map_of (m_mValue s) k = Some x" using struct_wf_distinct [OF assms] by simp
  moreover from this have "iv_KeyField v = k" using assms x(2) by (simp add: struct_wf_def ivalue_of_def)
  ultimately show "\<exists>k x. map_of (m_mValue s) k = Some x \<and> v = ivalue_of x \<and> iv_KeyField v = k"
    using x(2) by blast
next
  assume "\<exists>k x. map_of (m_mValue s) k = Some x \<and> v = ivalue_of x \<and> iv_KeyField v = k"
  then obtain k x where "(k, x) \<in> set (m_mValue s)" "v = ivalue_of x" by (blast dest: map_of_SomeD)
  then show "v \<in> snd ` set (ivalues s)" by (force simp: ivalues_def)
qed

lemma ivalues_distinct:
  assumes "struct_wf s" and "members_named mgr s"
  shows "\<forall>u \<in> snd ` set (ivalues s). \<forall>v \<in> snd ` set (ivalues s).
    FindKeyField mgr (iv_KeyField u) = FindKeyField mgr (iv_KeyField v) \<longrightarrow> u = v"
proof (intro ballI impI)
  fix u v
  assume u: "u \<in> snd ` set (ivalues s)" and v: "v \<in> snd ` set (ivalues s)"
    and eq: "FindKeyField mgr (iv_KeyField u) = FindKeyField mgr (iv_KeyField v)"
  obtain x y where x: "map_of (m_mValue s) (iv_KeyField u) = Some x" "u = ivalue_of x"
    and y: "map_of (m_mValue s) (iv_KeyField v) = Some y" "v = ivalue_of y"
    using u v ivalues_mem [OF assms(1)] by metis
  have "iv_KeyField u \<in> fst ` set (m_mValue s)" "iv_KeyField v \<in> fst ` set (m_mValue s)"
    using x(1) y(1) by (auto dest!: map_of_SomeD intro: rev_image_eqI)
  then have "iv_KeyField u = iv_KeyField v" using assms(2) eq unfolding members_named_def by blast
  then show "u = v" using x y by simp
qed

text \<open>What is loaded for an element of the same type, and the element it becomes.\<close>

lemma load_gives_cells:
  assumes e: "struct_wf e" "\<forall>c \<in> snd ` set (cells e). cell_dom c"
    and s: "like s e" "\<not> m_bNotifyValueChange s" "\<forall>(k, v) \<in> set (m_mValue s). m_pDataHandle v"
    and syncs: "set syncs = (\<lambda>v. (v, cell_text (the (map_of (cells e) (iv_KeyField v))))) ` snd ` set (ivalues s)"
  shows "\<exists>s'. efold (apply_sync rep) syncs (evs, s) = (None, evs, s') \<and> cells s' = cells e"
proof -
  let ?target = "\<lambda>k. the (map_of (cells e) k)"
  have wf: "struct_wf s" by (rule like_struct_wf [OF s(1)])
  have KF: "iv_KeyField ` fst ` set syncs = fst ` set (m_mValue s)"
    using struct_wf_members [OF wf] by (force simp: syncs ivalues_def ivalue_of_def image_image)
  have "syncs_ok ?target syncs s"
    unfolding syncs_ok_def
  proof (intro allI impI)
    fix v t
    assume "(v, t) \<in> set syncs"
    then have v: "v \<in> snd ` set (ivalues s)" and t: "t = cell_text (?target (iv_KeyField v))"
      by (auto simp: syncs)
    obtain x where x: "map_of (m_mValue s) (iv_KeyField v) = Some x" using v ivalues_mem [OF wf] by metis
    obtain y where y: "map_of (m_mValue e) (iv_KeyField v) = Some y" "value_sig y = value_sig x"
      using like_member_sig [OF s(1) x] by blast
    have "map_of (cells e) (iv_KeyField v) = Some (m_Value y)" by (simp add: map_of_cells y(1))
    moreover have "cell_dom (m_Value y)"
      using e(2) map_of_SomeD [OF calculation] by force
    ultimately have "\<forall>c. cell_type c = cell_type (m_Value x) \<longrightarrow> cell_get t c = Inr (?target (iv_KeyField v))"
      using cell_read_back y(2) by (auto simp: t value_sig_def)
    moreover have "m_pDataHandle x" using s(3) map_of_SomeD [OF x] by blast
    ultimately show "\<exists>x. map_of (m_mValue s) (iv_KeyField v) = Some x \<and> m_pDataHandle x \<and>
        (\<forall>c. cell_type c = cell_type (m_Value x) \<longrightarrow> cell_get t c = Inr (?target (iv_KeyField v)))"
      using x by blast
  qed
  from apply_syncs_cells [OF wf s(2) this, of rep evs] obtain s' where
    s': "efold (apply_sync rep) syncs (evs, s) = (None, evs, s')"
    "\<And>k. map_of (cells s') k = (if k \<in> fst ` set (m_mValue s) then Some (?target k) else map_of (cells s) k)"
    unfolding KF by blast
  have "like s' s" using apply_syncs_like [OF wf s'(1)] by blast
  have keys: "map fst (cells s') = map fst (cells e)"
    using like_keys [OF \<open>like s' s\<close>] like_keys [OF s(1)] by (simp add: cells_keys)
  have "cells s' = cells e"
  proof (rule map_of_ext [OF keys])
    show "distinct (map fst (cells s'))"
      using keys struct_wf_distinct [OF e(1)] by (simp add: cells_keys)
    fix k
    show "map_of (cells s') k = map_of (cells e) k"
    proof (cases "k \<in> fst ` set (m_mValue s)")
      case True
      then have "k \<in> fst ` set (cells e)" using like_keys [OF s(1)] cells_keys [of e] by (metis list.set_map)
      then have "map_of (cells e) k \<noteq> None" by (simp add: map_of_eq_None_iff)
      then show ?thesis using s'(2) True by auto
    next
      case False
      moreover have "k \<notin> fst ` set (cells e)" "k \<notin> fst ` set (cells s)"
        using False like_keys [OF s(1)] cells_keys by (metis list.set_map)+
      ultimately show ?thesis using s'(2) by (simp add: map_of_none)
    qed
  qed
  with s'(1) show ?thesis by blast
qed


lemma ivalues_cells:
  "struct_wf s \<Longrightarrow> ivalues s = map (\<lambda>(k, c). (k, \<lparr> iv_KeyField = k, iv_text = cell_text c \<rparr>)) (cells s)"
  using struct_wf_members [of s]
  by (force simp: ivalues_def cells_def ivalue_of_def TBaseValue_ToString_def)

lemma element_upd [simp]:
  "ivalues (element_SetDataHandle (IStruct_SetKey i e)) = ivalues e"
  "cells (element_SetDataHandle (IStruct_SetKey i e)) = cells e"
  "m_i64Key (element_SetDataHandle (IStruct_SetKey i e)) = i"
  "m_pDataHanle (element_SetDataHandle (IStruct_SetKey i e))"
  "m_mValue (element_SetDataHandle (IStruct_SetKey i e)) = m_mValue e"
  by (simp_all add: element_SetDataHandle_def IStruct_SetKey_def ivalues_def cells_def)

text \<open>Adding an element whose values can be saved, and adding its index elsewhere.\<close>

lemma Add_saves:
  assumes "rep_type r = vt" "m_pHandle r" "map_of (rep_mValue r) (IStruct_GetKey e) = None"
    and "ivalues (vt_copy vt e) = ivalues e"
    and save: "RedisAdapter_Save_index redisCommand mgr key i (ivalues e) w = (None, w1)"
    and wrap: "m_pRedisWarp (w_adapter w1)"
  shows "\<exists>r' s. TRepeated_Add (redis_data_adapter redisCommand mgr) (key, True) e i r w =
    (None, True, r', w1\<lparr>w_redis := snd (redisCommand (''publish '' @ s) (w_redis w1))\<rparr>)"
  using assms
  by (simp add: TRepeated_Add_def Let_def element_Save_def TBaseRepeat_Save_index_def TStruct_Save_index_def
      redis_data_adapter_def TStruct_AddRepeated_def RedisAdapter_AddRepeated_def RedisWrap_Execute_def
      RedisWrap_DoCmd_def) blast

lemma AddIndex_loads:
  assumes "rep_type r = vt" "m_pHandle r" "map_of (rep_mValue r) i = None"
    and load: "RedisAdapter_Load_index redisCommand mgr key i (ivalues (vt_new vt)) w = (None, syncs, w1)"
    and appl: "\<And>s :: istruct. like s (vt_new vt) \<Longrightarrow> \<not> m_bNotifyValueChange s \<Longrightarrow> ivalues s = ivalues (vt_new vt) \<Longrightarrow>
      m_mValue s = m_mValue (vt_new vt) \<Longrightarrow>
      \<exists>s'. efold (apply_sync True) syncs ([], s) = (None, [], s') \<and> cells s' = cs"
    and vt: "struct_wf (vt_new vt)" and ne: "m_mValue (vt_new vt) \<noteq> []"
  shows "\<exists>r' e'. TBaseRepeat_AddIndex (redis_data_adapter redisCommand mgr) (key, True) i (r, w) = (None, r', w1) \<and>
    TBaseRepeat_Get i r' = Some e' \<and> IStruct_GetKey e' = i \<and> cells e' = cs"
proof -
  let ?A = "redis_data_adapter redisCommand mgr"
  let ?e = "element_SetDataHandle (IStruct_SetKey i (vt_new vt))"
  let ?s = "?e\<lparr>m_bNotifyValueChange := False\<rparr>"
  have iv: "ivalues ?s = ivalues (vt_new vt)" by (simp add: ivalues_def)
  have "like ?s (vt_new vt)" using vt by (simp add: element_SetDataHandle_def IStruct_SetKey_def like_refl)
  then obtain s' where s': "efold (apply_sync True) syncs ([], ?s) = (None, [], s')" "cells s' = cs"
    using appl [of ?s] iv by auto
  have "same_head s' ?s"
    using apply_syncs_like [OF like_struct_wf s'(1)] \<open>like ?s (vt_new vt)\<close> by blast
  then have key: "m_i64Key s' = i" by (simp add: same_head_def)
  have "load_values True (TBaseRepeat_Load_index ?A (key, True) r i) ?s w = (Inr True, [], s', w1)"
    using assms(2) load s'(1)
    by (simp add: load_values_def iv TBaseRepeat_Load_index_def TStruct_Load_index_def redis_data_adapter_def
        load_result_def)
  then have "element_Load ?A (key, True) r ?e w =
      (Inr True, s'\<lparr>m_bNotifyValueChange := m_bNotifyValueChange ?e\<rparr>, w1)"
    using ne by (simp add: element_Load_def Let_def)
  then show ?thesis
    using assms(1,3) key s'(2)
    by (simp add: TBaseRepeat_AddIndex_def om_at_def Let_def TBaseRepeat_Get_def IStruct_GetKey_def cells_def)
qed

lemma demo_publish_keeps: "publish_keeps demo_redis map_of"
  unfolding publish_keeps_def
proof (intro allI)
  fix s and r :: "((string \<times> string) \<times> string) list"
  have "pieces CHR '' '' (''publish '' @ s) = ''publish'' # pieces CHR '' '' s"
    by (simp add: pieces.simps)
  then have "filter (\<lambda>p. p \<noteq> []) (pieces CHR '' '' (''publish '' @ s)) =
      ''publish'' # filter (\<lambda>p. p \<noteq> []) (pieces CHR '' '' s)" by simp
  then show "map_of (snd (demo_redis (''publish '' @ s) r)) = map_of r"
    by (simp add: demo_redis_def split: list.split)
qed

definition bag_element :: istruct where
  "bag_element = struct_of [TValue_make (Cell_u32 10010) 0x100, TValue_make (Cell_u32 1) 0x101]"

lemma struct_members:
  "om_wf m \<Longrightarrow> \<forall>(k, v) \<in> set m. m_KeyField v = k \<Longrightarrow>
     m_mValue (struct_of (map snd m)) = map (\<lambda>(k, v). (k, v\<lparr>m_pDataHandle := True\<rparr>)) m"
  by (rule copied_members)

lemma bag_members:
  "m_mValue bag_element =
     [(0x100, (TValue_make (Cell_u32 10010) 0x100)\<lparr>m_pDataHandle := True\<rparr>),
      (0x101, (TValue_make (Cell_u32 1) 0x101)\<lparr>m_pDataHandle := True\<rparr>)]"
  by (simp add: bag_element_def struct_of_def TStruct_make_def TBaseValue_SetDataHandle_def
      IStruct_RegistValue_def om_ins_def TValue_make_def TBaseValue_make_def)

lemma bag_like: "like bag_element bagequip_data"
  using struct_of_wf
  by (simp add: like_def signature_def bag_members bagequip_members value_sig_def bag_element_def [symmetric]
      TValue_make_def TBaseValue_make_def) (simp add: bag_element_def struct_of_wf)

lemma bagequip_copies: "copies_cells bagequip_type"
  unfolding copies_cells_def
proof (intro allI impI)
  fix s :: istruct
  assume "like s (vt_new bagequip_type)"
  then have wf: "struct_wf s" by (rule like_struct_wf)
  then have "om_wf (m_mValue s)" by (simp add: struct_wf_def)
  note members = copied_members [OF this struct_wf_members [OF wf]]
  show "cells (vt_copy bagequip_type s) = cells s"
    by (simp add: bagequip_type_def bagequip_data_copy_def cells_def members comp_def split_def)
qed

lemma DataDesc_names:
  "FindKey DataDesc_Index_Regist 0x100 = Some ''player.bagequip''"
  "FindKey DataDesc_Index_Regist 0x101 = Some ''player.bagequip''"
  "FindField DataDesc_Index_Regist 0x100 = Some ''ConfigId''"
  "FindField DataDesc_Index_Regist 0x101 = Some ''Level''"
  unfolding DataDesc_Index_Regist_def FindKey_run FindField_run by simp_all

lemma word_dec: "word_text (dec_of_nat n)"
proof -
  have "c \<noteq> CHR '' '' \<and> c \<noteq> CHR ''%'' \<and> c \<noteq> CHR 0x00" if "c \<in> set (dec_of_nat n)" for c
    using dec_of_nat_digits [of n] that by (auto simp: is_digit_def)
  then show ?thesis by (auto simp: word_text_def)
qed

lemma bag_storable:
  "iv_KeyField v = 0x100 \<or> iv_KeyField v = 0x101 \<Longrightarrow> iv_text v = dec_of_nat n \<Longrightarrow> storable DataDesc_Index_Regist v"
proof -
  assume k: "iv_KeyField v = 0x100 \<or> iv_KeyField v = 0x101" and t: "iv_text v = dec_of_nat n"
  have w: "word_text ''player.bagequip''" "word_text ''ConfigId''" "word_text ''Level''"
    by (simp_all add: word_text_def)
  from k show ?thesis
    by (elim disjE) (simp_all only: storable_def t word_dec DataDesc_names option.case w simp_thms)
qed

lemma bag_members_storable:
  "members_storable DataDesc_Index_Regist bag_element" "members_storable DataDesc_Index_Regist bagequip_data"
  unfolding members_storable_def bag_members bagequip_members
  by (simp_all add: ivalue_of_def TValue_make_def TBaseValue_make_def TBaseValue_ToString_def ToString_u32_def
      bag_storable)

lemma bag_members_named: "members_named DataDesc_Index_Regist bag_element"
proof -
  have kf: "FindKeyField DataDesc_Index_Regist i = (FindKey DataDesc_Index_Regist i, FindField DataDesc_Index_Regist i)" for i
    by (simp add: FindKeyField_def FindKey_def FindField_def split: option.split)
  have "Some ''ConfigId'' \<noteq> Some ''Level''" by simp
  then have "FindKeyField DataDesc_Index_Regist 0x100 \<noteq> FindKeyField DataDesc_Index_Regist 0x101"
    unfolding kf prod.inject DataDesc_names by (simp only: simp_thms)
  moreover have "fst ` set (m_mValue bag_element) = {0x100, 0x101}" by (simp add: bag_members)
  ultimately show ?thesis unfolding members_named_def by (metis insertE singletonD)
qed

lemma bag_cells: "cells bag_element = [(0x100, Cell_u32 10010), (0x101, Cell_u32 1)]"
  by (simp add: cells_def bag_members TValue_make_def TBaseValue_make_def)

text \<open>
  C14. An element added by one process is read back by another, under these limits: the server
  keeps hashes as redis documents and leaves them alone on a publish; both processes are
  connected; the members have registered, distinct names, belong to a data handle and, in the
  new element and in an empty one, have texts that are words (without spaces, per cent signs and
  NUL, so that a string member may hold none of these); and every value is one whose text is
  read back (unsigned values below 2 to the 31 or 2 to the 63, texts without bars, colons and
  NUL). Then the element is saved under its index when it is added to a container that does not
  hold it, and a container of the other process that is told of the index makes an element with
  that key and the same values.
\<close>

theorem added_element_is_read_back:
  assumes server: "hash_server redisCommand hget" "publish_keeps redisCommand hget"
    and wraps: "m_pRedisWarp (w_adapter w)" "m_pRedisWarp a2"
    and vt: "vt_ok vt" "copies_cells vt" "members_storable mgr (vt_new vt)" "m_mValue (vt_new vt) \<noteq> []"
      "\<forall>(k, v) \<in> set (m_mValue (vt_new vt)). m_pDataHandle v"
    and e: "like e (vt_new vt)" "members_storable mgr e" "members_named mgr e"
      "\<forall>c \<in> snd ` set (cells e). cell_dom c"
    and r1: "rep_type r1 = vt" "m_pHandle r1" "TBaseRepeat_Get (IStruct_GetKey e) r1 = None"
    and r2: "rep_type r2 = vt" "m_pHandle r2" "TBaseRepeat_Get i r2 = None"
  shows "\<exists>r1' w1 r2' w2 e'.
    TRepeated_Add (redis_data_adapter redisCommand mgr) (key, True) e i r1 w = (None, True, r1', w1) \<and>
    TBaseRepeat_AddIndex (redis_data_adapter redisCommand mgr) (key, True) i
      (r2, \<lparr> w_adapter = a2, w_sub = sub2, w_redis = w_redis w1 \<rparr>) = (None, r2', w2) \<and>
    TBaseRepeat_Get i r2' = Some e' \<and> IStruct_GetKey e' = i \<and> cells e' = cells e"
proof -
  let ?A = "redis_data_adapter redisCommand mgr" and ?new = "vt_new vt"
  have wf: "struct_wf e" "struct_wf ?new" using e(1) vt(1) by (simp_all add: like_struct_wf vt_ok_def)
  have le: "like ?new e" using e(1) wf(2) by (simp add: like_def)
  note vals = ivalues_KeyField [OF wf(1) e(2)] and vals' = ivalues_KeyField [OF wf(2) vt(3)]
  obtain w1 where w1: "RedisAdapter_Save_index redisCommand mgr key i (ivalues e) w = (None, w1)"
    "w_adapter w1 = w_adapter w" and load:
    "\<And>w2 mValue' tx. hget (w_redis w2) = hget (w_redis w1) \<Longrightarrow> m_pRedisWarp (w_adapter w2) \<Longrightarrow>
      \<forall>(k, v) \<in> set mValue'. iv_KeyField v = k \<and> storable mgr v \<Longrightarrow>
      \<forall>v' \<in> snd ` set mValue'. \<exists>v \<in> snd ` set (ivalues e). iv_KeyField v = iv_KeyField v' \<and> tx v' = iv_text v \<Longrightarrow>
      \<exists>syncs w3. RedisAdapter_Load_index redisCommand mgr key i mValue' w2 = (None, syncs, w3) \<and>
         w_redis w3 = w_redis w2 \<and> set syncs = (\<lambda>v. (v, tx v)) ` snd ` set mValue'"
    using save_then_load [OF server(1) wraps(1) vals ivalues_distinct [OF wf(1) e(3)], of key i] by blast
  have cp: "like (vt_copy vt e) ?new" using vt(1) e(1) by (simp add: vt_ok_def)
  have "cells (vt_copy vt e) = cells e" using vt(2) e(1) by (simp add: copies_cells_def)
  then have copy: "ivalues (vt_copy vt e) = ivalues e"
    by (simp only: ivalues_cells [OF like_struct_wf [OF cp]] ivalues_cells [OF wf(1)])
  obtain r1' s where add: "TRepeated_Add ?A (key, True) e i r1 w =
      (None, True, r1', w1\<lparr>w_redis := snd (redisCommand (''publish '' @ s) (w_redis w1))\<rparr>)"
    using Add_saves [OF r1(1,2) _ copy w1(1)] r1(3) wraps(1) w1(2) by (auto simp: TBaseRepeat_Get_def)
  let ?w1 = "w1\<lparr>w_redis := snd (redisCommand (''publish '' @ s) (w_redis w1))\<rparr>"
  let ?w2 = "\<lparr> w_adapter = a2, w_sub = sub2, w_redis = w_redis ?w1 \<rparr>"
  let ?tx = "\<lambda>v. cell_text (the (map_of (cells e) (iv_KeyField v)))"
  have hg: "hget (w_redis ?w2) = hget (w_redis w1)" using server(2) by (simp add: publish_keeps_def)
  have tx: "\<forall>v' \<in> snd ` set (ivalues ?new). \<exists>v \<in> snd ` set (ivalues e). iv_KeyField v = iv_KeyField v' \<and> ?tx v' = iv_text v"
  proof
    fix v'
    assume v': "v' \<in> snd ` set (ivalues ?new)"
    obtain x where "map_of (m_mValue ?new) (iv_KeyField v') = Some x" using v' ivalues_mem [OF wf(2)] by metis
    then obtain y where y: "map_of (m_mValue e) (iv_KeyField v') = Some y" using like_member_sig [OF le] by blast
    then have "m_KeyField y = iv_KeyField v'" using wf(1) by (simp add: struct_wf_def)
    then have "ivalue_of y \<in> snd ` set (ivalues e)" "iv_KeyField (ivalue_of y) = iv_KeyField v'"
      using y ivalues_mem [OF wf(1), of "ivalue_of y"] by (auto simp: ivalue_of_def)
    moreover have "?tx v' = iv_text (ivalue_of y)" by (simp add: map_of_cells y ivalue_of_def TBaseValue_ToString_def)
    ultimately show "\<exists>v \<in> snd ` set (ivalues e). iv_KeyField v = iv_KeyField v' \<and> ?tx v' = iv_text v" by metis
  qed
  have wr: "m_pRedisWarp (w_adapter ?w2)" using wraps(2) by simp
  obtain syncs w3 where syncs:
    "RedisAdapter_Load_index redisCommand mgr key i (ivalues ?new) ?w2 = (None, syncs, w3)"
    "set syncs = (\<lambda>v. (v, ?tx v)) ` snd ` set (ivalues ?new)"
    using load [OF hg wr vals' tx] by blast
  have loaded: "\<exists>s'. efold (apply_sync True) syncs ([], s) = (None, [], s') \<and> cells s' = cells e"
    if "like s ?new" "\<not> m_bNotifyValueChange s" "ivalues s = ivalues ?new" "m_mValue s = m_mValue ?new"
    for s :: istruct
  proof -
    have "\<forall>(k, v) \<in> set (m_mValue s). m_pDataHandle v" unfolding that(4) by (rule vt(5))
    moreover have "set syncs = (\<lambda>v. (v, ?tx v)) ` snd ` set (ivalues s)" by (simp only: that(3) syncs(2))
    ultimately show ?thesis
      by (rule load_gives_cells [OF wf(1) e(4) like_trans [OF that(1) le] that(2)])
  qed
  have "map_of (rep_mValue r2) i = None" using r2(3) by (simp only: TBaseRepeat_Get_def)
  from AddIndex_loads [OF r2(1,2) this syncs(1) loaded wf(2) vt(4)] add show ?thesis
    unfolding world.select_convs by blast
qed

theorem added_element_is_read_back_witness:
  "\<exists>r1' w1 r2' w2 e'.
    TRepeated_Add (redis_data_adapter demo_redis DataDesc_Index_Regist) (10000, True) bag_element 10
      ((TBaseRepeat_make 0x100 bagequip_type)\<lparr>m_pHandle := True\<rparr>) demo_world = (None, True, r1', w1) \<and>
    TBaseRepeat_AddIndex (redis_data_adapter demo_redis DataDesc_Index_Regist) (10000, True) 10
      ((TBaseRepeat_make 0x100 bagequip_type)\<lparr>m_pHandle := True\<rparr>,
       \<lparr> w_adapter = RedisAdapter_make\<lparr>m_pRedisWarp := True\<rparr>, w_sub = RedisSubMgr_init, w_redis = w_redis w1 \<rparr>) =
      (None, r2', w2) \<and>
    TBaseRepeat_Get 10 r2' = Some e' \<and> IStruct_GetKey e' = 10 \<and>
    cells e' = [(0x100, Cell_u32 10010), (0x101, Cell_u32 1)]"
  unfolding bag_cells [symmetric]
proof (rule added_element_is_read_back [OF demo_redis_server demo_publish_keeps, where vt = bagequip_type])
  show "m_pRedisWarp (w_adapter demo_world)" by (simp add: demo_world_def)
  show "m_mValue (vt_new bagequip_type) \<noteq> []"
    "\<forall>(k, v) \<in> set (m_mValue (vt_new bagequip_type)). m_pDataHandle v"
    by (simp_all add: bagequip_type_def bagequip_members)
  show "\<forall>c \<in> snd ` set (cells bag_element). cell_dom c" by (simp add: bag_cells)
qed (simp_all add: bagequip_type_ok bagequip_copies bag_members_storable bag_like bag_members_named
    TBaseRepeat_make_def TBaseRepeat_Get_def bagequip_type_def [THEN arg_cong [where f = vt_new], simplified])


section \<open>Received changes\<close>

text \<open>
  What received changes make of a member, and the fields \<open>OnValueChange\<close> is called for, without
  the loop: the abstract view of \<open>IStruct::Sync\<close>.
\<close>

definition synced_value :: "sync_value \<Rightarrow> u32 \<Rightarrow> tvalue \<Rightarrow> tvalue" where
  "synced_value vs k v =
     (if m_IsConst v
      then (case map_of vs k of
              None \<Rightarrow> v
            | Some t \<Rightarrow> (case cell_get t (m_Value v) of Inl _ \<Rightarrow> v | Inr c \<Rightarrow> v\<lparr>m_Value := c\<rparr>))
      else v)"

definition synced_calls :: "bool \<Rightarrow> sync_value \<Rightarrow> 'a istruct_scheme \<Rightarrow> u32 list" where
  "synced_calls rep vs s =
     (if rep \<or> \<not> m_bNotifyValueChange s then []
      else filter (\<lambda>k. case map_of (m_mValue s) k of
             None \<Rightarrow> False | Some v \<Rightarrow> m_Value (synced_value vs k v) \<noteq> m_Value v) (map fst vs))"

definition synced :: "sync_value \<Rightarrow> 'a istruct_scheme \<Rightarrow> 'a istruct_scheme" where
  "synced vs s = s\<lparr>m_mValue := map (\<lambda>(k, v). (k, synced_value vs k v)) (m_mValue s)\<rparr>"

lemma om_put_map:
  "om_wf m \<Longrightarrow> map_of m k = Some v \<Longrightarrow> om_put k v' m = map (\<lambda>(a, b). (a, if a = k then v' else b)) m"
proof (induction k v' m rule: om_put.induct)
  case (2 k v' a b m)
  have "\<not> k < a"
    using 2(2,3) by (cases "k = a") (fastforce simp: om_wf_Cons dest: map_of_SomeD)+
  moreover have "map (\<lambda>(x, y). (x, if x = a then v' else y)) m = m"
    using 2(2) by (auto simp: om_wf_Cons intro!: map_idI)
  ultimately show ?case using 2 by (auto simp: om_wf_Cons)
qed simp

lemma kmap_map_of: "map_of (map (\<lambda>(k, v). (k, f k v)) m) k = map_option (f k) (map_of m k)"
  by (induction m) auto

lemma kmap_fst: "map fst (map (\<lambda>(k, v). (k, f k v)) m) = map fst m"
  by (induction m) auto

lemma kmap_id: "(\<And>k v. (k, v) \<in> set m \<Longrightarrow> f k v = v) \<Longrightarrow> map (\<lambda>(k, v). (k, f k v)) m = m"
  by (auto intro!: map_idI)

lemma kmap_cong:
  "(\<And>k v. (k, v) \<in> set m \<Longrightarrow> f k v = g k v) \<Longrightarrow> map (\<lambda>(k, v). (k, f k v)) m = map (\<lambda>(k, v). (k, g k v)) m"
  by auto

lemma synced_id: "(\<And>k v. (k, v) \<in> set (m_mValue s) \<Longrightarrow> synced_value vs k v = v) \<Longrightarrow> synced vs s = s"
  by (simp add: synced_def kmap_id)

lemma synced_Nil: "synced [] s = s"
  by (rule synced_id) (simp add: synced_value_def)

lemma synced_KeyField: "m_KeyField (synced_value vs k v) = m_KeyField v"
  by (simp add: synced_value_def split: option.split sum.split)

lemma map_of_synced: "map_of (m_mValue (synced vs s)) k = map_option (synced_value vs k) (map_of (m_mValue s) k)"
  by (simp add: synced_def kmap_map_of)

lemma synced_wf: "struct_wf s \<Longrightarrow> struct_wf (synced vs s)"
proof -
  have "map fst (m_mValue (synced vs s)) = map fst (m_mValue s)"
    by (simp add: synced_def kmap_fst del: map_map)
  then show "struct_wf s \<Longrightarrow> struct_wf (synced vs s)"
    by (auto simp: struct_wf_def om_wf_def map_of_synced synced_KeyField)
qed

text \<open>One change.\<close>

lemma Sync_value_step_synced:
  assumes "struct_wf s" and "Sync_value_step rep (k, t) (evs, s) = Inr (evs', s')"
  shows "s' = synced [(k, t)] s \<and> evs' = evs @ synced_calls rep [(k, t)] s"
proof (cases "map_of (m_mValue s) k")
  case None
  then have "synced [(k, t)] s = s"
    by (intro synced_id) (force simp: synced_value_def map_of_eq_None_iff)
  then show ?thesis using assms(2) None by (simp add: Sync_value_step_def synced_calls_def)
next
  case (Some v)
  note put = om_put_map [OF _ Some]
  have wf: "om_wf (m_mValue s)" using assms(1) by (simp add: struct_wf_def)
  have kf: "m_KeyField v = k" using assms(1) Some by (simp add: struct_wf_def)
  have same: "synced_value [(k, t)] a b = (if a = k then synced_value [(k, t)] k v else b)"
    if "(a, b) \<in> set (m_mValue s)" for a b
  proof -
    have "map_of (m_mValue s) a = Some b" using that struct_wf_distinct [OF assms(1)] by simp
    then show ?thesis using Some by (cases "a = k") (simp_all add: synced_value_def)
  qed
  have syn: "synced [(k, t)] s = s\<lparr>m_mValue := om_put k (synced_value [(k, t)] k v) (m_mValue s)\<rparr>"
    unfolding synced_def put [OF wf] by (simp only: kmap_cong [OF same])
  show ?thesis
  proof (cases "m_IsConst v")
    case False
    then have "synced_value [(k, t)] k v = v" by (simp add: synced_value_def)
    moreover have "om_put k v (m_mValue s) = m_mValue s"
      unfolding put [OF wf]
    proof (rule kmap_id)
      fix a b
      assume "(a, b) \<in> set (m_mValue s)"
      then have "map_of (m_mValue s) a = Some b" using struct_wf_distinct [OF assms(1)] by simp
      then show "(if a = k then v else b) = b" using Some by auto
    qed
    ultimately show ?thesis using assms(2) Some False syn by (simp add: Sync_value_step_def synced_calls_def)
  next
    case True
    then obtain ev where ev: "sync_member rep k t s = Inr (ev, s')" "evs' = evs @ ev"
      using assms(2) Some by (auto simp: Sync_value_step_def rbind_Inr_conv)
    then obtain n v' where v': "TBaseValue_Sync t v = Inr (n, v')"
      and rest: "(let s' = s\<lparr>m_mValue := om_put k v' (m_mValue s)\<rparr> in
        if n then rbind (TStruct_ValueChange rep (m_KeyField v') s') (\<lambda>ev. Inr (ev, s'))
        else Inr ([], s')) = Inr (ev, s')"
      using Some by (auto simp: sync_member_def rbind_Inr_conv)
    have "m_KeyField v' = k" using TBaseValue_Sync_sig [OF v'] kf by (simp add: value_sig_def)
    with rest have s': "s' = s\<lparr>m_mValue := om_put k v' (m_mValue s)\<rparr>"
      and evk: "ev = (if n \<and> \<not> rep \<and> m_bNotifyValueChange s then [k] else [])"
      by (auto simp: Let_def TStruct_ValueChange_def split: if_splits)
    from v' obtain c where c: "cell_get t (m_Value v) = Inr c" "v' = v\<lparr>m_Value := c\<rparr>" "n = (m_Value v \<noteq> c)"
      using True by (auto simp: TBaseValue_Sync_def split: sum.splits if_splits)
    then have sv: "synced_value [(k, t)] k v = v'" using True by (simp add: synced_value_def)
    have "s' = synced [(k, t)] s" by (simp only: s' syn sv)
    moreover have "m_Value v' \<noteq> m_Value v \<longleftrightarrow> n" using c by auto
    then have "synced_calls rep [(k, t)] s = ev" by (simp add: synced_calls_def Some sv evk)
    ultimately show ?thesis using ev(2) by simp
  qed
qed

text \<open>Several changes of different fields, in any order.\<close>

lemma synced_Cons:
  assumes "k \<notin> fst ` set vs"
  shows "synced vs (synced [(k, t)] s) = synced ((k, t) # vs) s"
    "synced_calls rep [(k, t)] s @ synced_calls rep vs (synced [(k, t)] s) = synced_calls rep ((k, t) # vs) s"
proof -
  have none: "map_of vs k = None" using assms by (simp add: map_of_eq_None_iff)
  have val: "synced_value vs a (synced_value [(k, t)] a b) = synced_value ((k, t) # vs) a b" for a b
    using none by (auto simp: synced_value_def split: option.split sum.split)
  show "synced vs (synced [(k, t)] s) = synced ((k, t) # vs) s"
    by (simp add: synced_def val case_prod_beta comp_def)
  have head: "synced_value [(k, t)] k v = synced_value ((k, t) # vs) k v" for v
    using none by (simp add: synced_value_def)
  have tail: "synced_value [(k, t)] a v = v \<and> synced_value vs a v = synced_value ((k, t) # vs) a v"
    if "a \<in> fst ` set vs" for a v
    using that assms by (auto simp: synced_value_def)
  have notify: "m_bNotifyValueChange (synced [(k, t)] s) = m_bNotifyValueChange s" by (simp add: synced_def)
  have filt: "filter (\<lambda>a. case map_of (m_mValue (synced [(k, t)] s)) a of
        None \<Rightarrow> False | Some v \<Rightarrow> m_Value (synced_value vs a v) \<noteq> m_Value v) (map fst vs) =
      filter (\<lambda>a. case map_of (m_mValue s) a of
        None \<Rightarrow> False | Some v \<Rightarrow> m_Value (synced_value ((k, t) # vs) a v) \<noteq> m_Value v) (map fst vs)"
    by (rule filter_cong [OF refl]) (auto simp: map_of_synced tail split: option.split)
  show "synced_calls rep [(k, t)] s @ synced_calls rep vs (synced [(k, t)] s) = synced_calls rep ((k, t) # vs) s"
    by (simp add: synced_calls_def notify filt head split: option.split)
qed

lemma Sync_loop_synced:
  assumes "struct_wf s" and "distinct (map fst vs)"
    and "rfold (Sync_value_step rep) vs (evs, s) = Inr (evs', s')"
  shows "s' = synced vs s \<and> evs' = evs @ synced_calls rep vs s"
  using assms
proof (induction vs arbitrary: evs s)
  case Nil
  then show ?case by (simp add: synced_Nil synced_calls_def)
next
  case (Cons x vs)
  obtain k t where x: "x = (k, t)" by (rule prod.exhaust)
  from Cons.prems(3) obtain evs1 s1 where s1: "Sync_value_step rep (k, t) (evs, s) = Inr (evs1, s1)"
    "rfold (Sync_value_step rep) vs (evs1, s1) = Inr (evs', s')"
    by (auto simp: x rbind_Inr_conv)
  note one = Sync_value_step_synced [OF Cons.prems(1) s1(1)]
  have "struct_wf s1" using one synced_wf [OF Cons.prems(1)] by simp
  from Cons.IH [OF this _ s1(2)] Cons.prems(2) one synced_Cons [where k = k and vs = vs and t = t and s = s] show ?case by (auto simp: x)
qed

definition notified_struct :: istruct where
  "notified_struct =
     \<lparr> m_i64Key = 5, m_bNotifyValueChange = True,
       m_mValue = [(0, \<lparr> m_Value = Cell_u32 3, m_KeyField = 0, m_IsConst = False, m_pDataHandle = True \<rparr>),
                   (1, \<lparr> m_Value = Cell_u32 4, m_KeyField = 1, m_IsConst = True, m_pDataHandle = True \<rparr>)],
       m_pDataHanle = True \<rparr>"

lemma notified_sync:
  "IStruct_Sync_value False [(0, ''7''), (1, ''9''), (2, ''5'')] notified_struct =
     Inr ([1], notified_struct\<lparr>m_mValue :=
       [(0, \<lparr> m_Value = Cell_u32 3, m_KeyField = 0, m_IsConst = False, m_pDataHandle = True \<rparr>),
        (1, \<lparr> m_Value = Cell_u32 9, m_KeyField = 1, m_IsConst = True, m_pDataHandle = True \<rparr>)]\<rparr>)"
  by code_simp

text \<open>
  C15. Received changes: synchronising a structure with changes of distinct fields, in whatever
  order they are visited, gives every member the program may not assign the value of its
  change's text, leaves every other member as it was, and calls \<open>OnValueChange\<close> once for each
  field whose value changed, unless notifications are off or the structure is an element.
\<close>

theorem sync_is_one_pass:
  assumes "struct_wf s" and "distinct (map fst vs)" and "IStruct_Sync_value rep vs s = Inr (calls, s')"
  shows "s' = synced vs s \<and> calls = synced_calls rep vs s"
proof (cases "m_mValue s = []")
  case True
  then show ?thesis using assms(3) by (simp add: IStruct_Sync_value_def synced_def synced_calls_def)
next
  case False
  then show ?thesis using assms Sync_loop_synced [of s vs rep "[]" calls s'] by (simp add: IStruct_Sync_value_def)
qed

theorem sync_is_one_pass_witness:
  "IStruct_Sync_value False [(0, ''7''), (1, ''9''), (2, ''5'')] notified_struct =
     Inr ([1], synced [(0, ''7''), (1, ''9''), (2, ''5'')] notified_struct) \<and>
   synced_calls False [(0, ''7''), (1, ''9''), (2, ''5'')] notified_struct = [1] \<and>
   cells (synced [(0, ''7''), (1, ''9''), (2, ''5'')] notified_struct) = [(0, Cell_u32 3), (1, Cell_u32 9)]"
proof -
  let ?vs = "[(0, ''7''), (1, ''9''), (2, ''5'')] :: sync_value"
  have "struct_wf notified_struct" "distinct (map fst ?vs)"
    by (simp_all add: notified_struct_def struct_wf_def om_wf_def)
  note sync_is_one_pass [OF this notified_sync]
  moreover have "cells (synced ?vs notified_struct) = [(0, Cell_u32 3), (1, Cell_u32 9)]" by code_simp
  ultimately show ?thesis using notified_sync by metis
qed


section \<open>Elements that cannot be removed\<close>

text \<open>
  An element added under an index other than the structure's own key cannot be removed:
  \<open>Add\<close> enters the copy under the key of the structure given (0 for a new one) and saves it
  under the index, and \<open>Remove\<close> erases the index. After adding and removing, the element is
  still in the container, and every further structure with that key is refused.
\<close>

theorem added_element_stays:
  assumes "om_wf (rep_mValue r)" and "TBaseRepeat_Get (IStruct_GetKey e) r = None"
    and "i \<noteq> IStruct_GetKey e" and "IStruct_GetKey e' = IStruct_GetKey e"
    and "TRepeated_Add A owner e i r w = (f, ok, r1, w1)"
    and "TRepeated_Remove A owner i r1 w' = (g, r2, w2)"
  shows "TBaseRepeat_Get (IStruct_GetKey e) r2 \<noteq> None \<and> TBaseRepeat_Get i r2 = None \<and>
    TRepeated_Add A owner e' j r2 w2 = (None, False, r2, w2)"
proof -
  have r1: "rep_mValue r1 = om_put (IStruct_GetKey e)
      (element_SetDataHandle (IStruct_SetKey i (vt_copy (rep_type r) e))) (rep_mValue r)"
    using assms(2,5) by (auto simp: TRepeated_Add_def Let_def TBaseRepeat_Get_def split: option.splits prod.splits)
  have "rep_mValue r2 = om_del i (rep_mValue r1)"
    using assms(6) by (auto simp: TRepeated_Remove_def Let_def split: if_splits prod.splits)
  then have "map_of (rep_mValue r2) = (map_of (rep_mValue r1))(i := None)"
    using assms(1) r1 by simp
  then show ?thesis
    using assms(3,4) r1 by (simp add: TBaseRepeat_Get_def TRepeated_Add_def)
qed

theorem added_element_stays_witness:
  "\<exists>f ok r1 w1 g r2 w2.
    TRepeated_Add (redis_data_adapter demo_redis DataDesc_Index_Regist) (10000, True) bag_element 10
      ((TBaseRepeat_make 0x100 bagequip_type)\<lparr>m_pHandle := True\<rparr>) demo_world = (f, ok, r1, w1) \<and>
    TRepeated_Remove (redis_data_adapter demo_redis DataDesc_Index_Regist) (10000, True) 10 r1 w1 = (g, r2, w2) \<and>
    TBaseRepeat_Get 0 r2 \<noteq> None \<and>
    TRepeated_Add (redis_data_adapter demo_redis DataDesc_Index_Regist) (10000, True) bag_element 11 r2 w2 =
      (None, False, r2, w2)"
proof -
  let ?A = "redis_data_adapter demo_redis DataDesc_Index_Regist"
  let ?r = "(TBaseRepeat_make 0x100 bagequip_type)\<lparr>m_pHandle := True\<rparr>"
  obtain f ok r1 w1 where add: "TRepeated_Add ?A (10000, True) bag_element 10 ?r demo_world = (f, ok, r1, w1)"
    by (metis prod_cases4)
  obtain g r2 w2 where rm: "TRepeated_Remove ?A (10000, True) 10 r1 w1 = (g, r2, w2)" by (metis prod_cases3)
  have key: "IStruct_GetKey bag_element = 0"
    by (simp add: IStruct_GetKey_def bag_element_def struct_of_def TStruct_make_def TBaseValue_SetDataHandle_def
        IStruct_RegistValue_def)
  have ne: "(10 :: u64) \<noteq> IStruct_GetKey bag_element" by (simp add: key)
  have "om_wf (rep_mValue ?r)" "TBaseRepeat_Get (IStruct_GetKey bag_element) ?r = None"
    by (simp_all add: TBaseRepeat_make_def TBaseRepeat_Get_def)
  from added_element_stays [OF this ne refl add rm, of 11] add rm key show ?thesis by auto
qed


section \<open>Notifications lost by a failed load\<close>

lemma sync_member_quiet:
  "\<not> m_bNotifyValueChange s \<Longrightarrow> sync_member rep k t s = Inr (ev, s') \<Longrightarrow> ev = [] \<and> \<not> m_bNotifyValueChange s'"
  by (auto simp: sync_member_def TStruct_ValueChange_def Let_def rbind_Inr_conv split: option.splits if_splits)

lemma apply_sync_quiet:
  assumes "\<not> m_bNotifyValueChange (snd p)"
  shows "\<not> m_bNotifyValueChange (snd (snd (apply_sync rep x p)))"
proof -
  obtain v t evs s where x: "x = (v, t)" "p = (evs, s)" by (meson surj_pair)
  show ?thesis
  proof (cases "sync_member rep (iv_KeyField v) t s")
    case (Inr r)
    then show ?thesis
      using assms sync_member_quiet [of s rep "iv_KeyField v" t "fst r" "snd r"]
      by (simp add: apply_sync_def x split_def)
  qed (use assms in \<open>simp add: apply_sync_def x\<close>)
qed

lemma load_values_quiet:
  assumes "load_values rep load s w = (ok, evs, s', w')" and "\<not> m_bNotifyValueChange s"
  shows "\<not> m_bNotifyValueChange s'"
proof -
  obtain ok1 syncs w1 where l: "load (ivalues s) w = (ok1, syncs, w1)" by (metis prod_cases3)
  obtain e evs1 s1 where ef: "efold (apply_sync rep) syncs ([], s) = (e, evs1, s1)" by (metis prod_cases3)
  have "\<not> m_bNotifyValueChange (snd (snd (efold (apply_sync rep) syncs ([], s))))"
    by (rule efold_invariant [where P = "\<lambda>p. \<not> m_bNotifyValueChange (snd p)", OF _ apply_sync_quiet])
       (simp_all add: assms(2))
  then have "\<not> m_bNotifyValueChange s1" by (simp only: ef snd_conv) simp
  moreover have "s' = s1" using assms(1) 
    unfolding load_values_def Let_def l prod.case ef by (elim Pair_inject) (rule sym)
  ultimately show ?thesis by simp
qed

lemma failed_Load_notify:
  assumes "TStruct_Load A s w = Some (Inl f, evs, s', w')"
  shows "\<not> m_bNotifyValueChange s'"
proof -
  let ?s = "s\<lparr>m_bNotifyValueChange := False\<rparr>"
  let ?l = "if m_mValue ?s = [] then (Inr True, [], ?s, w) else load_values False (ad_Load A (m_i64Key ?s)) ?s w"
  obtain ok evs1 s1 w1 where l: "?l = (ok, evs1, s1, w1)" by (metis prod_cases4)
  have "s' = s1 \<or> (\<exists>rs. s' = s1\<lparr>m_mRepeated := rs\<rparr>)"
    using assms l
    by (cases ok) (auto simp: TStruct_Load_def Let_def split_def split: if_splits option.splits)
  moreover have "\<not> m_bNotifyValueChange s1"
    using l load_values_quiet [of False "ad_Load A (m_i64Key ?s)" ?s w ok evs1 s1 w1] by (auto split: if_splits)
  ultimately show ?thesis by auto
qed

lemma quiet_Sync:
  fixes s :: "'a istruct_scheme"
  assumes "\<not> m_bNotifyValueChange s" and "rfold (Sync_value_step rep) vs ([], s) = Inr (calls, s')"
  shows "calls = []"
proof -
  let ?P = "\<lambda>(evs :: u32 list, s :: 'a istruct_scheme). evs = [] \<and> \<not> m_bNotifyValueChange s"
  have "?P (calls, s')"
  proof (rule rfold_invariant [OF assms(2), where P = ?P])
    fix x :: "u32 \<times> string" and a b :: "u32 list \<times> 'a istruct_scheme"
    obtain k t evs u where x: "x = (k, t)" "a = (evs, u)" by (meson surj_pair)
    assume P: "?P a" and step: "Sync_value_step rep x a = Inr b"
    from step [unfolded x] show "?P b"
    proof (cases rule: Sync_value_stepE)
      case (2 ev u')
      with sync_member_quiet [OF _ 2(1)] P x(2) show ?thesis by simp
    qed (use P x(2) in simp)
  qed (use assms(1) in simp)
  then show ?thesis by simp
qed

definition notified_owner :: tstruct where
  "notified_owner = istruct.extend notified_struct \<lparr> m_mRepeated = [] \<rparr>"

lemma load_case:
  "(case x of Some (Inl f, evs, s', w') \<Rightarrow> P f evs s' w' | _ \<Rightarrow> False) \<Longrightarrow>
     \<exists>f evs s' w'. x = Some (Inl f, evs, s', w') \<and> P f evs s' w'"
  by (auto split: option.splits prod.splits sum.splits)

lemma notified_load:
  "case TStruct_Load (redis_data_adapter demo_redis DataDesc_Index_Regist) notified_owner
       \<lparr> w_adapter = RedisAdapter_make, w_sub = RedisSubMgr_init, w_redis = [] \<rparr> of
     Some (Inl f, evs, s', w') \<Rightarrow> f = Throw no_wrap \<and> evs = [] \<and>
       (case IStruct_Sync_value False [(1, ''9'')] s' of Inr (calls, s'') \<Rightarrow> True | Inl _ \<Rightarrow> False)
   | _ \<Rightarrow> False"
  by code_simp

text \<open>
  When the adapter's \<open>Load\<close> throws, the structure's notifications stay switched off: no
  later change of any of its values reaches \<open>OnValueChange\<close>.
\<close>

theorem failed_load_silences:
  assumes "TStruct_Load A s w = Some (Inl f, evs, s', w')"
    and "IStruct_Sync_value False vs s' = Inr (calls, s'')"
  shows "\<not> m_bNotifyValueChange s' \<and> calls = []"
proof -
  have off: "\<not> m_bNotifyValueChange s'" by (rule failed_Load_notify [OF assms(1)])
  moreover have "calls = []"
  proof (cases "m_mValue s' = []")
    case True
    then show ?thesis using assms(2) by (simp add: IStruct_Sync_value_def)
  next
    case False
    then show ?thesis using quiet_Sync [OF off] assms(2) by (simp add: IStruct_Sync_value_def)
  qed
  ultimately show ?thesis by blast
qed

theorem failed_load_silences_witness:
  "\<exists>s' w' s''. TStruct_Load (redis_data_adapter demo_redis DataDesc_Index_Regist) notified_owner
       \<lparr> w_adapter = RedisAdapter_make, w_sub = RedisSubMgr_init, w_redis = [] \<rparr> = Some (Inl (Throw no_wrap), [], s', w') \<and>
     IStruct_Sync_value False [(1, ''9'')] s' = Inr ([], s'') \<and> \<not> m_bNotifyValueChange s'"
proof -
  obtain s' w' calls s'' where load:
    "TStruct_Load (redis_data_adapter demo_redis DataDesc_Index_Regist) notified_owner
       \<lparr> w_adapter = RedisAdapter_make, w_sub = RedisSubMgr_init, w_redis = [] \<rparr> = Some (Inl (Throw no_wrap), [], s', w')"
    and sync: "IStruct_Sync_value False [(1, ''9'')] s' = Inr (calls, s'')"
    using load_case [OF notified_load] by (elim exE conjE) (auto split: sum.split_asm prod.split_asm)
  from failed_load_silences [OF load sync] load sync show ?thesis by blast
qed

end
