(* ===== verification/Mysql_Client.thy ===== *)
theory Mysql_Client
  imports Redis_Wrap
begin

text \<open>
  \<open>MySqlAdapter/util_mysql.*\<close> (of which \<open>Utils/MySqlUtils.cpp\<close> and \<open>Utils/MysqlUtils.h\<close> are
  copies): the configuration, the connection that is made on demand and renewed once when the
  server is lost, and the reading of a stored result. The MySQL client library is not part of
  the sources modelled: its functions are the members of \<open>mysql_api\<close>, over the library's own
  state.
\<close>

section \<open>Configuration\<close>

record cdbconf =
  sHost :: string
  iPort :: u16
  sDatabase :: string
  sUser :: string
  sPassword :: string
  sCharset :: string

definition CDBConf_default :: cdbconf where
  "CDBConf_default = \<lparr> sHost = ''127.0.0.1'', iPort = 3306, sDatabase = [], sUser = ''root'',
     sPassword = ''123456'', sCharset = ''utf8'' \<rparr>"

text \<open>The port is given with 32 bits and kept with 16.\<close>

definition CDBConf_make :: "string \<Rightarrow> u32 \<Rightarrow> string \<Rightarrow> string \<Rightarrow> string \<Rightarrow> string \<Rightarrow> cdbconf" where
  "CDBConf_make strHost nPort strDB strUser strPassWord strCharSet =
     \<lparr> sHost = strHost, iPort = ucast nPort, sDatabase = strDB, sUser = strUser,
       sPassword = strPassWord, sCharset = strCharSet \<rparr>"

definition set_if :: "(string \<Rightarrow> cdbconf \<Rightarrow> cdbconf) \<Rightarrow> string option \<Rightarrow> cdbconf \<Rightarrow> cdbconf" where
  "set_if f v c = (case v of None \<Rightarrow> c | Some s \<Rightarrow> f s c)"

definition CDBConf_Set :: "(string \<times> string) list \<Rightarrow> cdbconf \<Rightarrow> cdbconf" where
  "CDBConf_Set m c =
     (let c = set_if (\<lambda>s c. c\<lparr>sHost := s\<rparr>) (map_of m ''dbhost'') c;
          c = set_if (\<lambda>s c. c\<lparr>iPort := lexical_cast_u16 s\<rparr>) (map_of m ''dbport'') c;
          c = set_if (\<lambda>s c. c\<lparr>sDatabase := s\<rparr>) (map_of m ''dbname'') c;
          c = set_if (\<lambda>s c. c\<lparr>sUser := s\<rparr>) (map_of m ''dbuser'') c;
          c = set_if (\<lambda>s c. c\<lparr>sPassword := s\<rparr>) (map_of m ''dbpass'') c
      in set_if (\<lambda>s c. c\<lparr>sCharset := s\<rparr>) (map_of m ''charset'') c)"


section \<open>Results\<close>

text \<open>
  A stored result of the library: the names of its columns, its rows, and the rows not fetched
  yet. A value is null or a text with its length.
\<close>

record mysql_res =
  res_fields :: "string list"
  res_rows :: "string option list list"
  res_left :: "string option list list"

text \<open>\<open>CMysqlResult\<close>: \<open>m_row\<close> with its lengths, and the column of every name.\<close>

record mysql_result =
  m_res :: "mysql_res option"
  m_row :: "string option list option"
  m_mField :: "(string \<times> u32) list"
  m_iRowNum :: u64

definition CMysqlResult_make :: "mysql_res option \<Rightarrow> mysql_result" where
  "CMysqlResult_make res =
     (case res of
        None \<Rightarrow> \<lparr> m_res = None, m_row = None, m_mField = [], m_iRowNum = 0 \<rparr>
      | Some q \<Rightarrow> \<lparr> m_res = Some q, m_row = None,
          m_mField = fold (\<lambda>(i, name) m. AList.update name (of_nat i) m) (enumerate 0 (res_fields q)) [],
          m_iRowNum = of_nat (length (res_rows q)) \<rparr>)"

definition CMysqlResult_Next :: "mysql_result \<Rightarrow> bool \<times> mysql_result" where
  "CMysqlResult_Next r =
     (case m_res r of
        None \<Rightarrow> (False, r)
      | Some q \<Rightarrow>
          (case res_left q of
             row # rows \<Rightarrow> (True, r\<lparr>m_res := Some (q\<lparr>res_left := rows\<rparr>), m_row := Some row\<rparr>)
           | [] \<Rightarrow> (False, r\<lparr>m_row := None\<rparr>)))"

definition CMysqlResult_Get_index :: "u32 \<Rightarrow> mysql_result \<Rightarrow> string res" where
  "CMysqlResult_Get_index iIndex r =
     (if m_res r = None then Inl (Throw ''empty mysql result set'')
      else if length (m_mField r) \<le> unat iIndex then Inl (Throw ''exceed mysql result set field'')
      else case m_row r of
          None \<Rightarrow> Inl (Throw ''invalid mysql result set row'')
        | Some row \<Rightarrow>
            (if length row \<le> unat iIndex then Inl Out_of_range
             else case row ! unat iIndex of None \<Rightarrow> Inr [] | Some s \<Rightarrow> Inr s))"

definition CMysqlResult_Get_field :: "string \<Rightarrow> mysql_result \<Rightarrow> string res" where
  "CMysqlResult_Get_field sField r =
     (case map_of (m_mField r) sField of
        None \<Rightarrow> Inl (Throw (''mysql result set field doesn't exist: '' @ sField))
      | Some i \<Rightarrow> CMysqlResult_Get_index i r)"

definition CMysqlResult_Reset :: "mysql_result \<Rightarrow> mysql_result" where
  "CMysqlResult_Reset r =
     (case m_res r of
        None \<Rightarrow> r
      | Some q \<Rightarrow> r\<lparr>m_res := Some (q\<lparr>res_left := res_rows q\<rparr>), m_row := None\<rparr>)"

definition CMysqlResult_Count :: "mysql_result \<Rightarrow> u64" where
  "CMysqlResult_Count r = m_iRowNum r"


section \<open>The connection\<close>

text \<open>
  The client library: every function takes its state. \<open>my_init\<close>, \<open>my_charset\<close>, \<open>my_connect\<close>,
  \<open>my_ping\<close> and \<open>my_query\<close> tell whether they succeed.
\<close>

record 'm mysql_api =
  my_init :: "'m \<Rightarrow> bool \<times> 'm"
  my_charset :: "string \<Rightarrow> 'm \<Rightarrow> bool \<times> 'm"
  my_connect :: "cdbconf \<Rightarrow> 'm \<Rightarrow> bool \<times> 'm"
  my_close :: "'m \<Rightarrow> 'm"
  my_ping :: "'m \<Rightarrow> bool \<times> 'm"
  my_query :: "string \<Rightarrow> 'm \<Rightarrow> bool \<times> 'm"
  my_errno :: "'m \<Rightarrow> int"
  my_error :: "'m \<Rightarrow> string"
  my_store :: "'m \<Rightarrow> mysql_res option \<times> 'm"
  my_escape :: "string \<Rightarrow> 'm \<Rightarrow> string"

text \<open>\<open>CMysql\<close> with the library's state; \<open>m_mysql\<close> is whether there is a handle.\<close>

record 'm cmysql =
  m_dbconf :: cdbconf
  m_mysql :: bool
  m_client :: 'm

definition CMysql_make :: "cdbconf \<Rightarrow> 'm \<Rightarrow> 'm cmysql" where
  "CMysql_make dbconf m = \<lparr> m_dbconf = dbconf, m_mysql = False, m_client = m \<rparr>"

definition CMysql_Disconnect :: "'m mysql_api \<Rightarrow> 'm cmysql \<Rightarrow> 'm cmysql" where
  "CMysql_Disconnect api s =
     (if \<not> m_mysql s then s else s\<lparr>m_client := my_close api (m_client s), m_mysql := False\<rparr>)"

definition CMysql_Init :: "'m mysql_api \<Rightarrow> cdbconf \<Rightarrow> 'm cmysql \<Rightarrow> 'm cmysql" where
  "CMysql_Init api dbconf s = (CMysql_Disconnect api s)\<lparr>m_dbconf := dbconf\<rparr>"

definition CMysql_Connect :: "'m mysql_api \<Rightarrow> 'm cmysql \<Rightarrow> fault option \<times> 'm cmysql" where
  "CMysql_Connect api s =
     (if m_mysql s then (None, s)
      else let (ok, m) = my_init api (m_client s) in
        if \<not> ok then (Some (Throw (''mysql_init: '' @ my_error api m)), s\<lparr>m_client := m\<rparr>)
        else let (ok, m) = (if sCharset (m_dbconf s) \<noteq> [] then my_charset api (sCharset (m_dbconf s)) m else (True, m)) in
        if \<not> ok
        then (Some (Throw (''mysql_options MYSQL_SET_CHARSET_NAME '' @ sCharset (m_dbconf s) @ '': '' @ my_error api m)),
              s\<lparr>m_client := my_close api m\<rparr>)
        else let (ok, m) = my_connect api (m_dbconf s) m in
        if \<not> ok
        then (Some (Throw (''mysql_real_connect: '' @ my_error api m)), s\<lparr>m_client := my_close api m\<rparr>)
        else (None, s\<lparr>m_client := m, m_mysql := True\<rparr>))"

definition CMysql_Escape :: "'m mysql_api \<Rightarrow> string \<Rightarrow> 'm cmysql \<Rightarrow> string res \<times> 'm cmysql" where
  "CMysql_Escape api str s =
     (case CMysql_Connect api s of
        (Some e, s) \<Rightarrow> (Inl e, s)
      | (None, s) \<Rightarrow> (Inr (takeWhile (\<lambda>c. c \<noteq> CHR 0x00) (my_escape api str (m_client s))), s))"

definition CR_SERVER_GONE_ERROR :: int where "CR_SERVER_GONE_ERROR = 2006"
definition CR_SERVER_LOST :: int where "CR_SERVER_LOST = 2013"

definition query_failed :: "'m mysql_api \<Rightarrow> string \<Rightarrow> 'm cmysql \<Rightarrow> fault option \<times> 'm cmysql" where
  "query_failed api sql s =
     (Some (Throw (''mysql_real_query: '' @ my_error api (m_client s) @ '', '' @ sql)), s)"

text \<open>A renewed connection, as \<open>Execute\<close> makes it twice.\<close>

definition CMysql_reconnect :: "'m mysql_api \<Rightarrow> 'm cmysql \<Rightarrow> fault option \<times> 'm cmysql" where
  "CMysql_reconnect api s = CMysql_Connect api (CMysql_Disconnect api s)"

text \<open>\<open>Execute\<close>, up to a connection that answers, and from there.\<close>

definition Execute_connect :: "'m mysql_api \<Rightarrow> 'm cmysql \<Rightarrow> fault option \<times> 'm cmysql" where
  "Execute_connect api s =
     (case CMysql_Connect api s of
        (Some e, s) \<Rightarrow> (Some e, s)
      | (None, s) \<Rightarrow>
          (let (ok, m) = my_ping api (m_client s); s = s\<lparr>m_client := m\<rparr> in
           if \<not> ok then CMysql_reconnect api s else (None, s)))"

definition Execute_send :: "'m mysql_api \<Rightarrow> string \<Rightarrow> 'm cmysql \<Rightarrow> fault option \<times> 'm cmysql" where
  "Execute_send api sql s =
     (let (ok, m) = my_query api sql (m_client s); s = s\<lparr>m_client := m\<rparr> in
      if ok then (None, s)
      else if my_errno api m = CR_SERVER_GONE_ERROR \<or> my_errno api m = CR_SERVER_LOST
      then (case CMysql_reconnect api s of
              (Some e, s) \<Rightarrow> (Some e, s)
            | (None, s) \<Rightarrow>
                (let (ok, m) = my_query api sql (m_client s); s = s\<lparr>m_client := m\<rparr> in
                 if ok then (None, s) else query_failed api sql s))
      else query_failed api sql s)"

definition CMysql_Execute :: "'m mysql_api \<Rightarrow> string \<Rightarrow> 'm cmysql \<Rightarrow> fault option \<times> 'm cmysql" where
  "CMysql_Execute api sql s =
     (case Execute_connect api s of
        (Some e, s) \<Rightarrow> (Some e, s)
      | (None, s) \<Rightarrow> Execute_send api sql s)"

definition CMysql_Query :: "'m mysql_api \<Rightarrow> string \<Rightarrow> 'm cmysql \<Rightarrow> mysql_result res \<times> 'm cmysql" where
  "CMysql_Query api sql s =
     (case CMysql_Execute api sql s of
        (Some e, s) \<Rightarrow> (Inl e, s)
      | (None, s) \<Rightarrow>
          (let (q, m) = my_store api (m_client s); s = s\<lparr>m_client := m\<rparr> in
           case q of
             None \<Rightarrow> (Inl (Throw (''mysql_store_result: '' @ my_error api m @ '', '' @ sql)), s)
           | Some q \<Rightarrow> (Inr (CMysqlResult_make (Some q)), s)))"


section \<open>Handles and queries\<close>

text \<open>
  What the library documents of its handles and queries, as two counters of its state: \<open>h\<close>
  counts the handles that are open, which only \<open>mysql_init\<close> and \<open>mysql_close\<close> change, and \<open>q\<close>
  the queries received, which only \<open>mysql_real_query\<close> changes.
\<close>

definition counted :: "'m mysql_api \<Rightarrow> ('m \<Rightarrow> nat) \<Rightarrow> ('m \<Rightarrow> nat) \<Rightarrow> bool" where
  "counted api h q \<longleftrightarrow>
     (\<forall>m. h (snd (my_init api m)) = (if fst (my_init api m) then Suc (h m) else h m) \<and> q (snd (my_init api m)) = q m) \<and>
     (\<forall>m. 0 < h m \<longrightarrow> h (my_close api m) = h m - 1) \<and> (\<forall>m. q (my_close api m) = q m) \<and>
     (\<forall>c m. h (snd (my_charset api c m)) = h m \<and> q (snd (my_charset api c m)) = q m) \<and>
     (\<forall>c m. h (snd (my_connect api c m)) = h m \<and> q (snd (my_connect api c m)) = q m) \<and>
     (\<forall>m. h (snd (my_ping api m)) = h m \<and> q (snd (my_ping api m)) = q m) \<and>
     (\<forall>sql m. h (snd (my_query api sql m)) = h m \<and> q (snd (my_query api sql m)) = Suc (q m)) \<and>
     (\<forall>m. h (snd (my_store api m)) = h m \<and> q (snd (my_store api m)) = q m)"

text \<open>A client that owns a handle exactly when \<open>m_mysql\<close> is set, beside \<open>n\<close> handles of others.\<close>

definition owns :: "('m \<Rightarrow> nat) \<Rightarrow> nat \<Rightarrow> 'm cmysql \<Rightarrow> bool" where
  "owns h n s \<longleftrightarrow> h (m_client s) = n + (if m_mysql s then 1 else 0)"

lemma counted_query:
  assumes "counted api h q" and "my_query api sql m = (ok, m')"
  shows "h m' = h m \<and> q m' = Suc (q m)"
proof -
  have "h (snd (my_query api sql m)) = h m \<and> q (snd (my_query api sql m)) = Suc (q m)"
    using assms(1) unfolding counted_def by blast
  then show ?thesis by (simp add: assms(2))
qed

lemma counted_store:
  assumes "counted api h q" and "my_store api m = (r, m')"
  shows "h m' = h m \<and> q m' = q m"
proof -
  have "h (snd (my_store api m)) = h m \<and> q (snd (my_store api m)) = q m"
    using assms(1) unfolding counted_def by blast
  then show ?thesis by (simp add: assms(2))
qed

lemma Disconnect_books:
  assumes "counted api h q" and "owns h n s"
  shows "owns h n (CMysql_Disconnect api s) \<and> \<not> m_mysql (CMysql_Disconnect api s) \<and>
    q (m_client (CMysql_Disconnect api s)) = q (m_client s) \<and> m_dbconf (CMysql_Disconnect api s) = m_dbconf s"
  using assms by (auto simp: CMysql_Disconnect_def owns_def counted_def)

lemma Connect_books:
  assumes api: "counted api h q" and own: "owns h n s" and run: "CMysql_Connect api s = (e, s')"
  shows "owns h n s' \<and> q (m_client s') = q (m_client s) \<and> (m_mysql s' \<longleftrightarrow> e = None)"
proof (cases "m_mysql s")
  case True
  then show ?thesis using own run by (auto simp: CMysql_Connect_def)
next
  case False
  obtain ok1 m1 where m1: "my_init api (m_client s) = (ok1, m1)" by (rule prod.exhaust)
  obtain ok2 m2 where m2: "(if sCharset (m_dbconf s) \<noteq> [] then my_charset api (sCharset (m_dbconf s)) m1 else (True, m1)) =
      (ok2, m2)" by (rule prod.exhaust)
  obtain ok3 m3 where m3: "my_connect api (m_dbconf s) m2 = (ok3, m3)" by (rule prod.exhaust)
  have h0: "h (m_client s) = n" using own False by (simp add: owns_def)
  have b1: "h m1 = (if ok1 then Suc n else n) \<and> q m1 = q (m_client s)"
    using api m1 h0 unfolding counted_def by (metis fst_conv snd_conv)
  have b2: "h m2 = h m1 \<and> q m2 = q m1"
  proof (cases "sCharset (m_dbconf s) = []")
    case False
    then have "my_charset api (sCharset (m_dbconf s)) m1 = (ok2, m2)" using m2 by simp
    then show ?thesis using api unfolding counted_def by (metis snd_conv)
  qed (use m2 in simp)
  have b3: "h m3 = h m2 \<and> q m3 = q m2" using api m3 unfolding counted_def by (metis snd_conv)
  have cl: "h (my_close api m) = h m - 1 \<and> q (my_close api m) = q m" if "0 < h m" for m
    using api that unfolding counted_def by blast
  have r: "(e, s') =
      (if \<not> ok1 then (Some (Throw (''mysql_init: '' @ my_error api m1)), s\<lparr>m_client := m1\<rparr>)
       else if \<not> ok2
       then (Some (Throw (''mysql_options MYSQL_SET_CHARSET_NAME '' @ sCharset (m_dbconf s) @ '': '' @ my_error api m2)),
             s\<lparr>m_client := my_close api m2\<rparr>)
       else if \<not> ok3
       then (Some (Throw (''mysql_real_connect: '' @ my_error api m3)), s\<lparr>m_client := my_close api m3\<rparr>)
       else (None, s\<lparr>m_client := m3, m_mysql := True\<rparr>))"
    using run False unfolding CMysql_Connect_def by (simp only: m1 m2 m3 Let_def split if_False)
  show ?thesis
  proof (cases ok1)
    case True
    then have "h m2 = Suc n" "h m3 = Suc n" using b1 b2 b3 by simp_all
    then show ?thesis
      using r True b1 b2 b3 cl [of m2] cl [of m3] False by (simp add: owns_def split: if_splits)
  next
    case no: False
    then show ?thesis using r b1 False by (simp add: owns_def)
  qed
qed

lemma reconnect_books:
  assumes "counted api h q" and "owns h n s" and "CMysql_reconnect api s = (e, s')"
  shows "owns h n s' \<and> q (m_client s') = q (m_client s) \<and> (m_mysql s' \<longleftrightarrow> e = None)"
proof -
  note d = Disconnect_books [OF assms(1,2)]
  from d have "owns h n (CMysql_Disconnect api s)" by blast
  from Connect_books [OF assms(1) this assms(3) [unfolded CMysql_reconnect_def]] d show ?thesis by simp
qed

lemma owns_client: "owns h n s \<Longrightarrow> h m = h (m_client s) \<Longrightarrow> owns h n (s\<lparr>m_client := m\<rparr>)"
  by (simp add: owns_def)

lemma Execute_connect_books:
  assumes api: "counted api h q" and own: "owns h n s" and run: "Execute_connect api s = (e, s')"
  shows "owns h n s' \<and> q (m_client s') = q (m_client s) \<and> (m_mysql s' \<longleftrightarrow> e = None)"
proof -
  obtain e1 s1 where s1: "CMysql_Connect api s = (e1, s1)" by (rule prod.exhaust)
  note b1 = Connect_books [OF api own s1]
  show ?thesis
  proof (cases e1)
    case (Some f)
    then show ?thesis using run s1 b1 by (auto simp: Execute_connect_def)
  next
    case None
    obtain ok m where m: "my_ping api (m_client s1) = (ok, m)" by (rule prod.exhaust)
    have "h m = h (m_client s1) \<and> q m = q (m_client s1)" using api m unfolding counted_def by (metis snd_conv)
    then have o: "owns h n (s1\<lparr>m_client := m\<rparr>)" "q m = q (m_client s)" "m_mysql s1"
      using b1 None owns_client by auto
    show ?thesis
    proof (cases ok)
      case True
      then show ?thesis using run s1 None m o by (auto simp: Execute_connect_def)
    next
      case False
      then have "CMysql_reconnect api (s1\<lparr>m_client := m\<rparr>) = (e, s')"
        using run s1 None m by (simp add: Execute_connect_def)
      from reconnect_books [OF api o(1) this] o(2) show ?thesis by simp
    qed
  qed
qed

lemma Execute_send_books:
  assumes api: "counted api h q" and own: "owns h n s" "m_mysql s" and run: "Execute_send api sql s = (e, s')"
  shows "owns h n s' \<and> q (m_client s) < q (m_client s') \<and> q (m_client s') \<le> q (m_client s) + 2 \<and>
    (e = None \<longrightarrow> m_mysql s' \<and> (\<exists>m. my_query api sql m = (True, m_client s')))"
proof -
  note qry = counted_query [OF api]
  obtain ok m where m: "my_query api sql (m_client s) = (ok, m)" by (rule prod.exhaust)
  note q1 = qry [OF m]
  have o1: "owns h n (s\<lparr>m_client := m\<rparr>)" by (rule owns_client [OF own(1) conjunct1 [OF q1]])
  let ?lost = "my_errno api m = CR_SERVER_GONE_ERROR \<or> my_errno api m = CR_SERVER_LOST"
  consider (sent) ok | (failed) "\<not> ok" "\<not> ?lost" | (lost) "\<not> ok" ?lost by blast
  then show ?thesis
  proof cases
    case sent
    then have "e = None" "s' = s\<lparr>m_client := m\<rparr>" using run m by (simp_all add: Execute_send_def)
    then show ?thesis using o1 own(2) q1 m sent by auto
  next
    case failed
    then have "e \<noteq> None" "s' = s\<lparr>m_client := m\<rparr>" using run m by (auto simp: Execute_send_def query_failed_def)
    then show ?thesis using o1 q1 by auto
  next
    case lost
    obtain e2 s2 where s2: "CMysql_reconnect api (s\<lparr>m_client := m\<rparr>) = (e2, s2)" by (rule prod.exhaust)
    note b2 = reconnect_books [OF api o1 s2]
    obtain ok3 m3 where m3: "my_query api sql (m_client s2) = (ok3, m3)" by (rule prod.exhaust)
    note q3 = qry [OF m3]
    have o3: "owns h n (s2\<lparr>m_client := m3\<rparr>)" by (rule owns_client [OF conjunct1 [OF b2] conjunct1 [OF q3]])
    have r: "(e, s') = (case e2 of Some e \<Rightarrow> (Some e, s2)
        | None \<Rightarrow> if ok3 then (None, s2\<lparr>m_client := m3\<rparr>) else query_failed api sql (s2\<lparr>m_client := m3\<rparr>))"
      using run lost m s2 m3 by (auto simp: Execute_send_def split: option.split)
    show ?thesis
    proof (cases e2)
      case (Some f)
      then show ?thesis using r b2 q1 by simp
    next
      case None
      then show ?thesis
        using r b2 q1 q3 o3 m3 by (cases ok3) (auto simp: query_failed_def)
    qed
  qed
qed

lemma Execute_books:
  assumes api: "counted api h q" and own: "owns h n s" and run: "CMysql_Execute api sql s = (e, s')"
  shows "owns h n s' \<and> q (m_client s') \<le> q (m_client s) + 2 \<and>
    (if e = None
     then m_mysql s' \<and> q (m_client s) < q (m_client s') \<and> (\<exists>m. my_query api sql m = (True, m_client s'))
     else q (m_client s') = q (m_client s) \<longrightarrow> \<not> m_mysql s')"
proof -
  obtain e1 s1 where s1: "Execute_connect api s = (e1, s1)" by (rule prod.exhaust)
  note b1 = Execute_connect_books [OF api own s1]
  show ?thesis
  proof (cases e1)
    case (Some f)
    then show ?thesis using run s1 b1 by (auto simp: CMysql_Execute_def)
  next
    case None
    then have "Execute_send api sql s1 = (e, s')" using run s1 by (simp add: CMysql_Execute_def)
    from Execute_send_books [OF api _ _ this] b1 None show ?thesis by auto
  qed
qed

text \<open>Any sequence of calls, and the destruction of the client.\<close>

datatype sql_op =
    Op_init cdbconf
  | Op_connect
  | Op_disconnect
  | Op_escape string
  | Op_execute string
  | Op_query string

fun sql_apply :: "'m mysql_api \<Rightarrow> sql_op \<Rightarrow> 'm cmysql \<Rightarrow> 'm cmysql" where
  "sql_apply api (Op_init c) s = CMysql_Init api c s"
| "sql_apply api Op_connect s = snd (CMysql_Connect api s)"
| "sql_apply api Op_disconnect s = CMysql_Disconnect api s"
| "sql_apply api (Op_escape str) s = snd (CMysql_Escape api str s)"
| "sql_apply api (Op_execute sql) s = snd (CMysql_Execute api sql s)"
| "sql_apply api (Op_query sql) s = snd (CMysql_Query api sql s)"

lemma Query_owns:
  assumes api: "counted api h q" and own: "owns h n s"
  shows "owns h n (snd (CMysql_Query api sql s))"
proof -
  obtain e s1 where s1: "CMysql_Execute api sql s = (e, s1)" by (rule prod.exhaust)
  obtain r m where m: "my_store api (m_client s1) = (r, m)" by (rule prod.exhaust)
  have "h m = h (m_client s1)" using counted_store [OF api m] by blast
  then have "owns h n (s1\<lparr>m_client := m\<rparr>)" 
    by (rule owns_client [OF conjunct1 [OF Execute_books [OF api own s1]]])
  moreover have "owns h n s1" using Execute_books [OF api own s1] by blast
  ultimately show ?thesis by (simp add: CMysql_Query_def s1 m Let_def split: option.split)
qed

lemma sql_apply_owns:
  assumes api: "counted api h q" and own: "owns h n s"
  shows "owns h n (sql_apply api op s)"
proof -
  obtain e s1 where c: "CMysql_Connect api s = (e, s1)" by (rule prod.exhaust)
  show ?thesis
  proof (cases op)
    case (Op_init c)
    then show ?thesis using Disconnect_books [OF assms] by (simp add: CMysql_Init_def owns_def)
  next
    case (Op_escape str)
    then show ?thesis using Connect_books [OF assms c] by (simp add: CMysql_Escape_def c split: option.split)
  next
    case (Op_execute sql)
    obtain e2 s2 where "CMysql_Execute api sql s = (e2, s2)" by (rule prod.exhaust)
    with Execute_books [OF assms this] Op_execute show ?thesis by simp
  qed (use Connect_books [OF assms c] Disconnect_books [OF assms] Query_owns [OF assms] c in auto)
qed

text \<open>
  C16. Handles of the database client: with a library that counts its handles as documented,
  after any sequence of calls, whichever of them throw, the client holds one open handle when
  it is connected and none otherwise, and its destruction closes it: no handle is leaked and
  none is closed twice.
\<close>

theorem mysql_handles_balanced:
  assumes "counted api h q"
  shows "h (m_client (fold (sql_apply api) ops (CMysql_make conf m))) =
      h m + (if m_mysql (fold (sql_apply api) ops (CMysql_make conf m)) then 1 else 0) \<and>
    h (m_client (CMysql_Disconnect api (fold (sql_apply api) ops (CMysql_make conf m)))) = h m"
proof -
  have "owns h (h m) (fold (sql_apply api) ops s)" if "owns h (h m) s" for s
    using that sql_apply_owns [OF assms] by (induction ops arbitrary: s) simp_all
  moreover have "owns h (h m) (CMysql_make conf m)" by (simp add: owns_def CMysql_make_def)
  ultimately have o: "owns h (h m) (fold (sql_apply api) ops (CMysql_make conf m))" by blast
  with Disconnect_books [OF assms o] show ?thesis by (simp add: owns_def)
qed

text \<open>A library whose first query finds the server gone.\<close>

definition demo_mysql :: "(nat \<times> nat) mysql_api" where
  "demo_mysql =
     \<lparr> my_init = \<lambda>(h, q). (True, (Suc h, q)), my_charset = \<lambda>_ m. (True, m), my_connect = \<lambda>_ m. (True, m),
       my_close = \<lambda>(h, q). (h - 1, q), my_ping = \<lambda>m. (True, m),
       my_query = \<lambda>_ (h, q). (0 < q, (h, Suc q)), my_errno = \<lambda>_. 2006, my_error = \<lambda>_. ''gone'',
       my_store = \<lambda>m. (None, m), my_escape = \<lambda>s _. s \<rparr>"

lemma demo_mysql_counted: "counted demo_mysql fst snd"
  by (simp add: counted_def demo_mysql_def split_def)

theorem mysql_handles_balanced_witness:
  "let s = fold (sql_apply demo_mysql) [Op_execute ''UPDATE t SET a=1'', Op_query ''SELECT a FROM t''] (CMysql_make CDBConf_default (5, 0))
   in fst (m_client s) = 6 \<and> m_mysql s \<and> fst (m_client (CMysql_Disconnect demo_mysql s)) = 5"
proof -
  let ?s = "fold (sql_apply demo_mysql) [Op_execute ''UPDATE t SET a=1'', Op_query ''SELECT a FROM t''] (CMysql_make CDBConf_default (5, 0))"
  have "m_mysql ?s" by code_simp
  with mysql_handles_balanced [OF demo_mysql_counted, of
      "[Op_execute ''UPDATE t SET a=1'', Op_query ''SELECT a FROM t'']" CDBConf_default "(5, 0)"]
  show ?thesis unfolding Let_def by simp
qed

text \<open>
  C17. \<open>Execute\<close> sends its command at most twice; when it returns, the command was sent over an
  open connection and the last attempt succeeded; when it throws before the command was sent,
  no connection is left, so the next call connects anew.
\<close>

theorem execute_at_most_twice:
  assumes "counted api h q" and "owns h n s" and "CMysql_Execute api sql s = (e, s')"
  shows "q (m_client s') \<le> q (m_client s) + 2 \<and>
    (if e = None
     then m_mysql s' \<and> q (m_client s) < q (m_client s') \<and> (\<exists>m. my_query api sql m = (True, m_client s'))
     else q (m_client s') = q (m_client s) \<longrightarrow> \<not> m_mysql s')"
  using Execute_books [OF assms] by blast

theorem execute_at_most_twice_witness:
  "\<exists>s'. CMysql_Execute demo_mysql ''UPDATE t SET a=1'' (CMysql_make CDBConf_default (0, 0)) = (None, s') \<and>
     snd (m_client s') \<le> 2 \<and> m_mysql s' \<and> (\<exists>m. my_query demo_mysql ''UPDATE t SET a=1'' m = (True, m_client s'))"
proof -
  have "fst (CMysql_Execute demo_mysql ''UPDATE t SET a=1'' (CMysql_make CDBConf_default (0, 0))) = None"
    by code_simp
  then obtain s' where run: "CMysql_Execute demo_mysql ''UPDATE t SET a=1'' (CMysql_make CDBConf_default (0, 0)) = (None, s')"
    by (metis prod.collapse)
  have "owns fst 0 (CMysql_make CDBConf_default (0, 0 :: nat))" by (simp add: owns_def CMysql_make_def)
  from execute_at_most_twice [OF demo_mysql_counted this run] run show ?thesis
    by (simp add: CMysql_make_def)
qed

end
