(* ===== verification/Data_Transfer.thy ===== *)
theory Data_Transfer
  imports Mysql_Client "HOL-Library.List_Lexorder"
begin

text \<open>
  \<open>DataHandle/DataTransfer/*\<close>: the copying of structures between the database and redis. Dates
  are texts in the database and seconds in redis; the conversions of the C library are
  parameters. An operation ends with its result, or with the fault that is not a
  \<open>std::exception\<close>; what it did to the connections stays in either case.
\<close>

section \<open>Dates\<close>

record tm =
  tm_year :: int
  tm_mon :: int
  tm_mday :: int
  tm_hour :: int
  tm_min :: int
  tm_sec :: int
  tm_isdst :: int

text \<open>
  \<open>mktime\<close>, \<open>localtime_s\<close>, and \<open>stTime\<close>, what a \<open>struct tm\<close> holds that was declared and not
  written.
\<close>

record time_env =
  mktime :: "tm \<Rightarrow> int"
  localtime_s :: "int \<Rightarrow> tm"
  stTime :: tm

text \<open>One \<open>%d\<close> of \<open>sscanf_s\<close>: the number read and the rest of the text.\<close>

definition scan_d :: "string \<Rightarrow> (int \<times> string) option" where
  "scan_d s =
     (let s = dropWhile is_space s;
          sign = (if s \<noteq> [] \<and> (hd s = CHR ''-'' \<or> hd s = CHR ''+'') then [hd s] else []);
          s = drop (length sign) s;
          ds = takeWhile is_digit s
      in if ds = [] then None
         else Some (clamp 32 (if sign = ''-'' then - int (digits_val ds) else int (digits_val ds)), dropWhile is_digit s))"

text \<open>The conversions of a format of \<open>%d\<close> with single characters between them, until one fails.\<close>

fun scan_format :: "string \<Rightarrow> string \<Rightarrow> int list" where
  "scan_format seps s =
     (case scan_d s of
        None \<Rightarrow> []
      | Some (v, s) \<Rightarrow>
          v # (case seps of
                 [] \<Rightarrow> []
               | c # seps \<Rightarrow>
                   if c = CHR '' '' then scan_format seps (dropWhile is_space s)
                   else if s \<noteq> [] \<and> hd s = c then scan_format seps (tl s) else []))"

declare scan_format.simps [simp del]

definition sscanf_tm :: "string \<Rightarrow> tm \<Rightarrow> tm" where
  "sscanf_tm s t =
     fold (\<lambda>(set, v) t. set v t)
       (zip [\<lambda>v t. t\<lparr>tm_year := v\<rparr>, \<lambda>v t. t\<lparr>tm_mon := v\<rparr>, \<lambda>v t. t\<lparr>tm_mday := v\<rparr>,
             \<lambda>v t. t\<lparr>tm_hour := v\<rparr>, \<lambda>v t. t\<lparr>tm_min := v\<rparr>, \<lambda>v t. t\<lparr>tm_sec := v\<rparr>]
         (scan_format ''-- ::'' s)) t"

definition print_tm :: "tm \<Rightarrow> string" where
  "print_tm t =
     dec_of_int (tm_year t + 1900) @ ''-'' @ dec_of_int (tm_mon t + 1) @ ''-'' @ dec_of_int (tm_mday t) @ '' '' @
     dec_of_int (tm_hour t) @ '':'' @ dec_of_int (tm_min t) @ '':'' @ dec_of_int (tm_sec t)"


section \<open>Values\<close>

definition TranToRedisStr :: "time_env \<Rightarrow> string \<Rightarrow> field_type \<Rightarrow> string" where
  "TranToRedisStr env strValue ty =
     (case ty of
        FT_datetime \<Rightarrow>
          (let t = sscanf_tm strValue (stTime env);
               t = t\<lparr>tm_year := tm_year t - 1900, tm_mon := tm_mon t - 1\<rparr>
           in ToString_i64 (mktime env t))
      | FT_string \<Rightarrow> ToString_string strValue
      | _ \<Rightarrow> strValue)"

text \<open>
  The first and the last character of a text become quotes. The buffer of the date is large
  enough for six numbers of 32 bits.
\<close>

definition TranToDBStr :: "time_env \<Rightarrow> string \<Rightarrow> field_type \<Rightarrow> string res" where
  "TranToDBStr env strValue ty =
     (case ty of
        FT_datetime \<Rightarrow>
          rbind (get_i64_string strValue) (\<lambda>tTime. Inr (CHR 0x27 # print_tm (localtime_s env tTime) @ [CHR 0x27]))
      | FT_string \<Rightarrow>
          (if strValue = [] then Inl Out_of_range
           else Inr (let str = strValue[0 := CHR 0x27] in str[length str - 1 := CHR 0x27]))
      | _ \<Rightarrow> Inr strValue)"


section \<open>The transfer\<close>

record ('m, 'r) data_transfer =
  m_MySql :: "'m cmysql"
  m_Redis :: 'r

text \<open>\<open>Connect\<close> may throw out of the constructor; redis is connected before it.\<close>

definition DataTransfer_make ::
  "(string \<Rightarrow> u32 \<Rightarrow> bool) \<Rightarrow> (string \<Rightarrow> u32 \<Rightarrow> bool) \<Rightarrow> 'm mysql_api \<Rightarrow> string \<Rightarrow> u32 \<Rightarrow> u32 \<Rightarrow> cdbconf \<Rightarrow> 'm \<Rightarrow>
   bool \<Rightarrow> (fault option \<times> ('m, redis_wrap) data_transfer) res" where
  "DataTransfer_make redisConnect redisConnectNonBlock api strHost nPort iTimeOutMS stDBcfg m run_flag =
     rbind (RedisWrap_Init redisConnect redisConnectNonBlock strHost nPort True iTimeOutMS (RedisWrap_make run_flag))
       (\<lambda>(_, _, w). case CMysql_Connect api (CMysql_make stDBcfg m) of
          (e, s) \<Rightarrow> Inr (e, \<lparr> m_MySql = s, m_Redis = w \<rparr>))"

text \<open>What \<open>catch (const std::exception&)\<close> makes of a fault.\<close>

fun caught :: "bool \<Rightarrow> fault \<Rightarrow> bool res" where
  "caught result (Throw _) = Inr result"
| "caught result e = Inl e"

definition redis_Execute :: "'r redis_command \<Rightarrow> string \<Rightarrow> ('m, 'r) data_transfer \<Rightarrow> ('m, 'r) data_transfer" where
  "redis_Execute cmd strCmd t = t\<lparr>m_Redis := RedisWrap_Execute cmd strCmd (m_Redis t)\<rparr>"

definition redis_Load ::
  "'r redis_command \<Rightarrow> string \<Rightarrow> ('m, 'r) data_transfer \<Rightarrow> string list \<times> ('m, 'r) data_transfer" where
  "redis_Load cmd strQuery t =
     (let (ls, r) = RedisWrap_Load_strings cmd strQuery [] (m_Redis t) in (ls, t\<lparr>m_Redis := r\<rparr>))"

definition sql_Execute ::
  "'m mysql_api \<Rightarrow> string \<Rightarrow> ('m, 'r) data_transfer \<Rightarrow> fault option \<times> ('m, 'r) data_transfer" where
  "sql_Execute api sql t = (let (e, s) = CMysql_Execute api sql (m_MySql t) in (e, t\<lparr>m_MySql := s\<rparr>))"

definition sql_Query ::
  "'m mysql_api \<Rightarrow> string \<Rightarrow> ('m, 'r) data_transfer \<Rightarrow> mysql_result res \<times> ('m, 'r) data_transfer" where
  "sql_Query api sql t = (let (q, s) = CMysql_Query api sql (m_MySql t) in (q, t\<lparr>m_MySql := s\<rparr>))"

text \<open>A null name written to a stream or made a \<open>std::string\<close>.\<close>

definition the_name :: "string option \<Rightarrow> string res" where
  "the_name p = (case p of None \<Rightarrow> Inl Null_deref | Some s \<Rightarrow> Inr s)"

text \<open>
  The fields of a structure are iterated in the order of the registry's hash table, here that
  of the list. A comma follows every field but the last of its structure.
\<close>

fun select_fields :: "nat \<Rightarrow> nat \<Rightarrow> (u32 \<times> field_name_type) list \<Rightarrow> string" where
  "select_fields iIndex nSize [] = []"
| "select_fields iIndex nSize ((_, f) # fs) =
     Name f @ (if iIndex \<noteq> nSize then '','' else []) @ '' '' @ select_fields (Suc iIndex) nSize fs"

text \<open>The fields of the current row as the arguments of an HMSET.\<close>

definition hmset_fields ::
  "time_env \<Rightarrow> mysql_result \<Rightarrow> (u32 \<times> field_name_type) list \<Rightarrow> string \<Rightarrow> string res" where
  "hmset_fields env pResult fs ssRedis =
     rfold (\<lambda>(_, f) ss. rbind (CMysqlResult_Get_field (Name f) pResult)
         (\<lambda>v. Inr (ss @ '' '' @ Name f @ '' '' @ TranToRedisStr env v (eType f)))) fs ssRedis"

definition package_keys :: "key_field_mgr \<Rightarrow> u32 list \<Rightarrow> datakey list" where
  "package_keys mgr setKey = concat (map (\<lambda>it. case FindDataKey mgr it of None \<Rightarrow> [] | Some k \<Rightarrow> [k]) setKey)"

definition LoadPackageToRedis ::
  "'m mysql_api \<Rightarrow> 'r redis_command \<Rightarrow> time_env \<Rightarrow> key_field_mgr \<Rightarrow> string \<Rightarrow> u64 \<Rightarrow>
   ('m, 'r) data_transfer \<Rightarrow> bool res \<times> ('m, 'r) data_transfer" where
  "LoadPackageToRedis api cmd env mgr strDBTable i64Key t =
     (let setKey = FindPackageDB mgr strDBTable in
      if setKey = [] then (Inr False, t)
      else
        (let vKey = package_keys mgr setKey;
             ssQuery = ''SELECT '' @ concat (map (\<lambda>k. select_fields 1 (length (mField k)) (mField k)) vKey) @
               ''FROM '' @ strDBTable @ '' where Key='' @ dec_of_nat (unat i64Key)
         in case sql_Query api ssQuery t of
              (Inl e, t) \<Rightarrow> (caught False e, t)
            | (Inr pResult, t) \<Rightarrow>
                (let (ok, pResult) = CMysqlResult_Next pResult in
                 if \<not> ok then (Inr False, t)
                 else
                   case efold
                       (\<lambda>k t. case rbind (the_name (pName k))
                            (\<lambda>n. hmset_fields env pResult (mField k) (''HMSET '' @ n @ '':'' @ dec_of_nat (unat i64Key))) of
                          Inl e \<Rightarrow> (Some e, t)
                        | Inr ssRedis \<Rightarrow> (None, redis_Execute cmd ssRedis t)) vKey t of
                     (Some e, t) \<Rightarrow> (caught False e, t)
                   | (None, t) \<Rightarrow> (Inr True, t))))"

text \<open>
  The rows of a repeated table: the command of every row is made (which may throw) and dropped;
  \<open>n\<close> is the number of rows left.
\<close>

fun repeated_rows :: "time_env \<Rightarrow> datakey \<Rightarrow> u64 \<Rightarrow> nat \<Rightarrow> mysql_result \<Rightarrow> fault option" where
  "repeated_rows env k i64Key 0 pResult = None"
| "repeated_rows env k i64Key (Suc n) pResult =
     (let (ok, pResult) = CMysqlResult_Next pResult in
      if \<not> ok then None
      else case rbind (the_name (pName k)) (\<lambda>name.
             rbind (CMysqlResult_Get_field ''Index'' pResult) (\<lambda>i.
               hmset_fields env pResult (mField k) (''HMSET '' @ name @ '':'' @ dec_of_nat (unat i64Key) @ '':'' @ i))) of
           Inl e \<Rightarrow> Some e
         | Inr ssRedis \<Rightarrow> repeated_rows env k i64Key n pResult)"

definition LoadRepeatedToRedis ::
  "'m mysql_api \<Rightarrow> 'r redis_command \<Rightarrow> time_env \<Rightarrow> key_field_mgr \<Rightarrow> string \<Rightarrow> u64 \<Rightarrow>
   ('m, 'r) data_transfer \<Rightarrow> bool res \<times> ('m, 'r) data_transfer" where
  "LoadRepeatedToRedis api cmd env mgr strDBTable i64Key t =
     (case FindRepeatedDB mgr strDBTable of
        None \<Rightarrow> (Inr False, t)
      | Some k \<Rightarrow>
          (let ssQuery = ''SELECT Index, '' @ select_fields 1 (length (mField k)) (mField k) @
                 ''FROM '' @ strDBTable @ '' where Key='' @ dec_of_nat (unat i64Key)
           in case sql_Query api ssQuery t of
                (Inl e, t) \<Rightarrow> (caught True e, t)
              | (Inr pResult, t) \<Rightarrow>
                  (case the_name (pName k) of
                     Inl e \<Rightarrow> (caught True e, t)
                   | Inr name \<Rightarrow>
                       (let (ls, t) = redis_Load cmd (''KEYS '' @ name @ '':'' @ dec_of_nat (unat i64Key) @ '':*'') t;
                            t = fold (\<lambda>it t. redis_Execute cmd (''DEL '' @ it) t) ls t
                        in case repeated_rows env k i64Key (case m_res pResult of None \<Rightarrow> 0 | Some q \<Rightarrow> length (res_left q)) pResult of
                             Some e \<Rightarrow> (caught True e, t)
                           | None \<Rightarrow> (Inr True, t)))))"

text \<open>
  The values of one structure read from redis, those that are not empty, by field name. The
  first component says whether the reply had a value for every field.
\<close>

definition package_values ::
  "time_env \<Rightarrow> (u32 \<times> field_name_type) list \<Rightarrow> string list \<Rightarrow> (string \<times> string) list \<Rightarrow>
   (string \<times> string) list res" where
  "package_values env fs listResult mKeyValue =
     rfold (\<lambda>((_, f), v) m. if v = [] then Inr m
         else rbind (TranToDBStr env v (eType f)) (\<lambda>s. Inr (om_put (Name f) s m)))
       (zip fs listResult) mKeyValue"

fun package_read ::
  "'r redis_command \<Rightarrow> time_env \<Rightarrow> u64 \<Rightarrow> datakey list \<Rightarrow> (string \<times> string) list \<Rightarrow>
   ('m, 'r) data_transfer \<Rightarrow> (bool \<times> (string \<times> string) list) res \<times> ('m, 'r) data_transfer" where
  "package_read cmd env i64Key [] mKeyValue t = (Inr (True, mKeyValue), t)"
| "package_read cmd env i64Key (k # ks) mKeyValue t =
     (case the_name (pName k) of
        Inl e \<Rightarrow> (Inl e, t)
      | Inr n \<Rightarrow>
          (let (listResult, t) = redis_Load cmd (''HMGET '' @ n @ '':'' @ dec_of_nat (unat i64Key) @
                 concat (map (\<lambda>(_, f). '' '' @ Name f) (mField k))) t
           in if length listResult \<noteq> length (mField k) then (Inr (False, mKeyValue), t)
              else case package_values env (mField k) listResult mKeyValue of
                     Inl e \<Rightarrow> (Inl e, t)
                   | Inr mKeyValue \<Rightarrow> package_read cmd env i64Key ks mKeyValue t))"

text \<open>The statement that writes the collected values, for a row that exists and for a new one.\<close>

fun update_fields :: "nat \<Rightarrow> nat \<Rightarrow> (string \<times> string) list \<Rightarrow> string" where
  "update_fields iIndex nSize [] = []"
| "update_fields iIndex nSize ((n, v) # m) =
     n @ ''='' @ v @ (if iIndex \<noteq> nSize then '','' else '' '') @ update_fields (Suc iIndex) nSize m"

fun comma_list :: "nat \<Rightarrow> nat \<Rightarrow> string list \<Rightarrow> string" where
  "comma_list iIndex nSize [] = []"
| "comma_list iIndex nSize (x # xs) =
     x @ (if iIndex \<noteq> nSize then '','' else []) @ comma_list (Suc iIndex) nSize xs"

definition SavePackageToDB ::
  "'m mysql_api \<Rightarrow> 'r redis_command \<Rightarrow> time_env \<Rightarrow> key_field_mgr \<Rightarrow> string \<Rightarrow> u64 \<Rightarrow>
   ('m, 'r) data_transfer \<Rightarrow> bool res \<times> ('m, 'r) data_transfer" where
  "SavePackageToDB api cmd env mgr strDBTable i64Key t =
     (let setKey = FindPackageDB mgr strDBTable in
      if setKey = [] then (Inr False, t)
      else
        (let vKey = package_keys mgr setKey;
             sKey = dec_of_nat (unat i64Key)
         in case sql_Query api (''Select * FROM '' @ strDBTable @ '' WHERE Key = '' @ sKey) t of
              (Inl e, t) \<Rightarrow> (caught False e, t)
            | (Inr pResult, t) \<Rightarrow>
                (let bExit = fst (CMysqlResult_Next pResult) in
                 case package_read cmd env i64Key vKey [] t of
                   (Inl e, t) \<Rightarrow> (caught False e, t)
                 | (Inr (False, _), t) \<Rightarrow> (Inr False, t)
                 | (Inr (True, m), t) \<Rightarrow>
                     (if bExit
                      then case sql_Execute api (''UPDATE '' @ strDBTable @ '' SET '' @
                               update_fields 1 (length m) m @ ''WHERE Key='' @ sKey) t of
                             (Some e, t) \<Rightarrow> (caught False e, t)
                           | (None, t) \<Rightarrow> (Inr True, t)
                      else (Inr True, redis_Execute cmd (''INSERT INTO '' @ strDBTable @ '' (Key,'' @
                               comma_list 1 (length m) (map fst m) @ '') VALUES('' @ sKey @ '','' @
                               comma_list 1 (length m) (map snd m) @ '')'') t)))))"

text \<open>The values of one element; \<open>iIndex\<close> counts from 1 those that are not empty.\<close>

definition element_values ::
  "time_env \<Rightarrow> (u32 \<times> field_name_type) list \<Rightarrow> string list \<Rightarrow> nat \<times> string \<Rightarrow> (nat \<times> string) res" where
  "element_values env fs listValue =
     rfold (\<lambda>((_, f), v) (iIndex, ssQuery). if v = [] then Inr (iIndex, ssQuery)
         else rbind (TranToDBStr env v (eType f))
           (\<lambda>s. Inr (Suc iIndex, ssQuery @ s @ (if iIndex \<noteq> length fs then '','' else []) @ '' '')))
       (zip fs listValue)"

text \<open>The insertion of the elements; the flag is false when redis did not answer with all fields.\<close>

fun insert_elements ::
  "'m mysql_api \<Rightarrow> 'r redis_command \<Rightarrow> time_env \<Rightarrow> datakey \<Rightarrow> string \<Rightarrow> string \<Rightarrow> u64 list \<Rightarrow>
   ('m, 'r) data_transfer \<Rightarrow> bool res \<times> ('m, 'r) data_transfer" where
  "insert_elements api cmd env k strRedis strInsert [] t = (Inr True, t)"
| "insert_elements api cmd env k strRedis strInsert (it # listKey) t =
     (let (listValue, t) = redis_Load cmd (strRedis @ dec_of_nat (unat it)) t in
      if length listValue \<noteq> length (mField k) then (Inr False, t)
      else case element_values env (mField k) listValue (1, strInsert @ dec_of_nat (unat it) @ '', '') of
          Inl e \<Rightarrow> (Inl e, t)
        | Inr (iIndex, ssQuery) \<Rightarrow>
            (if 1 < iIndex
             then case sql_Execute api (ssQuery @ '')'') t of
                    (Some e, t) \<Rightarrow> (Inl e, t)
                  | (None, t) \<Rightarrow> insert_elements api cmd env k strRedis strInsert listKey t
             else insert_elements api cmd env k strRedis strInsert listKey t))"

text \<open>\<open>None\<close>: the scan of the keys does not end.\<close>

definition SaveRepeatedToDB ::
  "'m mysql_api \<Rightarrow> 'r redis_command \<Rightarrow> time_env \<Rightarrow> key_field_mgr \<Rightarrow> string \<Rightarrow> u64 \<Rightarrow>
   ('m, 'r) data_transfer \<Rightarrow> (bool res \<times> ('m, 'r) data_transfer) option" where
  "SaveRepeatedToDB api cmd env mgr strDBTable i64Key t =
     (case FindRepeatedDB mgr strDBTable of
        None \<Rightarrow> Some (Inr False, t)
      | Some k \<Rightarrow>
          (case the_name (pName k) of
             Inl e \<Rightarrow> Some (caught False e, t)
           | Inr name \<Rightarrow>
               map_option (\<lambda>(listKey, r).
                 (let t = t\<lparr>m_Redis := r\<rparr>; sKey = dec_of_nat (unat i64Key) in
                  case listKey of
                    Inl e \<Rightarrow> (caught False e, t)
                  | Inr listKey \<Rightarrow>
                      (case sql_Execute api (''DELETE FROM '' @ strDBTable @ '' WHERE Key='' @ sKey) t of
                         (Some e, t) \<Rightarrow> (caught False e, t)
                       | (None, t) \<Rightarrow>
                           (case insert_elements api cmd env k (''HMGET '' @ name @ '':'' @ sKey @ '':'')
                               (''INSERT INTO '' @ strDBTable @ '' ( Key, Index, '' @
                                  select_fields 1 (length (mField k)) (mField k) @ '') VALUES ('' @ sKey @ '','')
                               listKey t of
                              (Inl e, t) \<Rightarrow> (caught False e, t)
                            | (Inr b, t) \<Rightarrow> (Inr b, t)))))
                 (RedisWrap_ScanKey_all cmd i64Key name [] (m_Redis t))))"


section \<open>Round trip of values\<close>

lemma scan_d_digits:
  assumes "ds \<noteq> []" "\<forall>c \<in> set ds. is_digit c" "digits_val ds < 2 ^ 31" and "r = [] \<or> \<not> is_digit (hd r)"
  shows "scan_d (ds @ r) = Some (int (digits_val ds), r)"
proof -
  obtain c cs where c: "ds = c # cs" using assms(1) by (cases ds) auto
  then have "is_digit c" using assms(2) by simp
  note d = is_digit_not [OF this]
  have "takeWhile is_digit r = []" using assms(4) by (cases r) auto
  then have "takeWhile is_digit (ds @ r) = ds" using assms(2) by (simp add: takeWhile_append2)
  moreover have "dropWhile is_digit (ds @ r) = r"
    using assms(2,4) by (cases r) (auto simp: dropWhile_append)
  moreover have "clamp 32 (int (digits_val ds)) = int (digits_val ds)" using assms(3) by (simp add: clamp_unat)
  ultimately show ?thesis
    using d unfolding scan_d_def Let_def by (simp add: c)
qed

text \<open>A number with zeros in front up to a width, as the database prints the parts of a date.\<close>

definition padded :: "nat \<Rightarrow> nat \<Rightarrow> string" where
  "padded k n = replicate (k - length (dec_of_nat n)) CHR ''0'' @ dec_of_nat n"

lemma digits_val_zeros: "digits_val (replicate k CHR ''0'' @ s) = digits_val s"
  by (induction k) (simp_all add: digits_val_def digit_val_def)

lemma padded_props: "padded k n \<noteq> []" "\<forall>c \<in> set (padded k n). is_digit c" "digits_val (padded k n) = n"
  using dec_of_nat_digits [of n] by (auto simp: padded_def digits_val_zeros is_digit_def)

lemma padded_0: "padded 0 n = dec_of_nat n"
  by (simp add: padded_def)

lemma scan_d_padded: "n < 2 ^ 31 \<Longrightarrow> r = [] \<or> \<not> is_digit (hd r) \<Longrightarrow> scan_d (padded k n @ r) = Some (int n, r)"
  using scan_d_digits [OF padded_props(1,2), of k n r] by (simp add: padded_props)

lemma scan_format_padded:
  assumes "n < 2 ^ 31" and "\<not> is_digit c" and "c \<noteq> CHR '' ''"
  shows "scan_format (c # seps) (padded k n @ c # r) = int n # scan_format seps r"
  using scan_d_padded [of n "c # r" k] assms by (subst scan_format.simps) simp

lemma dropWhile_space_padded: "dropWhile is_space (padded k n @ r) = padded k n @ r"
proof -
  obtain c cs where c: "padded k n = c # cs" using padded_props(1) by (cases "padded k n") auto
  then have "is_digit c" using padded_props(2) [of k n] by simp
  from is_digit_not [OF this] show ?thesis by (simp add: c)
qed

lemma scan_format_padded_space:
  assumes "n < 2 ^ 31"
  shows "scan_format (CHR '' '' # seps) (padded k n @ CHR '' '' # r) = int n # scan_format seps (dropWhile is_space r)"
  using scan_d_padded [of n "CHR '' '' # r" k] assms
  by (subst scan_format.simps) (simp add: is_digit_def is_space_def)

lemma scan_format_padded_last: "n < 2 ^ 31 \<Longrightarrow> scan_format [] (padded k n) = [int n]"
  using scan_d_padded [of n "[]" k] by (subst scan_format.simps) simp

text \<open>
  The text of a date with its numbers padded to given widths: the database prints a
  \<open>DATETIME\<close> with the widths 4 and 2, \<open>TranToDBStr\<close> prints without padding.
\<close>

definition date_text :: "nat \<Rightarrow> nat \<Rightarrow> tm \<Rightarrow> string" where
  "date_text y k t =
     padded y (nat (tm_year t + 1900)) @ ''-'' @ padded k (nat (tm_mon t + 1)) @ ''-'' @
     padded k (nat (tm_mday t)) @ '' '' @ padded k (nat (tm_hour t)) @ '':'' @
     padded k (nat (tm_min t)) @ '':'' @ padded k (nat (tm_sec t))"

definition tm_ok :: "tm \<Rightarrow> bool" where
  "tm_ok t \<longleftrightarrow> -1900 \<le> tm_year t \<and> tm_year t < 2 ^ 30 \<and> 0 \<le> tm_mon t \<and> tm_mon t < 12 \<and> 0 \<le> tm_mday t \<and>
     tm_mday t < 32 \<and> 0 \<le> tm_hour t \<and> tm_hour t < 24 \<and> 0 \<le> tm_min t \<and> tm_min t < 60 \<and> 0 \<le> tm_sec t \<and> tm_sec t < 61"

lemma print_tm_date_text: "tm_ok t \<Longrightarrow> print_tm t = date_text 0 0 t"
  by (simp add: tm_ok_def print_tm_def date_text_def padded_0 dec_of_int_def)

lemma sscanf_date_text:
  assumes "tm_ok t"
  shows "sscanf_tm (date_text y k t) t' = \<lparr> tm_year = tm_year t + 1900, tm_mon = tm_mon t + 1, tm_mday = tm_mday t,
    tm_hour = tm_hour t, tm_min = tm_min t, tm_sec = tm_sec t, tm_isdst = tm_isdst t' \<rparr>"
proof -
  note ok = assms [unfolded tm_ok_def]
  have "scan_format ''-- ::'' (date_text y k t) =
      [tm_year t + 1900, tm_mon t + 1, tm_mday t, tm_hour t, tm_min t, tm_sec t]"
    using ok unfolding date_text_def
    by (simp add: scan_format_padded scan_format_padded_space scan_format_padded_last dropWhile_space_padded
        is_digit_def nat_less_iff)
  then show ?thesis by (simp add: sscanf_tm_def)
qed

text \<open>
  The text that a literal in single quotes stands for in SQL: a quote inside is written twice,
  and a single one ends the literal. Literals with escape sequences are left out.
\<close>

fun literal_rest :: "string \<Rightarrow> string option" where
  "literal_rest [] = None"
| "literal_rest (c # s) =
     (if c = CHR 0x5C then None
      else if c = CHR 0x27
      then (case s of [] \<Rightarrow> Some []
            | d # s' \<Rightarrow> if d = CHR 0x27 then map_option (\<lambda>u. CHR 0x27 # u) (literal_rest s') else None)
      else map_option (\<lambda>u. c # u) (literal_rest s))"

definition literal_text :: "string \<Rightarrow> string option" where
  "literal_text d = (case d of [] \<Rightarrow> None | c # s \<Rightarrow> if c = CHR 0x27 then literal_rest s else None)"

lemma literal_rest_plain:
  "CHR 0x27 \<notin> set v \<Longrightarrow> CHR 0x5C \<notin> set v \<Longrightarrow> literal_rest (v @ [CHR 0x27]) = Some v"
  by (induction v) auto

lemma literal_rest_length:
  "literal_rest s = Some u \<Longrightarrow> length s = Suc (length u + count_list u CHR 0x27) \<and> CHR 0x5C \<notin> set s"
proof (induction s arbitrary: u rule: literal_rest.induct)
  case (2 c s)
  have c: "c \<noteq> CHR 0x5C" using "2.prems" by auto
  show ?case
  proof (cases "c = CHR 0x27")
    case True
    show ?thesis
    proof (cases s)
      case Nil
      with "2.prems" True show ?thesis by simp
    next
      case (Cons d s')
      with "2.prems" True obtain w where w: "d = CHR 0x27" "literal_rest s' = Some w" "u = CHR 0x27 # w"
        by (auto split: if_splits)
      from "2.IH"(1) [OF c True Cons w(1,2)] show ?thesis by (simp add: Cons True w)
    qed
  next
    case False
    with "2.prems" c obtain w where w: "literal_rest s = Some w" "u = c # w" by auto
    from "2.IH"(2) [OF c False w(1)] False c show ?thesis by (simp add: w)
  qed
qed simp

lemma literal_text_quoted:
  "literal_text (CHR 0x27 # v @ [CHR 0x27]) = Some v \<longleftrightarrow> CHR 0x27 \<notin> set v \<and> CHR 0x5C \<notin> set v"
proof
  assume "literal_text (CHR 0x27 # v @ [CHR 0x27]) = Some v"
  then have "literal_rest (v @ [CHR 0x27]) = Some v" by (simp add: literal_text_def)
  from literal_rest_length [OF this] show "CHR 0x27 \<notin> set v \<and> CHR 0x5C \<notin> set v"
    by (auto simp: count_list_0_iff)
qed (simp add: literal_text_def literal_rest_plain)

lemma quote_ends: "(a # v @ [b])[0 := q, length (a # v @ [b]) - 1 := q] = q # v @ [q]"
  by (simp add: list_update_append)

lemma digit_no_quote: "is_digit c \<Longrightarrow> c \<noteq> CHR 0x27 \<and> c \<noteq> CHR 0x5C"
  by (auto simp: is_digit_def)

lemma date_text_plain: "CHR 0x27 \<notin> set (date_text y k t)" "CHR 0x5C \<notin> set (date_text y k t)"
  using padded_props(2) digit_no_quote by (auto simp: date_text_def)

text \<open>
  C18. The conversions of the transfer, from the text of a value in the database to that in
  redis and back, give: a number or a flag as it was; a text in single quotes, which as a
  literal of SQL stands for the text exactly when this holds neither a quote nor a backslash;
  and a date, in the form in which the database prints it or with any other padding, as a
  literal from which the same date is scanned, when the C library gives the date back for its
  seconds with the daylight flag that the never written \<open>tm_isdst\<close> happens to hold. Storing the
  converted text in redis is not part of the statement.
\<close>

theorem transfer_value_roundtrip:
  assumes "ty = FT_datetime \<Longrightarrow> tm_ok t \<and> v = date_text y k t"
    and "ty = FT_datetime \<Longrightarrow> localtime_s env (mktime env (t\<lparr>tm_isdst := tm_isdst (stTime env)\<rparr>)) = t"
    and "ty = FT_datetime \<Longrightarrow> clamp 64 (mktime env (t\<lparr>tm_isdst := tm_isdst (stTime env)\<rparr>)) =
      mktime env (t\<lparr>tm_isdst := tm_isdst (stTime env)\<rparr>)"
  shows "\<exists>d. TranToDBStr env (TranToRedisStr env v ty) ty = Inr d \<and>
    (case ty of
       FT_string \<Rightarrow> d = CHR 0x27 # v @ [CHR 0x27] \<and>
         (literal_text d = Some v \<longleftrightarrow> CHR 0x27 \<notin> set v \<and> CHR 0x5C \<notin> set v)
     | FT_datetime \<Rightarrow> \<exists>u. literal_text d = Some u \<and> (\<forall>t'. sscanf_tm u t' = sscanf_tm v t')
     | _ \<Rightarrow> d = v)"
proof (cases "ty = FT_datetime")
  case True
  let ?m = "mktime env (t\<lparr>tm_isdst := tm_isdst (stTime env)\<rparr>)"
  note t = assms(1) [OF True, THEN conjunct1] and v = assms(1) [OF True, THEN conjunct2]
  have "TranToRedisStr env v ty = dec_of_int ?m"
    using t by (cases t) (simp add: v sscanf_date_text TranToRedisStr_def True ToString_i64_def)
  moreover have "get_i64_string (dec_of_int ?m) = Inr ?m"
    using assms(3) [OF True] by (simp add: get_i64_string_def std_stoll_def)
  ultimately have "TranToDBStr env (TranToRedisStr env v ty) ty = Inr (CHR 0x27 # date_text 0 0 t @ [CHR 0x27])"
    using t assms(2) [OF True] by (simp add: TranToDBStr_def True print_tm_date_text)
  moreover have "literal_text (CHR 0x27 # date_text 0 0 t @ [CHR 0x27]) = Some (date_text 0 0 t)"
    by (simp add: literal_text_quoted date_text_plain)
  ultimately show ?thesis using sscanf_date_text [OF t] by (simp add: True v)
next
  case False
  then show ?thesis
    using quote_ends [of "CHR 0x22" v "CHR 0x22"] literal_text_quoted [of v]
    by (cases ty) (simp_all add: TranToDBStr_def TranToRedisStr_def ToString_string_def Let_def)
qed

text \<open>A calendar of months with 31 days.\<close>

definition demo_time :: time_env where
  "demo_time =
     \<lparr> mktime = \<lambda>t. ((((tm_year t * 12 + tm_mon t) * 31 + (tm_mday t - 1)) * 24 + tm_hour t) * 60 + tm_min t) * 60 + tm_sec t,
       localtime_s = \<lambda>s. \<lparr> tm_year = s div 32140800, tm_mon = s div 2678400 mod 12, tm_mday = s div 86400 mod 31 + 1,
         tm_hour = s div 3600 mod 24, tm_min = s div 60 mod 60, tm_sec = s mod 60, tm_isdst = 0 \<rparr>,
       stTime = \<lparr> tm_year = 7, tm_mon = 7, tm_mday = 7, tm_hour = 7, tm_min = 7, tm_sec = 7, tm_isdst = 0 \<rparr> \<rparr>"

definition demo_tm :: tm where
  "demo_tm = \<lparr> tm_year = 117, tm_mon = 4, tm_mday = 3, tm_hour = 20, tm_min = 5, tm_sec = 9, tm_isdst = 0 \<rparr>"

theorem transfer_value_roundtrip_witness:
  "\<exists>d u. TranToDBStr demo_time (TranToRedisStr demo_time ''2017-05-03 20:05:09'' FT_datetime) FT_datetime = Inr d \<and>
    literal_text d = Some u \<and> (\<forall>t'. sscanf_tm u t' = sscanf_tm ''2017-05-03 20:05:09'' t')"
proof -
  have v: "''2017-05-03 20:05:09'' = date_text 4 2 demo_tm" and ok: "tm_ok demo_tm" by code_simp+
  have l: "localtime_s demo_time (mktime demo_time (demo_tm\<lparr>tm_isdst := tm_isdst (stTime demo_time)\<rparr>)) = demo_tm"
    by code_simp
  have c: "clamp 64 (mktime demo_time (demo_tm\<lparr>tm_isdst := tm_isdst (stTime demo_time)\<rparr>)) =
      mktime demo_time (demo_tm\<lparr>tm_isdst := tm_isdst (stTime demo_time)\<rparr>)" by code_simp
  show ?thesis
    using transfer_value_roundtrip [of FT_datetime demo_tm "''2017-05-03 20:05:09''" 4 2 demo_time] v ok l c by auto
qed


section \<open>What the operations leave undone\<close>

text \<open>
  \<open>SaveRepeatedToDB\<close> empties the table of a key: whatever elements redis holds, when the
  scan of their keys ends and the deletion succeeds, the operation reports success after the
  deletion alone; no element is read and no row inserted.
\<close>

theorem save_repeated_loses_rows:
  assumes "FindRepeatedDB mgr strDBTable = Some k" and "pName k = Some name"
    and "scan_server cmd (name @ '':'' @ dec_of_nat (unat i64Key) @ '':'') page (m_Redis t)"
    and "scan_chain page 0 ks"
    and "CMysql_Execute api (''DELETE FROM '' @ strDBTable @ '' WHERE Key='' @ dec_of_nat (unat i64Key)) (m_MySql t) =
      (None, s)"
  shows "SaveRepeatedToDB api cmd env mgr strDBTable i64Key t = Some (Inr True, t\<lparr>m_MySql := s\<rparr>)"
proof -
  let ?k = "name @ '':'' @ dec_of_nat (unat i64Key) @ '':''"
  have "Scan_loop cmd ('' MATCH '' @ ?k @ ''*'') ?k (of_nat 0) [] (m_Redis t) = Some (Inr ([] @ map of_nat ks), m_Redis t)"
    by (rule Scan_loop_chain [OF assms(4,3)]) simp
  then have "RedisWrap_ScanKey_all cmd i64Key name [] (m_Redis t) = Some (Inr [], m_Redis t)"
    by (simp add: RedisWrap_ScanKey_all_def)
  then show ?thesis
    using assms(1,2,5) by (simp add: SaveRepeatedToDB_def the_name_def sql_Execute_def Let_def)
qed

text \<open>A redis with the element 7, and a database that takes every command.\<close>

definition demo_transfer :: "(nat \<times> nat, unit) data_transfer" where
  "demo_transfer = \<lparr> m_MySql = CMysql_make CDBConf_default (0, 1), m_Redis = () \<rparr>"

definition demo_scan :: "unit redis_command" where
  "demo_scan c r = (scan_reply ''bag:1:'' (0, [7]), r)"

definition demo_tables :: key_field_mgr where
  "demo_tables = reg_run [Reg_key ''bag'' 256, Reg_field ''item'' 257 FT_int32_t, Reg_repeated ''t_bag'' 256]"

theorem save_repeated_loses_rows_witness:
  "\<exists>s. SaveRepeatedToDB demo_mysql demo_scan demo_time demo_tables ''t_bag'' 1 demo_transfer =
     Some (Inr True, demo_transfer\<lparr>m_MySql := s\<rparr>) \<and> m_client s = (1, 2)"
proof -
  let ?del = "''DELETE FROM '' @ ''t_bag'' @ '' WHERE Key='' @ dec_of_nat (unat (1 :: u64))"
  have q: "(case CMysql_Execute demo_mysql ?del (m_MySql demo_transfer) of (e, s) \<Rightarrow> e = None \<and> m_client s = (1, 2))"
    by code_simp
  then obtain s where s: "CMysql_Execute demo_mysql ?del (m_MySql demo_transfer) = (None, s)" "m_client s = (1, 2)"
    by (auto split: prod.splits)
  have "(case FindRepeatedDB demo_tables ''t_bag'' of Some k \<Rightarrow> pName k = Some ''bag'' | None \<Rightarrow> False)" by code_simp
  then obtain k where k: "FindRepeatedDB demo_tables ''t_bag'' = Some k" "pName k = Some ''bag''"
    by (auto split: option.splits)
  have n: "''bag'' @ '':'' @ dec_of_nat (unat (1 :: u64)) @ '':'' = ''bag:1:''" by code_simp
  have "scan_server demo_scan (''bag'' @ '':'' @ dec_of_nat (unat (1 :: u64)) @ '':'') (\<lambda>_. (0, [7])) (m_Redis demo_transfer)"
    unfolding n by (simp add: scan_server_def demo_scan_def)
  moreover have "scan_chain (\<lambda>_. (0, [7])) 0 [7]" by (rule scan_chain.last_page) simp
  ultimately show ?thesis using save_repeated_loses_rows [OF k _ _ s(1)] s(2) by blast
qed

lemma fold_redis_Execute:
  "fold (\<lambda>it t. redis_Execute cmd (f it) t) ls t = t\<lparr>m_Redis := fold (RedisWrap_Execute cmd) (map f ls) (m_Redis t)\<rparr>"
  by (induction ls arbitrary: t) (simp_all add: redis_Execute_def)

definition only_removes :: "string \<Rightarrow> bool" where
  "only_removes c \<longleftrightarrow> take 5 c = ''KEYS '' \<or> take 4 c = ''DEL ''"

text \<open>
  \<open>LoadRepeatedToRedis\<close> stores nothing: in every run the commands it sends to redis are
  KEYS and DEL, so the elements that redis had are removed and the rows read from the database
  are dropped.
\<close>

theorem load_repeated_stores_nothing:
  "\<exists>cmds. list_all only_removes cmds \<and>
     m_Redis (snd (LoadRepeatedToRedis api cmd env mgr strDBTable i64Key t)) = fold (RedisWrap_Execute cmd) cmds (m_Redis t)"
proof -
  have unit: "\<exists>cmds. list_all only_removes cmds \<and> r = fold (RedisWrap_Execute cmd) cmds r" for r
    by (rule exI [of _ "[]"]) simp
  show ?thesis
  proof (cases "FindRepeatedDB mgr strDBTable")
    case None
    then show ?thesis using unit by (simp add: LoadRepeatedToRedis_def)
  next
    case (Some k)
    define sql where "sql = ''SELECT Index, '' @ select_fields 1 (length (mField k)) (mField k) @
        ''FROM '' @ strDBTable @ '' where Key='' @ dec_of_nat (unat i64Key)"
    obtain q t1 where q: "sql_Query api sql t = (q, t1)" by (rule prod.exhaust)
    have r1: "m_Redis t1 = m_Redis t"
      using q unfolding sql_Query_def by (auto split: prod.splits)
    show ?thesis
    proof (cases "\<exists>pResult name. q = Inr pResult \<and> pName k = Some name")
      case False
      then have "snd (LoadRepeatedToRedis api cmd env mgr strDBTable i64Key t) = t1"
        using Some q unfolding LoadRepeatedToRedis_def sql_def
        by (cases q; cases "pName k") (simp_all add: the_name_def)
      then show ?thesis using unit r1 by simp
    next
      case True
      then obtain pResult name where n: "q = Inr pResult" "pName k = Some name" by blast
      define c where "c = ''KEYS '' @ name @ '':'' @ dec_of_nat (unat i64Key) @ '':*''"
      obtain ls r where ls: "RedisWrap_Load_strings cmd c [] (m_Redis t1) = (ls, r)" by (rule prod.exhaust)
      have r: "r = RedisWrap_Execute cmd c (m_Redis t)"
        using ls r1 unfolding RedisWrap_Load_strings_def RedisWrap_Execute_def by (auto split: prod.splits)
      have "m_Redis (snd (LoadRepeatedToRedis api cmd env mgr strDBTable i64Key t)) =
          fold (RedisWrap_Execute cmd) (map (\<lambda>it. ''DEL '' @ it) ls) r"
        using Some q n ls unfolding LoadRepeatedToRedis_def sql_def c_def
        by (simp add: the_name_def redis_Load_def fold_redis_Execute [where f = "\<lambda>it. ''DEL '' @ it", unfolded append.simps] Let_def split: option.split)
      also have "\<dots> = fold (RedisWrap_Execute cmd) (c # map (\<lambda>it. ''DEL '' @ it) ls) (m_Redis t)"
        by (simp add: r)
      finally show ?thesis
        by (rule_tac x = "c # map (\<lambda>it. ''DEL '' @ it) ls" in exI)
           (simp add: c_def only_removes_def list_all_iff)
    qed
  qed
qed

text \<open>
  \<open>SavePackageToDB\<close> never inserts a row: when the table has none for the key, the database
  receives the SELECT alone, whatever redis holds, and when redis answers with all fields the
  INSERT statement is sent to redis and success is reported.
\<close>

theorem save_package_missing_row:
  assumes "FindPackageDB mgr strDBTable \<noteq> []"
    and "sql_Query api (''Select * FROM '' @ strDBTable @ '' WHERE Key = '' @ dec_of_nat (unat i64Key)) t = (Inr q, t1)"
    and "\<not> fst (CMysqlResult_Next q)"
    and "package_read cmd env i64Key (package_keys mgr (FindPackageDB mgr strDBTable)) [] t1 = (out, t2)"
  shows "m_MySql (snd (SavePackageToDB api cmd env mgr strDBTable i64Key t)) = m_MySql t1 \<and>
    (\<forall>m. out = Inr (True, m) \<longrightarrow>
       SavePackageToDB api cmd env mgr strDBTable i64Key t =
         (Inr True, redis_Execute cmd (''INSERT INTO '' @ strDBTable @ '' (Key,'' @
            comma_list 1 (length m) (map fst m) @ '') VALUES('' @ dec_of_nat (unat i64Key) @ '','' @
            comma_list 1 (length m) (map snd m) @ '')'') t2))"
proof -
  have read: "m_MySql t' = m_MySql t" if "package_read cmd env i64Key ks m t = (out, t')" for ks m t out t'
    using that
  proof (induction ks arbitrary: m t)
    case Nil
    then show ?case by simp
  next
    case (Cons k ks)
    then show ?case
      by (auto simp: redis_Load_def split: sum.splits prod.splits if_splits)
  qed
  from read [OF assms(4)] have m: "m_MySql t2 = m_MySql t1" .
  show ?thesis
    using assms m
    by (cases out rule: sum.exhaust [case_names fault ok])
       (auto simp: SavePackageToDB_def redis_Execute_def Let_def split: bool.split)
qed

end
