(* ===== verification/Timers.thy ===== *)
theory Timers
  imports Gm_Prelude
begin

text \<open>
  \<open>Utils/TimeUtils.*\<close>: the timers of an actor. An \<open>ActorTimer\<close> wakes its sub-timers at the
  times they asked for; a \<open>SubTimer\<close> is a client's variable whose entity lives on the heap and
  frees itself. The callbacks are the client's: what a handler does to the timers is a
  parameter, a list of operations on \<open>SubTimer\<close> variables. A handler does not call \<open>OnTimer\<close>;
  what happens when it does is modelled in the last section.
\<close>

section \<open>The clock\<close>

text \<open>The system clock is a reading of it, in seconds or milliseconds.\<close>

definition GetNow :: "u64 \<Rightarrow> u64 \<Rightarrow> u64" where
  "GetNow sysSec OffSetTime = sysSec + OffSetTime"

definition GetNowMS :: "u64 \<Rightarrow> u64 \<Rightarrow> u64" where
  "GetNowMS sysMs OffSetTime = sysMs + OffSetTime * 1000"

text \<open>\<open>localtime_s\<close> and \<open>mktime\<close> are parameters, over their own \<open>struct tm\<close>.\<close>

definition FormatTime :: "(int \<Rightarrow> 'tm) \<Rightarrow> u64 \<Rightarrow> 'tm" where
  "FormatTime localtime_s iTimeSecond = localtime_s (sint iTimeSecond)"

definition FormatTimeMS :: "(int \<Rightarrow> 'tm) \<Rightarrow> u64 \<Rightarrow> 'tm" where
  "FormatTimeMS localtime_s iTimeSecond = FormatTime localtime_s (iTimeSecond div 1000)"

definition MakeTime :: "('tm \<Rightarrow> int) \<Rightarrow> 'tm \<Rightarrow> u64" where
  "MakeTime mktime pTm = of_int (mktime pTm)"


section \<open>State\<close>

text \<open>The entity behind a \<open>SubTimer\<close>: its handlers by due time.\<close>

record 'h sub_timer_entity =
  e_mTimer :: "(u64 \<times> 'h list) list"
  m_bDelete :: bool
  m_bHandleing :: bool

text \<open>
  The heap of entities, the two members of the \<open>ActorTimer\<close> (a set of pointers is the list of
  the addresses in order), the \<open>SubTimer\<close> variables (\<open>None\<close> is a variable that was moved from),
  and, to state properties, the calls of \<open>OnAddTimer\<close>, the number of readings of the clock, and
  the handler calls with entity, due time and the time given.
\<close>

record 'h timers =
  m_ents :: "(nat \<times> 'h sub_timer_entity) list"
  m_setSubTimer :: "nat list"
  m_mTimer :: "(u64 \<times> nat list) list"
  m_subs :: "(nat \<times> nat option) list"
  m_asked :: "u64 list"
  m_reads :: nat
  m_calls :: "(nat \<times> u64 \<times> 'h \<times> u64) list"

definition timers_init :: "'h timers" where
  "timers_init = \<lparr> m_ents = [], m_setSubTimer = [], m_mTimer = [], m_subs = [], m_asked = [], m_reads = 0,
     m_calls = [] \<rparr>"

text \<open>What a client does with its variables.\<close>

datatype 'h timer_op =
    Op_make nat
  | Op_copy nat nat
  | Op_move nat nat
  | Op_destroy nat
  | Op_add nat u64 'h
  | Op_clear nat

text \<open>
  The readings of \<open>GetNowMS\<close> in order, the address the allocator returns when the given ones
  are in use, and what a handler does when it is called at a time.
\<close>

record 'h timer_env =
  clock :: "nat \<Rightarrow> u64"
  alloc :: "nat list \<Rightarrow> nat"
  acts :: "'h \<Rightarrow> u64 \<Rightarrow> 'h timer_op list"

abbreviation at_list :: "'k \<Rightarrow> ('k \<times> 'v list) list \<Rightarrow> 'v list" where
  "at_list k m \<equiv> (case map_of m k of None \<Rightarrow> [] | Some xs \<Rightarrow> xs)"

definition set_ins :: "nat \<Rightarrow> nat list \<Rightarrow> nat list" where
  "set_ins p ps = (if p \<in> set ps then ps else insort p ps)"


section \<open>ActorTimer\<close>

definition RegistSubTimer :: "nat \<Rightarrow> 'h timers \<Rightarrow> 'h timers" where
  "RegistSubTimer p w = w\<lparr>m_setSubTimer := set_ins p (m_setSubTimer w)\<rparr>"

text \<open>The loop over the times, which erases a time that nobody waits for any more.\<close>

fun UnRegist_times :: "nat \<Rightarrow> (u64 \<times> nat list) list \<Rightarrow> (u64 \<times> nat list) list" where
  "UnRegist_times p [] = []"
| "UnRegist_times p ((t, ps) # m) =
     (let ps = removeAll p ps in
      if ps = [] then UnRegist_times p m else (t, ps) # UnRegist_times p m)"

definition UnRegistSubTimer :: "nat \<Rightarrow> 'h timers \<Rightarrow> 'h timers" where
  "UnRegistSubTimer p w =
     w\<lparr>m_setSubTimer := removeAll p (m_setSubTimer w), m_mTimer := UnRegist_times p (m_mTimer w)\<rparr>"

text \<open>\<open>OnAddTimer\<close> is called when the time is before all others.\<close>

definition ActorTimer_AddTimer :: "u64 \<Rightarrow> nat \<Rightarrow> 'h timers \<Rightarrow> 'h timers" where
  "ActorTimer_AddTimer iTimeMS p w =
     (let w = (if m_mTimer w = [] \<or> iTimeMS < fst (hd (m_mTimer w)) then w\<lparr>m_asked := m_asked w @ [iTimeMS]\<rparr> else w)
      in w\<lparr>m_mTimer := om_put iTimeMS (set_ins p (at_list iTimeMS (m_mTimer w))) (m_mTimer w)\<rparr>)"


section \<open>SubTimerEntity\<close>

text \<open>An access through a pointer to an entity that was freed is out of range.\<close>

definition ent :: "nat \<Rightarrow> 'h timers \<Rightarrow> 'h sub_timer_entity res" where
  "ent p w = (case map_of (m_ents w) p of None \<Rightarrow> Inl Out_of_range | Some e \<Rightarrow> Inr e)"

definition put_ent :: "nat \<Rightarrow> 'h sub_timer_entity \<Rightarrow> 'h timers \<Rightarrow> 'h timers" where
  "put_ent p e w = w\<lparr>m_ents := AList.update p e (m_ents w)\<rparr>"

definition Entity_make :: "'h timer_env \<Rightarrow> 'h timers \<Rightarrow> nat \<times> 'h timers" where
  "Entity_make env w =
     (let p = alloc env (map fst (m_ents w)) in
      (p, RegistSubTimer p (put_ent p \<lparr> e_mTimer = [], m_bDelete = False, m_bHandleing = False \<rparr> w)))"

text \<open>\<open>delete this\<close>, with the destructor.\<close>

definition Entity_free :: "nat \<Rightarrow> 'h timers \<Rightarrow> 'h timers" where
  "Entity_free p w = (UnRegistSubTimer p w)\<lparr>m_ents := AList.delete p (m_ents w)\<rparr>"

definition Entity_AddTimer :: "'h timer_env \<Rightarrow> u64 \<Rightarrow> 'h \<Rightarrow> nat \<Rightarrow> 'h timers \<Rightarrow> 'h timers res" where
  "Entity_AddTimer env iTimeMS handel p w =
     rbind (ent p w) (\<lambda>e.
       (let iNextTime = iTimeMS + clock env (m_reads w);
            w = w\<lparr>m_reads := Suc (m_reads w)\<rparr>;
            w = (if e_mTimer e = [] \<or> iNextTime < fst (hd (e_mTimer e)) then ActorTimer_AddTimer iNextTime p w else w)
        in Inr (put_ent p (e\<lparr>e_mTimer := om_put iNextTime (at_list iNextTime (e_mTimer e) @ [handel]) (e_mTimer e)\<rparr>) w)))"

definition Entity_Clear :: "nat \<Rightarrow> 'h timers \<Rightarrow> 'h timers res" where
  "Entity_Clear p w =
     rbind (ent p w) (\<lambda>e.
       Inr (RegistSubTimer p (UnRegistSubTimer p (put_ent p (e\<lparr>e_mTimer := []\<rparr>) w))))"

definition Entity_Delete :: "nat \<Rightarrow> 'h timers \<Rightarrow> 'h timers res" where
  "Entity_Delete p w =
     rbind (ent p w) (\<lambda>e.
       (let w = put_ent p (e\<lparr>m_bDelete := True\<rparr>) w in
        if \<not> m_bHandleing e then Inr (Entity_free p w) else Inr w))"


section \<open>SubTimer\<close>

text \<open>
  The entity of a variable. A variable that was moved from holds a null pointer; naming one
  that is not there, or making one that is, is the same fault of the client.
\<close>

definition sub :: "nat \<Rightarrow> 'h timers \<Rightarrow> nat res" where
  "sub s w = (case map_of (m_subs w) s of Some (Some p) \<Rightarrow> Inr p | _ \<Rightarrow> Inl Null_deref)"

definition fresh_sub :: "nat \<Rightarrow> nat option \<Rightarrow> 'h timers \<Rightarrow> 'h timers res" where
  "fresh_sub s p w =
     (if map_of (m_subs w) s = None then Inr (w\<lparr>m_subs := AList.update s p (m_subs w)\<rparr>) else Inl Null_deref)"

definition SubTimer_make :: "'h timer_env \<Rightarrow> nat \<Rightarrow> 'h timers \<Rightarrow> 'h timers res" where
  "SubTimer_make env s w = (let (p, w) = Entity_make env w in fresh_sub s (Some p) w)"

text \<open>All entities share one \<open>ActorTimer\<close>, so a copy is a new entity; its timers are not copied.\<close>

definition SubTimer_copy :: "'h timer_env \<Rightarrow> nat \<Rightarrow> nat \<Rightarrow> 'h timers \<Rightarrow> 'h timers res" where
  "SubTimer_copy env s other w =
     rbind (sub other w) (\<lambda>q. rbind (ent q w) (\<lambda>_. SubTimer_make env s w))"

definition SubTimer_move :: "nat \<Rightarrow> nat \<Rightarrow> 'h timers \<Rightarrow> 'h timers res" where
  "SubTimer_move s other w =
     (case map_of (m_subs w) other of
        None \<Rightarrow> Inl Null_deref
      | Some p \<Rightarrow> fresh_sub s p (w\<lparr>m_subs := AList.update other None (m_subs w)\<rparr>))"

definition SubTimer_destroy :: "nat \<Rightarrow> 'h timers \<Rightarrow> 'h timers res" where
  "SubTimer_destroy s w =
     (case map_of (m_subs w) s of
        None \<Rightarrow> Inl Null_deref
      | Some p \<Rightarrow>
          (let w = w\<lparr>m_subs := AList.delete s (m_subs w)\<rparr> in
           case p of None \<Rightarrow> Inr w | Some p \<Rightarrow> Entity_Delete p w))"

definition SubTimer_AddTimer :: "'h timer_env \<Rightarrow> nat \<Rightarrow> u64 \<Rightarrow> 'h \<Rightarrow> 'h timers \<Rightarrow> 'h timers res" where
  "SubTimer_AddTimer env s iTimeMS handel w = rbind (sub s w) (\<lambda>p. Entity_AddTimer env iTimeMS handel p w)"

definition SubTimer_Clear :: "nat \<Rightarrow> 'h timers \<Rightarrow> 'h timers res" where
  "SubTimer_Clear s w = rbind (sub s w) (\<lambda>p. Entity_Clear p w)"

fun do_op :: "'h timer_env \<Rightarrow> 'h timer_op \<Rightarrow> 'h timers \<Rightarrow> 'h timers res" where
  "do_op env (Op_make s) w = SubTimer_make env s w"
| "do_op env (Op_copy s other) w = SubTimer_copy env s other w"
| "do_op env (Op_move s other) w = SubTimer_move s other w"
| "do_op env (Op_destroy s) w = SubTimer_destroy s w"
| "do_op env (Op_add s d h) w = SubTimer_AddTimer env s d h w"
| "do_op env (Op_clear s) w = SubTimer_Clear s w"


section \<open>OnTimer\<close>

text \<open>The handlers of one due time, until the entity is deleted.\<close>

fun Entity_handles ::
  "'h timer_env \<Rightarrow> u64 \<Rightarrow> u64 \<Rightarrow> nat \<Rightarrow> 'h list \<Rightarrow> 'h timers \<Rightarrow> 'h timers res" where
  "Entity_handles env due iNowMS p [] w = Inr w"
| "Entity_handles env due iNowMS p (h # listHandle) w =
     rbind (ent p w) (\<lambda>e.
       if m_bDelete e then Inr w
       else rbind (rfold (do_op env) (acts env h iNowMS) (w\<lparr>m_calls := m_calls w @ [(p, due, h, iNowMS)]\<rparr>))
              (Entity_handles env due iNowMS p listHandle))"

text \<open>
  The loop over the due times; \<open>None\<close> is a loop that does not end. The flag tells whether it
  was left by \<open>return\<close>.
\<close>

partial_function (option) Entity_loop ::
  "'h timer_env \<Rightarrow> u64 \<Rightarrow> nat \<Rightarrow> 'h timers \<Rightarrow> (bool \<times> 'h timers) res option" where
  "Entity_loop env iNowMS p w =
     (case ent p w of
        Inl e \<Rightarrow> Some (Inl e)
      | Inr e \<Rightarrow>
          (if e_mTimer e = [] \<or> m_bDelete e then Some (Inr (False, w))
           else if iNowMS < fst (hd (e_mTimer e)) then Some (Inr (True, w))
           else
             (case Entity_handles env (fst (hd (e_mTimer e))) iNowMS p (snd (hd (e_mTimer e)))
                 (put_ent p (e\<lparr>e_mTimer := tl (e_mTimer e)\<rparr>) w) of
                Inl e \<Rightarrow> Some (Inl e)
              | Inr w \<Rightarrow> Entity_loop env iNowMS p w)))"

definition Entity_OnTimer ::
  "'h timer_env \<Rightarrow> u64 \<Rightarrow> nat \<Rightarrow> 'h timers \<Rightarrow> 'h timers res option" where
  "Entity_OnTimer env iNowMS p w =
     (case ent p w of
        Inl e \<Rightarrow> Some (Inl e)
      | Inr e \<Rightarrow>
          map_option (\<lambda>r. rbind r (\<lambda>(returned, w).
              if returned then Inr w
              else rbind (ent p w) (\<lambda>e.
                (let w = put_ent p (e\<lparr>m_bHandleing := False\<rparr>) w in
                 if m_bDelete e then Inr (Entity_free p w) else Inr w))))
            (Entity_loop env iNowMS p (put_ent p (e\<lparr>m_bHandleing := True\<rparr>) w)))"

definition SubTimer_OnTimer :: "'h timer_env \<Rightarrow> nat \<Rightarrow> u64 \<Rightarrow> 'h timers \<Rightarrow> 'h timers res option" where
  "SubTimer_OnTimer env s iNowMS w =
     (case sub s w of Inl e \<Rightarrow> Some (Inl e) | Inr p \<Rightarrow> Entity_OnTimer env iNowMS p w)"

text \<open>The entities that waited for one time; one that is not registered any more is skipped.\<close>

fun ActorTimer_set :: "'h timer_env \<Rightarrow> u64 \<Rightarrow> nat list \<Rightarrow> 'h timers \<Rightarrow> 'h timers res option" where
  "ActorTimer_set env iNowMS [] w = Some (Inr w)"
| "ActorTimer_set env iNowMS (p # ps) w =
     (if p \<in> set (m_setSubTimer w)
      then (case Entity_OnTimer env iNowMS p w of
              None \<Rightarrow> None
            | Some (Inl e) \<Rightarrow> Some (Inl e)
            | Some (Inr w) \<Rightarrow> ActorTimer_set env iNowMS ps w)
      else ActorTimer_set env iNowMS ps w)"

partial_function (option) ActorTimer_OnTimer ::
  "'h timer_env \<Rightarrow> u64 \<Rightarrow> 'h timers \<Rightarrow> 'h timers res option" where
  "ActorTimer_OnTimer env iNowMS w =
     (if m_mTimer w = [] \<or> iNowMS < fst (hd (m_mTimer w)) then Some (Inr w)
      else
        (case ActorTimer_set env iNowMS (snd (hd (m_mTimer w))) (w\<lparr>m_mTimer := tl (m_mTimer w)\<rparr>) of
           None \<Rightarrow> None
         | Some (Inl e) \<Rightarrow> Some (Inl e)
         | Some (Inr w) \<Rightarrow> ActorTimer_OnTimer env iNowMS w))"

declare Entity_loop.simps [code] ActorTimer_OnTimer.simps [code]

text \<open>A run: the client's operations and the calls of either \<open>OnTimer\<close>, in any order.\<close>

datatype 'h timer_call = Call "'h timer_op" | Tick u64 | Sub_tick nat u64

fun do_call :: "'h timer_env \<Rightarrow> 'h timer_call \<Rightarrow> 'h timers \<Rightarrow> 'h timers res option" where
  "do_call env (Call op) w = Some (do_op env op w)"
| "do_call env (Tick iNowMS) w = ActorTimer_OnTimer env iNowMS w"
| "do_call env (Sub_tick s iNowMS) w = SubTimer_OnTimer env s iNowMS w"

fun timer_run :: "'h timer_env \<Rightarrow> 'h timer_call list \<Rightarrow> 'h timers \<Rightarrow> 'h timers res option" where
  "timer_run env [] w = Some (Inr w)"
| "timer_run env (c # cs) w =
     (case do_call env c w of
        None \<Rightarrow> None
      | Some (Inl e) \<Rightarrow> Some (Inl e)
      | Some (Inr w) \<Rightarrow> timer_run env cs w)"


section \<open>Pointers\<close>

text \<open>
  What every operation keeps: the registered entities are those on the heap, only such wait for
  a time, a variable points to an entity that is not to be deleted, no two to the same, and no
  handler was called before its time.
\<close>

declare map_of_eq_Some_iff [simp del] Some_eq_map_of_iff [simp del]

definition has :: "('k \<times> 'v) list \<Rightarrow> 'k \<Rightarrow> bool" where
  "has m k \<longleftrightarrow> map_of m k \<noteq> None"

lemma has_update [simp]: "has (AList.update k v m) k' \<longleftrightarrow> k' = k \<or> has m k'"
  by (simp add: has_def update_conv')

lemma has_delete [simp]: "has (AList.delete k m) k' \<longleftrightarrow> k' \<noteq> k \<and> has m k'"
  by (simp add: has_def delete_conv')

lemma hasI: "map_of m k = Some v \<Longrightarrow> has m k"
  by (simp add: has_def)

lemma has_in: "has m k \<longleftrightarrow> k \<in> fst ` set m"
  unfolding has_def by (simp only: map_of_eq_None_iff not_not)

definition vars_ok :: "(nat \<times> 'h sub_timer_entity) list \<Rightarrow> (nat \<times> nat option) list \<Rightarrow> bool" where
  "vars_ok ents subs \<longleftrightarrow>
     (\<forall>s p. map_of subs s = Some (Some p) \<longrightarrow> (\<exists>e. map_of ents p = Some e \<and> \<not> m_bDelete e)) \<and>
     (\<forall>s s' p. map_of subs s = Some (Some p) \<longrightarrow> map_of subs s' = Some (Some p) \<longrightarrow> s = s')"

definition timers_ok :: "'h timers \<Rightarrow> bool" where
  "timers_ok w \<longleftrightarrow>
     um_wf (m_ents w) \<and> (\<forall>p. p \<in> set (m_setSubTimer w) \<longleftrightarrow> has (m_ents w) p) \<and>
     om_wf (m_mTimer w) \<and>
     (\<forall>t ps p. map_of (m_mTimer w) t = Some ps \<longrightarrow> p \<in> set ps \<longrightarrow> has (m_ents w) p) \<and>
     um_wf (m_subs w) \<and> vars_ok (m_ents w) (m_subs w) \<and>
     list_all (\<lambda>(p, due, h, now). due \<le> now) (m_calls w)"

text \<open>The entities whose \<open>OnTimer\<close> is running.\<close>

definition busy :: "'h timers \<Rightarrow> nat set" where
  "busy w = {p. \<exists>e. map_of (m_ents w) p = Some e \<and> m_bHandleing e}"

definition post :: "nat set \<Rightarrow> 'h timers res \<Rightarrow> bool" where
  "post B r = (case r of Inl e \<Rightarrow> e \<noteq> Out_of_range | Inr w \<Rightarrow> timers_ok w \<and> B \<subseteq> busy w)"

lemma post_simps [simp]:
  "post B (Inl e) \<longleftrightarrow> e \<noteq> Out_of_range"
  "post B (Inr w) \<longleftrightarrow> timers_ok w \<and> B \<subseteq> busy w"
  by (simp_all add: post_def)

lemma post_bind: "post B r \<Longrightarrow> (\<And>w. timers_ok w \<Longrightarrow> B \<subseteq> busy w \<Longrightarrow> post B (f w)) \<Longrightarrow> post B (rbind r f)"
  by (cases r) simp_all

definition alloc_ok :: "'h timer_env \<Rightarrow> bool" where
  "alloc_ok env \<longleftrightarrow> (\<forall>ps. alloc env ps \<notin> set ps)"

lemma set_set_ins [simp]: "set (set_ins p ps) = insert p (set ps)"
  by (auto simp: set_ins_def set_insort_key)

lemma map_of_UnRegist:
  "om_wf m \<Longrightarrow> map_of (UnRegist_times p m) t =
     (case map_of m t of None \<Rightarrow> None | Some ps \<Rightarrow> if removeAll p ps = [] then None else Some (removeAll p ps))"
proof (induction p m rule: UnRegist_times.induct)
  case (1 p)
  then show ?case by simp
next
  case (2 p a ps m)
  then have "map_of m a = None" by (auto simp: om_wf_Cons map_of_eq_None_iff)
  with 2 show ?case by (auto simp: om_wf_Cons Let_def split: option.split)
qed

lemma UnRegist_keys: "fst ` set (UnRegist_times p m) \<subseteq> fst ` set m"
  by (induction p m rule: UnRegist_times.induct) (simp_all add: Let_def subset_insertI2)

lemma om_wf_UnRegist: "om_wf m \<Longrightarrow> om_wf (UnRegist_times p m)"
  using UnRegist_keys by (induction p m rule: UnRegist_times.induct) (fastforce simp: om_wf_Cons Let_def)+

lemma timers_ok_fields [simp]:
  "timers_ok (w\<lparr>m_reads := n\<rparr>) = timers_ok w"
  "timers_ok (w\<lparr>m_asked := a\<rparr>) = timers_ok w"
  by (simp_all add: timers_ok_def)

lemma busy_fields [simp]:
  "busy (w\<lparr>m_reads := n\<rparr>) = busy w" "busy (w\<lparr>m_asked := a\<rparr>) = busy w"
  "busy (w\<lparr>m_mTimer := m\<rparr>) = busy w" "busy (w\<lparr>m_setSubTimer := ps\<rparr>) = busy w"
  "busy (w\<lparr>m_subs := v\<rparr>) = busy w" "busy (w\<lparr>m_calls := c\<rparr>) = busy w"
  by (simp_all add: busy_def)

lemma put_ent_ok:
  assumes "timers_ok w" and "map_of (m_ents w) p = Some e"
    and "m_bDelete e' \<longrightarrow> m_bDelete e \<or> (\<forall>s. map_of (m_subs w) s \<noteq> Some (Some p))"
  shows "timers_ok (put_ent p e' w)"
  using assms hasI [OF assms(2)] unfolding timers_ok_def put_ent_def vars_ok_def
  by (fastforce simp: update_conv' distinct_update)

lemma put_ent_busy: "m_bHandleing e' \<Longrightarrow> B \<subseteq> busy w \<Longrightarrow> B \<subseteq> busy (put_ent p e' w)"
  by (auto simp: busy_def put_ent_def update_conv')

lemma put_ent_busy_same:
  "map_of (m_ents w) p = Some e \<Longrightarrow> m_bHandleing e' = m_bHandleing e \<Longrightarrow> busy (put_ent p e' w) = busy w"
  by (auto simp: busy_def put_ent_def update_conv')

lemma ActorTimer_AddTimer_ok:
  "timers_ok w \<Longrightarrow> has (m_ents w) p \<Longrightarrow> timers_ok (ActorTimer_AddTimer t p w)"
  unfolding timers_ok_def ActorTimer_AddTimer_def Let_def by (cases "map_of (m_mTimer w) t") auto

lemma ActorTimer_AddTimer_same [simp]:
  "m_ents (ActorTimer_AddTimer t p w) = m_ents w" "m_subs (ActorTimer_AddTimer t p w) = m_subs w"
  "m_calls (ActorTimer_AddTimer t p w) = m_calls w" "busy (ActorTimer_AddTimer t p w) = busy w"
  by (simp_all add: ActorTimer_AddTimer_def Let_def busy_def)

lemma Entity_free_ok:
  assumes "timers_ok w" and "\<forall>s. map_of (m_subs w) s \<noteq> Some (Some p)"
  shows "timers_ok (Entity_free p w)"
  using assms unfolding timers_ok_def Entity_free_def UnRegistSubTimer_def vars_ok_def
  by (auto simp: delete_conv' distinct_delete map_of_UnRegist om_wf_UnRegist split: option.splits if_splits)

lemma Entity_free_busy: "p \<notin> B \<Longrightarrow> B \<subseteq> busy w \<Longrightarrow> B \<subseteq> busy (Entity_free p w)"
  by (auto simp: busy_def Entity_free_def UnRegistSubTimer_def delete_conv')

lemma Clear_ok:
  assumes "timers_ok w" and "has (m_ents w) p"
  shows "timers_ok (RegistSubTimer p (UnRegistSubTimer p w))"
  using assms unfolding timers_ok_def RegistSubTimer_def UnRegistSubTimer_def
  by (auto simp: map_of_UnRegist om_wf_UnRegist split: option.splits if_splits)

lemma Entity_make_ok:
  assumes "timers_ok w" and "alloc_ok env" and "Entity_make env w = (p, w')"
  shows "timers_ok w' \<and> busy w \<subseteq> busy w' \<and> m_subs w' = m_subs w \<and>
    (\<forall>s. map_of (m_subs w) s \<noteq> Some (Some p)) \<and> (\<exists>e. map_of (m_ents w') p = Some e \<and> \<not> m_bDelete e)"
proof -
  have "p \<notin> set (map fst (m_ents w))"
    using assms(2,3) unfolding Entity_make_def Let_def alloc_ok_def by blast
  then have p: "map_of (m_ents w) p = None" by (simp only: map_of_eq_None_iff set_map) simp
  have w': "w' = RegistSubTimer p (put_ent p \<lparr> e_mTimer = [], m_bDelete = False, m_bHandleing = False \<rparr> w)"
    using assms(3) by (auto simp: Entity_make_def Let_def)
  have "\<forall>s. map_of (m_subs w) s \<noteq> Some (Some p)"
    using assms(1) p unfolding timers_ok_def vars_ok_def by (metis option.distinct(1))
  then show ?thesis
    using assms(1) p unfolding w' timers_ok_def RegistSubTimer_def put_ent_def busy_def vars_ok_def
    by (auto simp: update_conv' distinct_update)
qed


lemma post_mono: "post B r \<Longrightarrow> B' \<subseteq> B \<Longrightarrow> post B' r"
  by (cases r) auto

lemma sub_Inr:
  assumes "timers_ok w" and "sub s w = Inr p"
  shows "\<exists>e. map_of (m_ents w) p = Some e \<and> \<not> m_bDelete e"
  using assms unfolding timers_ok_def vars_ok_def sub_def by (auto split: option.splits)

lemma sub_Inl: "sub s w = Inl e \<Longrightarrow> e = Null_deref"
  unfolding sub_def by (auto split: option.splits)

lemma no_vars:
  "timers_ok w \<Longrightarrow> map_of (m_ents w) p = Some e \<Longrightarrow> m_bDelete e \<Longrightarrow> map_of (m_subs w) s \<noteq> Some (Some p)"
  unfolding timers_ok_def vars_ok_def by fastforce

lemma put_ent_simps [simp]:
  "m_subs (put_ent p e w) = m_subs w" "map_of (m_ents (put_ent p e w)) = (map_of (m_ents w))(p \<mapsto> e)"
  "has (m_ents (put_ent p e w)) q \<longleftrightarrow> q = p \<or> has (m_ents w) q" "m_mTimer (put_ent p e w) = m_mTimer w"
  "m_calls (put_ent p e w) = m_calls w" "m_reads (put_ent p e w) = m_reads w"
  "m_setSubTimer (put_ent p e w) = m_setSubTimer w"
  by (simp_all add: put_ent_def update_conv')

lemma Entity_AddTimer_post:
  assumes "timers_ok w" and "map_of (m_ents w) p = Some e"
  shows "post (busy w) (Entity_AddTimer env d h p w)"
proof -
  define t where "t = d + clock env (m_reads w)"
  define w1 where "w1 = (if e_mTimer e = [] \<or> t < fst (hd (e_mTimer e))
    then ActorTimer_AddTimer t p (w\<lparr>m_reads := Suc (m_reads w)\<rparr>) else w\<lparr>m_reads := Suc (m_reads w)\<rparr>)"
  have w1: "timers_ok w1" "busy w1 = busy w" "map_of (m_ents w1) p = Some e"
    using assms hasI [OF assms(2)] by (auto simp: w1_def intro: ActorTimer_AddTimer_ok)
  have r: "Entity_AddTimer env d h p w =
      Inr (put_ent p (e\<lparr>e_mTimer := om_put t (at_list t (e_mTimer e) @ [h]) (e_mTimer e)\<rparr>) w1)"
    using assms(2) by (simp add: Entity_AddTimer_def ent_def Let_def t_def w1_def)
  show ?thesis
    using put_ent_ok [OF w1(1,3)] put_ent_busy_same [OF w1(3)] w1(2) by (simp add: r)
qed

lemma Entity_Clear_post:
  assumes "timers_ok w" and "map_of (m_ents w) p = Some e"
  shows "post (busy w) (Entity_Clear p w)"
proof -
  let ?w = "put_ent p (e\<lparr>e_mTimer := []\<rparr>) w"
  have "timers_ok ?w" "busy ?w = busy w"
    using put_ent_ok [OF assms] put_ent_busy_same [OF assms(2)] by simp_all
  then show ?thesis
    using Clear_ok [of ?w p] assms(2)
    by (simp add: Entity_Clear_def ent_def) (simp add: RegistSubTimer_def UnRegistSubTimer_def)
qed

lemma Entity_Delete_post:
  assumes "timers_ok w" and e: "map_of (m_ents w) p = Some e" and "\<forall>s. map_of (m_subs w) s \<noteq> Some (Some p)"
  shows "post (busy w) (Entity_Delete p w)"
proof -
  let ?w = "put_ent p (e\<lparr>m_bDelete := True\<rparr>) w"
  have w: "timers_ok ?w" "busy ?w = busy w"
    using put_ent_ok [OF assms(1,2)] assms(3) put_ent_busy_same [OF assms(2)] by simp_all
  show ?thesis
  proof (cases "m_bHandleing e")
    case True
    then show ?thesis using w e by (simp add: Entity_Delete_def ent_def)
  next
    case False
    then have "p \<notin> busy w" using e by (simp add: busy_def)
    from Entity_free_busy [OF this, of ?w] Entity_free_ok [OF w(1), of p] w False e assms(3)
    show ?thesis by (simp add: Entity_Delete_def ent_def)
  qed
qed

lemma subs_ok:
  assumes "timers_ok w" and "um_wf subs" and "vars_ok (m_ents w) subs"
  shows "timers_ok (w\<lparr>m_subs := subs\<rparr>)"
  using assms by (simp add: timers_ok_def)

lemma vars_ok_drop:
  "vars_ok ents subs \<Longrightarrow> (\<And>s p. map_of subs' s = Some (Some p) \<Longrightarrow> map_of subs s = Some (Some p)) \<Longrightarrow>
    vars_ok ents subs'"
  unfolding vars_ok_def by blast

lemma vars_ok_add:
  assumes "vars_ok ents subs" and "\<forall>s. map_of subs s \<noteq> Some (Some p)" and "map_of ents p = Some e" and "\<not> m_bDelete e"
  shows "vars_ok ents (AList.update s (Some p) subs)"
  using assms unfolding vars_ok_def by (auto simp: update_conv' split: if_splits)

lemma timers_okD:
  assumes "timers_ok w"
  shows "um_wf (m_subs w)" "vars_ok (m_ents w) (m_subs w)"
  using assms by (simp_all add: timers_ok_def)

lemma SubTimer_make_post:
  assumes "timers_ok w" and "alloc_ok env"
  shows "post (busy w) (SubTimer_make env s w)"
proof -
  obtain p w1 where w1: "Entity_make env w = (p, w1)" by (rule prod.exhaust)
  note k = Entity_make_ok [OF assms w1]
  from k obtain e where "map_of (m_ents w1) p = Some e" "\<not> m_bDelete e" by blast
  then have "timers_ok (w1\<lparr>m_subs := AList.update s (Some p) (m_subs w1)\<rparr>)"
    using k timers_okD [of w1] by (intro subs_ok vars_ok_add) (auto simp: distinct_update)
  then show ?thesis using k by (simp add: SubTimer_make_def w1 fresh_sub_def)
qed

lemma do_op_post:
  assumes ok: "timers_ok w" and al: "alloc_ok env"
  shows "post (busy w) (do_op env op w)"
proof (cases op)
  case (Op_make s)
  then show ?thesis using SubTimer_make_post [OF assms] by simp
next
  case (Op_copy s other)
  show ?thesis
  proof (cases "sub other w")
    case (Inl e)
    then show ?thesis using sub_Inl [OF Inl] by (simp add: Op_copy SubTimer_copy_def)
  next
    case (Inr q)
    with sub_Inr [OF ok Inr] show ?thesis
      using SubTimer_make_post [OF assms] by (auto simp: Op_copy SubTimer_copy_def ent_def)
  qed
next
  case (Op_move s other)
  show ?thesis
  proof (cases "map_of (m_subs w) other")
    case None
    then show ?thesis by (simp add: Op_move SubTimer_move_def)
  next
    case (Some p)
    let ?subs = "AList.update other None (m_subs w)"
    note wf = timers_okD [OF ok]
    have v: "vars_ok (m_ents w) ?subs"
      by (rule vars_ok_drop [OF wf(2)]) (auto simp: update_conv' split: if_splits)
    have "vars_ok (m_ents w) (AList.update s p ?subs)" if new: "map_of ?subs s = None"
    proof (cases p)
      case None
      then show ?thesis
        by (intro vars_ok_drop [OF v]) (auto simp: update_conv' split: if_splits)
    next
      case q: (Some q)
      then have sq: "map_of (m_subs w) other = Some (Some q)" using Some by simp
      then obtain e where "map_of (m_ents w) q = Some e" "\<not> m_bDelete e"
        using wf(2) unfolding vars_ok_def by blast
      moreover have "\<forall>s. map_of ?subs s \<noteq> Some (Some q)"
        using wf(2) sq unfolding vars_ok_def by (auto simp: update_conv' split: if_splits)
      ultimately show ?thesis unfolding q by (intro vars_ok_add [OF v]) simp_all
    qed
    then show ?thesis
      using subs_ok [OF ok] wf
      by (simp add: Op_move SubTimer_move_def Some fresh_sub_def distinct_update)
  qed
next
  case (Op_destroy s)
  show ?thesis
  proof (cases "map_of (m_subs w) s")
    case None
    then show ?thesis by (simp add: Op_destroy SubTimer_destroy_def)
  next
    case (Some q)
    let ?w = "w\<lparr>m_subs := AList.delete s (m_subs w)\<rparr>"
    note wf = timers_okD [OF ok]
    have "vars_ok (m_ents w) (AList.delete s (m_subs w))"
      by (rule vars_ok_drop [OF wf(2)]) (auto simp: delete_conv' split: if_splits)
    then have w: "timers_ok ?w" using wf(1) by (intro subs_ok [OF ok]) (simp_all add: distinct_delete)
    show ?thesis
    proof (cases q)
      case None
      then show ?thesis using w by (simp add: Op_destroy SubTimer_destroy_def Some)
    next
      case q: (Some p)
      then have sp: "map_of (m_subs w) s = Some (Some p)" using Some by simp
      then obtain e where "map_of (m_ents w) p = Some e" using wf(2) unfolding vars_ok_def by blast
      moreover have "\<forall>s'. map_of (AList.delete s (m_subs w)) s' \<noteq> Some (Some p)"
        using wf(2) sp unfolding vars_ok_def by (auto simp: delete_conv' split: if_splits)
      ultimately show ?thesis
        using Entity_Delete_post [OF w, of p e] by (simp add: Op_destroy SubTimer_destroy_def Some q)
    qed
  qed
next
  case (Op_add s d h)
  then show ?thesis
    using sub_Inr [OF ok, of s] sub_Inl [of s w] Entity_AddTimer_post [OF ok]
    by (cases "sub s w") (auto simp: SubTimer_AddTimer_def)
next
  case (Op_clear s)
  then show ?thesis
    using sub_Inr [OF ok, of s] sub_Inl [of s w] Entity_Clear_post [OF ok]
    by (cases "sub s w") (auto simp: SubTimer_Clear_def)
qed


lemma do_ops_post:
  "timers_ok w \<Longrightarrow> alloc_ok env \<Longrightarrow> B \<subseteq> busy w \<Longrightarrow> post B (rfold (do_op env) ops w)"
proof (induction ops arbitrary: w)
  case Nil
  then show ?case by simp
next
  case (Cons op ops)
  have "post B (do_op env op w)" using do_op_post [OF Cons.prems(1,2)] post_mono Cons.prems(3) by blast
  then show ?case unfolding rfold.simps by (rule post_bind) (use Cons in blast)
qed

lemma busy_ent: "p \<in> busy w \<Longrightarrow> \<exists>e. ent p w = Inr e"
  by (auto simp: busy_def ent_def)

lemma Entity_handles_post:
  assumes "alloc_ok env" and "due \<le> now" and "p \<in> B"
  shows "timers_ok w \<Longrightarrow> B \<subseteq> busy w \<Longrightarrow> post B (Entity_handles env due now p hs w)"
proof (induction hs arbitrary: w)
  case Nil
  then show ?case by simp
next
  case (Cons h hs)
  obtain e where e: "ent p w = Inr e" using busy_ent assms(3) Cons.prems(2) by blast
  let ?w = "w\<lparr>m_calls := m_calls w @ [(p, due, h, now)]\<rparr>"
  have "timers_ok ?w" using Cons.prems(1) assms(2) by (simp add: timers_ok_def)
  then have "post B (rfold (do_op env) (acts env h now) ?w)"
    using do_ops_post [OF _ assms(1)] Cons.prems(2) by simp
  then have "post B (rbind (rfold (do_op env) (acts env h now) ?w) (Entity_handles env due now p hs))"
    by (rule post_bind) (rule Cons.IH)
  then show ?case using Cons.prems e by simp
qed

lemma put_ent_tl:
  assumes "timers_ok w" and "ent p w = Inr e"
  shows "timers_ok (put_ent p (e\<lparr>e_mTimer := m\<rparr>) w) \<and> busy (put_ent p (e\<lparr>e_mTimer := m\<rparr>) w) = busy w"
proof -
  have e: "map_of (m_ents w) p = Some e" using assms(2) by (simp add: ent_def split: option.splits)
  show ?thesis using put_ent_ok [OF assms(1) e] put_ent_busy_same [OF e] by simp
qed

lemma Entity_loop_post:
  assumes "Entity_loop env now p w = Some r"
  shows "alloc_ok env \<longrightarrow> p \<in> B \<longrightarrow> timers_ok w \<longrightarrow> B \<subseteq> busy w \<longrightarrow> post B (map_sum id snd r)"
proof (rule Entity_loop.raw_induct [where P = "\<lambda>env now p w r. alloc_ok env \<longrightarrow> p \<in> B \<longrightarrow> timers_ok w \<longrightarrow>
    B \<subseteq> busy w \<longrightarrow> post B (map_sum id snd r)", OF _ assms], intro impI)
  fix f :: "'a timer_env \<Rightarrow> u64 \<Rightarrow> nat \<Rightarrow> 'a timers \<Rightarrow> (bool \<times> 'a timers) res option"
    and env now p w and r :: "(bool \<times> 'a timers) res"
  assume IH: "\<And>env now p w r. f env now p w = Some r \<Longrightarrow>
      alloc_ok env \<longrightarrow> p \<in> B \<longrightarrow> timers_ok w \<longrightarrow> B \<subseteq> busy w \<longrightarrow> post B (map_sum id snd r)"
    and step: "(case ent p w of
        Inl e \<Rightarrow> Some (Inl e)
      | Inr e \<Rightarrow>
          (if e_mTimer e = [] \<or> m_bDelete e then Some (Inr (False, w))
           else if now < fst (hd (e_mTimer e)) then Some (Inr (True, w))
           else
             (case Entity_handles env (fst (hd (e_mTimer e))) now p (snd (hd (e_mTimer e)))
                 (put_ent p (e\<lparr>e_mTimer := tl (e_mTimer e)\<rparr>) w) of
                Inl e \<Rightarrow> Some (Inl e)
              | Inr w \<Rightarrow> f env now p w))) = Some r"
    and al: "alloc_ok env" and p: "p \<in> B" and ok: "timers_ok w" and B: "B \<subseteq> busy w"
  obtain e where e: "ent p w = Inr e" using busy_ent p B by blast
  show "post B (map_sum id snd r)"
  proof (cases "e_mTimer e = [] \<or> m_bDelete e \<or> now < fst (hd (e_mTimer e))")
    case True
    then have "r = Inr (False, w) \<or> r = Inr (True, w)" using step e by (auto split: if_splits)
    then show ?thesis using ok B by auto
  next
    case False
    let ?h = "Entity_handles env (fst (hd (e_mTimer e))) now p (snd (hd (e_mTimer e)))
        (put_ent p (e\<lparr>e_mTimer := tl (e_mTimer e)\<rparr>) w)"
    have h: "post B ?h"
      using put_ent_tl [OF ok e, of "tl (e_mTimer e)"] B False p
      by (intro Entity_handles_post [OF al]) auto
    show ?thesis
    proof (cases ?h)
      case (Inl f)
      then show ?thesis using step e False h by auto
    next
      case (Inr w')
      then have "f env now p w' = Some r" using step e False by simp
      from IH [OF this] h Inr al p show ?thesis by simp
    qed
  qed
qed

lemma Entity_OnTimer_post:
  assumes "alloc_ok env" and ok: "timers_ok w" and e: "map_of (m_ents w) p = Some e"
    and run: "Entity_OnTimer env now p w = Some r"
  shows "post {} r"
proof -
  let ?w = "put_ent p (e\<lparr>m_bHandleing := True\<rparr>) w"
  have w: "timers_ok ?w" using put_ent_ok [OF ok e] by simp
  have "{p} \<subseteq> busy ?w" by (auto simp: busy_def)
  obtain r' where r': "Entity_loop env now p ?w = Some r'"
    using run e by (auto simp: Entity_OnTimer_def ent_def split: option.splits)
  from Entity_loop_post [OF this, of "{p}"] w have l: "post {p} (map_sum id snd r')"
    using assms(1) \<open>{p} \<subseteq> busy ?w\<close> by blast
  have r: "r = rbind r' (\<lambda>(returned, w).
      if returned then Inr w
      else rbind (ent p w) (\<lambda>e.
        (let w = put_ent p (e\<lparr>m_bHandleing := False\<rparr>) w in
         if m_bDelete e then Inr (Entity_free p w) else Inr w)))"
    using run e r' by (simp add: Entity_OnTimer_def ent_def)
  show ?thesis
  proof (cases r')
    case (Inl f)
    then show ?thesis using l r by simp
  next
    case (Inr bw)
    obtain b w2 where bw: "bw = (b, w2)" by (rule prod.exhaust)
    have w2: "timers_ok w2" "p \<in> busy w2" using l Inr bw by simp_all
    then obtain e2 where e2: "map_of (m_ents w2) p = Some e2" by (auto simp: busy_def)
    let ?w3 = "put_ent p (e2\<lparr>m_bHandleing := False\<rparr>) w2"
    have w3: "timers_ok ?w3" using put_ent_ok [OF w2(1) e2] by simp
    have "timers_ok (Entity_free p ?w3)" if "m_bDelete e2"
      using Entity_free_ok [OF w3] no_vars [OF w2(1) e2 that] by simp
    then show ?thesis using r Inr bw w2 w3 e2 by (simp add: ent_def Let_def)
  qed
qed

lemma ActorTimer_set_post:
  assumes "alloc_ok env"
  shows "timers_ok w \<Longrightarrow> ActorTimer_set env now ps w = Some r \<Longrightarrow> post {} r"
proof (induction ps arbitrary: w)
  case Nil
  then show ?case by auto
next
  case (Cons p ps)
  show ?case
  proof (cases "p \<in> set (m_setSubTimer w)")
    case True
    then have "has (m_ents w) p" using Cons.prems(1) by (simp add: timers_ok_def)
    then obtain e where e: "map_of (m_ents w) p = Some e" by (auto simp: has_def)
    obtain r1 where r1: "Entity_OnTimer env now p w = Some r1"
      using Cons.prems(2) True by (auto split: option.splits)
    from Entity_OnTimer_post [OF assms Cons.prems(1) e r1] have p1: "post {} r1" .
    then show ?thesis using Cons r1 True by (cases r1) auto
  next
    case False
    then show ?thesis using Cons by simp
  qed
qed

lemma tl_map_ok:
  assumes "timers_ok w"
  shows "timers_ok (w\<lparr>m_mTimer := tl (m_mTimer w)\<rparr>)"
proof (cases "m_mTimer w")
  case Nil
  then show ?thesis using assms by (simp add: timers_ok_def)
next
  case (Cons a m)
  obtain t ps where a: "a = (t, ps)" by (rule prod.exhaust)
  have wf: "om_wf (m_mTimer w)" using assms by (simp add: timers_ok_def)
  then have t: "map_of m t = None" unfolding Cons a by (auto simp: om_wf_Cons map_of_eq_None_iff)
  have "map_of (m_mTimer w) s = Some q" if "map_of m s = Some q" for s q
    using that t unfolding Cons a by auto
  then have "\<forall>t ps p. map_of m t = Some ps \<longrightarrow> p \<in> set ps \<longrightarrow> has (m_ents w) p"
    using assms unfolding timers_ok_def by blast
  moreover have "om_wf m" using wf unfolding Cons a by (simp add: om_wf_Cons)
  ultimately show ?thesis using assms unfolding timers_ok_def by (simp add: Cons)
qed

lemma ActorTimer_OnTimer_post:
  assumes "ActorTimer_OnTimer env now w = Some r"
  shows "alloc_ok env \<longrightarrow> timers_ok w \<longrightarrow> post {} r"
proof (rule ActorTimer_OnTimer.raw_induct [where P = "\<lambda>env now w r. alloc_ok env \<longrightarrow> timers_ok w \<longrightarrow> post {} r",
    OF _ assms], intro impI)
  fix f :: "'a timer_env \<Rightarrow> u64 \<Rightarrow> 'a timers \<Rightarrow> 'a timers res option" and env now w and r :: "'a timers res"
  assume IH: "\<And>env now w r. f env now w = Some r \<Longrightarrow> alloc_ok env \<longrightarrow> timers_ok w \<longrightarrow> post {} r"
    and step: "(if m_mTimer w = [] \<or> now < fst (hd (m_mTimer w)) then Some (Inr w)
      else
        (case ActorTimer_set env now (snd (hd (m_mTimer w))) (w\<lparr>m_mTimer := tl (m_mTimer w)\<rparr>) of
           None \<Rightarrow> None
         | Some (Inl e) \<Rightarrow> Some (Inl e)
         | Some (Inr w) \<Rightarrow> f env now w)) = Some r"
    and al: "alloc_ok env" and ok: "timers_ok w"
  show "post {} r"
  proof (cases "m_mTimer w = [] \<or> now < fst (hd (m_mTimer w))")
    case True
    then show ?thesis using step ok by auto
  next
    case False
    let ?s = "ActorTimer_set env now (snd (hd (m_mTimer w))) (w\<lparr>m_mTimer := tl (m_mTimer w)\<rparr>)"
    obtain r1 where r1: "?s = Some r1" using step False by (auto split: option.splits)
    from ActorTimer_set_post [OF al tl_map_ok [OF ok] this] have p1: "post {} r1" .
    then show ?thesis using step False r1 IH al by (cases r1) auto
  qed
qed

lemma do_call_post:
  assumes "alloc_ok env" and "timers_ok w" and "do_call env c w = Some r"
  shows "post {} r"
proof (cases c)
  case (Call op)
  then show ?thesis using assms do_op_post [OF assms(2,1)] post_mono by fastforce
next
  case (Tick now)
  then show ?thesis using assms ActorTimer_OnTimer_post [of env now w r] by simp
next
  case (Sub_tick s now)
  show ?thesis
  proof (cases "sub s w")
    case (Inl e)
    then show ?thesis using assms Sub_tick sub_Inl [OF Inl] by (auto simp: SubTimer_OnTimer_def)
  next
    case (Inr p)
    then show ?thesis
      using assms Sub_tick sub_Inr [OF assms(2) Inr] Entity_OnTimer_post [OF assms(1,2)]
      by (auto simp: SubTimer_OnTimer_def)
  qed
qed

lemma timer_run_post:
  assumes "alloc_ok env"
  shows "timers_ok w \<Longrightarrow> timer_run env cs w = Some r \<Longrightarrow> post {} r"
proof (induction cs arbitrary: w)
  case Nil
  then show ?case by auto
next
  case (Cons c cs)
  obtain r1 where r1: "do_call env c w = Some r1" using Cons.prems by (auto split: option.splits)
  from do_call_post [OF assms Cons.prems(1) this] Cons r1 show ?case by (cases r1) auto
qed

lemma timers_init_ok: "timers_ok timers_init"
  by (simp add: timers_ok_def timers_init_def vars_ok_def has_def)


text \<open>
  C19. The entities of timers free themselves safely as long as no handler calls \<open>OnTimer\<close>: in
  every run of client operations and calls of \<open>OnTimer\<close> from outside the handlers, whatever
  timers the handlers make, copy, move, clear, destroy and add, and wherever the allocator puts
  the entities outside the memory in use, no operation reaches an entity that was freed, the
  registered entities are exactly those on the heap, every variable keeps an entity of its own,
  and no handler is called before its time. For a handler that calls \<open>OnTimer\<close> it does not hold
  (\<open>nested_tick_frees\<close>).
\<close>

theorem timer_entities_safe:
  assumes "alloc_ok env" and "timer_run env cs timers_init = Some r"
  shows "(case r of Inl e \<Rightarrow> e \<noteq> Out_of_range | Inr w \<Rightarrow> timers_ok w)"
  using timer_run_post [OF assms(1) timers_init_ok assms(2)] by (cases r) simp_all

text \<open>Two clients, whose handlers destroy timers, add timers and copy them.\<close>

definition demo_timers :: "nat timer_env" where
  "demo_timers =
     \<lparr> clock = \<lambda>k. of_nat (10 * k), alloc = \<lambda>ps. Suc (sum_list ps),
       acts = \<lambda>h now. (if h = 0 then [Op_destroy 1, Op_add 2 100 1, Op_copy 3 2] else []) \<rparr>"

definition demo_timer_run :: "nat timer_call list" where
  "demo_timer_run = [Call (Op_make 1), Call (Op_make 2), Call (Op_add 1 5 0), Call (Op_add 1 5 1), Tick 20, Tick 120]"

lemma demo_timers_alloc: "alloc_ok demo_timers"
proof -
  have "p \<le> sum_list ps" if "p \<in> set ps" for p and ps :: "nat list"
    using that member_le_sum_list [of p ps] by simp
  then show ?thesis by (fastforce simp: alloc_ok_def demo_timers_def)
qed

theorem timer_entities_safe_witness:
  "\<exists>w. timer_run demo_timers demo_timer_run timers_init = Some (Inr w) \<and> timers_ok w \<and>
     map (\<lambda>(p, due, h, now). (due, h, now)) (m_calls w) = [(5, 0, 20), (120, 1, 120)]"
proof -
  have "(case timer_run demo_timers demo_timer_run timers_init of
      Some (Inr w) \<Rightarrow> map (\<lambda>(p, due, h, now). (due, h, now)) (m_calls w) = [(5, 0, 20), (120, 1, 120)] | _ \<Rightarrow> False)"
    by code_simp
  then obtain w where w: "timer_run demo_timers demo_timer_run timers_init = Some (Inr w)"
      "map (\<lambda>(p, due, h, now). (due, h, now)) (m_calls w) = [(5, 0, 20), (120, 1, 120)]"
    by (auto split: option.splits sum.splits)
  with timer_entities_safe [OF demo_timers_alloc w(1)] show ?thesis by simp
qed



section \<open>OnTimer returns\<close>

text \<open>The times that are due, and that no operation of a handler adds one.\<close>

definition due_count :: "u64 \<Rightarrow> (u64 \<times> 'v) list \<Rightarrow> nat" where
  "due_count now m = length (filter (\<lambda>(t, _). t \<le> now) m)"

definition ent_due :: "u64 \<Rightarrow> 'h timers \<Rightarrow> nat \<Rightarrow> nat" where
  "ent_due now w p = (case map_of (m_ents w) p of None \<Rightarrow> 0 | Some e \<Rightarrow> due_count now (e_mTimer e))"

definition fewer :: "u64 \<Rightarrow> 'h timers \<Rightarrow> 'h timers \<Rightarrow> bool" where
  "fewer now w w' \<longleftrightarrow> (\<forall>p. ent_due now w' p \<le> ent_due now w p) \<and> due_count now (m_mTimer w') \<le> due_count now (m_mTimer w)"

definition adds_later :: "'h timer_env \<Rightarrow> u64 \<Rightarrow> 'h timer_op \<Rightarrow> bool" where
  "adds_later env now op \<longleftrightarrow> (\<forall>s d h k. op = Op_add s d h \<longrightarrow> now < d + clock env k)"

lemma fewer_refl [simp]: "fewer now w w"
  by (simp add: fewer_def)

lemma fewer_trans: "fewer now w1 w2 \<Longrightarrow> fewer now w2 w3 \<Longrightarrow> fewer now w1 w3"
  unfolding fewer_def by (meson le_trans)

lemma due_count_simps [simp]:
  "due_count now [] = 0"
  "due_count now ((t, v) # m) = (if t \<le> now then Suc (due_count now m) else due_count now m)"
  by (simp_all add: due_count_def)

lemma due_count_put: "now < t \<Longrightarrow> due_count now (om_put t v m) = due_count now m"
  by (induction t v m rule: om_put.induct) auto

lemma due_count_UnRegist: "due_count now (UnRegist_times p m) \<le> due_count now m"
  by (induction p m rule: UnRegist_times.induct) (auto simp: Let_def)

lemma fewer_put_ent:
  assumes "map_of (m_ents w) p = Some e \<Longrightarrow> due_count now (e_mTimer e') \<le> due_count now (e_mTimer e)"
    and "map_of (m_ents w) p = None \<Longrightarrow> due_count now (e_mTimer e') = 0"
    and "\<And>e2. map_of (m_ents w) p = Some e2 \<Longrightarrow> e2 = e"
  shows "fewer now w (put_ent p e' w)"
  using assms by (cases "map_of (m_ents w) p") (auto simp: fewer_def ent_due_def)

lemma fewer_put_ent_le:
  assumes "map_of (m_ents w) p = Some e" and "due_count now (e_mTimer e') \<le> due_count now (e_mTimer e)"
  shows "fewer now w (put_ent p e' w)"
  by (rule fewer_put_ent [where e = e]) (use assms in auto)

lemma fewer_fields [simp]:
  "fewer now w (w'\<lparr>m_reads := n\<rparr>) = fewer now w w'" "fewer now w (w'\<lparr>m_subs := v\<rparr>) = fewer now w w'"
  "fewer now w (w'\<lparr>m_calls := c\<rparr>) = fewer now w w'" "fewer now w (w'\<lparr>m_asked := a\<rparr>) = fewer now w w'"
  "fewer now w (w'\<lparr>m_setSubTimer := ps\<rparr>) = fewer now w w'"
  "fewer now (w\<lparr>m_reads := n\<rparr>) w' = fewer now w w'" "fewer now (w\<lparr>m_subs := v\<rparr>) w' = fewer now w w'"
  "fewer now (w\<lparr>m_calls := c\<rparr>) w' = fewer now w w'"
  by (simp_all add: fewer_def ent_due_def)

lemma fewer_UnRegist: "fewer now w (UnRegistSubTimer p w)"
  using due_count_UnRegist by (simp add: UnRegistSubTimer_def fewer_def ent_due_def)

lemma fewer_free: "fewer now w (Entity_free p w)"
  using due_count_UnRegist
  by (simp add: Entity_free_def UnRegistSubTimer_def fewer_def ent_due_def delete_conv')

lemma fewer_Actor_AddTimer: "now < t \<Longrightarrow> fewer now w (ActorTimer_AddTimer t p w)"
  by (simp add: ActorTimer_AddTimer_def Let_def fewer_def ent_due_def due_count_put)

lemma fewer_AddTimer:
  assumes "now < d + clock env (m_reads w)" and "Entity_AddTimer env d h p w = Inr w'"
  shows "fewer now w w'"
proof -
  obtain e where e: "map_of (m_ents w) p = Some e"
    using assms(2) by (auto simp: Entity_AddTimer_def ent_def split: option.splits)
  let ?t = "d + clock env (m_reads w)"
  define w1 where "w1 = (if e_mTimer e = [] \<or> ?t < fst (hd (e_mTimer e))
    then ActorTimer_AddTimer ?t p (w\<lparr>m_reads := Suc (m_reads w)\<rparr>) else w\<lparr>m_reads := Suc (m_reads w)\<rparr>)"
  have w1: "fewer now w w1" "map_of (m_ents w1) p = Some e"
    using fewer_Actor_AddTimer [OF assms(1), of "w\<lparr>m_reads := Suc (m_reads w)\<rparr>" p] e by (simp_all add: w1_def)
  have "w' = put_ent p (e\<lparr>e_mTimer := om_put ?t (at_list ?t (e_mTimer e) @ [h]) (e_mTimer e)\<rparr>) w1"
    using assms(2) e by (simp add: Entity_AddTimer_def ent_def Let_def w1_def)
  then have "fewer now w1 w'"
    using w1(2) assms(1) by (auto intro!: fewer_put_ent_le [where e = e] simp: due_count_put)
  with w1(1) show ?thesis by (rule fewer_trans)
qed

lemma fewer_make: "SubTimer_make env s w = Inr w' \<Longrightarrow> fewer now w w'"
proof -
  assume r: "SubTimer_make env s w = Inr w'"
  let ?p = "alloc env (map fst (m_ents w))"
  let ?w = "put_ent ?p \<lparr> e_mTimer = [], m_bDelete = False, m_bHandleing = False \<rparr> w"
  have "fewer now w ?w" by (cases "map_of (m_ents w) ?p") (auto intro: fewer_put_ent)
  then show ?thesis
    using r by (auto simp: SubTimer_make_def Entity_make_def Let_def fresh_sub_def RegistSubTimer_def split: if_splits)
qed

lemma fewer_Clear:
  assumes "Entity_Clear p w = Inr w'"
  shows "fewer now w w'"
proof -
  obtain e where e: "map_of (m_ents w) p = Some e"
    using assms by (auto simp: Entity_Clear_def ent_def split: option.splits)
  have "fewer now w (put_ent p (e\<lparr>e_mTimer := []\<rparr>) w)" by (rule fewer_put_ent_le [OF e]) simp
  moreover have "w' = RegistSubTimer p (UnRegistSubTimer p (put_ent p (e\<lparr>e_mTimer := []\<rparr>) w))"
    using assms e by (simp add: Entity_Clear_def ent_def)
  ultimately show ?thesis
    using fewer_UnRegist fewer_trans by (simp add: RegistSubTimer_def) blast
qed

lemma fewer_Delete:
  assumes "Entity_Delete p w = Inr w'"
  shows "fewer now w w'"
proof -
  obtain e where e: "map_of (m_ents w) p = Some e"
    using assms by (auto simp: Entity_Delete_def ent_def split: option.splits)
  have "fewer now w (put_ent p (e\<lparr>m_bDelete := True\<rparr>) w)" by (rule fewer_put_ent_le [OF e]) simp
  then show ?thesis
    using assms e fewer_free fewer_trans by (simp add: Entity_Delete_def ent_def Let_def split: if_splits) blast
qed

lemma do_op_fewer:
  assumes "adds_later env now op" and "do_op env op w = Inr w'"
  shows "fewer now w w'"
proof (cases op)
  case (Op_add s d h)
  then show ?thesis
    using assms fewer_AddTimer [of now d env w h _ w'] by (auto simp: SubTimer_AddTimer_def adds_later_def rbind_Inr_conv)
next
  case (Op_clear s)
  then show ?thesis using assms fewer_Clear by (auto simp: SubTimer_Clear_def rbind_Inr_conv)
next
  case (Op_destroy s)
  then show ?thesis
    using assms fewer_Delete [of _ "w\<lparr>m_subs := AList.delete s (m_subs w)\<rparr>" w' now]
    by (auto simp: SubTimer_destroy_def Let_def split: option.splits)
next
  case (Op_copy s other)
  then show ?thesis using assms fewer_make by (auto simp: SubTimer_copy_def rbind_Inr_conv)
next
  case (Op_move s other)
  then show ?thesis using assms by (auto simp: SubTimer_move_def fresh_sub_def split: option.splits if_splits)
qed (use assms fewer_make in auto)


definition handlers_later :: "'h timer_env \<Rightarrow> u64 \<Rightarrow> bool" where
  "handlers_later env now \<longleftrightarrow> (\<forall>h t. list_all (adds_later env now) (acts env h t))"

lemma do_ops_fewer:
  "list_all (adds_later env now) ops \<Longrightarrow> rfold (do_op env) ops w = Inr w' \<Longrightarrow> fewer now w w'"
proof (induction ops arbitrary: w)
  case Nil
  then show ?case by simp
next
  case (Cons op ops)
  from Cons.prems(2) obtain w1 where "do_op env op w = Inr w1" "rfold (do_op env) ops w1 = Inr w'"
    by (auto simp: rbind_Inr_conv)
  then show ?case using Cons do_op_fewer fewer_trans by fastforce
qed

lemma handles_fewer:
  assumes "handlers_later env now"
  shows "Entity_handles env due t p hs w = Inr w' \<Longrightarrow> fewer now w w'"
proof (induction hs arbitrary: w)
  case Nil
  then show ?case by simp
next
  case (Cons h hs)
  from Cons.prems obtain e where e: "ent p w = Inr e" by (auto simp: rbind_Inr_conv)
  let ?w = "w\<lparr>m_calls := m_calls w @ [(p, due, h, t)]\<rparr>"
  show ?case
  proof (cases "m_bDelete e")
    case True
    then show ?thesis using Cons.prems e by simp
  next
    case False
    then obtain w1 where w1: "rfold (do_op env) (acts env h t) ?w = Inr w1" "Entity_handles env due t p hs w1 = Inr w'"
      using Cons.prems e by (auto simp: rbind_Inr_conv)
    have "fewer now w w1"
      using do_ops_fewer [OF _ w1(1)] assms by (simp add: handlers_later_def)
    then show ?thesis using Cons.IH [OF w1(2)] fewer_trans by blast
  qed
qed

lemma loop_returns:
  assumes "handlers_later env now"
  shows "\<exists>r. Entity_loop env now p w = Some r \<and> (\<forall>b w'. r = Inr (b, w') \<longrightarrow> fewer now w w')"
proof (induction "ent_due now w p" arbitrary: w rule: less_induct)
  case less
  show ?case
  proof (cases "ent p w")
    case (Inl f)
    then show ?thesis by (subst Entity_loop.simps) simp
  next
    case (Inr e)
    then have e: "map_of (m_ents w) p = Some e" by (simp add: ent_def split: option.splits)
    show ?thesis
    proof (cases "e_mTimer e = [] \<or> m_bDelete e \<or> now < fst (hd (e_mTimer e))")
      case True
      then show ?thesis using Inr by (subst Entity_loop.simps) auto
    next
      case False
      then obtain t hs m where m: "e_mTimer e = (t, hs) # m" "t \<le> now" "\<not> m_bDelete e"
        by (cases "e_mTimer e") (auto simp: not_less)
      let ?w = "put_ent p (e\<lparr>e_mTimer := m\<rparr>) w"
      have step: "Entity_loop env now p w = (case Entity_handles env t now p hs ?w of
          Inl e \<Rightarrow> Some (Inl e) | Inr w \<Rightarrow> Entity_loop env now p w)"
        using Inr m by (subst Entity_loop.simps) auto
      have f: "fewer now w ?w" using m by (intro fewer_put_ent_le [OF e]) simp
      have d: "ent_due now ?w p < ent_due now w p" using e m by (simp add: ent_due_def)
      show ?thesis
      proof (cases "Entity_handles env t now p hs ?w")
        case (Inl f)
        then show ?thesis using step by simp
      next
        case (Inr w1)
        note g = handles_fewer [OF assms Inr]
        then have "ent_due now w1 p < ent_due now w p" using d unfolding fewer_def by (meson le_less_trans)
        from less [OF this] obtain r where r: "Entity_loop env now p w1 = Some r"
            "\<forall>b w'. r = Inr (b, w') \<longrightarrow> fewer now w1 w'" by blast
        have "\<forall>b w'. r = Inr (b, w') \<longrightarrow> fewer now w w'"
          using r(2) fewer_trans [OF fewer_trans [OF f g]] by blast
        then show ?thesis using step Inr r(1) by simp
      qed
    qed
  qed
qed

lemma Entity_OnTimer_returns:
  assumes "handlers_later env now"
  shows "\<exists>r. Entity_OnTimer env now p w = Some r \<and> (\<forall>w'. r = Inr w' \<longrightarrow> fewer now w w')"
proof (cases "ent p w")
  case (Inl f)
  then show ?thesis by (simp add: Entity_OnTimer_def)
next
  case (Inr e)
  then have e: "map_of (m_ents w) p = Some e" by (simp add: ent_def split: option.splits)
  let ?w = "put_ent p (e\<lparr>m_bHandleing := True\<rparr>) w"
  have f: "fewer now w ?w" by (rule fewer_put_ent_le [OF e]) simp
  from loop_returns [OF assms, of p ?w] obtain r where
    r: "Entity_loop env now p ?w = Some r" "\<forall>b w'. r = Inr (b, w') \<longrightarrow> fewer now ?w w'" by blast
  show ?thesis
  proof (cases r)
    case (Inl f)
    then show ?thesis using Inr r by (simp add: Entity_OnTimer_def)
  next
    case rr: (Inr bw)
    obtain b w1 where bw: "bw = (b, w1)" by (rule prod.exhaust)
    have g: "fewer now w w1" using r(2) rr bw fewer_trans [OF f] by blast
    show ?thesis
    proof (cases b)
      case True
      then show ?thesis using Inr r rr bw g by (simp add: Entity_OnTimer_def)
    next
      case nb: False
      have "fewer now w w'" if "rbind (ent p w1) (\<lambda>e. let w = put_ent p (e\<lparr>m_bHandleing := False\<rparr>) w1 in
          if m_bDelete e then Inr (Entity_free p w) else Inr w) = Inr w'" for w'
      proof -
        from that obtain e1 where e1: "map_of (m_ents w1) p = Some e1"
          by (auto simp: rbind_Inr_conv ent_def split: option.splits)
        have "fewer now w1 (put_ent p (e1\<lparr>m_bHandleing := False\<rparr>) w1)" by (rule fewer_put_ent_le [OF e1]) simp
        moreover have "fewer now (put_ent p (e1\<lparr>m_bHandleing := False\<rparr>) w1) w'"
          using that e1 fewer_free by (auto simp: ent_def Let_def split: if_splits)
        ultimately show ?thesis using g fewer_trans by blast
      qed
      then show ?thesis using Inr r rr bw nb by (simp add: Entity_OnTimer_def)
    qed
  qed
qed

lemma ActorTimer_set_returns:
  assumes "handlers_later env now"
  shows "\<exists>r. ActorTimer_set env now ps w = Some r \<and> (\<forall>w'. r = Inr w' \<longrightarrow> fewer now w w')"
proof (induction ps arbitrary: w)
  case Nil
  then show ?case by simp
next
  case (Cons p ps)
  show ?case
  proof (cases "p \<in> set (m_setSubTimer w)")
    case True
    from Entity_OnTimer_returns [OF assms, of p w] obtain r where
      r: "Entity_OnTimer env now p w = Some r" "\<forall>w'. r = Inr w' \<longrightarrow> fewer now w w'" by blast
    show ?thesis
    proof (cases r)
      case (Inl f)
      then show ?thesis using r True by simp
    next
      case (Inr w1)
      from Cons [of w1] obtain r2 where "ActorTimer_set env now ps w1 = Some r2"
          "\<forall>w'. r2 = Inr w' \<longrightarrow> fewer now w1 w'" by blast
      then show ?thesis using r True Inr fewer_trans by auto
    qed
  next
    case False
    then show ?thesis using Cons [of w] by simp
  qed
qed

text \<open>
  C20. \<open>ActorTimer::OnTimer\<close> returns, in every state and whatever else the handlers do, when
  the timers they add are due later than the time given to it: each round uses up a due time.
\<close>

theorem on_timer_returns:
  assumes "handlers_later env now"
  shows "\<exists>r. ActorTimer_OnTimer env now w = Some r"
proof (induction "due_count now (m_mTimer w)" arbitrary: w rule: less_induct)
  case less
  show ?case
  proof (cases "m_mTimer w = [] \<or> now < fst (hd (m_mTimer w))")
    case True
    then show ?thesis by (subst ActorTimer_OnTimer.simps) simp
  next
    case False
    then obtain t ps m where m: "m_mTimer w = (t, ps) # m" "t \<le> now"
      by (cases "m_mTimer w") (auto simp: not_less)
    let ?w = "w\<lparr>m_mTimer := m\<rparr>"
    have step: "ActorTimer_OnTimer env now w = (case ActorTimer_set env now ps ?w of
        None \<Rightarrow> None | Some (Inl e) \<Rightarrow> Some (Inl e) | Some (Inr w) \<Rightarrow> ActorTimer_OnTimer env now w)"
      using m by (subst ActorTimer_OnTimer.simps) (simp add: leD)
    from ActorTimer_set_returns [OF assms, of ps ?w] obtain r where
      r: "ActorTimer_set env now ps ?w = Some r" "\<forall>w'. r = Inr w' \<longrightarrow> fewer now ?w w'" by blast
    show ?thesis
    proof (cases r)
      case (Inl f)
      then show ?thesis using step r by simp
    next
      case (Inr w1)
      then have "due_count now (m_mTimer w1) \<le> due_count now m" using r(2) by (simp add: fewer_def)
      then have "due_count now (m_mTimer w1) < due_count now (m_mTimer w)" using m by simp
      from less [OF this] step r Inr show ?thesis by simp
    qed
  qed
qed

theorem on_timer_returns_witness:
  "\<forall>w. \<exists>r. ActorTimer_OnTimer (demo_timers\<lparr>acts := \<lambda>h _. if h = 0 then [Op_destroy 1, Op_copy 3 2] else []\<rparr>) 50 w = Some r"
  by (rule allI, rule on_timer_returns) (simp add: handlers_later_def adds_later_def)


section \<open>Timers that are not called\<close>

lemma Ticks_idle: "m_mTimer w = [] \<Longrightarrow> timer_run env (map Tick nows) w = Some (Inr w)"
  by (induction nows) (simp_all add: ActorTimer_OnTimer.simps)

lemma timer_run_append:
  "timer_run env (xs @ ys) w =
     (case timer_run env xs w of None \<Rightarrow> None | Some (Inl e) \<Rightarrow> Some (Inl e) | Some (Inr w) \<Rightarrow> timer_run env ys w)"
  by (induction xs arbitrary: w) (auto split: option.splits sum.splits)

text \<open>
  A later timer is lost: a \<open>SubTimer\<close> that asks for two times is woken for the earlier one
  only. After that call its entity waits for no time and counts as running a handler, so the
  second handler is never called, at whatever times \<open>OnTimer\<close> is called, and the entity is never
  freed when the \<open>SubTimer\<close> is destroyed.
\<close>

theorem later_timer_lost:
  assumes "\<And>h t. acts env h t = []"
    and "d1 + clock env 0 < d2 + clock env 1" and "d1 + clock env 0 \<le> now" and "now < d2 + clock env 1"
  shows "\<exists>w p. timer_run env ([Call (Op_make s), Call (Op_add s d1 h1), Call (Op_add s d2 h2), Tick now] @
        map Tick nows @ [Call (Op_destroy s)] @ map Tick nows') timers_init = Some (Inr w) \<and>
      m_calls w = [(p, d1 + clock env 0, h1, now)] \<and> m_subs w = [] \<and>
      m_ents w = [(p, \<lparr> e_mTimer = [(d2 + clock env 1, [h2])], m_bDelete = True, m_bHandleing = True \<rparr>)]"
proof -
  define p where "p = alloc env []"
  define t1 t2 where "t1 = d1 + clock env 0" and "t2 = d2 + clock env 1"
  have t: "t1 < t2" "t1 \<le> now" "now < t2" using assms by (simp_all add: t1_def t2_def)
  have t2': "d2 + clock env (Suc 0) = t2" "t1 \<noteq> t2" "t2 \<noteq> t1" using t by (auto simp: t2_def)
  let ?w0 = "\<lparr> m_ents = [(p, \<lparr> e_mTimer = [(t1, [h1]), (t2, [h2])], m_bDelete = False, m_bHandleing = False \<rparr>)],
    m_setSubTimer = [p], m_mTimer = [(t1, [p])], m_subs = [(s, Some p)], m_asked = [t1], m_reads = 2, m_calls = [] \<rparr>"
  let ?w1 = "\<lparr> m_ents = [(p, \<lparr> e_mTimer = [(t2, [h2])], m_bDelete = False, m_bHandleing = True \<rparr>)],
    m_setSubTimer = [p], m_mTimer = [], m_subs = [(s, Some p)], m_asked = [t1], m_reads = 2,
    m_calls = [(p, t1, h1, now)] \<rparr>"
  let ?w2 = "?w1\<lparr>m_subs := [], m_ents := [(p, \<lparr> e_mTimer = [(t2, [h2])], m_bDelete = True, m_bHandleing = True \<rparr>)]\<rparr>"
  have w0: "timer_run env [Call (Op_make s), Call (Op_add s d1 h1), Call (Op_add s d2 h2)] timers_init = Some (Inr ?w0)"
    using t by (simp add: timers_init_def SubTimer_make_def Entity_make_def Let_def fresh_sub_def put_ent_def
        RegistSubTimer_def set_ins_def SubTimer_AddTimer_def sub_def Entity_AddTimer_def ent_def
        ActorTimer_AddTimer_def numeral_2_eq_2 less_not_sym t2' flip: p_def t1_def)
  have loop: "Entity_loop env now p (put_ent p \<lparr> e_mTimer = [(t1, [h1]), (t2, [h2])], m_bDelete = False,
      m_bHandleing = True \<rparr> (?w0\<lparr>m_mTimer := []\<rparr>)) = Some (Inr (True, ?w1))"
  proof -
    have "Entity_loop env now p ?w1 = Some (Inr (True, ?w1))"
      using t by (subst Entity_loop.simps) (simp add: ent_def)
    then show ?thesis
      using t assms(1) by (subst Entity_loop.simps) (simp add: put_ent_def ent_def leD)
  qed
  have tick: "timer_run env [Tick now] ?w0 = Some (Inr ?w1)"
    using t loop
    by (simp add: ActorTimer_OnTimer.simps [of env now ?w0] ActorTimer_OnTimer.simps [of env now ?w1]
        Entity_OnTimer_def ent_def leD)
  have destroy: "do_op env (Op_destroy s) ?w1 = Inr ?w2"
    by (simp add: SubTimer_destroy_def Entity_Delete_def ent_def put_ent_def Let_def)
  have "timer_run env ([Call (Op_make s), Call (Op_add s d1 h1), Call (Op_add s d2 h2)] @ [Tick now] @
      map Tick nows @ [Call (Op_destroy s)] @ map Tick nows') timers_init = Some (Inr ?w2)"
    using destroy
    by (simp only: timer_run_append w0 tick option.case sum.case) (simp add: Ticks_idle)
  then show ?thesis unfolding t1_def t2_def by auto
qed

theorem later_timer_lost_witness:
  "\<exists>w. timer_run (demo_timers\<lparr>acts := \<lambda>_ _. []\<rparr>)
      [Call (Op_make 1), Call (Op_add 1 5 7), Call (Op_add 1 50 8), Tick 20, Tick 70, Tick 80, Call (Op_destroy 1)] timers_init =
      Some (Inr w) \<and> map (\<lambda>(p, due, h, now). h) (m_calls w) = [7]"
  using later_timer_lost [of "demo_timers\<lparr>acts := \<lambda>_ _. []\<rparr>" 5 50 20 1 7 8 "[70, 80]" "[]"]
  by (auto simp: demo_timers_def)


section \<open>Handlers that call OnTimer\<close>

text \<open>
  What a handler may do besides: call \<open>SubTimer::OnTimer\<close>, which is public. The loops are the
  ones above, with such calls inside; the number bounds the depth of calls and the rounds of a
  loop, and \<open>None\<close> is a bound that does not suffice.
\<close>

datatype 'h handler_act = Do "'h timer_op" | Do_tick nat u64

fun nested_acts ::
  "'h timer_env \<Rightarrow> (u64 \<Rightarrow> nat \<Rightarrow> 'h timers \<Rightarrow> 'h timers res option) \<Rightarrow> 'h handler_act list \<Rightarrow> 'h timers \<Rightarrow>
   'h timers res option" where
  "nested_acts env tick [] w = Some (Inr w)"
| "nested_acts env tick (Do op # as) w =
     (case do_op env op w of Inl e \<Rightarrow> Some (Inl e) | Inr w \<Rightarrow> nested_acts env tick as w)"
| "nested_acts env tick (Do_tick s now # as) w =
     (case sub s w of
        Inl e \<Rightarrow> Some (Inl e)
      | Inr p \<Rightarrow>
          (case tick now p w of
             None \<Rightarrow> None
           | Some (Inl e) \<Rightarrow> Some (Inl e)
           | Some (Inr w) \<Rightarrow> nested_acts env tick as w))"

fun nested_handles ::
  "('h \<Rightarrow> 'h timers \<Rightarrow> 'h timers res option) \<Rightarrow> u64 \<Rightarrow> u64 \<Rightarrow> nat \<Rightarrow> 'h list \<Rightarrow> 'h timers \<Rightarrow> 'h timers res option" where
  "nested_handles run due now p [] w = Some (Inr w)"
| "nested_handles run due now p (h # hs) w =
     (case ent p w of
        Inl e \<Rightarrow> Some (Inl e)
      | Inr e \<Rightarrow>
          (if m_bDelete e then Some (Inr w)
           else (case run h (w\<lparr>m_calls := m_calls w @ [(p, due, h, now)]\<rparr>) of
                   None \<Rightarrow> None
                 | Some (Inl e) \<Rightarrow> Some (Inl e)
                 | Some (Inr w) \<Rightarrow> nested_handles run due now p hs w)))"

fun nested_loop ::
  "nat \<Rightarrow> ('h \<Rightarrow> 'h timers \<Rightarrow> 'h timers res option) \<Rightarrow> u64 \<Rightarrow> nat \<Rightarrow> 'h timers \<Rightarrow> (bool \<times> 'h timers) res option" where
  "nested_loop 0 run now p w = None"
| "nested_loop (Suc n) run now p w =
     (case ent p w of
        Inl e \<Rightarrow> Some (Inl e)
      | Inr e \<Rightarrow>
          (if e_mTimer e = [] \<or> m_bDelete e then Some (Inr (False, w))
           else if now < fst (hd (e_mTimer e)) then Some (Inr (True, w))
           else (case nested_handles run (fst (hd (e_mTimer e))) now p (snd (hd (e_mTimer e)))
                   (put_ent p (e\<lparr>e_mTimer := tl (e_mTimer e)\<rparr>) w) of
                   None \<Rightarrow> None
                 | Some (Inl e) \<Rightarrow> Some (Inl e)
                 | Some (Inr w) \<Rightarrow> nested_loop n run now p w)))"

fun nested_OnTimer ::
  "nat \<Rightarrow> 'h timer_env \<Rightarrow> ('h \<Rightarrow> u64 \<Rightarrow> 'h handler_act list) \<Rightarrow> u64 \<Rightarrow> nat \<Rightarrow> 'h timers \<Rightarrow>
   'h timers res option" where
  "nested_OnTimer 0 env act now p w = None"
| "nested_OnTimer (Suc n) env act now p w =
     (case ent p w of
        Inl e \<Rightarrow> Some (Inl e)
      | Inr e \<Rightarrow>
          map_option (\<lambda>r. rbind r (\<lambda>(returned, w).
              if returned then Inr w
              else rbind (ent p w) (\<lambda>e.
                (let w = put_ent p (e\<lparr>m_bHandleing := False\<rparr>) w in
                 if m_bDelete e then Inr (Entity_free p w) else Inr w))))
            (nested_loop n (\<lambda>h. nested_acts env (nested_OnTimer n env act) (act h now)) now p
              (put_ent p (e\<lparr>m_bHandleing := True\<rparr>) w)))"

text \<open>For handlers that do not call \<open>OnTimer\<close> the result, when there is one, is that of the model above.\<close>

lemma nested_acts_plain: "nested_acts env tick (map Do ops) w = Some (rfold (do_op env) ops w)"
  by (induction ops arbitrary: w) (auto simp: rbind_def split: sum.splits)

lemma nested_handles_plain:
  assumes "\<And>h w. run h w = Some (rfold (do_op env) (acts env h now) w)"
  shows "nested_handles run due now p hs w = Some (Entity_handles env due now p hs w)"
  by (induction hs arbitrary: w) (auto simp: assms rbind_def split: sum.splits)

lemma nested_loop_plain:
  assumes "\<And>h w. run h w = Some (rfold (do_op env) (acts env h now) w)"
  shows "nested_loop n run now p w = Some r \<Longrightarrow> Entity_loop env now p w = Some r"
proof (induction n arbitrary: w)
  case (Suc n)
  then show ?case
    by (subst Entity_loop.simps)
       (auto simp: nested_handles_plain [OF assms] split: sum.splits if_splits)
qed simp

lemma nested_plain:
  "nested_OnTimer n env (\<lambda>h t. map Do (acts env h t)) now p w = Some r \<Longrightarrow> Entity_OnTimer env now p w = Some r"
proof (cases n)
  case (Suc k)
  let ?run = "\<lambda>h. nested_acts env (nested_OnTimer k env (\<lambda>h t. map Do (acts env h t))) (map Do (acts env h now))"
  have "?run h w = Some (rfold (do_op env) (acts env h now) w)" for h w by (rule nested_acts_plain)
  note loop = nested_loop_plain [of ?run, OF this]
  assume "nested_OnTimer n env (\<lambda>h t. map Do (acts env h t)) now p w = Some r"
  then show ?thesis
    by (auto simp: Suc Entity_OnTimer_def dest!: loop split: sum.splits)
qed simp

text \<open>
  A handler that calls the \<open>OnTimer\<close> of its own timer and then destroys the timer reaches a
  freed entity: the inner call sets \<open>m_bHandleing\<close> to false, so that the destruction frees the
  entity at once, and the outer loop goes on with it.
\<close>

theorem nested_tick_frees:
  "case timer_run demo_timers [Call (Op_make 1), Call (Op_add 1 5 0)] timers_init of
     Some (Inr w) \<Rightarrow> nested_OnTimer 9 demo_timers (\<lambda>h now. [Do_tick 1 now, Do (Op_destroy 1)]) 20 1 w = Some (Inl Out_of_range)
   | _ \<Rightarrow> False"
  by code_simp

end
