(* ===== verification/Net.thy ===== *)
theory Net
  imports Gm_Prelude "HOL-Library.Multiset" "HOL-Library.Char_ord"
begin

text \<open>
  \<open>LibActor/BoostNet/*\<close> and the connection of \<open>LibActor/EndPoint.*\<close>: packets, the pool of
  services, and a session as a state machine whose asynchronous operations are pending until
  the service completes one of them, with success or with an error. The Boost library is not
  part of the sources modelled: an operation that was started is an element of \<open>m_pending\<close>, and
  any of them may complete next, in any way.
\<close>

section \<open>Packets\<close>

type_synonym packet = string

definition u16_bytes :: "u16 \<Rightarrow> string" where
  "u16_bytes n = [char_of (unat n mod 256), char_of (unat n div 256)]"

definition bytes_u16 :: "string \<Rightarrow> nat" where
  "bytes_u16 s = of_char (s ! 0) + 256 * of_char (s ! 1)"

text \<open>The two constructors of \<open>NetPacket\<close>; the first leaves one byte after the message.\<close>

definition NetPacket_size :: "u16 \<Rightarrow> packet" where
  "NetPacket_size iSize = u16_bytes iSize @ replicate (unat iSize + 1) (CHR 0x00)"

definition NetPacket_make :: "string \<Rightarrow> packet" where
  "NetPacket_make strMsg = u16_bytes (of_nat (length strMsg)) @ strMsg"

definition GetDataPtr :: "packet \<Rightarrow> string" where
  "GetDataPtr m_strMsg = drop 2 m_strMsg"

definition GetSize :: "packet \<Rightarrow> u16" where
  "GetSize m_strMsg = of_nat (length m_strMsg)"

definition GetBuffPtr :: "packet \<Rightarrow> string" where
  "GetBuffPtr m_strMsg = m_strMsg"

text \<open>What \<open>WriteData(GetBuffPtr(), GetSize(), ...)\<close> puts on the wire.\<close>

definition packet_bytes :: "packet \<Rightarrow> string" where
  "packet_bytes p = take (unat (GetSize p)) (GetBuffPtr p)"


section \<open>The pool of services\<close>

text \<open>Per service whether it was stopped, and per thread whether it can be joined.\<close>

record io_pool =
  m_vService :: "bool list"
  m_vThreads :: "bool list"
  m_pSignals :: bool
  m_iNextIoServiceIndex :: nat
  m_bStop :: bool

definition IOServicePool_make :: "nat \<Rightarrow> io_pool res" where
  "IOServicePool_make pool_size =
     (if pool_size = 0 then Inl (Throw ''io_service_pool size is 0'')
      else Inr \<lparr> m_vService = replicate pool_size False, m_vThreads = [], m_pSignals = False,
        m_iNextIoServiceIndex = 0, m_bStop = True \<rparr>)"

definition GetIOService :: "io_pool \<Rightarrow> (nat \<times> io_pool) res" where
  "GetIOService p =
     (if length (m_vService p) \<le> m_iNextIoServiceIndex p then Inl Out_of_range
      else Inr (m_iNextIoServiceIndex p,
        p\<lparr>m_iNextIoServiceIndex := (if Suc (m_iNextIoServiceIndex p) = length (m_vService p) then 0
                                     else Suc (m_iNextIoServiceIndex p))\<rparr>))"

definition IOServicePool_Run :: "io_pool \<Rightarrow> io_pool res" where
  "IOServicePool_Run p =
     (let p = p\<lparr>m_vThreads := m_vThreads p @ map (\<lambda>_. True) (m_vService p)\<rparr> in
      rbind (GetIOService p) (\<lambda>(_, p). Inr (p\<lparr>m_pSignals := True, m_bStop := False\<rparr>)))"

text \<open>Joining a thread a second time throws.\<close>

definition IOServicePool_Stop :: "io_pool \<Rightarrow> io_pool res" where
  "IOServicePool_Stop p =
     (let p = p\<lparr>m_vService := map (\<lambda>_. True) (m_vService p)\<rparr> in
      if list_all (\<lambda>j. j) (m_vThreads p)
      then Inr (p\<lparr>m_vThreads := map (\<lambda>_. False) (m_vThreads p), m_bStop := True\<rparr>)
      else Inl (Throw ''invalid argument''))"

definition IOServicePool_destroy :: "io_pool \<Rightarrow> io_pool res" where
  "IOServicePool_destroy p = (if \<not> m_bStop p then IOServicePool_Stop p else Inr p)"

definition RegistStopSignalHandle :: "io_pool \<Rightarrow> unit res" where
  "RegistStopSignalHandle p = (if m_pSignals p then Inr () else Inl Null_deref)"


section \<open>Sessions\<close>

text \<open>A member of type \<open>std::function\<close>: empty (a call throws), without effect, or the client's.\<close>

datatype handle = Unset | Noop | User

datatype net_op = Head_op | Body_op nat | Write_op packet | Connect_op | Deadline_op

text \<open>
  A session. \<open>m_iPackLen\<close> is not written by the constructor. The packets that are being read are
  on the heap by number; \<open>m_pReadMsg\<close> points to the last one. To state properties: the lengths and
  the packets written, and the packets handed to the client (\<open>None\<close> is a null pointer).
\<close>

record session =
  m_iPackLen :: u16
  m_pReadMsg :: "nat option"
  m_heap :: "(nat \<times> packet) list"
  m_listSend :: "packet list"
  m_OnDisconnectHandle :: handle
  m_OnMsgHandle :: handle
  m_open :: bool
  m_pending :: "net_op list"
  m_heads :: "string list"
  m_wire :: "string list"
  m_msgs :: "packet option list"

text \<open>What the client's functions do to the session.\<close>

record 'a callbacks =
  cb_disconnect :: "'a session_scheme \<Rightarrow> 'a session_scheme res"
  cb_connect :: "bool \<Rightarrow> 'a session_scheme \<Rightarrow> 'a session_scheme res"

definition TCPSession_make :: "u16 \<Rightarrow> session" where
  "TCPSession_make junk =
     \<lparr> m_iPackLen = junk, m_pReadMsg = None, m_heap = [], m_listSend = [], m_OnDisconnectHandle = Unset,
       m_OnMsgHandle = Unset, m_open = True, m_pending = [], m_heads = [], m_wire = [], m_msgs = [] \<rparr>"

definition start :: "net_op \<Rightarrow> 'a session_scheme \<Rightarrow> 'a session_scheme" where
  "start op s = s\<lparr>m_pending := m_pending s @ [op]\<rparr>"

text \<open>\<open>ReadHead\<close> of the connection starts an \<open>async_write\<close> of the two bytes of \<open>m_iPackLen\<close>.\<close>

definition ReadHead :: "'a session_scheme \<Rightarrow> 'a session_scheme" where
  "ReadHead s = start Head_op s"

definition ReadBody :: "'a session_scheme \<Rightarrow> 'a session_scheme" where
  "ReadBody s =
     (let p = Suc (foldr max (map fst (m_heap s)) 0) in
      start (Body_op p) (s\<lparr>m_heap := (p, NetPacket_size (m_iPackLen s)) # m_heap s, m_pReadMsg := Some p\<rparr>))"

definition SetDisconnctHandle :: "'a session_scheme \<Rightarrow> 'a session_scheme" where
  "SetDisconnctHandle s = s\<lparr>m_OnDisconnectHandle := User\<rparr>"

definition SetOnMsgHandle :: "'a session_scheme \<Rightarrow> 'a session_scheme" where
  "SetOnMsgHandle s = s\<lparr>m_OnMsgHandle := User\<rparr>"

definition Connection_Close :: "'a session_scheme \<Rightarrow> 'a session_scheme" where
  "Connection_Close s = s\<lparr>m_open := False\<rparr>"

definition DisConnect :: "'a session_scheme \<Rightarrow> 'a session_scheme" where
  "DisConnect s = Connection_Close (s\<lparr>m_OnMsgHandle := Noop, m_OnDisconnectHandle := Noop\<rparr>)"

text \<open>\<open>pop_front\<close> is called on an empty list, too.\<close>

definition DoSend :: "'a session_scheme \<Rightarrow> 'a session_scheme res" where
  "DoSend s =
     (case m_listSend s of
        [] \<Rightarrow> Inl Empty_pop
      | p # ps \<Rightarrow> Inr (start (Write_op p) (s\<lparr>m_listSend := ps\<rparr>)))"

text \<open>
  The locked part of \<open>SendPacket\<close> and \<open>SendPacketList\<close>: whether the list was empty, and the
  packets appended. \<open>DoSend\<close> takes the lock anew.
\<close>

definition queue_packets :: "packet list \<Rightarrow> 'a session_scheme \<Rightarrow> bool \<times> 'a session_scheme" where
  "queue_packets listPacket s = (m_listSend s = [], s\<lparr>m_listSend := m_listSend s @ listPacket\<rparr>)"

definition SendPacketList :: "packet list \<Rightarrow> 'a session_scheme \<Rightarrow> 'a session_scheme res" where
  "SendPacketList listPacket s =
     (let (bDoSend, s) = queue_packets listPacket s in if bDoSend then DoSend s else Inr s)"

definition SendPacket :: "packet \<Rightarrow> 'a session_scheme \<Rightarrow> 'a session_scheme res" where
  "SendPacket pPacket s =
     (let (bDoSend, s) = queue_packets [pPacket] s in if bDoSend then DoSend s else Inr s)"

definition CancelDeadLineTimer :: "'a session_scheme \<Rightarrow> 'a session_scheme" where
  "CancelDeadLineTimer s = s\<lparr>m_pending := removeAll Deadline_op (m_pending s)\<rparr>"

text \<open>A new time cancels the wait for the old one.\<close>

definition SetDeadLineTimer :: "'a session_scheme \<Rightarrow> 'a session_scheme" where
  "SetDeadLineTimer s = start Deadline_op (CancelDeadLineTimer s)"

definition OnConnect :: "'a session_scheme \<Rightarrow> 'a session_scheme" where
  "OnConnect s = SetDeadLineTimer (ReadHead s)"

definition ConnectServer :: "'a session_scheme \<Rightarrow> 'a session_scheme" where
  "ConnectServer s = start Connect_op s"

definition bad_function_call :: fault where
  "bad_function_call = Throw ''bad function call''"

definition call_disconnect :: "'a callbacks \<Rightarrow> 'a session_scheme \<Rightarrow> 'a session_scheme res" where
  "call_disconnect cb s =
     (case m_OnDisconnectHandle s of Unset \<Rightarrow> Inl bad_function_call | Noop \<Rightarrow> Inr s | User \<Rightarrow> cb_disconnect cb s)"

definition call_msg :: "'a session_scheme \<Rightarrow> 'a session_scheme res" where
  "call_msg s =
     (case m_OnMsgHandle s of
        Unset \<Rightarrow> Inl bad_function_call
      | Noop \<Rightarrow> Inr s
      | User \<Rightarrow> Inr (s\<lparr>m_msgs := m_msgs s @ [map_option (\<lambda>p. case map_of (m_heap s) p of None \<Rightarrow> [] | Some m \<Rightarrow> m) (m_pReadMsg s)]\<rparr>))"

definition disconnected :: "'a callbacks \<Rightarrow> 'a session_scheme \<Rightarrow> 'a session_scheme res" where
  "disconnected cb s = call_disconnect cb (Connection_Close s)"

text \<open>
  The handlers of the operations. A read of the body fills the message of the packet it was
  started for, which is its buffer less two bytes of length and the last one.
\<close>

definition fill_packet :: "string \<Rightarrow> packet \<Rightarrow> packet" where
  "fill_packet bytes m = (let n = min (length bytes) (length m - 3) in take 2 m @ take n bytes @ drop (2 + n) m)"

definition on_head :: "'a callbacks \<Rightarrow> bool \<Rightarrow> 'a session_scheme \<Rightarrow> 'a session_scheme res" where
  "on_head cb ok s =
     rbind (if ok then Inr (ReadBody (s\<lparr>m_heads := m_heads s @ [u16_bytes (m_iPackLen s)]\<rparr>)) else disconnected cb s)
       (\<lambda>s. Inr (CancelDeadLineTimer s))"

definition on_body :: "'a callbacks \<Rightarrow> bool \<Rightarrow> string \<Rightarrow> nat \<Rightarrow> 'a session_scheme \<Rightarrow> 'a session_scheme res" where
  "on_body cb ok bytes p s =
     (if ok
      then (let s = s\<lparr>m_heap := map (\<lambda>(q, m). (q, if q = p then fill_packet bytes m else m)) (m_heap s)\<rparr>
            in rbind (call_msg s) (\<lambda>s. Inr (ReadHead (s\<lparr>m_pReadMsg := None\<rparr>))))
      else disconnected cb s)"

definition on_write :: "'a callbacks \<Rightarrow> bool \<Rightarrow> packet \<Rightarrow> 'a session_scheme \<Rightarrow> 'a session_scheme res" where
  "on_write cb ok p s =
     (if ok then DoSend (s\<lparr>m_wire := m_wire s @ [packet_bytes p]\<rparr>)
      else disconnected cb (s\<lparr>m_listSend := p # m_listSend s\<rparr>))"

definition on_connect :: "'a callbacks \<Rightarrow> bool \<Rightarrow> 'a session_scheme \<Rightarrow> 'a session_scheme res" where
  "on_connect cb ok s = rbind (if ok then DoSend (ReadBody s) else Inr s) (cb_connect cb ok)"

definition on_deadline :: "'a callbacks \<Rightarrow> bool \<Rightarrow> 'a session_scheme \<Rightarrow> 'a session_scheme res" where
  "on_deadline cb ok s = (if ok then rbind (call_disconnect cb s) (\<lambda>s. Inr (DisConnect s)) else Inr s)"

text \<open>The completion of the pending operation number \<open>i\<close>.\<close>

definition complete :: "'a callbacks \<Rightarrow> nat \<Rightarrow> bool \<Rightarrow> string \<Rightarrow> 'a session_scheme \<Rightarrow> 'a session_scheme res" where
  "complete cb i ok bytes s =
     (if length (m_pending s) \<le> i then Inr s
      else
        (let op = m_pending s ! i; s = s\<lparr>m_pending := take i (m_pending s) @ drop (Suc i) (m_pending s)\<rparr> in
         case op of
           Head_op \<Rightarrow> on_head cb ok s
         | Body_op p \<Rightarrow> on_body cb ok bytes p s
         | Write_op p \<Rightarrow> on_write cb ok p s
         | Connect_op \<Rightarrow> on_connect cb ok s
         | Deadline_op \<Rightarrow> on_deadline cb ok s))"


section \<open>The server\<close>

text \<open>The session being accepted, and those that were.\<close>

record tcp_server =
  m_pIOServicePool :: io_pool
  m_NewConnect :: "session option"
  m_accepted :: "session list"

definition StartAccept :: "u16 \<Rightarrow> tcp_server \<Rightarrow> tcp_server res" where
  "StartAccept junk v =
     rbind (GetIOService (m_pIOServicePool v)) (\<lambda>(_, p).
       Inr (v\<lparr>m_pIOServicePool := p, m_NewConnect := Some (TCPSession_make junk)\<rparr>))"

definition TCPServer_make :: "u16 \<Rightarrow> io_pool \<Rightarrow> tcp_server res" where
  "TCPServer_make junk pool =
     rbind (GetIOService pool) (\<lambda>(_, p).
       StartAccept junk \<lparr> m_pIOServicePool = p, m_NewConnect = None, m_accepted = [] \<rparr>)"

definition on_accept :: "u16 \<Rightarrow> bool \<Rightarrow> tcp_server \<Rightarrow> tcp_server res" where
  "on_accept junk ok v =
     (case m_NewConnect v of
        None \<Rightarrow> Inl Null_deref
      | Some s \<Rightarrow> StartAccept junk (if ok then v\<lparr>m_accepted := m_accepted v @ [OnConnect s]\<rparr> else v))"


section \<open>The end point\<close>

text \<open>
  The constructor of \<open>EndPoint\<close> calls \<open>shared_from_this\<close>, which throws while no \<open>shared_ptr\<close> owns
  the object. The connection is modelled from a session whose handle was set, as the
  constructor would set it.
\<close>

record endpoint = session +
  m_strIP :: string
  m_strPort :: string
  m_bShutDown :: bool

definition EndPoint_make :: "io_pool \<Rightarrow> endpoint res" where
  "EndPoint_make pool = rbind (GetIOService pool) (\<lambda>_. Inl (Throw ''bad_weak_ptr''))"

definition DoConnect :: "(string \<Rightarrow> string \<Rightarrow> bool) \<Rightarrow> endpoint \<Rightarrow> endpoint res" where
  "DoConnect resolve s =
     (if resolve (m_strIP s) (m_strPort s) then Inr (ConnectServer s) else Inl (Throw ''resolve''))"

definition EndPoint_Connect :: "(string \<Rightarrow> string \<Rightarrow> bool) \<Rightarrow> string \<Rightarrow> string \<Rightarrow> endpoint \<Rightarrow> endpoint res" where
  "EndPoint_Connect resolve strIP strPort s = DoConnect resolve (s\<lparr>m_strIP := strIP, m_strPort := strPort\<rparr>)"

definition EndPoint_DisConnect :: "endpoint \<Rightarrow> endpoint" where
  "EndPoint_DisConnect s = (DisConnect s)\<lparr>m_bShutDown := True\<rparr>"

definition OnDisconnect :: "(string \<Rightarrow> string \<Rightarrow> bool) \<Rightarrow> endpoint \<Rightarrow> endpoint res" where
  "OnDisconnect resolve s = (if \<not> m_bShutDown s then DoConnect resolve s else Inr s)"

definition on_connect_result :: "(string \<Rightarrow> string \<Rightarrow> bool) \<Rightarrow> bool \<Rightarrow> endpoint \<Rightarrow> endpoint res" where
  "on_connect_result resolve bSucc s =
     rbind (if \<not> bSucc \<and> \<not> m_bShutDown s then DoConnect resolve s else Inr s)
       (\<lambda>s. Inr (if bSucc \<and> \<not> m_bShutDown s then SetOnMsgHandle s else s))"

definition endpoint_callbacks ::
  "(string \<Rightarrow> string \<Rightarrow> bool) \<Rightarrow> \<lparr>m_strIP :: string, m_strPort :: string, m_bShutDown :: bool\<rparr> callbacks" where
  "endpoint_callbacks resolve =
     \<lparr> cb_disconnect = OnDisconnect resolve, cb_connect = on_connect_result resolve \<rparr>"



section \<open>Packets on the wire\<close>

lemma bytes_u16: "bytes_u16 (u16_bytes n @ s) = unat n"
proof -
  have n: "unat n < 65536" using unsigned_less [of n, where ?'a = nat] by simp
  then have "unat n div 256 < 256" by (simp add: div_less_iff_less_mult)
  then show ?thesis by (simp add: bytes_u16_def u16_bytes_def of_char_of)
qed

lemma length_u16_bytes [simp]: "length (u16_bytes n) = 2"
  by (simp add: u16_bytes_def)

lemma unat_u16: "unat (of_nat n :: u16) = n mod 65536"
  by (simp add: unat_of_nat)

text \<open>
  A packet made of a message of fewer than 65534 bytes is written as the length of the
  message, low byte first, and the message; of a longer message the number of bytes written is
  its length and two more, modulo 65536. A packet of the other constructor counts one byte more
  than its message and length.
\<close>

theorem packet_wire_format:
  "length (packet_bytes (NetPacket_make m)) = (length m + 2) mod 65536 \<and>
   (length m < 65534 \<longrightarrow> bytes_u16 (packet_bytes (NetPacket_make m)) = length m \<and>
      GetDataPtr (packet_bytes (NetPacket_make m)) = m) \<and>
   unat (GetSize (NetPacket_size n)) = (unat n + 3) mod 65536"
proof -
  have len: "length (NetPacket_make m) = length m + 2" "length (NetPacket_size n) = unat n + 3"
    by (simp_all add: NetPacket_make_def NetPacket_size_def)
  have small: "packet_bytes (NetPacket_make m) = NetPacket_make m" if "length m < 65534"
  proof -
    have "unat (GetSize (NetPacket_make m)) = length m + 2"
      using that by (simp only: GetSize_def len unat_u16) simp
    then show ?thesis by (simp add: packet_bytes_def GetBuffPtr_def len)
  qed
  have "bytes_u16 (NetPacket_make m) = length m \<and> GetDataPtr (NetPacket_make m) = m" if "length m < 65534"
    using that by (simp add: NetPacket_make_def bytes_u16 unat_u16 GetDataPtr_def)
  moreover have "length (packet_bytes (NetPacket_make m)) = (length m + 2) mod 65536"
  proof -
    have "unat (GetSize (NetPacket_make m)) = (length m + 2) mod 65536" by (simp only: GetSize_def len unat_u16)
    then show ?thesis by (simp add: packet_bytes_def GetBuffPtr_def len)
  qed
  moreover have "unat (GetSize (NetPacket_size n)) = (unat n + 3) mod 65536" by (simp only: GetSize_def len unat_u16)
  ultimately show ?thesis using small by simp
qed

theorem packet_wire_format_witness:
  "bytes_u16 (packet_bytes (NetPacket_make ''abc'')) = 3 \<and> GetDataPtr (packet_bytes (NetPacket_make ''abc'')) = ''abc''"
  using packet_wire_format [of "''abc''" 0] by simp


section \<open>Accounting of packets\<close>

fun writes :: "net_op list \<Rightarrow> packet list" where
  "writes [] = []"
| "writes (Write_op p # ops) = p # writes ops"
| "writes (_ # ops) = writes ops"

text \<open>The bytes of all packets of a session: queued, being written, and written.\<close>

definition account :: "'a session_scheme \<Rightarrow> string multiset" where
  "account s = image_mset packet_bytes (mset (m_listSend s) + mset (writes (m_pending s))) + mset (m_wire s)"

lemma writes_append [simp]: "writes (xs @ ys) = writes xs @ writes ys"
  by (induction xs rule: writes.induct) auto

lemma writes_deadline [simp]: "writes (removeAll Deadline_op ops) = writes ops"
  by (induction ops rule: writes.induct) auto

lemma writes_Cons: "writes (op # ops) = writes [op] @ writes ops"
  by (cases op) simp_all

lemma writes_nth:
  assumes "i < length ops"
  shows "mset (writes ops) = mset (writes (take i ops @ drop (Suc i) ops)) + mset (writes [ops ! i])"
proof -
  have "writes ops = writes (take i ops @ ops ! i # drop (Suc i) ops)"
    using id_take_nth_drop [OF assms] by simp
  also have "\<dots> = writes (take i ops) @ writes [ops ! i] @ writes (drop (Suc i) ops)"
    unfolding writes_append by (subst writes_Cons) (rule refl)
  finally show ?thesis by (simp add: ac_simps)
qed

definition keeps :: "'a session_scheme \<Rightarrow> 'a session_scheme \<Rightarrow> bool" where
  "keeps s s' \<longleftrightarrow> account s' = account s \<and> m_iPackLen s' = m_iPackLen s"

lemma keeps_refl [simp]: "keeps s s"
  by (simp add: keeps_def)

lemma keeps_trans: "keeps s1 s2 \<Longrightarrow> keeps s2 s3 \<Longrightarrow> keeps s1 s3"
  by (simp add: keeps_def)

text \<open>What a session relies on of its client's functions.\<close>

locale session_client =
  fixes cb :: "'a callbacks"
  assumes disconnect_keeps: "cb_disconnect cb s = Inr s' \<Longrightarrow> keeps s s'"
    and connect_keeps: "cb_connect cb ok s = Inr s' \<Longrightarrow> keeps s s'"
begin

lemma call_disconnect_keeps: "call_disconnect cb s = Inr s' \<Longrightarrow> keeps s s'"
  by (auto simp: call_disconnect_def split: handle.splits dest: disconnect_keeps)

lemma disconnected_keeps: "disconnected cb s = Inr s' \<Longrightarrow> keeps s s'"
  using call_disconnect_keeps [of "Connection_Close s" s']
  by (simp add: disconnected_def Connection_Close_def keeps_def account_def)

lemma DoSend_keeps: "DoSend s = Inr s' \<Longrightarrow> keeps s s'"
  by (auto simp: DoSend_def start_def keeps_def account_def split: list.splits)

lemma ReadBody_keeps: "keeps s (ReadBody s)"
  by (simp add: ReadBody_def start_def keeps_def account_def Let_def)

lemma on_head_keeps: "on_head cb ok s = Inr s' \<Longrightarrow> keeps s s'"
proof -
  assume r: "on_head cb ok s = Inr s'"
  have cancel: "keeps t (CancelDeadLineTimer t)" for t :: "'a session_scheme"
    by (simp add: CancelDeadLineTimer_def keeps_def account_def)
  show ?thesis
  proof (cases ok)
    case True
    have "keeps s (s\<lparr>m_heads := m_heads s @ [u16_bytes (m_iPackLen s)]\<rparr>)" by (simp add: keeps_def account_def)
    from keeps_trans [OF keeps_trans [OF this ReadBody_keeps] cancel] show ?thesis
      using r True by (simp add: on_head_def)
  next
    case False
    then obtain t where "disconnected cb s = Inr t" "s' = CancelDeadLineTimer t"
      using r by (auto simp: on_head_def rbind_Inr_conv)
    with keeps_trans [OF disconnected_keeps cancel] show ?thesis by blast
  qed
qed

lemma on_body_keeps: "on_body cb ok bytes p s = Inr s' \<Longrightarrow> keeps s s'"
proof (cases ok)
  case True
  assume "on_body cb ok bytes p s = Inr s'"
  with True show ?thesis
    by (auto simp: on_body_def Let_def rbind_Inr_conv call_msg_def ReadHead_def start_def keeps_def account_def
        split: handle.splits)
qed (simp add: on_body_def disconnected_keeps)

lemma complete_keeps:
  assumes "complete cb i ok bytes s = Inr s'"
  shows "keeps s s'"
proof (cases "i < length (m_pending s)")
  case False
  then show ?thesis using assms by (simp add: complete_def)
next
  case True
  let ?s = "s\<lparr>m_pending := take i (m_pending s) @ drop (Suc i) (m_pending s)\<rparr>"
  have acc: "account s = account ?s + image_mset packet_bytes (mset (writes [m_pending s ! i]))"
    using writes_nth [OF True] by (simp add: account_def)
  show ?thesis
  proof (cases "m_pending s ! i")
    case (Write_op p)
    show ?thesis
    proof (cases ok)
      case True
      then have "DoSend (?s\<lparr>m_wire := m_wire s @ [packet_bytes p]\<rparr>) = Inr s'"
        using assms \<open>i < length (m_pending s)\<close> Write_op by (simp add: complete_def on_write_def)
      from DoSend_keeps [OF this] show ?thesis using acc Write_op by (simp add: keeps_def account_def)
    next
      case False
      then have "disconnected cb (?s\<lparr>m_listSend := p # m_listSend s\<rparr>) = Inr s'"
        using assms \<open>i < length (m_pending s)\<close> Write_op by (simp add: complete_def on_write_def)
      from disconnected_keeps [OF this] show ?thesis using acc Write_op by (simp add: keeps_def account_def)
    qed
  next
    case Head_op
    then have "on_head cb ok ?s = Inr s'" using assms True by (simp add: complete_def)
    from on_head_keeps [OF this] show ?thesis using acc Head_op by (simp add: keeps_def)
  next
    case (Body_op p)
    then have "on_body cb ok bytes p ?s = Inr s'" using assms True by (simp add: complete_def)
    from on_body_keeps [OF this] show ?thesis using acc Body_op by (simp add: keeps_def)
  next
    case Connect_op
    then have "on_connect cb ok ?s = Inr s'" using assms True by (simp add: complete_def)
    then have "keeps ?s s'"
      using keeps_trans [OF keeps_trans [OF ReadBody_keeps DoSend_keeps] connect_keeps] connect_keeps
      by (auto simp: on_connect_def rbind_Inr_conv split: if_splits)
    then show ?thesis using acc Connect_op by (simp add: keeps_def)
  next
    case Deadline_op
    then have "on_deadline cb ok ?s = Inr s'" using assms True by (simp add: complete_def)
    then have "keeps ?s s'"
      using call_disconnect_keeps [of ?s]
      by (auto simp: on_deadline_def rbind_Inr_conv DisConnect_def Connection_Close_def keeps_def account_def split: if_splits)
    then show ?thesis using acc Deadline_op by (simp add: keeps_def)
  qed
qed

end

lemma ConnectServer_keeps: "keeps s (ConnectServer s)"
  by (simp add: ConnectServer_def start_def keeps_def account_def)

lemma DoConnect_keeps: "DoConnect resolve s = Inr s' \<Longrightarrow> keeps s s'"
  using ConnectServer_keeps by (auto simp: DoConnect_def split: if_splits)

interpretation ep: session_client "endpoint_callbacks resolve" for resolve
proof
  fix s s' :: endpoint
  assume "cb_disconnect (endpoint_callbacks resolve) s = Inr s'"
  then show "keeps s s'"
    using DoConnect_keeps by (auto simp: endpoint_callbacks_def OnDisconnect_def split: if_splits)
next
  fix ok and s s' :: endpoint
  assume "cb_connect (endpoint_callbacks resolve) ok s = Inr s'"
  then obtain s1 where s1: "(if \<not> ok \<and> \<not> m_bShutDown s then DoConnect resolve s else Inr s) = Inr s1"
      and "s' = (if ok \<and> \<not> m_bShutDown s1 then SetOnMsgHandle s1 else s1)"
    unfolding endpoint_callbacks_def on_connect_result_def by (auto simp: rbind_Inr_conv simp del: if_split)
  moreover have "keeps s s1" using s1 DoConnect_keeps by (simp split: if_splits)
  ultimately have "keeps s s1" "s' = (if ok \<and> \<not> m_bShutDown s1 then SetOnMsgHandle s1 else s1)" by blast+
  then show "keeps s s'" by (auto simp: SetOnMsgHandle_def keeps_def account_def)
qed


section \<open>Runs of an end point\<close>

text \<open>
  What happens to an end point: a thread queues packets, and calls \<open>DoSend\<close> later, when the
  list was empty, in a lock of its own; the client connects and disconnects; the service
  completes an operation. The number of threads between the two locks is kept beside the session.
\<close>

datatype net_event =
    Ev_queue "packet list"
  | Ev_dosend
  | Ev_connect string string
  | Ev_disconnect
  | Ev_complete nat bool string

fun do_event :: "(string \<Rightarrow> string \<Rightarrow> bool) \<Rightarrow> net_event \<Rightarrow> endpoint \<times> nat \<Rightarrow> (endpoint \<times> nat) res" where
  "do_event resolve (Ev_queue ps) (s, k) =
     (let (bDoSend, s) = queue_packets ps s in Inr (s, if bDoSend then Suc k else k))"
| "do_event resolve Ev_dosend (s, k) =
     (if k = 0 then Inr (s, k) else rbind (DoSend s) (\<lambda>s. Inr (s, k - 1)))"
| "do_event resolve (Ev_connect strIP strPort) (s, k) =
     rbind (EndPoint_Connect resolve strIP strPort s) (\<lambda>s. Inr (s, k))"
| "do_event resolve Ev_disconnect (s, k) = Inr (EndPoint_DisConnect s, k)"
| "do_event resolve (Ev_complete i ok bytes) (s, k) =
     rbind (complete (endpoint_callbacks resolve) i ok bytes s) (\<lambda>s. Inr (s, k))"

text \<open>A run: the events that were carried out, the state after them, and the fault of the next one.\<close>

fun net_run ::
  "(string \<Rightarrow> string \<Rightarrow> bool) \<Rightarrow> net_event list \<Rightarrow> endpoint \<times> nat \<Rightarrow> net_event list \<times> (endpoint \<times> nat) \<times> fault option" where
  "net_run resolve [] w = ([], w, None)"
| "net_run resolve (ev # evs) w =
     (case do_event resolve ev w of
        Inl f \<Rightarrow> ([], w, Some f)
      | Inr w' \<Rightarrow> (case net_run resolve evs w' of (past, rest) \<Rightarrow> (ev # past, rest)))"

fun queued :: "net_event list \<Rightarrow> packet list" where
  "queued [] = []"
| "queued (Ev_queue ps # evs) = ps @ queued evs"
| "queued (_ # evs) = queued evs"

text \<open>The events that take a packet from an empty list.\<close>

fun drains :: "net_event \<Rightarrow> endpoint \<times> nat \<Rightarrow> bool" where
  "drains Ev_dosend (s, k) \<longleftrightarrow> k \<noteq> 0 \<and> m_listSend s = []"
| "drains (Ev_complete i ok bytes) (s, k) \<longleftrightarrow>
     ok \<and> i < length (m_pending s) \<and> m_listSend s = [] \<and>
     (case m_pending s ! i of Write_op _ \<Rightarrow> True | Connect_op \<Rightarrow> True | _ \<Rightarrow> False)"
| "drains _ _ \<longleftrightarrow> False"

lemma event_account:
  assumes "do_event resolve ev (s, k) = Inr (s', k')"
  shows "account s' = account s + image_mset packet_bytes (mset (queued [ev])) \<and> m_iPackLen s' = m_iPackLen s"
proof (cases ev)
  case (Ev_queue ps)
  then show ?thesis using assms by (auto simp: queue_packets_def account_def)
next
  case Ev_dosend
  then show ?thesis
    using assms ep.DoSend_keeps [of s s'] by (auto simp: keeps_def rbind_Inr_conv split: if_splits)
next
  case (Ev_connect a b)
  then have "keeps (s\<lparr>m_strIP := a, m_strPort := b\<rparr>) s'"
    using assms DoConnect_keeps by (auto simp: EndPoint_Connect_def rbind_Inr_conv)
  then show ?thesis using Ev_connect by (simp add: keeps_def account_def)
next
  case Ev_disconnect
  then show ?thesis
    using assms by (auto simp: EndPoint_DisConnect_def DisConnect_def Connection_Close_def account_def)
next
  case (Ev_complete i ok bytes)
  then show ?thesis using assms ep.complete_keeps by (auto simp: keeps_def rbind_Inr_conv)
qed

lemma queued_Cons: "queued (ev # evs) = queued [ev] @ queued evs"
  by (cases ev) auto

lemma DoSend_fault: "DoSend s = Inl f \<longleftrightarrow> f = Empty_pop \<and> m_listSend s = []"
  by (auto simp: DoSend_def split: list.splits)

lemma DoConnect_fault: "DoConnect resolve s \<noteq> Inl Empty_pop"
  by (simp add: DoConnect_def)

lemma rbind_Inl_conv: "rbind x f = Inl e \<longleftrightarrow> x = Inl e \<or> (\<exists>v. x = Inr v \<and> f v = Inl e)"
  by (cases x) (auto simp: rbind_def)

lemma call_disconnect_fault: "call_disconnect (endpoint_callbacks resolve) s \<noteq> Inl Empty_pop"
  by (auto simp: call_disconnect_def endpoint_callbacks_def OnDisconnect_def DoConnect_fault bad_function_call_def
      split: handle.splits)

lemma call_msg_fault: "call_msg s \<noteq> Inl Empty_pop"
  by (auto simp: call_msg_def bad_function_call_def split: handle.splits)

lemma connect_result_fault: "on_connect_result resolve ok s \<noteq> Inl Empty_pop"
  by (auto simp: on_connect_result_def rbind_Inl_conv DoConnect_fault)

lemma ReadBody_listSend [simp]: "m_listSend (ReadBody s) = m_listSend s"
  by (simp add: ReadBody_def start_def Let_def)

lemma complete_fault:
  "complete (endpoint_callbacks resolve) i ok bytes s = Inl Empty_pop \<longleftrightarrow>
     drains (Ev_complete i ok bytes) (s, k)"
proof (cases "i < length (m_pending s)")
  case False
  then show ?thesis by (simp add: complete_def)
next
  case True
  have cb: "cb_connect (endpoint_callbacks resolve) ok t \<noteq> Inl Empty_pop" for t
    by (simp add: endpoint_callbacks_def connect_result_fault)
  show ?thesis
    using True cb
    by (cases "m_pending s ! i")
       (auto simp: complete_def on_head_def on_body_def on_write_def on_connect_def on_deadline_def disconnected_def
          Let_def rbind_Inl_conv call_disconnect_fault call_msg_fault DoSend_fault)
qed

lemma event_fault: "do_event resolve ev w = Inl Empty_pop \<longleftrightarrow> drains ev w"
proof -
  obtain s k where w: "w = (s, k)" by (rule prod.exhaust)
  show ?thesis
  proof (cases ev)
    case (Ev_complete i ok bytes)
    then show ?thesis using complete_fault [of resolve i ok bytes s k] by (simp add: w rbind_Inl_conv)
  qed (auto simp: w queue_packets_def rbind_Inl_conv DoSend_fault EndPoint_Connect_def DoConnect_fault)
qed

text \<open>
  C21. No packet of an end point is lost or doubled, in every run, whatever is queued,
  connected, disconnected and completed in whatever order, with success or with an error: when a
  run stops, the packets queued, being written and written are those there were and those that
  were queued, and the length that reads of the body use is the one the session was made with.
  A run stops before its end with a fault only, and takes a packet from an empty list exactly
  when, with nothing queued, a write or a connection succeeds or a thread calls \<open>DoSend\<close> late: no
  session survives sending its last packet.
\<close>

theorem packets_accounted:
  "case net_run resolve evs (s, k) of (past, (s', k'), f) \<Rightarrow>
     account s' = account s + image_mset packet_bytes (mset (queued past)) \<and>
     m_iPackLen s' = m_iPackLen s \<and> past = take (length past) evs \<and> (f = None \<longleftrightarrow> past = evs) \<and>
     (f = Some Empty_pop \<longleftrightarrow> length past < length evs \<and> drains (evs ! length past) (s', k'))"
proof (induction evs arbitrary: s k)
  case Nil
  then show ?case by simp
next
  case (Cons ev evs)
  show ?case
  proof (cases "do_event resolve ev (s, k)")
    case (Inl f)
    then show ?thesis using event_fault [of resolve ev "(s, k)"] by auto
  next
    case (Inr w)
    obtain s1 k1 where w: "w = (s1, k1)" by (rule prod.exhaust)
    obtain past s' k' f where run: "net_run resolve evs (s1, k1) = (past, (s', k'), f)" by (metis surj_pair)
    have "account s1 = account s + image_mset packet_bytes (mset (queued [ev]))" "m_iPackLen s1 = m_iPackLen s"
      using event_account Inr w by blast+
    then show ?thesis
      using Cons.IH [of s1 k1] Inr w run by (simp add: queued_Cons [of ev past] add.assoc)
  qed
qed

definition demo_endpoint :: endpoint where
  "demo_endpoint =
     \<lparr> m_iPackLen = 52, m_pReadMsg = None, m_heap = [], m_listSend = [], m_OnDisconnectHandle = User,
       m_OnMsgHandle = Unset, m_open = True, m_pending = [], m_heads = [], m_wire = [], m_msgs = [],
       m_strIP = [], m_strPort = [], m_bShutDown = False \<rparr>"

text \<open>
  Three packets: the write of the first fails, the end point connects again and sends the
  packets; the write of the last one that succeeds finds the list empty.
\<close>

definition demo_net_events :: "net_event list" where
  "demo_net_events =
     [Ev_queue [NetPacket_make ''a''], Ev_dosend, Ev_queue [NetPacket_make ''b''], Ev_complete 0 False [],
      Ev_complete 0 True [], Ev_complete 1 True [], Ev_complete 1 True []]"

theorem packets_accounted_witness:
  "case net_run (\<lambda>_ _. True) demo_net_events (demo_endpoint, 0) of (past, (s', k'), f) \<Rightarrow>
     account s' = image_mset packet_bytes {# NetPacket_make ''a'', NetPacket_make ''b'' #} \<and>
     m_wire s' = [packet_bytes (NetPacket_make ''a'')] \<and> f = Some Empty_pop"
proof -
  obtain past s' k' f where run: "net_run (\<lambda>_ _. True) demo_net_events (demo_endpoint, 0) = (past, (s', k'), f)"
    by (metis surj_pair)
  have "(case net_run (\<lambda>_ _. True) demo_net_events (demo_endpoint, 0) of (past, (s', k'), f) \<Rightarrow>
      length past = 6 \<and> m_wire s' = [packet_bytes (NetPacket_make ''a'')] \<and> f = Some Empty_pop)"
    by code_simp
  then have r: "length past = 6" "m_wire s' = [packet_bytes (NetPacket_make ''a'')]" "f = Some Empty_pop"
    by (simp_all add: run)
  have "account s' = account demo_endpoint + image_mset packet_bytes (mset (queued past)) \<and>
      past = take (length past) demo_net_events"
    using packets_accounted [where resolve = "\<lambda>_ _. True" and evs = demo_net_events and s = demo_endpoint and k = 0]
    by (simp add: run)
  moreover have "queued (take 6 demo_net_events) = [NetPacket_make ''a'', NetPacket_make ''b'']"
    by (simp add: demo_net_events_def)
  moreover have "account demo_endpoint = {#}" by (simp add: account_def demo_endpoint_def)
  ultimately have "account s' = image_mset packet_bytes {# NetPacket_make ''a'', NetPacket_make ''b'' #}"
    by (simp only: r) simp
  with r run show ?thesis by simp
qed


section \<open>What sessions do\<close>

text \<open>
  A session with nothing queued starts a second write while the first is under way, and
  when a write or a connection succeeds with nothing queued the front of the empty list is
  removed: an undefined operation ends every session that has sent its packets.
\<close>

theorem idle_session_faults:
  assumes "m_listSend s = []"
  shows "rbind (SendPacket p s) (SendPacket q) = Inr (s\<lparr>m_pending := m_pending s @ [Write_op p, Write_op q]\<rparr>) \<and>
    (i < length (m_pending s) \<and> (m_pending s ! i = Write_op r \<or> m_pending s ! i = Connect_op) \<longrightarrow>
       complete cb i True bytes s = Inl Empty_pop)"
  using assms
  by (auto simp: SendPacket_def queue_packets_def DoSend_def start_def complete_def on_write_def on_connect_def ReadBody_def Let_def)

theorem idle_session_faults_witness:
  "complete (endpoint_callbacks (\<lambda>_ _. True)) 0 True [] (demo_endpoint\<lparr>m_pending := [Write_op (NetPacket_make ''a'')]\<rparr>) = Inl Empty_pop"
  using idle_session_faults [of "demo_endpoint\<lparr>m_pending := [Write_op (NetPacket_make ''a'')]\<rparr>" p q 0 "NetPacket_make ''a''"
      "endpoint_callbacks (\<lambda>_ _. True)" "[]"]
  by (simp add: demo_endpoint_def)

text \<open>
  A session that the server accepted writes two bytes of unwritten memory before it reads,
  then waits for as many bytes as they say, and throws as soon as the read completes, in either
  way, as the first write fails, or as three seconds pass: no client function is ever set.
\<close>

theorem accepted_session_throws:
  "\<exists>s. complete cb 0 True b0 (OnConnect (TCPSession_make junk)) = Inr s \<and> m_heads s = [u16_bytes junk] \<and>
     m_pending s = [Body_op 1] \<and> map_of (m_heap s) 1 = Some (NetPacket_size junk) \<and>
     complete cb 0 ok bytes s = Inl bad_function_call \<and>
   complete cb 0 False b0 (OnConnect (TCPSession_make junk)) = Inl bad_function_call \<and>
   complete cb 1 True b0 (OnConnect (TCPSession_make junk)) = Inl bad_function_call"
  by (simp add: complete_def OnConnect_def SetDeadLineTimer_def ReadHead_def start_def CancelDeadLineTimer_def
      TCPSession_make_def on_head_def ReadBody_def Let_def on_body_def disconnected_def call_disconnect_def call_msg_def
      on_deadline_def Connection_Close_def)

fun get_services :: "nat \<Rightarrow> io_pool \<Rightarrow> (nat list \<times> io_pool) res" where
  "get_services 0 p = Inr ([], p)"
| "get_services (Suc k) p =
     rbind (GetIOService p) (\<lambda>(i, p). rbind (get_services k p) (\<lambda>(is, p). Inr (i # is, p)))"

lemma get_services_from:
  assumes "0 < length (m_vService p)" and "m_iNextIoServiceIndex p = a mod length (m_vService p)"
  shows "\<exists>q. get_services k p = Inr (map (\<lambda>i. (a + i) mod length (m_vService p)) [0..<k], q)"
  using assms
proof (induction k arbitrary: a p)
  case 0
  then show ?case by simp
next
  case (Suc k)
  let ?n = "length (m_vService p)"
  have less: "a mod ?n < ?n" using Suc.prems(1) by simp
  let ?p = "p\<lparr>m_iNextIoServiceIndex := Suc a mod ?n\<rparr>"
  have "GetIOService p = Inr (a mod ?n, ?p)"
    using less Suc.prems(2) by (simp add: GetIOService_def mod_Suc not_le)
  moreover obtain q where "get_services k ?p = Inr (map (\<lambda>i. (Suc a + i) mod ?n) [0..<k], q)"
    using Suc.IH [of ?p "Suc a"] Suc.prems by auto
  ultimately show ?case
    by (simp add: map_upt_Suc del: upt_Suc)
qed

text \<open>The services of a pool are handed out in turn, from the first.\<close>

theorem services_in_turn:
  assumes "IOServicePool_make n = Inr p"
  shows "\<exists>q. get_services k p = Inr (map (\<lambda>i. i mod n) [0..<k], q)"
proof -
  have "m_vService p = replicate n False" "m_iNextIoServiceIndex p = 0" "0 < n"
    using assms by (auto simp: IOServicePool_make_def split: if_splits)
  then show ?thesis using get_services_from [of p 0 k] by simp
qed

theorem services_in_turn_witness:
  "\<exists>p q. IOServicePool_make 3 = Inr p \<and> get_services 5 p = Inr ([0, 1, 2, 0, 1], q)"
proof -
  obtain p where p: "IOServicePool_make 3 = Inr p" by (simp add: IOServicePool_make_def)
  from services_in_turn [OF p, of 5] p show ?thesis by (auto simp: upt_rec)
qed

end
