(* ===== verification/Rank_Utils.thy ===== *)
theory Rank_Utils
  imports Gm_Prelude "HOL-Library.Multiset"
begin

text \<open>
  \<open>Utils/RankUtils.h\<close> and \<open>Utils/MapUtils.h\<close>: a list of the best entries, a ranking whose
  entries gain value, and look-ups with a default.
\<close>

section \<open>TRank\<close>

record ('k, 'v) trank =
  MaxSize :: u32
  vRank :: "('k \<times> 'v) list"

definition TRank_make :: "u32 \<Rightarrow> ('k, 'v) trank" where
  "TRank_make iMaxSize = \<lparr> MaxSize = iMaxSize, vRank = [] \<rparr>"

text \<open>The loop from the new entry towards the front, at index \<open>i\<close>.\<close>

fun TRank_up :: "nat \<Rightarrow> ('k \<times> 'v::linorder) list \<Rightarrow> ('k \<times> 'v) list" where
  "TRank_up 0 v = v"
| "TRank_up (Suc i) v =
     (if snd (v ! Suc i) < snd (v ! i) then v
      else TRank_up i (v[Suc i := v ! i, i := v ! Suc i]))"

definition TRank_Add :: "'k \<Rightarrow> 'v::linorder \<Rightarrow> ('k, 'v) trank \<Rightarrow> ('k, 'v) trank" where
  "TRank_Add key value r =
     (let v = vRank r @ [(key, value)];
          v = TRank_up (length v - 1) v;
          v = (if unat (MaxSize r) < length v then butlast v else v)
      in r\<lparr>vRank := v\<rparr>)"

text \<open>Where the loop puts the new entry: behind the entries with a greater value.\<close>

fun rank_insert :: "'k \<times> 'v::linorder \<Rightarrow> ('k \<times> 'v) list \<Rightarrow> ('k \<times> 'v) list" where
  "rank_insert x [] = [x]"
| "rank_insert x (y # ys) = (if snd x < snd y then y # rank_insert x ys else x # y # ys)"

definition descending :: "('k \<times> 'v::linorder) list \<Rightarrow> bool" where
  "descending v \<longleftrightarrow> sorted_wrt (\<lambda>a b. snd b \<le> snd a) v"

lemma rank_insert_snoc:
  "descending (v @ [y]) \<Longrightarrow>
     rank_insert x (v @ [y]) = (if snd x < snd y then v @ [y, x] else rank_insert x v @ [y])"
proof (induction v)
  case Nil
  then show ?case by simp
next
  case (Cons a v)
  then have "snd y \<le> snd a" by (simp add: descending_def sorted_wrt_append)
  with Cons show ?case by (auto simp: descending_def)
qed

lemma TRank_up_insert:
  "descending v \<Longrightarrow> TRank_up (length v) (v @ x # w) = rank_insert x v @ w"
proof (induction v arbitrary: w rule: rev_induct)
  case Nil
  then show ?case by simp
next
  case (snoc y v)
  have d: "descending v" using snoc.prems by (simp add: descending_def sorted_wrt_append)
  show ?case
  proof (cases "snd x < snd y")
    case True
    then show ?thesis using rank_insert_snoc [OF snoc.prems, of x] by (simp add: nth_append)
  next
    case False
    have "TRank_up (length (v @ [y])) ((v @ [y]) @ x # w) = TRank_up (length v) (v @ x # (y # w))"
      using False by (simp add: nth_append list_update_append)
    also have "\<dots> = rank_insert x v @ y # w" by (rule snoc.IH [OF d])
    finally show ?thesis using rank_insert_snoc [OF snoc.prems, of x] False by simp
  qed
qed

lemma TRank_Add_insert:
  assumes "descending (vRank r)"
  shows "TRank_Add key value r =
    r\<lparr>vRank := (let v = rank_insert (key, value) (vRank r) in
        if unat (MaxSize r) < length v then butlast v else v)\<rparr>"
  using TRank_up_insert [OF assms, of "(key, value)" "[]"] by (simp add: TRank_Add_def Let_def)

lemma length_rank_insert [simp]: "length (rank_insert x v) = Suc (length v)"
  by (induction v) auto

lemma set_rank_insert [simp]: "set (rank_insert x v) = insert x (set v)"
  by (induction v) auto

lemma descending_insert: "descending v \<Longrightarrow> descending (rank_insert x v)"
  by (induction v) (auto simp: descending_def)

lemma mset_rank_insert [simp]: "mset (rank_insert x v) = add_mset x (mset v)"
  by (induction v) auto

lemma take_rank_insert: "take n (rank_insert x (take n v)) = take n (rank_insert x v)"
proof (induction v arbitrary: n)
  case Nil
  then show ?case by simp
next
  case (Cons y v)
  then show ?case by (cases n) (auto simp: take_Cons' min_def)
qed

text \<open>The ranking of all entries ever added, of which \<open>vRank\<close> is the beginning.\<close>

abbreviation full_rank :: "('k \<times> 'v::linorder) list \<Rightarrow> ('k \<times> 'v) list" where
  "full_rank kvs \<equiv> fold rank_insert kvs []"

lemma descending_full: "descending v \<Longrightarrow> descending (fold rank_insert kvs v)"
  by (induction kvs arbitrary: v) (auto intro: descending_insert)

lemma mset_full: "mset (fold rank_insert kvs v) = mset kvs + mset v"
  by (induction kvs arbitrary: v) auto

lemma descending_take: "descending v \<Longrightarrow> descending (take n v)"
  unfolding descending_def by (rule sorted_wrt_take)

lemma TRank_Add_take:
  assumes "descending v" and "vRank r = take (unat (MaxSize r)) v"
  shows "vRank (TRank_Add key value r) = take (unat (MaxSize r)) (rank_insert (key, value) v) \<and>
    MaxSize (TRank_Add key value r) = MaxSize r"
proof -
  let ?n = "unat (MaxSize r)"
  let ?v = "rank_insert (key, value) (take ?n v)"
  have "(if ?n < length ?v then butlast ?v else ?v) = take ?n ?v"
    by (auto simp: butlast_conv_take min_def less_Suc_eq_le dest: le_antisym)
  then show ?thesis
    using TRank_Add_insert [of r key "value"] assms descending_take [OF assms(1)] take_rank_insert [of ?n "(key, value)" v]
    by (simp add: Let_def)
qed

lemma TRank_run:
  assumes "descending v" and "vRank r = take (unat (MaxSize r)) v"
  shows "vRank (fold (\<lambda>(k, x). TRank_Add k x) kvs r) = take (unat (MaxSize r)) (fold rank_insert kvs v)"
  using assms
proof (induction kvs arbitrary: r v)
  case Nil
  then show ?case by simp
next
  case (Cons kv kvs)
  obtain k x where kv: "kv = (k, x)" by (rule prod.exhaust)
  from Cons.IH [OF descending_insert [OF Cons.prems(1), of kv], of "TRank_Add k x r"]
    TRank_Add_take [OF Cons.prems, of k x]
  show ?case by (simp add: kv)
qed

lemma descending_values: "descending v \<Longrightarrow> map snd v = rev (sort (map snd v))"
proof -
  assume "descending v"
  then have "sorted_wrt (\<lambda>a b. b \<le> a) (map snd v)" by (simp add: descending_def sorted_wrt_map)
  then have "sorted (rev (map snd v))" by (simp add: sorted_wrt_rev)
  then have "sort (map snd v) = rev (map snd v)" by (intro properties_for_sort) simp_all
  then show ?thesis by simp
qed

text \<open>
  C22. A \<open>TRank\<close> is the top of all entries: after any additions its values are the greatest
  \<open>MaxSize\<close> of the values added, the greatest first, and every entry is one that was added, no
  more often than it was.
\<close>

theorem rank_keeps_best:
  fixes kvs :: "('k \<times> 'v::linorder) list"
  shows "map snd (vRank (fold (\<lambda>(k, x). TRank_Add k x) kvs (TRank_make iMaxSize))) =
     take (unat iMaxSize) (rev (sort (map snd kvs))) \<and>
   mset (vRank (fold (\<lambda>(k, x). TRank_Add k x) kvs (TRank_make iMaxSize))) \<subseteq># mset kvs"
proof -
  have d: "descending ([] :: ('k \<times> 'v) list)" by (simp add: descending_def)
  have v: "vRank (fold (\<lambda>(k, x). TRank_Add k x) kvs (TRank_make iMaxSize)) = take (unat iMaxSize) (full_rank kvs)"
    using TRank_run [OF d, of "TRank_make iMaxSize" kvs] by (simp add: TRank_make_def)
  have m: "mset (full_rank kvs) = mset kvs" using mset_full [of kvs "[]"] by simp
  have "sort (map snd (full_rank kvs)) = sort (map snd kvs)"
    by (rule properties_for_sort) (simp_all add: m)
  then have "map snd (full_rank kvs) = rev (sort (map snd kvs))"
    using descending_values [OF descending_full [OF d, of kvs]] by simp
  moreover have "mset (take (unat iMaxSize) (full_rank kvs)) \<subseteq># mset (full_rank kvs)"
    by (metis append_take_drop_id mset_append mset_subset_eq_add_left)
  ultimately show ?thesis unfolding v m by (simp flip: take_map)
qed


section \<open>TRTRank\<close>

record ('k, 'v) trtrank =
  rt_MaxSize :: u32
  rt_vRank :: "('k \<times> 'v) list"
  rt_vKey :: "'k set"

definition TRTRank_make :: "u32 \<Rightarrow> ('k, 'v) trtrank" where
  "TRTRank_make iMaxSize = \<lparr> rt_MaxSize = iMaxSize, rt_vRank = [], rt_vKey = {} \<rparr>"

definition TRTRank_default :: "('k, 'v) trtrank" where
  "TRTRank_default = TRTRank_make 10"

text \<open>The position of the first entry with the key; the end when there is none.\<close>

fun find_key :: "'k \<Rightarrow> ('k \<times> 'v) list \<Rightarrow> nat" where
  "find_key key [] = 0"
| "find_key key ((k, v) # r) = (if k = key then 0 else Suc (find_key key r))"

text \<open>The loop towards the front: the position reached and the list.\<close>

fun TRTRank_up :: "nat \<Rightarrow> ('k \<times> 'v::linorder) list \<Rightarrow> nat \<times> ('k \<times> 'v) list" where
  "TRTRank_up 0 v = (0, v)"
| "TRTRank_up (Suc i) v =
     (if snd (v ! Suc i) \<le> snd (v ! i) then (Suc i, v)
      else TRTRank_up i (v[Suc i := v ! i, i := v ! Suc i]))"

text \<open>\<open>Add\<close> from the entry in its place on: towards the front, and the last one out.\<close>

definition TRTRank_settle :: "nat \<Rightarrow> ('k, 'v::linorder) trtrank \<Rightarrow> ('k, 'v) trtrank res" where
  "TRTRank_settle itNew r =
     (let v = rt_vRank r in
      if length v = 1 then Inr r
      else if length v \<le> itNew then Inl Out_of_range
      else
        (let (itNew, v) = TRTRank_up itNew v;
             v = (if snd (v ! 0) < snd (v ! itNew) then v[itNew := v ! 0, 0 := v ! itNew] else v)
         in Inr (if unat (rt_MaxSize r) < length v
                 then r\<lparr>rt_vRank := butlast v, rt_vKey := rt_vKey r - {fst (last v)}\<rparr>
                 else r\<lparr>rt_vRank := v\<rparr>)))"

definition TRTRank_Add ::
  "'k \<Rightarrow> 'v::{linorder, plus} \<Rightarrow> ('k, 'v) trtrank \<Rightarrow> ('k, 'v) trtrank res" where
  "TRTRank_Add key value r =
     (if key \<in> rt_vKey r
      then
        (let i = find_key key (rt_vRank r); v = rt_vRank r in
         TRTRank_settle i
           (if i < length v then r\<lparr>rt_vRank := v[i := (fst (v ! i), snd (v ! i) + value)]\<rparr> else r))
      else
        TRTRank_settle (length (rt_vRank r))
          (r\<lparr>rt_vRank := rt_vRank r @ [(key, value)], rt_vKey := insert key (rt_vKey r)\<rparr>))"

definition TRTRank_Empty :: "('k, 'v) trtrank \<Rightarrow> bool" where
  "TRTRank_Empty r = (rt_vRank r = [])"

fun erase_key :: "'k \<Rightarrow> ('k \<times> 'v) list \<Rightarrow> ('k \<times> 'v) list" where
  "erase_key key [] = []"
| "erase_key key ((k, v) # r) = (if k = key then r else (k, v) # erase_key key r)"

definition TRTRank_Remove :: "'k \<Rightarrow> ('k, 'v) trtrank \<Rightarrow> bool \<times> ('k, 'v) trtrank" where
  "TRTRank_Remove key r =
     (if key \<in> rt_vKey r
      then (True, r\<lparr>rt_vRank := erase_key key (rt_vRank r), rt_vKey := rt_vKey r - {key}\<rparr>)
      else (False, r))"

text \<open>\<open>KeyType()\<close> is a parameter.\<close>

definition TRTRank_Front :: "'k \<Rightarrow> ('k, 'v) trtrank \<Rightarrow> 'k" where
  "TRTRank_Front default_key r = (if 0 < length (rt_vRank r) then fst (hd (rt_vRank r)) else default_key)"

definition TRTRank_Clear :: "('k, 'v) trtrank \<Rightarrow> ('k, 'v) trtrank" where
  "TRTRank_Clear r = r\<lparr>rt_vRank := [], rt_vKey := {}\<rparr>"


section \<open>The ranking stays one\<close>

text \<open>
  Entries in descending order, one per key, the set of keys that of the entries; \<open>Add\<close> returns
  early with a single entry, which is kept also when \<open>MaxSize\<close> is 0.
\<close>

definition rt_ok :: "('k, 'v::linorder) trtrank \<Rightarrow> bool" where
  "rt_ok r \<longleftrightarrow> descending (rt_vRank r) \<and> distinct (map fst (rt_vRank r)) \<and> rt_vKey r = fst ` set (rt_vRank r) \<and>
     length (rt_vRank r) \<le> max 1 (unat (rt_MaxSize r))"

text \<open>Where the loop puts an entry that gained: behind those that are at least as good.\<close>

fun rank_insert_behind :: "'k \<times> 'v::linorder \<Rightarrow> ('k \<times> 'v) list \<Rightarrow> ('k \<times> 'v) list" where
  "rank_insert_behind x [] = [x]"
| "rank_insert_behind x (y # ys) = (if snd x \<le> snd y then y # rank_insert_behind x ys else x # y # ys)"

lemma mset_insert_behind [simp]: "mset (rank_insert_behind x v) = add_mset x (mset v)"
  by (induction v) auto

lemma set_insert_behind [simp]: "set (rank_insert_behind x v) = insert x (set v)"
  by (induction v) auto

lemma descending_insert_behind: "descending v \<Longrightarrow> descending (rank_insert_behind x v)"
  by (induction v) (auto simp: descending_def)

lemma descending_append:
  "descending (xs @ ys) \<longleftrightarrow> descending xs \<and> descending ys \<and> (\<forall>x \<in> set xs. \<forall>y \<in> set ys. snd y \<le> snd x)"
  by (simp add: descending_def sorted_wrt_append)

lemma rank_insert_behind_snoc:
  "descending (v @ [y]) \<Longrightarrow>
     rank_insert_behind x (v @ [y]) = (if snd x \<le> snd y then v @ [y, x] else rank_insert_behind x v @ [y])"
proof (induction v)
  case Nil
  then show ?case by simp
next
  case (Cons a v)
  then have "snd y \<le> snd a" by (simp add: descending_append descending_def)
  with Cons show ?case by (auto simp: descending_def)
qed

lemma TRTRank_up_insert:
  "descending v \<Longrightarrow> \<exists>j < length v + 1. TRTRank_up (length v) (v @ x # w) = (j, rank_insert_behind x v @ w)"
proof (induction v arbitrary: w rule: rev_induct)
  case Nil
  then show ?case by simp
next
  case (snoc y v)
  have d: "descending v" using snoc.prems by (simp add: descending_append)
  show ?case
  proof (cases "snd x \<le> snd y")
    case True
    then show ?thesis using rank_insert_behind_snoc [OF snoc.prems, of x] by (simp add: nth_append)
  next
    case False
    have "TRTRank_up (length (v @ [y])) ((v @ [y]) @ x # w) = TRTRank_up (length v) (v @ x # (y # w))"
      using False by (simp add: nth_append list_update_append)
    with snoc.IH [OF d, of "y # w"] show ?thesis
      using rank_insert_behind_snoc [OF snoc.prems, of x] False by auto
  qed
qed

lemma descending_first: "descending v \<Longrightarrow> j < length v \<Longrightarrow> \<not> snd (v ! 0) < snd (v ! j)"
  by (cases v; cases j) (auto simp: descending_def not_less)

lemma find_key_split:
  "key \<in> fst ` set v \<Longrightarrow> \<exists>xs x ys. v = xs @ (key, x) # ys \<and> find_key key v = length xs"
proof (induction v)
  case Nil
  then show ?case by simp
next
  case (Cons a v)
  obtain k y where a: "a = (k, y)" by (rule prod.exhaust)
  show ?case
  proof (cases "k = key")
    case True
    then show ?thesis by (intro exI [of _ "[]"]) (simp add: a)
  next
    case False
    then obtain xs x ys where "v = xs @ (key, x) # ys" "find_key key v = length xs" using Cons a by auto
    then show ?thesis using False by (intro exI [of _ "a # xs"]) (simp add: a)
  qed
qed

lemma distinct_fst_mset: "mset v = mset w \<Longrightarrow> distinct (map fst v) \<longleftrightarrow> distinct (map fst w)"
  by (metis mset_eq_imp_distinct_iff mset_map)

text \<open>\<open>Add\<close>, once the entry is in the list at its old place with its new value.\<close>

lemma rt_place:
  assumes d: "descending (xs @ ys)" "\<forall>y \<in> set ys. snd y \<le> x" and k: "distinct (map fst (xs @ (key, x) # ys))"
    and size: "length (xs @ ys) \<le> max 1 (unat m)"
    and upto: "TRTRank_up (length xs) (xs @ (key, x) # ys) = (j, v)"
    and r': "r' = (if unat m < length v
                   then \<lparr> rt_MaxSize = m, rt_vRank = butlast v, rt_vKey = fst ` set v - {fst (last v)} \<rparr>
                   else \<lparr> rt_MaxSize = m, rt_vRank = v, rt_vKey = fst ` set v \<rparr>)"
  shows "rt_ok r' \<and> \<not> snd (v ! 0) < snd (v ! j) \<and> fst ` set v = fst ` set (xs @ (key, x) # ys)"
proof -
  have dx: "descending xs" "descending ys" using d(1) by (simp_all add: descending_append)
  obtain j' where "j' < length xs + 1" "TRTRank_up (length xs) (xs @ (key, x) # ys) = (j', rank_insert_behind (key, x) xs @ ys)"
    using TRTRank_up_insert [OF dx(1), of "(key, x)" ys] by blast
  then have j: "j < length xs + 1" and v: "v = rank_insert_behind (key, x) xs @ ys" using upto by simp_all
  have dv: "descending v"
    using descending_insert_behind [OF dx(1)] dx(2) d by (auto simp: v descending_append)
  have m: "mset v = mset (xs @ (key, x) # ys)" by (simp add: v)
  have dk: "distinct (map fst v)" using distinct_fst_mset [OF m] k by simp
  have len: "length v = Suc (length (xs @ ys))" using mset_eq_length [OF m] by simp
  have "rt_ok r'"
  proof (cases "unat m < length v")
    case False
    then show ?thesis using r' dv dk by (simp add: rt_ok_def)
  next
    case True
    obtain u l where u: "v = u @ [l]" using len by (cases v rule: rev_cases) auto
    have "fst l \<notin> fst ` set u" using dk by (auto simp: u)
    then have "fst ` set v - {fst (last v)} = fst ` set u" by (auto simp: u)
    then show ?thesis
      using True r' dv dk len size by (simp add: rt_ok_def u descending_append)
  qed
  moreover have "\<not> snd (v ! 0) < snd (v ! j)" using descending_first [OF dv] j len by simp
  moreover have "fst ` set v = fst ` set (xs @ (key, x) # ys)" using mset_eq_setD [OF m] by simp
  ultimately show ?thesis by blast
qed


text \<open>An addition does not lower the entry it is for, if there is one.\<close>

definition raises :: "'k \<Rightarrow> 'v::{linorder, plus} \<Rightarrow> ('k, 'v) trtrank \<Rightarrow> bool" where
  "raises key v r = (case map_of (rt_vRank r) key of None \<Rightarrow> True | Some x \<Rightarrow> x \<le> x + v)"

lemma rt_settle_ok:
  assumes d: "descending (xs @ ys)" "\<forall>y \<in> set ys. snd y \<le> x" "distinct (map fst (xs @ (key, x) # ys))"
    and size: "length (xs @ ys) \<le> max 1 (unat (rt_MaxSize r))"
    and r: "rt_vRank r = xs @ (key, x) # ys" "rt_vKey r = fst ` set (xs @ (key, x) # ys)"
  shows "\<exists>r'. TRTRank_settle (length xs) r = Inr r' \<and> rt_ok r' \<and> rt_MaxSize r' = rt_MaxSize r"
proof (cases "length (xs @ (key, x) # ys) = 1")
  case True
  then have "xs = []" "ys = []" by simp_all
  then show ?thesis using r by (simp add: TRTRank_settle_def rt_ok_def descending_def)
next
  case False
  obtain j u where u: "TRTRank_up (length xs) (xs @ (key, x) # ys) = (j, u)" by (rule prod.exhaust)
  let ?m = "rt_MaxSize r"
  let ?r = "if unat ?m < length u
      then \<lparr> rt_MaxSize = ?m, rt_vRank = butlast u, rt_vKey = fst ` set u - {fst (last u)} \<rparr>
      else \<lparr> rt_MaxSize = ?m, rt_vRank = u, rt_vKey = fst ` set u \<rparr>"
  from rt_place [OF d size u refl]
  have p: "rt_ok ?r" "\<not> snd (u ! 0) < snd (u ! j)" "fst ` set u = fst ` set (xs @ (key, x) # ys)" by blast+
  have "rt_vKey r = fst ` set u" using r(2) p(3) by simp
  moreover have "length (rt_vRank r) \<noteq> 1" "\<not> length (rt_vRank r) \<le> length xs" using False r(1) by simp_all
  moreover have "TRTRank_up (length xs) (rt_vRank r) = (j, u)" using u r(1) by simp
  ultimately have "TRTRank_settle (length xs) r = Inr ?r"
    using p(2) unfolding TRTRank_settle_def Let_def by (cases r) simp
  then show ?thesis using p(1) by simp
qed

lemma rt_Add_ok:
  assumes ok: "rt_ok r" and g: "raises key v r"
  shows "\<exists>r'. TRTRank_Add key v r = Inr r' \<and> rt_ok r' \<and> rt_MaxSize r' = rt_MaxSize r"
proof -
  have inv: "descending (rt_vRank r)" "distinct (map fst (rt_vRank r))" "rt_vKey r = fst ` set (rt_vRank r)"
      "length (rt_vRank r) \<le> max 1 (unat (rt_MaxSize r))"
    using ok by (simp_all add: rt_ok_def)
  show ?thesis
  proof (cases "key \<in> rt_vKey r")
    case True
    then obtain xs x ys where v: "rt_vRank r = xs @ (key, x) # ys" "find_key key (rt_vRank r) = length xs"
      using find_key_split [of key "rt_vRank r"] inv(3) by auto
    let ?r = "r\<lparr>rt_vRank := xs @ (key, x + v) # ys\<rparr>"
    have "\<forall>y \<in> set ys. snd y \<le> x" using inv(1) by (simp add: v(1) descending_def sorted_wrt_append)
    moreover have "map_of (rt_vRank r) key = Some x"
      by (rule map_of_is_SomeI [OF inv(2)]) (simp add: v(1))
    then have "x \<le> x + v" using g by (simp add: raises_def)
    ultimately have "\<forall>y \<in> set ys. snd y \<le> x + v" by (meson order_trans)
    moreover have "descending (xs @ ys)" using inv(1) by (simp add: v(1) descending_def sorted_wrt_append)
    moreover have "distinct (map fst (xs @ (key, x + v) # ys))" using inv(2) by (simp add: v(1))
    moreover have "length (xs @ ys) \<le> max 1 (unat (rt_MaxSize ?r))" using inv(4) by (simp add: v(1))
    moreover have "rt_vKey ?r = fst ` set (xs @ (key, x + v) # ys)" using inv(3) by (simp add: v(1))
    ultimately have "\<exists>r'. TRTRank_settle (length xs) ?r = Inr r' \<and> rt_ok r' \<and> rt_MaxSize r' = rt_MaxSize ?r"
      by (intro rt_settle_ok) simp_all
    moreover have "TRTRank_Add key v r = TRTRank_settle (length xs) ?r"
      using True v(2) by (simp add: TRTRank_Add_def v(1) nth_append list_update_append)
    ultimately show ?thesis by simp
  next
    case False
    let ?r = "r\<lparr>rt_vRank := rt_vRank r @ [(key, v)], rt_vKey := insert key (rt_vKey r)\<rparr>"
    have "distinct (map fst (rt_vRank r @ [(key, v)]))" using inv(2,3) False by simp
    moreover have "rt_vKey ?r = fst ` set (rt_vRank r @ [(key, v)])" using inv(3) by simp
    ultimately have "\<exists>r'. TRTRank_settle (length (rt_vRank r)) ?r = Inr r' \<and> rt_ok r' \<and> rt_MaxSize r' = rt_MaxSize ?r"
      using inv(1,4) by (intro rt_settle_ok [where ys = "[]"]) simp_all
    then show ?thesis using False by (simp add: TRTRank_Add_def)
  qed
qed

lemma erase_key_split: "distinct (map fst v) \<Longrightarrow> erase_key key v = filter (\<lambda>e. fst e \<noteq> key) v"
proof (induction v)
  case Nil
  then show ?case by simp
next
  case (Cons a v)
  obtain k x where a: "a = (k, x)" by (rule prod.exhaust)
  show ?case
  proof (cases "k = key")
    case True
    then have "\<forall>e \<in> set v. fst e \<noteq> key" using Cons.prems by (force simp: a)
    then have "filter (\<lambda>e. fst e \<noteq> key) v = v" by (simp add: filter_True)
    then show ?thesis using True by (simp add: a)
  next
    case False
    then show ?thesis using Cons by (simp add: a)
  qed
qed

lemma rt_Remove_ok:
  assumes "rt_ok r"
  shows "rt_ok (snd (TRTRank_Remove key r)) \<and> rt_MaxSize (snd (TRTRank_Remove key r)) = rt_MaxSize r"
proof -
  have inv: "descending (rt_vRank r)" "distinct (map fst (rt_vRank r))" "rt_vKey r = fst ` set (rt_vRank r)"
      "length (rt_vRank r) \<le> max 1 (unat (rt_MaxSize r))"
    using assms by (simp_all add: rt_ok_def)
  let ?v = "filter (\<lambda>e. fst e \<noteq> key) (rt_vRank r)"
  have e: "erase_key key (rt_vRank r) = ?v" by (rule erase_key_split [OF inv(2)])
  have "descending ?v" using inv(1) unfolding descending_def by (rule sorted_wrt_filter)
  moreover have "distinct (map fst ?v)" using inv(2) by (rule distinct_map_filter)
  moreover have "length ?v \<le> max 1 (unat (rt_MaxSize r))" using length_filter_le inv(4) by (rule order_trans)
  moreover have "fst ` set (rt_vRank r) - {key} = fst ` set ?v" by auto
  ultimately show ?thesis using assms inv(3) by (simp add: TRTRank_Remove_def rt_ok_def e)
qed

datatype ('k, 'v) rank_op = Rank_add 'k 'v | Rank_remove 'k | Rank_clear

fun rank_do :: "('k, 'v::{linorder, plus}) rank_op \<Rightarrow> ('k, 'v) trtrank \<Rightarrow> ('k, 'v) trtrank res" where
  "rank_do (Rank_add k v) r = TRTRank_Add k v r"
| "rank_do (Rank_remove k) r = Inr (snd (TRTRank_Remove k r))"
| "rank_do Rank_clear r = Inr (TRTRank_Clear r)"

text \<open>Every addition of a run, in the state it is made in.\<close>

fun run_raises :: "('k, 'v::{linorder, plus}) rank_op list \<Rightarrow> ('k, 'v) trtrank \<Rightarrow> bool" where
  "run_raises [] r = True"
| "run_raises (op # ops) r =
     ((case op of Rank_add k v \<Rightarrow> raises k v r | _ \<Rightarrow> True) \<and>
      (case rank_do op r of Inl _ \<Rightarrow> True | Inr r' \<Rightarrow> run_raises ops r'))"

lemma rank_run_ok:
  "rt_ok r \<Longrightarrow> run_raises ops r \<Longrightarrow>
     \<exists>r'. rfold rank_do ops r = Inr r' \<and> rt_ok r'"
proof (induction ops arbitrary: r)
  case Nil
  then show ?case by simp
next
  case (Cons op ops)
  have "\<exists>r1. rank_do op r = Inr r1 \<and> rt_ok r1 \<and> rt_MaxSize r1 = rt_MaxSize r"
  proof (cases op)
    case (Rank_add k v)
    then show ?thesis using Cons.prems rt_Add_ok [of r k v] by simp
  next
    case (Rank_remove k)
    then show ?thesis using rt_Remove_ok [OF Cons.prems(1), of k] by simp
  next
    case Rank_clear
    then show ?thesis by (simp add: TRTRank_Clear_def rt_ok_def descending_def)
  qed
  then obtain r1 where "rank_do op r = Inr r1" "rt_ok r1" "rt_MaxSize r1 = rt_MaxSize r" by blast
  then show ?case using Cons.IH [of r1] Cons.prems by simp
qed

text \<open>
  C23. A \<open>TRTRank\<close> stays a ranking, for every \<open>MaxSize\<close> and every type of values, also one that
  wraps around: after any additions, removals and clearings in which no addition lowers the
  entry that its key then has, the entries are in descending order with one entry per key, at
  most \<open>MaxSize\<close> of them (one when \<open>MaxSize\<close> is 0), the set of keys is theirs, no operation
  leaves the list, and \<open>Front\<close> is the key of an entry that no other exceeds. An addition that
  lowers an entry leaves it in its place (\<open>lowered_entry_stays\<close>).
\<close>

theorem ranking_stays_ordered:
  fixes ops :: "('k, 'v::{linorder, plus}) rank_op list"
  assumes "run_raises ops (TRTRank_make iMaxSize)"
  shows "\<exists>r. rfold rank_do ops (TRTRank_make iMaxSize) = Inr r \<and> rt_ok r \<and>
    (TRTRank_Empty r \<or> (\<exists>x. (TRTRank_Front d r, x) \<in> set (rt_vRank r) \<and> list_all (\<lambda>e. snd e \<le> x) (rt_vRank r)))"
proof -
  have "rt_ok (TRTRank_make iMaxSize :: ('k, 'v) trtrank)" by (simp add: rt_ok_def TRTRank_make_def descending_def)
  then obtain r :: "('k, 'v) trtrank" where r: "rfold rank_do ops (TRTRank_make iMaxSize) = Inr r" "rt_ok r"
    using rank_run_ok [of "TRTRank_make iMaxSize" ops] assms by (auto simp: TRTRank_make_def)
  have "TRTRank_Empty r \<or> (\<exists>x. (TRTRank_Front d r, x) \<in> set (rt_vRank r) \<and> list_all (\<lambda>e. snd e \<le> x) (rt_vRank r))"
  proof (cases "rt_vRank r")
    case Nil
    then show ?thesis by (simp add: TRTRank_Empty_def)
  next
    case (Cons e es)
    then have "list_all (\<lambda>e'. snd e' \<le> snd e) (rt_vRank r)"
      using r(2) by (auto simp: rt_ok_def descending_def list_all_iff)
    moreover have "(TRTRank_Front d r, snd e) \<in> set (rt_vRank r)" by (simp add: Cons TRTRank_Front_def)
    ultimately show ?thesis by blast
  qed
  with r show ?thesis by blast
qed

theorem ranking_stays_ordered_witness:
  "\<exists>r. rfold rank_do [Rank_add ''a'' 3, Rank_add ''b'' 5, Rank_add ''a'' 4, Rank_remove ''b'', Rank_add ''c'' 1]
      (TRTRank_make 2) = Inr (r :: (string, u32) trtrank) \<and> rt_ok r \<and> rt_vRank r = [(''a'', 7), (''c'', 1)]"
proof -
  let ?ops = "[Rank_add ''a'' 3, Rank_add ''b'' 5, Rank_add ''a'' 4, Rank_remove ''b'', Rank_add ''c'' (1 :: u32)]"
  have "(case rfold rank_do ?ops (TRTRank_make 2) of Inr r \<Rightarrow> rt_vRank r = [(''a'', 7), (''c'', 1)] | _ \<Rightarrow> False)"
    by code_simp
  then obtain r where r: "rfold rank_do ?ops (TRTRank_make 2) = Inr r" "rt_vRank r = [(''a'', 7), (''c'', 1)]"
    by (auto split: sum.splits simp del: rfold.simps)
  have "run_raises ?ops (TRTRank_make 2)" by code_simp
  then obtain q where "rfold rank_do ?ops (TRTRank_make 2) = Inr q" "rt_ok q"
    using ranking_stays_ordered [of ?ops 2] by blast
  with r show ?thesis by auto
qed

text \<open>An addition that lowers an entry leaves it at its place.\<close>

lemma lowered_entry_stays:
  "(case rfold rank_do [Rank_add ''a'' (5 :: int), Rank_add ''b'' 3, Rank_add ''a'' (- 4)] (TRTRank_make 2) of
      Inr r \<Rightarrow> rt_vRank r = [(''a'', 1), (''b'', 3)] | _ \<Rightarrow> False)"
  by code_simp


section \<open>Look-ups with a default\<close>

text \<open>
  \<open>MapUtils\<close>: the pointer to the value of a key, and the value or \<open>T()\<close>, a parameter, for both
  containers; the versions for constant containers have the same bodies.
\<close>

definition FindMapPtr_map :: "('k::linorder \<times> 't) list \<Rightarrow> 'k \<Rightarrow> 't option" where
  "FindMapPtr_map mMap key = (case map_of mMap key of Some t \<Rightarrow> Some t | None \<Rightarrow> None)"

definition FindMapPtr_unordered_map :: "('k \<times> 't) list \<Rightarrow> 'k \<Rightarrow> 't option" where
  "FindMapPtr_unordered_map mMap key = (case map_of mMap key of Some t \<Rightarrow> Some t | None \<Rightarrow> None)"

definition FindMapPtr_const_map :: "('k::linorder \<times> 't) list \<Rightarrow> 'k \<Rightarrow> 't option" where
  "FindMapPtr_const_map mMap key = (case map_of mMap key of Some t \<Rightarrow> Some t | None \<Rightarrow> None)"

definition FindMap_map :: "'t \<Rightarrow> ('k::linorder \<times> 't) list \<Rightarrow> 'k \<Rightarrow> 't" where
  "FindMap_map T mMap key = (case map_of mMap key of Some t \<Rightarrow> t | None \<Rightarrow> T)"

definition FindMap_const_map :: "'t \<Rightarrow> ('k::linorder \<times> 't) list \<Rightarrow> 'k \<Rightarrow> 't" where
  "FindMap_const_map T mMap key = (case map_of mMap key of Some t \<Rightarrow> t | None \<Rightarrow> T)"

definition FindMap_unordered_map :: "'t \<Rightarrow> ('k \<times> 't) list \<Rightarrow> 'k \<Rightarrow> 't" where
  "FindMap_unordered_map T mMap key = (case map_of mMap key of Some t \<Rightarrow> t | None \<Rightarrow> T)"

definition FindMap_const_unordered_map :: "'t \<Rightarrow> ('k \<times> 't) list \<Rightarrow> 'k \<Rightarrow> 't" where
  "FindMap_const_unordered_map T mMap key = (case map_of mMap key of Some t \<Rightarrow> t | None \<Rightarrow> T)"

lemma FindMap_after_put:
  "om_wf m \<Longrightarrow> FindMap_map T (om_put k t m) k' = (if k' = k then t else FindMap_map T m k')"
  by (simp add: FindMap_map_def om.get_put)

lemma FindMap_after_update:
  "um_wf m \<Longrightarrow> FindMap_unordered_map T (AList.update k t m) k' = (if k' = k then t else FindMap_unordered_map T m k')"
  by (simp add: FindMap_unordered_map_def um.get_put)

end
