(* ===== verification/Fast_Memcpy.thy ===== *)
theory Fast_Memcpy
  imports Gm_Prelude
begin

text \<open>
  \<open>Utils/FastMemcpy.h\<close>: copying by machine instructions of up to 16 bytes. Memory is a function
  from addresses to bytes, and addresses and sizes do not wrap. An instruction that needs an
  address on a 16-byte boundary and gets another is a fault (\<^const>\<open>Out_of_range\<close>); prefetches
  and the fence change no memory.
\<close>

section \<open>Loads and stores\<close>

type_synonym mem = "nat \<Rightarrow> u8"

definition load :: "nat \<Rightarrow> nat \<Rightarrow> mem \<Rightarrow> u8 list" where
  "load n a mem = map (\<lambda>i. mem (a + i)) [0..<n]"

definition store :: "nat \<Rightarrow> u8 list \<Rightarrow> mem \<Rightarrow> mem" where
  "store a bs mem = (\<lambda>x. if a \<le> x \<and> x < a + length bs then bs ! (x - a) else mem x)"

text \<open>All loads of a copy come before its stores.\<close>

definition memcpy_sse2_16 :: "nat \<Rightarrow> nat \<Rightarrow> mem \<Rightarrow> mem" where
  "memcpy_sse2_16 dst src mem = (let m0 = load 16 src mem in store dst m0 mem)"

definition memcpy_sse2_32 :: "nat \<Rightarrow> nat \<Rightarrow> mem \<Rightarrow> mem" where
  "memcpy_sse2_32 dst src mem =
     (let m0 = load 16 src mem; m1 = load 16 (src + 16) mem
      in store (dst + 16) m1 (store dst m0 mem))"

definition memcpy_sse2_64 :: "nat \<Rightarrow> nat \<Rightarrow> mem \<Rightarrow> mem" where
  "memcpy_sse2_64 dst src mem =
     (let m0 = load 16 src mem; m1 = load 16 (src + 16) mem;
          m2 = load 16 (src + 32) mem; m3 = load 16 (src + 48) mem
      in store (dst + 48) m3 (store (dst + 32) m2 (store (dst + 16) m1 (store dst m0 mem))))"

definition memcpy_sse2_128 :: "nat \<Rightarrow> nat \<Rightarrow> mem \<Rightarrow> mem" where
  "memcpy_sse2_128 dst src mem =
     (let m0 = load 16 src mem; m1 = load 16 (src + 16) mem;
          m2 = load 16 (src + 32) mem; m3 = load 16 (src + 48) mem;
          m4 = load 16 (src + 64) mem; m5 = load 16 (src + 80) mem;
          m6 = load 16 (src + 96) mem; m7 = load 16 (src + 112) mem
      in store (dst + 112) m7 (store (dst + 96) m6 (store (dst + 80) m5 (store (dst + 64) m4
           (store (dst + 48) m3 (store (dst + 32) m2 (store (dst + 16) m1 (store dst m0 mem))))))))"


section \<open>Small copies\<close>

text \<open>
  The jump table: for each size the copies it makes, as the distance of the copy's start from
  the end of the block and its width. The label of size \<open>64 + n\<close> copies the first 64 bytes and
  falls through to that of size \<open>n\<close>.
\<close>

definition tiny_cases_0 :: "(nat \<times> nat) list list" where
  "tiny_cases_0 =
     [[],
      [(1, 1)],
      [(2, 2)],
      [(3, 2), (1, 1)],
      [(4, 4)],
      [(5, 4), (1, 1)],
      [(6, 4), (2, 2)],
      [(7, 4), (4, 4)],
      [(8, 8)],
      [(9, 8), (1, 1)],
      [(10, 8), (2, 2)],
      [(11, 8), (4, 4)],
      [(12, 8), (4, 4)],
      [(13, 8), (5, 4), (1, 1)],
      [(14, 8), (8, 8)],
      [(15, 8), (8, 8)]]"

definition tiny_cases_1 :: "(nat \<times> nat) list list" where
  "tiny_cases_1 =
     [[(16, 16)],
      [(17, 16), (1, 1)],
      [(18, 16), (2, 2)],
      [(19, 16), (3, 2), (1, 1)],
      [(20, 16), (4, 4)],
      [(21, 16), (5, 4), (1, 1)],
      [(22, 16), (6, 4), (2, 2)],
      [(23, 16), (7, 4), (4, 4)],
      [(24, 16), (16, 16)],
      [(25, 16), (16, 16)],
      [(26, 16), (16, 16)],
      [(27, 16), (16, 16)],
      [(28, 16), (16, 16)],
      [(29, 16), (16, 16)],
      [(30, 16), (16, 16)],
      [(31, 16), (16, 16)]]"

definition tiny_cases_2 :: "(nat \<times> nat) list list" where
  "tiny_cases_2 =
     [[(32, 32)],
      [(33, 32), (1, 1)],
      [(34, 32), (2, 2)],
      [(35, 32), (3, 2), (1, 1)],
      [(36, 32), (4, 4)],
      [(37, 32), (5, 4), (1, 1)],
      [(38, 32), (6, 4), (2, 2)],
      [(39, 32), (7, 4), (4, 4)],
      [(40, 32), (8, 8)],
      [(41, 32), (9, 8), (1, 1)],
      [(42, 32), (10, 8), (2, 2)],
      [(43, 32), (11, 8), (4, 4)],
      [(44, 32), (12, 8), (4, 4)],
      [(45, 32), (13, 8), (5, 4), (1, 1)],
      [(46, 32), (14, 8), (8, 8)],
      [(47, 32), (15, 8), (8, 8)]]"

definition tiny_cases_3 :: "(nat \<times> nat) list list" where
  "tiny_cases_3 =
     [[(48, 32), (16, 16)],
      [(49, 32), (17, 16), (1, 1)],
      [(50, 32), (18, 16), (2, 2)],
      [(51, 32), (19, 16), (3, 2), (1, 1)],
      [(52, 32), (20, 16), (4, 4)],
      [(53, 32), (21, 16), (5, 4), (1, 1)],
      [(54, 32), (22, 16), (6, 4), (2, 2)],
      [(55, 32), (23, 16), (7, 4), (4, 4)],
      [(56, 32), (24, 16), (16, 16)],
      [(57, 32), (25, 16), (16, 16)],
      [(58, 32), (26, 16), (16, 16)],
      [(59, 32), (27, 16), (16, 16)],
      [(60, 32), (28, 16), (16, 16)],
      [(61, 32), (29, 16), (16, 16)],
      [(62, 32), (30, 16), (16, 16)],
      [(63, 32), (31, 16), (16, 16)]]"

definition tiny_copies :: "nat \<Rightarrow> (nat \<times> nat) list" where
  "tiny_copies sz =
     (let table = tiny_cases_0 @ tiny_cases_1 @ tiny_cases_2 @ tiny_cases_3 in
      if sz < 64 then table ! sz
      else if sz < 128 then (sz, 64) # table ! (sz - 64)
      else if sz = 128 then [(128, 128)]
      else [])"

definition tiny_copy :: "nat \<Rightarrow> nat \<Rightarrow> nat \<times> nat \<Rightarrow> mem \<Rightarrow> mem" where
  "tiny_copy dd ss = (\<lambda>(k, w) mem.
     if w = 16 then memcpy_sse2_16 (dd - k) (ss - k) mem
     else if w = 32 then memcpy_sse2_32 (dd - k) (ss - k) mem
     else if w = 64 then memcpy_sse2_64 (dd - k) (ss - k) mem
     else if w = 128 then memcpy_sse2_128 (dd - k) (ss - k) mem
     else store (dd - k) (load w (ss - k) mem) mem)"

definition memcpy_tiny :: "nat \<Rightarrow> nat \<Rightarrow> nat \<Rightarrow> mem \<Rightarrow> mem" where
  "memcpy_tiny dst src sz mem =
     (let dd = dst + sz; ss = src + sz in fold (tiny_copy dd ss) (tiny_copies sz) mem)"


section \<open>Large copies\<close>

definition boundary :: "nat \<Rightarrow> bool" where
  "boundary a \<longleftrightarrow> a mod 16 = 0"

text \<open>Eight loads, which may need boundaries, and eight stores, which do.\<close>

definition block_copy :: "bool \<Rightarrow> nat \<Rightarrow> nat \<Rightarrow> mem \<Rightarrow> mem res" where
  "block_copy aligned_load dst src mem =
     (if (aligned_load \<longrightarrow> boundary src) \<and> boundary dst then Inr (memcpy_sse2_128 dst src mem)
      else Inl Out_of_range)"

function block_loop :: "bool \<Rightarrow> nat \<Rightarrow> nat \<Rightarrow> nat \<Rightarrow> mem \<Rightarrow> (nat \<times> nat \<times> nat \<times> mem) res" where
  "block_loop aligned_load dst src sz mem =
     (if 128 \<le> sz
      then rbind (block_copy aligned_load dst src mem)
             (block_loop aligned_load (dst + 128) (src + 128) (sz - 128))
      else Inr (dst, src, sz, mem))"
  by pat_completeness auto
termination
  by (relation "measure (\<lambda>(_, _, _, n, _). n)") auto

declare block_loop.simps [simp del]

definition cachesize :: nat where
  "cachesize = 0x200000"

text \<open>The three loops: of medium size, and large with the source on a boundary or not.\<close>

definition memcpy_blocks :: "nat \<Rightarrow> nat \<Rightarrow> nat \<Rightarrow> mem \<Rightarrow> (nat \<times> nat \<times> nat \<times> mem) res" where
  "memcpy_blocks dst src sz mem =
     (if sz \<le> cachesize then block_loop False dst src sz mem
      else if src mod 16 = 0 then block_loop True dst src sz mem
      else block_loop False dst src sz mem)"

definition memcpy_fast :: "nat \<Rightarrow> nat \<Rightarrow> nat \<Rightarrow> mem \<Rightarrow> mem res" where
  "memcpy_fast destination source sz mem =
     (if sz \<le> 128 then Inr (memcpy_tiny destination source sz mem)
      else
        (let padding = (16 - destination mod 16) mod 16;
             (dst, src, sz, mem) =
               (if 0 < padding
                then (destination + padding, source + padding, sz - padding,
                      store destination (load 16 source mem) mem)
                else (destination, source, sz, mem))
         in rbind (memcpy_blocks dst src sz mem)
              (\<lambda>(dst, src, sz, mem). Inr (memcpy_tiny dst src sz mem))))"


section \<open>The bytes copied\<close>

text \<open>The first \<open>n\<close> bytes of the block have been copied, and nothing else has changed.\<close>

definition copied :: "nat \<Rightarrow> nat \<Rightarrow> nat \<Rightarrow> mem \<Rightarrow> mem" where
  "copied dst src n mem = (\<lambda>a. if dst \<le> a \<and> a < dst + n then mem (src + (a - dst)) else mem a)"

definition disjoint_blocks :: "nat \<Rightarrow> nat \<Rightarrow> nat \<Rightarrow> bool" where
  "disjoint_blocks dst src n \<longleftrightarrow> dst + n \<le> src \<or> src + n \<le> dst"

lemma length_load [simp]: "length (load n a mem) = n"
  by (simp add: load_def)

lemma load_nth [simp]: "i < n \<Longrightarrow> load n a mem ! i = mem (a + i)"
  by (simp add: load_def)

lemma store_load: "store d (load w s mem) mem = copied d s w mem"
  by (auto simp: store_def copied_def fun_eq_iff)

lemma store_append: "store (d + length xs) ys (store d xs mem) = store d (xs @ ys) mem"
  by (auto simp: store_def fun_eq_iff nth_append)

lemma load_append: "load m a mem @ load n (a + m) mem = load (m + n) a mem"
  by (rule nth_equalityI) (auto simp: nth_append)

lemma sse2_16: "memcpy_sse2_16 d s mem = copied d s 16 mem"
  by (simp add: memcpy_sse2_16_def store_load)

text \<open>A store of the next 16 bytes.\<close>

lemma store_next:
  "b = a + n \<Longrightarrow> t = s + n \<Longrightarrow> store b (load m t mem) (store a (load n s mem) mem') = store a (load (n + m) s mem) mem'"
  using store_append [of a "load n s mem" "load m (s + n) mem" mem'] by (simp add: load_append)

lemma sse2_32: "memcpy_sse2_32 d s mem = copied d s 32 mem"
  by (simp add: memcpy_sse2_32_def Let_def store_next flip: store_load)

lemma sse2_64: "memcpy_sse2_64 d s mem = copied d s 64 mem"
  by (simp add: memcpy_sse2_64_def Let_def store_next flip: store_load)

lemma sse2_128: "memcpy_sse2_128 d s mem = copied d s 128 mem"
  by (simp add: memcpy_sse2_128_def Let_def store_next flip: store_load)

lemma tiny_copy_copied: "tiny_copy dd ss (k, w) mem = copied (dd - k) (ss - k) w mem"
  by (simp add: tiny_copy_def sse2_16 sse2_32 sse2_64 sse2_128 store_load)

text \<open>One copy more, which starts inside or at the end of what was copied.\<close>

lemma copied_next:
  assumes "disjoint_blocks d s n" and "i \<le> pos" and "i + w \<le> n" and "pos \<le> n"
  shows "copied (d + i) (s + i) w (copied d s pos mem) = copied d s (max pos (i + w)) mem"
proof
  fix a
  show "copied (d + i) (s + i) w (copied d s pos mem) a = copied d s (max pos (i + w)) mem a"
  proof (cases "d + i \<le> a \<and> a < d + i + w")
    case True
    then have a: "s + i + (a - (d + i)) = s + (a - d)" by simp
    have "\<not> (d \<le> s + (a - d) \<and> s + (a - d) < d + pos)"
      using assms True unfolding disjoint_blocks_def by linarith
    then have "copied d s pos mem (s + i + (a - (d + i))) = mem (s + (a - d))"
      unfolding a copied_def by (rule if_not_P)
    moreover have "copied (d + i) (s + i) w m a = m (s + i + (a - (d + i)))" for m
      unfolding copied_def using True by (rule if_P)
    moreover have "d \<le> a \<and> a < d + max pos (i + w)" using True by auto
    then have "copied d s (max pos (i + w)) mem a = mem (s + (a - d))"
      unfolding copied_def by (rule if_P)
    ultimately show ?thesis by simp
  next
    case False
    then show ?thesis using assms(2) by (auto simp: copied_def)
  qed
qed

text \<open>The copies of a size, from what is copied on, without a gap and inside the block.\<close>

fun reach :: "nat \<Rightarrow> nat \<Rightarrow> (nat \<times> nat) list \<Rightarrow> nat option" where
  "reach n pos [] = Some pos"
| "reach n pos ((k, w) # cs) =
     (if w \<le> k \<and> k \<le> n \<and> n - k \<le> pos then reach n (max pos (n - k + w)) cs else None)"

lemma fold_reach:
  assumes "disjoint_blocks d s n"
  shows "pos \<le> n \<Longrightarrow> reach n pos cs = Some q \<Longrightarrow>
    fold (tiny_copy (d + n) (s + n)) cs (copied d s pos mem) = copied d s q mem"
proof (induction cs arbitrary: pos)
  case Nil
  then show ?case by simp
next
  case (Cons c cs)
  obtain k w where c: "c = (k, w)" by (rule prod.exhaust)
  have r: "w \<le> k" "k \<le> n" "n - k \<le> pos" "reach n (max pos (n - k + w)) cs = Some q"
    using Cons.prems by (auto simp: c split: if_splits)
  have "tiny_copy (d + n) (s + n) c (copied d s pos mem) = copied (d + (n - k)) (s + (n - k)) w (copied d s pos mem)"
    using r by (simp add: c tiny_copy_copied)
  also have "\<dots> = copied d s (max pos (n - k + w)) mem"
    using r Cons.prems by (intro copied_next [OF assms]) auto
  finally show ?case using Cons.IH [of "max pos (n - k + w)"] r Cons.prems(1) by simp
qed

lemma tiny_copies_reach_table: "list_all (\<lambda>n. reach n 0 (tiny_copies n) = Some n) [0..<129]"
  by code_simp

lemma copied_0: "copied d s 0 mem = mem"
  by (auto simp: copied_def fun_eq_iff)

lemma memcpy_tiny_copied:
  assumes "disjoint_blocks d s n" and "n \<le> 128"
  shows "memcpy_tiny d s n mem = copied d s n mem"
proof -
  have "reach n 0 (tiny_copies n) = Some n"
    using tiny_copies_reach_table assms(2) by (auto simp: list_all_iff)
  from fold_reach [OF assms(1) _ this, of mem] show ?thesis by (simp add: memcpy_tiny_def Let_def copied_0)
qed


text \<open>The loop: whole blocks are copied, and fewer than 128 bytes are left.\<close>

lemma boundary_next [simp]: "boundary (a + 128) \<longleftrightarrow> boundary a"
  unfolding boundary_def by presburger

lemma block_loop_copied:
  assumes "disjoint_blocks d s (m + n)" and "boundary (d + m)" and "al \<longrightarrow> boundary (s + m)"
    and "m \<le> pos" and "pos \<le> m + n"
  shows "\<exists>k q. k < 128 \<and> k \<le> n \<and> m + n - k \<le> q \<and> q \<le> m + n \<and>
    block_loop al (d + m) (s + m) n (copied d s pos mem) =
      Inr (d + (m + n - k), s + (m + n - k), k, copied d s q mem)"
  using assms
proof (induction n arbitrary: m pos rule: less_induct)
  case (less n)
  show ?case
  proof (cases "128 \<le> n")
    case False
    then show ?thesis using less.prems(4,5) by (intro exI [of _ n] exI [of _ pos]) (simp add: block_loop.simps)
  next
    case True
    let ?q = "max pos (m + 128)"
    have c: "copied (d + m) (s + m) 128 (copied d s pos mem) = copied d s ?q mem"
      using less.prems True by (intro copied_next [OF less.prems(1)]) simp_all
    have step: "block_loop al (d + m) (s + m) n (copied d s pos mem) =
        block_loop al (d + (m + 128)) (s + (m + 128)) (n - 128) (copied d s ?q mem)"
      using True less.prems(2,3) c
      by (subst block_loop.simps) (simp add: block_copy_def sse2_128 add.assoc)
    have mn: "m + 128 + (n - 128) = m + n" using True by simp
    have "boundary (d + (m + 128))" "al \<longrightarrow> boundary (s + (m + 128))"
      using less.prems(2,3) by (simp_all flip: add.assoc)
    with less.IH [of "n - 128" "m + 128" ?q] True less.prems(1,5) mn
    obtain k q where "k < 128" "k \<le> n - 128" "m + n - k \<le> q" "q \<le> m + n"
        "block_loop al (d + (m + 128)) (s + (m + 128)) (n - 128) (copied d s ?q mem) =
         Inr (d + (m + n - k), s + (m + n - k), k, copied d s q mem)"
      by auto
    then show ?thesis using step by (intro exI [of _ k] exI [of _ q]) simp
  qed
qed

lemma memcpy_blocks_loop:
  "memcpy_blocks d s n mem = block_loop (cachesize < n \<and> boundary s) d s n mem"
  by (simp add: memcpy_blocks_def boundary_def)

lemma padding_boundary: "boundary (d + (16 - d mod 16) mod 16)"
proof (cases "d mod 16 = 0")
  case True
  then show ?thesis by (simp add: boundary_def)
next
  case False
  have "(d + (16 - d mod 16)) mod 16 = (d mod 16 + (16 - d mod 16)) mod 16"
    by (rule mod_add_left_eq [symmetric])
  also have "d mod 16 + (16 - d mod 16) = 16" using mod_less_divisor [of 16 d] by linarith
  finally show ?thesis using False by (simp add: boundary_def)
qed

text \<open>
  C24. \<open>memcpy_fast\<close> is \<open>memcpy\<close>: for every size and every alignment of the two blocks, when
  they do not overlap, it copies exactly the bytes of the source, writes no byte outside the
  destination, and makes no access that needs a boundary at an address off it.
\<close>

theorem memcpy_fast_copies:
  assumes "disjoint_blocks destination source n"
  shows "memcpy_fast destination source n mem =
    Inr (\<lambda>a. if destination \<le> a \<and> a < destination + n then mem (source + (a - destination)) else mem a)"
proof -
  have "memcpy_fast destination source n mem = Inr (copied destination source n mem)"
  proof (cases "n \<le> 128")
    case True
    then show ?thesis using memcpy_tiny_copied [OF assms] by (simp add: memcpy_fast_def)
  next
    case False
    define p where "p = (16 - destination mod 16) mod 16"
    define pos where "pos = (if 0 < p then 16 else 0 :: nat)"
    have p: "p < 16" "boundary (destination + p)" using padding_boundary by (simp_all add: p_def)
    have pn: "p + (n - p) = n" using p False by simp
    have head: "(if 0 < p then (destination + p, source + p, n - p, store destination (load 16 source mem) mem)
        else (destination, source, n, mem)) =
      (destination + p, source + p, n - p, copied destination source pos mem)"
      by (simp add: store_load copied_0 pos_def)
    let ?al = "cachesize < n - p \<and> boundary (source + p)"
    have "p \<le> pos" "pos \<le> p + (n - p)" using p False by (auto simp: pos_def)
    with block_loop_copied [of destination source p "n - p" ?al pos mem] assms p(2) pn obtain k q where
      k: "k < 128" "k \<le> n - p" "n - k \<le> q" "q \<le> n"
        "block_loop ?al (destination + p) (source + p) (n - p) (copied destination source pos mem) =
         Inr (destination + (n - k), source + (n - k), k, copied destination source q mem)"
      by auto
    have dj: "disjoint_blocks (destination + (n - k)) (source + (n - k)) k"
      using assms k pn by (auto simp: disjoint_blocks_def)
    have "memcpy_tiny (destination + (n - k)) (source + (n - k)) k (copied destination source q mem) =
        copied destination source n mem"
      using memcpy_tiny_copied [OF dj, of "copied destination source q mem"] k
        copied_next [OF assms k(3), of k mem] by simp
    then show ?thesis
      using False head k(5) unfolding memcpy_fast_def p_def [symmetric] Let_def
      by (simp only: if_False split memcpy_blocks_loop rbind_simps)
  qed
  then show ?thesis by (simp add: copied_def)
qed

theorem memcpy_fast_copies_witness:
  "\<exists>mem. memcpy_fast 1003 5 300 (\<lambda>a. of_nat a) = Inr mem \<and> mem 1003 = 5 \<and> mem 1302 = 48 \<and> mem 1303 = 23 \<and> mem 1002 = 234"
  using memcpy_fast_copies [of 1003 5 300 "\<lambda>a. of_nat a"] by (simp add: disjoint_blocks_def)

end
