(* ===== verification/Xml_Tables.thy ===== *)
theory Xml_Tables
  imports String_Value
begin

text \<open>
  \<open>Utils/XmlLoader.*\<close>: tables read from XML files, one row per \<open>item\<close> element below \<open>root\<close>.
  The file system and RapidXML's parser are parameters; the tree the parser leaves and its
  searches (\<open>first_node\<close>, \<open>next_sibling\<close>, \<open>first_attribute\<close>) are written out.
\<close>

section \<open>The document tree\<close>

datatype xml_node = Xml_node (node_name: string) (attributes: "(string \<times> string) list") (nodes: "xml_node list")

text \<open>A pointer to a node stands for the node with the siblings that follow it.\<close>

type_synonym node_ptr = "(xml_node \<times> xml_node list) option"

fun first_named :: "string \<Rightarrow> xml_node list \<Rightarrow> node_ptr" where
  "first_named name [] = None"
| "first_named name (n # ns) = (if node_name n = name then Some (n, ns) else first_named name ns)"

definition first_node :: "string \<Rightarrow> xml_node \<Rightarrow> node_ptr" where
  "first_node name n = first_named name (nodes n)"

definition next_sibling :: "string \<Rightarrow> xml_node \<times> xml_node list \<Rightarrow> node_ptr" where
  "next_sibling name p = first_named name (snd p)"

definition first_attribute :: "string \<Rightarrow> xml_node \<Rightarrow> string option" where
  "first_attribute name n = map_of (attributes n) name"


section \<open>The loader\<close>

text \<open>
  \<open>m_pXmlFile\<close> is the text of the file once it was read; \<open>m_xmlDoc\<close> the elements of the
  document. \<open>m_pXmlNextNode\<close> is never read or written.
\<close>

record xml_table =
  m_strFile :: string
  m_pXmlFile :: "string option"
  m_pXmlRoot :: "xml_node option"
  m_pXmlCurNode :: node_ptr
  m_xmlDoc :: "xml_node list"

definition XmlTableLoader_make :: "string \<Rightarrow> string \<Rightarrow> xml_table" where
  "XmlTableLoader_make XmlPath strFile =
     \<lparr> m_strFile = XmlPath @ strFile @ ''.xml'', m_pXmlFile = None, m_pXmlRoot = None,
       m_pXmlCurNode = None, m_xmlDoc = [] \<rparr>"

text \<open>
  Reading gives the text of a file or an exception, which is caught. Parsing gives the elements
  it made and whether it threw: that exception leaves \<open>Init\<close>, with the file read.
\<close>

definition Init_root :: "xml_table \<Rightarrow> bool res \<times> xml_table" where
  "Init_root t =
     (let r = map_option fst (first_named ''root'' (m_xmlDoc t)); t = t\<lparr>m_pXmlRoot := r\<rparr>
      in if r = None then (Inr False, t) else (Inr True, t))"

definition Init :: "(string \<Rightarrow> string option) \<Rightarrow> (string \<Rightarrow> string option \<times> xml_node list) \<Rightarrow>
    xml_table \<Rightarrow> bool res \<times> xml_table" where
  "Init file parse t =
     (if m_pXmlFile t = None
      then (case file (m_strFile t) of
              None \<Rightarrow> (Inr False, t)
            | Some data \<Rightarrow>
                (let t = t\<lparr>m_pXmlFile := Some data\<rparr>; (threw, doc) = parse data; t = t\<lparr>m_xmlDoc := doc\<rparr>
                 in case threw of Some msg \<Rightarrow> (Inl (Throw msg), t) | None \<Rightarrow> Init_root t))
      else Init_root t)"

definition Next :: "xml_table \<Rightarrow> bool \<times> xml_table" where
  "Next t =
     (case m_pXmlRoot t of
        None \<Rightarrow> (False, t)
      | Some root \<Rightarrow>
          (let t = t\<lparr>m_pXmlCurNode := (case m_pXmlCurNode t of
                       None \<Rightarrow> first_node ''item'' root
                     | Some p \<Rightarrow> next_sibling ''item'' p)\<rparr>
           in if m_pXmlCurNode t = None then (False, t\<lparr>m_pXmlRoot := None\<rparr>) else (True, t)))"


section \<open>Reading a row\<close>

definition cur_attribute :: "xml_table \<Rightarrow> string \<Rightarrow> string option" where
  "cur_attribute t pAttribute =
     (case m_pXmlCurNode t of None \<Rightarrow> None | Some p \<Rightarrow> first_attribute pAttribute (fst p))"

text \<open>\<open>get\<close> is \<open>StringUtils::get\<close> for the type of the target, which keeps its value when there is no attribute.\<close>

definition Get :: "(string \<Rightarrow> 'a) \<Rightarrow> xml_table \<Rightarrow> string \<Rightarrow> 'a \<Rightarrow> bool \<times> 'a" where
  "Get get t pAttribute v =
     (case cur_attribute t pAttribute of None \<Rightarrow> (False, v) | Some s \<Rightarrow> (True, get s))"

definition get_text :: "string \<Rightarrow> string" where "get_text pStr = pStr"

text \<open>
  \<open>StringUtils::splitString\<close> on texts is declared and nowhere defined: it is a parameter, which appends
  pieces to a vector. \<open>GetTimePoint\<close> splits the text and drops the pieces; the time is not written.
\<close>

definition GetTimePoint :: "xml_table \<Rightarrow> string \<Rightarrow> u32 \<Rightarrow> bool \<times> u32" where
  "GetTimePoint t pAttribute iTime =
     (case cur_attribute t pAttribute of None \<Rightarrow> (False, iTime) | Some s \<Rightarrow> (True, iTime))"

definition GetVec :: "(string \<Rightarrow> string \<Rightarrow> string list) \<Rightarrow> xml_table \<Rightarrow> string \<Rightarrow> string list \<Rightarrow> string \<Rightarrow>
    bool \<times> string list" where
  "GetVec splitString t pAttribute vOut seq =
     (case cur_attribute t pAttribute of
        None \<Rightarrow> (False, vOut)
      | Some s \<Rightarrow> (True, vOut @ splitString s seq))"

text \<open>
  The template for a separator of one character calls \<open>GetVec\<close> with a vector of texts and the
  character, which is again the template: no text is made of a character implicitly. \<open>None\<close>
  stands for a call that does not return.
\<close>

partial_function (option) GetVec_string ::
    "xml_table \<Rightarrow> string \<Rightarrow> string list \<Rightarrow> char \<Rightarrow> (bool \<times> string list) option" where
  "GetVec_string t pAttribute vOut seq =
     Option.bind (GetVec_string t pAttribute [] seq)
       (\<lambda>(found, vStr). if found then Some (True, vOut @ map get_text vStr) else Some (False, vOut))"

definition GetVec_char :: "(string \<Rightarrow> 'a) \<Rightarrow> xml_table \<Rightarrow> string \<Rightarrow> 'a list \<Rightarrow> char \<Rightarrow>
    (bool \<times> 'a list) option" where
  "GetVec_char get t pAttribute vOut seq =
     Option.bind (GetVec_string t pAttribute [] seq)
       (\<lambda>(found, vStr). if found then Some (True, vOut @ map get vStr) else Some (False, vOut))"

text \<open>The attribute of an element of an array: the number follows the name, in at most 99 characters.\<close>

definition array_attribute :: "string \<Rightarrow> u32 \<Rightarrow> string" where
  "array_attribute pAttribute i = take 99 (pAttribute @ dec_of_int (sint i))"

definition GetArray_loop :: "(string \<Rightarrow> 'a) \<Rightarrow> xml_table \<Rightarrow> string \<Rightarrow> 'a list \<Rightarrow> nat list \<Rightarrow> 'a list" where
  "GetArray_loop get t pAttribute vArray is =
     fold (\<lambda>i v. v[i := snd (Get get t (array_attribute pAttribute (of_nat i)) (v ! i))]) is vArray"

definition GetArray_ptr :: "(string \<Rightarrow> 'a) \<Rightarrow> xml_table \<Rightarrow> string \<Rightarrow> 'a list \<Rightarrow> u32 \<Rightarrow> (bool \<times> 'a list) res" where
  "GetArray_ptr get t pAttribute vArray iLen =
     (if length vArray < unat iLen then Inl Out_of_range
      else Inr (True, GetArray_loop get t pAttribute vArray [0..<unat iLen]))"

definition GetArray :: "(string \<Rightarrow> 'a) \<Rightarrow> xml_table \<Rightarrow> string \<Rightarrow> 'a list \<Rightarrow> bool \<times> 'a list" where
  "GetArray get t pAttribute vArray = (True, GetArray_loop get t pAttribute vArray [0..<length vArray])"

text \<open>The pieces that fit are read into the array.\<close>

definition get_pieces :: "(string \<Rightarrow> 'a) \<Rightarrow> string list \<Rightarrow> 'a list \<Rightarrow> 'a list" where
  "get_pieces get vOut vArray =
     (let iSize = if length vArray > length vOut then length vOut else length vArray
      in fold (\<lambda>i v. v[i := get (vOut ! i)]) [0..<iSize] vArray)"

definition GetArray_seq :: "(string \<Rightarrow> 'a) \<Rightarrow> xml_table \<Rightarrow> string \<Rightarrow> 'a list \<Rightarrow> char \<Rightarrow> (bool \<times> 'a list) option" where
  "GetArray_seq get t pAttribute vArray seq =
     Option.bind (GetVec_char get_text t pAttribute [] seq) (\<lambda>(_, vOut). Some (True, get_pieces get vOut vArray))"

text \<open>The elements of the arrays that no piece is read into are not written.\<close>

definition GetVecArray :: "(string \<Rightarrow> string \<Rightarrow> string list) \<Rightarrow> (string \<Rightarrow> 'a) \<Rightarrow> nat \<Rightarrow> xml_table \<Rightarrow> string \<Rightarrow>
    'a option list list \<Rightarrow> string \<Rightarrow> string \<Rightarrow> bool \<times> 'a option list list" where
  "GetVecArray splitString get Size t pAttribute vArray seq1 seq2 =
     (let vOut = snd (GetVec splitString t pAttribute [] seq1)
      in (True, fold (\<lambda>it v. v @ [get_pieces (\<lambda>s. Some (get s)) (splitString it seq2) (replicate Size None)])
                  vOut vArray))"


section \<open>The rows of a table\<close>

definition rows :: "xml_node list \<Rightarrow> xml_node list" where
  "rows ns = filter (\<lambda>n. node_name n = ''item'') ns"

lemma rows_None: "first_named ''item'' ns = None \<longleftrightarrow> rows ns = []"
  by (induction ns) (auto simp: rows_def)

lemma rows_Some: "first_named ''item'' ns = Some (n, rest) \<Longrightarrow> rows ns = n # rows rest"
  by (induction ns) (auto simp: rows_def split: if_splits)

text \<open>The elements that are still to be visited.\<close>

definition ahead :: "xml_table \<Rightarrow> xml_node list" where
  "ahead t =
     (case m_pXmlRoot t of
        None \<Rightarrow> []
      | Some root \<Rightarrow> (case m_pXmlCurNode t of None \<Rightarrow> nodes root | Some p \<Rightarrow> snd p))"

lemma Next_ahead:
  assumes "m_pXmlRoot t \<noteq> None"
  shows "Next t =
    (let p = first_named ''item'' (ahead t)
     in (p \<noteq> None, t\<lparr>m_pXmlCurNode := p, m_pXmlRoot := (if p = None then None else m_pXmlRoot t)\<rparr>))"
  using assms by (auto simp: Next_def ahead_def first_node_def next_sibling_def Let_def split: option.split)

definition Next_state :: "xml_table \<Rightarrow> xml_table" where
  "Next_state t = snd (Next t)"

lemma Next_iterate:
  assumes "m_pXmlRoot t \<noteq> None" "k < length (rows (ahead t))"
  shows "fst (Next ((Next_state ^^ k) t)) \<and>
    map_option fst (m_pXmlCurNode (Next_state ((Next_state ^^ k) t))) = Some (rows (ahead t) ! k)"
  using assms
proof (induction k arbitrary: t)
  case 0
  then obtain n rest where p: "first_named ''item'' (ahead t) = Some (n, rest)"
    by (metis length_0_conv not_less_zero option.exhaust prod.exhaust rows_None)
  with 0 show ?case by (simp add: Next_ahead Next_state_def Let_def rows_Some [OF p])
next
  case (Suc k)
  then obtain n rest where p: "first_named ''item'' (ahead t) = Some (n, rest)"
    by (metis length_0_conv not_less_zero option.exhaust prod.exhaust rows_None)
  have s: "m_pXmlRoot (Next_state t) \<noteq> None" "ahead (Next_state t) = rest"
    using Suc.prems(1) p by (auto simp: Next_ahead Next_state_def Let_def ahead_def)
  with Suc.IH [of "Next_state t"] Suc.prems rows_Some [OF p] show ?case
    by (simp add: funpow_swap1)
qed

definition spent :: "xml_table \<Rightarrow> bool" where
  "spent t \<longleftrightarrow> m_pXmlRoot t = None \<and> m_pXmlCurNode t = None"

lemma spent_Next: "spent t \<Longrightarrow> Next t = (False, t)"
  by (simp add: spent_def Next_def)

lemma Next_last:
  "m_pXmlRoot t \<noteq> None \<Longrightarrow>
     m_pXmlRoot ((Next_state ^^ length (rows (ahead t))) t) \<noteq> None \<and>
     rows (ahead ((Next_state ^^ length (rows (ahead t))) t)) = [] \<and>
     m_xmlDoc ((Next_state ^^ length (rows (ahead t))) t) = m_xmlDoc t \<and>
     m_pXmlFile ((Next_state ^^ length (rows (ahead t))) t) = m_pXmlFile t"
proof (induction "length (rows (ahead t))" arbitrary: t)
  case 0
  then show ?case by simp
next
  case (Suc k)
  then obtain n rest where p: "first_named ''item'' (ahead t) = Some (n, rest)"
    by (metis length_0_conv nat.simps(3) option.exhaust prod.exhaust rows_None)
  have s: "m_pXmlRoot (Next_state t) \<noteq> None" "ahead (Next_state t) = rest"
    "m_xmlDoc (Next_state t) = m_xmlDoc t" "m_pXmlFile (Next_state t) = m_pXmlFile t"
    using Suc.prems p by (auto simp: Next_ahead Next_state_def Let_def ahead_def)
  with Suc.hyps(1) [of "Next_state t"] Suc.hyps(2) rows_Some [OF p] show ?case
    by (simp add: funpow_swap1)
qed

text \<open>
  After \<open>Init\<close> of a table that is not being read, calling \<open>Next\<close> visits the
  \<open>item\<close> elements of the root, all of them, in the order of the document and nothing else: the k-th
  call gives the k-th row. The call after the last row returns false and leaves no current row;
  so does every further call, every attribute is then missing, and another \<open>Init\<close> starts the
  same rows again.
\<close>

theorem table_visits_rows:
  assumes "Init file parse t = (Inr True, s)" "m_pXmlCurNode t = None"
  shows "\<exists>root rest. first_named ''root'' (m_xmlDoc s) = Some (root, rest) \<and>
    (\<forall>k < length (rows (nodes root)). fst (Next ((Next_state ^^ k) s)) \<and>
       map_option fst (m_pXmlCurNode (Next_state ((Next_state ^^ k) s))) = Some (rows (nodes root) ! k)) \<and>
    (let e = Next_state ((Next_state ^^ length (rows (nodes root))) s)
     in fst (Next ((Next_state ^^ length (rows (nodes root))) s)) = False \<and> Next e = (False, e) \<and>
        cur_attribute e a = None \<and> Init file parse e = (Inr True, s))"
proof -
  have root: "map_option fst (first_named ''root'' (m_xmlDoc s)) = m_pXmlRoot s" "m_pXmlRoot s \<noteq> None"
    "m_pXmlCurNode s = None" "m_pXmlFile s \<noteq> None"
    using assms by (auto simp: Init_def Init_root_def Let_def split: if_splits option.splits prod.splits)
  then obtain r rest where r: "first_named ''root'' (m_xmlDoc s) = Some (r, rest)" "m_pXmlRoot s = Some r" by auto
  then have ah: "ahead s = nodes r" using root(3) by (simp add: ahead_def)
  let ?l = "(Next_state ^^ length (rows (nodes r))) s"
  have l: "m_pXmlRoot ?l \<noteq> None" "first_named ''item'' (ahead ?l) = None" "m_xmlDoc ?l = m_xmlDoc s"
    "m_pXmlFile ?l = m_pXmlFile s"
    using Next_last [OF root(2)] by (simp_all add: ah rows_None)
  then have e: "Next ?l = (False, Next_state ?l)" "spent (Next_state ?l)"
    "m_xmlDoc (Next_state ?l) = m_xmlDoc s" "m_pXmlFile (Next_state ?l) = m_pXmlFile s"
    by (simp_all add: Next_ahead Next_state_def Let_def spent_def)
  have sfile: "m_strFile (Next_state u) = m_strFile u" for u
    by (simp add: Next_state_def Next_def Let_def split: option.split)
  have files: "m_strFile ((Next_state ^^ k) u) = m_strFile u" for k u
    by (induction k) (simp_all add: sfile)
  have "Init file parse (Next_state ?l) = (Inr True, s)"
    using e(2-4) root r sfile [of ?l] files
    by (auto simp: Init_def Init_root_def Let_def spent_def intro!: xml_table.equality)
  moreover have "cur_attribute (Next_state ?l) a = None" using e(2) by (simp add: spent_def cur_attribute_def)
  ultimately show ?thesis
    using r Next_iterate [OF root(2)] e(1) spent_Next [OF e(2)] by (auto simp: ah Let_def)
qed

definition demo_doc :: "xml_node list" where
  "demo_doc = [Xml_node ''root'' []
     [Xml_node ''item'' [(''id'', ''1'')] [], Xml_node ''note'' [] [], Xml_node ''item'' [(''id'', ''2'')] []]]"

definition demo_table :: "bool res \<times> xml_table" where
  "demo_table = Init (\<lambda>f. Some ''text'') (\<lambda>d. (None, demo_doc)) (XmlTableLoader_make ''data/'' ''item'')"

theorem table_visits_rows_witness:
  "fst demo_table = Inr True \<and> fst (Next (Next_state (snd demo_table))) \<and>
   cur_attribute (Next_state (Next_state (snd demo_table))) ''id'' = Some ''2''"
proof -
  have t: "Init (\<lambda>f. Some ''text'') (\<lambda>d. (None, demo_doc)) (XmlTableLoader_make ''data/'' ''item'')
      = (Inr True, snd demo_table)" "m_xmlDoc (snd demo_table) = demo_doc"
    by (simp_all add: demo_table_def Init_def Init_root_def XmlTableLoader_make_def demo_doc_def Let_def)
  obtain root rest where r: "first_named ''root'' demo_doc = Some (root, rest)"
    and k: "\<forall>k < length (rows (nodes root)). fst (Next ((Next_state ^^ k) (snd demo_table))) \<and>
       map_option fst (m_pXmlCurNode (Next_state ((Next_state ^^ k) (snd demo_table)))) = Some (rows (nodes root) ! k)"
    using table_visits_rows [OF t(1), of undefined] t(2) by (auto simp: XmlTableLoader_make_def)
  have rows: "rows (nodes root) = [Xml_node ''item'' [(''id'', ''1'')] [], Xml_node ''item'' [(''id'', ''2'')] []]"
    using r by (auto simp: demo_doc_def rows_def)
  from k [rule_format, of 1] have "fst (Next (Next_state (snd demo_table)))"
    "map_option fst (m_pXmlCurNode (Next_state (Next_state (snd demo_table)))) =
       Some (Xml_node ''item'' [(''id'', ''2'')] [])"
    by (simp_all only: rows) simp_all
  moreover from this(2) have "cur_attribute (Next_state (Next_state (snd demo_table))) ''id'' = Some ''2''"
    by (auto simp: cur_attribute_def first_attribute_def)
  moreover have "fst demo_table = Inr True" using arg_cong [OF t(1), of fst] by (simp only: demo_table_def fst_conv)
  ultimately show ?thesis by simp
qed


section \<open>Calls that do not return\<close>

lemma GetVec_string_None: "GetVec_string t a vOut seq = None"
proof (rule ccontr)
  assume "GetVec_string t a vOut seq \<noteq> None"
  then obtain y where y: "GetVec_string t a vOut seq = Some y" by blast
  have "False"
    by (rule GetVec_string.raw_induct [OF _ y, of "\<lambda>_ _ _ _ _. False"]) (auto split: bind_splits)
  then show False .
qed

text \<open>
  The overloads with a separator of one character never return, whatever the table holds.
\<close>

theorem char_separator_never_returns:
  "GetVec_char get t a v seq = None \<and> GetArray_seq get t a arr seq = None"
  by (simp add: GetVec_char_def GetArray_seq_def GetVec_string_None)

end
