(* ===== verification/Logging.thy ===== *)
theory Logging
  imports String_Value
begin

text \<open>
  \<open>Utils/Log.*\<close>, \<open>Utils/ErrorCode.h\<close> and \<open>Utils/FileUtils.*\<close>: the log, whose entries any
  thread pushes and one thread writes, error codes, and the scan of directories.
\<close>

section \<open>Names of files and error codes\<close>

text \<open>What follows the last \<open>seq\<close> of a path; \<open>strrchr\<close> gives the position of it.\<close>

fun strrchr :: "string \<Rightarrow> char \<Rightarrow> nat option" where
  "strrchr [] c = None"
| "strrchr (x # xs) c =
     (case strrchr xs c of Some i \<Rightarrow> Some (Suc i) | None \<Rightarrow> if x = c then Some 0 else None)"

definition BriefLogFileName :: "char \<Rightarrow> string \<Rightarrow> string" where
  "BriefLogFileName SEQ s = (case strrchr s SEQ of Some p \<Rightarrow> drop (p + 1) s | None \<Rightarrow> s)"

definition briefLogFileName :: "string \<Rightarrow> string" where
  "briefLogFileName s = (case strrchr s (CHR ''/'') of Some p \<Rightarrow> drop (p + 1) s | None \<Rightarrow> s)"

text \<open>The members that only the second constructor writes are optional.\<close>

record error_code =
  iErrorCode :: int
  iLineNum :: "int option"
  sFileName :: "string option"
  sErrorCode :: "string option"

definition eSuccess :: int where "eSuccess = 0"

definition ErrorCode_code :: "int \<Rightarrow> error_code" where
  "ErrorCode_code iCode = \<lparr> iErrorCode = iCode, iLineNum = None, sFileName = None, sErrorCode = None \<rparr>"

definition ErrorCode_make :: "int \<Rightarrow> string \<Rightarrow> string \<Rightarrow> int \<Rightarrow> error_code" where
  "ErrorCode_make iCode sName sFile iline =
     \<lparr> iErrorCode = iCode, iLineNum = Some iline, sFileName = Some sFile, sErrorCode = Some sName \<rparr>"

definition ErrorCode_bool :: "error_code \<Rightarrow> bool" where
  "ErrorCode_bool e = (iErrorCode e \<noteq> eSuccess)"


section \<open>Directories\<close>

text \<open>
  The file system is a parameter: whether a path is a directory, its extension, its stem and
  itself as text. The loop over a directory compares its iterator with itself and does nothing.
\<close>

record file_system =
  is_directory :: "string \<Rightarrow> bool"
  extension :: "string \<Rightarrow> string"
  stem :: "string \<Rightarrow> string"
  generic_string :: "string \<Rightarrow> string"

definition ScanDir :: "file_system \<Rightarrow> string \<Rightarrow> string \<Rightarrow> string list \<Rightarrow> string list" where
  "ScanDir fs strPath strFileType listFile =
     (if is_directory fs strPath then listFile
      else if strFileType = [] \<or> extension fs strPath = strFileType then listFile @ [stem fs strPath]
      else listFile)"

definition ScanDirWithFullFileName :: "file_system \<Rightarrow> string \<Rightarrow> string \<Rightarrow> string list \<Rightarrow> string list" where
  "ScanDirWithFullFileName fs strPath strFileType listFile =
     (if is_directory fs strPath then listFile
      else if strFileType = [] \<or> extension fs strPath = strFileType then listFile @ [generic_string fs strPath]
      else listFile)"


section \<open>The log\<close>

text \<open>An entry: type, file, line and the text of its stream.\<close>

record log_data =
  iLogType :: u32
  szFile :: string
  iFileLine :: u32
  ssLog :: string

definition LogData_make :: "u32 \<Rightarrow> string \<Rightarrow> u32 \<Rightarrow> log_data" where
  "LogData_make iType pFile iLine = \<lparr> iLogType = iType, szFile = pFile, iFileLine = iLine, ssLog = [] \<rparr>"

text \<open>
  A second \<open>Init\<close> without a \<open>Stop\<close> loses the first thread and is not modelled, nor is a handler that throws.
  The writing thread: not started, before the test of \<open>m_bStop\<close>, past it, with the entries it
  took, or at its end. To state properties: the entries pushed and those handled.
\<close>

datatype log_thread = No_thread | Testing | Taking | Writing "log_data list" | Ended

record log =
  m_thread :: log_thread
  m_bStop :: bool
  m_listLog :: "log_data list"
  pushed :: "log_data list"
  written :: "log_data list"

definition Log_make :: log where
  "Log_make = \<lparr> m_thread = No_thread, m_bStop = False, m_listLog = [], pushed = [], written = [] \<rparr>"

definition PushLog :: "log_data \<Rightarrow> log \<Rightarrow> log" where
  "PushLog pLogData s = s\<lparr>m_listLog := m_listLog s @ [pLogData], pushed := pushed s @ [pLogData]\<rparr>"

definition Init_test :: "log \<Rightarrow> log" where
  "Init_test s = s\<lparr>m_thread := (if \<not> m_bStop s then Taking else Ended)\<rparr>"

definition Init_swap :: "log \<Rightarrow> log" where
  "Init_swap s = s\<lparr>m_thread := Writing (m_listLog s), m_listLog := []\<rparr>"

definition Init_write :: "log_data list \<Rightarrow> log \<Rightarrow> log" where
  "Init_write ls s =
     (case ls of
        [] \<Rightarrow> s\<lparr>m_thread := Testing\<rparr>
      | it # rest \<Rightarrow> s\<lparr>m_thread := Writing rest, written := written s @ [it]\<rparr>)"

text \<open>\<open>Stop\<close> sets the flag and then joins, which completes when the thread has ended.\<close>

definition Stop_flag :: "log \<Rightarrow> log" where
  "Stop_flag s = (if m_thread s \<noteq> No_thread then s\<lparr>m_bStop := True\<rparr> else s)"

definition Stop_join :: "log \<Rightarrow> log" where
  "Stop_join s = s\<lparr>m_thread := No_thread\<rparr>"

text \<open>The destructor stops and then drops what is left.\<close>

definition Log_free :: "log \<Rightarrow> log" where
  "Log_free s = s\<lparr>m_listLog := []\<rparr>"

text \<open>The handler the constructor installs prints an entry; \<open>SetLogHandle\<close> installs another.\<close>

definition Log_print :: "log_data \<Rightarrow> string" where
  "Log_print d = szFile d @ '':'' @ dec_of_nat (unat (iFileLine d)) @ '' '' @ ssLog d"

text \<open>The steps of all threads; the client joins only after it has set the flag.\<close>

inductive log_step :: "log \<Rightarrow> log \<Rightarrow> bool" where
  l_push: "log_step s (PushLog d s)"
| l_init: "m_thread s = No_thread \<Longrightarrow> log_step s (s\<lparr>m_thread := Testing\<rparr>)"
| l_test: "m_thread s = Testing \<Longrightarrow> log_step s (Init_test s)"
| l_take: "m_thread s = Taking \<Longrightarrow> log_step s (Init_swap s)"
| l_write: "m_thread s = Writing ls \<Longrightarrow> log_step s (Init_write ls s)"
| l_stop: "log_step s (Stop_flag s)"
| l_join: "m_thread s = Ended \<Longrightarrow> log_step s (Stop_join s)"

abbreviation log_run :: "log \<Rightarrow> log \<Rightarrow> bool" where
  "log_run \<equiv> log_step\<^sup>*\<^sup>*"

definition in_hand :: "log \<Rightarrow> log_data list" where
  "in_hand s = (case m_thread s of Writing ls \<Rightarrow> ls | _ \<Rightarrow> [])"

definition log_ok :: "log \<Rightarrow> bool" where
  "log_ok s \<longleftrightarrow> pushed s = written s @ in_hand s @ m_listLog s \<and>
     (m_thread s = Ended \<longrightarrow> m_bStop s)"

lemma log_ok_step: "log_step s t \<Longrightarrow> log_ok s \<Longrightarrow> log_ok t"
  by (induction rule: log_step.induct)
     (auto simp: log_ok_def in_hand_def PushLog_def Init_test_def Init_swap_def Init_write_def Stop_flag_def
       Stop_join_def split: list.split)

lemma log_ok_run: "log_run s t \<Longrightarrow> log_ok s \<Longrightarrow> log_ok t"
  by (induction rule: rtranclp_induct) (auto intro: log_ok_step)

text \<open>Once the log was stopped, a thread that is between its test and its end is the last.\<close>

lemma stopped_step: "log_step s t \<Longrightarrow> m_bStop s \<Longrightarrow> m_bStop t"
  by (induction rule: log_step.induct)
     (auto simp: PushLog_def Init_test_def Init_swap_def Init_write_def Stop_flag_def Stop_join_def split: list.split)

lemma silent_step:
  "log_step s t \<Longrightarrow> m_bStop s \<and> m_thread s \<in> {No_thread, Testing, Ended} \<Longrightarrow>
     m_bStop t \<and> m_thread t \<in> {No_thread, Testing, Ended} \<and> written t = written s"
  by (induction rule: log_step.induct)
     (auto simp: PushLog_def Init_test_def Init_swap_def Init_write_def Stop_flag_def Stop_join_def split: list.split)

lemma silent_run:
  "log_run s t \<Longrightarrow> m_bStop s \<and> m_thread s \<in> {No_thread, Testing, Ended} \<Longrightarrow>
     m_bStop t \<and> m_thread t \<in> {No_thread, Testing, Ended} \<and> written t = written s"
  by (induction rule: rtranclp_induct) (auto dest: silent_step)

text \<open>
  C25. The log writes the entries in the order in which they were pushed, none twice and none
  left out in between, in every interleaving of the pushing threads and the writing one. When
  \<open>Stop\<close> has returned, no entry is ever written again: those pushed since the last take are
  dropped, and a thread started by another \<open>Init\<close> ends at once.
\<close>

theorem log_in_order:
  assumes "log_run Log_make s"
  shows "pushed s = written s @ in_hand s @ m_listLog s \<and>
    (m_thread s = Ended \<longrightarrow> log_run (Stop_join s) t \<longrightarrow> written t = written s)"
proof -
  have "log_ok Log_make" by (simp add: log_ok_def Log_make_def in_hand_def)
  then have ok: "log_ok s" by (rule log_ok_run [OF assms])
  have "written t = written s" if "m_thread s = Ended" "log_run (Stop_join s) t"
    using silent_run [OF that(2)] that(1) ok by (simp add: log_ok_def Stop_join_def)
  with ok show ?thesis by (simp add: log_ok_def)
qed

text \<open>An entry pushed before \<open>Stop\<close>, which is dropped.\<close>

definition demo_started :: log where
  "demo_started = Log_make\<lparr>m_thread := Testing\<rparr>"

definition demo_dropped :: log where
  "demo_dropped = Init_test (Stop_flag (PushLog (LogData_make 1 ''a.cpp'' 7) demo_started))"

lemma demo_dropped_run: "log_run Log_make demo_dropped"
proof -
  let ?p = "PushLog (LogData_make 1 ''a.cpp'' 7) demo_started"
  have "log_run Log_make demo_started"
    unfolding demo_started_def by (rule r_into_rtranclp, rule l_init) (simp add: Log_make_def)
  then have "log_run Log_make ?p" by (rule rtranclp.rtrancl_into_rtrancl) (rule l_push)
  then have "log_run Log_make (Stop_flag ?p)" by (rule rtranclp.rtrancl_into_rtrancl) (rule l_stop)
  then show ?thesis unfolding demo_dropped_def
    by (rule rtranclp.rtrancl_into_rtrancl) (rule l_test, simp add: Stop_flag_def PushLog_def demo_started_def)
qed

theorem log_in_order_witness:
  "pushed demo_dropped = [LogData_make 1 ''a.cpp'' 7] \<and>
   pushed demo_dropped = written demo_dropped @ in_hand demo_dropped @ m_listLog demo_dropped \<and>
   written (PushLog (LogData_make 1 ''b.cpp'' 8) (Stop_join demo_dropped)) = []"
proof -
  have ended: "m_thread demo_dropped = Ended" and none: "written demo_dropped = []"
    and one: "pushed demo_dropped = [LogData_make 1 ''a.cpp'' 7]"
    by (simp_all add: demo_dropped_def demo_started_def Init_test_def Stop_flag_def PushLog_def Log_make_def)
  have "log_run (Stop_join demo_dropped) (PushLog (LogData_make 1 ''b.cpp'' 8) (Stop_join demo_dropped))"
    by (rule r_into_rtranclp) (rule l_push)
  with log_in_order [OF demo_dropped_run] ended none one show ?thesis by metis
qed

lemma strrchr_Some:
  "strrchr s c = Some i \<Longrightarrow> i < length s \<and> s ! i = c \<and> c \<notin> set (drop (i + 1) s)"
proof (induction s arbitrary: i)
  case Nil
  then show ?case by simp
next
  case (Cons x s)
  have none: "strrchr s c = None \<Longrightarrow> c \<notin> set s" for s
    by (induction s) (auto split: option.splits if_splits)
  show ?case using Cons none by (auto split: option.splits if_splits)
qed

text \<open>A brief name holds no separator, and a path is what precedes it and the name.\<close>

lemma brief_name: "\<exists>p. s = p @ BriefLogFileName SEQ s \<and> SEQ \<notin> set (BriefLogFileName SEQ s)"
proof (cases "strrchr s SEQ")
  case None
  have "strrchr s c = None \<Longrightarrow> c \<notin> set s" for s c
    by (induction s) (auto split: option.splits if_splits)
  then show ?thesis using None by (intro exI [of _ "[]"]) (simp add: BriefLogFileName_def)
next
  case (Some i)
  then show ?thesis
    using strrchr_Some [OF Some] by (intro exI [of _ "take (i + 1) s"]) (simp add: BriefLogFileName_def)
qed

end
