(* ===== verification/Sds.thy ===== *)
theory Sds
  imports String_Value
begin

text \<open>
  \<open>DataHandle/hiredis_win/sds.*\<close>: the growing strings that the redis client keeps its buffers
  in. A string has its bytes and the room behind them; the header's \<open>len\<close> is the number of
  bytes, and the byte after the last is a NUL. Memory is always granted and sizes stay below 2 to
  the 31, so the tests for a null string and the conversions between \<open>int\<close> and \<open>size_t\<close> fall away.
\<close>

record sds =
  s_buf :: string
  s_free :: nat

definition sdslen :: "sds \<Rightarrow> nat" where "sdslen s = length (s_buf s)"

definition sdsavail :: "sds \<Rightarrow> nat" where "sdsavail s = s_free s"


section \<open>Making and growing\<close>

definition NUL :: char where "NUL = CHR 0x00"

text \<open>Without bytes to start from, the string is filled with NULs.\<close>

definition sdsnewlen :: "string option \<Rightarrow> nat \<Rightarrow> sds" where
  "sdsnewlen bytes initlen =
     \<lparr> s_buf = (case bytes of Some t \<Rightarrow> take initlen t | None \<Rightarrow> replicate initlen NUL), s_free = 0 \<rparr>"

definition sdsempty :: sds where "sdsempty = sdsnewlen (Some '''') 0"

text \<open>The characters before the first NUL of a text.\<close>

definition c_str :: "string \<Rightarrow> string" where "c_str t = takeWhile (\<lambda>c. c \<noteq> NUL) t"

definition sdsnew :: "string option \<Rightarrow> sds" where
  "sdsnew t = sdsnewlen (map_option c_str t) (case t of None \<Rightarrow> 0 | Some t \<Rightarrow> length (c_str t))"

definition sdsdup :: "sds \<Rightarrow> sds" where
  "sdsdup s = sdsnewlen (Some (s_buf s)) (sdslen s)"

definition sdsupdatelen :: "sds \<Rightarrow> sds" where
  "sdsupdatelen s =
     (let reallen = length (c_str (s_buf s))
      in \<lparr> s_buf = take reallen (s_buf s), s_free = s_free s + (sdslen s - reallen) \<rparr>)"

definition sdsMakeRoomFor :: "sds \<Rightarrow> nat \<Rightarrow> sds" where
  "sdsMakeRoomFor s addlen =
     (if addlen \<le> sdsavail s then s
      else (let newlen = (sdslen s + addlen) * 2 in s\<lparr>s_free := newlen - sdslen s\<rparr>))"

definition sdsgrowzero :: "sds \<Rightarrow> nat \<Rightarrow> sds" where
  "sdsgrowzero s n =
     (if n \<le> sdslen s then s
      else (let cur = sdslen s; s = sdsMakeRoomFor s (n - cur); totlen = cur + s_free s
            in \<lparr> s_buf = s_buf s @ replicate (n - cur) NUL, s_free = totlen - n \<rparr>))"

definition sdscatlen :: "sds \<Rightarrow> string \<Rightarrow> sds" where
  "sdscatlen s t =
     (let s = sdsMakeRoomFor s (length t) in \<lparr> s_buf = s_buf s @ t, s_free = s_free s - length t \<rparr>)"

definition sdscat :: "sds \<Rightarrow> string \<Rightarrow> sds" where
  "sdscat s t = sdscatlen s (c_str t)"

definition sdscpylen :: "sds \<Rightarrow> string \<Rightarrow> sds" where
  "sdscpylen s t =
     (let totlen = s_free s + sdslen s;
          s = (if totlen < length t then sdsMakeRoomFor s (length t - sdslen s) else s);
          totlen = s_free s + sdslen s
      in \<lparr> s_buf = t, s_free = totlen - length t \<rparr>)"

definition sdscpy :: "sds \<Rightarrow> string \<Rightarrow> sds" where
  "sdscpy s t = sdscpylen s (c_str t)"

text \<open>
  \<open>sdscatvprintf\<close>: \<open>printed\<close> is the text that the format and its arguments make. A buffer
  takes all but its last byte of it, which is a NUL, and is long enough when the byte before the
  last is still the NUL put there.
\<close>

function printf_buffer :: "string \<Rightarrow> nat \<Rightarrow> string" where
  "printf_buffer printed buflen =
     (if length (c_str printed) \<le> buflen - 2 \<or> buflen < 2 then take (buflen - 1) (c_str printed)
      else printf_buffer printed (buflen * 2))"
  by pat_completeness auto
termination
  by (relation "measure (\<lambda>(t, n). length (c_str t) + 3 - n)") auto

declare printf_buffer.simps [simp del]

definition sdscatvprintf :: "sds \<Rightarrow> string \<Rightarrow> sds" where
  "sdscatvprintf s printed = sdscat s (printf_buffer printed 16)"


section \<open>Cutting\<close>

definition in_cset :: "string \<Rightarrow> char \<Rightarrow> bool" where
  "in_cset cset c \<longleftrightarrow> c \<in> set (c_str cset) \<or> c = NUL"

fun trim_right :: "(char \<Rightarrow> bool) \<Rightarrow> string \<Rightarrow> nat \<Rightarrow> nat" where
  "trim_right P s 0 = 0"
| "trim_right P s (Suc ep) = (if P (s ! Suc ep) then trim_right P s ep else Suc ep)"

definition sdstrim :: "sds \<Rightarrow> string \<Rightarrow> sds" where
  "sdstrim s cset =
     (if sdslen s = 0 then s
      else (let sp = length (takeWhile (in_cset cset) (s_buf s));
                ep = trim_right (in_cset cset) (s_buf s) (sdslen s - 1);
                len' = (if ep < sp then 0 else ep - sp + 1)
            in \<lparr> s_buf = take len' (drop sp (s_buf s)), s_free = s_free s + (sdslen s - len') \<rparr>))"

text \<open>The range from \<open>start\<close> to \<open>end\<close>, both included; negative positions count from the end.\<close>

definition sdsrange :: "sds \<Rightarrow> int \<Rightarrow> int \<Rightarrow> sds" where
  "sdsrange s start end' =
     (let len' = int (sdslen s) in
      if len' = 0 then s
      else
        (let start = (if start < 0 then max 0 (len' + start) else start);
             end' = (if end' < 0 then max 0 (len' + end') else end');
             newlen = (if start > end' then 0 else end' - start + 1);
             (start, newlen) =
               (if newlen \<noteq> 0
                then (if len' \<le> start then (start, 0)
                      else if len' \<le> end'
                      then (let end' = len' - 1 in (start, if start > end' then 0 else end' - start + 1))
                      else (start, newlen))
                else (0, newlen))
         in \<lparr> s_buf = take (nat newlen) (drop (nat start) (s_buf s)),
              s_free = s_free s + (sdslen s - nat newlen) \<rparr>))"

text \<open>What the client uses: what follows a position.\<close>

lemma sdsrange_drop: "pos \<le> sdslen s \<Longrightarrow> s_buf (sdsrange s (int pos) (- 1)) = drop pos (s_buf s)"
  by (auto simp: sdsrange_def Let_def sdslen_def)

lemma sdscatlen_buf [simp]: "s_buf (sdscatlen s t) = s_buf s @ t"
  by (simp add: sdscatlen_def sdsMakeRoomFor_def Let_def)

lemma sdsempty_buf [simp]: "s_buf sdsempty = []"
  by (simp add: sdsempty_def sdsnewlen_def)

text \<open>The room is what was asked for: appending never takes more than there is.\<close>

lemma sdsMakeRoomFor_room: "length t \<le> s_free (sdsMakeRoomFor s (length t))"
  by (simp add: sdsMakeRoomFor_def Let_def sdsavail_def)

lemma printf_buffer_all: "2 \<le> buflen \<Longrightarrow> printf_buffer printed buflen = c_str printed"
proof (induction printed buflen rule: printf_buffer.induct)
  case (1 printed buflen)
  then show ?case by (subst printf_buffer.simps) auto
qed

lemma c_str_c_str [simp]: "c_str (c_str t) = c_str t"
  by (simp add: c_str_def takeWhile_idem)

lemma sdscatvprintf_buf: "s_buf (sdscatvprintf s printed) = s_buf s @ c_str printed"
  by (simp add: sdscatvprintf_def sdscat_def printf_buffer_all)


section \<open>Case, comparison and numbers\<close>

text \<open>\<open>tolower\<close> and \<open>toupper\<close> in the C locale.\<close>

definition c_tolower :: "char \<Rightarrow> char" where
  "c_tolower c = (let n = of_char c :: nat in if 65 \<le> n \<and> n \<le> 90 then char_of (n + 32) else c)"

definition c_toupper :: "char \<Rightarrow> char" where
  "c_toupper c = (let n = of_char c :: nat in if 97 \<le> n \<and> n \<le> 122 then char_of (n - 32) else c)"

definition sdstolower :: "sds \<Rightarrow> sds" where
  "sdstolower s = s\<lparr>s_buf := map c_tolower (s_buf s)\<rparr>"

definition sdstoupper :: "sds \<Rightarrow> sds" where
  "sdstoupper s = s\<lparr>s_buf := map c_toupper (s_buf s)\<rparr>"

text \<open>\<open>memcmp\<close>, of which only the sign is used.\<close>

fun c_memcmp :: "string \<Rightarrow> string \<Rightarrow> int" where
  "c_memcmp (a # as) (b # bs) =
     (if a = b then c_memcmp as bs else if (of_char a :: nat) < of_char b then - 1 else 1)"
| "c_memcmp _ _ = 0"

definition sdscmp :: "sds \<Rightarrow> sds \<Rightarrow> int" where
  "sdscmp s1 s2 =
     (let l1 = sdslen s1; l2 = sdslen s2; minlen = min l1 l2;
          cmp = c_memcmp (take minlen (s_buf s1)) (take minlen (s_buf s2))
      in if cmp = 0 then int l1 - int l2 else cmp)"

text \<open>The digits from the last to the first.\<close>

fun longlong_digits :: "nat \<Rightarrow> string \<Rightarrow> string" where
  "longlong_digits v p =
     (let p = digit_char (v mod 10) # p; v = v div 10 in if v = 0 then p else longlong_digits v p)"

declare longlong_digits.simps [simp del]

definition sdsfromlonglong :: "int \<Rightarrow> sds" where
  "sdsfromlonglong i =
     (let p = longlong_digits (nat (if i < 0 then - i else i)) [];
          p = (if i < 0 then CHR ''-'' # p else p)
      in sdsnewlen (Some p) (length p))"

lemma longlong_digits_dec: "longlong_digits v p = dec_of_nat v @ p"
proof (induction v p rule: longlong_digits.induct)
  case (1 v p)
  then show ?case
    by (subst longlong_digits.simps, subst dec_of_nat.simps) (auto simp: Let_def div_eq_0_iff)
qed

lemma sdsfromlonglong_dec: "s_buf (sdsfromlonglong i) = dec_of_int i"
  by (simp add: sdsfromlonglong_def Let_def longlong_digits_dec dec_of_int_def sdsnewlen_def)

text \<open>The order of \<open>sdscmp\<close>: it is zero on equal strings only.\<close>

lemma c_memcmp_zero: "length xs = length ys \<Longrightarrow> c_memcmp xs ys = 0 \<longleftrightarrow> xs = ys"
  by (induction xs ys rule: list_induct2) auto

lemma sdscmp_zero: "sdscmp s1 s2 = 0 \<longleftrightarrow> s_buf s1 = s_buf s2"
proof -
  let ?m = "min (sdslen s1) (sdslen s2)"
  have "c_memcmp (take ?m (s_buf s1)) (take ?m (s_buf s2)) = 0
      \<longleftrightarrow> take ?m (s_buf s1) = take ?m (s_buf s2)"
    by (rule c_memcmp_zero) (simp add: sdslen_def)
  then show ?thesis by (auto simp: sdscmp_def Let_def sdslen_def)
qed


section \<open>Splitting at a separator\<close>

text \<open>The loop at position \<open>j\<close> with the start of the current piece and the pieces made.\<close>

function split_loop :: "string \<Rightarrow> string \<Rightarrow> nat \<Rightarrow> nat \<Rightarrow> string list \<Rightarrow> nat \<times> string list" where
  "split_loop s sep start j tokens =
     (if sep \<noteq> [] \<and> j < length s - (length sep - 1)
      then (if take (length sep) (drop j s) = sep
            then split_loop s sep (j + length sep) (j + length sep)
                   (tokens @ [take (j - start) (drop start s)])
            else split_loop s sep start (j + 1) tokens)
      else (start, tokens))"
  by pat_completeness auto
termination
  by (relation "measure (\<lambda>(s, sep, start, j, tokens). length s - j)") (auto simp: neq_Nil_conv)

declare split_loop.simps [simp del]

definition sdssplitlen :: "string \<Rightarrow> string \<Rightarrow> string list option" where
  "sdssplitlen s sep =
     (if length sep < 1 then None
      else if length s = 0 then Some []
      else (let (start, tokens) = split_loop s sep 0 0 [] in Some (tokens @ [drop start s])))"

text \<open>The pieces are what the text is made of: put together with the separator they give it back.\<close>

lemma split_loop_concat:
  "split_loop s sep start j tokens = (start', tokens') \<Longrightarrow>
     concat (map (\<lambda>t. t @ sep) tokens) = take start s \<Longrightarrow> start \<le> j \<Longrightarrow> start \<le> length s \<Longrightarrow>
     concat (map (\<lambda>t. t @ sep) tokens') = take start' s \<and> start' \<le> length s"
proof (induction s sep start j tokens rule: split_loop.induct)
  case (1 s sep start j tokens)
  show ?case
  proof (cases "sep \<noteq> [] \<and> j < length s - (length sep - 1)")
    case False
    then show ?thesis using 1(3-) by (subst (asm) split_loop.simps) auto
  next
    case loop: True
    then have len: "j + length sep \<le> length s" by (cases sep) auto
    show ?thesis
    proof (cases "take (length sep) (drop j s) = sep")
      case True
      have "take start s @ take (j - start) (drop start s) = take j s"
        using 1(5) by (simp flip: take_add)
      moreover have "take j s @ sep = take (j + length sep) s"
        using True by (simp add: take_add)
      ultimately have "take start s @ take (j - start) (drop start s) @ sep = take (j + length sep) s"
        by (metis append.assoc)
      then have "concat (map (\<lambda>t. t @ sep) (tokens @ [take (j - start) (drop start s)])) = take (j + length sep) s"
        using 1(4) by simp
      moreover have "split_loop s sep (j + length sep) (j + length sep)
          (tokens @ [take (j - start) (drop start s)]) = (start', tokens')"
        using 1(3) loop True by (subst (asm) split_loop.simps) simp
      ultimately show ?thesis using 1(1) [OF loop True] len by simp
    next
      case False
      then have "split_loop s sep start (j + 1) tokens = (start', tokens')"
        using 1(3) loop by (subst (asm) split_loop.simps) simp
      then show ?thesis using 1(2) [OF loop False] 1(4-) by simp
    qed
  qed
qed

lemma sdssplitlen_concat:
  assumes "sdssplitlen s sep = Some ts" and "s \<noteq> []"
  shows "\<exists>vs t. ts = vs @ [t] \<and> concat (map (\<lambda>v. v @ sep) vs) @ t = s"
proof -
  obtain start vs where l: "split_loop s sep 0 0 [] = (start, vs)" by fastforce
  then have "ts = vs @ [drop start s]" using assms by (auto simp: sdssplitlen_def split: if_splits)
  moreover have "concat (map (\<lambda>v. v @ sep) vs) = take start s"
    using split_loop_concat [OF l] by simp
  ultimately show ?thesis by simp
qed


section \<open>Quoted arguments\<close>

definition c_isprint :: "char \<Rightarrow> bool" where
  "c_isprint c \<longleftrightarrow> 32 \<le> (of_char c :: nat) \<and> (of_char c :: nat) < 127"

definition hex_digit :: "nat \<Rightarrow> char" where
  "hex_digit d = (if d < 10 then char_of (48 + d) else char_of (87 + d))"

definition repr_char :: "char \<Rightarrow> string" where
  "repr_char c =
     (if c = CHR 0x5C \<or> c = CHR 0x22 then [CHR 0x5C, c]
      else if c = CHR 0x0A then [CHR 0x5C, CHR ''n'']
      else if c = CHR 0x0D then [CHR 0x5C, CHR ''r'']
      else if c = CHR 0x09 then [CHR 0x5C, CHR ''t'']
      else if c = CHR 0x07 then [CHR 0x5C, CHR ''a'']
      else if c = CHR 0x08 then [CHR 0x5C, CHR ''b'']
      else if c_isprint c then [c]
      else [CHR 0x5C, CHR ''x'', hex_digit (of_char c div 16), hex_digit (of_char c mod 16)])"

definition sdscatrepr :: "sds \<Rightarrow> string \<Rightarrow> sds" where
  "sdscatrepr s p =
     sdscatlen (fold (\<lambda>c s. sdscatlen s (repr_char c)) p (sdscatlen s [CHR 0x22])) [CHR 0x22]"

text \<open>The line ends at its NUL, which the empty list stands for.\<close>

definition unescape :: "char \<Rightarrow> char" where
  "unescape c =
     (if c = CHR ''n'' then CHR 0x0A
      else if c = CHR ''r'' then CHR 0x0D
      else if c = CHR ''t'' then CHR 0x09
      else if c = CHR ''b'' then CHR 0x08
      else if c = CHR ''a'' then CHR 0x07
      else c)"

fun get_token :: "bool \<Rightarrow> string \<Rightarrow> string \<Rightarrow> (string \<times> string) option" where
  "get_token True current [] = None"
| "get_token True current (c # p) =
     (if c = CHR 0x5C \<and> p \<noteq> [] then get_token True (current @ [unescape (hd p)]) (tl p)
      else if c = CHR 0x22 then (if p \<noteq> [] \<and> \<not> is_space (hd p) then None else Some (current, p))
      else get_token True (current @ [c]) p)"
| "get_token False current [] = Some (current, [])"
| "get_token False current (c # p) =
     (if c \<in> {CHR '' '', CHR 0x0A, CHR 0x0D, CHR 0x09} then Some (current, p)
      else if c = CHR 0x22 then get_token True current p
      else get_token False (current @ [c]) p)"

lemma get_token_length:
  "get_token inq current p = Some (t, rest) \<Longrightarrow> length rest \<le> length p"
proof (induction inq current p arbitrary: t rest rule: get_token.induct)
  case (2 current c p)
  have "length (tl p) \<le> Suc (length p)" by simp
  with 2 show ?case by (fastforce split: if_splits)
qed (auto split: if_splits dest: le_SucI)

lemma get_token_shorter:
  assumes "get_token False [] (c # p) = Some (t, rest)"
  shows "length rest < Suc (length p)"
  using assms by (auto split: if_splits dest: get_token_length)

text \<open>
  The arguments of a line and their number: none for a quote that is not closed or not followed
  by a blank, when the number ends as -1; and none for a line of blanks, with the number 0.
\<close>

function split_args :: "string list \<Rightarrow> string \<Rightarrow> string list option" where
  "split_args vector p =
     (let p = dropWhile is_space p in
      if p = [] then Some vector
      else (case get_token False [] p of
              None \<Rightarrow> None
            | Some (current, rest) \<Rightarrow> split_args (vector @ [current]) rest))"
  by pat_completeness auto
termination
proof (relation "measure (\<lambda>(v, p). length p)", goal_cases)
  case (2 vector p x xa current rest)
  then obtain c cs where c: "x = c # cs" by (metis list.exhaust)
  have "get_token False [] x = Some (current, rest)" using 2 by simp
  then have "length rest < length x" using get_token_shorter [of c cs current rest] c by (simp del: get_token.simps)
  also have "length x \<le> length p" using 2(1) by (simp add: length_dropWhile_le)
  finally show ?case by simp
qed simp

declare split_args.simps [simp del]

definition sdssplitargs :: "string \<Rightarrow> string list option \<times> int" where
  "sdssplitargs line =
     (case split_args [] line of
        None \<Rightarrow> (None, - 1)
      | Some [] \<Rightarrow> (None, 0)
      | Some vector \<Rightarrow> (Some vector, int (length vector)))"

text \<open>What \<open>sdscatrepr\<close> writes without a hexadecimal number.\<close>

definition no_hex :: "char \<Rightarrow> bool" where
  "no_hex c \<longleftrightarrow> c_isprint c \<or> c \<in> {CHR 0x0A, CHR 0x0D, CHR 0x09, CHR 0x07, CHR 0x08}"

definition quoted :: "string \<Rightarrow> string" where
  "quoted a = s_buf (sdscatrepr sdsempty a)"

lemma fold_repr: "s_buf (fold (\<lambda>c s. sdscatlen s (repr_char c)) p s) = s_buf s @ concat (map repr_char p)"
  by (induction p arbitrary: s) simp_all

lemma quoted_eq: "quoted a = CHR 0x22 # concat (map repr_char a) @ [CHR 0x22]"
  by (simp add: quoted_def sdscatrepr_def fold_repr)

lemma repr_cases:
  assumes "no_hex c"
  shows "repr_char c = [c] \<and> c \<noteq> CHR 0x5C \<and> c \<noteq> CHR 0x22 \<or>
    (\<exists>e. repr_char c = [CHR 0x5C, e] \<and> unescape e = c)"
proof (cases "c \<in> {CHR 0x5C, CHR 0x22, CHR 0x0A, CHR 0x0D, CHR 0x09, CHR 0x07, CHR 0x08}")
  case True
  then show ?thesis by (elim insertE emptyE; simp only:) (simp_all add: repr_char_def unescape_def)
next
  case False
  then have "c_isprint c" "c \<noteq> CHR 0x5C" "c \<noteq> CHR 0x22" using assms unfolding no_hex_def by blast+
  moreover have "repr_char c = [c]" using False \<open>c_isprint c\<close> unfolding repr_char_def by simp
  ultimately show ?thesis by blast
qed

lemma get_token_repr:
  assumes "no_hex c" and "p \<noteq> []"
  shows "get_token True current (repr_char c @ p) = get_token True (current @ [c]) p"
  using repr_cases [OF assms(1)] assms(2) by (elim disjE exE conjE) simp_all

lemma get_token_body:
  assumes "list_all no_hex a" and "rest = [] \<or> is_space (hd rest)"
  shows "get_token True current (concat (map repr_char a) @ CHR 0x22 # rest) = Some (current @ a, rest)"
  using assms(1)
proof (induction a arbitrary: current)
  case Nil
  then show ?case using assms(2) by auto
next
  case (Cons c a)
  then show ?case by (simp add: get_token_repr)
qed

lemma split_args_quoted:
  assumes "list_all (list_all no_hex) args"
  shows "split_args v (join_with '' '' (map quoted args)) = Some (v @ args)"
  using assms
proof (induction args arbitrary: v)
  case Nil
  then show ?case by (simp add: split_args.simps)
next
  case (Cons a args)
  let ?rest = "if args = [] then [] else CHR '' '' # join_with '' '' (map quoted args)"
  have "join_with '' '' (map quoted (a # args)) = quoted a @ ?rest"
    by (cases args) simp_all
  moreover have "get_token False [] (quoted a @ ?rest) = Some (a, ?rest)"
    using get_token_body [of a ?rest "[]"] Cons.prems by (simp add: quoted_eq is_space_def)
  moreover have "dropWhile is_space (quoted a @ ?rest) = quoted a @ ?rest"
    by (simp add: quoted_eq is_space_def)
  moreover have "quoted a \<noteq> []" by (simp add: quoted_eq)
  ultimately have "split_args v (join_with '' '' (map quoted (a # args))) = split_args (v @ [a]) ?rest"
    by (subst split_args.simps) (simp add: Let_def del: list.map join_with.simps get_token.simps)
  also have "split_args (v @ [a]) ?rest = split_args (v @ [a]) (join_with '' '' (map quoted args))"
  proof (cases args)
    case (Cons b bs)
    then show ?thesis by (subst (1 2) split_args.simps) (simp add: is_space_def)
  qed simp
  finally show ?case using Cons.IH [of "v @ [a]"] Cons.prems by simp
qed

text \<open>A character written in hexadecimal is read as the letter and the digits.\<close>

lemma hex_digit_plain: "d < 16 \<Longrightarrow> hex_digit d \<noteq> CHR 0x5C \<and> hex_digit d \<noteq> CHR 0x22"
  by (auto simp: hex_digit_def char_of_eq_iff take_bit_eq_mod)

lemma split_args_hex:
  assumes "\<not> no_hex c"
  shows "split_args [] (quoted [c]) =
    Some [[CHR ''x'', hex_digit (of_char c div 16), hex_digit (of_char c mod 16)]]"
proof -
  let ?a = "hex_digit (of_char c div 16)" and ?b = "hex_digit (of_char c mod 16)"
  have "(of_char c :: nat) < 256" by simp
  then have "(of_char c :: nat) div 16 < 16" by linarith
  then have d: "?a \<noteq> CHR 0x5C" "?a \<noteq> CHR 0x22" "?b \<noteq> CHR 0x5C" "?b \<noteq> CHR 0x22"
    using hex_digit_plain [of "of_char c div 16"] hex_digit_plain [of "of_char c mod 16"] by simp_all
  have "no_hex (CHR 0x5C)" "no_hex (CHR 0x22)" by (simp_all add: no_hex_def c_isprint_def)
  then have "c \<noteq> CHR 0x5C" "c \<noteq> CHR 0x22" using assms by blast+
  then have repr: "repr_char c = [CHR 0x5C, CHR ''x'', ?a, ?b]"
    using assms unfolding repr_char_def no_hex_def by simp
  have q: "quoted [c] = CHR 0x22 # CHR 0x5C # CHR ''x'' # ?a # ?b # [CHR 0x22]"
    by (simp add: quoted_eq repr)
  have "get_token False [] (quoted [c]) = Some ([CHR ''x'', ?a, ?b], [])"
    unfolding q using d by (simp add: unescape_def)
  moreover have "dropWhile is_space (quoted [c]) = quoted [c]" unfolding q by (simp add: is_space_def)
  moreover have "quoted [c] \<noteq> []" unfolding q by simp
  ultimately show ?thesis by (subst split_args.simps) (simp add: split_args.simps Let_def del: get_token.simps)
qed

text \<open>
  Quoting and splitting: the line that \<open>sdscatrepr\<close> makes of texts, put together with blanks,
  is split by \<open>sdssplitargs\<close> into these texts, if no character of them needs a hexadecimal number;
  a character that does is not read back, against the comment of the function.
\<close>

theorem split_quoted_args:
  assumes "args \<noteq> []" and "list_all (list_all no_hex) args"
  shows "sdssplitargs (join_with '' '' (map quoted args)) = (Some args, int (length args)) \<and>
    (\<not> no_hex c \<longrightarrow> sdssplitargs (quoted [c]) \<noteq> (Some [[c]], 1))"
proof
  show "sdssplitargs (join_with '' '' (map quoted args)) = (Some args, int (length args))"
    using split_args_quoted [OF assms(2), of "[]"] assms(1)
    by (cases args) (simp_all add: sdssplitargs_def)
  have "sdssplitargs (quoted [c]) \<noteq> (Some [[c]], 1)" if "\<not> no_hex c"
    using split_args_hex [OF that] by (simp add: sdssplitargs_def)
  then show "\<not> no_hex c \<longrightarrow> sdssplitargs (quoted [c]) \<noteq> (Some [[c]], 1)" by blast
qed

theorem split_quoted_args_witness:
  "sdssplitargs (join_with '' '' (map quoted [''SET'', ''a b'', [CHR 0x0A, CHR 0x22]])) =
     (Some [''SET'', ''a b'', [CHR 0x0A, CHR 0x22]], 3)"
proof -
  have "list_all (list_all no_hex) [''SET'', ''a b'', [CHR 0x0A, CHR 0x22]]"
    by (simp add: no_hex_def c_isprint_def)
  from split_quoted_args [OF _ this, THEN conjunct1] show ?thesis by simp
qed

end
