(* ===== verification/Redis_Reader.thy ===== *)
theory Redis_Reader
  imports Sds
begin

text \<open>
  The protocol reader of \<open>DataHandle/hiredis_win/hiredis.*\<close>: bytes that arrive in any pieces are
  appended to a buffer, and replies are taken from it. A reply under construction is reached from
  its root only, so the pointer to an object of it is the list of indices that leads there, and
  an array has a place for each element, which is null until the element was read. The reply
  functions are the default ones. Memory is always granted and sizes stay below 2 to the 31.
\<close>

section \<open>Replies and tasks\<close>

definition REDIS_REPLY_STRING :: int where "REDIS_REPLY_STRING = 1"
definition REDIS_REPLY_ARRAY :: int where "REDIS_REPLY_ARRAY = 2"
definition REDIS_REPLY_INTEGER :: int where "REDIS_REPLY_INTEGER = 3"
definition REDIS_REPLY_NIL :: int where "REDIS_REPLY_NIL = 4"
definition REDIS_REPLY_STATUS :: int where "REDIS_REPLY_STATUS = 5"
definition REDIS_REPLY_ERROR :: int where "REDIS_REPLY_ERROR = 6"

lemmas reply_types = REDIS_REPLY_STRING_def REDIS_REPLY_ARRAY_def REDIS_REPLY_INTEGER_def
  REDIS_REPLY_NIL_def REDIS_REPLY_STATUS_def REDIS_REPLY_ERROR_def

text \<open>\<open>Obj_text\<close> has the type of a string, a status or an error; an array has its member \<open>elements\<close>.\<close>

datatype reply_obj =
    Obj_text int string
  | Obj_array int "reply_obj option list"
  | Obj_integer int
  | Obj_nil

record read_task =
  t_type :: int
  t_elements :: int
  t_idx :: int
  t_obj :: "nat list option"
  t_parent :: "nat option"

record redis_reader =
  r_err :: int
  r_errstr :: string
  r_buf :: "sds option"
  r_pos :: nat
  r_len :: nat
  rstack :: "read_task list"
  ridx :: int
  r_reply :: "reply_obj option"

definition cur_task :: "redis_reader \<Rightarrow> read_task" where
  "cur_task r = rstack r ! nat (ridx r)"

definition set_task :: "nat \<Rightarrow> read_task \<Rightarrow> redis_reader \<Rightarrow> redis_reader" where
  "set_task i t r = r\<lparr>rstack := (rstack r)[i := t]\<rparr>"

text \<open>The bytes of the buffer, which is null after an error.\<close>

definition r_bytes :: "redis_reader \<Rightarrow> string" where
  "r_bytes r = (case r_buf r of Some s \<Rightarrow> s_buf s | None \<Rightarrow> [])"


section \<open>Making replies\<close>

text \<open>\<open>parent->element[task->idx] = r\<close>, by the indices that lead to the parent and the last one.\<close>

fun put_at :: "nat list \<Rightarrow> reply_obj \<Rightarrow> reply_obj \<Rightarrow> reply_obj res" where
  "put_at [i] x (Obj_array n els) =
     (if i < length els then Inr (Obj_array n (els[i := Some x])) else Inl Out_of_range)"
| "put_at (i # j # path) x (Obj_array n els) =
     (if i < length els
      then (case els ! i of
              None \<Rightarrow> Inl Null_deref
            | Some parent \<Rightarrow> rbind (put_at (j # path) x parent) (\<lambda>p. Inr (Obj_array n (els[i := Some p]))))
      else Inl Out_of_range)"
| "put_at _ x _ = Inl Assert_fail"

definition put_in_parent :: "read_task \<Rightarrow> reply_obj \<Rightarrow> redis_reader \<Rightarrow> redis_reader res" where
  "put_in_parent task x r =
     (case t_parent task of
        None \<Rightarrow> Inr r
      | Some k \<Rightarrow>
          (case (t_obj (rstack r ! k), r_reply r) of
             (Some path, Some root) \<Rightarrow>
               rbind (put_at (path @ [nat (t_idx task)]) x root) (\<lambda>root. Inr (r\<lparr>r_reply := Some root\<rparr>))
           | _ \<Rightarrow> Inl Null_deref))"

text \<open>The pointer to the object a task makes: the root, or an element of the parent's object.\<close>

definition task_path :: "read_task \<Rightarrow> redis_reader \<Rightarrow> nat list" where
  "task_path task r =
     (case t_parent task of
        None \<Rightarrow> []
      | Some k \<Rightarrow> (case t_obj (rstack r ! k) of None \<Rightarrow> [] | Some path \<Rightarrow> path @ [nat (t_idx task)]))"

definition createStringObject :: "read_task \<Rightarrow> string \<Rightarrow> redis_reader \<Rightarrow> (reply_obj \<times> redis_reader) res" where
  "createStringObject task str r =
     assert_utils (t_type task \<in> {REDIS_REPLY_ERROR, REDIS_REPLY_STATUS, REDIS_REPLY_STRING})
       (let x = Obj_text (t_type task) str in rbind (put_in_parent task x r) (\<lambda>r. Inr (x, r)))"

definition createArrayObject :: "read_task \<Rightarrow> int \<Rightarrow> redis_reader \<Rightarrow> (reply_obj \<times> redis_reader) res" where
  "createArrayObject task n r =
     (let x = Obj_array n (replicate (nat n) None) in rbind (put_in_parent task x r) (\<lambda>r. Inr (x, r)))"

definition createIntegerObject :: "read_task \<Rightarrow> int \<Rightarrow> redis_reader \<Rightarrow> (reply_obj \<times> redis_reader) res" where
  "createIntegerObject task i r =
     (let x = Obj_integer i in rbind (put_in_parent task x r) (\<lambda>r. Inr (x, r)))"

definition createNilObject :: "read_task \<Rightarrow> redis_reader \<Rightarrow> (reply_obj \<times> redis_reader) res" where
  "createNilObject task r = rbind (put_in_parent task Obj_nil r) (\<lambda>r. Inr (Obj_nil, r))"


section \<open>Errors\<close>

definition REDIS_ERR_PROTOCOL :: int where "REDIS_ERR_PROTOCOL = 4"

text \<open>An error frees the reply under construction and the buffer.\<close>

definition redisReaderSetError :: "int \<Rightarrow> string \<Rightarrow> redis_reader \<Rightarrow> redis_reader" where
  "redisReaderSetError type str r =
     (let r = r\<lparr>r_reply := None\<rparr>;
          r = (if r_buf r \<noteq> None then r\<lparr>r_buf := None, r_pos := 0, r_len := 0\<rparr> else r)
      in r\<lparr>ridx := - 1, r_err := type, r_errstr := take 127 str\<rparr>)"

definition chrtos :: "char \<Rightarrow> string" where
  "chrtos byte =
     (if byte = CHR 0x5C \<or> byte = CHR 0x22 then [CHR 0x22, CHR 0x5C, byte, CHR 0x22]
      else if byte = CHR 0x0A then [CHR 0x22, CHR 0x5C, CHR ''n'', CHR 0x22]
      else if byte = CHR 0x0D then [CHR 0x22, CHR 0x5C, CHR ''r'', CHR 0x22]
      else if byte = CHR 0x09 then [CHR 0x22, CHR 0x5C, CHR ''t'', CHR 0x22]
      else if byte = CHR 0x07 then [CHR 0x22, CHR 0x5C, CHR ''a'', CHR 0x22]
      else if byte = CHR 0x08 then [CHR 0x22, CHR 0x5C, CHR ''b'', CHR 0x22]
      else if c_isprint byte then [CHR 0x22, byte, CHR 0x22]
      else [CHR 0x22, CHR 0x5C, CHR ''x'', hex_digit (of_char byte div 16), hex_digit (of_char byte mod 16), CHR 0x22])"

definition protocol_byte_error :: "char \<Rightarrow> string" where
  "protocol_byte_error byte = ''Protocol error, got '' @ chrtos byte @ '' as reply type byte''"

definition nested_error :: string where
  "nested_error = ''No support for nested multi bulk replies with depth > 1''"

definition redisReaderSetErrorProtocolByte :: "char \<Rightarrow> redis_reader \<Rightarrow> redis_reader" where
  "redisReaderSetErrorProtocolByte byte r = redisReaderSetError REDIS_ERR_PROTOCOL (protocol_byte_error byte) r"


section \<open>Lines and numbers\<close>

abbreviation CR :: char where "CR \<equiv> CHR 0x0D"
abbreviation LF :: char where "LF \<equiv> CHR 0x0A"

text \<open>A byte of the buffer, which has a NUL behind its last.\<close>

definition byte_at :: "string \<Rightarrow> nat \<Rightarrow> char" where
  "byte_at s i = (if i < length s then s ! i else NUL)"

function skip_to_cr :: "string \<Rightarrow> nat \<Rightarrow> nat \<Rightarrow> nat" where
  "skip_to_cr s len' pos = (if pos < len' \<and> byte_at s pos \<noteq> CR then skip_to_cr s len' (pos + 1) else pos)"
  by pat_completeness auto
termination
  by (relation "measure (\<lambda>(s, n, pos). n - pos)") auto

declare skip_to_cr.simps [simp del]

lemma skip_to_cr_ge: "pos \<le> skip_to_cr s len' pos"
proof (induction s len' pos rule: skip_to_cr.induct)
  case (1 s len' pos)
  then show ?case by (subst skip_to_cr.simps) auto
qed

function seek_loop :: "string \<Rightarrow> nat \<Rightarrow> nat \<Rightarrow> nat option" where
  "seek_loop s len' pos =
     (if pos < len'
      then (let pos = skip_to_cr s len' pos in
            if byte_at s pos \<noteq> CR then None
            else if byte_at s (pos + 1) = LF then Some pos
            else seek_loop s len' (pos + 1))
      else None)"
  by pat_completeness auto
termination
proof (relation "measure (\<lambda>(s, n, pos). n - pos)", goal_cases)
  case (2 s len' pos x)
  then show ?case using skip_to_cr_ge [of pos s len'] by simp
qed simp

declare seek_loop.simps [simp del]

text \<open>The first line end among the first \<open>len\<close> bytes.\<close>

definition seekNewline :: "string \<Rightarrow> nat \<Rightarrow> nat option" where
  "seekNewline s len = seek_loop s (len - 1) 0"

text \<open>The digits up to a return; the number has 64 bits and wraps.\<close>

fun read_digits :: "64 word \<Rightarrow> string \<Rightarrow> 64 word option" where
  "read_digits v [] = None"
| "read_digits v (c # s) =
     (if c = CR then Some v
      else if is_digit c then read_digits (v * 10 + of_nat (digit_val c)) s
      else None)"

definition readLongLong :: "string \<Rightarrow> int" where
  "readLongLong s =
     (let (mult, s) =
        (if s \<noteq> [] \<and> hd s = CHR ''-'' then (- 1, tl s)
         else if s \<noteq> [] \<and> hd s = CHR ''+'' then (1, tl s)
         else (1, s))
      in case read_digits 0 s of None \<Rightarrow> - 1 | Some v \<Rightarrow> sint (mult * v))"

text \<open>A \<open>long\<close> has 32 bits where this code is built.\<close>

definition to_long :: "int \<Rightarrow> int" where
  "to_long i = sint (word_of_int i :: 32 word)"

text \<open>The bytes from the position on; a line with its length; a number of bytes.\<close>

definition from_pos :: "redis_reader \<Rightarrow> string" where
  "from_pos r = drop (r_pos r) (r_bytes r)"

definition readLine :: "redis_reader \<Rightarrow> (string \<times> nat \<times> redis_reader) option" where
  "readLine r =
     (case seekNewline (from_pos r) (r_len r - r_pos r) of
        None \<Rightarrow> None
      | Some len \<Rightarrow> Some (from_pos r, len, r\<lparr>r_pos := r_pos r + (len + 2)\<rparr>))"

definition readBytes :: "nat \<Rightarrow> redis_reader \<Rightarrow> (string \<times> redis_reader) option" where
  "readBytes n r =
     (if n \<le> r_len r - r_pos r then Some (from_pos r, r\<lparr>r_pos := r_pos r + n\<rparr>) else None)"


section \<open>Processing items\<close>

function moveToNextTask :: "redis_reader \<Rightarrow> redis_reader res" where
  "moveToNextTask r =
     (if 0 \<le> ridx r
      then (if ridx r = 0 then Inr (r\<lparr>ridx := - 1\<rparr>)
            else (let cur = cur_task r; prv = rstack r ! nat (ridx r - 1) in
                  assert_utils (t_type prv = REDIS_REPLY_ARRAY)
                    (if t_idx cur = t_elements prv - 1 then moveToNextTask (r\<lparr>ridx := ridx r - 1\<rparr>)
                     else assert_utils (t_idx cur < t_elements prv)
                       (Inr (set_task (nat (ridx r))
                          (cur\<lparr>t_type := - 1, t_elements := - 1, t_idx := t_idx cur + 1\<rparr>) r)))))
      else Inr r)"
  by pat_completeness auto
termination
  by (relation "measure (\<lambda>r. nat (ridx r))") auto

declare moveToNextTask.simps [simp del]

text \<open>The object is the reply when it is the root's; the next task follows. The result is whether to go on.\<close>

definition finish_item :: "reply_obj \<times> redis_reader \<Rightarrow> (bool \<times> redis_reader) res" where
  "finish_item = (\<lambda>(x, r).
     let r = (if ridx r = 0 then r\<lparr>r_reply := Some x\<rparr> else r)
     in rbind (moveToNextTask r) (\<lambda>r. Inr (True, r)))"

definition processLineItem :: "redis_reader \<Rightarrow> (bool \<times> redis_reader) res" where
  "processLineItem r =
     (let cur = cur_task r in
      case readLine r of
        None \<Rightarrow> Inr (False, r)
      | Some (p, len, r) \<Rightarrow>
          rbind (if t_type cur = REDIS_REPLY_INTEGER then createIntegerObject cur (readLongLong p) r
                 else createStringObject cur (take len p) r)
            finish_item)"

definition processBulkItem :: "redis_reader \<Rightarrow> (bool \<times> redis_reader) res" where
  "processBulkItem r =
     (let cur = cur_task r; p = from_pos r in
      case seekNewline p (r_len r - r_pos r) of
        None \<Rightarrow> Inr (False, r)
      | Some s \<Rightarrow>
          (let bytelen = s + 2; len = to_long (readLongLong p) in
           if len < 0
           then rbind (createNilObject cur r) (\<lambda>(x, r). finish_item (x, r\<lparr>r_pos := r_pos r + bytelen\<rparr>))
           else (let bytelen = bytelen + (nat len + 2) in
                 if r_pos r + bytelen \<le> r_len r
                 then rbind (createStringObject cur (take (nat len) (drop (s + 2) p)) r)
                        (\<lambda>(x, r). finish_item (x, r\<lparr>r_pos := r_pos r + bytelen\<rparr>))
                 else Inr (False, r))))"

text \<open>The object of an array; the first of its elements is the next task when there are any.\<close>

definition enter_array :: "read_task \<Rightarrow> int \<Rightarrow> redis_reader \<Rightarrow> (reply_obj \<times> redis_reader) res" where
  "enter_array cur n r =
     (let i = nat (ridx r) in
      if n = - 1
      then rbind (createNilObject cur r) (\<lambda>(x, r). rbind (moveToNextTask r) (\<lambda>r. Inr (x, r)))
      else rbind (createArrayObject cur n r) (\<lambda>(x, r).
             if 0 < n
             then (let path = task_path cur r;
                       r = set_task i (cur\<lparr>t_elements := n, t_obj := Some path\<rparr>) r;
                       r = set_task (i + 1)
                             \<lparr> t_type = - 1, t_elements = - 1, t_idx = 0, t_obj = None, t_parent = Some i \<rparr> r
                   in Inr (x, r\<lparr>ridx := ridx r + 1\<rparr>))
             else rbind (moveToNextTask r) (\<lambda>r. Inr (x, r))))"

definition processMultiBulkItem :: "redis_reader \<Rightarrow> (bool \<times> redis_reader) res" where
  "processMultiBulkItem r =
     (let cur = cur_task r in
      if ridx r = 2 then Inr (False, redisReaderSetError REDIS_ERR_PROTOCOL nested_error r)
      else (case readLine r of
              None \<Rightarrow> Inr (False, r)
            | Some (p, _, r) \<Rightarrow>
                (let n = to_long (readLongLong p); root = (ridx r = 0) in
                 rbind (enter_array cur n r)
                   (\<lambda>(x, r). Inr (True, if root then r\<lparr>r_reply := Some x\<rparr> else r)))))"

definition reply_type_of :: "char \<Rightarrow> int option" where
  "reply_type_of c =
     (if c = CHR ''-'' then Some REDIS_REPLY_ERROR
      else if c = CHR ''+'' then Some REDIS_REPLY_STATUS
      else if c = CHR '':'' then Some REDIS_REPLY_INTEGER
      else if c = CHR ''$'' then Some REDIS_REPLY_STRING
      else if c = CHR ''*'' then Some REDIS_REPLY_ARRAY
      else None)"

definition process_typed :: "redis_reader \<Rightarrow> (bool \<times> redis_reader) res" where
  "process_typed r =
     (let type = t_type (cur_task r) in
      if type = REDIS_REPLY_ERROR \<or> type = REDIS_REPLY_STATUS \<or> type = REDIS_REPLY_INTEGER then processLineItem r
      else if type = REDIS_REPLY_STRING then processBulkItem r
      else if type = REDIS_REPLY_ARRAY then processMultiBulkItem r
      else Inl Assert_fail)"

definition processItem :: "redis_reader \<Rightarrow> (bool \<times> redis_reader) res" where
  "processItem r =
     (if t_type (cur_task r) < 0
      then (case readBytes 1 r of
              None \<Rightarrow> Inr (False, r)
            | Some (p, r) \<Rightarrow>
                (case reply_type_of (byte_at p 0) of
                   None \<Rightarrow> Inr (False, redisReaderSetErrorProtocolByte (byte_at p 0) r)
                 | Some ty \<Rightarrow> process_typed (set_task (nat (ridx r)) ((cur_task r)\<lparr>t_type := ty\<rparr>) r)))
      else process_typed r)"


section \<open>Every item takes bytes\<close>

definition bytes_left :: "redis_reader \<Rightarrow> nat" where
  "bytes_left r = r_len r - r_pos r"

lemma set_task_left [simp]: "r_pos (set_task i t r) = r_pos r" "r_len (set_task i t r) = r_len r"
  by (simp_all add: set_task_def)

lemma moveToNextTask_left:
  "moveToNextTask r = Inr r' \<Longrightarrow> r_pos r' = r_pos r \<and> r_len r' = r_len r"
proof (induction r rule: moveToNextTask.induct)
  case (1 r)
  show ?case
  proof (cases "0 \<le> ridx r \<and> ridx r \<noteq> 0 \<and> t_type (rstack r ! nat (ridx r - 1)) = REDIS_REPLY_ARRAY \<and>
      t_idx (cur_task r) = t_elements (rstack r ! nat (ridx r - 1)) - 1")
    case True
    then have "moveToNextTask (r\<lparr>ridx := ridx r - 1\<rparr>) = Inr r'"
      using 1(2) by (subst (asm) moveToNextTask.simps) (simp add: Let_def)
    then show ?thesis using 1(1) True by simp
  next
    case False
    then show ?thesis
      using 1(2) by (subst (asm) moveToNextTask.simps) (auto simp: Let_def assert_utils_def split: if_splits)
  qed
qed

lemma put_in_parent_left:
  "put_in_parent t x r = Inr r' \<Longrightarrow> r_pos r' = r_pos r \<and> r_len r' = r_len r"
  by (auto simp: put_in_parent_def rbind_Inr_conv split: option.splits)

lemma create_left:
  "createStringObject t str r = Inr (x, r') \<Longrightarrow> r_pos r' = r_pos r \<and> r_len r' = r_len r"
  "createArrayObject t n r = Inr (x, r') \<Longrightarrow> r_pos r' = r_pos r \<and> r_len r' = r_len r"
  "createIntegerObject t i r = Inr (x, r') \<Longrightarrow> r_pos r' = r_pos r \<and> r_len r' = r_len r"
  "createNilObject t r = Inr (x, r') \<Longrightarrow> r_pos r' = r_pos r \<and> r_len r' = r_len r"
  by (auto simp: createStringObject_def createArrayObject_def createIntegerObject_def createNilObject_def
      Let_def rbind_Inr_conv assert_utils_Inr_conv dest!: put_in_parent_left)

lemma finish_item_left:
  "finish_item (x, r) = Inr (b, r') \<Longrightarrow> r_pos r' = r_pos r \<and> r_len r' = r_len r"
  by (auto simp: finish_item_def Let_def rbind_Inr_conv dest!: moveToNextTask_left split: if_splits)

lemma seekNewline_left: "seekNewline s n = Some k \<Longrightarrow> 0 < n"
  by (cases "n = 0") (auto simp: seekNewline_def seek_loop.simps)

lemma processLineItem_left:
  assumes "processLineItem r = Inr (True, r')"
  shows "bytes_left r' < bytes_left r"
proof -
  obtain k where k: "seekNewline (from_pos r) (r_len r - r_pos r) = Some k"
    using assms by (auto simp: processLineItem_def readLine_def Let_def split: option.splits)
  then have "r_pos r' = r_pos r + (k + 2) \<and> r_len r' = r_len r"
    using assms
    by (auto simp: processLineItem_def readLine_def Let_def rbind_Inr_conv split: if_splits
        dest!: create_left finish_item_left)
  then show ?thesis using seekNewline_left [OF k] by (simp add: bytes_left_def)
qed

lemma processBulkItem_left:
  assumes "processBulkItem r = Inr (True, r')"
  shows "bytes_left r' < bytes_left r"
proof -
  obtain k where k: "seekNewline (from_pos r) (r_len r - r_pos r) = Some k"
    using assms by (auto simp: processBulkItem_def Let_def split: option.splits)
  then have "r_pos r + 2 \<le> r_pos r' \<and> r_len r' = r_len r"
    using assms
    by (auto simp: processBulkItem_def Let_def rbind_Inr_conv split: if_splits
        dest!: create_left finish_item_left)
  then show ?thesis using seekNewline_left [OF k] unfolding bytes_left_def by linarith
qed

lemma enter_array_left:
  assumes "enter_array cur n r = Inr (x, r')"
  shows "r_pos r' = r_pos r \<and> r_len r' = r_len r"
proof (cases "n = - 1")
  case True
  then show ?thesis
    using assms by (auto simp: enter_array_def Let_def rbind_Inr_conv dest!: create_left moveToNextTask_left)
next
  case False
  then obtain y r1 where c: "createArrayObject cur n r = Inr (y, r1)"
    using assms by (auto simp: enter_array_def Let_def rbind_Inr_conv)
  show ?thesis
  proof (cases "0 < n")
    case True
    then show ?thesis using assms False create_left(2) [OF c] by (auto simp: enter_array_def c Let_def)
  next
    case no: False
    then show ?thesis
      using assms False create_left(2) [OF c]
      by (auto simp: enter_array_def c Let_def rbind_Inr_conv dest!: moveToNextTask_left)
  qed
qed

lemma processMultiBulkItem_left:
  assumes "processMultiBulkItem r = Inr (True, r')"
  shows "bytes_left r' < bytes_left r"
proof -
  obtain k where k: "seekNewline (from_pos r) (r_len r - r_pos r) = Some k"
    using assms by (auto simp: processMultiBulkItem_def readLine_def Let_def split: option.splits if_splits)
  then have "r_pos r' = r_pos r + (k + 2) \<and> r_len r' = r_len r"
    using assms
    by (auto simp: processMultiBulkItem_def readLine_def Let_def rbind_Inr_conv split: if_splits
        dest!: enter_array_left)
  then show ?thesis using seekNewline_left [OF k] by (simp add: bytes_left_def)
qed

lemma process_typed_left: "process_typed r = Inr (True, r') \<Longrightarrow> bytes_left r' < bytes_left r"
  by (auto simp: process_typed_def Let_def split: if_splits
      dest: processLineItem_left processBulkItem_left processMultiBulkItem_left)

lemma processItem_left:
  assumes "processItem r = Inr (True, r')"
  shows "bytes_left r' < bytes_left r"
proof (cases "t_type (cur_task r) < 0")
  case True
  then show ?thesis
    using assms
    by (auto simp: processItem_def readBytes_def bytes_left_def Let_def split: option.splits if_splits
        dest!: process_typed_left)
next
  case False
  then show ?thesis using assms by (simp add: processItem_def process_typed_left)
qed


section \<open>The reader\<close>

definition empty_task :: read_task where
  "empty_task = \<lparr> t_type = 0, t_elements = 0, t_idx = 0, t_obj = None, t_parent = None \<rparr>"

definition redisReaderCreate :: redis_reader where
  "redisReaderCreate =
     \<lparr> r_err = 0, r_errstr = [], r_buf = Some sdsempty, r_pos = 0, r_len = 0,
       rstack = replicate 3 empty_task, ridx = - 1, r_reply = None \<rparr>"

definition REDIS_OK :: int where "REDIS_OK = 0"
definition REDIS_ERR :: int where "REDIS_ERR = - 1"

definition redisReaderFeed :: "string \<Rightarrow> redis_reader \<Rightarrow> (int \<times> redis_reader) res" where
  "redisReaderFeed buf r =
     (if r_err r \<noteq> 0 then Inr (REDIS_ERR, r)
      else if 1 \<le> length buf
      then (case r_buf r of
              None \<Rightarrow> Inl Null_deref
            | Some b \<Rightarrow>
                (let (b, pos) = (if r_len r = 0 \<and> 16 * 1024 < sdsavail b then (sdsempty, 0) else (b, r_pos r));
                     newbuf = sdscatlen b buf
                 in Inr (REDIS_OK, r\<lparr>r_buf := Some newbuf, r_pos := pos, r_len := sdslen newbuf\<rparr>)))
      else Inr (REDIS_OK, r))"

function process_items :: "redis_reader \<Rightarrow> redis_reader res" where
  "process_items r =
     (if 0 \<le> ridx r
      then (case processItem r of
              Inl e \<Rightarrow> Inl e
            | Inr (ok, r') \<Rightarrow> if ok then process_items r' else Inr r')
      else Inr r)"
  by pat_completeness auto
termination
  by (relation "measure bytes_left") (auto dest: processItem_left)

declare process_items.simps [simp del]

definition start_reply :: "redis_reader \<Rightarrow> redis_reader" where
  "start_reply r =
     (if ridx r = - 1
      then (set_task 0 \<lparr> t_type = - 1, t_elements = - 1, t_idx = - 1, t_obj = None, t_parent = None \<rparr> r)\<lparr>ridx := 0\<rparr>
      else r)"

definition redisReaderGetReply :: "redis_reader \<Rightarrow> (int \<times> reply_obj option \<times> redis_reader) res" where
  "redisReaderGetReply r =
     (if r_err r \<noteq> 0 then Inr (REDIS_ERR, None, r)
      else if r_len r = 0 then Inr (REDIS_OK, None, r)
      else rbind (process_items (start_reply r)) (\<lambda>r.
        if r_err r \<noteq> 0 then Inr (REDIS_ERR, None, r)
        else (case r_buf r of
                None \<Rightarrow> Inl Null_deref
              | Some b \<Rightarrow>
                  (let r = (if 1024 \<le> r_pos r
                            then (let b = sdsrange b (int (r_pos r)) (- 1)
                                  in r\<lparr>r_buf := Some b, r_pos := 0, r_len := sdslen b\<rparr>)
                            else r)
                   in if ridx r = - 1 then Inr (REDIS_OK, r_reply r, r\<lparr>r_reply := None\<rparr>)
                      else Inr (REDIS_OK, None, r)))))"

end
