(* ===== verification/Redis_Protocol.thy ===== *)
theory Redis_Protocol
  imports Redis_Reader
begin

text \<open>
  What the protocol reader of \<open>Redis_Reader\<close> promises: an abstract machine over the bytes not yet
  taken and the arrays that are open, which the reader refines. From it: no bytes lead the reader
  out of its arrays, how the bytes are cut into pieces does not matter, and the replies that
  were encoded are read back.
\<close>

section \<open>The abstract machine\<close>

fun crlf :: "string \<Rightarrow> nat option" where
  "crlf [] = None"
| "crlf (c # s) = (if c = CR \<and> s \<noteq> [] \<and> hd s = LF then Some 0 else map_option Suc (crlf s))"

text \<open>
  One item of the input below a number of open arrays: there is not enough of it, it is no item,
  it is an object, or it opens an array.
\<close>

datatype item = More | Bad string | Leaf reply_obj string | Open_array int string

definition bulk_item :: "string \<Rightarrow> item" where
  "bulk_item u =
     (case crlf u of
        None \<Rightarrow> More
      | Some k \<Rightarrow>
          (let len = to_long (readLongLong u) in
           if len < 0 then Leaf Obj_nil (drop (k + 2) u)
           else if k + 2 + (nat len + 2) \<le> length u
           then Leaf (Obj_text REDIS_REPLY_STRING (take (nat len) (drop (k + 2) u))) (drop (k + 2 + (nat len + 2)) u)
           else More))"

definition array_item :: "nat \<Rightarrow> string \<Rightarrow> item" where
  "array_item level u =
     (if level = 2 then Bad nested_error
      else (case crlf u of
              None \<Rightarrow> More
            | Some k \<Rightarrow>
                (let n = to_long (readLongLong u) in
                 if n = - 1 then Leaf Obj_nil (drop (k + 2) u)
                 else if 0 < n then Open_array n (drop (k + 2) u)
                 else Leaf (Obj_array n []) (drop (k + 2) u))))"

definition line_item :: "int \<Rightarrow> string \<Rightarrow> item" where
  "line_item type u =
     (case crlf u of
        None \<Rightarrow> More
      | Some k \<Rightarrow>
          Leaf (if type = REDIS_REPLY_INTEGER then Obj_integer (readLongLong u) else Obj_text type (take k u))
            (drop (k + 2) u))"

definition typed_item :: "nat \<Rightarrow> int \<Rightarrow> string \<Rightarrow> item" where
  "typed_item level type u =
     (if type = REDIS_REPLY_STRING then bulk_item u
      else if type = REDIS_REPLY_ARRAY then array_item level u
      else line_item type u)"

fun take_item :: "nat \<Rightarrow> string \<Rightarrow> item" where
  "take_item level [] = More"
| "take_item level (c # u) =
     (case reply_type_of c of None \<Rightarrow> Bad (protocol_byte_error c) | Some type \<Rightarrow> typed_item level type u)"

text \<open>The open arrays, the innermost first: their numbers of elements and the elements read.\<close>

type_synonym frames = "(int \<times> reply_obj list) list"

fun complete :: "reply_obj \<Rightarrow> frames \<Rightarrow> reply_obj + frames" where
  "complete x [] = Inl x"
| "complete x ((n, d) # gs) =
     (if int (length d) + 1 = n then complete (Obj_array n (map Some (d @ [x]))) gs
      else Inr ((n, d @ [x]) # gs))"

datatype outcome = Pending frames string | Reply reply_obj string | Failed string

lemma take_item_shorter:
  "take_item level u = Leaf x rest \<Longrightarrow> length rest < length u"
  "take_item level u = Open_array n rest \<Longrightarrow> length rest < length u"
  by (cases u; auto simp: typed_item_def bulk_item_def array_item_def line_item_def Let_def
      split: option.splits if_splits)+

function decode :: "frames \<Rightarrow> string \<Rightarrow> outcome" where
  "decode gs u =
     (case take_item (length gs) u of
        More \<Rightarrow> Pending gs u
      | Bad e \<Rightarrow> Failed e
      | Leaf x rest \<Rightarrow> (case complete x gs of Inl y \<Rightarrow> Reply y rest | Inr gs' \<Rightarrow> decode gs' rest)
      | Open_array n rest \<Rightarrow> decode ((n, []) # gs) rest)"
  by pat_completeness auto
termination
  by (relation "measure (\<lambda>(gs, u). length u)") (auto dest: take_item_shorter)

declare decode.simps [simp del]


section \<open>Line ends\<close>

lemma skip_to_cr_spec:
  "pos \<le> len' \<Longrightarrow> pos \<le> skip_to_cr s len' pos \<and> skip_to_cr s len' pos \<le> len' \<and>
     (\<forall>i. pos \<le> i \<and> i < skip_to_cr s len' pos \<longrightarrow> byte_at s i \<noteq> CR) \<and>
     (skip_to_cr s len' pos < len' \<longrightarrow> byte_at s (skip_to_cr s len' pos) = CR)"
proof (induction s len' pos rule: skip_to_cr.induct)
  case (1 s len' pos)
  show ?case
  proof (cases "pos < len' \<and> byte_at s pos \<noteq> CR")
    case True
    have e: "skip_to_cr s len' pos = skip_to_cr s len' (pos + 1)"
      using True by (subst skip_to_cr.simps) simp
    have ih: "pos + 1 \<le> skip_to_cr s len' (pos + 1)" "skip_to_cr s len' (pos + 1) \<le> len'"
      "\<forall>i. pos + 1 \<le> i \<and> i < skip_to_cr s len' (pos + 1) \<longrightarrow> byte_at s i \<noteq> CR"
      "skip_to_cr s len' (pos + 1) < len' \<longrightarrow> byte_at s (skip_to_cr s len' (pos + 1)) = CR"
      using 1(1) [OF True] True by simp_all
    have "byte_at s i \<noteq> CR" if "pos \<le> i" "i < skip_to_cr s len' (pos + 1)" for i
      using ih(3) that True by (cases "i = pos") auto
    then show ?thesis unfolding e using ih by auto
  next
    case False
    have "skip_to_cr s len' pos = pos" using False by (subst skip_to_cr.simps) (rule if_not_P)
    then show ?thesis using 1(2) False by auto
  qed
qed

lemma crlf_skip:
  assumes "\<And>i. i < k \<Longrightarrow> byte_at s i \<noteq> CR" and "k \<le> length s"
  shows "crlf s = map_option ((+) k) (crlf (drop k s))"
  using assms
proof (induction k arbitrary: s)
  case 0
  then show ?case by (simp add: option.map_id0 [unfolded id_def] map_option_cong)
next
  case (Suc k)
  then obtain c t where s: "s = c # t" by (cases s) auto
  have "c \<noteq> CR" using Suc.prems(1) [of 0] by (simp add: s byte_at_def)
  moreover have "crlf t = map_option ((+) k) (crlf (drop k t))"
  proof (rule Suc.IH)
    show "byte_at t i \<noteq> CR" if "i < k" for i
      using Suc.prems(1) [of "Suc i"] that by (simp add: s byte_at_def split: if_splits)
    show "k \<le> length t" using Suc.prems(2) by (simp add: s)
  qed
  ultimately show ?case by (cases "crlf (drop k t)") (simp_all add: s)
qed

lemma crlf_short: "length s \<le> 1 \<Longrightarrow> crlf s = None"
  by (cases s) auto

lemma seek_loop_crlf:
  "pos \<le> length s \<Longrightarrow> seek_loop s (length s - 1) pos = map_option ((+) pos) (crlf (drop pos s))"
proof (induction s "length s - 1" pos rule: seek_loop.induct)
  case (1 s pos)
  show ?case
  proof (cases "pos < length s - 1")
    case False
    then have "crlf (drop pos s) = None" by (intro crlf_short) simp
    then show ?thesis using False by (subst seek_loop.simps) simp
  next
    case True
    let ?q = "skip_to_cr s (length s - 1) pos"
    have q: "pos \<le> ?q" "?q \<le> length s - 1" "\<And>i. pos \<le> i \<Longrightarrow> i < ?q \<Longrightarrow> byte_at s i \<noteq> CR"
      using skip_to_cr_spec [of pos "length s - 1" s] True by auto
    have "crlf (drop pos s) = map_option ((+) (?q - pos)) (crlf (drop (?q - pos) (drop pos s)))"
    proof (rule crlf_skip)
      show "byte_at (drop pos s) i \<noteq> CR" if "i < ?q - pos" for i
        using q(3) [of "pos + i"] less_diff_conv that q(1) True
        by (simp add: byte_at_def less_diff_conv add.commute split: if_splits)
      show "?q - pos \<le> length (drop pos s)" using q(2) by simp
    qed
    also have "drop (?q - pos) (drop pos s) = drop ?q s" using q(1) by simp
    finally have step: "map_option ((+) pos) (crlf (drop pos s)) = map_option ((+) ?q) (crlf (drop ?q s))"
      using q(1) by (simp add: option.map_comp comp_def)
    have d: "drop ?q s = s ! ?q # drop (Suc ?q) s" "?q < length s"
      using q(2) True by (simp_all add: Cons_nth_drop_Suc)
    show ?thesis
    proof (cases "byte_at s ?q = CR")
      case False
      have "?q = length s - 1" using skip_to_cr_spec [of pos "length s - 1" s] True False by auto
      then have "crlf (drop ?q s) = None" by (intro crlf_short) simp
      then show ?thesis unfolding step using True False by (subst seek_loop.simps) (simp add: Let_def)
    next
      case cr: True
      then have c: "s ! ?q = CR" using d(2) by (simp add: byte_at_def)
      show ?thesis
      proof (cases "byte_at s (?q + 1) = LF")
        case True
        then have "Suc ?q < length s \<and> s ! Suc ?q = LF" by (auto simp: byte_at_def NUL_def split: if_splits)
        then have "crlf (drop ?q s) = Some 0" unfolding d(1) using c by (simp add: hd_drop_conv_nth)
        then show ?thesis unfolding step using \<open>pos < length s - 1\<close> cr True
          by (subst seek_loop.simps) (simp add: Let_def)
      next
        case False
        have "drop (Suc ?q) s = [] \<or> hd (drop (Suc ?q) s) \<noteq> LF"
          using False by (cases "Suc ?q < length s") (auto simp: byte_at_def hd_drop_conv_nth)
        then have "crlf (drop ?q s) = map_option Suc (crlf (drop (?q + 1) s))" unfolding d(1) by auto
        moreover have "seek_loop s (length s - 1) (?q + 1) = map_option ((+) (?q + 1)) (crlf (drop (?q + 1) s))"
          using 1(1) [OF True refl] cr False d(2) by simp
        ultimately show ?thesis unfolding step using True cr False
          by (subst seek_loop.simps) (cases "crlf (drop (?q + 1) s)"; simp add: Let_def)
      qed
    qed
  qed
qed

lemma seekNewline_crlf: "seekNewline s (length s) = crlf s"
  using seek_loop_crlf [of 0 s] by (simp add: seekNewline_def option.map_id0 [unfolded id_def] map_option_cong)


section \<open>Replies under construction\<close>

text \<open>The open arrays from the outermost, with \<open>x\<close> at the place of the element that is read next.\<close>

fun tree :: "reply_obj option \<Rightarrow> (int \<times> reply_obj list) list \<Rightarrow> reply_obj option" where
  "tree x [] = x"
| "tree x ((n, d) # fs) =
     Some (Obj_array n (map Some d @ tree x fs # replicate (nat n - Suc (length d)) None))"

definition path :: "(int \<times> reply_obj list) list \<Rightarrow> nat list" where
  "path fs = map (\<lambda>f. length (snd f)) fs"

definition frames_ok :: "frames \<Rightarrow> bool" where
  "frames_ok gs \<longleftrightarrow> length gs \<le> 2 \<and> (\<forall>(n, d) \<in> set gs. int (length d) < n)"

lemma tree_snoc:
  "tree x (fs @ [(n, d)]) = tree (Some (Obj_array n (map Some d @ x # replicate (nat n - Suc (length d)) None))) fs"
  by (induction fs) auto

lemma tree_Some: "fs \<noteq> [] \<Longrightarrow> \<exists>y. tree x fs = Some y"
  by (cases fs) auto

lemma put_at_tree: "fs \<noteq> [] \<Longrightarrow> put_at (path fs) x (the (tree y fs)) = Inr (the (tree (Some x) fs))"
proof (induction fs)
  case Nil
  then show ?case by simp
next
  case (Cons f fs)
  obtain n d where f: "f = (n, d)" by (rule prod.exhaust)
  show ?case
  proof (cases fs)
    case Nil
    then show ?thesis by (simp add: f path_def nth_append list_update_append)
  next
    case (Cons g gs)
    obtain t where t: "tree y fs = Some t" using tree_Some [of fs y] Cons by blast
    obtain t' where t': "tree (Some x) fs = Some t'" using tree_Some [of fs "Some x"] Cons by blast
    have "put_at (path fs) x t = Inr t'" using Cons.IH Cons t t' by simp
    then show ?thesis
      using t t' by (simp add: f path_def Cons nth_append list_update_append)
  qed
qed

lemma complete_Inl:
  "complete x gs = Inl y \<Longrightarrow> tree (Some x) (rev gs) = Some y"
proof (induction x gs rule: complete.induct)
  case (2 x n d gs)
  then have n: "int (length d) + 1 = n" by (auto split: if_splits)
  then have "nat n - Suc (length d) = 0" by auto
  then show ?case using 2 n by (simp add: tree_snoc)
qed simp

lemma complete_Inr:
  "complete x gs = Inr gs' \<Longrightarrow> frames_ok gs \<Longrightarrow> tree (Some x) (rev gs) = tree None (rev gs') \<and> frames_ok gs'"
proof (induction x gs rule: complete.induct)
  case (2 x n d gs)
  show ?case
  proof (cases "int (length d) + 1 = n")
    case True
    then have "nat n - Suc (length d) = 0" by auto
    then show ?thesis using 2 True by (simp add: tree_snoc frames_ok_def)
  next
    case False
    with 2 have gs': "gs' = (n, d @ [x]) # gs" by simp
    have n: "int (length d) + 1 < n" using 2(3) False by (auto simp: frames_ok_def)
    then have "nat n - Suc (length d) = Suc (nat n - Suc (Suc (length d)))" by linarith
    then show ?thesis using 2(3) n by (simp add: gs' tree_snoc frames_ok_def)
  qed
qed simp


section \<open>The stack of tasks\<close>

definition tasks_ok :: "read_task list \<Rightarrow> (int \<times> reply_obj list) list \<Rightarrow> bool" where
  "tasks_ok st fs \<longleftrightarrow> length st = 3 \<and>
     (\<forall>i < length fs. t_type (st ! i) = REDIS_REPLY_ARRAY \<and> t_elements (st ! i) = fst (fs ! i) \<and>
        t_obj (st ! i) = Some (path (take i fs))) \<and>
     (\<forall>i \<le> length fs. t_parent (st ! i) = (if i = 0 then None else Some (i - 1)) \<and>
        t_idx (st ! i) = (if i = 0 then - 1 else int (length (snd (fs ! (i - 1))))))"

lemma tasks_ok_outer: "tasks_ok st (fs @ [f]) \<Longrightarrow> tasks_ok st fs"
  unfolding tasks_ok_def by (auto simp: nth_append)

lemma tasks_ok_next:
  assumes "tasks_ok st (fs @ [(n, d)])" and "Suc (length fs) < 3"
  shows "tasks_ok (st[Suc (length fs) := (st ! Suc (length fs))\<lparr>t_type := - 1, t_elements := - 1,
      t_idx := t_idx (st ! Suc (length fs)) + 1\<rparr>]) (fs @ [(n, d @ [x])])"
  using assms unfolding tasks_ok_def
  by (auto simp: nth_append nth_list_update path_def le_Suc_eq)

lemma tasks_ok_open:
  assumes "tasks_ok st fs" and "Suc (length fs) < 3"
  shows "tasks_ok (st[length fs := (st ! length fs)\<lparr>t_type := REDIS_REPLY_ARRAY, t_elements := n, t_obj := Some (path fs)\<rparr>,
      Suc (length fs) := \<lparr> t_type = - 1, t_elements = - 1, t_idx = 0, t_obj = None, t_parent = Some (length fs) \<rparr>])
    (fs @ [(n, [])])"
  using assms unfolding tasks_ok_def
  by (auto simp: nth_append nth_list_update le_Suc_eq)

lemma moveToNextTask_complete:
  assumes "ridx r = int (length gs)" and "tasks_ok (rstack r) (rev gs)" and "frames_ok gs"
  shows "case complete x gs of
      Inl y \<Rightarrow> moveToNextTask r = Inr (r\<lparr>ridx := - 1\<rparr>)
    | Inr gs' \<Rightarrow> \<exists>st. moveToNextTask r = Inr (r\<lparr>ridx := int (length gs'), rstack := st\<rparr>) \<and>
        tasks_ok st (rev gs') \<and> t_type (st ! length gs') = - 1"
  using assms
proof (induction x gs arbitrary: r rule: complete.induct)
  case (1 x)
  then show ?case by (simp add: moveToNextTask.simps)
next
  case (2 x n d gs)
  have st: "t_type (rstack r ! length gs) = REDIS_REPLY_ARRAY" "t_elements (rstack r ! length gs) = n"
      "t_idx (rstack r ! Suc (length gs)) = int (length d)" "length (rstack r) = 3"
    using 2(3) unfolding tasks_ok_def by (auto simp: nth_append)
  have cur: "cur_task r = rstack r ! Suc (length gs)" using 2(2) by (simp add: cur_task_def nat_add_distrib)
  have prv: "rstack r ! nat (ridx r - 1) = rstack r ! length gs" using 2(2) by simp
  show ?case
  proof (cases "int (length d) + 1 = n")
    case True
    have "moveToNextTask r = moveToNextTask (r\<lparr>ridx := int (length gs)\<rparr>)"
      using 2(2) st True by (subst moveToNextTask.simps) (simp add: Let_def cur prv)
    moreover have "tasks_ok (rstack r) (rev gs)" "frames_ok gs"
      using 2(3,4) tasks_ok_outer by (auto simp: frames_ok_def)
    ultimately show ?thesis
      using 2(1) [OF True, of "r\<lparr>ridx := int (length gs)\<rparr>"] True by (simp split: sum.splits)
  next
    case False
    have n: "int (length d) < n" "length gs < 2" using 2(4) by (auto simp: frames_ok_def)
    let ?t = "(rstack r ! Suc (length gs))\<lparr>t_type := - 1, t_elements := - 1, t_idx := t_idx (rstack r ! Suc (length gs)) + 1\<rparr>"
    have m: "moveToNextTask r = Inr (r\<lparr>ridx := int (Suc (length gs)), rstack := (rstack r)[Suc (length gs) := ?t]\<rparr>)"
      using 2(2) st False n
      by (subst moveToNextTask.simps) (simp add: Let_def cur prv set_task_def nat_add_distrib)
    have "tasks_ok ((rstack r)[Suc (length gs) := ?t]) (rev gs @ [(n, d @ [x])])"
      using tasks_ok_next [of "rstack r" "rev gs" n d x] 2(3) n by simp
    then show ?thesis using False m st n by (auto intro!: exI [of _ "(rstack r)[Suc (length gs) := ?t]"])
  qed
qed


section \<open>What the reader's state stands for\<close>

definition buffer_ok :: "redis_reader \<Rightarrow> bool" where
  "buffer_ok r \<longleftrightarrow> r_err r = 0 \<and> (\<exists>b. r_buf r = Some b \<and> r_len r = sdslen b) \<and> r_pos r \<le> r_len r \<and>
     length (rstack r) = 3"

text \<open>Arrays are open and the next item is to be read; its type may have been read.\<close>

definition at_item :: "redis_reader \<Rightarrow> frames \<Rightarrow> bool" where
  "at_item r gs \<longleftrightarrow> buffer_ok r \<and> frames_ok gs \<and> ridx r = int (length gs) \<and>
     r_reply r = tree None (rev gs) \<and> tasks_ok (rstack r) (rev gs)"

definition type_read :: "redis_reader \<Rightarrow> string \<Rightarrow> bool" where
  "type_read r u \<longleftrightarrow> t_type (cur_task r) = - 1 \<and> u = from_pos r \<or>
     (\<exists>c. reply_type_of c = Some (t_type (cur_task r)) \<and> u = c # from_pos r)"

definition reads :: "redis_reader \<Rightarrow> frames \<Rightarrow> string \<Rightarrow> bool" where
  "reads r gs u \<longleftrightarrow> at_item r gs \<and> type_read r u"

definition has_reply :: "redis_reader \<Rightarrow> reply_obj option \<Rightarrow> string \<Rightarrow> bool" where
  "has_reply r y u \<longleftrightarrow> buffer_ok r \<and> ridx r = - 1 \<and> r_reply r = y \<and> u = from_pos r"

definition has_failed :: "redis_reader \<Rightarrow> string \<Rightarrow> bool" where
  "has_failed r e \<longleftrightarrow> r_err r = REDIS_ERR_PROTOCOL \<and> r_errstr r = take 127 e \<and> ridx r = - 1 \<and>
     r_buf r = None \<and> r_reply r = None"

definition after_item :: "redis_reader \<Rightarrow> reply_obj \<Rightarrow> frames \<Rightarrow> string \<Rightarrow> bool" where
  "after_item r x gs u =
     (case complete x gs of Inl y \<Rightarrow> has_reply r (Some y) u | Inr gs' \<Rightarrow> reads r gs' u)"

lemma buffer_ok_upd [simp]:
  "buffer_ok (r\<lparr>ridx := i\<rparr>) = buffer_ok r"
  "buffer_ok (r\<lparr>r_reply := y\<rparr>) = buffer_ok r"
  "length st = 3 \<Longrightarrow> length (rstack r) = 3 \<Longrightarrow> buffer_ok (r\<lparr>rstack := st\<rparr>) = buffer_ok r"
  by (auto simp: buffer_ok_def)

lemma from_pos_upd [simp]:
  "from_pos (r\<lparr>ridx := i\<rparr>) = from_pos r"
  "from_pos (r\<lparr>r_reply := y\<rparr>) = from_pos r"
  "from_pos (r\<lparr>rstack := st\<rparr>) = from_pos r"
  by (simp_all add: from_pos_def r_bytes_def)

lemma from_pos_pos: "from_pos (r\<lparr>r_pos := p\<rparr>) = drop p (r_bytes r)"
  by (simp add: from_pos_def r_bytes_def)

lemma buffer_ok_pos: "buffer_ok r \<Longrightarrow> p \<le> r_len r \<Longrightarrow> buffer_ok (r\<lparr>r_pos := p\<rparr>)"
  by (simp add: buffer_ok_def)

lemma buffer_ok_len: "buffer_ok r \<Longrightarrow> length (from_pos r) = r_len r - r_pos r"
  by (auto simp: buffer_ok_def from_pos_def r_bytes_def sdslen_def)

text \<open>Objects are put in their places, then the next task is found.\<close>

lemma at_item_put:
  assumes "at_item r gs" and "t_parent t = t_parent (cur_task r)" and "t_idx t = t_idx (cur_task r)"
  shows "put_in_parent t x r = Inr (if gs = [] then r else r\<lparr>r_reply := tree (Some x) (rev gs)\<rparr>)"
proof (cases gs)
  case Nil
  then show ?thesis using assms by (auto simp: at_item_def tasks_ok_def put_in_parent_def cur_task_def)
next
  case (Cons f gs')
  obtain n d where f: "f = (n, d)" by (rule prod.exhaust)
  have t: "t_parent t = Some (length gs')" "t_idx t = int (length d)"
      "t_obj (rstack r ! length gs') = Some (path (rev gs'))"
    using assms by (auto simp: at_item_def tasks_ok_def cur_task_def nth_append Cons f)
  obtain y where y: "r_reply r = Some y" "y = the (tree None (rev gs))"
    using assms(1) tree_Some [of "rev gs" None] by (auto simp: at_item_def Cons)
  obtain y' where y': "tree (Some x) (rev gs) = Some y'"
    using tree_Some [of "rev gs" "Some x"] by (auto simp: Cons)
  have "path (rev gs') @ [length d] = path (rev gs)" by (simp add: path_def Cons f)
  then have "put_at (path (rev gs') @ [length d]) x y = Inr y'"
    using put_at_tree [of "rev gs" x None] y(2) y' by (simp add: Cons)
  then show ?thesis using t y y' by (simp add: put_in_parent_def Cons)
qed

lemma reply_pos_upd: "r\<lparr>r_reply := y, r_pos := p\<rparr> = (r :: redis_reader)\<lparr>r_pos := p, r_reply := y\<rparr>"
  by simp

lemma finish_item_after:
  assumes "at_item r gs" and "t_parent t = t_parent (cur_task r)" and "t_idx t = t_idx (cur_task r)"
    and "p \<le> r_len r"
  shows "\<exists>r'. rbind (put_in_parent t x r) (\<lambda>r. finish_item (x, r\<lparr>r_pos := p\<rparr>)) = Inr (True, r') \<and>
    after_item r' x gs (drop p (r_bytes r))"
proof -
  have a: "buffer_ok r" "frames_ok gs" "ridx r = int (length gs)" "tasks_ok (rstack r) (rev gs)"
    using assms(1) by (simp_all add: at_item_def)
  let ?r = "r\<lparr>r_pos := p, r_reply := tree (Some x) (rev gs)\<rparr>"
  have r: "rbind (put_in_parent t x r) (\<lambda>r. finish_item (x, r\<lparr>r_pos := p\<rparr>)) =
      rbind (moveToNextTask ?r) (\<lambda>r. Inr (True, r))"
    using at_item_put [OF assms(1-3)] a(3) by (simp add: finish_item_def Let_def reply_pos_upd)
  have buf: "buffer_ok ?r" using buffer_ok_pos [OF a(1) assms(4)] by simp
  have u: "from_pos ?r = drop p (r_bytes r)" by (simp add: from_pos_pos)
  show ?thesis
  proof (cases "complete x gs")
    case (Inl y)
    then have "moveToNextTask ?r = Inr (?r\<lparr>ridx := - 1\<rparr>)"
      using moveToNextTask_complete [of ?r gs x] a by simp
    moreover have "has_reply (?r\<lparr>ridx := - 1\<rparr>) (Some y) (drop p (r_bytes r))"
      using buf u complete_Inl [OF Inl] by (simp add: has_reply_def)
    ultimately show ?thesis using r Inl by (simp add: after_item_def)
  next
    case (Inr gs')
    then obtain st where st: "moveToNextTask ?r = Inr (?r\<lparr>ridx := int (length gs'), rstack := st\<rparr>)"
        "tasks_ok st (rev gs')" "t_type (st ! length gs') = - 1"
      using moveToNextTask_complete [of ?r gs x] a by auto
    have "buffer_ok (?r\<lparr>ridx := int (length gs'), rstack := st\<rparr>)"
      using buf st(2) by (auto simp: buffer_ok_def tasks_ok_def)
    then have "reads (?r\<lparr>ridx := int (length gs'), rstack := st\<rparr>) gs' (drop p (r_bytes r))"
      using st complete_Inr [OF Inr a(2)] u by (simp add: reads_def at_item_def type_read_def cur_task_def)
    then show ?thesis using r Inr st(1) by (simp add: after_item_def)
  qed
qed


section \<open>Items\<close>

lemma crlf_length: "crlf s = Some k \<Longrightarrow> k + 2 \<le> length s"
proof (induction s arbitrary: k)
  case (Cons c s)
  show ?case
  proof (cases "c = CR \<and> s \<noteq> [] \<and> hd s = LF")
    case True
    then show ?thesis using Cons.prems by (cases s) auto
  next
    case False
    then obtain j where "crlf s = Some j" "k = Suc j" using Cons.prems by (auto split: if_splits)
    then show ?thesis using Cons.IH by simp
  qed
qed simp

lemma at_item_pos: "at_item r gs \<Longrightarrow> p \<le> r_len r \<Longrightarrow> at_item (r\<lparr>r_pos := p\<rparr>) gs"
  by (simp add: at_item_def buffer_ok_pos)

lemma cur_task_pos [simp]: "cur_task (r\<lparr>r_pos := p\<rparr>) = cur_task r"
  by (simp add: cur_task_def)

lemma r_bytes_pos [simp]: "r_bytes (r\<lparr>r_pos := p\<rparr>) = r_bytes r"
  by (simp add: r_bytes_def)

text \<open>The outcome of an item, and what the reader does with it.\<close>

definition item_done :: "redis_reader \<Rightarrow> frames \<Rightarrow> string \<Rightarrow> item \<Rightarrow> (bool \<times> redis_reader) res \<Rightarrow> bool" where
  "item_done r gs u i res =
     (case i of
        More \<Rightarrow> \<exists>r'. res = Inr (False, r') \<and> reads r' gs u
      | Bad e \<Rightarrow> \<exists>r'. res = Inr (False, r') \<and> has_failed r' e
      | Leaf x rest \<Rightarrow> \<exists>r'. res = Inr (True, r') \<and> after_item r' x gs rest
      | Open_array n rest \<Rightarrow> \<exists>r'. res = Inr (True, r') \<and> reads r' ((n, []) # gs) rest)"

lemma seek_from_pos:
  assumes "at_item r gs"
  shows "seekNewline (from_pos r) (r_len r - r_pos r) = crlf (from_pos r)"
  using assms seekNewline_crlf [of "from_pos r"] buffer_ok_len [of r] by (simp add: at_item_def)

lemma crlf_pos:
  assumes "at_item r gs" and "crlf (from_pos r) = Some k"
  shows "r_pos r + (k + 2) \<le> r_len r" and "drop (r_pos r + j) (r_bytes r) = drop j (from_pos r)"
proof -
  have "k + 2 \<le> r_len r - r_pos r"
    using crlf_length [OF assms(2)] assms(1) buffer_ok_len [of r] by (simp add: at_item_def)
  then show "r_pos r + (k + 2) \<le> r_len r" by linarith
  show "drop (r_pos r + j) (r_bytes r) = drop j (from_pos r)" by (simp add: from_pos_def add.commute)
qed

lemma processLineItem_done:
  assumes "at_item r gs" and "reply_type_of c = Some (t_type (cur_task r))"
    and "t_type (cur_task r) \<in> {REDIS_REPLY_ERROR, REDIS_REPLY_STATUS, REDIS_REPLY_INTEGER}"
  shows "item_done r gs (c # from_pos r) (line_item (t_type (cur_task r)) (from_pos r)) (processLineItem r)"
proof (cases "crlf (from_pos r)")
  case None
  then show ?thesis
    using assms seek_from_pos [OF assms(1)]
    by (auto simp: item_done_def line_item_def processLineItem_def readLine_def Let_def reads_def type_read_def)
next
  case (Some k)
  let ?p = "r_pos r + (k + 2)" and ?u = "from_pos r"
  let ?x = "if t_type (cur_task r) = REDIS_REPLY_INTEGER then Obj_integer (readLongLong ?u)
    else Obj_text (t_type (cur_task r)) (take k ?u)"
  have p: "?p \<le> r_len r" "drop ?p (r_bytes r) = drop (k + 2) ?u" by (rule crlf_pos [OF assms(1) Some])+
  obtain r' where r': "rbind (put_in_parent (cur_task r) ?x (r\<lparr>r_pos := ?p\<rparr>))
      (\<lambda>r. finish_item (?x, r\<lparr>r_pos := ?p\<rparr>)) = Inr (True, r')" "after_item r' ?x gs (drop (k + 2) ?u)"
    using finish_item_after [OF at_item_pos [OF assms(1) p(1)], of "cur_task r" ?p ?x] p by auto
  have pos: "put_in_parent (cur_task r) x (r\<lparr>r_pos := ?p\<rparr>) = Inr r1 \<Longrightarrow> r1\<lparr>r_pos := ?p\<rparr> = r1" for x r1
    using put_in_parent_left [of "cur_task r" x "r\<lparr>r_pos := ?p\<rparr>" r1] by simp
  have "processLineItem r = rbind (put_in_parent (cur_task r) ?x (r\<lparr>r_pos := ?p\<rparr>)) (\<lambda>r. finish_item (?x, r))"
    using seek_from_pos [OF assms(1)] Some assms(3)
    by (auto simp: processLineItem_def readLine_def createIntegerObject_def createStringObject_def Let_def
        rbind_def split: sum.splits)
  also have "\<dots> = Inr (True, r')"
    using r'(1) pos by (auto simp: rbind_Inr_conv)
  finally show ?thesis using r'(2) Some by (simp add: item_done_def line_item_def)
qed

lemma processBulkItem_done:
  assumes "at_item r gs" and "reply_type_of c = Some (t_type (cur_task r))"
    and "t_type (cur_task r) = REDIS_REPLY_STRING"
  shows "item_done r gs (c # from_pos r) (bulk_item (from_pos r)) (processBulkItem r)"
proof (cases "crlf (from_pos r)")
  case None
  then show ?thesis
    using assms seek_from_pos [OF assms(1)]
    by (auto simp: item_done_def bulk_item_def processBulkItem_def Let_def reads_def type_read_def)
next
  case (Some k)
  let ?u = "from_pos r" and ?len = "to_long (readLongLong (from_pos r))"
  have len: "length ?u = r_len r - r_pos r" "r_pos r \<le> r_len r"
    using assms(1) buffer_ok_len by (auto simp: at_item_def buffer_ok_def)
  have d: "drop (r_pos r + j) (r_bytes r) = drop j ?u" for j by (rule crlf_pos(2) [OF assms(1) Some])
  have pos: "put_in_parent (cur_task r) x r = Inr r1 \<Longrightarrow> r_pos r1 = r_pos r" for x r1
    using put_in_parent_left by blast
  show ?thesis
  proof (cases "?len < 0")
    case True
    let ?p = "r_pos r + (k + 2)"
    obtain r' where r': "rbind (put_in_parent (cur_task r) Obj_nil r) (\<lambda>r. finish_item (Obj_nil, r\<lparr>r_pos := ?p\<rparr>)) = Inr (True, r')"
        "after_item r' Obj_nil gs (drop (k + 2) ?u)"
      using finish_item_after [OF assms(1), of "cur_task r" ?p Obj_nil] crlf_pos(1) [OF assms(1) Some]
        d [of "k + 2"] by auto
    have "processBulkItem r = rbind (put_in_parent (cur_task r) Obj_nil r) (\<lambda>r'. finish_item (Obj_nil, r'\<lparr>r_pos := r_pos r' + (k + 2)\<rparr>))"
      using seek_from_pos [OF assms(1)] Some True
      by (auto simp: processBulkItem_def createNilObject_def Let_def rbind_def split: sum.splits)
    also have "\<dots> = Inr (True, r')" using r'(1) pos by (auto simp: rbind_Inr_conv)
    finally show ?thesis using r'(2) Some True by (simp add: item_done_def bulk_item_def)
  next
    case nn: False
    let ?p = "r_pos r + (k + 2 + (nat ?len + 2))"
    let ?x = "Obj_text REDIS_REPLY_STRING (take (nat ?len) (drop (k + 2) ?u))"
    show ?thesis
    proof (cases "k + 2 + (nat ?len + 2) \<le> length ?u")
      case True
      then have p: "?p \<le> r_len r" using len by linarith
      obtain r' where r': "rbind (put_in_parent (cur_task r) ?x r) (\<lambda>r. finish_item (?x, r\<lparr>r_pos := ?p\<rparr>)) = Inr (True, r')"
          "after_item r' ?x gs (drop (k + 2 + (nat ?len + 2)) ?u)"
        using finish_item_after [OF assms(1), of "cur_task r" ?p ?x] p
        d [of "k + 2 + (nat ?len + 2)"] by auto
      have "processBulkItem r = rbind (put_in_parent (cur_task r) ?x r)
          (\<lambda>r'. finish_item (?x, r'\<lparr>r_pos := r_pos r' + (k + 2 + (nat ?len + 2))\<rparr>))"
        using seek_from_pos [OF assms(1)] Some nn p assms(3)
        by (auto simp: processBulkItem_def createStringObject_def Let_def rbind_def split: sum.splits)
      also have "\<dots> = Inr (True, r')" using r'(1) pos by (auto simp: rbind_Inr_conv)
      finally show ?thesis using r'(2) Some nn True by (simp add: item_done_def bulk_item_def Let_def)
    next
      case False
      then have "\<not> ?p \<le> r_len r" using len by linarith
      then have "processBulkItem r = Inr (False, r)"
        using seek_from_pos [OF assms(1)] Some nn by (simp add: processBulkItem_def Let_def)
      moreover have "bulk_item ?u = More" using Some nn False by (simp add: bulk_item_def Let_def)
      ultimately show ?thesis
        using assms(1,2) by (auto simp: item_done_def reads_def type_read_def)
    qed
  qed
qed


lemma reply_last_upd:
  "r\<lparr>rstack := st, ridx := i, r_reply := y\<rparr> = (r :: redis_reader)\<lparr>r_reply := y, rstack := st, ridx := i\<rparr>"
  by simp

lemma enter_array_done:
  assumes "at_item r gs" and "t_type (cur_task r) = REDIS_REPLY_ARRAY" and "length gs < 2"
  shows "\<exists>x r'. enter_array (cur_task r) n r = Inr (x, r') \<and>
    (let r' = if gs = [] then r'\<lparr>r_reply := Some x\<rparr> else r' in
     if n \<noteq> - 1 \<and> 0 < n then reads r' ((n, []) # gs) (from_pos r)
     else after_item r' (if n = - 1 then Obj_nil else Obj_array n []) gs (from_pos r))"
proof -
  have a: "buffer_ok r" "frames_ok gs" "ridx r = int (length gs)" "tasks_ok (rstack r) (rev gs)"
    using assms(1) by (simp_all add: at_item_def)
  let ?r = "\<lambda>x. if gs = [] then r else r\<lparr>r_reply := tree (Some x) (rev gs)\<rparr>"
  have put: "put_in_parent (cur_task r) x r = Inr (?r x)" for x by (rule at_item_put [OF assms(1)]) simp_all
  have move: "case complete x gs of
      Inl y \<Rightarrow> moveToNextTask (?r x) = Inr ((?r x)\<lparr>ridx := - 1\<rparr>)
    | Inr gs' \<Rightarrow> \<exists>st. moveToNextTask (?r x) = Inr ((?r x)\<lparr>ridx := int (length gs'), rstack := st\<rparr>) \<and>
        tasks_ok st (rev gs') \<and> t_type (st ! length gs') = - 1" for x
    by (rule moveToNextTask_complete) (use a in auto)
  have root: "(if gs = [] then (?r x)\<lparr>r_reply := Some x\<rparr> else ?r x) = r\<lparr>r_reply := tree (Some x) (rev gs)\<rparr>" for x
    by simp
  have leaf: "\<exists>r'. moveToNextTask (?r x) = Inr r' \<and>
      after_item (if gs = [] then r'\<lparr>r_reply := Some x\<rparr> else r') x gs (from_pos r)" for x
  proof (cases "complete x gs")
    case (Inl y)
    then show ?thesis
      using move [of x] a(1) complete_Inl [OF Inl] by (auto simp: after_item_def has_reply_def)
  next
    case (Inr gs')
    then obtain st where st: "moveToNextTask (?r x) = Inr ((?r x)\<lparr>ridx := int (length gs'), rstack := st\<rparr>)"
        "tasks_ok st (rev gs')" "t_type (st ! length gs') = - 1"
      using move [of x] by auto
    have "gs \<noteq> []" using Inr by (cases gs) auto
    moreover have "buffer_ok (r\<lparr>r_reply := tree (Some x) (rev gs), ridx := int (length gs'), rstack := st\<rparr>)"
      using a(1) st(2) by (auto simp: buffer_ok_def tasks_ok_def)
    ultimately show ?thesis
      using st Inr complete_Inr [OF Inr a(2)]
      by (simp add: after_item_def reads_def at_item_def type_read_def cur_task_def)
  qed
  show ?thesis
  proof (cases "n \<noteq> - 1 \<and> 0 < n")
    case False
    then consider "n = - 1" | "n \<noteq> - 1" "n \<le> 0" by linarith
    then show ?thesis
    proof cases
      case 1
      then show ?thesis using leaf [of Obj_nil] by (auto simp: enter_array_def createNilObject_def put Let_def)
    next
      case 2
      then have "replicate (nat n) None = ([] :: reply_obj option list)" by simp
      with 2 show ?thesis
        using leaf [of "Obj_array n []"] by (auto simp: enter_array_def createArrayObject_def put Let_def)
    qed
  next
    case True
    let ?x = "Obj_array n (replicate (nat n) None)"
    let ?st = "(rstack r)[length gs := (rstack r ! length gs)\<lparr>t_type := REDIS_REPLY_ARRAY, t_elements := n,
        t_obj := Some (path (rev gs))\<rparr>,
      Suc (length gs) := \<lparr> t_type = - 1, t_elements = - 1, t_idx = 0, t_obj = None, t_parent = Some (length gs) \<rparr>]"
    have cur: "cur_task r = rstack r ! length gs" using a(3) by (simp add: cur_task_def)
    have path: "task_path (cur_task r) (?r ?x) = path (rev gs)"
    proof (cases gs)
      case Nil
      then show ?thesis using a(4) by (simp add: cur task_path_def tasks_ok_def path_def)
    next
      case (Cons f gs')
      have "t_parent (cur_task r) = Some (length gs')" "t_idx (cur_task r) = int (length (snd f))"
          "t_obj (rstack r ! length gs') = Some (path (rev gs'))"
        using a(4) by (auto simp: cur tasks_ok_def Cons nth_append)
      then show ?thesis by (simp add: task_path_def path_def Cons)
    qed
    have e: "enter_array (cur_task r) n r = Inr (?x, (?r ?x)\<lparr>rstack := ?st, ridx := int (Suc (length gs))\<rparr>)"
    proof -
      have c: "createArrayObject (cur_task r) n r = Inr (?x, ?r ?x)"
        by (simp add: createArrayObject_def put Let_def)
      have upd: "(cur_task r)\<lparr>t_elements := n, t_obj := Some (path (rev gs))\<rparr> =
          (rstack r ! length gs)\<lparr>t_type := REDIS_REPLY_ARRAY, t_elements := n, t_obj := Some (path (rev gs))\<rparr>"
        using assms(2) by (cases "rstack r ! length gs") (simp add: cur)
      have "rstack (?r ?x) = rstack r" "ridx (?r ?x) = int (length gs)" "nat (ridx r) = length gs"
        using a(3) by simp_all
      then show ?thesis using True path
        unfolding enter_array_def c Let_def rbind_simps upd [symmetric]
        by (simp add: set_task_def del: if_split)
    qed
    have "tasks_ok ?st (rev ((n, []) # gs))"
      using tasks_ok_open [OF a(4), of n] assms(3) by simp
    moreover have "tree None (rev ((n, []) # gs)) = tree (Some ?x) (rev gs)"
    proof -
      have "None # replicate (nat n - Suc 0) None = replicate (nat n) (None :: reply_obj option)"
        using True by (cases "nat n") auto
      then show ?thesis by (simp add: tree_snoc)
    qed
    moreover have "t_type (?st ! Suc (length gs)) = - 1" "length ?st = 3"
      using a(4) assms(3) by (simp_all add: tasks_ok_def)
    moreover have "frames_ok ((n, []) # gs)" using a(2) assms(3) True by (simp add: frames_ok_def)
    ultimately have "reads (r\<lparr>r_reply := tree (Some ?x) (rev gs), rstack := ?st, ridx := int (Suc (length gs))\<rparr>)
        ((n, []) # gs) (from_pos r)"
      using a(1) by (simp add: reads_def at_item_def type_read_def cur_task_def buffer_ok_def nat_add_distrib)
    then show ?thesis using True e by (cases "gs = []") (simp_all add: Let_def reply_last_upd)
  qed
qed


lemma processMultiBulkItem_done:
  assumes "at_item r gs" and "reply_type_of c = Some (t_type (cur_task r))"
    and "t_type (cur_task r) = REDIS_REPLY_ARRAY"
  shows "item_done r gs (c # from_pos r) (array_item (length gs) (from_pos r)) (processMultiBulkItem r)"
proof -
  have a: "buffer_ok r" "ridx r = int (length gs)" "length gs \<le> 2"
    using assms(1) by (auto simp: at_item_def frames_ok_def)
  show ?thesis
  proof (cases "length gs = 2")
    case True
    have "has_failed (redisReaderSetError REDIS_ERR_PROTOCOL nested_error r) nested_error"
      using a(1) by (auto simp: has_failed_def redisReaderSetError_def Let_def buffer_ok_def)
    then show ?thesis using True a(2) by (simp add: item_done_def array_item_def processMultiBulkItem_def Let_def)
  next
    case False
    then have lev: "length gs < 2" "ridx r \<noteq> 2" using a by auto
    show ?thesis
    proof (cases "crlf (from_pos r)")
      case None
      then show ?thesis
        using assms seek_from_pos [OF assms(1)] lev
        by (auto simp: item_done_def array_item_def processMultiBulkItem_def readLine_def Let_def reads_def type_read_def)
    next
      case (Some k)
      let ?p = "r_pos r + (k + 2)" and ?u = "from_pos r" and ?n = "to_long (readLongLong (from_pos r))"
      let ?r = "r\<lparr>r_pos := ?p\<rparr>"
      have u: "from_pos ?r = drop (k + 2) ?u" using crlf_pos(2) [OF assms(1) Some, of "k + 2"] by (simp add: from_pos_pos)
      have at: "at_item ?r gs" by (rule at_item_pos [OF assms(1) crlf_pos(1) [OF assms(1) Some]])
      obtain x r' where e: "enter_array (cur_task r) ?n ?r = Inr (x, r')"
        and r': "let r' = if gs = [] then r'\<lparr>r_reply := Some x\<rparr> else r' in
           if ?n \<noteq> - 1 \<and> 0 < ?n then reads r' ((?n, []) # gs) (drop (k + 2) ?u)
           else after_item r' (if ?n = - 1 then Obj_nil else Obj_array ?n []) gs (drop (k + 2) ?u)"
        using enter_array_done [OF at _ lev(1), of ?n, unfolded u cur_task_pos, OF assms(3)] by blast
      have "processMultiBulkItem r = Inr (True, if gs = [] then r'\<lparr>r_reply := Some x\<rparr> else r')"
        using seek_from_pos [OF assms(1)] Some lev e a(2)
        by (simp add: processMultiBulkItem_def readLine_def Let_def)
      then show ?thesis using r' Some lev by (auto simp: item_done_def array_item_def Let_def)
    qed
  qed
qed

lemma reply_type_of_cases:
  "reply_type_of c = Some type \<Longrightarrow> type \<in> {REDIS_REPLY_ERROR, REDIS_REPLY_STATUS, REDIS_REPLY_INTEGER,
     REDIS_REPLY_STRING, REDIS_REPLY_ARRAY}"
  by (auto simp: reply_type_of_def split: if_splits)

lemma process_typed_done:
  assumes "at_item r gs" and "reply_type_of c = Some (t_type (cur_task r))"
  shows "item_done r gs (c # from_pos r) (typed_item (length gs) (t_type (cur_task r)) (from_pos r)) (process_typed r)"
proof -
  let ?t = "t_type (cur_task r)"
  consider "?t \<in> {REDIS_REPLY_ERROR, REDIS_REPLY_STATUS, REDIS_REPLY_INTEGER}"
    | "?t = REDIS_REPLY_STRING" | "?t = REDIS_REPLY_ARRAY"
    using reply_type_of_cases [OF assms(2)] by auto
  then show ?thesis
  proof cases
    case 1
    then have "process_typed r = processLineItem r" by (auto simp: process_typed_def Let_def)
    moreover have "typed_item (length gs) ?t (from_pos r) = line_item ?t (from_pos r)"
      using 1 by (auto simp: typed_item_def reply_types)
    ultimately show ?thesis using processLineItem_done [OF assms 1] by simp
  next
    case 2
    then have "process_typed r = processBulkItem r" by (simp add: process_typed_def Let_def reply_types)
    then show ?thesis using processBulkItem_done [OF assms 2] 2 by (simp add: typed_item_def)
  next
    case 3
    then have "process_typed r = processMultiBulkItem r" by (simp add: process_typed_def Let_def reply_types)
    moreover have "typed_item (length gs) ?t (from_pos r) = array_item (length gs) (from_pos r)"
      using 3 by (simp add: typed_item_def reply_types)
    ultimately show ?thesis using processMultiBulkItem_done [OF assms 3] by simp
  qed
qed

lemma reply_type_of_pos: "reply_type_of c = Some type \<Longrightarrow> 0 \<le> type"
  by (auto simp: reply_type_of_def reply_types split: if_splits)

lemma at_item_type:
  assumes "at_item r gs"
  shows "at_item (set_task (nat (ridx r)) ((cur_task r)\<lparr>t_type := type\<rparr>) r) gs"
    and "cur_task (set_task (nat (ridx r)) ((cur_task r)\<lparr>t_type := type\<rparr>) r) = (cur_task r)\<lparr>t_type := type\<rparr>"
    and "from_pos (set_task i t r) = from_pos r"
proof -
  have st: "tasks_ok (rstack r) (rev gs)" "nat (ridx r) = length gs" "length gs \<le> 2"
    using assms by (auto simp: at_item_def frames_ok_def)
  then have "tasks_ok ((rstack r)[length gs := (rstack r ! length gs)\<lparr>t_type := type\<rparr>]) (rev gs)"
    by (auto simp: tasks_ok_def nth_list_update)
  then show "at_item (set_task (nat (ridx r)) ((cur_task r)\<lparr>t_type := type\<rparr>) r) gs"
    using assms st by (auto simp: at_item_def set_task_def cur_task_def buffer_ok_def)
  show "cur_task (set_task (nat (ridx r)) ((cur_task r)\<lparr>t_type := type\<rparr>) r) = (cur_task r)\<lparr>t_type := type\<rparr>"
    using st by (simp add: set_task_def cur_task_def tasks_ok_def)
  show "from_pos (set_task i t r) = from_pos r" by (simp add: set_task_def)
qed

lemma processItem_done:
  assumes "reads r gs u"
  shows "item_done r gs u (take_item (length gs) u) (processItem r)"
proof -
  have at: "at_item r gs" and ty: "type_read r u" using assms by (simp_all add: reads_def)
  from ty consider "t_type (cur_task r) = - 1" "u = from_pos r"
    | c where "reply_type_of c = Some (t_type (cur_task r))" "u = c # from_pos r"
    by (auto simp: type_read_def)
  then show ?thesis
  proof cases
    case 2
    then have "processItem r = process_typed r" using reply_type_of_pos by (force simp: processItem_def)
    moreover have "take_item (length gs) u = typed_item (length gs) (t_type (cur_task r)) (from_pos r)" using 2 by simp
    ultimately show ?thesis using process_typed_done [OF at 2(1)] 2(2) by simp
  next
    case 1
    have len: "length u = r_len r - r_pos r" "r_pos r \<le> r_len r"
      using at buffer_ok_len 1(2) by (auto simp: at_item_def buffer_ok_def)
    show ?thesis
    proof (cases u)
      case Nil
      then have "processItem r = Inr (False, r)" using 1 len by (simp add: processItem_def readBytes_def)
      then show ?thesis using assms Nil by (simp add: item_done_def)
    next
      case (Cons c v)
      let ?r = "r\<lparr>r_pos := r_pos r + 1\<rparr>"
      have p: "r_pos r + 1 \<le> r_len r" using len Cons by simp
      have at1: "at_item ?r gs" by (rule at_item_pos [OF at p])
      have v: "from_pos ?r = v"
        using 1(2) Cons by (simp add: from_pos_def r_bytes_def flip: drop_Suc tl_drop) (metis drop_Suc list.sel(3) tl_drop)
      have b: "readBytes 1 r = Some (u, ?r)" using p 1(2) by (simp add: readBytes_def)
      have c: "byte_at u 0 = c" using Cons by (simp add: byte_at_def)
      show ?thesis
      proof (cases "reply_type_of c")
        case None
        have "has_failed (redisReaderSetErrorProtocolByte c ?r) (protocol_byte_error c)"
          using at1 by (auto simp: has_failed_def redisReaderSetErrorProtocolByte_def redisReaderSetError_def Let_def
              at_item_def buffer_ok_def)
        moreover have "processItem r = Inr (False, redisReaderSetErrorProtocolByte c ?r)"
          using None b c 1(1) by (simp add: processItem_def)
        moreover have "take_item (length gs) u = Bad (protocol_byte_error c)" using None Cons by simp
        ultimately show ?thesis by (simp add: item_done_def)
      next
        case (Some type)
        let ?r' = "set_task (nat (ridx ?r)) ((cur_task ?r)\<lparr>t_type := type\<rparr>) ?r"
        have "processItem r = process_typed ?r'" using Some b c 1 by (simp add: processItem_def)
        moreover have "item_done ?r' gs u (take_item (length gs) u) (process_typed ?r')"
          using process_typed_done [OF at_item_type(1) [OF at1], of c type] Some Cons
          by (simp only: at_item_type [OF at1] v) simp
        ultimately show ?thesis by (simp add: item_done_def)
      qed
    qed
  qed
qed


section \<open>Refinement\<close>

text \<open>The abstract reader: the open arrays with the bytes not yet taken, or an error for good.\<close>

datatype areader = Going frames string | Broken string

fun get_reply :: "areader \<Rightarrow> reply_obj option \<times> areader" where
  "get_reply (Broken e) = (None, Broken e)"
| "get_reply (Going gs u) =
     (case decode gs u of
        Pending gs' u' \<Rightarrow> (None, Going gs' u')
      | Reply y rest \<Rightarrow> (Some y, Going [] rest)
      | Failed e \<Rightarrow> (None, Broken e))"

fun add_bytes :: "string \<Rightarrow> areader \<Rightarrow> areader" where
  "add_bytes v (Broken e) = Broken e"
| "add_bytes v (Going gs u) = Going gs (u @ v)"

fun represents :: "redis_reader \<Rightarrow> areader \<Rightarrow> bool" where
  "represents r (Broken e) \<longleftrightarrow> has_failed r e"
| "represents r (Going gs u) \<longleftrightarrow>
     gs = [] \<and> has_reply r None u \<or>
     reads r gs u \<and> (r_len r = 0 \<longrightarrow> take_item (length gs) u = More)"

lemma ridx_neg: "ridx r = - 1 \<Longrightarrow> process_items r = Inr r"
  by (simp add: process_items.simps)

lemma process_items_decode:
  "reads r gs u \<Longrightarrow>
     (case decode gs u of
        Pending gs' u' \<Rightarrow> \<exists>r'. process_items r = Inr r' \<and> reads r' gs' u' \<and> take_item (length gs') u' = More
      | Reply y rest \<Rightarrow> \<exists>r'. process_items r = Inr r' \<and> has_reply r' (Some y) rest
      | Failed e \<Rightarrow> \<exists>r'. process_items r = Inr r' \<and> has_failed r' e)"
proof (induction gs u arbitrary: r rule: decode.induct)
  case (1 gs u)
  have d: "item_done r gs u (take_item (length gs) u) (processItem r)" by (rule processItem_done [OF 1(3)])
  have i: "0 \<le> ridx r" using 1(3) by (simp add: reads_def at_item_def)
  show ?case
  proof (cases "take_item (length gs) u")
    case More
    then show ?thesis using d i
      by (subst decode.simps) (auto simp: item_done_def process_items.simps [of r])
  next
    case (Bad e)
    then show ?thesis using d i
      by (subst decode.simps) (auto simp: item_done_def process_items.simps [of r])
  next
    case (Leaf x rest)
    then obtain r' where r': "processItem r = Inr (True, r')" "after_item r' x gs rest"
      using d by (auto simp: item_done_def)
    have p: "process_items r = process_items r'" using r'(1) i by (simp add: process_items.simps [of r])
    show ?thesis
    proof (cases "complete x gs")
      case (Inl y)
      then have "has_reply r' (Some y) rest" using r'(2) by (simp add: after_item_def)
      moreover have "ridx r' = - 1" using calculation by (simp add: has_reply_def)
      ultimately show ?thesis using Leaf Inl p ridx_neg [of r'] by (subst decode.simps) simp
    next
      case (Inr gs')
      then have "reads r' gs' rest" using r'(2) by (simp add: after_item_def)
      from 1(1) [OF Leaf Inr this] show ?thesis
        using Leaf Inr p by (subst decode.simps) (simp split: outcome.splits)
    qed
  next
    case (Open_array n rest)
    then obtain r' where r': "processItem r = Inr (True, r')" "reads r' ((n, []) # gs) rest"
      using d by (auto simp: item_done_def)
    have p: "process_items r = process_items r'" using r'(1) i by (simp add: process_items.simps [of r])
    from 1(2) [OF Open_array r'(2)] show ?thesis
      using Open_array p by (subst decode.simps) (simp split: outcome.splits)
  qed
qed

lemma start_reply_reads:
  assumes "represents r (Going gs u)"
  shows "reads (start_reply r) gs u"
proof (cases "ridx r = - 1")
  case True
  then have "has_reply r None u" "gs = []" using assms by (auto simp: reads_def at_item_def)
  then show ?thesis using True
    by (auto simp: start_reply_def reads_def at_item_def has_reply_def frames_ok_def tasks_ok_def type_read_def
        cur_task_def set_task_def buffer_ok_def)
next
  case False
  then show ?thesis using assms by (auto simp: start_reply_def has_reply_def)
qed

definition discard :: "redis_reader \<Rightarrow> sds \<Rightarrow> redis_reader" where
  "discard r b =
     (if 1024 \<le> r_pos r
      then (let b = sdsrange b (int (r_pos r)) (- 1) in r\<lparr>r_buf := Some b, r_pos := 0, r_len := sdslen b\<rparr>)
      else r)"

lemma discard_same:
  assumes "buffer_ok r" and "r_buf r = Some b"
  shows "buffer_ok (discard r b)" "from_pos (discard r b) = from_pos r" "ridx (discard r b) = ridx r"
    "r_reply (discard r b) = r_reply r" "rstack (discard r b) = rstack r"
  using assms sdsrange_drop [of "r_pos r" b]
  by (auto simp: discard_def Let_def buffer_ok_def from_pos_def r_bytes_def)

lemma GetReply_refines:
  assumes "represents r a"
  shows "\<exists>r'. redisReaderGetReply r =
      Inr (case snd (get_reply a) of Broken _ \<Rightarrow> REDIS_ERR | _ \<Rightarrow> REDIS_OK, fst (get_reply a), r') \<and>
    represents r' (snd (get_reply a))"
proof (cases a)
  case (Broken e)
  then show ?thesis
    using assms by (auto simp: redisReaderGetReply_def has_failed_def REDIS_ERR_PROTOCOL_def)
next
  case (Going gs u)
  have err: "r_err r = 0" using assms Going by (auto simp: has_reply_def reads_def at_item_def buffer_ok_def)
  show ?thesis
  proof (cases "r_len r = 0")
    case True
    have "take_item (length gs) u = More"
    proof (cases "has_reply r None u \<and> gs = []")
      case True
      then have "u = []" using \<open>r_len r = 0\<close> by (auto simp: has_reply_def dest: buffer_ok_len)
      then show ?thesis by simp
    next
      case False
      then show ?thesis using assms Going True by auto
    qed
    then have "get_reply a = (None, a)" using Going by (simp add: decode.simps)
    then show ?thesis using assms err True Going by (simp add: redisReaderGetReply_def)
  next
    case False
    have p: "reads (start_reply r) gs u" using assms Going start_reply_reads by blast
    have g: "redisReaderGetReply r = rbind (process_items (start_reply r)) (\<lambda>r.
        if r_err r \<noteq> 0 then Inr (REDIS_ERR, None, r)
        else (case r_buf r of
                None \<Rightarrow> Inl Null_deref
              | Some b \<Rightarrow>
                  (let r = discard r b
                   in if ridx r = - 1 then Inr (REDIS_OK, r_reply r, r\<lparr>r_reply := None\<rparr>)
                      else Inr (REDIS_OK, None, r))))"
      using err False unfolding redisReaderGetReply_def discard_def by simp
    show ?thesis
    proof (cases "decode gs u")
      case (Failed e)
      then obtain r' where "process_items (start_reply r) = Inr r'" "has_failed r' e"
        using process_items_decode [OF p] by auto
      then show ?thesis using Failed Going
        by (auto simp: g has_failed_def REDIS_ERR_PROTOCOL_def)
    next
      case (Reply y rest)
      then obtain r' where r': "process_items (start_reply r) = Inr r'" "has_reply r' (Some y) rest"
        using process_items_decode [OF p] by auto
      then obtain b where b: "buffer_ok r'" "r_buf r' = Some b" by (auto simp: has_reply_def buffer_ok_def)
      have "has_reply ((discard r' b)\<lparr>r_reply := None\<rparr>) None rest"
        using r'(2) discard_same [OF b] by (simp add: has_reply_def)
      moreover have "ridx (discard r' b) = - 1" "r_reply (discard r' b) = Some y" "r_err r' = 0"
        using r'(2) discard_same [OF b] b by (simp_all add: has_reply_def buffer_ok_def)
      ultimately show ?thesis using Reply Going r'(1) b(2) by (simp add: g Let_def)
    next
      case (Pending gs' u')
      then obtain r' where r': "process_items (start_reply r) = Inr r'" "reads r' gs' u'"
          "take_item (length gs') u' = More"
        using process_items_decode [OF p] by auto
      then obtain b where b: "buffer_ok r'" "r_buf r' = Some b" by (auto simp: reads_def at_item_def buffer_ok_def)
      have cur: "cur_task (discard r' b) = cur_task r'" using discard_same [OF b] by (simp add: cur_task_def)
      have "reads (discard r' b) gs' u'"
        using r'(2) discard_same [OF b] cur by (simp add: reads_def at_item_def type_read_def)
      moreover have "ridx (discard r' b) \<noteq> - 1" "r_err r' = 0"
        using r'(2) discard_same [OF b] b by (simp_all add: reads_def at_item_def buffer_ok_def)
      ultimately show ?thesis using Pending Going r'(1,3) b(2) by (simp add: g Let_def)
    qed
  qed
qed

lemma Feed_refines:
  assumes "represents r a"
  shows "\<exists>st r'. redisReaderFeed v r = Inr (st, r') \<and> represents r' (add_bytes v a)"
proof (cases a)
  case (Broken e)
  then show ?thesis using assms by (auto simp: redisReaderFeed_def has_failed_def REDIS_ERR_PROTOCOL_def)
next
  case (Going gs u)
  have ok: "buffer_ok r" using assms Going by (auto simp: has_reply_def reads_def at_item_def)
  then obtain b where b: "r_err r = 0" "r_buf r = Some b" "r_len r = sdslen b" "r_pos r \<le> r_len r"
    by (auto simp: buffer_ok_def)
  show ?thesis
  proof (cases "v = []")
    case True
    then show ?thesis using assms Going b by (auto simp: redisReaderFeed_def)
  next
    case False
    define b' where "b' = (if r_len r = 0 \<and> 16 * 1024 < sdsavail b then sdsempty else b)"
    define pos where "pos = (if r_len r = 0 \<and> 16 * 1024 < sdsavail b then 0 else r_pos r)"
    let ?r = "r\<lparr>r_buf := Some (sdscatlen b' v), r_pos := pos, r_len := sdslen (sdscatlen b' v)\<rparr>"
    have f: "redisReaderFeed v r = Inr (REDIS_OK, ?r)"
      using b False by (auto simp: redisReaderFeed_def b'_def pos_def Let_def Suc_le_eq)
    have b': "s_buf b' = s_buf b" "pos \<le> length (s_buf b)" "drop pos (s_buf b) = from_pos r"
      using b by (auto simp: b'_def pos_def sdslen_def from_pos_def r_bytes_def)
    have "from_pos ?r = from_pos r @ v" using b' by (simp add: from_pos_def r_bytes_def)
    moreover have "buffer_ok ?r" using ok b' by (auto simp: buffer_ok_def sdslen_def)
    moreover have "r_len ?r \<noteq> 0" using False by (simp add: sdslen_def)
    ultimately have "represents ?r (Going gs (u @ v))"
      using assms Going by (auto simp: has_reply_def reads_def at_item_def type_read_def cur_task_def)
    then show ?thesis using f Going by auto
  qed
qed

end
