(* ===== verification/Redis_Stream.thy ===== *)
theory Redis_Stream
  imports Redis_Protocol
begin

text \<open>
  The reader of \<open>Redis_Reader\<close> over a stream of bytes that arrives in pieces: how it is cut does
  not matter, and the replies that a server encodes are read back.
\<close>

section \<open>Runs of a reader\<close>

text \<open>Bytes that arrive, and requests for a reply, in any order; the replies handed out.\<close>

datatype reader_event = Arrive string | Poll

fun reader_run :: "reader_event list \<Rightarrow> redis_reader \<Rightarrow> (reply_obj list \<times> redis_reader) res" where
  "reader_run [] r = Inr ([], r)"
| "reader_run (Arrive v # es) r = rbind (redisReaderFeed v r) (\<lambda>(_, r). reader_run es r)"
| "reader_run (Poll # es) r =
     rbind (redisReaderGetReply r) (\<lambda>(_, out, r).
       rbind (reader_run es r) (\<lambda>(outs, r). Inr (case out of None \<Rightarrow> outs | Some y \<Rightarrow> y # outs, r)))"

fun arrived :: "reader_event list \<Rightarrow> string" where
  "arrived [] = []"
| "arrived (Arrive v # es) = v @ arrived es"
| "arrived (Poll # es) = arrived es"

fun areader_run :: "reader_event list \<Rightarrow> areader \<Rightarrow> reply_obj list \<times> areader" where
  "areader_run [] a = ([], a)"
| "areader_run (Arrive v # es) a = areader_run es (add_bytes v a)"
| "areader_run (Poll # es) a =
     (let (out, a) = get_reply a; (outs, a) = areader_run es a
      in (case out of None \<Rightarrow> outs | Some y \<Rightarrow> y # outs, a))"

lemma reader_run_refines:
  "represents r a \<Longrightarrow>
     \<exists>r'. reader_run es r = Inr (fst (areader_run es a), r') \<and> represents r' (snd (areader_run es a))"
proof (induction es a arbitrary: r rule: areader_run.induct)
  case (1 a)
  then show ?case by simp
next
  case (2 v es a)
  then obtain st r1 where "redisReaderFeed v r = Inr (st, r1)" "represents r1 (add_bytes v a)"
    using Feed_refines by blast
  then show ?case using 2(1) [of r1] by simp
next
  case (3 es a)
  then obtain st r1 where r1: "redisReaderGetReply r = Inr (st, fst (get_reply a), r1)" "represents r1 (snd (get_reply a))"
    using GetReply_refines by blast
  obtain out a1 where g: "get_reply a = (out, a1)" by fastforce
  obtain r2 where "reader_run es r1 = Inr (fst (areader_run es a1), r2)" "represents r2 (snd (areader_run es a1))"
    using 3(1) [of "(out, a1)" out a1 r1] r1(2) g by auto
  then show ?case using r1(1) g by (auto simp: Let_def split: prod.split option.split)
qed

lemma create_represents: "represents redisReaderCreate (Going [] [])"
  by (simp add: has_reply_def buffer_ok_def redisReaderCreate_def sdslen_def from_pos_def r_bytes_def)


section \<open>More bytes behind\<close>

lemma crlf_append: "crlf u = Some k \<Longrightarrow> crlf (u @ v) = Some k"
proof (induction u arbitrary: k)
  case (Cons c u)
  then show ?case by (cases u) (auto split: if_splits)
qed simp

lemma crlf_CR: "crlf u = Some k \<Longrightarrow> CR \<in> set u"
  by (induction u arbitrary: k) (auto split: if_splits)

lemma read_digits_append: "CR \<in> set u \<Longrightarrow> read_digits n (u @ v) = read_digits n u"
  by (induction n u rule: read_digits.induct) auto

lemma readLongLong_append:
  assumes "CR \<in> set u"
  shows "readLongLong (u @ v) = readLongLong u"
proof -
  have "CR \<in> set (tl u)" if "hd u = CHR ''-'' \<or> hd u = CHR ''+''"
    using assms that by (cases u) auto
  moreover have "u \<noteq> []" using assms by auto
  ultimately show ?thesis
    using assms by (simp add: readLongLong_def read_digits_append Let_def)
qed

lemma typed_item_append:
  "typed_item l t u = Leaf x rest \<Longrightarrow> typed_item l t (u @ v) = Leaf x (rest @ v)"
  "typed_item l t u = Open_array n rest \<Longrightarrow> typed_item l t (u @ v) = Open_array n (rest @ v)"
  "typed_item l t u = Bad e \<Longrightarrow> typed_item l t (u @ v) = Bad e"
  by (auto simp: typed_item_def bulk_item_def array_item_def line_item_def Let_def crlf_append
      readLongLong_append [OF crlf_CR] dest: crlf_length split: option.splits if_splits)

lemma take_item_append:
  "take_item l u = Leaf x rest \<Longrightarrow> take_item l (u @ v) = Leaf x (rest @ v)"
  "take_item l u = Open_array n rest \<Longrightarrow> take_item l (u @ v) = Open_array n (rest @ v)"
  "take_item l u = Bad e \<Longrightarrow> take_item l (u @ v) = Bad e"
  by (cases u; auto simp: typed_item_append split: option.splits)+

lemma decode_append:
  "case decode gs u of
     Pending gs' u' \<Rightarrow> decode gs (u @ v) = decode gs' (u' @ v)
   | Reply y rest \<Rightarrow> decode gs (u @ v) = Reply y (rest @ v)
   | Failed e \<Rightarrow> decode gs (u @ v) = Failed e"
proof (induction gs u rule: decode.induct)
  case (1 gs u)
  show ?case
  proof (cases "take_item (length gs) u")
    case More
    then show ?thesis by (subst decode.simps) simp
  next
    case (Bad e)
    then show ?thesis
      by (subst decode.simps) (simp add: decode.simps [of gs "u @ v"] take_item_append)
  next
    case (Leaf x rest)
    have d: "decode gs u = (case complete x gs of Inl y \<Rightarrow> Reply y rest | Inr gs' \<Rightarrow> decode gs' rest)"
      "decode gs (u @ v) = (case complete x gs of Inl y \<Rightarrow> Reply y (rest @ v) | Inr gs' \<Rightarrow> decode gs' (rest @ v))"
      by (simp_all add: decode.simps [of gs u] decode.simps [of gs "u @ v"] take_item_append Leaf)
    show ?thesis
    proof (cases "complete x gs")
      case (Inl y)
      then show ?thesis by (simp add: d)
    next
      case (Inr gs')
      then show ?thesis using 1(1) [OF Leaf Inr] by (simp add: d split: outcome.splits)
    qed
  next
    case (Open_array n rest)
    have d: "decode gs u = decode ((n, []) # gs) rest" "decode gs (u @ v) = decode ((n, []) # gs) (rest @ v)"
      by (simp_all add: decode.simps [of gs u] decode.simps [of gs "u @ v"] take_item_append Open_array)
    show ?thesis using 1(2) [OF Open_array] by (simp add: d split: outcome.splits)
  qed
qed

text \<open>A request between two arrivals changes nothing but the time of a reply.\<close>

lemma get_reply_add:
  "get_reply (add_bytes v a) =
     (case get_reply a of
        (None, a') \<Rightarrow> get_reply (add_bytes v a')
      | (Some y, a') \<Rightarrow> (Some y, add_bytes v a'))"
proof (cases a)
  case (Going gs u)
  then show ?thesis using decode_append [of gs u v] by (cases "decode gs u") simp_all
qed simp


section \<open>The replies of a stream\<close>

text \<open>All replies that are complete in the bytes, from the state of an abstract reader.\<close>

lemma take_item_Reply_shorter: "decode gs u = Reply y rest \<Longrightarrow> length rest < length u"
proof (induction gs u rule: decode.induct)
  case (1 gs u)
  show ?case
  proof (cases "take_item (length gs) u")
    case (Leaf x rest')
    show ?thesis
    proof (cases "complete x gs")
      case (Inl z)
      then show ?thesis using 1(3) Leaf take_item_shorter by (simp add: decode.simps [of gs u])
    next
      case (Inr gs')
      then have "length rest < length rest'"
        using 1(1) [OF Leaf Inr] 1(3) Leaf by (simp add: decode.simps [of gs u])
      then show ?thesis using take_item_shorter(1) [OF Leaf] by simp
    qed
  next
    case (Open_array n rest')
    then have "length rest < length rest'"
      using 1(2) [OF Open_array] 1(3) by (simp add: decode.simps [of gs u])
    then show ?thesis using take_item_shorter(2) [OF Open_array] by simp
  qed (use 1(3) in \<open>simp_all add: decode.simps [of gs u]\<close>)
qed

function stream :: "frames \<Rightarrow> string \<Rightarrow> reply_obj list" where
  "stream gs u = (case decode gs u of Reply y rest \<Rightarrow> y # stream [] rest | _ \<Rightarrow> [])"
  by pat_completeness auto
termination
  by (relation "measure (\<lambda>(gs, u). length u)") (auto dest: take_item_Reply_shorter)

declare stream.simps [simp del]

fun stream_of :: "areader \<Rightarrow> reply_obj list" where
  "stream_of (Broken e) = []"
| "stream_of (Going gs u) = stream gs u"

lemma stream_of_get:
  "stream_of a = (case get_reply a of (None, a') \<Rightarrow> [] | (Some y, a') \<Rightarrow> y # stream_of a')"
proof (cases a)
  case (Going gs u)
  then show ?thesis by (cases "decode gs u") (simp_all add: stream.simps [of gs u])
qed simp

lemma stream_of_cons:
  assumes "get_reply a = (Some y, a')"
  shows "stream_of (add_bytes v a) = y # stream_of (add_bytes v a')"
  using stream_of_get [of "add_bytes v a"] get_reply_add [of v a] assms by simp

lemma stream_of_none:
  assumes "get_reply a = (None, a')"
  shows "stream_of (add_bytes v a) = stream_of (add_bytes v a')"
  using stream_of_get [of "add_bytes v a"] stream_of_get [of "add_bytes v a'"] get_reply_add [of v a] assms by simp

lemma add_bytes_append [simp]: "add_bytes w (add_bytes v a) = add_bytes (v @ w) a"
  by (cases a) simp_all

lemma add_bytes_Nil [simp]: "add_bytes [] a = a"
  by (cases a) simp_all

text \<open>What was handed out, followed by what the bytes left make with those still to come.\<close>

lemma areader_run_stream:
  "stream_of (add_bytes (arrived es @ w) a) = fst (areader_run es a) @ stream_of (add_bytes w (snd (areader_run es a)))"
proof (induction es a rule: areader_run.induct)
  case (1 a)
  then show ?case by simp
next
  case (2 v es a)
  then show ?case by simp
next
  case (3 es a)
  obtain out a1 where g: "get_reply a = (out, a1)" by fastforce
  have ih: "stream_of (add_bytes (arrived es @ w) a1) = fst (areader_run es a1) @ stream_of (add_bytes w (snd (areader_run es a1)))"
    using 3 [of "(out, a1)" out a1] g by simp
  show ?case
  proof (cases out)
    case None
    then show ?thesis using ih g stream_of_none [of a a1] by (simp add: Let_def split: prod.split)
  next
    case (Some y)
    then show ?thesis using ih g stream_of_cons [of a y a1] by (simp add: Let_def split: prod.split)
  qed
qed

lemma areader_run_append:
  "areader_run (es @ fs) a =
     (let (o1, a1) = areader_run es a; (o2, a2) = areader_run fs a1 in (o1 @ o2, a2))"
  by (induction es a rule: areader_run.induct) (auto simp: Let_def split: prod.splits option.splits)

lemma areader_run_append_fst:
  "fst (areader_run (es @ fs) a) = fst (areader_run es a) @ fst (areader_run fs (snd (areader_run es a)))"
  by (simp add: areader_run_append Let_def split: prod.split)

lemma polls_stream:
  "length (stream_of a) \<le> n \<Longrightarrow> fst (areader_run (replicate n Poll) a) = stream_of a"
proof (induction n arbitrary: a)
  case 0
  then show ?case by simp
next
  case (Suc n)
  obtain out a1 where g: "get_reply a = (out, a1)" by fastforce
  show ?case
  proof (cases out)
    case None
    then have "stream_of a = []" using stream_of_get [of a] g by simp
    moreover have "stream_of a1 = stream_of a" using stream_of_none [of a a1 "[]"] g None by simp
    ultimately show ?thesis using Suc.IH [of a1] g None by (simp add: Let_def split: prod.split)
  next
    case (Some y)
    then have "stream_of a = y # stream_of a1" using stream_of_get [of a] g by simp
    then show ?thesis using Suc.IH [of a1] Suc.prems g Some
      by (cases "areader_run (replicate n Poll) a1") (simp add: Let_def)
  qed
qed

text \<open>
  C33. How the bytes are cut into pieces, and when replies are asked for, does not matter: for every
  sequence of bytes, well-formed or not, there are replies such that whichever way the bytes
  arrive, the reader never leaves its arrays or fails an assertion, has handed out the first of
  these replies, in order, and has handed out all of them after as many requests as there are.
\<close>

theorem pieces_do_not_matter:
  "\<exists>replies. \<forall>es. arrived es = bytes \<longrightarrow>
     (\<exists>outs r. reader_run es redisReaderCreate = Inr (outs, r) \<and> (\<exists>rest. replies = outs @ rest)) \<and>
     (\<exists>r. reader_run (es @ replicate (length replies) Poll) redisReaderCreate = Inr (replies, r))"
proof (rule exI [of _ "stream_of (Going [] bytes)"], intro allI impI)
  fix es
  let ?a = "Going [] []" and ?replies = "stream_of (Going [] bytes)"
  assume es: "arrived es = bytes"
  have s: "?replies = fst (areader_run es ?a) @ stream_of (snd (areader_run es ?a))"
    using areader_run_stream [of es "[]" ?a] es by simp
  obtain r where r: "reader_run es redisReaderCreate = Inr (fst (areader_run es ?a), r)"
    using reader_run_refines [OF create_represents] by blast
  then have outs: "\<exists>outs r. reader_run es redisReaderCreate = Inr (outs, r) \<and> (\<exists>rest. ?replies = outs @ rest)"
    using s by blast
  have "fst (areader_run (es @ replicate (length ?replies) Poll) ?a) =
      fst (areader_run es ?a) @ fst (areader_run (replicate (length ?replies) Poll) (snd (areader_run es ?a)))"
    by (rule areader_run_append_fst)
  also have "\<dots> = ?replies"
    using s polls_stream [of "snd (areader_run es ?a)" "length ?replies"] by simp
  finally have "\<exists>r. reader_run (es @ replicate (length ?replies) Poll) redisReaderCreate = Inr (?replies, r)"
    using reader_run_refines [OF create_represents, of "es @ replicate (length ?replies) Poll"] by auto
  with outs show "(\<exists>outs r. reader_run es redisReaderCreate = Inr (outs, r) \<and> (\<exists>rest. ?replies = outs @ rest)) \<and>
      (\<exists>r. reader_run (es @ replicate (length ?replies) Poll) redisReaderCreate = Inr (?replies, r))"
    by blast
qed


section \<open>Encoded replies\<close>

text \<open>How a server encodes a reply.\<close>

fun encode :: "reply_obj \<Rightarrow> string" where
  "encode (Obj_text type s) =
     (if type = REDIS_REPLY_STRING then CHR ''$'' # dec_of_nat (length s) @ [CR, LF] @ s @ [CR, LF]
      else if type = REDIS_REPLY_STATUS then CHR ''+'' # s @ [CR, LF]
      else CHR ''-'' # s @ [CR, LF])"
| "encode (Obj_integer i) = CHR '':'' # dec_of_int i @ [CR, LF]"
| "encode Obj_nil = ''$-1'' @ [CR, LF]"
| "encode (Obj_array n els) =
     CHR ''*'' # dec_of_int n @ [CR, LF] @
       concat (map (\<lambda>e. case e of None \<Rightarrow> [] | Some x \<Rightarrow> encode x) els)"

text \<open>
  The replies of the protocol: texts of lines without a line end, numbers of 64 bits, sizes
  below 2 to the 31, and arrays in at most one array.
\<close>

fun encodable :: "nat \<Rightarrow> reply_obj \<Rightarrow> bool" where
  "encodable level (Obj_text type s) \<longleftrightarrow>
     type = REDIS_REPLY_STRING \<and> length s < 2 ^ 31 \<or>
     type \<in> {REDIS_REPLY_STATUS, REDIS_REPLY_ERROR} \<and> crlf s = None"
| "encodable level (Obj_integer i) \<longleftrightarrow> - (2 ^ 63) \<le> i \<and> i < 2 ^ 63"
| "encodable level Obj_nil \<longleftrightarrow> True"
| "encodable level (Obj_array n els) \<longleftrightarrow>
     level < 2 \<and> n = int (length els) \<and> length els < 2 ^ 31 \<and>
     (\<forall>e \<in> set els. case e of None \<Rightarrow> False | Some x \<Rightarrow> encodable (Suc level) x)"

lemma crlf_none_end: "crlf s = None \<Longrightarrow> crlf (s @ CR # LF # r) = Some (length s)"
proof (induction s)
  case (Cons c s)
  then show ?case by (cases s) (auto split: if_splits)
qed simp

lemma no_CR_crlf: "CR \<notin> set s \<Longrightarrow> crlf s = None"
  by (induction s) auto

lemma digit_not_CR: "is_digit c \<Longrightarrow> c \<noteq> CR"
  by (auto simp: is_digit_def)

lemma dec_no_CR: "CR \<notin> set (dec_of_nat n)" "CR \<notin> set (dec_of_int i)"
  using dec_of_nat_digits digit_not_CR by (auto simp: dec_of_int_def)

lemma read_digits_all:
  "\<forall>c \<in> set ds. is_digit c \<Longrightarrow> read_digits (of_nat v) (ds @ CR # r) = Some (of_nat (foldl (\<lambda>a c. 10 * a + digit_val c) v ds))"
proof (induction ds arbitrary: v)
  case (Cons c ds)
  have "of_nat v * 10 + of_nat (digit_val c) = (of_nat (10 * v + digit_val c) :: 64 word)" by simp
  then show ?case using Cons digit_not_CR by (auto simp del: of_nat_add of_nat_mult)
qed simp

lemma read_digits_dec: "read_digits 0 (dec_of_nat n @ CR # r) = Some (of_nat n)"
  using read_digits_all [of "dec_of_nat n" 0 r] dec_of_nat_digits digits_val_dec [of n]
  by (simp add: digits_val_def)

lemma sint_of_int_64: "- (2 ^ 63) \<le> i \<Longrightarrow> i < 2 ^ 63 \<Longrightarrow> sint (of_int i :: 64 word) = i"
  by (simp add: signed_of_int signed_take_bit_int_eq_self)

lemma to_long_id: "- (2 ^ 31) \<le> i \<Longrightarrow> i < 2 ^ 31 \<Longrightarrow> to_long i = i"
  by (simp add: to_long_def signed_of_int signed_take_bit_int_eq_self)

lemma readLongLong_dec:
  assumes "- (2 ^ 63) \<le> i" and "i < 2 ^ 63"
  shows "readLongLong (dec_of_int i @ CR # r) = i"
proof (cases "i < 0")
  case True
  then have "dec_of_int i = CHR ''-'' # dec_of_nat (nat (- i))" by (simp add: dec_of_int_def)
  moreover have "- 1 * (of_nat (nat (- i)) :: 64 word) = of_int i" using True by simp
  ultimately show ?thesis
    using sint_of_int_64 [OF assms] by (simp add: readLongLong_def read_digits_dec)
next
  case False
  then have d: "dec_of_int i = dec_of_nat (nat i)" by (simp add: dec_of_int_def)
  obtain c cs where c: "dec_of_nat (nat i) = c # cs" by (meson dec_of_nat_Nil list.exhaust)
  then have "c \<noteq> CHR ''-''" "c \<noteq> CHR ''+''"
    using dec_of_nat_digits [of "nat i"] is_digit_not [of c] by auto
  moreover have "(of_nat (nat i) :: 64 word) = of_int i" using False by simp
  ultimately show ?thesis
    using sint_of_int_64 [OF assms] read_digits_dec [of "nat i" r] by (simp add: readLongLong_def d c)
qed

lemma dec_line:
  "crlf (dec_of_int i @ CR # LF # r) = Some (length (dec_of_int i))"
  by (rule crlf_none_end) (rule no_CR_crlf, rule dec_no_CR)

lemma dec_nat_int: "dec_of_nat n = dec_of_int (int n)"
  by (simp add: dec_of_int_def)

lemma take_item_encode:
  "encodable level (Obj_text type s) \<Longrightarrow>
     take_item level (encode (Obj_text type s) @ r) = Leaf (Obj_text type s) r"
  "encodable level (Obj_integer i) \<Longrightarrow> take_item level (encode (Obj_integer i) @ r) = Leaf (Obj_integer i) r"
  "take_item level (encode Obj_nil @ r) = Leaf Obj_nil r"
  "encodable level (Obj_array n els) \<Longrightarrow> take_item level (CHR ''*'' # dec_of_int n @ CR # LF # r) =
     (if els = [] then Leaf (Obj_array 0 []) r else Open_array n r)"
proof -
  assume a: "encodable level (Obj_text type s)"
  show "take_item level (encode (Obj_text type s) @ r) = Leaf (Obj_text type s) r"
  proof (cases "type = REDIS_REPLY_STRING")
    case True
    then have l: "length s < 2 ^ 31" using a by (auto simp: reply_types)
    then have "to_long (readLongLong (dec_of_int (int (length s)) @ CR # LF # s @ CR # LF # r)) = int (length s)"
      using readLongLong_dec [of "int (length s)"] to_long_id [of "int (length s)"] by simp
    moreover have "reply_type_of (CHR ''$'') = Some REDIS_REPLY_STRING" by (simp add: reply_type_of_def)
    moreover have "drop (4 + length s) (CR # LF # s @ CR # LF # r) = r" by (simp add: eval_nat_numeral)
    ultimately show ?thesis
      using True by (simp add: typed_item_def bulk_item_def dec_nat_int dec_line Let_def)
  next
    case False
    then have t: "type = REDIS_REPLY_STATUS \<or> type = REDIS_REPLY_ERROR" "crlf s = None" using a by auto
    have "reply_type_of (CHR ''+'') = Some REDIS_REPLY_STATUS" "reply_type_of (CHR ''-'') = Some REDIS_REPLY_ERROR"
      by (simp_all add: reply_type_of_def)
    with t show ?thesis
      by (auto simp: typed_item_def line_item_def crlf_none_end reply_types)
  qed
next
  assume a: "encodable level (Obj_integer i)"
  have "reply_type_of (CHR '':'') = Some REDIS_REPLY_INTEGER" by (simp add: reply_type_of_def)
  then show "take_item level (encode (Obj_integer i) @ r) = Leaf (Obj_integer i) r"
    using a by (simp add: typed_item_def line_item_def dec_line readLongLong_dec reply_types)
next
  have "to_long (readLongLong (dec_of_int (- 1) @ CR # LF # r)) = - 1"
    by (simp add: readLongLong_dec to_long_id)
  moreover have "dec_of_int (- 1) = ''-1''" by (simp add: dec_of_int_def dec_of_nat.simps digit_char_def char_of_eq_iff)
  moreover have "reply_type_of (CHR ''$'') = Some REDIS_REPLY_STRING" by (simp add: reply_type_of_def)
  ultimately show "take_item level (encode Obj_nil @ r) = Leaf Obj_nil r"
    using dec_line [of "- 1" r] by (simp add: typed_item_def bulk_item_def Let_def)
next
  assume a: "encodable level (Obj_array n els)"
  then have n: "n = int (length els)" "0 \<le> n" "n < 2 ^ 31" "level \<noteq> 2" by auto
  then have "to_long (readLongLong (dec_of_int n @ CR # LF # r)) = n"
    by (simp add: readLongLong_dec to_long_id)
  moreover have "reply_type_of (CHR ''*'') = Some REDIS_REPLY_ARRAY" by (simp add: reply_type_of_def)
  moreover have "typed_item level REDIS_REPLY_ARRAY u = array_item level u" for u
    by (simp add: typed_item_def reply_types)
  ultimately show "take_item level (CHR ''*'' # dec_of_int n @ CR # LF # r) =
     (if els = [] then Leaf (Obj_array 0 []) r else Open_array n r)"
    using n by (simp add: array_item_def dec_line Let_def)
qed


text \<open>An encoded reply is one object to the abstract reader, at any place where it may stand.\<close>

lemma decode_encode:
  "encodable (length gs) x \<Longrightarrow>
     decode gs (encode x @ r) = (case complete x gs of Inl y \<Rightarrow> Reply y r | Inr gs' \<Rightarrow> decode gs' r)"
proof (induction x arbitrary: gs r)
  case (Obj_text type s)
  then show ?case by (subst decode.simps) (simp only: take_item_encode(1) item.simps)
next
  case (Obj_integer i)
  then show ?case by (subst decode.simps) (simp only: take_item_encode(2) item.simps)
next
  case Obj_nil
  then show ?case by (subst decode.simps) (simp only: take_item_encode(3) item.simps)
next
  case (Obj_array n els)
  let ?enc = "\<lambda>els. concat (map (\<lambda>e. case e of None \<Rightarrow> [] | Some x \<Rightarrow> encode x) els)"
  have n: "n = int (length els)" using Obj_array.prems by simp
  have t: "take_item (length gs) (encode (Obj_array n els) @ r) =
      (if els = [] then Leaf (Obj_array 0 []) (?enc els @ r) else Open_array n (?enc els @ r))"
    using take_item_encode(4) [OF Obj_array.prems, of "?enc els @ r"] by simp
  have rest: "decode ((n, d) # gs) (?enc es @ r) =
      (case complete (Obj_array n (map Some d @ es)) gs of Inl y \<Rightarrow> Reply y r | Inr gs' \<Rightarrow> decode gs' r)"
    if "es \<noteq> []" "set es \<subseteq> set els" "length d + length es = length els" for es d
    using that
  proof (induction es arbitrary: d)
    case Nil
    then show ?case by simp
  next
    case (Cons e es)
    have "e \<in> set els" using Cons.prems by simp
    then obtain x where x: "e = Some x" "encodable (Suc (length gs)) x"
      using Obj_array.prems by (auto split: option.splits)
    have "decode ((n, d) # gs) (encode x @ ?enc es @ r) =
        (case complete x ((n, d) # gs) of Inl y \<Rightarrow> Reply y (?enc es @ r) | Inr gs' \<Rightarrow> decode gs' (?enc es @ r))"
      by (rule Obj_array.IH [OF \<open>e \<in> set els\<close>]) (use x in auto)
    then show ?case
    proof (cases "es = []")
      case True
      then have "int (length d) + 1 = n" using Cons.prems n by simp
      then show ?thesis using x True Obj_array.IH [OF \<open>e \<in> set els\<close>, of x "(n, d) # gs" r] by simp
    next
      case False
      then have "int (length d) + 1 \<noteq> n" using Cons.prems n by (cases es) auto
      moreover have "decode ((n, d @ [x]) # gs) (?enc es @ r) =
          (case complete (Obj_array n (map Some (d @ [x]) @ es)) gs of Inl y \<Rightarrow> Reply y r | Inr gs' \<Rightarrow> decode gs' r)"
        by (rule Cons.IH) (use False Cons.prems in auto)
      ultimately show ?thesis
        using x Obj_array.IH [OF \<open>e \<in> set els\<close>, of x "(n, d) # gs" "?enc es @ r"] by simp
    qed
  qed
  show ?case
  proof (cases "els = []")
    case True
    then show ?thesis using t n by (subst decode.simps) simp
  next
    case False
    have "decode gs (encode (Obj_array n els) @ r) = decode ((n, []) # gs) (?enc els @ r)"
      using t False by (subst decode.simps) simp
    then show ?thesis using rest [of els "[]"] False by simp
  qed
qed

lemma stream_encode:
  "list_all (encodable 0) xs \<Longrightarrow> stream [] (concat (map encode xs)) = xs"
proof (induction xs)
  case Nil
  then show ?case by (simp add: stream.simps decode.simps)
next
  case (Cons x xs)
  then have "decode [] (encode x @ concat (map encode xs)) = Reply x (concat (map encode xs))"
    using decode_encode [of "[]" x] by simp
  then show ?case using Cons by (subst stream.simps) simp
qed

lemma reads_encoded:
  assumes "list_all (encodable 0) xs" and "arrived es = concat (map encode xs)"
  shows "(\<exists>outs r rest. reader_run es redisReaderCreate = Inr (outs, r) \<and> xs = outs @ rest) \<and>
    (\<exists>r. reader_run (es @ replicate (length xs) Poll) redisReaderCreate = Inr (xs, r))"
proof -
  let ?a = "Going [] []"
  have s: "xs = fst (areader_run fs ?a) @ stream_of (snd (areader_run fs ?a))"
    if "arrived fs = concat (map encode xs)" for fs
    using areader_run_stream [of fs "[]" ?a] stream_encode [OF assms(1)] that by simp
  have run: "\<exists>r. reader_run fs redisReaderCreate = Inr (fst (areader_run fs ?a), r)" for fs
    using reader_run_refines [OF create_represents] by blast
  have "length (stream_of (snd (areader_run es ?a))) \<le> length xs"
    using arg_cong [OF s [OF assms(2)], of length] by simp
  then have "fst (areader_run (es @ replicate (length xs) Poll) ?a) = xs"
    using s [OF assms(2)] by (simp add: areader_run_append_fst polls_stream)
  then show ?thesis using run [of es] run [of "es @ replicate (length xs) Poll"] s [OF assms(2)] by metis
qed

text \<open>
  C32. Replies that a server encodes are read back: if their encodings arrive, cut into any pieces
  and with any requests in between, the replies handed out are the first of them, in order; once
  all have arrived, as many requests as there are replies hand out all the rest.
\<close>

theorem encoded_replies_are_read:
  assumes "list_all (encodable 0) xs" and "arrived es = concat (map encode xs)"
  shows "(\<exists>outs r rest. reader_run es redisReaderCreate = Inr (outs, r) \<and> xs = outs @ rest) \<and>
    (\<exists>r. reader_run (es @ replicate (length xs) Poll) redisReaderCreate = Inr (xs, r))"
  by (rule reads_encoded [OF assms])

definition demo_replies :: "reply_obj list" where
  "demo_replies =
     [Obj_array 2 [Some (Obj_text REDIS_REPLY_STRING [CR, LF]), Some (Obj_array 1 [Some (Obj_integer (- 7))])],
      Obj_text REDIS_REPLY_STATUS ''OK'']"

definition demo_events :: "reader_event list" where
  "demo_events = concat (map (\<lambda>c. [Arrive [c], Poll]) (concat (map encode demo_replies)))"

lemma arrived_bytes: "arrived (concat (map (\<lambda>c. [Arrive [c], Poll]) s)) = s"
  by (induction s) simp_all

theorem encoded_replies_are_read_witness:
  "(\<exists>r. reader_run (demo_events @ [Poll, Poll]) redisReaderCreate = Inr (demo_replies, r))"
proof -
  have "list_all (encodable 0) demo_replies" by (simp add: demo_replies_def reply_types)
  moreover have "arrived demo_events = concat (map encode demo_replies)"
    by (simp add: demo_events_def arrived_bytes)
  moreover have "replicate (length demo_replies) Poll = [Poll, Poll]" by (simp add: demo_replies_def eval_nat_numeral)
  ultimately show ?thesis using encoded_replies_are_read [of demo_replies demo_events] by simp
qed

theorem pieces_do_not_matter_witness:
  "\<exists>replies. (\<exists>r. reader_run ([Arrive ''+O'', Poll, Arrive (''K'' @ [CR, LF])] @ replicate (length replies) Poll) redisReaderCreate
      = Inr (replies, r)) \<and>
    (\<exists>r. reader_run ([Arrive (''+OK'' @ [CR, LF])] @ replicate (length replies) Poll) redisReaderCreate = Inr (replies, r))"
proof -
  obtain replies where r: "\<forall>es. arrived es = ''+OK'' @ [CR, LF] \<longrightarrow>
     (\<exists>outs r. reader_run es redisReaderCreate = Inr (outs, r) \<and> (\<exists>rest. replies = outs @ rest)) \<and>
     (\<exists>r. reader_run (es @ replicate (length replies) Poll) redisReaderCreate = Inr (replies, r))"
    using pieces_do_not_matter [of "''+OK'' @ [CR, LF]"] by blast
  have "arrived [Arrive ''+O'', Poll, Arrive (''K'' @ [CR, LF])] = ''+OK'' @ [CR, LF]"
    "arrived [Arrive (''+OK'' @ [CR, LF])] = ''+OK'' @ [CR, LF]" by simp_all
  then show ?thesis using r by blast
qed

end
