(* ===== verification/Redis_Format.thy ===== *)
theory Redis_Format
  imports Redis_Stream
begin

text \<open>
  The commands of \<open>DataHandle/hiredis_win/hiredis.c\<close>: a format with its arguments, or a list of
  texts, becomes a command of the protocol, which is an array of strings. Memory is always
  granted and sizes stay below 2 to the 31.
\<close>

section \<open>Lengths\<close>

text \<open>The number of digits by repeated division.\<close>

fun intlen_loop :: "nat \<Rightarrow> nat \<Rightarrow> nat" where
  "intlen_loop len i = (let len = len + 1; i = i div 10 in if i = 0 then len else intlen_loop len i)"

declare intlen_loop.simps [simp del]

definition intlen :: "int \<Rightarrow> nat" where
  "intlen i = (if i < 0 then intlen_loop 1 (nat (- i)) else intlen_loop 0 (nat i))"

definition bulklen :: "nat \<Rightarrow> nat" where
  "bulklen len = 1 + intlen (int len) + 2 + len + 2"

lemma intlen_loop_dec: "intlen_loop len i = len + length (dec_of_nat i)"
proof (induction len i rule: intlen_loop.induct)
  case (1 len i)
  show ?case
  proof (cases "i div 10 = 0")
    case True
    then show ?thesis
      by (subst intlen_loop.simps, subst dec_of_nat.simps) (auto simp: Let_def div_eq_0_iff)
  next
    case False
    then have "\<not> i < 10" by auto
    then show ?thesis using 1 False
      by (subst intlen_loop.simps, subst dec_of_nat.simps) (simp add: Let_def)
  qed
qed

lemma intlen_dec: "intlen (int n) = length (dec_of_nat n)"
  by (simp add: intlen_def intlen_loop_dec)


section \<open>The command as bytes\<close>

text \<open>\<open>sprintf\<close> of the sizes and \<open>memcpy\<close> of the texts, in turn behind each other.\<close>

definition put_bulk :: "string \<Rightarrow> string \<Rightarrow> string" where
  "put_bulk arg cmd =
     (let cmd = cmd @ CHR ''$'' # dec_of_nat (length arg) @ [CR, LF];
          cmd = cmd @ arg
      in cmd @ [CR] @ [LF])"

definition put_command :: "string list \<Rightarrow> string" where
  "put_command argv = fold put_bulk argv (CHR ''*'' # dec_of_int (int (length argv)) @ [CR, LF])"

text \<open>
  What both functions return: the bytes and their number; the assertion compares the number
  that was computed with what was written.
\<close>

definition finish_command :: "nat \<Rightarrow> string list \<Rightarrow> (string \<times> nat) res" where
  "finish_command totlen argv =
     (let cmd = put_command argv in assert_utils (length cmd = totlen) (Inr (cmd, totlen)))"

text \<open>A length is given for each argument, or its NUL ends it.\<close>

definition arg_bytes :: "string \<times> nat option \<Rightarrow> string res" where
  "arg_bytes a =
     (case snd a of
        None \<Rightarrow> Inr (c_str (fst a))
      | Some len \<Rightarrow> if len \<le> length (fst a) then Inr (take len (fst a)) else Inl Out_of_range)"

fun all_bytes :: "(string \<times> nat option) list \<Rightarrow> string list res" where
  "all_bytes [] = Inr []"
| "all_bytes (a # as) = rbind (arg_bytes a) (\<lambda>t. rbind (all_bytes as) (\<lambda>ts. Inr (t # ts)))"

definition redisFormatCommandArgv :: "(string \<times> nat option) list \<Rightarrow> (string \<times> nat) res" where
  "redisFormatCommandArgv argv =
     rbind (all_bytes argv) (\<lambda>args.
       let totlen = 1 + intlen (int (length args)) + 2;
           totlen = fold (\<lambda>a n. n + bulklen (length a)) args totlen
       in finish_command totlen args)"


section \<open>Formats\<close>

text \<open>
  The arguments behind the format: a pointer to characters, or a number. An argument that is
  missing or of the other kind is a fault. \<open>vprintf\<close> makes the text of a conversion that is
  left to the C library.
\<close>

datatype va_arg = Va_text string | Va_num int

definition va_text :: "va_arg list \<Rightarrow> (string \<times> va_arg list) res" where
  "va_text ap = (case ap of Va_text t # ap \<Rightarrow> Inr (t, ap) | _ \<Rightarrow> Inl Out_of_range)"

definition va_size :: "va_arg list \<Rightarrow> (nat \<times> va_arg list) res" where
  "va_size ap = (case ap of Va_num i # ap \<Rightarrow> if 0 \<le> i then Inr (nat i, ap) else Inl Out_of_range | _ \<Rightarrow> Inl Out_of_range)"

definition va_skip :: "va_arg list \<Rightarrow> (va_arg list) res" where
  "va_skip ap = (case ap of _ # ap \<Rightarrow> Inr ap | [] \<Rightarrow> Inl Out_of_range)"

definition skip_if :: "char \<Rightarrow> string \<Rightarrow> string" where
  "skip_if c p = (if p \<noteq> [] \<and> hd p = c then tl p else p)"

text \<open>
  What follows a per cent sign: flags, width, precision and modifiers; then the conversion
  itself, which is the first character of the result.
\<close>

definition printf_conversion :: "string \<Rightarrow> string" where
  "printf_conversion p =
     (let p = skip_if (CHR ''#'') p; p = skip_if (CHR ''0'') p; p = skip_if (CHR ''-'') p;
          p = skip_if (CHR '' '') p; p = skip_if (CHR ''+'') p;
          p = dropWhile is_digit p;
          p = (if p \<noteq> [] \<and> hd p = CHR ''.'' then dropWhile is_digit (tl p) else p)
      in if p \<noteq> [] \<and> (hd p = CHR ''h'' \<or> hd p = CHR ''l'')
         then (if tl p \<noteq> [] \<and> hd (tl p) = hd p then tl (tl p) else tl p)
         else p)"

definition is_conversion :: "char \<Rightarrow> bool" where
  "is_conversion c \<longleftrightarrow> c \<in> set ''diouxXeEfFgGaA''"

lemma skip_if_length: "length (skip_if c p) \<le> length p"
  by (simp add: skip_if_def)

lemma printf_conversion_length: "length (printf_conversion p) \<le> length p"
proof -
  let ?p5 = "skip_if (CHR ''+'') (skip_if (CHR '' '') (skip_if (CHR ''-'') (skip_if (CHR ''0'') (skip_if (CHR ''#'') p))))"
  have p5: "length ?p5 \<le> length p"
    by (rule le_trans [OF skip_if_length])+ (rule le_refl)
  let ?p6 = "dropWhile is_digit ?p5"
  have p6: "length ?p6 \<le> length p" by (rule le_trans [OF length_dropWhile_le p5])
  have "length (dropWhile is_digit (tl ?p6)) \<le> length p"
    by (rule le_trans [OF length_dropWhile_le]) (use p6 in simp)
  then have p7: "length (if ?p6 \<noteq> [] \<and> hd ?p6 = CHR ''.'' then dropWhile is_digit (tl ?p6) else ?p6) \<le> length p"
    using p6 by (simp split: if_split)
  show ?thesis using p7 unfolding printf_conversion_def Let_def by (auto split: if_splits)
qed

text \<open>
  The loop over the format, with the argument being put together, whether it was touched, and
  the arguments made. Positions are what is left of the format.
\<close>

function format_loop :: "(string \<Rightarrow> va_arg list \<Rightarrow> string) \<Rightarrow> string \<Rightarrow> va_arg list \<Rightarrow> sds \<Rightarrow> bool \<Rightarrow>
    string list \<Rightarrow> nat \<Rightarrow> (sds \<times> bool \<times> string list \<times> nat) res" where
  "format_loop vprintf c ap curarg touched argv totlen =
     (case c of
        [] \<Rightarrow> Inr (curarg, touched, argv, totlen)
      | ch # cs \<Rightarrow>
          if ch \<noteq> CHR ''%'' \<or> cs = []
          then (if ch = CHR '' ''
                then (if touched
                      then format_loop vprintf cs ap sdsempty False (argv @ [s_buf curarg]) (totlen + bulklen (sdslen curarg))
                      else format_loop vprintf cs ap curarg touched argv totlen)
                else format_loop vprintf cs ap (sdscatlen curarg [ch]) True argv totlen)
          else if hd cs = CHR ''s''
          then rbind (va_text ap) (\<lambda>(arg, ap).
                 format_loop vprintf (tl cs) ap
                   (if 0 < length (c_str arg) then sdscatlen curarg (c_str arg) else curarg) True argv totlen)
          else if hd cs = CHR ''b''
          then rbind (va_text ap) (\<lambda>(arg, ap). rbind (va_size ap) (\<lambda>(size, ap).
                 if size \<le> length arg
                 then format_loop vprintf (tl cs) ap
                        (if 0 < size then sdscatlen curarg (take size arg) else curarg) True argv totlen
                 else Inl Out_of_range))
          else if hd cs = CHR ''%''
          then format_loop vprintf (tl cs) ap (sdscat curarg ''%'') True argv totlen
          else (let p = printf_conversion cs; l = length cs - length p + 2;
                    found = (p \<noteq> [] \<and> is_conversion (hd p) \<and> l < 14);
                    newarg = (if found then sdscatvprintf curarg (vprintf (take l c) ap) else curarg)
                in rbind (va_skip ap) (\<lambda>ap.
                     format_loop vprintf (if found then tl p else tl cs) ap newarg True argv totlen)))"
  by pat_completeness auto
termination
proof (relation "measure (\<lambda>(v, c, ap, cur, t, argv, n). length c)", goal_cases)
  case (8 vprintf c ap curarg touched argv totlen ch cs p l found newarg ap')
  then show ?case using printf_conversion_length [of cs] by (auto simp: le_diff_conv)
qed auto

declare format_loop.simps [simp del]

definition redisvFormatCommand :: "(string \<Rightarrow> va_arg list \<Rightarrow> string) \<Rightarrow> string \<Rightarrow> va_arg list \<Rightarrow> (string \<times> nat) res" where
  "redisvFormatCommand vprintf format ap =
     rbind (format_loop vprintf format ap sdsempty False [] 0) (\<lambda>(curarg, touched, argv, totlen).
       let (argv, totlen) =
             (if touched then (argv @ [s_buf curarg], totlen + bulklen (sdslen curarg)) else (argv, totlen));
           totlen = totlen + (1 + intlen (int (length argv)) + 2)
       in finish_command totlen argv)"


section \<open>What a command is\<close>

text \<open>The array of strings a command stands for.\<close>

definition command_obj :: "string list \<Rightarrow> reply_obj" where
  "command_obj argv = Obj_array (int (length argv)) (map (\<lambda>t. Some (Obj_text REDIS_REPLY_STRING t)) argv)"

lemma put_bulk_encode: "put_bulk arg cmd = cmd @ encode (Obj_text REDIS_REPLY_STRING arg)"
  by (simp add: put_bulk_def Let_def)

lemma fold_put_bulk:
  "fold put_bulk argv cmd = cmd @ concat (map (\<lambda>t. encode (Obj_text REDIS_REPLY_STRING t)) argv)"
  by (induction argv arbitrary: cmd) (simp_all add: put_bulk_encode del: encode.simps)

lemma put_command_encode: "put_command argv = encode (command_obj argv)"
  by (simp add: put_command_def command_obj_def fold_put_bulk comp_def del: encode.simps(1))

lemma length_bulk: "length (encode (Obj_text REDIS_REPLY_STRING t)) = bulklen (length t)"
  by (simp add: bulklen_def intlen_dec)

definition bulk_total :: "string list \<Rightarrow> nat" where
  "bulk_total argv = sum_list (map (\<lambda>t. bulklen (length t)) argv)"

lemma length_command: "length (put_command argv) = bulk_total argv + (1 + intlen (int (length argv)) + 2)"
  by (simp add: put_command_def fold_put_bulk length_concat comp_def length_bulk bulk_total_def
      dec_of_int_def intlen_dec del: encode.simps)

text \<open>The number of bytes computed along the format is that of the arguments made.\<close>

lemma format_loop_total:
  "format_loop vprintf c ap curarg touched argv totlen = Inr (cur, t, argv', totlen') \<Longrightarrow>
     totlen = bulk_total argv \<Longrightarrow> totlen' = bulk_total argv'"
proof (induction vprintf c ap curarg touched argv totlen rule: format_loop.induct)
  case (1 vprintf c ap curarg touched argv totlen)
  show ?case
  proof (cases c)
    case Nil
    then show ?thesis using 1(8,9) by (subst (asm) format_loop.simps) auto
  next
    case (Cons ch cs)
    note ih = 1(1-7) [OF Cons]
    have tot: "totlen + bulklen (sdslen curarg) = bulk_total (argv @ [s_buf curarg])"
      using 1(9) by (simp add: bulk_total_def sdslen_def)
    note run = 1(8) [unfolded format_loop.simps [of vprintf c ap curarg touched argv totlen], unfolded Cons list.case]
    consider (space) "ch \<noteq> CHR ''%'' \<or> cs = []" "ch = CHR '' ''" | (char) "ch \<noteq> CHR ''%'' \<or> cs = []" "ch \<noteq> CHR '' ''"
      | (s) "\<not> (ch \<noteq> CHR ''%'' \<or> cs = [])" "hd cs = CHR ''s''"
      | (b) "\<not> (ch \<noteq> CHR ''%'' \<or> cs = [])" "hd cs \<noteq> CHR ''s''" "hd cs = CHR ''b''"
      | (percent) "\<not> (ch \<noteq> CHR ''%'' \<or> cs = [])" "hd cs \<noteq> CHR ''s''" "hd cs \<noteq> CHR ''b''" "hd cs = CHR ''%''"
      | (conv) "\<not> (ch \<noteq> CHR ''%'' \<or> cs = [])" "hd cs \<noteq> CHR ''s''" "hd cs \<noteq> CHR ''b''" "hd cs \<noteq> CHR ''%''"
      by blast
    then show ?thesis
    proof cases
      case space
      then show ?thesis using ih(1,2) run tot 1(9) by (cases touched) simp_all
    next
      case char
      then show ?thesis using ih(3) run 1(9) by simp
    next
      case s
      then show ?thesis using ih(4) run 1(9) by (auto simp: rbind_Inr_conv)
    next
      case b
      from run b obtain arg ap' size ap'' where v: "va_text ap = Inr (arg, ap')" "va_size ap' = Inr (size, ap'')"
        by (auto simp: rbind_Inr_conv)
      with run b have "size \<le> length arg" by (auto split: if_splits)
      with ih(5) [OF b(1-3), of size arg ap''] run b v 1(9) show ?thesis by simp
    next
      case percent
      then show ?thesis using ih(6) run 1(9) by simp
    next
      case conv
      from run conv obtain ap' where v: "va_skip ap = Inr ap'" by (auto simp: Let_def rbind_Inr_conv)
      show ?thesis
        by (rule ih(7) [OF conv refl refl refl refl, of ap']) (use run conv v 1(9) Cons in \<open>auto simp: Let_def split: if_splits\<close>)
    qed
  qed
qed

lemma finish_command_ok:
  "finish_command (bulk_total argv + (1 + intlen (int (length argv)) + 2)) argv =
     Inr (encode (command_obj argv), length (encode (command_obj argv)))"
  using length_command [of argv] by (simp add: finish_command_def assert_utils_def put_command_encode)

lemma fold_bulklen: "fold (\<lambda>a n. n + bulklen (length a)) args n = n + bulk_total args"
  by (induction args arbitrary: n) (simp_all add: bulk_total_def)

text \<open>The assertions of both functions hold, and what is sent stands for the arguments.\<close>

lemma argv_command:
  "redisFormatCommandArgv argv =
     rbind (all_bytes argv) (\<lambda>args. Inr (encode (command_obj args), length (encode (command_obj args))))"
  using finish_command_ok
  by (simp add: redisFormatCommandArgv_def Let_def fold_bulklen add.commute del: encode.simps)

definition made_args :: "sds \<times> bool \<times> string list \<times> nat \<Rightarrow> string list" where
  "made_args z = (case z of (curarg, touched, argv, _) \<Rightarrow> if touched then argv @ [s_buf curarg] else argv)"

lemma format_command:
  "redisvFormatCommand vprintf format ap =
     rbind (format_loop vprintf format ap sdsempty False [] 0)
       (\<lambda>z. Inr (encode (command_obj (made_args z)), length (encode (command_obj (made_args z)))))"
proof (cases "format_loop vprintf format ap sdsempty False [] 0")
  case (Inl e)
  then show ?thesis by (simp add: redisvFormatCommand_def)
next
  case (Inr z)
  obtain cur t argv n where z: "z = (cur, t, argv, n)" by (cases z)
  have "n = bulk_total argv"
    using format_loop_total [of vprintf format ap sdsempty False "[]" 0] Inr z by (simp add: bulk_total_def)
  then have "(if t then n + bulklen (sdslen cur) else n) = bulk_total (made_args z)"
    using z by (simp add: made_args_def bulk_total_def sdslen_def)
  then show ?thesis
    using Inr z finish_command_ok [of "made_args z"]
    by (cases t) (simp_all add: redisvFormatCommand_def Let_def made_args_def sdslen_def add.commute)
qed

text \<open>
  A format that is made of words, \<open>%s\<close> and \<open>%b\<close> with one blank between, each of which shall be
  one argument.
\<close>

datatype format_item = Word_item string | Str_item string | Bin_item string

fun item_format :: "format_item \<Rightarrow> string" where
  "item_format (Word_item w) = w"
| "item_format (Str_item t) = ''%s''"
| "item_format (Bin_item t) = ''%b''"

fun item_args :: "format_item \<Rightarrow> va_arg list" where
  "item_args (Word_item w) = []"
| "item_args (Str_item t) = [Va_text t]"
| "item_args (Bin_item t) = [Va_text t, Va_num (int (length t))]"

fun item_text :: "format_item \<Rightarrow> string" where
  "item_text (Word_item w) = w"
| "item_text (Str_item t) = c_str t"
| "item_text (Bin_item t) = t"

definition item_ok :: "format_item \<Rightarrow> bool" where
  "item_ok i = (case i of Word_item w \<Rightarrow> w \<noteq> [] \<and> CHR ''%'' \<notin> set w \<and> CHR '' '' \<notin> set w | _ \<Rightarrow> True)"

fun items_format :: "format_item list \<Rightarrow> string" where
  "items_format [] = []"
| "items_format [i] = item_format i"
| "items_format (i # j # is) = item_format i @ CHR '' '' # items_format (j # is)"

lemma format_word:
  "CHR ''%'' \<notin> set w \<Longrightarrow> CHR '' '' \<notin> set w \<Longrightarrow>
     \<exists>cur'. format_loop vprintf (w @ c) ap cur touched argv n =
        format_loop vprintf c ap cur' (touched \<or> w \<noteq> []) argv n \<and> s_buf cur' = s_buf cur @ w"
proof (induction w arbitrary: cur touched)
  case Nil
  then show ?case by auto
next
  case (Cons ch w)
  have "format_loop vprintf ((ch # w) @ c) ap cur touched argv n =
      format_loop vprintf (w @ c) ap (sdscatlen cur [ch]) True argv n"
    using Cons.prems by (subst format_loop.simps) auto
  then show ?case using Cons.IH [of "sdscatlen cur [ch]" True] Cons.prems by auto
qed

lemma format_item:
  assumes "item_ok i"
  shows "\<exists>cur'. format_loop vprintf (item_format i @ c) (item_args i @ ap) sdsempty False argv n =
      format_loop vprintf c ap cur' True argv n \<and> s_buf cur' = item_text i"
proof (cases i)
  case (Word_item w)
  then show ?thesis
    using assms format_word [of w vprintf c ap sdsempty False argv n] by (simp add: item_ok_def)
next
  case (Str_item t)
  then show ?thesis
    by (subst format_loop.simps) (auto simp: va_text_def)
next
  case (Bin_item t)
  then show ?thesis
    by (subst format_loop.simps) (auto simp: va_text_def va_size_def)
qed

lemma format_blank:
  "format_loop vprintf (CHR '' '' # c) ap cur True argv n =
     format_loop vprintf c ap sdsempty False (argv @ [s_buf cur]) (n + bulklen (sdslen cur))"
  by (subst format_loop.simps) auto

lemma format_items:
  "list_all item_ok is \<Longrightarrow>
     \<exists>z. format_loop vprintf (items_format is) (concat (map item_args is)) sdsempty False argv n = Inr z \<and>
       made_args z = argv @ map item_text is"
proof (induction "is" arbitrary: argv n rule: items_format.induct)
  case 1
  then show ?case by (subst format_loop.simps) (simp add: made_args_def)
next
  case (2 i)
  then show ?case
    using format_item [of i vprintf "[]" "[]" argv n] by (auto simp: format_loop.simps [of vprintf "[]"] made_args_def)
next
  case (3 i j "is")
  then have "item_ok i" by simp
  from format_item [OF this, of vprintf "CHR '' '' # items_format (j # is)" "concat (map item_args (j # is))" argv n]
  obtain cur where cur: "format_loop vprintf (items_format (i # j # is)) (concat (map item_args (i # j # is))) sdsempty False argv n =
      format_loop vprintf (items_format (j # is)) (concat (map item_args (j # is))) sdsempty False (argv @ [s_buf cur]) (n + bulklen (sdslen cur))"
    "s_buf cur = item_text i"
    by (auto simp: format_blank)
  show ?case using 3(1) [of "argv @ [s_buf cur]" "n + bulklen (sdslen cur)"] 3(2) cur by simp
qed

text \<open>
  C34. A format of words, \<open>%s\<close> and \<open>%b\<close>, one blank between each two, makes exactly one argument
  of each, whatever bytes the given texts have (blanks, line ends and per cent signs too); the
  number returned is the number of bytes; and a reader that is fed these bytes gives back the
  array of these arguments.
\<close>

theorem command_arguments:
  assumes "list_all item_ok is" and "length is < 2 ^ 31" and "\<forall>i \<in> set is. length (item_text i) < 2 ^ 31"
  shows "\<exists>cmd r. redisvFormatCommand vprintf (items_format is) (concat (map item_args is)) = Inr (cmd, length cmd) \<and>
    redisFormatCommandArgv (map (\<lambda>i. (item_text i, Some (length (item_text i)))) is) = Inr (cmd, length cmd) \<and>
    reader_run [Arrive cmd, Poll] redisReaderCreate =
      Inr ([Obj_array (int (length is)) (map (\<lambda>i. Some (Obj_text REDIS_REPLY_STRING (item_text i))) is)], r)"
proof -
  let ?obj = "command_obj (map item_text is)"
  have obj: "?obj = Obj_array (int (length is)) (map (\<lambda>i. Some (Obj_text REDIS_REPLY_STRING (item_text i))) is)"
    by (simp add: command_obj_def)
  have fmt: "redisvFormatCommand vprintf (items_format is) (concat (map item_args is)) = Inr (encode ?obj, length (encode ?obj))"
    using format_items [OF assms(1), of vprintf "[]" 0] by (auto simp: format_command)
  have all: "all_bytes (map (\<lambda>i. (item_text i, Some (length (item_text i)))) is) = Inr (map item_text is)"
    by (induction "is") (simp_all add: arg_bytes_def)
  have "list_all (encodable 0) [?obj]" using assms by (simp add: obj)
  then obtain r where "reader_run [Arrive (encode ?obj), Poll] redisReaderCreate = Inr ([?obj], r)"
    using reads_encoded [of "[?obj]" "[Arrive (encode ?obj)]"] by auto
  then show ?thesis using fmt all obj by (simp add: argv_command del: encode.simps)
qed

theorem command_arguments_witness:
  "\<exists>cmd r. redisvFormatCommand (\<lambda>f ap. []) ''SET %s %b'' [Va_text ''a b'', Va_text [CR, LF], Va_num 2] = Inr (cmd, length cmd) \<and>
    reader_run [Arrive cmd, Poll] redisReaderCreate =
      Inr ([Obj_array 3 [Some (Obj_text REDIS_REPLY_STRING ''SET''), Some (Obj_text REDIS_REPLY_STRING ''a b''),
                         Some (Obj_text REDIS_REPLY_STRING [CR, LF])]], r)"
proof -
  let ?is = "[Word_item ''SET'', Str_item ''a b'', Bin_item [CR, LF]]"
  have h: "list_all item_ok ?is" "length ?is < 2 ^ 31" "\<forall>i \<in> set ?is. length (item_text i) < 2 ^ 31"
    by (simp_all add: item_ok_def c_str_def NUL_def)
  have "c_str ''a b'' = ''a b''" by (simp add: c_str_def NUL_def)
  then show ?thesis using command_arguments [OF h, of "\<lambda>f ap. []"] by simp blast
qed

text \<open>
  A command that is itself handed over as the format, as \<open>RedisWrap\<close> does, must not have a per
  cent sign in a value: it is read as a conversion, for which there is no argument.
\<close>

lemma percent_in_format: "redisvFormatCommand vprintf ''set k 5%d'' [] = Inl Out_of_range"
proof -
  have c: "format_loop vprintf (ch # cs) ap cur t argv n = format_loop vprintf cs ap (sdscatlen cur [ch]) True argv n"
    if "ch \<noteq> CHR ''%''" "ch \<noteq> CHR '' ''" for ch cs ap cur t argv n
    using that by (subst format_loop.simps) simp
  have p: "format_loop vprintf ''%d'' [] cur t argv n = Inl Out_of_range" for cur t argv n
    by (subst format_loop.simps) (simp add: va_skip_def Let_def)
  show ?thesis by (simp add: redisvFormatCommand_def c format_blank p)
qed

end
