(* ===== verification/Redis_Connect.thy ===== *)
theory Redis_Connect
  imports Redis_Format
begin

text \<open>
  The context of a connection and how it is made: \<open>DataHandle/hiredis_win/net.c\<close> and the
  functions of \<open>hiredis.c\<close> that make and free a context, in the build for Windows. The socket
  functions of the system are a parameter, on a state of their own.
\<close>

section \<open>The context\<close>

definition REDIS_ERR_IO :: int where "REDIS_ERR_IO = 1"
definition REDIS_ERR_OTHER :: int where "REDIS_ERR_OTHER = 2"
definition REDIS_ERR_EOF :: int where "REDIS_ERR_EOF = 3"
definition REDIS_ERR_OOM :: int where "REDIS_ERR_OOM = 5"

definition REDIS_BLOCK :: u32 where "REDIS_BLOCK = 1"
definition REDIS_CONNECTED :: u32 where "REDIS_CONNECTED = 2"
definition REDIS_DISCONNECTING :: u32 where "REDIS_DISCONNECTING = 4"
definition REDIS_FREEING :: u32 where "REDIS_FREEING = 8"
definition REDIS_IN_CALLBACK :: u32 where "REDIS_IN_CALLBACK = 0x10"
definition REDIS_SUBSCRIBED :: u32 where "REDIS_SUBSCRIBED = 0x20"

lemmas redis_flags = REDIS_BLOCK_def REDIS_CONNECTED_def REDIS_DISCONNECTING_def REDIS_FREEING_def
  REDIS_IN_CALLBACK_def REDIS_SUBSCRIBED_def

lemmas redis_errors = REDIS_ERR_IO_def REDIS_ERR_OTHER_def REDIS_ERR_EOF_def REDIS_ERR_OOM_def
  REDIS_ERR_PROTOCOL_def REDIS_OK_def REDIS_ERR_def

record redis_context =
  c_err :: int
  c_errstr :: string
  c_fd :: int
  c_flags :: u32
  c_obuf :: sds
  c_reader :: redis_reader

definition has_flag :: "u32 \<Rightarrow> redis_context \<Rightarrow> bool" where
  "has_flag f c \<longleftrightarrow> c_flags c AND f \<noteq> 0"

definition set_flag :: "u32 \<Rightarrow> redis_context \<Rightarrow> redis_context" where
  "set_flag f c = c\<lparr>c_flags := c_flags c OR f\<rparr>"

definition clear_flag :: "u32 \<Rightarrow> redis_context \<Rightarrow> redis_context" where
  "clear_flag f c = c\<lparr>c_flags := c_flags c AND NOT f\<rparr>"

text \<open>\<open>__redisSetError\<close>: without a text it is that of the error number, and only for \<open>REDIS_ERR_IO\<close>.\<close>

definition redisSetError :: "int \<Rightarrow> string \<Rightarrow> redis_context \<Rightarrow> redis_context" where
  "redisSetError type str c = c\<lparr>c_err := type, c_errstr := take 127 (c_str str)\<rparr>"


section \<open>The socket functions of the system\<close>

definition WSAEWOULDBLOCK :: int where "WSAEWOULDBLOCK = 10035"
definition EINPROGRESS :: int where "EINPROGRESS = 10036"
definition WSAETIMEDOUT :: int where "WSAETIMEDOUT = 10060"

datatype sock_option = SO_REUSEADDR | TCP_NODELAY | SO_RCVTIMEO int | SO_SNDTIMEO int

text \<open>
  The calls of the sources. A failed \<open>recv\<close> or \<open>send\<close> is \<open>None\<close>; a waiting time is a number of
  microseconds; \<open>ws_last_error\<close> is that of the socket library and \<open>ws_errno\<close> that of the C library,
  which the socket library does not set; \<open>ws_select\<close> also says whether the descriptor is left in the set, and
  \<open>ws_so_error\<close> gives the error kept in the socket.
\<close>

record 's winsock =
  ws_startup :: "'s \<Rightarrow> int \<times> 's"
  ws_socket :: "'s \<Rightarrow> int \<times> 's"
  ws_setsockopt :: "int \<Rightarrow> sock_option \<Rightarrow> 's \<Rightarrow> int \<times> 's"
  ws_ioctl_nbio :: "int \<Rightarrow> int \<Rightarrow> 's \<Rightarrow> int \<times> 's"
  ws_string_to_address :: "string \<Rightarrow> 's \<Rightarrow> (string \<times> u16) option \<times> 's"
  ws_gethostbyname :: "string \<Rightarrow> 's \<Rightarrow> string option \<times> 's"
  ws_connect :: "int \<Rightarrow> string \<times> u16 \<Rightarrow> 's \<Rightarrow> int \<times> 's"
  ws_select :: "int \<Rightarrow> int option \<Rightarrow> 's \<Rightarrow> (int \<times> bool) \<times> 's"
  ws_so_error :: "int \<Rightarrow> 's \<Rightarrow> (int \<times> int) \<times> 's"
  ws_close :: "int \<Rightarrow> 's \<Rightarrow> 's"
  ws_send :: "int \<Rightarrow> string \<Rightarrow> 's \<Rightarrow> nat option \<times> 's"
  ws_recv :: "int \<Rightarrow> nat \<Rightarrow> 's \<Rightarrow> string option \<times> 's"
  ws_last_error :: "'s \<Rightarrow> int"
  ws_errno :: "'s \<Rightarrow> int"
  ws_strerror :: "int \<Rightarrow> string"

text \<open>What the functions of \<open>net.c\<close> work on: the context, the file's own error number, the system.\<close>

record 's net =
  n_c :: redis_context
  errnox :: int
  n_sys :: 's

definition on_context :: "(redis_context \<Rightarrow> redis_context) \<Rightarrow> 's net \<Rightarrow> 's net" where
  "on_context f n = n\<lparr>n_c := f (n_c n)\<rparr>"

definition ws_call :: "('s \<Rightarrow> 'a \<times> 's) \<Rightarrow> 's net \<Rightarrow> 'a \<times> 's net" where
  "ws_call f n = (let (x, s) = f (n_sys n) in (x, n\<lparr>n_sys := s\<rparr>))"

definition close_socket :: "'s winsock \<Rightarrow> int \<Rightarrow> 's net \<Rightarrow> 's net" where
  "close_socket A fd n = n\<lparr>n_sys := ws_close A fd (n_sys n)\<rparr>"

text \<open>\<open>SETERRNO\<close>.\<close>

definition set_errno :: "'s winsock \<Rightarrow> 's net \<Rightarrow> 's net" where
  "set_errno A n = n\<lparr>errnox := ws_last_error A (n_sys n)\<rparr>"

definition redisSetErrorFromErrno :: "'s winsock \<Rightarrow> int \<Rightarrow> string option \<Rightarrow> 's net \<Rightarrow> 's net" where
  "redisSetErrorFromErrno A type prefix n =
     (let buf = (case prefix of None \<Rightarrow> [] | Some p \<Rightarrow> p @ '': '');
          buf = buf @ take (127 - length buf) (ws_strerror A (errnox n))
      in on_context (redisSetError type buf) n)"

definition redisCreateSocket :: "'s winsock \<Rightarrow> 's net \<Rightarrow> int \<times> 's net" where
  "redisCreateSocket A n =
     (let (s, n) = ws_call (ws_socket A) n
      in if s = - 1 then (REDIS_ERR, redisSetErrorFromErrno A REDIS_ERR_IO None (set_errno A n))
         else let (r, n) = ws_call (ws_setsockopt A s SO_REUSEADDR) n
              in if r = - 1
                 then (REDIS_ERR, close_socket A s (redisSetErrorFromErrno A REDIS_ERR_IO None (set_errno A n)))
                 else (s, n))"

definition redisSetBlocking :: "'s winsock \<Rightarrow> int \<Rightarrow> bool \<Rightarrow> 's net \<Rightarrow> int \<times> 's net" where
  "redisSetBlocking A fd blocking n =
     (let flag = (if blocking then 0 else 1);
          (iResult, n) = ws_call (ws_ioctl_nbio A fd flag) n
      in if iResult \<noteq> 0
         then (REDIS_ERR, close_socket A fd
                 (redisSetErrorFromErrno A REDIS_ERR_IO (Some ''fcntl(F_SETFL)'') (set_errno A n)))
         else (REDIS_OK, n))"

definition redisSetTcpNoDelay :: "'s winsock \<Rightarrow> int \<Rightarrow> 's net \<Rightarrow> int \<times> 's net" where
  "redisSetTcpNoDelay A fd n =
     (let (r, n) = ws_call (ws_setsockopt A fd TCP_NODELAY) n
      in if r = - 1
         then (REDIS_ERR, close_socket A fd
                 (redisSetErrorFromErrno A REDIS_ERR_IO (Some ''setsockopt(TCP_NODELAY)'') (set_errno A n)))
         else (REDIS_OK, n))"

definition redisContextWaitReady :: "'s winsock \<Rightarrow> int \<Rightarrow> int option \<Rightarrow> 's net \<Rightarrow> int \<times> 's net" where
  "redisContextWaitReady A fd timeout n =
     (if errnox n = EINPROGRESS \<or> errnox n = WSAEWOULDBLOCK
      then let ((r, isset), n) = ws_call (ws_select A fd timeout) n
           in if r = - 1
              then (REDIS_ERR, close_socket A fd
                      (redisSetErrorFromErrno A REDIS_ERR_IO (Some ''select(2)'') (set_errno A n)))
              else if \<not> isset
              then (REDIS_ERR, close_socket A fd
                      (redisSetErrorFromErrno A REDIS_ERR_IO None (n\<lparr>errnox := WSAETIMEDOUT\<rparr>)))
              else (REDIS_OK, n)
      else (REDIS_ERR, close_socket A fd (redisSetErrorFromErrno A REDIS_ERR_IO None (set_errno A n))))"

definition redisCheckSocketError :: "'s winsock \<Rightarrow> int \<Rightarrow> 's net \<Rightarrow> int \<times> 's net" where
  "redisCheckSocketError A fd n =
     (let ((r, err), n) = ws_call (ws_so_error A fd) n
      in if r = - 1
         then (REDIS_ERR, close_socket A fd
                 (redisSetErrorFromErrno A REDIS_ERR_IO (Some ''getsockopt(SO_ERROR)'') n))
         else if err \<noteq> 0
         then (REDIS_ERR, close_socket A fd (redisSetErrorFromErrno A REDIS_ERR_IO None (n\<lparr>errnox := err\<rparr>)))
         else (REDIS_OK, n))"

definition redisContextSetTimeout :: "'s winsock \<Rightarrow> int \<Rightarrow> 's net \<Rightarrow> int \<times> 's net" where
  "redisContextSetTimeout A tv n =
     (let (r, n) = ws_call (ws_setsockopt A (c_fd (n_c n)) (SO_RCVTIMEO tv)) n
      in if r = - 1
         then (REDIS_ERR, redisSetErrorFromErrno A REDIS_ERR_IO (Some ''setsockopt(SO_RCVTIMEO)'') (set_errno A n))
         else let (r, n) = ws_call (ws_setsockopt A (c_fd (n_c n)) (SO_SNDTIMEO tv)) n
              in if r = - 1
                 then (REDIS_ERR, redisSetErrorFromErrno A REDIS_ERR_IO (Some ''setsockopt(SO_SNDTIMEO)'') (set_errno A n))
                 else (REDIS_OK, n))"


section \<open>Connecting\<close>

text \<open>
  \<open>snprintf\<close> is \<open>sprintf_s\<close> here, which does not return when the text and its NUL do not fit.
\<close>

definition sprintf_s :: "nat \<Rightarrow> string \<Rightarrow> (string \<Rightarrow> 'a res) \<Rightarrow> 'a res" where
  "sprintf_s room text k = (if length text < room then k text else Inl Out_of_range)"

text \<open>
  The address: what \<open>WSAStringToAddressA\<close> returns is compared as if it were \<open>inet_pton\<close>, so the
  host is looked up when it \<^emph>\<open>is\<close> a numeric address; else the address was never written.
\<close>

definition resolve_address ::
    "'s winsock \<Rightarrow> string \<Rightarrow> int \<Rightarrow> int \<Rightarrow> 's net \<Rightarrow> ((string option \<times> u16) option \<times> 's net) res" where
  "resolve_address A addr port s n =
     sprintf_s 255 (addr @ CHR '':'' # dec_of_int port) (\<lambda>buf.
       let (sa, n) = ws_call (ws_string_to_address A buf) n
       in case sa of
            Some (_, sin_port) \<Rightarrow>
              (let (he, n) = ws_call (ws_gethostbyname A addr) n
               in case he of
                    None \<Rightarrow> sprintf_s 128 (''Can'' @ [CHR 0x27] @ ''t resolve: '' @ addr) (\<lambda>buf.
                      Inr (None, close_socket A s (on_context (redisSetError REDIS_ERR_OTHER buf) n)))
                  | Some h \<Rightarrow> Inr (Some (Some h, sin_port), n))
          | None \<Rightarrow> Inr (Some (None, word_of_int port), n))"

definition connect_socket ::
    "'s winsock \<Rightarrow> int \<Rightarrow> string \<times> u16 \<Rightarrow> bool \<Rightarrow> int option \<Rightarrow> 's net \<Rightarrow> int \<times> 's net" where
  "connect_socket A s sa blocking timeout n =
     (let (r, n) = ws_call (ws_connect A s sa) n
      in if r = - 1
         then let n = set_errno A n
              in if errnox n = EINPROGRESS \<and> \<not> blocking then (REDIS_OK, n)
                 else redisContextWaitReady A s timeout n
         else (REDIS_OK, n))"

definition finish_connect :: "'s winsock \<Rightarrow> int \<Rightarrow> bool \<Rightarrow> 's net \<Rightarrow> int \<times> 's net" where
  "finish_connect A s blocking n =
     (let (r, n) = (if blocking then redisSetBlocking A s True n else (REDIS_OK, n))
      in if r \<noteq> REDIS_OK then (REDIS_ERR, n)
         else let (r, n) = redisSetTcpNoDelay A s n
              in if r \<noteq> REDIS_OK then (REDIS_ERR, n)
                 else (REDIS_OK, on_context (\<lambda>c. set_flag REDIS_CONNECTED (c\<lparr>c_fd := s\<rparr>)) n))"

definition redisContextConnectTcp :: "'s winsock \<Rightarrow> string \<Rightarrow> int \<Rightarrow> int option \<Rightarrow> 's net \<Rightarrow> (int \<times> 's net) res" where
  "redisContextConnectTcp A addr port timeout n =
     (let blocking = has_flag REDIS_BLOCK (n_c n);
          (s, n) = redisCreateSocket A n
      in if s < 0 then Inr (REDIS_ERR, n)
         else let (r, n) = redisSetBlocking A s False n
              in if r \<noteq> REDIS_OK then Inr (REDIS_ERR, n)
                 else rbind (resolve_address A addr port s n) (\<lambda>(sa, n).
                   case sa of
                     None \<Rightarrow> Inr (REDIS_ERR, n)
                   | Some (None, _) \<Rightarrow> Inl Uninitialised
                   | Some (Some h, p) \<Rightarrow>
                       (let (r, n) = connect_socket A s (h, p) blocking timeout n
                        in if r \<noteq> REDIS_OK then Inr (REDIS_ERR, n)
                           else Inr (finish_connect A s blocking n))))"

text \<open>\<open>redisContextInit\<close> has no context when the socket library does not start.\<close>

definition redisContextInit :: "'s winsock \<Rightarrow> 's \<Rightarrow> redis_context option \<times> 's" where
  "redisContextInit A s =
     (let (ret, s) = ws_startup A s
      in if ret \<noteq> 0 then (None, s)
         else (Some \<lparr> c_err = 0, c_errstr = [], c_fd = 0, c_flags = 0, c_obuf = sdsempty, c_reader = redisReaderCreate \<rparr>, s))"

definition redisFree :: "'s winsock \<Rightarrow> redis_context \<Rightarrow> 's \<Rightarrow> 's" where
  "redisFree A c s = (if 0 < c_fd c then ws_close A (c_fd c) s else s)"

text \<open>The three ways to connect differ in the flag and the time to wait.\<close>

definition connect_with ::
    "'s winsock \<Rightarrow> (redis_context \<Rightarrow> redis_context) \<Rightarrow> string \<Rightarrow> int \<Rightarrow> int option \<Rightarrow> int \<Rightarrow> 's \<Rightarrow> 's net res" where
  "connect_with A flags ip port tv eno s =
     (case redisContextInit A s of
        (None, _) \<Rightarrow> Inl Null_deref
      | (Some c, s) \<Rightarrow>
          rbind (redisContextConnectTcp A ip port tv \<lparr> n_c = flags c, errnox = eno, n_sys = s \<rparr>) (\<lambda>(_, n). Inr n))"

definition redisConnect :: "'s winsock \<Rightarrow> string \<Rightarrow> int \<Rightarrow> int \<Rightarrow> 's \<Rightarrow> 's net res" where
  "redisConnect A ip port = connect_with A (set_flag REDIS_BLOCK) ip port None"

definition redisConnectWithTimeout :: "'s winsock \<Rightarrow> string \<Rightarrow> int \<Rightarrow> int \<Rightarrow> int \<Rightarrow> 's \<Rightarrow> 's net res" where
  "redisConnectWithTimeout A ip port tv = connect_with A (set_flag REDIS_BLOCK) ip port (Some tv)"

definition redisConnectNonBlock :: "'s winsock \<Rightarrow> string \<Rightarrow> int \<Rightarrow> int \<Rightarrow> 's \<Rightarrow> 's net res" where
  "redisConnectNonBlock A ip port = connect_with A (clear_flag REDIS_BLOCK) ip port None"

definition redisSetTimeout :: "'s winsock \<Rightarrow> int \<Rightarrow> 's net \<Rightarrow> int \<times> 's net" where
  "redisSetTimeout A tv n =
     (if has_flag REDIS_BLOCK (n_c n) then redisContextSetTimeout A tv n else (REDIS_ERR, n))"


section \<open>No socket is left behind\<close>

text \<open>
  The documented effect of the calls on the open sockets: a new socket is a new positive number,
  closing takes it away, and nothing else opens or closes one.
\<close>

definition tracks_sockets :: "'s winsock \<Rightarrow> ('s \<Rightarrow> int set) \<Rightarrow> bool" where
  "tracks_sockets A op \<longleftrightarrow>
     (\<forall>s. op (snd (ws_startup A s)) = op s) \<and>
     (\<forall>s. fst (ws_socket A s) = - 1 \<and> op (snd (ws_socket A s)) = op s \<or>
          0 < fst (ws_socket A s) \<and> fst (ws_socket A s) \<notin> op s \<and>
          op (snd (ws_socket A s)) = insert (fst (ws_socket A s)) (op s)) \<and>
     (\<forall>fd t s. op (snd (ws_setsockopt A fd t s)) = op s) \<and>
     (\<forall>fd t s. op (snd (ws_ioctl_nbio A fd t s)) = op s) \<and>
     (\<forall>t s. op (snd (ws_string_to_address A t s)) = op s) \<and>
     (\<forall>t s. op (snd (ws_gethostbyname A t s)) = op s) \<and>
     (\<forall>fd t s. op (snd (ws_connect A fd t s)) = op s) \<and>
     (\<forall>fd t s. op (snd (ws_select A fd t s)) = op s) \<and>
     (\<forall>fd s. op (ws_close A fd s) = op s - {fd})"

text \<open>A step with a socket either does nothing to the context or fails, and then has closed it.\<close>

definition step_done :: "('s \<Rightarrow> int set) \<Rightarrow> int \<Rightarrow> 's net \<Rightarrow> int \<times> 's net \<Rightarrow> bool" where
  "step_done op fd n z \<longleftrightarrow>
     fst z = REDIS_OK \<and> n_c (snd z) = n_c n \<and> op (n_sys (snd z)) = op (n_sys n) \<or>
     fst z = REDIS_ERR \<and> c_err (n_c (snd z)) \<noteq> 0 \<and> c_fd (n_c (snd z)) = c_fd (n_c n) \<and>
       c_flags (n_c (snd z)) = c_flags (n_c n) \<and> op (n_sys (snd z)) = op (n_sys n) - {fd}"

lemma net_parts [simp]:
  "n_c (set_errno A n) = n_c n" "n_sys (set_errno A n) = n_sys n"
  "n_c (close_socket A fd n) = n_c n" "n_sys (close_socket A fd n) = ws_close A fd (n_sys n)"
  "n_sys (redisSetErrorFromErrno A type p n) = n_sys n"
  "c_err (n_c (redisSetErrorFromErrno A type p n)) = type"
  "c_fd (n_c (redisSetErrorFromErrno A type p n)) = c_fd (n_c n)"
  "c_flags (n_c (redisSetErrorFromErrno A type p n)) = c_flags (n_c n)"
  by (simp_all add: set_errno_def close_socket_def redisSetErrorFromErrno_def on_context_def redisSetError_def Let_def)

lemma closes: "tracks_sockets A op \<Longrightarrow> op (ws_close A fd s) = op s - {fd}"
  by (simp add: tracks_sockets_def)

text \<open>A call that has changed nothing but the system, and a failure after it.\<close>

definition same_net :: "('s \<Rightarrow> int set) \<Rightarrow> 's net \<Rightarrow> 's net \<Rightarrow> bool" where
  "same_net op n m \<longleftrightarrow> n_c m = n_c n \<and> op (n_sys m) = op (n_sys n)"

lemma same_net_upd [simp]:
  "same_net op n (set_errno A m) = same_net op n m" "same_net op n (m\<lparr>errnox := e\<rparr>) = same_net op n m"
  "same_net op n n"
  by (simp_all add: same_net_def set_errno_def)

lemma same_call:
  assumes "\<forall>s. op (snd (f s)) = op s" and "ws_call f n = (x, m)"
  shows "same_net op n m"
proof -
  obtain y s where f: "f (n_sys n) = (y, s)" by (meson surj_pair)
  have "m = n\<lparr>n_sys := s\<rparr>" using assms(2) unfolding ws_call_def Let_def f by simp
  moreover have "op s = op (n_sys n)" using assms(1) f by (metis snd_conv)
  ultimately show ?thesis unfolding same_net_def by simp
qed

lemma tracks:
  assumes "tracks_sockets A op"
  shows "\<forall>s. op (snd (ws_setsockopt A fd t s)) = op s" "\<forall>s. op (snd (ws_ioctl_nbio A fd f s)) = op s"
    "\<forall>s. op (snd (ws_connect A fd sa s)) = op s" "\<forall>s. op (snd (ws_select A fd tv s)) = op s"
    "\<forall>s. op (snd (ws_string_to_address A b s)) = op s" "\<forall>s. op (snd (ws_gethostbyname A b s)) = op s"
  using assms by (cases sa; simp add: tracks_sockets_def)+

lemma step_same: "same_net op n m \<Longrightarrow> step_done op fd n (REDIS_OK, m)"
  by (simp add: step_done_def same_net_def)

lemma step_failed:
  assumes "tracks_sockets A op" and "same_net op n m"
  shows "step_done op fd n (REDIS_ERR, close_socket A fd (redisSetErrorFromErrno A REDIS_ERR_IO p m))"
  using assms by (simp add: step_done_def closes same_net_def REDIS_ERR_IO_def)

lemma calls_same:
  assumes "tracks_sockets A op"
  shows "ws_call (ws_setsockopt A fd t) n = (r, m) \<Longrightarrow> same_net op n m"
    "ws_call (ws_ioctl_nbio A fd f) n = (r, m) \<Longrightarrow> same_net op n m"
    "ws_call (ws_connect A fd sa) n = (r, m) \<Longrightarrow> same_net op n m"
    "ws_call (ws_select A fd tv) n = (z, m) \<Longrightarrow> same_net op n m"
  by (rule same_call [OF tracks(1) [OF assms]] same_call [OF tracks(2) [OF assms]]
      same_call [OF tracks(3) [OF assms]] same_call [OF tracks(4) [OF assms]], assumption)+

lemma wait_done:
  assumes "tracks_sockets A op" and "same_net op k n"
  shows "step_done op fd k (redisContextWaitReady A fd timeout n)"
proof -
  obtain r isset m where c: "ws_call (ws_select A fd timeout) n = ((r, isset), m)" by (metis surj_pair)
  have "same_net op k m" using calls_same(4) [OF assms(1) c] assms(2) by (simp add: same_net_def)
  then show ?thesis
    using assms by (simp add: redisContextWaitReady_def c step_same step_failed)
qed

lemma steps_done:
  assumes "tracks_sockets A op"
  shows "step_done op fd n (redisSetBlocking A fd b n)" "step_done op fd n (redisSetTcpNoDelay A fd n)"
    "step_done op fd n (connect_socket A fd sa b timeout n)"
proof -
  obtain r m where c: "ws_call (ws_ioctl_nbio A fd (if b then 0 else 1)) n = (r, m)" by fastforce
  show "step_done op fd n (redisSetBlocking A fd b n)"
    using calls_same(2) [OF assms c] assms by (simp add: redisSetBlocking_def Let_def c step_same step_failed)
  obtain r m where c: "ws_call (ws_setsockopt A fd TCP_NODELAY) n = (r, m)" by fastforce
  show "step_done op fd n (redisSetTcpNoDelay A fd n)"
    using calls_same(1) [OF assms c] assms by (simp add: redisSetTcpNoDelay_def c step_same step_failed)
  obtain r m where c: "ws_call (ws_connect A fd sa) n = (r, m)" by fastforce
  show "step_done op fd n (connect_socket A fd sa b timeout n)"
    using calls_same(3) [OF assms c] assms by (simp add: connect_socket_def c step_same wait_done Let_def)
qed

lemma create_socket_done:
  assumes "tracks_sockets A op" and "redisCreateSocket A n = (s, n')"
  shows "s = - 1 \<and> c_err (n_c n') \<noteq> 0 \<and> c_fd (n_c n') = c_fd (n_c n) \<and> c_flags (n_c n') = c_flags (n_c n) \<and>
      op (n_sys n') = op (n_sys n) \<or>
    0 < s \<and> s \<notin> op (n_sys n) \<and> n_c n' = n_c n \<and> op (n_sys n') = insert s (op (n_sys n))"
proof -
  obtain fd s1 where 1: "ws_socket A (n_sys n) = (fd, s1)" by fastforce
  obtain r s2 where 2: "ws_setsockopt A fd SO_REUSEADDR s1 = (r, s2)" by fastforce
  have "fd = - 1 \<and> op s1 = op (n_sys n) \<or> 0 < fd \<and> fd \<notin> op (n_sys n) \<and> op s1 = insert fd (op (n_sys n))"
    using assms(1) 1 by (metis tracks_sockets_def fst_conv snd_conv)
  moreover have "op s2 = op s1" using assms(1) 2 by (metis tracks_sockets_def snd_conv)
  ultimately show ?thesis
    using assms(2) 1 2 closes [OF assms(1), of fd s2]
    by (auto simp: redisCreateSocket_def ws_call_def redis_errors split: if_splits)
qed

lemma resolve_done:
  assumes "tracks_sockets A op" and "resolve_address A addr port s n = Inr (sa, n')"
  shows "sa \<noteq> None \<and> n_c n' = n_c n \<and> op (n_sys n') = op (n_sys n) \<or>
    sa = None \<and> c_err (n_c n') \<noteq> 0 \<and> c_fd (n_c n') = c_fd (n_c n) \<and> c_flags (n_c n') = c_flags (n_c n) \<and>
      op (n_sys n') = op (n_sys n) - {s}"
proof -
  let ?buf = "addr @ CHR '':'' # dec_of_int port"
  obtain a n1 where 1: "ws_call (ws_string_to_address A ?buf) n = (a, n1)" by fastforce
  obtain he n2 where 2: "ws_call (ws_gethostbyname A addr) n1 = (he, n2)" by fastforce
  have s1: "same_net op n n1" by (rule same_call [OF tracks(5) [OF assms(1)] 1])
  have s2: "same_net op n1 n2" by (rule same_call [OF tracks(6) [OF assms(1)] 2])
  have err: "c_err (n_c (on_context (redisSetError type b) m)) = type"
    "c_fd (n_c (on_context (redisSetError type b) m)) = c_fd (n_c m)"
    "c_flags (n_c (on_context (redisSetError type b) m)) = c_flags (n_c m)"
    "n_sys (on_context (redisSetError type b) m) = n_sys m" for type b and m :: "'a net"
    by (simp_all add: on_context_def redisSetError_def)
  show ?thesis
    using assms(2) 1 2 s1 s2 closes [OF assms(1)]
    by (auto simp: resolve_address_def sprintf_s_def same_net_def err REDIS_ERR_OTHER_def split: option.splits if_splits)
qed

definition connected_or_closed :: "('s \<Rightarrow> int set) \<Rightarrow> 's net \<Rightarrow> int set \<Rightarrow> bool" where
  "connected_or_closed op n before \<longleftrightarrow>
     (if c_err (n_c n) = 0
      then has_flag REDIS_CONNECTED (n_c n) \<and> 0 < c_fd (n_c n) \<and> c_fd (n_c n) \<notin> before \<and>
        op (n_sys n) = insert (c_fd (n_c n)) before
      else \<not> has_flag REDIS_CONNECTED (n_c n) \<and> c_fd (n_c n) = 0 \<and> op (n_sys n) = before)"

text \<open>On the way: the context is as at the start, and the new socket is open.\<close>

definition fresh_context :: "redis_context \<Rightarrow> bool" where
  "fresh_context c \<longleftrightarrow> c_err c = 0 \<and> c_fd c = 0 \<and> \<not> has_flag REDIS_CONNECTED c"

definition on_the_way :: "('s \<Rightarrow> int set) \<Rightarrow> int \<Rightarrow> int set \<Rightarrow> 's net \<Rightarrow> bool" where
  "on_the_way op s before n \<longleftrightarrow> fresh_context (n_c n) \<and> 0 < s \<and> s \<notin> before \<and> op (n_sys n) = insert s before"

lemma on_the_way_step:
  assumes "step_done op s n (r, m)" and "on_the_way op s before n"
  shows "r = REDIS_OK \<Longrightarrow> on_the_way op s before m" "r \<noteq> REDIS_OK \<Longrightarrow> connected_or_closed op m before"
  using assms
  by (auto simp: step_done_def on_the_way_def connected_or_closed_def fresh_context_def has_flag_def redis_errors)

lemma finish_connect_done:
  assumes "tracks_sockets A op" and way: "on_the_way op s before n"
  shows "connected_or_closed op (snd (finish_connect A s b n)) before"
proof -
  obtain r1 n1 where 1: "(if b then redisSetBlocking A s True n else (REDIS_OK, n)) = (r1, n1)" by fastforce
  obtain r2 n2 where 2: "redisSetTcpNoDelay A s n1 = (r2, n2)" by fastforce
  have d1: "step_done op s n (r1, n1)"
    using steps_done(1) [OF assms(1), of s n True] 1 by (auto simp: step_done_def split: if_splits)
  have d2: "step_done op s n1 (r2, n2)" using steps_done(2) [OF assms(1), of s n1] 2 by simp
  show ?thesis
  proof (cases "r1 = REDIS_OK \<and> r2 = REDIS_OK")
    case True
    then have "on_the_way op s before n2" using on_the_way_step d1 d2 way by blast
    then show ?thesis using 1 2 True
      by (auto simp: finish_connect_def on_context_def set_flag_def has_flag_def on_the_way_def fresh_context_def
          connected_or_closed_def REDIS_CONNECTED_def bit.conj_disj_distrib2)
  next
    case False
    then show ?thesis using 1 2 on_the_way_step [OF d1 way] on_the_way_step [OF d2] by (auto simp: finish_connect_def)
  qed
qed

lemma resolved_done:
  assumes op: "tracks_sockets A op" and way: "on_the_way op s before n"
    and run: "rbind (resolve_address A addr port s n) (\<lambda>(sa, n).
        case sa of
          None \<Rightarrow> Inr (REDIS_ERR, n)
        | Some (None, _) \<Rightarrow> Inl Uninitialised
        | Some (Some h, p) \<Rightarrow>
            (let (r, n) = connect_socket A s (h, p) b timeout n
             in if r \<noteq> REDIS_OK then Inr (REDIS_ERR, n) else Inr (finish_connect A s b n))) = Inr (r, n')"
  shows "connected_or_closed op n' before"
proof -
  from run obtain sa n1 where 1: "resolve_address A addr port s n = Inr (sa, n1)" by (auto simp: rbind_Inr_conv)
  show ?thesis
  proof (cases sa)
    case None
    then show ?thesis using run 1 resolve_done [OF op 1] way
      by (auto simp: on_the_way_def connected_or_closed_def fresh_context_def has_flag_def)
  next
    case (Some a)
    with run 1 obtain h p where a: "sa = Some (Some h, p)" by (cases a) (auto split: option.splits)
    have way1: "on_the_way op s before n1" using resolve_done [OF op 1] a way by (auto simp: on_the_way_def)
    obtain r2 n2 where 2: "connect_socket A s (h, p) b timeout n1 = (r2, n2)" by fastforce
    have d2: "step_done op s n1 (r2, n2)" using steps_done(3) [OF op, of s n1 "(h, p)" b timeout] 2 by simp
    show ?thesis using run 1 2 a on_the_way_step [OF d2 way1] finish_connect_done [OF op, of s before n2 b]
      by (auto split: if_splits)
  qed
qed

lemma ConnectTcp_done:
  assumes op: "tracks_sockets A op" and run: "redisContextConnectTcp A addr port timeout n = Inr (r, n')"
    and new: "fresh_context (n_c n)"
  shows "connected_or_closed op n' (op (n_sys n))"
proof -
  obtain s n1 where 1: "redisCreateSocket A n = (s, n1)" by fastforce
  obtain r2 n2 where 2: "redisSetBlocking A s False n1 = (r2, n2)" by fastforce
  show ?thesis
  proof (cases "s < 0")
    case True
    then show ?thesis using create_socket_done [OF op 1] 1 run new
      by (auto simp: redisContextConnectTcp_def Let_def connected_or_closed_def fresh_context_def has_flag_def)
  next
    case False
    then have way: "on_the_way op s (op (n_sys n)) n1"
      using create_socket_done [OF op 1] new by (auto simp: on_the_way_def)
    have d2: "step_done op s n1 (r2, n2)" using steps_done(1) [OF op, of s n1 False] 2 by simp
    show ?thesis
      using run 1 2 False on_the_way_step [OF d2 way] resolved_done [OF op, of s "op (n_sys n)" n2 addr port _ timeout r n']
      by (auto simp: redisContextConnectTcp_def Let_def split: if_splits)
  qed
qed

text \<open>
  C35. However connecting goes, no socket is lost: when the function returns, either the context
  has no error, is marked connected and holds the one new open socket, or it has an error, is not
  marked connected, holds no socket and every socket opened on the way was closed; freeing the
  context then leaves the open sockets as they were before.
\<close>

theorem no_socket_is_lost:
  assumes "tracks_sockets A op"
    and "redisConnect A ip port eno s = Inr n \<or> redisConnectWithTimeout A ip port tv eno s = Inr n \<or>
      redisConnectNonBlock A ip port eno s = Inr n"
  shows "(c_err (n_c n) = 0 \<and> has_flag REDIS_CONNECTED (n_c n) \<and> 0 < c_fd (n_c n) \<and> c_fd (n_c n) \<notin> op s \<and>
       op (n_sys n) = insert (c_fd (n_c n)) (op s) \<or>
     c_err (n_c n) \<noteq> 0 \<and> \<not> has_flag REDIS_CONNECTED (n_c n) \<and> c_fd (n_c n) = 0 \<and> op (n_sys n) = op s) \<and>
    op (redisFree A (n_c n) (n_sys n)) = op s"
proof -
  from assms(2) obtain flags tv where run: "connect_with A flags ip port tv eno s = Inr n"
    and flags: "flags = set_flag REDIS_BLOCK \<or> flags = clear_flag REDIS_BLOCK"
    by (auto simp: redisConnect_def redisConnectWithTimeout_def redisConnectNonBlock_def)
  obtain ret s1 where ret: "ws_startup A s = (ret, s1)" by fastforce
  have s1: "op s1 = op s" using assms(1) ret by (metis tracks_sockets_def snd_conv)
  let ?c = "flags \<lparr> c_err = 0, c_errstr = [], c_fd = 0, c_flags = 0, c_obuf = sdsempty, c_reader = redisReaderCreate \<rparr>"
  have "fresh_context ?c"
    using flags by (auto simp: fresh_context_def has_flag_def set_flag_def clear_flag_def redis_flags)
  moreover obtain r where "redisContextConnectTcp A ip port tv \<lparr> n_c = ?c, errnox = eno, n_sys = s1 \<rparr> = Inr (r, n)"
    using run ret by (auto simp: connect_with_def redisContextInit_def rbind_Inr_conv split: if_splits)
  ultimately have "connected_or_closed op n (op s1)"
    using ConnectTcp_done [OF assms(1)] by fastforce
  moreover have "\<And>fd s. op (ws_close A fd s) = op s - {fd}" using assms(1) by (simp add: tracks_sockets_def)
  ultimately show ?thesis using s1 by (auto simp: connected_or_closed_def redisFree_def split: if_splits)
qed

text \<open>A system on which the connection is refused.\<close>

definition refusing_system :: "(nat \<times> int list) winsock" where
  "refusing_system =
     \<lparr> ws_startup = (\<lambda>s. (0, s)),
       ws_socket = (\<lambda>(k, xs). (int k + 1, (k + 1, (int k + 1) # xs))),
       ws_setsockopt = (\<lambda>fd t s. (0, s)), ws_ioctl_nbio = (\<lambda>fd f s. (0, s)),
       ws_string_to_address = (\<lambda>t s. (Some (''127.0.0.1'', 6379), s)),
       ws_gethostbyname = (\<lambda>t s. (Some t, s)), ws_connect = (\<lambda>fd a s. (- 1, s)),
       ws_select = (\<lambda>fd tv s. ((1, True), s)), ws_so_error = (\<lambda>fd s. ((0, 0), s)),
       ws_close = (\<lambda>fd (k, xs). (k, removeAll fd xs)), ws_send = (\<lambda>fd t s. (None, s)),
       ws_recv = (\<lambda>fd m s. (None, s)), ws_last_error = (\<lambda>s. 10061), ws_errno = (\<lambda>s. 0), ws_strerror = (\<lambda>e. ''refused'') \<rparr>"

definition open_sockets :: "nat \<times> int list \<Rightarrow> int set" where
  "open_sockets z = {x \<in> set (snd z). x \<le> int (fst z)}"

lemma refusing_tracks: "tracks_sockets refusing_system open_sockets"
  by (auto simp: tracks_sockets_def refusing_system_def open_sockets_def)

theorem no_socket_is_lost_witness:
  "\<exists>n. redisConnect refusing_system ''127.0.0.1'' 6379 0 (0, []) = Inr n \<and> c_err (n_c n) = REDIS_ERR_IO \<and>
     open_sockets (n_sys n) = {} \<and> open_sockets (redisFree refusing_system (n_c n) (n_sys n)) = {}"
proof -
  have dec: "length (dec_of_int 6379) = 4" by (simp add: dec_of_int_def dec_of_nat.simps)
  have "case redisConnect refusing_system ''127.0.0.1'' 6379 0 (0, []) of Inl e \<Rightarrow> False | Inr n \<Rightarrow> c_err (n_c n) = REDIS_ERR_IO"
    by (simp add: redisConnect_def connect_with_def redisContextInit_def refusing_system_def redisContextConnectTcp_def
        redisCreateSocket_def ws_call_def redisSetBlocking_def redis_errors resolve_address_def sprintf_s_def dec
        connect_socket_def set_flag_def has_flag_def REDIS_BLOCK_def redisContextWaitReady_def set_errno_def
        EINPROGRESS_def WSAEWOULDBLOCK_def Let_def)
  then obtain n where n: "redisConnect refusing_system ''127.0.0.1'' 6379 0 (0, []) = Inr n" "c_err (n_c n) = REDIS_ERR_IO"
    by (auto split: sum.splits)
  show ?thesis
    using no_socket_is_lost [OF refusing_tracks disjI1 [OF n(1)]] n
    by (auto simp: REDIS_ERR_IO_def open_sockets_def)
qed

text \<open>
  A host name that is not a numeric address is not looked up: the address that is given to
  \<open>connect\<close> was never written. And without the socket library there is no context to connect.
\<close>

lemma host_name_not_looked_up:
  assumes "redisCreateSocket A n = (s, n1)" and "0 \<le> s" and "redisSetBlocking A s False n1 = (REDIS_OK, n2)"
    and "length (addr @ CHR '':'' # dec_of_int port) < 255"
    and "fst (ws_string_to_address A (addr @ CHR '':'' # dec_of_int port) (n_sys n2)) = None"
  shows "redisContextConnectTcp A addr port timeout n = Inl Uninitialised"
  using assms
  by (cases "ws_string_to_address A (addr @ CHR '':'' # dec_of_int port) (n_sys n2)")
    (simp add: redisContextConnectTcp_def resolve_address_def sprintf_s_def ws_call_def Let_def)

lemma no_startup_no_context: "fst (ws_startup A s) \<noteq> 0 \<Longrightarrow> redisConnect A ip port eno s = Inl Null_deref"
  by (cases "ws_startup A s") (simp add: redisConnect_def connect_with_def redisContextInit_def)

end
