(* ===== verification/Redis_Client.thy ===== *)
theory Redis_Client
  imports Redis_Connect
begin

text \<open>
  Commands and replies on a connection, from \<open>DataHandle/hiredis_win/hiredis.c\<close>: commands are
  put into the output buffer, which is written to the socket, and what the socket gives is fed to
  the reader. The loops of a blocking context may go on for ever; then they have no result.
\<close>

section \<open>Reading and writing\<close>

text \<open>\<open>REDIS_ERR_IO\<close> without a text: that of the error number of the C library.\<close>

definition io_error :: "'s winsock \<Rightarrow> 's \<Rightarrow> redis_context \<Rightarrow> redis_context" where
  "io_error A s c = redisSetError REDIS_ERR_IO (ws_strerror A (ws_errno A s)) c"

definition redisBufferRead :: "'s winsock \<Rightarrow> redis_context \<times> 's \<Rightarrow> (int \<times> redis_context \<times> 's) res" where
  "redisBufferRead A z =
     (let (c, s) = z
      in if c_err c \<noteq> 0 then Inr (REDIS_ERR, c, s)
         else let (nread, s) = ws_recv A (c_fd c) 2048 s
              in case nread of
                   None \<Rightarrow>
                     if \<not> has_flag REDIS_BLOCK c then Inr (REDIS_OK, c, s)
                     else Inr (REDIS_ERR, io_error A s c, s)
                 | Some buf \<Rightarrow>
                     if buf = [] then Inr (REDIS_ERR, redisSetError REDIS_ERR_EOF ''Server closed the connection'' c, s)
                     else rbind (redisReaderFeed buf (c_reader c)) (\<lambda>(st, r).
                       let c = c\<lparr>c_reader := r\<rparr>
                       in if st \<noteq> REDIS_OK then Inr (REDIS_ERR, redisSetError (r_err r) (r_errstr r) c, s)
                          else Inr (REDIS_OK, c, s)))"

definition EAGAIN :: int where "EAGAIN = 11"

text \<open>The second result is what \<open>done\<close> points to, when it was written.\<close>

definition redisBufferWrite ::
    "'s winsock \<Rightarrow> redis_context \<times> 's \<Rightarrow> int \<times> bool option \<times> redis_context \<times> 's" where
  "redisBufferWrite A z =
     (let (c, s) = z
      in if c_err c \<noteq> 0 then (REDIS_ERR, None, c, s)
         else if 0 < sdslen (c_obuf c)
         then let (nwritten, s) = ws_send A (c_fd c) (s_buf (c_obuf c)) s
              in case nwritten of
                   None \<Rightarrow>
                     if ws_errno A s = EAGAIN \<and> \<not> has_flag REDIS_BLOCK c
                     then (REDIS_OK, Some (sdslen (c_obuf c) = 0), c, s)
                     else (REDIS_ERR, None, io_error A s c, s)
                 | Some n \<Rightarrow>
                     let c = (if 0 < n
                              then if n = sdslen (c_obuf c) then c\<lparr>c_obuf := sdsempty\<rparr>
                                   else c\<lparr>c_obuf := sdsrange (c_obuf c) (int n) (- 1)\<rparr>
                              else c)
                     in (REDIS_OK, Some (sdslen (c_obuf c) = 0), c, s)
         else (REDIS_OK, Some (sdslen (c_obuf c) = 0), c, s))"

definition redisGetReplyFromReader :: "redis_context \<Rightarrow> (int \<times> reply_obj option \<times> redis_context) res" where
  "redisGetReplyFromReader c =
     rbind (redisReaderGetReply (c_reader c)) (\<lambda>(st, reply, r).
       let c = c\<lparr>c_reader := r\<rparr>
       in if st = REDIS_ERR then Inr (REDIS_ERR, None, redisSetError (r_err r) (r_errstr r) c)
          else Inr (REDIS_OK, reply, c))"

partial_function (option) write_until_done ::
    "'s winsock \<Rightarrow> redis_context \<times> 's \<Rightarrow> (int \<times> redis_context \<times> 's) option" where
  "write_until_done A z =
     (case redisBufferWrite A z of
        (st, wdone, z) \<Rightarrow>
          if st = REDIS_ERR then Some (REDIS_ERR, z)
          else if wdone = Some True then Some (REDIS_OK, z)
          else write_until_done A z)"

partial_function (option) read_until_reply ::
    "'s winsock \<Rightarrow> redis_context \<times> 's \<Rightarrow> (int \<times> reply_obj option \<times> redis_context \<times> 's) res option" where
  "read_until_reply A z =
     (case redisBufferRead A z of
        Inl e \<Rightarrow> Some (Inl e)
      | Inr (st, c, s) \<Rightarrow>
          if st = REDIS_ERR then Some (Inr (REDIS_ERR, None, c, s))
          else (case redisGetReplyFromReader c of
                  Inl e \<Rightarrow> Some (Inl e)
                | Inr (st, aux, c) \<Rightarrow>
                    if st = REDIS_ERR then Some (Inr (REDIS_ERR, None, c, s))
                    else if aux \<noteq> None then Some (Inr (REDIS_OK, aux, c, s))
                    else read_until_reply A (c, s)))"

definition redisGetReply ::
    "'s winsock \<Rightarrow> redis_context \<times> 's \<Rightarrow> (int \<times> reply_obj option \<times> redis_context \<times> 's) res option" where
  "redisGetReply A z =
     (let (c, s) = z
      in case redisGetReplyFromReader c of
           Inl e \<Rightarrow> Some (Inl e)
         | Inr (st, aux, c) \<Rightarrow>
             if st = REDIS_ERR then Some (Inr (REDIS_ERR, None, c, s))
             else if aux = None \<and> has_flag REDIS_BLOCK c
             then (case write_until_done A (c, s) of
                     None \<Rightarrow> None
                   | Some (st, z) \<Rightarrow>
                       if st = REDIS_ERR then Some (Inr (REDIS_ERR, None, z)) else read_until_reply A z)
             else Some (Inr (REDIS_OK, aux, c, s)))"


section \<open>Commands\<close>

definition redisAppendCommand_raw :: "string \<Rightarrow> redis_context \<Rightarrow> redis_context" where
  "redisAppendCommand_raw cmd c = c\<lparr>c_obuf := sdscatlen (c_obuf c) cmd\<rparr>"

definition redisvAppendCommand ::
    "(string \<Rightarrow> va_arg list \<Rightarrow> string) \<Rightarrow> string \<Rightarrow> va_arg list \<Rightarrow> redis_context \<Rightarrow> (int \<times> redis_context) res" where
  "redisvAppendCommand vprintf format ap c =
     rbind (redisvFormatCommand vprintf format ap) (\<lambda>(cmd, len).
       Inr (REDIS_OK, redisAppendCommand_raw (take len cmd) c))"

definition redisAppendCommandArgv :: "(string \<times> nat option) list \<Rightarrow> redis_context \<Rightarrow> (int \<times> redis_context) res" where
  "redisAppendCommandArgv argv c =
     rbind (redisFormatCommandArgv argv) (\<lambda>(cmd, len).
       Inr (REDIS_OK, redisAppendCommand_raw (take len cmd) c))"

text \<open>The reply, or null.\<close>

definition redisBlockForReply ::
    "'s winsock \<Rightarrow> redis_context \<times> 's \<Rightarrow> (reply_obj option \<times> redis_context \<times> 's) res option" where
  "redisBlockForReply A z =
     (if has_flag REDIS_BLOCK (fst z)
      then (case redisGetReply A z of
              None \<Rightarrow> None
            | Some (Inl e) \<Rightarrow> Some (Inl e)
            | Some (Inr (st, reply, z)) \<Rightarrow> Some (Inr (if st \<noteq> REDIS_OK then None else reply, z)))
      else Some (Inr (None, z)))"

definition after_append ::
    "'s winsock \<Rightarrow> 's \<Rightarrow> (int \<times> redis_context) res \<Rightarrow> (reply_obj option \<times> redis_context \<times> 's) res option" where
  "after_append A s appended =
     (case appended of
        Inl e \<Rightarrow> Some (Inl e)
      | Inr (st, c) \<Rightarrow> if st \<noteq> REDIS_OK then Some (Inr (None, c, s)) else redisBlockForReply A (c, s))"

definition redisvCommand ::
    "'s winsock \<Rightarrow> (string \<Rightarrow> va_arg list \<Rightarrow> string) \<Rightarrow> string \<Rightarrow> va_arg list \<Rightarrow> redis_context \<times> 's \<Rightarrow>
      (reply_obj option \<times> redis_context \<times> 's) res option" where
  "redisvCommand A vprintf format ap z =
     after_append A (snd z) (redisvAppendCommand vprintf format ap (fst z))"

definition redisCommandArgv ::
    "'s winsock \<Rightarrow> (string \<times> nat option) list \<Rightarrow> redis_context \<times> 's \<Rightarrow>
      (reply_obj option \<times> redis_context \<times> 's) res option" where
  "redisCommandArgv A argv z = after_append A (snd z) (redisAppendCommandArgv argv (fst z))"


section \<open>What the other side takes and gives\<close>

text \<open>
  The calls of \<open>send\<close> with what is left take all bytes, each some of them; the calls of \<open>recv\<close>
  give bytes until all have been given.
\<close>

inductive takes :: "'s winsock \<Rightarrow> int \<Rightarrow> string \<Rightarrow> 's \<Rightarrow> 's \<Rightarrow> bool" for A fd where
  taken: "takes A fd [] s s"
| take_some: "bs \<noteq> [] \<Longrightarrow> ws_send A fd bs s = (Some n, s1) \<Longrightarrow> n \<le> length bs \<Longrightarrow> takes A fd (drop n bs) s1 s' \<Longrightarrow>
    takes A fd bs s s'"

inductive delivers :: "'s winsock \<Rightarrow> int \<Rightarrow> string \<Rightarrow> 's \<Rightarrow> 's \<Rightarrow> bool" for A fd where
  delivered: "delivers A fd [] s s"
| deliver_some: "bs \<noteq> [] \<Longrightarrow> ws_recv A fd 2048 s = (Some bs, s1) \<Longrightarrow> delivers A fd rest s1 s' \<Longrightarrow>
    delivers A fd (bs @ rest) s s'"

inductive_cases takes_Nil: "takes A fd [] s s'"
inductive_cases delivers_Nil: "delivers A fd [] s s'"

lemma write_all:
  "takes A fd bs s s' \<Longrightarrow> c_err c = 0 \<Longrightarrow> c_fd c = fd \<Longrightarrow> s_buf (c_obuf c) = bs \<Longrightarrow>
     \<exists>b. write_until_done A (c, s) = Some (REDIS_OK, c\<lparr>c_obuf := b\<rparr>, s') \<and> s_buf b = []"
proof (induction bs s s' arbitrary: c rule: takes.induct)
  case (taken s)
  then have "write_until_done A (c, s) = Some (REDIS_OK, c\<lparr>c_obuf := c_obuf c\<rparr>, s)"
    by (subst write_until_done.simps) (simp add: redisBufferWrite_def sdslen_def redis_errors)
  then show ?case using taken by blast
next
  case (take_some bs s n s1 s')
  have len: "sdslen (c_obuf c) = length bs" using take_some.prems by (simp add: sdslen_def)
  have "\<exists>b. redisBufferWrite A (c, s) = (REDIS_OK, Some (drop n bs = []), c\<lparr>c_obuf := b\<rparr>, s1) \<and> s_buf b = drop n bs"
  proof (cases "0 < n \<and> n \<noteq> length bs")
    case True
    have "s_buf (sdsrange (c_obuf c) (int n) (- 1)) = drop n bs"
      using take_some.hyps(3) take_some.prems len by (simp add: sdsrange_drop)
    then show ?thesis using take_some.hyps(1-3) take_some.prems len True
      by (intro exI [of _ "sdsrange (c_obuf c) (int n) (- 1)"]) (simp add: redisBufferWrite_def sdslen_def)
  next
    case False
    then show ?thesis using take_some.hyps(1-3) take_some.prems len
      by (intro exI [of _ "if 0 < n then sdsempty else c_obuf c"]) (auto simp: redisBufferWrite_def sdslen_def)
  qed
  then obtain b where w: "redisBufferWrite A (c, s) = (REDIS_OK, Some (drop n bs = []), c\<lparr>c_obuf := b\<rparr>, s1)"
    "s_buf b = drop n bs" by blast
  show ?case
  proof (cases "drop n bs = []")
    case True
    then have "s' = s1" using take_some.hyps(4) by (auto elim: takes_Nil)
    then have "write_until_done A (c, s) = Some (REDIS_OK, c\<lparr>c_obuf := b\<rparr>, s')"
      using True by (subst write_until_done.simps) (simp add: w redis_errors)
    then show ?thesis using w(2) True by auto
  next
    case False
    then obtain b' where b': "write_until_done A (c\<lparr>c_obuf := b\<rparr>, s1) = Some (REDIS_OK, c\<lparr>c_obuf := b\<rparr>\<lparr>c_obuf := b'\<rparr>, s')"
      "s_buf b' = []"
      using take_some.IH [of "c\<lparr>c_obuf := b\<rparr>"] take_some.prems w(2) by auto
    then have "write_until_done A (c, s) = Some (REDIS_OK, c\<lparr>c_obuf := b'\<rparr>, s')"
      using False by (subst write_until_done.simps) (simp add: w redis_errors)
    then show ?thesis using b'(2) by blast
  qed
qed

declare get_reply.simps [simp del]

text \<open>The reader's part, with what its state stands for.\<close>

definition connection :: "redis_context \<Rightarrow> areader \<Rightarrow> bool" where
  "connection c a \<longleftrightarrow> c_err c = 0 \<and> has_flag REDIS_BLOCK c \<and> represents (c_reader c) a"

lemma poll:
  assumes "connection c a" and "snd (get_reply a) = Going gs u"
  shows "\<exists>r. redisGetReplyFromReader c = Inr (REDIS_OK, fst (get_reply a), c\<lparr>c_reader := r\<rparr>) \<and>
    connection (c\<lparr>c_reader := r\<rparr>) (Going gs u)"
  using GetReply_refines [of "c_reader c" a] assms
  by (auto simp: redisGetReplyFromReader_def connection_def has_flag_def redis_errors)

lemma feed:
  assumes "connection c (Going gs u)" and "bs \<noteq> []" and "ws_recv A (c_fd c) 2048 s = (Some bs, s1)"
  shows "\<exists>r. redisBufferRead A (c, s) = Inr (REDIS_OK, c\<lparr>c_reader := r\<rparr>, s1) \<and>
    connection (c\<lparr>c_reader := r\<rparr>) (Going gs (u @ bs))"
proof -
  obtain st r where f: "redisReaderFeed bs (c_reader c) = Inr (st, r)" "represents r (Going gs (u @ bs))"
    using Feed_refines [of "c_reader c" "Going gs u" bs] assms(1) by (auto simp: connection_def)
  have "r_err (c_reader c) = 0"
    using assms(1) by (auto simp: connection_def has_reply_def reads_def at_item_def buffer_ok_def)
  then have "st = REDIS_OK" using f(1) by (auto simp: redisReaderFeed_def Let_def split: if_splits option.splits)
  then show ?thesis using f assms
    by (intro exI [of _ r]) (simp add: redisBufferRead_def connection_def has_flag_def del: represents.simps)
qed

text \<open>
  If the bytes to come complete a reply, the loop ends with it as soon as it is complete and
  leaves the others for later.
\<close>

lemma read_reply:
  "delivers A fd bs s s2 \<Longrightarrow> connection c (Going gs u) \<Longrightarrow> c_fd c = fd \<Longrightarrow>
     get_reply (Going gs u) = (None, Going gs u) \<Longrightarrow> get_reply (Going gs (u @ bs)) = (Some x, Going [] v) \<Longrightarrow>
     \<exists>r s1 u' rest. read_until_reply A (c, s) = Some (Inr (REDIS_OK, Some x, c\<lparr>c_reader := r\<rparr>, s1)) \<and>
       delivers A fd rest s1 s2 \<and> connection (c\<lparr>c_reader := r\<rparr>) (Going [] u') \<and> u' @ rest = v"
proof (induction bs s s2 arbitrary: c gs u rule: delivers.induct)
  case (delivered s)
  then show ?case by simp
next
  case (deliver_some bs s s1 rest s2)
  have "ws_recv A (c_fd c) 2048 s = (Some bs, s1)" using deliver_some.hyps(2) deliver_some.prems(2) by simp
  from feed [OF deliver_some.prems(1) deliver_some.hyps(1) this] obtain r where
    r: "redisBufferRead A (c, s) = Inr (REDIS_OK, c\<lparr>c_reader := r\<rparr>, s1)"
      "connection (c\<lparr>c_reader := r\<rparr>) (Going gs (u @ bs))"
    by (elim exE conjE)
  let ?c = "c\<lparr>c_reader := r\<rparr>"
  have add: "get_reply (Going gs (u @ bs @ rest)) =
      (case get_reply (Going gs (u @ bs)) of (None, a') \<Rightarrow> get_reply (add_bytes rest a') | (Some y, a') \<Rightarrow> (Some y, add_bytes rest a'))"
    using get_reply_add [of rest "Going gs (u @ bs)"] by simp
  obtain out a where g: "get_reply (Going gs (u @ bs)) = (out, a)" by fastforce
  have "get_reply (add_bytes v (Broken e)) = (None, Broken e)" for v e by (simp add: get_reply.simps)
  then obtain gs' u' where a: "a = Going gs' u'"
    using add g deliver_some.prems(4) by (cases a; cases out) auto
  obtain r' where r': "redisGetReplyFromReader ?c = Inr (REDIS_OK, out, ?c\<lparr>c_reader := r'\<rparr>)"
    "connection (?c\<lparr>c_reader := r'\<rparr>) a"
    using poll [OF r(2), of gs' u'] g a by auto
  show ?case
  proof (cases out)
    case (Some y)
    then have "y = x" "gs' = []" "u' @ rest = v" using add g a deliver_some.prems(4) by auto
    then show ?thesis using r r' Some a deliver_some.hyps(3)
      by (subst read_until_reply.simps) (auto simp: redis_errors)
  next
    case None
    have "get_reply a = (None, a)" using get_reply_add [of "[]" "Going gs (u @ bs)"] g None by (simp add: a)
    moreover have "get_reply (Going gs' (u' @ rest)) = (Some x, Going [] v)"
      using add g None a deliver_some.prems(4) by simp
    ultimately have "\<exists>r1 s3 u1 rest'. read_until_reply A (?c\<lparr>c_reader := r'\<rparr>, s1) =
        Some (Inr (REDIS_OK, Some x, ?c\<lparr>c_reader := r'\<rparr>\<lparr>c_reader := r1\<rparr>, s3)) \<and>
        delivers A fd rest' s3 s2 \<and> connection (?c\<lparr>c_reader := r'\<rparr>\<lparr>c_reader := r1\<rparr>) (Going [] u1) \<and> u1 @ rest' = v"
      using deliver_some.IH [of "?c\<lparr>c_reader := r'\<rparr>" gs' u'] r'(2) a deliver_some.prems(2) by simp
    then show ?thesis using r r' None by (subst read_until_reply.simps) (auto simp: redis_errors)
  qed
qed

lemma get_encoded: "encodable 0 x \<Longrightarrow> get_reply (Going [] (encode x @ later)) = (Some x, Going [] later)"
  using decode_encode [of "[]" x later] by (simp add: get_reply.simps)

lemma get_nothing: "get_reply (Going [] []) = (None, Going [] [])"
  by (simp add: get_reply.simps decode.simps)

lemma get_one:
  assumes c: "connection c (Going [] u)" and io: "takes A (c_fd c) (s_buf (c_obuf c)) s s1" "delivers A (c_fd c) bs s1 s2"
    and x: "encodable 0 x" "u @ bs = encode x @ later" and flushed: "s_buf (c_obuf c) = [] \<or> u = []"
  shows "\<exists>c' s' u' rest. redisGetReply A (c, s) = Some (Inr (REDIS_OK, Some x, c', s')) \<and> s_buf (c_obuf c') = [] \<and>
    connection c' (Going [] u') \<and> c_fd c' = c_fd c \<and> delivers A (c_fd c) rest s' s2 \<and> u' @ rest = later"
proof -
  have all: "get_reply (Going [] (u @ bs)) = (Some x, Going [] later)" using get_encoded [OF x(1)] x(2) by simp
  have add: "get_reply (Going [] (u @ bs)) =
      (case get_reply (Going [] u) of (None, a') \<Rightarrow> get_reply (add_bytes bs a') | (Some y, a') \<Rightarrow> (Some y, add_bytes bs a'))"
    using get_reply_add [of bs "Going [] u"] by simp
  obtain out a where g: "get_reply (Going [] u) = (out, a)" by fastforce
  have "get_reply (add_bytes v (Broken e)) = (None, Broken e)" for v e by (simp add: get_reply.simps)
  then obtain gs' u' where a: "a = Going gs' u'" using add g all by (cases a; cases out) auto
  obtain r where r: "redisGetReplyFromReader c = Inr (REDIS_OK, out, c\<lparr>c_reader := r\<rparr>)"
    "connection (c\<lparr>c_reader := r\<rparr>) a"
    using poll [OF c, of gs' u'] g a by auto
  let ?c = "c\<lparr>c_reader := r\<rparr>"
  show ?thesis
  proof (cases out)
    case (Some y)
    then have y: "y = x" "gs' = []" "u' @ bs = later" using add g a all by auto
    have "s_buf (c_obuf c) = []" using flushed g Some get_nothing by auto
    then have "s1 = s" using io(1) by (auto elim: takes_Nil)
    then show ?thesis
      using r y Some a io(2) \<open>s_buf (c_obuf c) = []\<close>
      by (intro exI [of _ ?c] exI [of _ s] exI [of _ u'] exI [of _ bs]) (simp add: redisGetReply_def redis_errors)
  next
    case None
    have "c_err ?c = 0" using c by (simp add: connection_def)
    with io(1) obtain b where b: "write_until_done A (?c, s) = Some (REDIS_OK, ?c\<lparr>c_obuf := b\<rparr>, s1)" "s_buf b = []"
      using write_all [of A "c_fd c" "s_buf (c_obuf c)" s s1 ?c] by auto
    have conn: "connection (?c\<lparr>c_obuf := b\<rparr>) (Going gs' u')" using r(2) a by (simp add: connection_def has_flag_def)
    have "get_reply a = (None, a)" using get_reply_add [of "[]" "Going [] u"] g None by (simp add: a)
    moreover have "get_reply (Going gs' (u' @ bs)) = (Some x, Going [] later)" using add g None a all by simp
    ultimately obtain r' s' u1 rest where r': "read_until_reply A (?c\<lparr>c_obuf := b\<rparr>, s1) =
        Some (Inr (REDIS_OK, Some x, ?c\<lparr>c_obuf := b\<rparr>\<lparr>c_reader := r'\<rparr>, s'))"
      "delivers A (c_fd c) rest s' s2" "connection (?c\<lparr>c_obuf := b\<rparr>\<lparr>c_reader := r'\<rparr>) (Going [] u1)" "u1 @ rest = later"
      using read_reply [OF io(2) conn, of x later] a by auto
    have "has_flag REDIS_BLOCK ?c" using c by (simp add: connection_def has_flag_def)
    then have "redisGetReply A (c, s) = Some (Inr (REDIS_OK, Some x, ?c\<lparr>c_obuf := b\<rparr>\<lparr>c_reader := r'\<rparr>, s'))"
      using r(1) None b(1) r'(1) by (simp add: redisGetReply_def redis_errors)
    then show ?thesis using b(2) r'(2-4)
      by (intro exI [of _ "?c\<lparr>c_obuf := b\<rparr>\<lparr>c_reader := r'\<rparr>"] exI [of _ s'] exI [of _ u1] exI [of _ rest]) simp
  qed
qed


section \<open>Commands and their replies\<close>

text \<open>Commands are appended one after the other, and then as many replies are asked for.\<close>

definition text_args :: "string list \<Rightarrow> (string \<times> nat option) list" where
  "text_args argv = map (\<lambda>t. (t, Some (length t))) argv"

fun append_all :: "string list list \<Rightarrow> redis_context \<Rightarrow> redis_context res" where
  "append_all [] c = Inr c"
| "append_all (argv # cmds) c = rbind (redisAppendCommandArgv (text_args argv) c) (\<lambda>(_, c). append_all cmds c)"

fun get_replies :: "'s winsock \<Rightarrow> nat \<Rightarrow> redis_context \<times> 's \<Rightarrow> (reply_obj option list \<times> redis_context \<times> 's) res option" where
  "get_replies A 0 z = Some (Inr ([], z))"
| "get_replies A (Suc n) z =
     (case redisGetReply A z of
        None \<Rightarrow> None
      | Some (Inl e) \<Rightarrow> Some (Inl e)
      | Some (Inr (st, x, z)) \<Rightarrow>
          (case get_replies A n z of
             None \<Rightarrow> None
           | Some (Inl e) \<Rightarrow> Some (Inl e)
           | Some (Inr (xs, z)) \<Rightarrow> Some (Inr (x # xs, z))))"

text \<open>A connection on which nothing is to be sent or read.\<close>

definition idle :: "redis_context \<Rightarrow> bool" where
  "idle c \<longleftrightarrow> connection c (Going [] []) \<and> s_buf (c_obuf c) = []"

definition commands :: "string list list \<Rightarrow> string" where
  "commands cmds = concat (map (\<lambda>argv. encode (command_obj argv)) cmds)"

lemma append_one:
  "redisAppendCommandArgv (text_args argv) c =
     Inr (REDIS_OK, c\<lparr>c_obuf := sdscatlen (c_obuf c) (encode (command_obj argv))\<rparr>)"
proof -
  have "all_bytes (text_args argv) = Inr argv"
    by (induction argv) (simp_all add: text_args_def arg_bytes_def)
  then show ?thesis by (simp add: redisAppendCommandArgv_def argv_command redisAppendCommand_raw_def)
qed

lemma append_all_buf:
  "\<exists>b. append_all cmds c = Inr (c\<lparr>c_obuf := b\<rparr>) \<and> s_buf b = s_buf (c_obuf c) @ commands cmds"
proof (induction cmds arbitrary: c)
  case Nil
  then show ?case by (intro exI [of _ "c_obuf c"]) (simp add: commands_def)
next
  case (Cons argv cmds)
  let ?c = "c\<lparr>c_obuf := sdscatlen (c_obuf c) (encode (command_obj argv))\<rparr>"
  obtain b where "append_all cmds ?c = Inr (?c\<lparr>c_obuf := b\<rparr>)" "s_buf b = s_buf (c_obuf ?c) @ commands cmds"
    using Cons [of ?c] by blast
  then show ?case by (intro exI [of _ b]) (simp add: append_one commands_def del: encode.simps)
qed

lemma get_all:
  "list_all (encodable 0) xs \<Longrightarrow> connection c (Going [] u) \<Longrightarrow> s_buf (c_obuf c) = [] \<Longrightarrow>
     delivers A (c_fd c) bs s s2 \<Longrightarrow> u @ bs = concat (map encode xs) \<Longrightarrow>
     \<exists>c' s'. get_replies A (length xs) (c, s) = Some (Inr (map Some xs, c', s')) \<and> idle c' \<and> c_fd c' = c_fd c \<and> s' = s2"
proof (induction xs arbitrary: c u bs s)
  case Nil
  then have "s = s2" by (auto elim: delivers_Nil)
  then show ?case using Nil by (simp add: idle_def)
next
  case (Cons x xs)
  have t: "takes A (c_fd c) (s_buf (c_obuf c)) s s" using Cons.prems(3) by (simp add: takes.taken)
  obtain c' s' u' rest where g: "redisGetReply A (c, s) = Some (Inr (REDIS_OK, Some x, c', s'))" "s_buf (c_obuf c') = []"
    "connection c' (Going [] u')" "c_fd c' = c_fd c" "delivers A (c_fd c) rest s' s2" "u' @ rest = concat (map encode xs)"
    using get_one [OF Cons.prems(2) t Cons.prems(4), of x "concat (map encode xs)"] Cons.prems(1,3,5) by auto
  then obtain c2 where "get_replies A (length xs) (c', s') = Some (Inr (map Some xs, c2, s2))" "idle c2" "c_fd c2 = c_fd c"
    using Cons.IH [of c' u' rest s'] Cons.prems(1) by auto
  then show ?case using g(1) by simp
qed

text \<open>
  C26. Pipelining. On a blocking connection without an error on which nothing is to be sent or
  read: if commands are appended, the server takes their bytes in any portions and then gives the
  bytes of its replies in any portions, then asking for the replies ends, hands out exactly these,
  in order, reads no byte more, and leaves the connection without an error and with nothing to be
  sent or read.
\<close>

theorem pipelined_commands:
  assumes "idle c" and "append_all cmds c = Inr c1"
    and "takes A (c_fd c) (commands cmds) s s1" and "delivers A (c_fd c) (concat (map encode xs)) s1 s2"
    and "list_all (encodable 0) xs" and "xs \<noteq> []"
  shows "\<exists>c2. get_replies A (length xs) (c1, s) = Some (Inr (map Some xs, c2, s2)) \<and> idle c2 \<and> c_fd c2 = c_fd c"
proof -
  obtain x ys where xs: "xs = x # ys" using assms(6) by (cases xs) auto
  obtain b where c1: "c1 = c\<lparr>c_obuf := b\<rparr>" "s_buf b = commands cmds"
    using append_all_buf [of cmds c] assms(1,2) by (auto simp: idle_def)
  have conn: "connection c1 (Going [] [])" using assms(1) c1 by (simp add: idle_def connection_def has_flag_def)
  obtain c' s' u' rest where g: "redisGetReply A (c1, s) = Some (Inr (REDIS_OK, Some x, c', s'))" "s_buf (c_obuf c') = []"
    "connection c' (Going [] u')" "c_fd c' = c_fd c1" "delivers A (c_fd c1) rest s' s2" "u' @ rest = concat (map encode ys)"
    using get_one [OF conn, of A s s1 "concat (map encode xs)" s2 x "concat (map encode ys)"] assms(3-5) c1 xs by auto
  obtain c2 where "get_replies A (length ys) (c', s') = Some (Inr (map Some ys, c2, s2))" "idle c2" "c_fd c2 = c_fd c'"
    using get_all [of ys c' u' A rest s' s2] g assms(5) xs by auto
  then show ?thesis using g(1,4) c1 xs by (intro exI [of _ c2]) simp
qed

text \<open>One command and its reply, by both functions.\<close>

lemma command_gets_reply:
  assumes "idle c" and "takes A (c_fd c) (encode (command_obj argv)) s s1" and "delivers A (c_fd c) (encode x) s1 s2"
    and "encodable 0 x"
  shows "\<exists>c2. redisCommandArgv A (text_args argv) (c, s) = Some (Inr (Some x, c2, s2)) \<and> idle c2"
    and "redisvFormatCommand vprintf format ap = Inr (encode (command_obj argv), length (encode (command_obj argv))) \<Longrightarrow>
      \<exists>c2. redisvCommand A vprintf format ap (c, s) = Some (Inr (Some x, c2, s2)) \<and> idle c2"
proof -
  let ?c = "c\<lparr>c_obuf := sdscatlen (c_obuf c) (encode (command_obj argv))\<rparr>"
  have conn: "connection ?c (Going [] [])" "has_flag REDIS_BLOCK ?c" "s_buf (c_obuf ?c) = encode (command_obj argv)"
    using assms(1) by (auto simp: idle_def connection_def has_flag_def)
  obtain c' s' u' rest where g: "redisGetReply A (?c, s) = Some (Inr (REDIS_OK, Some x, c', s'))" "s_buf (c_obuf c') = []"
    "connection c' (Going [] u')" "delivers A (c_fd c) rest s' s2" "u' @ rest = []"
    using get_one [OF conn(1), of A s s1 "encode x" s2 x "[]"] assms(2-4) conn(3) by auto
  then have "s' = s2" "idle c'" by (auto elim: delivers_Nil simp: idle_def)
  then have r: "redisBlockForReply A (?c, s) = Some (Inr (Some x, c', s2))"
    using g(1) conn(2) by (simp add: redisBlockForReply_def)
  then show "\<exists>c2. redisCommandArgv A (text_args argv) (c, s) = Some (Inr (Some x, c2, s2)) \<and> idle c2"
    using \<open>idle c'\<close> by (simp add: redisCommandArgv_def append_one after_append_def)
  show "\<exists>c2. redisvCommand A vprintf format ap (c, s) = Some (Inr (Some x, c2, s2)) \<and> idle c2"
    if "redisvFormatCommand vprintf format ap = Inr (encode (command_obj argv), length (encode (command_obj argv)))"
    using r \<open>idle c'\<close> that
    by (simp add: redisvCommand_def redisvAppendCommand_def redisAppendCommand_raw_def after_append_def)
qed

text \<open>A server that takes at most five bytes at a time and gives at most three.\<close>

definition slow_server :: "(string \<times> string) winsock" where
  "slow_server =
     \<lparr> ws_startup = (\<lambda>s. (0, s)), ws_socket = (\<lambda>s. (1, s)),
       ws_setsockopt = (\<lambda>fd t s. (0, s)), ws_ioctl_nbio = (\<lambda>fd f s. (0, s)),
       ws_string_to_address = (\<lambda>t s. (Some (''127.0.0.1'', 6379), s)),
       ws_gethostbyname = (\<lambda>t s. (Some t, s)), ws_connect = (\<lambda>fd a s. (0, s)),
       ws_select = (\<lambda>fd tv s. ((1, True), s)), ws_so_error = (\<lambda>fd s. ((0, 0), s)),
       ws_close = (\<lambda>fd s. s), ws_send = (\<lambda>fd t (sent, inp). (Some (length (take 5 t)), (sent @ take 5 t, inp))),
       ws_recv = (\<lambda>fd m (sent, inp). (Some (take 3 inp), (sent, drop 3 inp))), ws_last_error = (\<lambda>s. 0),
       ws_errno = (\<lambda>s. 0), ws_strerror = (\<lambda>e. []) \<rparr>"

lemma slow_takes: "takes slow_server fd bs (sent, inp) (sent @ bs, inp)"
proof (induction "length bs" arbitrary: bs sent rule: less_induct)
  case less
  show ?case
  proof (cases "bs = []")
    case True
    then show ?thesis using takes.taken [of slow_server fd "(sent, inp)"] by simp
  next
    case False
    have d: "drop (length (take 5 bs)) bs = drop 5 bs" by (cases "5 \<le> length bs") simp_all
    have "takes slow_server fd (drop (length (take 5 bs)) bs) (sent @ take 5 bs, inp) (sent @ bs, inp)"
      using less [of "drop 5 bs" "sent @ take 5 bs"] False unfolding d by simp
    then show ?thesis using False
      by (intro takes.take_some [of bs slow_server fd "(sent, inp)" "length (take 5 bs)"]) (simp_all add: slow_server_def)
  qed
qed

lemma slow_delivers: "delivers slow_server fd inp (sent, inp) (sent, [])"
proof (induction "length inp" arbitrary: inp rule: less_induct)
  case less
  show ?case
  proof (cases "inp = []")
    case True
    then show ?thesis using delivers.delivered by simp
  next
    case False
    then have "delivers slow_server fd (take 3 inp @ drop 3 inp) (sent, inp) (sent, [])"
      by (intro delivers.deliver_some [of "take 3 inp" slow_server fd "(sent, inp)" "(sent, drop 3 inp)"] less)
        (simp_all add: slow_server_def)
    then show ?thesis by simp
  qed
qed

definition demo_context :: redis_context where
  "demo_context = \<lparr> c_err = 0, c_errstr = [], c_fd = 1, c_flags = 3, c_obuf = sdsempty, c_reader = redisReaderCreate \<rparr>"

lemma demo_idle: "idle demo_context"
  using create_represents
  by (simp add: idle_def connection_def demo_context_def has_flag_def REDIS_BLOCK_def del: represents.simps)

definition demo_commands :: "string list list" where "demo_commands = [[''PING''], [''GET'', ''a'']]"

definition demo_answers :: "reply_obj list" where
  "demo_answers = [Obj_text REDIS_REPLY_STATUS ''PONG'', Obj_nil]"

theorem pipelined_commands_witness:
  "\<exists>c1 c2. append_all demo_commands demo_context = Inr c1 \<and>
     get_replies slow_server (length demo_answers) (c1, [], concat (map encode demo_answers)) =
       Some (Inr (map Some demo_answers, c2, commands demo_commands, [])) \<and> idle c2"
proof -
  let ?s = "([], concat (map encode demo_answers))"
  let ?s1 = "(commands demo_commands, concat (map encode demo_answers))"
  obtain c1 where c1: "append_all demo_commands demo_context = Inr c1" using append_all_buf by blast
  have t: "takes slow_server (c_fd demo_context) (commands demo_commands) ?s ?s1"
    using slow_takes [of _ "commands demo_commands" "[]"] by simp
  have d: "delivers slow_server (c_fd demo_context) (concat (map encode demo_answers)) ?s1 (commands demo_commands, [])"
    by (rule slow_delivers)
  have "list_all (encodable 0) demo_answers" "demo_answers \<noteq> []" by (simp_all add: demo_answers_def reply_types)
  from pipelined_commands [OF demo_idle c1 t d this] c1 show ?thesis by blast
qed


section \<open>Errors\<close>

text \<open>
  An error of a connection is final. Once the context has an error, reading and writing fail
  without touching the socket or the context, and asking for a reply ends without touching the
  socket: it hands out a reply that had been received before, or fails, or, when the context is not
  blocking, finds none; the context keeps an error.
\<close>

theorem error_is_final:
  assumes "c_err c \<noteq> 0" and "represents (c_reader c) a"
  shows "redisBufferRead A (c, s) = Inr (REDIS_ERR, c, s) \<and> redisBufferWrite A (c, s) = (REDIS_ERR, None, c, s) \<and>
    (\<exists>st c'. redisGetReply A (c, s) = Some (Inr (st, fst (get_reply a), c', s)) \<and> c_err c' \<noteq> 0 \<and>
      st = (case get_reply a of
              (Some _, _) \<Rightarrow> REDIS_OK
            | (None, Broken _) \<Rightarrow> REDIS_ERR
            | (None, Going _ _) \<Rightarrow> if has_flag REDIS_BLOCK c then REDIS_ERR else REDIS_OK))"
proof -
  have rw: "redisBufferRead A (c, s) = Inr (REDIS_ERR, c, s)" "redisBufferWrite A (c, s) = (REDIS_ERR, None, c, s)"
    if "c_err c \<noteq> 0" for c
    using that by (simp_all add: redisBufferRead_def redisBufferWrite_def)
  have w: "write_until_done A (c, s) = Some (REDIS_ERR, c, s)" if "c_err c \<noteq> 0" for c
    using rw(2) [OF that] by (subst write_until_done.simps) simp
  obtain r where r: "redisReaderGetReply (c_reader c) =
      Inr (case snd (get_reply a) of Broken _ \<Rightarrow> REDIS_ERR | _ \<Rightarrow> REDIS_OK, fst (get_reply a), r)"
    "represents r (snd (get_reply a))"
    using GetReply_refines [OF assms(2)] by blast
  have none: "fst (get_reply a) = None" if "snd (get_reply a) = Broken e" for e
    using that by (cases a) (auto simp: get_reply.simps split: outcome.splits)
  have "\<exists>st c'. redisGetReply A (c, s) = Some (Inr (st, fst (get_reply a), c', s)) \<and> c_err c' \<noteq> 0 \<and>
      st = (case get_reply a of
              (Some _, _) \<Rightarrow> REDIS_OK
            | (None, Broken _) \<Rightarrow> REDIS_ERR
            | (None, Going _ _) \<Rightarrow> if has_flag REDIS_BLOCK c then REDIS_ERR else REDIS_OK)"
  proof (cases "snd (get_reply a)")
    case (Broken e)
    then have "get_reply a = (None, Broken e)" using none by (metis prod.collapse)
    then show ?thesis
      using r by (simp add: redisGetReply_def redisGetReplyFromReader_def redis_errors has_failed_def redisSetError_def)
  next
    case (Going gs u)
    then obtain out where g: "get_reply a = (out, Going gs u)" by (metis prod.collapse)
    then have "redisGetReplyFromReader c = Inr (REDIS_OK, out, c\<lparr>c_reader := r\<rparr>)"
      using r by (simp add: redisGetReplyFromReader_def redis_errors)
    then show ?thesis
      using assms(1) w [of "c\<lparr>c_reader := r\<rparr>"] g
      by (cases out) (simp_all add: redisGetReply_def redis_errors has_flag_def)
  qed
  then show ?thesis using rw [OF assms(1)] by blast
qed

theorem error_is_final_witness:
  "\<exists>c'. redisGetReply slow_server (demo_context\<lparr>c_err := REDIS_ERR_EOF\<rparr>, ''a'', ''b'') = Some (Inr (REDIS_ERR, None, c', ''a'', ''b''))"
proof -
  let ?c = "demo_context\<lparr>c_err := REDIS_ERR_EOF\<rparr>"
  have "represents (c_reader ?c) (Going [] [])" "has_flag REDIS_BLOCK ?c"
    using create_represents by (simp_all add: demo_context_def has_flag_def REDIS_BLOCK_def del: represents.simps)
  moreover have "c_err ?c \<noteq> 0" by (simp add: REDIS_ERR_EOF_def)
  ultimately show ?thesis
    using error_is_final [of ?c "Going [] []" slow_server "(''a'', ''b'')"] by (simp add: get_nothing) blast
qed

end
