(* ===== verification/Hiredis_Dict.thy ===== *)
theory Hiredis_Dict
  imports Sds "HOL-Library.Multiset"
begin

text \<open>
  The hash table of \<open>DataHandle/hiredis_win/dict.*\<close>, in which the subscriptions of an asynchronous
  connection are kept: a table of chains whose size is a power of two and doubles when it is full.
  A chain is the list of its entries. Memory is always granted; an \<open>unsigned long\<close> has 32 bits
  on Windows. The calls of the destructors are kept in a list of the model.
\<close>

section \<open>The table\<close>

record ('k, 'v) dict_type =
  hashFunction :: "'k \<Rightarrow> u32"
  keyDup :: "('k \<Rightarrow> 'k) option"
  valDup :: "('v \<Rightarrow> 'v) option"
  keyCompare :: "('k \<Rightarrow> 'k \<Rightarrow> bool) option"
  keyDestructor :: bool
  valDestructor :: bool

datatype ('k, 'v) freed = Freed_key 'k | Freed_val 'v

record ('k, 'v) dict =
  table :: "('k \<times> 'v) list list"
  size_of :: u32
  sizemask :: u32
  used :: u32
  freed :: "('k, 'v) freed list"

definition DICT_OK :: int where "DICT_OK = 0"
definition DICT_ERR :: int where "DICT_ERR = 1"
definition DICT_HT_INITIAL_SIZE :: u32 where "DICT_HT_INITIAL_SIZE = 4"
definition LONG_MAX :: u32 where "LONG_MAX = 0x7FFFFFFF"

fun dictGenHashFunction :: "string \<Rightarrow> u32 \<Rightarrow> u32" where
  "dictGenHashFunction [] hash = hash"
| "dictGenHashFunction (c # buf) hash = dictGenHashFunction buf ((push_bit 5 hash + hash) + of_char c)"

definition dictCompareHashKeys :: "('k, 'v) dict_type \<Rightarrow> 'k \<Rightarrow> 'k \<Rightarrow> bool" where
  "dictCompareHashKeys T k1 k2 = (case keyCompare T of Some cmp \<Rightarrow> cmp k1 k2 | None \<Rightarrow> k1 = k2)"

definition dup :: "('a \<Rightarrow> 'a) option \<Rightarrow> 'a \<Rightarrow> 'a" where
  "dup f x = (case f of Some g \<Rightarrow> g x | None \<Rightarrow> x)"

definition dictFreeEntryKey :: "('k, 'v) dict_type \<Rightarrow> 'k \<times> 'v \<Rightarrow> ('k, 'v) dict \<Rightarrow> ('k, 'v) dict" where
  "dictFreeEntryKey T e d = (if keyDestructor T then d\<lparr>freed := freed d @ [Freed_key (fst e)]\<rparr> else d)"

definition dictFreeEntryVal :: "('k, 'v) dict_type \<Rightarrow> 'k \<times> 'v \<Rightarrow> ('k, 'v) dict \<Rightarrow> ('k, 'v) dict" where
  "dictFreeEntryVal T e d = (if valDestructor T then d\<lparr>freed := freed d @ [Freed_val (snd e)]\<rparr> else d)"

definition dictReset :: "('k, 'v) dict \<Rightarrow> ('k, 'v) dict" where
  "dictReset d = d\<lparr>table := [], size_of := 0, sizemask := 0, used := 0\<rparr>"

definition dictCreate :: "('k, 'v) dict" where
  "dictCreate = dictReset \<lparr> table = [], size_of = 0, sizemask = 0, used = 0, freed = [] \<rparr>"

text \<open>
  The loop is only called with sizes below \<open>LONG_MAX\<close>, so \<open>i\<close> reaches the size before it would
  overflow; the last two conditions are never the ones that end it.
\<close>

function next_power_loop :: "u32 \<Rightarrow> u32 \<Rightarrow> u32" where
  "next_power_loop i sz = (if sz \<le> i \<or> i = 0 \<or> 2 ^ 31 \<le> i then i else next_power_loop (i * 2) sz)"
  by pat_completeness auto
termination
proof (relation "measure (\<lambda>(i, sz). 2 ^ 32 - unat i)", goal_cases)
  case (2 i sz)
  then have "0 < unat i" "unat i < 2 ^ 31" by (auto simp: word_le_nat_alt unat_gt_0)
  then show ?case by (simp add: unat_word_ariths)
qed simp

declare next_power_loop.simps [simp del]

definition dictNextPower :: "u32 \<Rightarrow> u32" where
  "dictNextPower sz = (if LONG_MAX \<le> sz then LONG_MAX else next_power_loop DICT_HT_INITIAL_SIZE sz)"

definition slot :: "('k, 'v) dict_type \<Rightarrow> u32 \<Rightarrow> 'k \<Rightarrow> nat" where
  "slot T msk key = unat (hashFunction T key AND msk)"

definition chain_at :: "('k \<times> 'v) list list \<Rightarrow> nat \<Rightarrow> ('k \<times> 'v) list res" where
  "chain_at tab h = (if h < length tab then Inr (tab ! h) else Inl Out_of_range)"


section \<open>Growing\<close>

text \<open>Each entry of a chain is put before the chain of its new slot; \<open>used\<close> counts down.\<close>

fun move_chain :: "('k, 'v) dict_type \<Rightarrow> u32 \<Rightarrow> ('k \<times> 'v) list \<Rightarrow> ('k \<times> 'v) list list \<Rightarrow> u32 \<Rightarrow>
    (('k \<times> 'v) list list \<times> u32) res" where
  "move_chain T msk [] tab n = Inr (tab, n)"
| "move_chain T msk (he # next_he) tab n =
     (let h = slot T msk (fst he)
      in rbind (chain_at tab h) (\<lambda>c. move_chain T msk next_he (tab[h := he # c]) (n - 1)))"

fun move_chains :: "('k, 'v) dict_type \<Rightarrow> u32 \<Rightarrow> ('k \<times> 'v) list list \<Rightarrow> ('k \<times> 'v) list list \<Rightarrow> u32 \<Rightarrow>
    (('k \<times> 'v) list list \<times> u32) res" where
  "move_chains T msk [] tab n = Inr (tab, n)"
| "move_chains T msk (b # bs) tab n =
     (if 0 < n then rbind (move_chain T msk b tab n) (\<lambda>(tab, n). move_chains T msk bs tab n) else Inr (tab, n))"

definition dictExpand :: "('k, 'v) dict_type \<Rightarrow> u32 \<Rightarrow> ('k, 'v) dict \<Rightarrow> (int \<times> ('k, 'v) dict) res" where
  "dictExpand T sz d =
     (let realsize = dictNextPower sz
      in if sz < used d then Inr (DICT_ERR, d)
         else let msk = realsize - 1
              in rbind (move_chains T msk (table d) (replicate (unat realsize) []) (used d)) (\<lambda>(tab, n).
                   assert_utils (n = 0)
                     (Inr (DICT_OK, d\<lparr>table := tab, size_of := realsize, sizemask := msk\<rparr>))))"

definition dictExpandIfNeeded :: "('k, 'v) dict_type \<Rightarrow> ('k, 'v) dict \<Rightarrow> (int \<times> ('k, 'v) dict) res" where
  "dictExpandIfNeeded T d =
     (if size_of d = 0 then dictExpand T DICT_HT_INITIAL_SIZE d
      else if used d = size_of d then dictExpand T (size_of d * 2) d
      else Inr (DICT_OK, d))"


section \<open>Looking up and changing\<close>

fun in_chain :: "('k, 'v) dict_type \<Rightarrow> 'k \<Rightarrow> ('k \<times> 'v) list \<Rightarrow> ('k \<times> 'v) option" where
  "in_chain T key [] = None"
| "in_chain T key (he # rest) = (if dictCompareHashKeys T key (fst he) then Some he else in_chain T key rest)"

definition dictKeyIndex :: "('k, 'v) dict_type \<Rightarrow> 'k \<Rightarrow> ('k, 'v) dict \<Rightarrow> (int \<times> ('k, 'v) dict) res" where
  "dictKeyIndex T key d =
     rbind (dictExpandIfNeeded T d) (\<lambda>(st, d).
       if st = DICT_ERR then Inr (- 1, d)
       else let h = slot T (sizemask d) key
            in rbind (chain_at (table d) h) (\<lambda>c.
                 Inr (case in_chain T key c of Some _ \<Rightarrow> - 1 | None \<Rightarrow> int h, d)))"

definition dictAdd :: "('k, 'v) dict_type \<Rightarrow> 'k \<Rightarrow> 'v \<Rightarrow> ('k, 'v) dict \<Rightarrow> (int \<times> ('k, 'v) dict) res" where
  "dictAdd T key val d =
     rbind (dictKeyIndex T key d) (\<lambda>(index, d).
       if index = - 1 then Inr (DICT_ERR, d)
       else let i = nat index
            in rbind (chain_at (table d) i) (\<lambda>c.
                 let entry = (dup (keyDup T) key, dup (valDup T) val)
                 in Inr (DICT_OK, d\<lparr>table := (table d)[i := entry # c], used := used d + 1\<rparr>)))"

definition dictFind :: "('k, 'v) dict_type \<Rightarrow> 'k \<Rightarrow> ('k, 'v) dict \<Rightarrow> ('k \<times> 'v) option res" where
  "dictFind T key d =
     (if size_of d = 0 then Inr None
      else rbind (chain_at (table d) (slot T (sizemask d) key)) (\<lambda>c. Inr (in_chain T key c)))"

text \<open>The value of the entry that was found is set.\<close>

fun set_in_chain :: "('k, 'v) dict_type \<Rightarrow> 'k \<Rightarrow> 'v \<Rightarrow> ('k \<times> 'v) list \<Rightarrow> ('k \<times> 'v) list" where
  "set_in_chain T key val [] = []"
| "set_in_chain T key val (he # rest) =
     (if dictCompareHashKeys T key (fst he) then (fst he, val) # rest else he # set_in_chain T key val rest)"

definition dictReplace :: "('k, 'v) dict_type \<Rightarrow> 'k \<Rightarrow> 'v \<Rightarrow> ('k, 'v) dict \<Rightarrow> (int \<times> ('k, 'v) dict) res" where
  "dictReplace T key val d =
     rbind (dictAdd T key val d) (\<lambda>(st, d).
       if st = DICT_OK then Inr (1, d)
       else rbind (dictFind T key d) (\<lambda>found.
              case found of
                None \<Rightarrow> Inl Null_deref
              | Some auxentry \<Rightarrow>
                  (let h = slot T (sizemask d) key;
                       d = d\<lparr>table := (table d)[h := set_in_chain T key (dup (valDup T) val) (table d ! h)]\<rparr>
                   in Inr (0, dictFreeEntryVal T auxentry d))))"

fun unlink :: "('k, 'v) dict_type \<Rightarrow> 'k \<Rightarrow> ('k \<times> 'v) list \<Rightarrow> ('k \<times> 'v) list" where
  "unlink T key [] = []"
| "unlink T key (de # rest) = (if dictCompareHashKeys T key (fst de) then rest else de # unlink T key rest)"

definition dictDelete :: "('k, 'v) dict_type \<Rightarrow> 'k \<Rightarrow> ('k, 'v) dict \<Rightarrow> (int \<times> ('k, 'v) dict) res" where
  "dictDelete T key d =
     (if size_of d = 0 then Inr (DICT_ERR, d)
      else let h = slot T (sizemask d) key
           in rbind (chain_at (table d) h) (\<lambda>c.
                case in_chain T key c of
                  None \<Rightarrow> Inr (DICT_ERR, d)
                | Some de \<Rightarrow>
                    (let d = d\<lparr>table := (table d)[h := unlink T key c]\<rparr>;
                         d = dictFreeEntryVal T de (dictFreeEntryKey T de d)
                     in Inr (DICT_OK, d\<lparr>used := used d - 1\<rparr>))))"

text \<open>Clearing ends early when no entry is left.\<close>

fun clear_chains :: "('k, 'v) dict_type \<Rightarrow> ('k \<times> 'v) list list \<Rightarrow> ('k, 'v) dict \<Rightarrow> ('k, 'v) dict" where
  "clear_chains T [] d = d"
| "clear_chains T (b # bs) d =
     (if 0 < used d
      then clear_chains T bs
        (fold (\<lambda>he d. (dictFreeEntryVal T he (dictFreeEntryKey T he d))\<lparr>used := used d - 1\<rparr>) b d)
      else d)"

definition dictClear :: "('k, 'v) dict_type \<Rightarrow> ('k, 'v) dict \<Rightarrow> ('k, 'v) dict" where
  "dictClear T d = dictReset (clear_chains T (table d) d)"


section \<open>Iterators\<close>

text \<open>
  A pointer to an entry is the rest of its chain that starts there, null is the empty list. What
  follows the entry handed out is saved, so that this entry may be deleted.
\<close>

record ('k, 'v) dict_iterator =
  it_index :: int
  it_entry :: "('k \<times> 'v) list"
  it_next :: "('k \<times> 'v) list"

definition dictGetIterator :: "('k, 'v) dict_iterator" where
  "dictGetIterator = \<lparr> it_index = - 1, it_entry = [], it_next = [] \<rparr>"

function dictNext :: "('k, 'v) dict \<Rightarrow> ('k, 'v) dict_iterator \<Rightarrow> (('k \<times> 'v) option \<times> ('k, 'v) dict_iterator) res" where
  "dictNext d iter =
     (if it_entry iter = [] then
        (let iter = iter\<lparr>it_index := it_index iter + 1\<rparr>
         in if sint (size_of d) \<le> it_index iter then Inr (None, iter)
            else if it_index iter < 0 then Inl Out_of_range
            else (case chain_at (table d) (nat (it_index iter)) of
                    Inl e \<Rightarrow> Inl e
                  | Inr [] \<Rightarrow> dictNext d (iter\<lparr>it_entry := []\<rparr>)
                  | Inr (he # rest) \<Rightarrow> Inr (Some he, iter\<lparr>it_entry := he # rest, it_next := rest\<rparr>)))
      else (case it_next iter of
              [] \<Rightarrow> dictNext d (iter\<lparr>it_entry := []\<rparr>)
            | he # rest \<Rightarrow> Inr (Some he, iter\<lparr>it_entry := he # rest, it_next := rest\<rparr>)))"
  by pat_completeness auto
termination
  by (relation "measure (\<lambda>(d, it). 2 * nat (sint (size_of d) - it_index it) + (if it_entry it = [] then 0 else 1))") auto

declare dictNext.simps [simp del]


section \<open>The chains as one collection\<close>

text \<open>Every entry is in the chain that its key says.\<close>

definition placed :: "('k \<Rightarrow> nat) \<Rightarrow> ('k \<times> 'v) list list \<Rightarrow> bool" where
  "placed g tab \<longleftrightarrow> (\<forall>i < length tab. \<forall>e \<in> set (tab ! i). g (fst e) = i)"

lemma placed_update: "placed g tab \<Longrightarrow> \<forall>e \<in> set c. g (fst e) = i \<Longrightarrow> placed g (tab[i := c])"
  unfolding placed_def by (cases "i < length tab") (auto simp only: length_list_update nth_list_update list_update_beyond not_less split: if_splits)

lemma placed_replicate: "placed g (replicate n [])"
  by (simp add: placed_def)

lemma mset_concat_update:
  "i < length tab \<Longrightarrow> mset (concat (tab[i := c])) + mset (tab ! i) = mset (concat tab) + mset c"
proof (induction tab arbitrary: i)
  case (Cons b tab)
  then show ?case by (cases i) (simp_all add: ac_simps)
qed simp

lemma in_concat: "e \<in> set (concat tab) \<longleftrightarrow> (\<exists>i < length tab. e \<in> set (tab ! i))"
  by (auto simp: in_set_conv_nth) (metis nth_mem in_set_conv_nth)+

lemma map_of_mset:
  assumes "mset xs = mset ys" and "distinct (map fst xs)"
  shows "map_of xs = map_of ys" "distinct (map fst ys)"
proof -
  have "mset (map fst xs) = mset (map fst ys)" using assms(1) by simp
  then show d: "distinct (map fst ys)" using assms(2) mset_eq_imp_distinct_iff by blast
  show "map_of xs = map_of ys"
    using assms d mset_eq_setD by (metis map_of_inject_set)
qed

lemma placed_lookup:
  assumes "placed g tab" and "distinct (map fst (concat tab))" and "g key < length tab"
  shows "map_of (concat tab) key = map_of (tab ! g key) key" "distinct (map fst (tab ! g key))"
proof -
  have sub: "e \<in> set (concat tab)" if "e \<in> set (tab ! g key)" for e
    using in_concat [of e tab] that assms(3) by blast
  have part: "concat tab = concat (take (g key) tab) @ tab ! g key @ concat (drop (Suc (g key)) tab)"
    using id_take_nth_drop [OF assms(3)] by (metis concat.simps(2) concat_append)
  then show d: "distinct (map fst (tab ! g key))" using assms(2) by (metis distinct_append map_append)
  show "map_of (concat tab) key = map_of (tab ! g key) key"
  proof (cases "map_of (tab ! g key) key")
    case (Some v)
    then have "(key, v) \<in> set (concat tab)" using sub map_of_SomeD by metis
    then show ?thesis using Some assms(2) by (metis map_of_is_SomeI)
  next
    case None
    have "map_of (concat tab) key = None"
    proof (rule ccontr)
      assume "map_of (concat tab) key \<noteq> None"
      then obtain v where "(key, v) \<in> set (concat tab)" using map_of_SomeD by fastforce
      then obtain i where i: "i < length tab" "(key, v) \<in> set (tab ! i)" using in_concat [of "(key, v)" tab] by blast
      then have "g key = i" using assms(1) by (force simp: placed_def)
      then show False using None i(2) by (metis map_of_eq_None_iff image_eqI fst_conv)
    qed
    then show ?thesis using None by simp
  qed
qed

text \<open>A type whose keys are compared by their contents, and whose copies are equal.\<close>

definition plain_type :: "('k, 'v) dict_type \<Rightarrow> bool" where
  "plain_type T \<longleftrightarrow> (\<forall>a b. dictCompareHashKeys T a b \<longleftrightarrow> a = b) \<and> (\<forall>k. dup (keyDup T) k = k) \<and> (\<forall>v. dup (valDup T) v = v)"

lemma in_chain_map: "plain_type T \<Longrightarrow> in_chain T key c = map_option (\<lambda>v. (key, v)) (map_of c key)"
  by (induction c) (auto simp: plain_type_def)

lemma unlink_mset: "plain_type T \<Longrightarrow> map_of c key = Some v \<Longrightarrow> mset c = add_mset (key, v) (mset (unlink T key c))"
  by (induction c) (auto simp: plain_type_def split: if_splits)

lemma set_in_chain_mset:
  "plain_type T \<Longrightarrow> map_of c key = Some v \<Longrightarrow> mset (set_in_chain T key val c) = add_mset (key, val) (mset (unlink T key c))"
  by (induction c) (auto simp: plain_type_def split: if_splits)


section \<open>The invariant\<close>

definition table_ok :: "('k, 'v) dict_type \<Rightarrow> ('k, 'v) dict \<Rightarrow> bool" where
  "table_ok T d \<longleftrightarrow>
     (size_of d = 0 \<and> table d = [] \<or>
      (\<exists>k. 2 \<le> k \<and> k \<le> 30 \<and> size_of d = 2 ^ k \<and> sizemask d = 2 ^ k - 1 \<and> length (table d) = 2 ^ k))"

definition dict_ok :: "('k, 'v) dict_type \<Rightarrow> ('k, 'v) dict \<Rightarrow> bool" where
  "dict_ok T d \<longleftrightarrow>
     table_ok T d \<and> unat (used d) = length (concat (table d)) \<and> used d \<le> size_of d \<and>
     placed (slot T (sizemask d)) (table d) \<and> distinct (map fst (concat (table d)))"

definition contents :: "('k, 'v) dict \<Rightarrow> 'k \<Rightarrow> 'v option" where
  "contents d = map_of (concat (table d))"

lemma slot_less: "k \<le> 30 \<Longrightarrow> slot T (2 ^ k - 1) key < 2 ^ k"
proof -
  assume k: "k \<le> 30"
  have "hashFunction T key AND (2 ^ k - 1) = take_bit k (hashFunction T key)"
    by (simp add: take_bit_eq_mask mask_eq_exp_minus_1)
  then have "unat (hashFunction T key AND (2 ^ k - 1)) = take_bit k (unat (hashFunction T key))"
    by (simp add: unsigned_take_bit_eq)
  then show ?thesis using k by (simp add: slot_def)
qed

lemma slot_in_table: "table_ok T d \<Longrightarrow> size_of d \<noteq> 0 \<Longrightarrow> slot T (sizemask d) key < length (table d)"
  by (auto simp: table_ok_def slot_less)

lemma Find_contents:
  assumes "plain_type T" and "dict_ok T d"
  shows "dictFind T key d = Inr (map_option (\<lambda>v. (key, v)) (contents d key))"
proof (cases "size_of d = 0")
  case True
  then have "table d = []" using assms(2) by (auto simp: dict_ok_def table_ok_def exp_eq_zero_iff)
  then show ?thesis using True by (simp add: dictFind_def contents_def)
next
  case False
  then have "slot T (sizemask d) key < length (table d)" using assms(2) slot_in_table by (auto simp: dict_ok_def)
  then show ?thesis
    using False assms placed_lookup(1) [of "slot T (sizemask d)" "table d" key]
    by (simp add: dictFind_def chain_at_def in_chain_map dict_ok_def contents_def)
qed


section \<open>Growing keeps the contents\<close>

lemma unat_pow: "k \<le> 31 \<Longrightarrow> unat ((2 :: u32) ^ k) = 2 ^ k"
proof -
  assume "k \<le> 31"
  then have "(2 :: nat) ^ k < 2 ^ 32" by (intro power_strict_increasing) simp_all
  moreover have "(2 :: u32) ^ k = of_nat (2 ^ k)" by simp
  ultimately show ?thesis by (simp only: unat_of_nat) (simp add: mod_less)
qed

lemma next_power_loop_pow:
  "2 \<le> j \<Longrightarrow> j \<le> 30 \<Longrightarrow> sz \<le> 2 ^ 30 \<Longrightarrow> \<exists>k. j \<le> k \<and> k \<le> 30 \<and> next_power_loop (2 ^ j) sz = 2 ^ k \<and> sz \<le> 2 ^ k"
proof (induction "30 - j" arbitrary: j)
  case 0
  then have "j = 30" by simp
  then show ?case using 0 by (subst next_power_loop.simps) auto
next
  case (Suc n)
  show ?case
  proof (cases "sz \<le> 2 ^ j")
    case True
    then show ?thesis using Suc.prems by (subst next_power_loop.simps) auto
  next
    case False
    have "(2 :: nat) ^ j < 2 ^ 31" using Suc.prems by (intro power_strict_increasing) simp_all
    then have "unat ((2 :: u32) ^ j) < 2 ^ 31" using Suc.prems by (simp only: unat_pow)
    then have "\<not> 2 ^ 31 \<le> (2 :: u32) ^ j" by (simp add: word_le_nat_alt)
    moreover have "(2 :: u32) ^ j \<noteq> 0" using Suc.prems by (simp add: exp_eq_zero_iff)
    ultimately have "next_power_loop (2 ^ j) sz = next_power_loop (2 ^ Suc j) sz"
      using False by (subst next_power_loop.simps) (simp add: mult.commute)
    moreover have "n = 30 - Suc j" "2 \<le> Suc j" "Suc j \<le> 30" using Suc.hyps(2) Suc.prems by auto
    ultimately show ?thesis using Suc.hyps(1) [of "Suc j"] Suc.prems(3) by (metis Suc_leD)
  qed
qed

lemma dictNextPower_pow:
  assumes "sz \<le> 2 ^ 30"
  shows "\<exists>k. 2 \<le> k \<and> k \<le> 30 \<and> dictNextPower sz = 2 ^ k \<and> sz \<le> 2 ^ k"
proof -
  have "\<not> LONG_MAX \<le> sz" using assms by (simp add: LONG_MAX_def word_le_nat_alt)
  moreover have "(4 :: u32) = 2 ^ 2" by simp
  ultimately show ?thesis
    using next_power_loop_pow [of 2 sz] assms unfolding dictNextPower_def DICT_HT_INITIAL_SIZE_def by auto
qed

lemma move_chain_ok:
  "placed (slot T m) tab \<Longrightarrow> \<forall>key. slot T m key < length tab \<Longrightarrow> length b \<le> unat n \<Longrightarrow>
     \<exists>tab' n'. move_chain T m b tab n = Inr (tab', n') \<and> length tab' = length tab \<and> placed (slot T m) tab' \<and>
       mset (concat tab') = mset (concat tab) + mset b \<and> unat n' = unat n - length b"
proof (induction b arbitrary: tab n)
  case (Cons he b)
  let ?h = "slot T m (fst he)"
  let ?tab = "tab[?h := he # tab ! ?h]"
  have h: "?h < length tab" using Cons.prems(2) by blast
  have "placed (slot T m) ?tab"
    using Cons.prems(1) h by (intro placed_update) (auto simp: placed_def)
  moreover have "n \<noteq> 0" using Cons.prems(3) by auto
  then have "unat (n - 1) = unat n - 1" by (simp add: unat_minus_one)
  moreover have "mset (concat ?tab) = add_mset he (mset (concat tab))"
    using mset_concat_update [OF h, of "he # tab ! ?h"] by simp
  ultimately show ?case
    using Cons.IH [of ?tab "n - 1"] Cons.prems(2,3) h by (auto simp: chain_at_def Let_def)
qed simp

lemma move_chains_ok:
  "placed (slot T m) tab \<Longrightarrow> \<forall>key. slot T m key < length tab \<Longrightarrow> unat n = length (concat bs) \<Longrightarrow>
     \<exists>tab' n'. move_chains T m bs tab n = Inr (tab', n') \<and> length tab' = length tab \<and> placed (slot T m) tab' \<and>
       mset (concat tab') = mset (concat tab) + mset (concat bs) \<and> n' = 0"
proof (induction bs arbitrary: tab n)
  case Nil
  then show ?case by (simp add: unat_eq_0)
next
  case (Cons b bs)
  show ?case
  proof (cases "0 < n")
    case True
    obtain tab1 n1 where 1: "move_chain T m b tab n = Inr (tab1, n1)" "length tab1 = length tab" "placed (slot T m) tab1"
      "mset (concat tab1) = mset (concat tab) + mset b" "unat n1 = unat n - length b"
      using move_chain_ok [OF Cons.prems(1,2), of b n] Cons.prems(3) by auto
    then show ?thesis using Cons.IH [of tab1 n1] Cons.prems(2,3) True by (auto simp: ac_simps)
  next
    case False
    then have "n = 0" by (simp add: word_gt_0)
    then show ?thesis using Cons.prems by simp
  qed
qed

lemma Expand_ok:
  assumes "dict_ok T d" and "used d \<le> sz" and "sz \<le> 2 ^ 30"
  shows "\<exists>d'. dictExpand T sz d = Inr (DICT_OK, d') \<and> dict_ok T d' \<and> contents d' = contents d \<and> sz \<le> size_of d' \<and>
    size_of d' \<noteq> 0 \<and> used d' = used d \<and> freed d' = freed d"
proof -
  obtain k where k: "2 \<le> k" "k \<le> 30" "dictNextPower sz = 2 ^ k" "sz \<le> 2 ^ k" using dictNextPower_pow [OF assms(3)] by blast
  let ?m = "2 ^ k - 1"
  have un: "unat ((2 :: u32) ^ k) = 2 ^ k" using k(2) by (simp add: unat_pow)
  obtain tab n where t: "move_chains T ?m (table d) (replicate (2 ^ k) []) (used d) = Inr (tab, n)" "length tab = 2 ^ k"
    "placed (slot T ?m) tab" "mset (concat tab) = mset (concat (table d))" "n = 0"
    using move_chains_ok [OF placed_replicate [of "slot T ?m" "2 ^ k"], of "used d" "table d"] assms(1)
      slot_less [OF k(2), of T] by (auto simp: dict_ok_def)
  let ?d = "d\<lparr>table := tab, size_of := 2 ^ k, sizemask := ?m\<rparr>"
  have "\<not> sz < used d" using assms(2) by (rule leD)
  then have e: "dictExpand T sz d = Inr (DICT_OK, ?d)"
    using t(1,5) k(3) un by (simp add: dictExpand_def Let_def)
  have m: "map_of (concat tab) = map_of (concat (table d))" "distinct (map fst (concat tab))"
    using map_of_mset [of "concat (table d)" "concat tab"] t(4) assms(1) by (simp_all add: dict_ok_def)
  have "length (concat tab) = length (concat (table d))" using t(4) by (metis size_mset)
  moreover have "used d \<le> 2 ^ k" using assms(2) k(4) by (rule order_trans)
  moreover have "table_ok T ?d" using k t(2) by (auto simp: table_ok_def)
  ultimately have "dict_ok T ?d" using assms(1) t(3) m(2) by (simp add: dict_ok_def)
  moreover have "(2 :: u32) ^ k \<noteq> 0" using k(2) by (simp add: exp_eq_zero_iff)
  ultimately show ?thesis using e m(1) k(4) by (simp add: contents_def)
qed

lemma ExpandIfNeeded_ok:
  assumes "dict_ok T d" and "unat (used d) < 2 ^ 29"
  shows "\<exists>d'. dictExpandIfNeeded T d = Inr (DICT_OK, d') \<and> dict_ok T d' \<and> contents d' = contents d \<and> size_of d' \<noteq> 0 \<and>
    used d' < size_of d' \<and> used d' = used d \<and> freed d' = freed d"
proof -
  consider "size_of d = 0" | (full) k where "size_of d = 2 ^ k" "2 \<le> k" "k \<le> 30" "used d = size_of d" "size_of d \<noteq> 0"
    | "size_of d \<noteq> 0" "used d \<noteq> size_of d"
    using assms(1) unfolding dict_ok_def table_ok_def by metis
  then show ?thesis
  proof cases
    case 1
    then have "table d = []" using assms(1) by (auto simp: dict_ok_def table_ok_def exp_eq_zero_iff)
    then have "used d = 0" using assms(1) by (simp add: dict_ok_def unat_eq_0)
    moreover have "(4 :: u32) \<le> 2 ^ 30" by (simp add: word_le_nat_alt)
    moreover have "0 < w" if "(4 :: u32) \<le> w" for w using that by (auto simp: word_gt_0 word_le_nat_alt)
    ultimately show ?thesis
      using Expand_ok [OF assms(1), of 4] 1 by (auto simp: dictExpandIfNeeded_def DICT_HT_INITIAL_SIZE_def)
  next
    case full
    have "unat (size_of d) = 2 ^ k" using full by (simp add: unat_pow)
    then have "(2 :: nat) ^ k < 2 ^ 29" using assms(2) full by simp
    then have k: "k < 29" by (rule power_less_imp_less_exp [rotated]) simp
    have pow: "size_of d * 2 = 2 ^ Suc k" using full by simp
    have un: "unat ((2 :: u32) ^ Suc k) = 2 ^ Suc k" using k by (intro unat_pow) simp
    have "2 ^ Suc k \<le> (2 :: nat) ^ 30" using k by (intro power_increasing) simp_all
    then have le: "size_of d * 2 \<le> 2 ^ 30" unfolding pow word_le_nat_alt un by simp
    have lt: "used d < size_of d * 2"
      unfolding pow word_less_nat_alt un using full(4) \<open>unat (size_of d) = 2 ^ k\<close> by simp
    then show ?thesis
      using Expand_ok [OF assms(1) less_imp_le [OF lt] le] full(4,5) by (auto simp: dictExpandIfNeeded_def intro: less_le_trans)
  next
    case 3
    then have "used d < size_of d" using assms(1) unfolding dict_ok_def less_le by blast
    then show ?thesis using 3 assms(1) by (simp add: dictExpandIfNeeded_def)
  qed
qed


section \<open>Every operation does what it does on a map\<close>

text \<open>Changing one chain, seen as a change of all entries.\<close>

lemma change_chain:
  assumes "dict_ok T d" and "h < length (table d)" and "\<forall>e \<in> set c. slot T (sizemask d) (fst e) = h"
    and "distinct (map fst xs)" and "mset xs + mset (table d ! h) = mset (concat (table d)) + mset c"
    and "unat n = length xs" and "n \<le> size_of d"
  shows "dict_ok T (d\<lparr>table := (table d)[h := c], used := n, freed := f\<rparr>)"
    "contents (d\<lparr>table := (table d)[h := c], used := n, freed := f\<rparr>) = map_of xs"
proof -
  let ?tab = "(table d)[h := c]"
  have m: "mset (concat ?tab) = mset xs" using mset_concat_update [OF assms(2), of c] assms(5) by (metis add_right_cancel)
  have "map_of xs = map_of (concat ?tab)" "distinct (map fst (concat ?tab))"
    using map_of_mset [of xs "concat ?tab"] m assms(4) by simp_all
  moreover have "length (concat ?tab) = length xs" using m by (metis size_mset)
  moreover have "placed (slot T (sizemask d)) ?tab"
    using assms(1,3) by (intro placed_update) (auto simp: dict_ok_def)
  ultimately show "dict_ok T (d\<lparr>table := ?tab, used := n, freed := f\<rparr>)"
    "contents (d\<lparr>table := ?tab, used := n, freed := f\<rparr>) = map_of xs"
    using assms(1,6,7) by (simp_all add: dict_ok_def table_ok_def contents_def)
qed

lemma chain_facts:
  assumes "dict_ok T d" and "size_of d \<noteq> 0"
    and "h = slot T (sizemask d) key"
  shows "h < length (table d)" "map_of (table d ! h) key = contents d key"
    "\<forall>e \<in> set (table d ! h). slot T (sizemask d) (fst e) = h" "mset (table d ! h) \<subseteq># mset (concat (table d))"
proof -
  show h: "h < length (table d)" using assms slot_in_table by (auto simp: dict_ok_def)
  show "map_of (table d ! h) key = contents d key"
    using placed_lookup(1) [of "slot T (sizemask d)" "table d" key] assms h by (simp add: dict_ok_def contents_def)
  show "\<forall>e \<in> set (table d ! h). slot T (sizemask d) (fst e) = h" using assms(1) h by (simp add: dict_ok_def placed_def)
  show "mset (table d ! h) \<subseteq># mset (concat (table d))"
    using mset_concat_update [OF h, of "[]"] by (metis mset_subset_eq_add_right mset.simps(1) add.right_neutral)
qed

lemma KeyIndex_ok:
  assumes "plain_type T" and "dict_ok T d" and "unat (used d) < 2 ^ 29"
  shows "\<exists>d'. dictKeyIndex T key d =
      Inr (if contents d key = None then int (slot T (sizemask d') key) else - 1, d') \<and>
    dict_ok T d' \<and> contents d' = contents d \<and> size_of d' \<noteq> 0 \<and> used d' < size_of d' \<and> used d' = used d \<and> freed d' = freed d"
proof -
  obtain d' where d': "dictExpandIfNeeded T d = Inr (DICT_OK, d')" "dict_ok T d'" "contents d' = contents d" "size_of d' \<noteq> 0"
    "used d' < size_of d'" "used d' = used d" "freed d' = freed d"
    using ExpandIfNeeded_ok [OF assms(2,3)] by blast
  then show ?thesis
    using chain_facts(1,2) [OF d'(2,4) refl, of key] assms(1)
    by (auto simp: dictKeyIndex_def DICT_OK_def DICT_ERR_def chain_at_def in_chain_map split: option.splits)
qed

lemma Add_ok:
  assumes "plain_type T" and "dict_ok T d" and "unat (used d) < 2 ^ 29"
  shows "\<exists>d'. dictAdd T key val d = Inr (if contents d key = None then DICT_OK else DICT_ERR, d') \<and> dict_ok T d' \<and>
    contents d' = (if contents d key = None then (contents d)(key \<mapsto> val) else contents d) \<and>
    (contents d key \<noteq> None \<longrightarrow> size_of d' \<noteq> 0) \<and> unat (used d') \<le> Suc (unat (used d))"
proof -
  obtain d1 where d1: "dictKeyIndex T key d = Inr (if contents d key = None then int (slot T (sizemask d1) key) else - 1, d1)"
    "dict_ok T d1" "contents d1 = contents d" "size_of d1 \<noteq> 0" "used d1 < size_of d1" "used d1 = used d"
    using KeyIndex_ok [OF assms] by blast
  show ?thesis
  proof (cases "contents d key")
    case (Some v)
    then show ?thesis using d1 by (simp add: dictAdd_def DICT_ERR_def)
  next
    case None
    let ?h = "slot T (sizemask d1) key"
    let ?xs = "(key, val) # concat (table d1)"
    let ?d = "d1\<lparr>table := (table d1)[?h := (key, val) # table d1 ! ?h], used := used d1 + 1\<rparr>"
    note c = chain_facts [OF d1(2,4) refl, of key]
    have u: "unat (used d1 + 1) = Suc (unat (used d1))"
      using d1(6) assms(3) by (simp add: unat_word_ariths)
    have "used d1 + 1 \<le> size_of d1" using d1(5) by (rule inc_le)
    moreover have "key \<notin> fst ` set (concat (table d1))"
      using None d1(3) unfolding contents_def by (metis map_of_eq_None_iff)
    then have "distinct (map fst ?xs)" using d1(2) by (simp add: dict_ok_def)
    moreover have "unat (used d1 + 1) = length ?xs" using u d1(2) by (simp add: dict_ok_def)
    ultimately have "dict_ok T (d1\<lparr>table := (table d1)[?h := (key, val) # table d1 ! ?h], used := used d1 + 1, freed := freed d1\<rparr>)"
      "contents (d1\<lparr>table := (table d1)[?h := (key, val) # table d1 ! ?h], used := used d1 + 1, freed := freed d1\<rparr>) = map_of ?xs"
      using change_chain [OF d1(2) c(1), of "(key, val) # table d1 ! ?h" ?xs "used d1 + 1" "freed d1"] c(3) by auto
    then have "dict_ok T ?d" "contents ?d = (contents d)(key \<mapsto> val)" using d1(3) by (simp_all add: contents_def)
    moreover have "dictAdd T key val d = Inr (DICT_OK, ?d)"
      using d1(1) None c(1) assms(1) by (simp add: dictAdd_def chain_at_def plain_type_def Let_def)
    ultimately show ?thesis using None u d1(6) by simp
  qed
qed

lemma unlink_distinct: "distinct (map fst c) \<Longrightarrow> distinct (map fst (unlink T key c))"
  "set (unlink T key c) \<subseteq> set c"
  by (induction c) auto

lemma set_in_chain_keys: "fst ` set (set_in_chain T key val c) = fst ` set c"
  by (induction c) auto

lemma used_positive: "dict_ok T d \<Longrightarrow> concat (table d) \<noteq> [] \<Longrightarrow> unat (used d - 1) = unat (used d) - 1 \<and> used d - 1 \<le> size_of d"
proof -
  assume d: "dict_ok T d" "concat (table d) \<noteq> []"
  then have "used d \<noteq> 0" by (auto simp: dict_ok_def)
  then have "unat (used d - 1) = unat (used d) - 1" by (simp add: unat_minus_one)
  then show ?thesis using d(1) by (auto simp: dict_ok_def word_le_nat_alt)
qed

text \<open>The rest of the entries when one of them is taken away.\<close>

lemma without_key:
  assumes "dict_ok T d" and "contents d key = Some v"
  obtains ys where "mset (concat (table d)) = add_mset (key, v) (mset ys)" "distinct (map fst ys)" "key \<notin> fst ` set ys"
    "map_of ys = (contents d)(key := None)" "unat (used d) = Suc (length ys)"
proof -
  let ?xs = "concat (table d)"
  have x: "(key, v) \<in> set ?xs" using assms(2) unfolding contents_def by (rule map_of_SomeD)
  define ys where "ys = remove1 (key, v) ?xs"
  have m: "mset ?xs = add_mset (key, v) (mset ys)" using x by (simp add: ys_def)
  have d: "distinct (map fst ((key, v) # ys))" "map_of ?xs = map_of ((key, v) # ys)"
    using map_of_mset [of ?xs "(key, v) # ys"] m assms(1) by (simp_all add: dict_ok_def)
  have k: "key \<notin> fst ` set ys" using d(1) by simp
  have "map_of ys = (contents d)(key := None)"
    using d(2) k by (auto simp: contents_def fun_eq_iff map_of_eq_None_iff)
  moreover have "unat (used d) = Suc (length ys)"
    using m assms(1) by (metis dict_ok_def size_mset size_add_mset)
  ultimately show thesis using that m d(1) k by simp
qed

lemma Delete_ok:
  assumes "plain_type T" and "dict_ok T d"
  shows "\<exists>d'. dictDelete T key d = Inr (if contents d key = None then DICT_ERR else DICT_OK, d') \<and> dict_ok T d' \<and>
    contents d' = (contents d)(key := None) \<and> unat (used d') \<le> unat (used d)"
proof (cases "contents d key")
  case None
  then have none: "(contents d)(key := None) = contents d" by (simp add: fun_eq_iff)
  show ?thesis
  proof (cases "size_of d = 0")
    case True
    then show ?thesis using None none assms(2) by (simp add: dictDelete_def)
  next
    case False
    then show ?thesis
      using None none assms chain_facts(1,2) [OF assms(2) False refl, of key]
      by (simp add: dictDelete_def chain_at_def in_chain_map)
  qed
next
  case (Some v)
  have size: "size_of d \<noteq> 0"
  proof
    assume "size_of d = 0"
    then have "table d = []" using assms(2) by (auto simp: dict_ok_def table_ok_def exp_eq_zero_iff)
    then show False using Some by (simp add: contents_def)
  qed
  let ?h = "slot T (sizemask d) key"
  note c = chain_facts [OF assms(2) size refl, of key]
  have v: "map_of (table d ! ?h) key = Some v" using c(2) Some by simp
  obtain ys where ys: "mset (concat (table d)) = add_mset (key, v) (mset ys)" "distinct (map fst ys)"
    "map_of ys = (contents d)(key := None)" "unat (used d) = Suc (length ys)"
    using without_key [OF assms(2) Some] by blast
  let ?c = "unlink T key (table d ! ?h)"
  have u: "unat (used d - 1) = length ys" "used d - 1 \<le> size_of d"
    using used_positive [OF assms(2)] ys(4) arg_cong [OF ys(1), of size] by fastforce+
  have m: "mset ys + mset (table d ! ?h) = mset (concat (table d)) + mset ?c"
    using ys(1) unlink_mset [OF assms(1) v] by simp
  have "\<forall>e \<in> set ?c. slot T (sizemask d) (fst e) = ?h" using c(3) unlink_distinct(2) by fast
  note ch = change_chain [OF assms(2) c(1) this ys(2) m u]
  let ?f = "freed d @ (if keyDestructor T then [Freed_key key] else []) @ (if valDestructor T then [Freed_val v] else [])"
  have "dictDelete T key d = Inr (DICT_OK, d\<lparr>table := (table d)[?h := ?c], used := used d - 1, freed := ?f\<rparr>)"
    using size c(1) v assms(1)
    by (simp add: dictDelete_def chain_at_def in_chain_map Let_def dictFreeEntryKey_def dictFreeEntryVal_def)
  then show ?thesis using Some ch [of ?f] ys(3) u(1) ys(4) by simp
qed

lemma Replace_ok:
  assumes "plain_type T" and "dict_ok T d" and "unat (used d) < 2 ^ 29"
  shows "\<exists>d'. dictReplace T key val d = Inr (if contents d key = None then 1 else 0, d') \<and> dict_ok T d' \<and>
    contents d' = (contents d)(key \<mapsto> val) \<and> unat (used d') \<le> Suc (unat (used d))"
proof -
  obtain d1 where d1: "dictAdd T key val d = Inr (if contents d key = None then DICT_OK else DICT_ERR, d1)" "dict_ok T d1"
    "contents d1 = (if contents d key = None then (contents d)(key \<mapsto> val) else contents d)"
    "contents d key \<noteq> None \<longrightarrow> size_of d1 \<noteq> 0" "unat (used d1) \<le> Suc (unat (used d))"
    using Add_ok [OF assms] by blast
  show ?thesis
  proof (cases "contents d key")
    case None
    then show ?thesis using d1 by (simp add: dictReplace_def)
  next
    case (Some v)
    then have s: "contents d1 key = Some v" "size_of d1 \<noteq> 0" "contents d1 = contents d" using d1 by auto
    let ?h = "slot T (sizemask d1) key"
    let ?c = "set_in_chain T key val (table d1 ! ?h)"
    note c = chain_facts [OF d1(2) s(2) refl, of key]
    have v: "map_of (table d1 ! ?h) key = Some v" using c(2) s(1) by simp
    obtain ys where ys: "mset (concat (table d1)) = add_mset (key, v) (mset ys)" "distinct (map fst ys)" "key \<notin> fst ` set ys"
      "map_of ys = (contents d1)(key := None)" "unat (used d1) = Suc (length ys)"
      using without_key [OF d1(2) s(1)] by blast
    have m: "mset ((key, val) # ys) + mset (table d1 ! ?h) = mset (concat (table d1)) + mset ?c"
      using ys(1) unlink_mset [OF assms(1) v] set_in_chain_mset [OF assms(1) v, of val] by simp
    have k: "\<forall>e \<in> set ?c. slot T (sizemask d1) (fst e) = ?h"
      using c(3) set_in_chain_keys by (metis (no_types, lifting) imageE imageI)
    have "distinct (map fst ((key, val) # ys))" using ys(2,3) by simp
    moreover have "unat (used d1) = length ((key, val) # ys)" "used d1 \<le> size_of d1" using ys(5) d1(2) by (simp_all add: dict_ok_def)
    ultimately have ch: "dict_ok T (d1\<lparr>table := (table d1)[?h := ?c], used := used d1, freed := f\<rparr>)"
      "contents (d1\<lparr>table := (table d1)[?h := ?c], used := used d1, freed := f\<rparr>) = map_of ((key, val) # ys)" for f
      using change_chain [OF d1(2) c(1) k, of "(key, val) # ys" "used d1" f] m by simp_all
    let ?f = "freed d1 @ (if valDestructor T then [Freed_val v] else [])"
    have "dictReplace T key val d = Inr (0, d1\<lparr>table := (table d1)[?h := ?c], used := used d1, freed := ?f\<rparr>)"
      using d1(1) Some s Find_contents [OF assms(1) d1(2), of key] assms(1)
      by (simp add: dictReplace_def DICT_OK_def DICT_ERR_def Let_def dictFreeEntryVal_def plain_type_def)
    moreover have "map_of ((key, val) # ys) = (contents d)(key \<mapsto> val)" using ys(4) s(3) by simp
    ultimately show ?thesis using Some ch [of ?f] d1(5) by simp
  qed
qed


section \<open>Iterating and clearing\<close>

definition entries_left :: "('k, 'v) dict \<Rightarrow> ('k, 'v) dict_iterator \<Rightarrow> ('k \<times> 'v) list" where
  "entries_left d it = (if it_entry it = [] then [] else it_next it) @ concat (drop (nat (it_index it + 1)) (table d))"

lemma table_size: "dict_ok T d \<Longrightarrow> sint (size_of d) = int (length (table d))"
proof -
  assume d: "dict_ok T d"
  then consider "size_of d = 0" "table d = []" | k where "k \<le> 30" "size_of d = 2 ^ k" "length (table d) = 2 ^ k"
    by (auto simp: dict_ok_def table_ok_def)
  then show ?thesis
  proof cases
    case (2 k)
    then have "(2 :: int) ^ k \<le> 2 ^ 30" by (intro power_increasing) simp_all
    then have "int (2 ^ k) < 2 ^ 31" unfolding of_nat_power of_nat_numeral by (rule le_less_trans) simp
    moreover have "k \<le> 31" using 2(1) by simp
    then have "uint (size_of d) = int (2 ^ k)" unfolding uint_nat 2(2) by (subst unat_pow) simp_all
    ultimately show ?thesis using 2(3) signed_take_bit_int_eq_self [of 31 "2 ^ k"] order_trans [of "- 2147483648" 0 "2 ^ k :: int"]
      by (simp add: sint_uint)
  qed simp
qed

lemma Next_entry:
  "- 1 \<le> it_index it \<Longrightarrow> sint (size_of d) = int (length (table d)) \<Longrightarrow>
     case entries_left d it of
       [] \<Rightarrow> \<exists>it'. dictNext d it = Inr (None, it')
     | e # es \<Rightarrow> \<exists>it'. dictNext d it = Inr (Some e, it') \<and> entries_left d it' = es \<and> - 1 \<le> it_index it'"
proof (induction d it rule: dictNext.induct)
  case (1 d it)
  show ?case
  proof (cases "it_entry it = []")
    case True
    let ?i = "nat (it_index it + 1)"
    show ?thesis
    proof (cases "?i < length (table d)")
      case False
      then have "sint (size_of d) \<le> it_index it + 1" using 1(3,4) by simp
      then show ?thesis using True False by (subst dictNext.simps) (simp add: entries_left_def Let_def)
    next
      case inside: True
      then have run: "dictNext d it = (case table d ! ?i of
            [] \<Rightarrow> dictNext d (it\<lparr>it_index := it_index it + 1, it_entry := []\<rparr>)
          | he # rest \<Rightarrow> Inr (Some he, it\<lparr>it_index := it_index it + 1, it_entry := he # rest, it_next := rest\<rparr>))"
        using True 1(3,4) by (subst dictNext.simps) (auto simp: Let_def chain_at_def not_le nat_less_iff)
      have left: "entries_left d it = table d ! ?i @ concat (drop (Suc ?i) (table d))"
        using True inside by (simp add: entries_left_def Cons_nth_drop_Suc [symmetric])
      have i: "nat (it_index it + 2) = Suc ?i" "nat (2 + it_index it) = Suc ?i" using 1(3) by linarith+
      show ?thesis
      proof (cases "table d ! ?i")
        case Nil
        have "case entries_left d (it\<lparr>it_index := it_index it + 1, it_entry := []\<rparr>) of
            [] \<Rightarrow> \<exists>it'. dictNext d (it\<lparr>it_index := it_index it + 1, it_entry := []\<rparr>) = Inr (None, it')
          | e # es \<Rightarrow> \<exists>it'. dictNext d (it\<lparr>it_index := it_index it + 1, it_entry := []\<rparr>) = Inr (Some e, it') \<and>
              entries_left d it' = es \<and> - 1 \<le> it_index it'"
          using 1(1) [OF True refl] 1(3,4) inside Nil by (auto simp: chain_at_def)
        moreover have "entries_left d (it\<lparr>it_index := it_index it + 1, it_entry := []\<rparr>) = concat (drop (Suc ?i) (table d))"
          by (simp add: entries_left_def i)
        ultimately show ?thesis using run left Nil by (cases "concat (drop (Suc ?i) (table d))") simp_all
      next
        case (Cons he rest)
        then show ?thesis using run left i 1(3) by (simp add: entries_left_def)
      qed
    qed
  next
    case False
    show ?thesis
    proof (cases "it_next it")
      case Nil
      then have "dictNext d it = dictNext d (it\<lparr>it_entry := []\<rparr>)" using False by (subst dictNext.simps) simp
      moreover have "entries_left d it = entries_left d (it\<lparr>it_entry := []\<rparr>)" using Nil by (simp add: entries_left_def)
      ultimately show ?thesis using 1(2) [OF False Nil] 1(3,4)
        by (cases "entries_left d (it\<lparr>it_entry := []\<rparr>)") simp_all
    next
      case (Cons he rest)
      then have "dictNext d it = Inr (Some he, it\<lparr>it_entry := he # rest, it_next := rest\<rparr>)"
        using False by (subst dictNext.simps) simp
      then show ?thesis using False Cons 1(3) by (simp add: entries_left_def)
    qed
  qed
qed

text \<open>The entries an iterator hands out until it is at the end, at most \<open>n\<close>.\<close>

fun next_entries :: "nat \<Rightarrow> ('k, 'v) dict \<Rightarrow> ('k, 'v) dict_iterator \<Rightarrow> ('k \<times> 'v) list res" where
  "next_entries 0 d it = Inr []"
| "next_entries (Suc n) d it =
     rbind (dictNext d it) (\<lambda>(e, it).
       case e of None \<Rightarrow> Inr [] | Some e \<Rightarrow> rbind (next_entries n d it) (\<lambda>es. Inr (e # es)))"

lemma next_entries_left:
  "- 1 \<le> it_index it \<Longrightarrow> dict_ok T d \<Longrightarrow> length (entries_left d it) \<le> n \<Longrightarrow> next_entries n d it = Inr (entries_left d it)"
proof (induction n arbitrary: it)
  case (Suc n)
  then show ?case using Next_entry [of it d] table_size [of T d] by (cases "entries_left d it") auto
qed simp

lemma iterator_entries:
  assumes "dict_ok T d" and "length (concat (table d)) \<le> n"
  shows "next_entries n d dictGetIterator = Inr (concat (table d))"
proof -
  have "entries_left d dictGetIterator = concat (table d)" by (simp add: entries_left_def dictGetIterator_def)
  then show ?thesis using next_entries_left [of dictGetIterator T d n] assms by (simp add: dictGetIterator_def)
qed

lemma reset_ok: "dict_ok T (dictReset d)" "contents (dictReset d) = Map.empty" "used (dictReset d) = 0"
  by (simp_all add: dict_ok_def table_ok_def dictReset_def placed_def contents_def)

definition frees :: "('k, 'v) dict_type \<Rightarrow> 'k \<times> 'v \<Rightarrow> ('k, 'v) freed list" where
  "frees T e = (if keyDestructor T then [Freed_key (fst e)] else []) @ (if valDestructor T then [Freed_val (snd e)] else [])"

lemma clear_chain:
  "length b \<le> unat (used d) \<Longrightarrow>
   let d' = fold (\<lambda>he d. (dictFreeEntryVal T he (dictFreeEntryKey T he d))\<lparr>used := used d - 1\<rparr>) b d
   in freed d' = freed d @ concat (map (frees T) b) \<and> unat (used d') = unat (used d) - length b"
proof (induction b arbitrary: d)
  case (Cons he b)
  let ?d = "(dictFreeEntryVal T he (dictFreeEntryKey T he d))\<lparr>used := used d - 1\<rparr>"
  have "used d \<noteq> 0" using Cons.prems by auto
  then have u: "unat (used ?d) = unat (used d) - 1" by (simp add: unat_minus_one)
  have f: "freed ?d = freed d @ frees T he" by (simp add: frees_def dictFreeEntryVal_def dictFreeEntryKey_def)
  show ?case using Cons.IH [of ?d] Cons.prems u f by (simp add: Let_def)
qed simp

lemma clear_chains_frees:
  "length (concat bs) = unat (used d) \<Longrightarrow> freed (clear_chains T bs d) = freed d @ concat (map (frees T) (concat bs))"
proof (induction bs arbitrary: d)
  case (Cons b bs)
  show ?case
  proof (cases "0 < used d")
    case True
    then show ?thesis using Cons.IH clear_chain [of b d T] Cons.prems by (simp add: Let_def)
  next
    case False
    then have "used d = 0" by (simp add: word_gt_0)
    then have "concat (b # bs) = []" using Cons.prems by simp
    then show ?thesis using \<open>used d = 0\<close> by (metis append_Nil2 clear_chains.simps(2) concat.simps(1) list.simps(8) word_gt_0)
  qed
qed simp

lemma dictClear_ok:
  assumes "dict_ok T d"
  shows "dict_ok T (dictClear T d)" "contents (dictClear T d) = Map.empty" "used (dictClear T d) = 0"
    "freed (dictClear T d) = freed d @ concat (map (frees T) (concat (table d)))"
  using reset_ok clear_chains_frees [of "table d" d T] assms
  by (auto simp: dictClear_def dict_ok_def) (simp_all add: dictReset_def)


section \<open>A table and a map\<close>

text \<open>Operations in any order, with what they return.\<close>

datatype ('k, 'v) dict_op = Op_add 'k 'v | Op_replace 'k 'v | Op_delete 'k | Op_find 'k | Op_clear

datatype 'v dict_out = Out_status int | Out_value "'v option"

fun dict_step :: "('k, 'v) dict_type \<Rightarrow> ('k, 'v) dict_op \<Rightarrow> ('k, 'v) dict \<Rightarrow> ('v dict_out \<times> ('k, 'v) dict) res" where
  "dict_step T (Op_add k v) d = rbind (dictAdd T k v d) (\<lambda>(st, d). Inr (Out_status st, d))"
| "dict_step T (Op_replace k v) d = rbind (dictReplace T k v d) (\<lambda>(st, d). Inr (Out_status st, d))"
| "dict_step T (Op_delete k) d = rbind (dictDelete T k d) (\<lambda>(st, d). Inr (Out_status st, d))"
| "dict_step T (Op_find k) d = rbind (dictFind T k d) (\<lambda>e. Inr (Out_value (map_option snd e), d))"
| "dict_step T Op_clear d = Inr (Out_status DICT_OK, dictClear T d)"

fun map_step :: "('k, 'v) dict_op \<Rightarrow> ('k \<Rightarrow> 'v option) \<Rightarrow> 'v dict_out \<times> ('k \<Rightarrow> 'v option)" where
  "map_step (Op_add k v) m = (if m k = None then (Out_status DICT_OK, m(k \<mapsto> v)) else (Out_status DICT_ERR, m))"
| "map_step (Op_replace k v) m = (Out_status (if m k = None then 1 else 0), m(k \<mapsto> v))"
| "map_step (Op_delete k) m = (Out_status (if m k = None then DICT_ERR else DICT_OK), m(k := None))"
| "map_step (Op_find k) m = (Out_value (m k), m)"
| "map_step Op_clear m = (Out_status DICT_OK, Map.empty)"

fun dict_run :: "('k, 'v) dict_type \<Rightarrow> ('k, 'v) dict_op list \<Rightarrow> ('k, 'v) dict \<Rightarrow> ('v dict_out list \<times> ('k, 'v) dict) res" where
  "dict_run T [] d = Inr ([], d)"
| "dict_run T (x # ops) d =
     rbind (dict_step T x d) (\<lambda>(out, d). rbind (dict_run T ops d) (\<lambda>(outs, d). Inr (out # outs, d)))"

fun map_run :: "('k, 'v) dict_op list \<Rightarrow> ('k \<Rightarrow> 'v option) \<Rightarrow> 'v dict_out list \<times> ('k \<Rightarrow> 'v option)" where
  "map_run [] m = ([], m)"
| "map_run (x # ops) m =
     (let (out, m) = map_step x m; (outs, m) = map_run ops m in (out # outs, m))"

lemma dict_step_refines:
  assumes "plain_type T" and "dict_ok T d" and "unat (used d) < 2 ^ 29"
  shows "\<exists>d'. dict_step T x d = Inr (fst (map_step x (contents d)), d') \<and> dict_ok T d' \<and>
    contents d' = snd (map_step x (contents d)) \<and> unat (used d') \<le> Suc (unat (used d))"
proof (cases x)
  case (Op_add k v)
  then show ?thesis using Add_ok [OF assms, of k v] by (auto split: if_splits)
next
  case (Op_replace k v)
  then show ?thesis using Replace_ok [OF assms, of k v] by (auto split: if_splits)
next
  case (Op_delete k)
  then show ?thesis using Delete_ok [OF assms(1,2), of k] by (auto split: if_splits intro: le_SucI)
next
  case (Op_find k)
  then show ?thesis using Find_contents [OF assms(1,2), of k] assms(2) by (simp add: option.map_comp comp_def option.map_ident)
next
  case Op_clear
  then show ?thesis using dictClear_ok [OF assms(2)] by simp
qed

lemma dict_run_refines:
  "plain_type T \<Longrightarrow> dict_ok T d \<Longrightarrow> unat (used d) + length ops < 2 ^ 29 \<Longrightarrow>
     \<exists>d'. dict_run T ops d = Inr (fst (map_run ops (contents d)), d') \<and> dict_ok T d' \<and>
       contents d' = snd (map_run ops (contents d))"
proof (induction ops arbitrary: d)
  case (Cons x ops)
  obtain d1 where d1: "dict_step T x d = Inr (fst (map_step x (contents d)), d1)" "dict_ok T d1"
    "contents d1 = snd (map_step x (contents d))" "unat (used d1) \<le> Suc (unat (used d))"
    using dict_step_refines [OF Cons.prems(1,2), of x] Cons.prems(3) by auto
  then show ?case using Cons.IH [OF Cons.prems(1) d1(2)] Cons.prems(3)
    by (auto simp: Let_def split: prod.splits)
qed simp

text \<open>
  C36. A table is a map. From an empty table, any sequence of fewer than 2 to the 29 additions,
  replacements, deletions, look-ups and clearings returns what the same operations return on a
  map, whatever the hash function is, and never leaves the table; an iterator over the table that
  results hands out each entry of that map exactly once; and the table's size is a power of two
  not less than the number of its entries.
\<close>

theorem dict_is_a_map:
  fixes T :: "('k, 'v) dict_type"
  assumes "plain_type T" and "length ops < 2 ^ 29"
  shows "\<exists>d es. dict_run T ops dictCreate = Inr (fst (map_run ops Map.empty), d) \<and>
    next_entries (unat (used d)) d dictGetIterator = Inr es \<and> distinct (map fst es) \<and>
    map_of es = snd (map_run ops Map.empty) \<and> length es = unat (used d) \<and>
    unat (used d) \<le> unat (size_of d) \<and> (size_of d = 0 \<or> (\<exists>k. size_of d = 2 ^ k))"
proof -
  let ?d = "dictCreate :: ('k, 'v) dict"
  have c: "dict_ok T ?d" "contents ?d = Map.empty" "used ?d = 0"
    unfolding dictCreate_def by (rule reset_ok)+
  have "unat (used ?d) + length ops < 2 ^ 29" using c(3) assms(2) by simp
  from dict_run_refines [OF assms(1) c(1) this, unfolded c(2)] obtain d where
    d: "dict_run T ops dictCreate = Inr (fst (map_run ops Map.empty), d)" "dict_ok T d"
      "contents d = snd (map_run ops Map.empty)"
    by (elim exE conjE)
  have "next_entries (unat (used d)) d dictGetIterator = Inr (concat (table d))"
    using iterator_entries [OF d(2)] d(2) by (simp add: dict_ok_def)
  moreover have "unat (used d) \<le> unat (size_of d)" using d(2) by (simp add: dict_ok_def word_le_nat_alt)
  moreover have "size_of d = 0 \<or> (\<exists>k. size_of d = 2 ^ k)" using d(2) unfolding dict_ok_def table_ok_def by blast
  ultimately show ?thesis using d unfolding dict_ok_def contents_def by (intro exI [of _ d] exI [of _ "concat (table d)"]) simp
qed

definition text_type :: "(string, nat) dict_type" where
  "text_type = \<lparr> hashFunction = (\<lambda>k. dictGenHashFunction k 5381), keyDup = None, valDup = None,
     keyCompare = None, keyDestructor = True, valDestructor = True \<rparr>"

theorem dict_is_a_map_witness:
  "\<exists>d es. dict_run text_type [Op_add ''a'' 1, Op_add ''b'' 2, Op_add ''a'' 3, Op_replace ''b'' 4, Op_delete ''a'', Op_find ''b''] dictCreate =
      Inr ([Out_status DICT_OK, Out_status DICT_OK, Out_status DICT_ERR, Out_status 0, Out_status DICT_OK, Out_value (Some 4)], d) \<and>
    next_entries (unat (used d)) d dictGetIterator = Inr es \<and> map_of es = [''b'' \<mapsto> 4]"
proof -
  let ?ops = "[Op_add ''a'' 1, Op_add ''b'' 2, Op_add ''a'' 3, Op_replace ''b'' 4, Op_delete ''a'', Op_find ''b'']"
  have "plain_type text_type" by (simp add: plain_type_def text_type_def dictCompareHashKeys_def dup_def)
  moreover have "map_run ?ops Map.empty =
      ([Out_status DICT_OK, Out_status DICT_OK, Out_status DICT_ERR, Out_status 0, Out_status DICT_OK, Out_value (Some (4 :: nat))],
       [''b'' \<mapsto> 4])"
    by (simp add: fun_eq_iff)
  ultimately show ?thesis using dict_is_a_map [of text_type ?ops] by auto
qed

end
