(* ===== verification/Redis_Async.thy ===== *)
theory Redis_Async
  imports Redis_Client Hiredis_Dict
begin

text \<open>
  \<open>DataHandle/hiredis_win/async.*\<close>: a connection that never waits. Every command has a callback,
  which an event library's calls of \<open>redisAsyncHandleRead\<close> and \<open>redisAsyncHandleWrite\<close> lead to.
  The program's callbacks are a parameter: each is a tree of calls of this interface, every one
  chosen by what those before returned. The callbacks of a connection's start and end are given
  a constant context and make no calls. The callbacks do not call the handlers of the event library.
\<close>

section \<open>The context\<close>

record redis_callback =
  cb_fn :: "nat option"
  cb_privdata :: nat

text \<open>What a callback may call of this interface, with \<open>argv\<close> or with a format, and a callback's run.\<close>

datatype async_call =
    Call_command redis_callback "(string \<times> nat option) list"
  | Call_format redis_callback string "va_arg list"
  | Call_disconnect
  | Call_free

datatype 'u act = Return 'u | Call async_call "int \<Rightarrow> 'u act"

text \<open>
  The program: the reply callbacks, by their function and private data, on the reply or null and
  the error of the context; the callbacks on a status; and its C library's \<open>vsnprintf\<close>.
\<close>

record 'u program =
  p_reply :: "nat \<Rightarrow> nat \<Rightarrow> reply_obj option \<Rightarrow> int \<Rightarrow> 'u \<Rightarrow> 'u act"
  p_status :: "nat \<Rightarrow> int \<Rightarrow> int \<Rightarrow> 'u \<Rightarrow> 'u"
  p_vprintf :: "string \<Rightarrow> va_arg list \<Rightarrow> string"

datatype async_hook = AddRead | DelRead | AddWrite | DelWrite | Cleanup

text \<open>
  \<open>a_net\<close> holds the regular context \<open>c\<close> with the error number of \<open>net.c\<close> and the system; \<open>errstr\<close>
  is null or points to the text of \<open>c\<close>. The last five fields are kept by the model: the calls of the
  event library's hooks, whether the context is freed, the callbacks put into \<open>replies\<close>, those taken from
  there with what they are for, and the calls of reply callbacks.
\<close>

record ('s, 'u) async =
  a_net :: "'s net"
  a_user :: 'u
  ac_err :: int
  ac_errstr :: bool
  ac_hooks :: "async_hook \<Rightarrow> bool"
  onConnect :: "nat option"
  onDisconnect :: "nat option"
  ac_replies :: "redis_callback list"
  sub_invalid :: "redis_callback list"
  sub_channels :: "(string, redis_callback) dict"
  sub_patterns :: "(string, redis_callback) dict"
  hook_calls :: "async_hook list"
  a_freed :: bool
  accepted :: "redis_callback list"
  taken_cbs :: "(redis_callback \<times> reply_obj option) list"
  called :: "(redis_callback \<times> reply_obj option) list"

abbreviation ctx :: "('s, 'u) async \<Rightarrow> redis_context" where "ctx m \<equiv> n_c (a_net m)"

definition on_c :: "(redis_context \<Rightarrow> redis_context) \<Rightarrow> ('s, 'u) async \<Rightarrow> ('s, 'u) async" where
  "on_c f m = m\<lparr>a_net := on_context f (a_net m)\<rparr>"

text \<open>The context and the system after a function of \<open>hiredis.c\<close>.\<close>

definition with_ctx :: "redis_context \<Rightarrow> 's \<Rightarrow> ('s, 'u) async \<Rightarrow> ('s, 'u) async" where
  "with_ctx c s m = m\<lparr>a_net := (a_net m)\<lparr>n_c := c, n_sys := s\<rparr>\<rparr>"

text \<open>\<open>_EL_ADD_READ\<close> and so on: a hook is called when it is set.\<close>

definition el_call :: "async_hook \<Rightarrow> ('s, 'u) async \<Rightarrow> ('s, 'u) async" where
  "el_call h m = (if ac_hooks m h then m\<lparr>hook_calls := hook_calls m @ [h]\<rparr> else m)"

definition callbackHash :: "string \<Rightarrow> u32" where "callbackHash key = dictGenHashFunction key 5381"

definition callbackValDup :: "redis_callback \<Rightarrow> redis_callback" where "callbackValDup src = src"

definition callbackKeyCompare :: "string \<Rightarrow> string \<Rightarrow> bool" where
  "callbackKeyCompare key1 key2 =
     (let l1 = length key1; l2 = length key2
      in if l1 \<noteq> l2 then False else take l1 key1 = take l1 key2)"

definition callbackDict :: "(string, redis_callback) dict_type" where
  "callbackDict = \<lparr> hashFunction = callbackHash, keyDup = None, valDup = Some callbackValDup,
     keyCompare = Some callbackKeyCompare, keyDestructor = True, valDestructor = True \<rparr>"

definition redisAsyncInitialize :: "'u \<Rightarrow> 's net \<Rightarrow> ('s, 'u) async" where
  "redisAsyncInitialize u n =
     \<lparr> a_net = on_context (clear_flag REDIS_CONNECTED) n, a_user = u, ac_err = 0, ac_errstr = False,
       ac_hooks = (\<lambda>h. False), onConnect = None, onDisconnect = None, ac_replies = [], sub_invalid = [],
       sub_channels = dictCreate, sub_patterns = dictCreate, hook_calls = [], a_freed = False,
       accepted = [], taken_cbs = [], called = [] \<rparr>"

definition redisAsyncCopyError :: "('s, 'u) async \<Rightarrow> ('s, 'u) async" where
  "redisAsyncCopyError m = m\<lparr>ac_err := c_err (ctx m), ac_errstr := True\<rparr>"

definition redisAsyncConnect :: "'s winsock \<Rightarrow> string \<Rightarrow> int \<Rightarrow> int \<Rightarrow> 's \<Rightarrow> 'u \<Rightarrow> ('s, 'u) async res" where
  "redisAsyncConnect A ip port eno s u =
     rbind (redisConnectNonBlock A ip port eno s) (\<lambda>n. Inr (redisAsyncCopyError (redisAsyncInitialize u n)))"

definition redisAsyncSetConnectCallback :: "nat option \<Rightarrow> ('s, 'u) async \<Rightarrow> int \<times> ('s, 'u) async" where
  "redisAsyncSetConnectCallback fn m =
     (if onConnect m = None then (REDIS_OK, el_call AddWrite (m\<lparr>onConnect := fn\<rparr>)) else (REDIS_ERR, m))"

definition redisAsyncSetDisconnectCallback :: "nat option \<Rightarrow> ('s, 'u) async \<Rightarrow> int \<times> ('s, 'u) async" where
  "redisAsyncSetDisconnectCallback fn m =
     (if onDisconnect m = None then (REDIS_OK, m\<lparr>onDisconnect := fn\<rparr>) else (REDIS_ERR, m))"

definition redisPushCallback :: "redis_callback \<Rightarrow> redis_callback list \<Rightarrow> redis_callback list" where
  "redisPushCallback src l = l @ [src]"

text \<open>The callback taken, and the list without it.\<close>

definition redisShiftCallback :: "redis_callback list \<Rightarrow> (redis_callback \<times> redis_callback list) option" where
  "redisShiftCallback l = (case l of [] \<Rightarrow> None | cb # l \<Rightarrow> Some (cb, l))"

definition shift_reply :: "reply_obj option \<Rightarrow> ('s, 'u) async \<Rightarrow> (redis_callback \<times> ('s, 'u) async) option" where
  "shift_reply r m =
     (case redisShiftCallback (ac_replies m) of
        None \<Rightarrow> None
      | Some (cb, l) \<Rightarrow> Some (cb, m\<lparr>ac_replies := l, taken_cbs := taken_cbs m @ [(cb, r)]\<rparr>))"


section \<open>Commands\<close>

fun strchr :: "char \<Rightarrow> string \<Rightarrow> string option" where
  "strchr c [] = None"
| "strchr c (x # t) = (if x = c then Some (x # t) else if x = NUL then None else strchr c t)"

text \<open>The case is ignored, and the second text has no NUL.\<close>

definition strncasecmp_eq :: "string \<Rightarrow> string \<Rightarrow> bool" where
  "strncasecmp_eq s lit \<longleftrightarrow> map c_tolower (take (length lit) s) = map c_tolower lit"

text \<open>
  A pointer into the command is the text from there on, which a NUL follows. The argument's text
  and length and the rest, or null; a \<open>long\<close> has 32 bits on Windows.
\<close>

definition nextArgument :: "string \<Rightarrow> (string \<times> nat \<times> string) option res" where
  "nextArgument start =
     (case (if start \<noteq> [] \<and> hd start = CHR ''$'' then Some start else strchr (CHR ''$'') start) of
        None \<Rightarrow> Inr None
      | Some p \<Rightarrow>
          (let len = atoi (tl p)
           in case strchr CR p of
                None \<Rightarrow> Inl Assert_fail
              | Some p \<Rightarrow>
                  if len < 0 \<or> length p < 2 + nat len + 2 then Inl Out_of_range
                  else Inr (Some (drop 2 p, nat len, drop (2 + nat len + 2) p))))"

definition subs :: "bool \<Rightarrow> ('s, 'u) async \<Rightarrow> (string, redis_callback) dict" where
  "subs pvariant m = (if pvariant then sub_patterns m else sub_channels m)"

definition set_subs :: "bool \<Rightarrow> (string, redis_callback) dict \<Rightarrow> ('s, 'u) async \<Rightarrow> ('s, 'u) async" where
  "set_subs pvariant d m = (if pvariant then m\<lparr>sub_patterns := d\<rparr> else m\<lparr>sub_channels := d\<rparr>)"

lemma strchr_suffix: "strchr c s = Some t \<Longrightarrow> length t \<le> length s"
  by (induction c s rule: strchr.induct) (auto split: if_splits)

lemma nextArgument_shorter:
  "nextArgument p = Inr (Some (a, n, p')) \<Longrightarrow> length p' < length p"
  using strchr_suffix by (auto simp: nextArgument_def Let_def split: option.splits if_splits) (fastforce dest!: strchr_suffix)+

function subscribe_args ::
    "bool \<Rightarrow> redis_callback \<Rightarrow> string \<Rightarrow> (string, redis_callback) dict \<Rightarrow> (string, redis_callback) dict res" where
  "subscribe_args pvariant cb p d =
     (case nextArgument p of
        Inl e \<Rightarrow> Inl e
      | Inr None \<Rightarrow> Inr d
      | Inr (Some (astr, alen, p)) \<Rightarrow>
          (let sname = take alen astr
           in case dictReplace callbackDict sname cb d of
                Inl e \<Rightarrow> Inl e
              | Inr (_, d) \<Rightarrow> subscribe_args pvariant cb p d))"
  by pat_completeness auto
termination
  by (relation "measure (\<lambda>(v, cb, p, d). length p)") (auto dest: nextArgument_shorter)

declare subscribe_args.simps [simp del]

text \<open>The text is the command with the NUL behind it left out; \<open>len\<close> is its length.\<close>

definition redisAsyncCommand_raw ::
    "redis_callback \<Rightarrow> string \<Rightarrow> nat \<Rightarrow> ('s, 'u) async \<Rightarrow> (int \<times> ('s, 'u) async) res" where
  "redisAsyncCommand_raw cb cmd len m =
     (if has_flag (REDIS_DISCONNECTING OR REDIS_FREEING) (ctx m) then Inr (REDIS_ERR, m)
      else rbind (nextArgument cmd) (\<lambda>arg.
        case arg of
          None \<Rightarrow> Inl Assert_fail
        | Some (cstr, clen, p) \<Rightarrow>
            (let hasnext = (p \<noteq> [] \<and> hd p = CHR ''$'');
                 pvariant = (cstr \<noteq> [] \<and> c_tolower (hd cstr) = CHR ''p'');
                 cstr = (if pvariant then tl cstr else cstr)
             in rbind
                  (if hasnext \<and> strncasecmp_eq cstr (''subscribe'' @ [CR, LF])
                   then let m = on_c (set_flag REDIS_SUBSCRIBED) m
                        in rbind (subscribe_args pvariant cb p (subs pvariant m)) (\<lambda>d.
                             Inr (REDIS_OK, set_subs pvariant d m))
                   else if strncasecmp_eq cstr (''unsubscribe'' @ [CR, LF])
                   then Inr (if \<not> has_flag REDIS_SUBSCRIBED (ctx m) then REDIS_ERR else REDIS_OK, m)
                   else if has_flag REDIS_SUBSCRIBED (ctx m)
                   then Inr (REDIS_OK, m\<lparr>sub_invalid := redisPushCallback cb (sub_invalid m)\<rparr>)
                   else Inr (REDIS_OK, m\<lparr>ac_replies := redisPushCallback cb (ac_replies m), accepted := accepted m @ [cb]\<rparr>))
                  (\<lambda>(st, m).
                     if st = REDIS_ERR then Inr (REDIS_ERR, m)
                     else Inr (REDIS_OK, el_call AddWrite (on_c (redisAppendCommand_raw (take len cmd)) m))))))"

definition redisvAsyncCommand ::
    "'u program \<Rightarrow> redis_callback \<Rightarrow> string \<Rightarrow> va_arg list \<Rightarrow> ('s, 'u) async \<Rightarrow> (int \<times> ('s, 'u) async) res" where
  "redisvAsyncCommand P cb format ap m =
     rbind (redisvFormatCommand (p_vprintf P) format ap) (\<lambda>(cmd, len). redisAsyncCommand_raw cb cmd len m)"

definition redisAsyncCommandArgv ::
    "redis_callback \<Rightarrow> (string \<times> nat option) list \<Rightarrow> ('s, 'u) async \<Rightarrow> (int \<times> ('s, 'u) async) res" where
  "redisAsyncCommandArgv cb argv m =
     rbind (redisFormatCommandArgv argv) (\<lambda>(cmd, len). redisAsyncCommand_raw cb cmd len m)"


section \<open>Callbacks\<close>

text \<open>
  \<open>redisAsyncFree\<close> and \<open>redisAsyncDisconnect\<close> first set a flag, and inside a callback do nothing
  else.
\<close>

definition request_free :: "('s, 'u) async \<Rightarrow> ('s, 'u) async" where
  "request_free = on_c (set_flag REDIS_FREEING)"

definition request_disconnect :: "('s, 'u) async \<Rightarrow> ('s, 'u) async" where
  "request_disconnect = on_c (set_flag REDIS_DISCONNECTING)"

fun call_in_callback :: "'u program \<Rightarrow> async_call \<Rightarrow> ('s, 'u) async \<Rightarrow> (int \<times> ('s, 'u) async) res" where
  "call_in_callback P (Call_command cb argv) m = redisAsyncCommandArgv cb argv m"
| "call_in_callback P (Call_format cb format ap) m = redisvAsyncCommand P cb format ap m"
| "call_in_callback P Call_disconnect m = Inr (REDIS_OK, request_disconnect m)"
| "call_in_callback P Call_free m = Inr (REDIS_OK, request_free m)"

primrec run_act :: "'u program \<Rightarrow> 'u act \<Rightarrow> ('s, 'u) async \<Rightarrow> ('s, 'u) async res" where
  "run_act P (Return u) m = Inr (m\<lparr>a_user := u\<rparr>)"
| "run_act P (Call x k) m = rbind (call_in_callback P x m) (\<lambda>(st, m). run_act P (k st) m)"

definition redisRunCallback ::
    "'u program \<Rightarrow> redis_callback \<Rightarrow> reply_obj option \<Rightarrow> ('s, 'u) async \<Rightarrow> ('s, 'u) async res" where
  "redisRunCallback P cb reply m =
     (case cb_fn cb of
        None \<Rightarrow> Inr m
      | Some fn \<Rightarrow>
          (let m = on_c (set_flag REDIS_IN_CALLBACK) m;
               m = m\<lparr>called := called m @ [(cb, reply)]\<rparr>
           in rbind (run_act P (p_reply P fn (cb_privdata cb) reply (ac_err m) (a_user m)) m) (\<lambda>m.
                Inr (on_c (clear_flag REDIS_IN_CALLBACK) m))))"

definition run_status :: "'u program \<Rightarrow> nat option \<Rightarrow> int \<Rightarrow> ('s, 'u) async \<Rightarrow> ('s, 'u) async" where
  "run_status P fn st m = (case fn of None \<Rightarrow> m | Some f \<Rightarrow> m\<lparr>a_user := p_status P f st (ac_err m) (a_user m)\<rparr>)"


section \<open>Freeing\<close>

definition obind :: "'a res option \<Rightarrow> ('a \<Rightarrow> 'b res option) \<Rightarrow> 'b res option" where
  "obind x f = (case x of None \<Rightarrow> None | Some (Inl e) \<Rightarrow> Some (Inl e) | Some (Inr v) \<Rightarrow> f v)"

lemma obind_simps [simp]:
  "obind None f = None" "obind (Some (Inl e)) f = Some (Inl e)" "obind (Some (Inr v)) f = f v"
  by (simp_all add: obind_def)

partial_function (option) run_replies :: "'u program \<Rightarrow> ('s, 'u) async \<Rightarrow> ('s, 'u) async res option" where
  "run_replies P m =
     (case shift_reply None m of
        None \<Rightarrow> Some (Inr m)
      | Some (cb, m) \<Rightarrow>
          (case redisRunCallback P cb None m of Inl e \<Rightarrow> Some (Inl e) | Inr m \<Rightarrow> run_replies P m))"

partial_function (option) run_invalid :: "'u program \<Rightarrow> ('s, 'u) async \<Rightarrow> ('s, 'u) async res option" where
  "run_invalid P m =
     (case redisShiftCallback (sub_invalid m) of
        None \<Rightarrow> Some (Inr m)
      | Some (cb, l) \<Rightarrow>
          (case redisRunCallback P cb None (m\<lparr>sub_invalid := l\<rparr>) of Inl e \<Rightarrow> Some (Inl e) | Inr m \<Rightarrow> run_invalid P m))"

partial_function (option) run_subs ::
    "'u program \<Rightarrow> bool \<Rightarrow> (string, redis_callback) dict_iterator \<Rightarrow> ('s, 'u) async \<Rightarrow> ('s, 'u) async res option" where
  "run_subs P pvariant it m =
     (case dictNext (subs pvariant m) it of
        Inl e \<Rightarrow> Some (Inl e)
      | Inr (None, _) \<Rightarrow> Some (Inr m)
      | Inr (Some de, it) \<Rightarrow>
          (case redisRunCallback P (snd de) None m of
             Inl e \<Rightarrow> Some (Inl e)
           | Inr m \<Rightarrow> run_subs P pvariant it m))"

text \<open>The last part of \<open>__redisAsyncFree\<close>: the callback of the end, and the context itself.\<close>

definition finish_free :: "'s winsock \<Rightarrow> 'u program \<Rightarrow> ('s, 'u) async \<Rightarrow> ('s, 'u) async" where
  "finish_free A P m =
     (let m = el_call Cleanup m;
          m = (if onDisconnect m \<noteq> None \<and> has_flag REDIS_CONNECTED (ctx m)
               then if has_flag REDIS_FREEING (ctx m) then run_status P (onDisconnect m) REDIS_OK m
                    else run_status P (onDisconnect m) (if ac_err m = 0 then REDIS_OK else REDIS_ERR) m
               else m)
      in m\<lparr>a_net := (a_net m)\<lparr>n_sys := redisFree A (ctx m) (n_sys (a_net m))\<rparr>, a_freed := True\<rparr>)"

definition redisAsyncFree_raw :: "'s winsock \<Rightarrow> 'u program \<Rightarrow> ('s, 'u) async \<Rightarrow> ('s, 'u) async res option" where
  "redisAsyncFree_raw A P m =
     obind (run_replies P m) (\<lambda>m.
     obind (run_invalid P m) (\<lambda>m.
     obind (run_subs P False dictGetIterator m) (\<lambda>m.
       let m = set_subs False (dictClear callbackDict (subs False m)) m
       in obind (run_subs P True dictGetIterator m) (\<lambda>m.
            let m = set_subs True (dictClear callbackDict (subs True m)) m
            in Some (Inr (finish_free A P m))))))"

definition redisAsyncFree :: "'s winsock \<Rightarrow> 'u program \<Rightarrow> ('s, 'u) async \<Rightarrow> ('s, 'u) async res option" where
  "redisAsyncFree A P m =
     (let m = request_free m
      in if \<not> has_flag REDIS_IN_CALLBACK (ctx m) then redisAsyncFree_raw A P m else Some (Inr m))"

definition redisAsyncDisconnect_raw :: "'s winsock \<Rightarrow> 'u program \<Rightarrow> ('s, 'u) async \<Rightarrow> ('s, 'u) async res option" where
  "redisAsyncDisconnect_raw A P m =
     (let m = redisAsyncCopyError m
      in if ac_err m = 0
         then if redisShiftCallback (ac_replies m) = None then redisAsyncFree_raw A P m else Some (Inl Assert_fail)
         else redisAsyncFree_raw A P (on_c (set_flag REDIS_DISCONNECTING) m))"

definition redisAsyncDisconnect :: "'s winsock \<Rightarrow> 'u program \<Rightarrow> ('s, 'u) async \<Rightarrow> ('s, 'u) async res option" where
  "redisAsyncDisconnect A P m =
     (let m = request_disconnect m
      in if \<not> has_flag REDIS_IN_CALLBACK (ctx m) \<and> ac_replies m = [] then redisAsyncDisconnect_raw A P m
         else Some (Inr m))"

text \<open>So inside a callback the calls are what \<open>call_in_callback\<close> says.\<close>

lemma request_in_callback:
  "has_flag REDIS_IN_CALLBACK (ctx (request_free m)) = has_flag REDIS_IN_CALLBACK (ctx m)"
  "has_flag REDIS_IN_CALLBACK (ctx (request_disconnect m)) = has_flag REDIS_IN_CALLBACK (ctx m)"
  by (simp_all add: request_free_def request_disconnect_def on_c_def on_context_def has_flag_def set_flag_def
      redis_flags bit.conj_disj_distrib2)

lemma calls_in_callback:
  assumes "has_flag REDIS_IN_CALLBACK (ctx m)"
  shows "redisAsyncFree A P m = Some (rbind (call_in_callback P Call_free m) (\<lambda>(_, m). Inr m))"
    and "redisAsyncDisconnect A P m = Some (rbind (call_in_callback P Call_disconnect m) (\<lambda>(_, m). Inr m))"
  using assms by (simp_all add: redisAsyncFree_def redisAsyncDisconnect_def request_in_callback Let_def)


section \<open>Replies\<close>

definition element :: "reply_obj option list \<Rightarrow> nat \<Rightarrow> reply_obj res" where
  "element es i =
     (if es = [] then Inl Null_deref
      else if i < length es then (case es ! i of None \<Rightarrow> Inl Null_deref | Some x \<Rightarrow> Inr x)
      else Inl Out_of_range)"

definition text_of :: "reply_obj \<Rightarrow> string res" where
  "text_of x = (case x of Obj_text type s \<Rightarrow> assert_utils (type = REDIS_REPLY_STRING) (Inr s) | _ \<Rightarrow> Inl Assert_fail)"

definition integer_of :: "reply_obj \<Rightarrow> int res" where
  "integer_of x = (case x of Obj_integer i \<Rightarrow> Inr i | _ \<Rightarrow> Inl Assert_fail)"

text \<open>
  \<open>dstcb\<close> keeps what it was when no callback is found. On Windows \<open>strcasecmp\<close> is \<open>strcmp\<close>, and
  the number of elements is compared as a \<open>size_t\<close>.
\<close>

definition redisGetSubscribeCallback ::
    "reply_obj \<Rightarrow> redis_callback option \<Rightarrow> ('s, 'u) async \<Rightarrow> (redis_callback option \<times> ('s, 'u) async) res" where
  "redisGetSubscribeCallback reply dstcb m =
     (case reply of
        Obj_array elements es \<Rightarrow>
          assert_utils (2 \<le> elements \<or> elements < 0)
            (rbind (rbind (element es 0) text_of) (\<lambda>stype.
             let pvariant = (stype \<noteq> [] \<and> c_tolower (hd stype) = CHR ''p'')
             in rbind (rbind (element es 1) text_of) (\<lambda>sname.
                rbind (dictFind callbackDict sname (subs pvariant m)) (\<lambda>de.
                  case de of
                    None \<Rightarrow> Inr (dstcb, m)
                  | Some (_, cb) \<Rightarrow>
                      if Sds.c_str (if pvariant then tl stype else stype) = ''unsubscribe''
                      then rbind (dictDelete callbackDict sname (subs pvariant m)) (\<lambda>(_, d).
                           let m = set_subs pvariant d m
                           in rbind (rbind (element es 2) integer_of) (\<lambda>i.
                                Inr (Some cb, if i = 0 then on_c (clear_flag REDIS_SUBSCRIBED) m else m)))
                      else Inr (Some cb, m)))))
      | _ \<Rightarrow>
          (case redisShiftCallback (sub_invalid m) of
             None \<Rightarrow> Inr (dstcb, m)
           | Some (cb, l) \<Rightarrow> Inr (Some cb, m\<lparr>sub_invalid := l\<rparr>)))"

text \<open>
  The callback for a reply; \<open>True\<close> when the reply is an error of the server that ends the connection.
  The variable \<open>cb\<close> of the loop is \<open>None\<close> as long as it is not written.
\<close>

definition take_callback ::
    "reply_obj \<Rightarrow> redis_callback option \<Rightarrow> ('s, 'u) async \<Rightarrow> (bool \<times> redis_callback option \<times> ('s, 'u) async) res" where
  "take_callback reply cb m =
     (case shift_reply (Some reply) m of
        Some (cb, m) \<Rightarrow> Inr (False, Some cb, m)
      | None \<Rightarrow>
          let found = rbind (redisGetSubscribeCallback reply cb m) (\<lambda>(cb, m). Inr (False, cb, m))
          in if has_flag REDIS_SUBSCRIBED (ctx m) then found
             else (case reply of
                     Obj_text type s \<Rightarrow>
                       if type = REDIS_REPLY_ERROR
                       then sprintf_s 128 (Sds.c_str s) (\<lambda>t.
                              Inr (True, cb, on_c (\<lambda>c. c\<lparr>c_err := REDIS_ERR_OTHER, c_errstr := t\<rparr>) m))
                       else Inl Assert_fail
                   | _ \<Rightarrow> Inl Assert_fail))"

text \<open>One turn of the loop: whether it goes on, and the variable \<open>cb\<close>.\<close>

definition ends :: "redis_callback option \<Rightarrow> ('s, 'u) async res option \<Rightarrow>
    (bool \<times> redis_callback option \<times> ('s, 'u) async) res option" where
  "ends cb x = obind x (\<lambda>m. Some (Inr (False, cb, m)))"

definition run_reply ::
    "'s winsock \<Rightarrow> 'u program \<Rightarrow> reply_obj \<Rightarrow> redis_callback \<Rightarrow> ('s, 'u) async \<Rightarrow>
      (bool \<times> redis_callback option \<times> ('s, 'u) async) res option" where
  "run_reply A P r cb m =
     (if cb_fn cb \<noteq> None
      then obind (Some (redisRunCallback P cb (Some r) m)) (\<lambda>m.
             if has_flag REDIS_FREEING (ctx m) then ends (Some cb) (redisAsyncFree_raw A P m)
             else Some (Inr (True, Some cb, m)))
      else Some (Inr (True, Some cb, m)))"

definition process_reply ::
    "'s winsock \<Rightarrow> 'u program \<Rightarrow> redis_callback option \<Rightarrow> ('s, 'u) async \<Rightarrow>
      (bool \<times> redis_callback option \<times> ('s, 'u) async) res option" where
  "process_reply A P cb m =
     obind (redisGetReply A (ctx m, n_sys (a_net m))) (\<lambda>(st, reply, c, s).
       let m = with_ctx c s m
       in if st \<noteq> REDIS_OK then ends cb (redisAsyncDisconnect_raw A P m)
          else case reply of
                 None \<Rightarrow>
                   if has_flag REDIS_DISCONNECTING (ctx m) \<and> sdslen (c_obuf (ctx m)) = 0
                   then ends cb (redisAsyncDisconnect_raw A P m)
                   else Some (Inr (False, cb, m))
               | Some r \<Rightarrow>
                   obind (Some (take_callback r cb m)) (\<lambda>(closing, cb, m).
                     if closing then ends cb (redisAsyncDisconnect_raw A P m)
                     else case cb of None \<Rightarrow> Some (Inl Uninitialised) | Some cb \<Rightarrow> run_reply A P r cb m))"

partial_function (option) process_callbacks ::
    "'s winsock \<Rightarrow> 'u program \<Rightarrow> redis_callback option \<Rightarrow> ('s, 'u) async \<Rightarrow> ('s, 'u) async res option" where
  "process_callbacks A P cb m =
     (case process_reply A P cb m of
        None \<Rightarrow> None
      | Some (Inl e) \<Rightarrow> Some (Inl e)
      | Some (Inr (again, cb, m)) \<Rightarrow> if again then process_callbacks A P cb m else Some (Inr m))"

definition redisProcessCallbacks :: "'s winsock \<Rightarrow> 'u program \<Rightarrow> ('s, 'u) async \<Rightarrow> ('s, 'u) async res option" where
  "redisProcessCallbacks A P m = process_callbacks A P None m"


section \<open>Events\<close>

definition redisAsyncHandleConnect ::
    "'s winsock \<Rightarrow> 'u program \<Rightarrow> ('s, 'u) async \<Rightarrow> (int \<times> ('s, 'u) async) res option" where
  "redisAsyncHandleConnect A P m =
     (let (st, n) = redisCheckSocketError A (c_fd (ctx m)) (a_net m);
          m = m\<lparr>a_net := n\<rparr>
      in if st = REDIS_ERR
         then if ws_errno A (n_sys n) = EINPROGRESS then Some (Inr (REDIS_OK, m))
              else obind (redisAsyncDisconnect_raw A P (run_status P (onConnect m) REDIS_ERR m)) (\<lambda>m.
                     Some (Inr (REDIS_ERR, m)))
         else let m = on_c (set_flag REDIS_CONNECTED) m
              in Some (Inr (REDIS_OK, run_status P (onConnect m) REDIS_OK m)))"

text \<open>Both handlers start alike: \<open>None\<close> when there is nothing more to do.\<close>

definition when_connected ::
    "'s winsock \<Rightarrow> 'u program \<Rightarrow> (('s, 'u) async \<Rightarrow> ('s, 'u) async res option) \<Rightarrow> ('s, 'u) async \<Rightarrow>
      ('s, 'u) async res option" where
  "when_connected A P k m =
     (if \<not> has_flag REDIS_CONNECTED (ctx m)
      then obind (redisAsyncHandleConnect A P m) (\<lambda>(st, m).
             if st \<noteq> REDIS_OK then Some (Inr m)
             else if \<not> has_flag REDIS_CONNECTED (ctx m) then Some (Inr m)
             else k m)
      else k m)"

definition redisAsyncHandleRead :: "'s winsock \<Rightarrow> 'u program \<Rightarrow> ('s, 'u) async \<Rightarrow> ('s, 'u) async res option" where
  "redisAsyncHandleRead A P =
     when_connected A P (\<lambda>m.
       case redisBufferRead A (ctx m, n_sys (a_net m)) of
         Inl e \<Rightarrow> Some (Inl e)
       | Inr (st, c, s) \<Rightarrow>
           (let m = with_ctx c s m
            in if st = REDIS_ERR then redisAsyncDisconnect_raw A P m
               else redisProcessCallbacks A P (el_call AddRead m)))"

definition redisAsyncHandleWrite :: "'s winsock \<Rightarrow> 'u program \<Rightarrow> ('s, 'u) async \<Rightarrow> ('s, 'u) async res option" where
  "redisAsyncHandleWrite A P =
     when_connected A P (\<lambda>m.
       case redisBufferWrite A (ctx m, n_sys (a_net m)) of
         (st, wdone, c, s) \<Rightarrow>
           (let m = with_ctx c s m
            in if st = REDIS_ERR then redisAsyncDisconnect_raw A P m
               else let m = (if wdone \<noteq> Some True then el_call AddWrite m else el_call DelWrite m)
                    in Some (Inr (el_call AddRead m))))"

declare write_until_done.simps [code] read_until_reply.simps [code] run_replies.simps [code] run_invalid.simps [code]
  run_subs.simps [code] process_callbacks.simps [code]

end
