(* ===== verification/Redis_Callbacks.thy ===== *)
theory Redis_Callbacks
  imports Redis_Async
begin

text \<open>
  Asynchronous connections: what callbacks can change, the freeing of a connection, and
  subscriptions.
\<close>

section \<open>Parts of the context\<close>

lemma on_c_parts [simp]:
  "ctx (on_c f m) = f (ctx m)" "n_sys (a_net (on_c f m)) = n_sys (a_net m)" "errnox (a_net (on_c f m)) = errnox (a_net m)"
  "a_user (on_c f m) = a_user m" "ac_err (on_c f m) = ac_err m" "ac_errstr (on_c f m) = ac_errstr m"
  "ac_hooks (on_c f m) = ac_hooks m" "onConnect (on_c f m) = onConnect m" "onDisconnect (on_c f m) = onDisconnect m"
  "ac_replies (on_c f m) = ac_replies m" "sub_invalid (on_c f m) = sub_invalid m"
  "sub_channels (on_c f m) = sub_channels m" "sub_patterns (on_c f m) = sub_patterns m"
  "hook_calls (on_c f m) = hook_calls m" "a_freed (on_c f m) = a_freed m" "accepted (on_c f m) = accepted m"
  "taken_cbs (on_c f m) = taken_cbs m" "called (on_c f m) = called m"
  by (simp_all add: on_c_def on_context_def)

lemma el_call_parts [simp]:
  "a_net (el_call h m) = a_net m" "a_user (el_call h m) = a_user m" "ac_err (el_call h m) = ac_err m"
  "ac_errstr (el_call h m) = ac_errstr m" "ac_hooks (el_call h m) = ac_hooks m" "onConnect (el_call h m) = onConnect m"
  "onDisconnect (el_call h m) = onDisconnect m" "ac_replies (el_call h m) = ac_replies m"
  "sub_invalid (el_call h m) = sub_invalid m" "sub_channels (el_call h m) = sub_channels m"
  "sub_patterns (el_call h m) = sub_patterns m" "a_freed (el_call h m) = a_freed m" "accepted (el_call h m) = accepted m"
  "taken_cbs (el_call h m) = taken_cbs m" "called (el_call h m) = called m"
  by (simp_all add: el_call_def)

lemma set_subs_parts [simp]:
  "a_net (set_subs v d m) = a_net m" "a_user (set_subs v d m) = a_user m" "ac_err (set_subs v d m) = ac_err m"
  "ac_errstr (set_subs v d m) = ac_errstr m" "ac_hooks (set_subs v d m) = ac_hooks m" "onConnect (set_subs v d m) = onConnect m"
  "onDisconnect (set_subs v d m) = onDisconnect m" "ac_replies (set_subs v d m) = ac_replies m"
  "sub_invalid (set_subs v d m) = sub_invalid m" "a_freed (set_subs v d m) = a_freed m"
  "accepted (set_subs v d m) = accepted m" "taken_cbs (set_subs v d m) = taken_cbs m" "called (set_subs v d m) = called m"
  "subs w (set_subs v d m) = (if v = w then d else subs w m)"
  by (simp_all add: set_subs_def subs_def)

lemma subs_parts [simp]: "subs v (on_c f m) = subs v m" "subs v (el_call h m) = subs v m"
  by (simp_all add: subs_def)

lemma flag_parts [simp]:
  "c_err (set_flag f c) = c_err c" "c_fd (set_flag f c) = c_fd c" "c_obuf (set_flag f c) = c_obuf c"
  "c_reader (set_flag f c) = c_reader c" "c_flags (set_flag f c) = c_flags c OR f" "c_errstr (set_flag f c) = c_errstr c"
  "c_err (clear_flag f c) = c_err c" "c_fd (clear_flag f c) = c_fd c" "c_obuf (clear_flag f c) = c_obuf c"
  "c_reader (clear_flag f c) = c_reader c" "c_flags (clear_flag f c) = c_flags c AND NOT f" "c_errstr (clear_flag f c) = c_errstr c"
  "c_err (redisAppendCommand_raw t c) = c_err c" "c_fd (redisAppendCommand_raw t c) = c_fd c"
  "c_reader (redisAppendCommand_raw t c) = c_reader c" "c_flags (redisAppendCommand_raw t c) = c_flags c"
  "c_errstr (redisAppendCommand_raw t c) = c_errstr c"
  by (simp_all add: set_flag_def clear_flag_def redisAppendCommand_raw_def)

text \<open>Flags in terms of bits.\<close>

lemma flag_bit:
  "has_flag REDIS_BLOCK c = bit (c_flags c) 0" "has_flag REDIS_CONNECTED c = bit (c_flags c) 1"
  "has_flag REDIS_DISCONNECTING c = bit (c_flags c) 2" "has_flag REDIS_FREEING c = bit (c_flags c) 3"
  "has_flag REDIS_IN_CALLBACK c = bit (c_flags c) 4" "has_flag REDIS_SUBSCRIBED c = bit (c_flags c) 5"
  "has_flag (REDIS_DISCONNECTING OR REDIS_FREEING) c \<longleftrightarrow> bit (c_flags c) 2 \<or> bit (c_flags c) 3"
proof -
  have b: "(c_flags c AND 2 ^ n \<noteq> 0) = bit (c_flags c) n" if "n < 32" for n
    using that by (simp add: bit_iff_and_push_bit_not_eq_0 flip: push_bit_of_1)
  show 1: "has_flag REDIS_BLOCK c = bit (c_flags c) 0" "has_flag REDIS_CONNECTED c = bit (c_flags c) 1"
    "has_flag REDIS_DISCONNECTING c = bit (c_flags c) 2" "has_flag REDIS_FREEING c = bit (c_flags c) 3"
    "has_flag REDIS_IN_CALLBACK c = bit (c_flags c) 4" "has_flag REDIS_SUBSCRIBED c = bit (c_flags c) 5"
    using b [of 0] b [of 1] b [of 2] b [of 3] b [of 4] b [of 5] by (simp_all add: has_flag_def redis_flags)
  show "has_flag (REDIS_DISCONNECTING OR REDIS_FREEING) c \<longleftrightarrow> bit (c_flags c) 2 \<or> bit (c_flags c) 3"
    unfolding 1(3,4) [symmetric] by (simp add: has_flag_def bit.conj_disj_distrib or_eq_0_iff)
qed

lemma flag_bits [simp]:
  "bit REDIS_BLOCK n \<longleftrightarrow> n = 0" "bit REDIS_CONNECTED n \<longleftrightarrow> n = 1" "bit REDIS_DISCONNECTING n \<longleftrightarrow> n = 2"
  "bit REDIS_FREEING n \<longleftrightarrow> n = 3" "bit REDIS_IN_CALLBACK n \<longleftrightarrow> n = 4" "bit REDIS_SUBSCRIBED n \<longleftrightarrow> n = 5"
proof -
  have b: "bit (2 ^ k :: u32) n \<longleftrightarrow> n = k" if "k < 32" for k
    using that by (auto simp: bit_exp_iff)
  show "bit REDIS_BLOCK n \<longleftrightarrow> n = 0" "bit REDIS_CONNECTED n \<longleftrightarrow> n = 1" "bit REDIS_DISCONNECTING n \<longleftrightarrow> n = 2"
    "bit REDIS_FREEING n \<longleftrightarrow> n = 3" "bit REDIS_IN_CALLBACK n \<longleftrightarrow> n = 4" "bit REDIS_SUBSCRIBED n \<longleftrightarrow> n = 5"
    using b [of 0] b [of 1] b [of 2] b [of 3] b [of 4] b [of 5] by (simp_all add: redis_flags)
qed

text \<open>The connection is about to be closed: no command is accepted.\<close>

definition closing :: "('s, 'u) async \<Rightarrow> bool" where
  "closing m \<longleftrightarrow> has_flag (REDIS_DISCONNECTING OR REDIS_FREEING) (ctx m)"


section \<open>What a callback can change\<close>

text \<open>
  The parts that no call inside a callback changes: the connection itself, its reader, the flags
  that say how it stands, the hooks, and what was done with callbacks.
\<close>

definition frame :: "('s, 'u) async \<Rightarrow> ('s, 'u) async \<Rightarrow> bool" where
  "frame m m' \<longleftrightarrow>
     c_err (ctx m') = c_err (ctx m) \<and> c_fd (ctx m') = c_fd (ctx m) \<and> c_reader (ctx m') = c_reader (ctx m) \<and>
     n_sys (a_net m') = n_sys (a_net m) \<and> (\<forall>n \<in> {0, 1, 4}. bit (c_flags (ctx m')) n = bit (c_flags (ctx m)) n) \<and>
     ac_err m' = ac_err m \<and> onDisconnect m' = onDisconnect m \<and> a_freed m' = a_freed m \<and>
     taken_cbs m' = taken_cbs m \<and> called m' = called m"

text \<open>
  Callbacks are only added, and both queues of regular callbacks, the real one and the model's record of what was
  accepted, get the same ones. On a connection about to be closed nothing is added.
\<close>

definition adds :: "('s, 'u) async \<Rightarrow> ('s, 'u) async \<Rightarrow> bool" where
  "adds m m' \<longleftrightarrow>
     (\<exists>new. accepted m' = accepted m @ new \<and> ac_replies m' = ac_replies m @ new) \<and>
     (closing m \<longrightarrow> closing m' \<and> ac_replies m' = ac_replies m \<and> sub_invalid m' = sub_invalid m \<and>
        sub_channels m' = sub_channels m \<and> sub_patterns m' = sub_patterns m)"

lemma frame_refl [simp]: "frame m m" by (simp add: frame_def)

lemma frame_trans [trans]: "frame a b \<Longrightarrow> frame b c \<Longrightarrow> frame a c" by (simp add: frame_def)

lemma adds_refl [simp]: "adds m m" by (simp add: adds_def)

lemma adds_trans [trans]: "adds a b \<Longrightarrow> adds b c \<Longrightarrow> adds a c" by (auto simp: adds_def)

lemma register_effect:
  assumes "\<not> closing m"
  shows "frame m (set_subs v d (on_c (set_flag REDIS_SUBSCRIBED) m)) \<and> adds m (set_subs v d (on_c (set_flag REDIS_SUBSCRIBED) m))"
    "frame m (m\<lparr>sub_invalid := l\<rparr>) \<and> adds m (m\<lparr>sub_invalid := l\<rparr>)"
    "frame m (m\<lparr>ac_replies := redisPushCallback cb (ac_replies m), accepted := accepted m @ [cb]\<rparr>) \<and>
     adds m (m\<lparr>ac_replies := redisPushCallback cb (ac_replies m), accepted := accepted m @ [cb]\<rparr>)"
  using assms by (auto simp: frame_def adds_def redisPushCallback_def bit_simps)

lemma send_effect:
  "frame m (el_call h (on_c (redisAppendCommand_raw t) m)) \<and> adds m (el_call h (on_c (redisAppendCommand_raw t) m))"
  by (auto simp: frame_def adds_def closing_def flag_bit)

lemma command_effect:
  assumes "redisAsyncCommand_raw cb cmd len m = Inr (st, m')"
  shows "frame m m' \<and> adds m m'"
proof (cases "closing m")
  case True
  then show ?thesis using assms by (simp add: redisAsyncCommand_raw_def closing_def)
next
  case False
  have trans: "frame m (el_call h (on_c (redisAppendCommand_raw t) k)) \<and> adds m (el_call h (on_c (redisAppendCommand_raw t) k))"
    if "frame m k \<and> adds m k" for k h t
    using that send_effect [of k h t] frame_trans adds_trans by blast
  obtain cstr clen p where arg: "nextArgument cmd = Inr (Some (cstr, clen, p))"
    using assms False unfolding redisAsyncCommand_raw_def closing_def
    by (cases "nextArgument cmd") (auto split: option.splits)
  show ?thesis
    using assms False unfolding redisAsyncCommand_raw_def arg closing_def
    by (auto simp only: rbind_simps option.case prod.case Let_def rbind_Inr_conv if_False sum.inject prod.inject
        register_effect [OF False] frame_refl adds_refl trans split: if_splits)
qed

lemma request_effect:
  "frame m (request_free m)" "adds m (request_free m)" "frame m (request_disconnect m)" "adds m (request_disconnect m)"
  "closing (request_free m)" "closing (request_disconnect m)"
  by (auto simp: frame_def adds_def request_free_def request_disconnect_def closing_def flag_bit bit_simps)

lemma call_effect:
  "call_in_callback P x m = Inr (st, m') \<Longrightarrow> frame m m' \<and> adds m m'"
  using request_effect
  by (cases x) (auto simp: redisAsyncCommandArgv_def redisvAsyncCommand_def rbind_Inr_conv dest: command_effect)

lemma act_effect: "run_act P t m = Inr m' \<Longrightarrow> frame m m' \<and> adds m m'"
proof (induction t arbitrary: m)
  case (Return u)
  then show ?case by (auto simp: frame_def adds_def closing_def)
next
  case (Call x k)
  then obtain st m1 where 1: "call_in_callback P x m = Inr (st, m1)" "run_act P (k st) m1 = Inr m'"
    by (auto simp: rbind_Inr_conv)
  then show ?case using call_effect [OF 1(1)] Call.IH [OF _ 1(2)] frame_trans adds_trans by blast
qed

text \<open>The same with the callback's own call recorded.\<close>

definition calls :: "redis_callback \<Rightarrow> reply_obj option \<Rightarrow> (redis_callback \<times> reply_obj option) list" where
  "calls cb r = (if cb_fn cb = None then [] else [(cb, r)])"

lemma callback_effect:
  assumes "redisRunCallback P cb r m = Inr m'" and "\<not> bit (c_flags (ctx m)) 4"
  shows "frame (m\<lparr>called := called m @ calls cb r\<rparr>) m' \<and> adds m m'"
proof (cases "cb_fn cb")
  case None
  then show ?thesis using assms by (simp add: redisRunCallback_def calls_def frame_def adds_def)
next
  case (Some fn)
  let ?m = "(on_c (set_flag REDIS_IN_CALLBACK) m)\<lparr>called := called m @ [(cb, r)]\<rparr>"
  obtain m1 where 1: "run_act P (p_reply P fn (cb_privdata cb) r (ac_err m) (a_user m)) ?m = Inr m1"
    "m' = on_c (clear_flag REDIS_IN_CALLBACK) m1"
    using assms(1) Some by (auto simp: redisRunCallback_def Let_def rbind_Inr_conv)
  have "frame ?m m1" "adds ?m m1" using act_effect [OF 1(1)] by blast+
  then show ?thesis using 1(2) Some assms(2) by (auto simp: frame_def adds_def closing_def flag_bit calls_def bit_simps)
qed


section \<open>Freeing\<close>

text \<open>Callbacks ran with null on a connection about to be closed: they have changed nothing but the program's state.\<close>

definition idle_context :: "('s, 'u) async \<Rightarrow> bool" where
  "idle_context m \<longleftrightarrow> closing m \<and> \<not> bit (c_flags (ctx m)) 4"

definition nulls :: "redis_callback list \<Rightarrow> (redis_callback \<times> reply_obj option) list" where
  "nulls cbs = concat (map (\<lambda>cb. calls cb None) cbs)"

lemma nulls_simps [simp]:
  "nulls [] = []" "nulls (cb # cbs) = calls cb None @ nulls cbs" "nulls (xs @ ys) = nulls xs @ nulls ys"
  by (simp_all add: nulls_def)

definition ran :: "('s, 'u) async \<Rightarrow> redis_callback list \<Rightarrow> ('s, 'u) async \<Rightarrow> bool" where
  "ran m cbs m' \<longleftrightarrow> frame (m\<lparr>called := called m @ nulls cbs\<rparr>) m' \<and> idle_context m' \<and> accepted m' = accepted m \<and>
     ac_replies m' = ac_replies m \<and> sub_invalid m' = sub_invalid m \<and> sub_channels m' = sub_channels m \<and>
     sub_patterns m' = sub_patterns m"

lemma ran_Nil [simp]: "ran m [] m \<longleftrightarrow> idle_context m" by (simp add: ran_def)

lemma ran_trans: "ran a xs b \<Longrightarrow> ran b ys c \<Longrightarrow> ran a (xs @ ys) c"
  by (simp add: ran_def frame_def)

lemma ranD:
  assumes "ran m cbs m'"
  shows "called m' = called m @ nulls cbs" "taken_cbs m' = taken_cbs m" "accepted m' = accepted m" "ac_replies m' = ac_replies m"
    "sub_invalid m' = sub_invalid m" "sub_channels m' = sub_channels m" "sub_patterns m' = sub_patterns m"
    "subs v m' = subs v m" "n_sys (a_net m') = n_sys (a_net m)" "c_fd (ctx m') = c_fd (ctx m)"
    "c_reader (ctx m') = c_reader (ctx m)" "\<forall>n \<in> {0, 1, 4}. bit (c_flags (ctx m')) n = bit (c_flags (ctx m)) n"
  using assms by (simp_all add: ran_def frame_def subs_def)

lemma ran_idle: "ran m cbs m' \<Longrightarrow> idle_context m'" by (simp add: ran_def)

lemma callback_ran:
  assumes "redisRunCallback P cb None m = Inr m'" and "idle_context m"
  shows "ran m [cb] m'"
proof -
  have e: "frame (m\<lparr>called := called m @ calls cb None\<rparr>) m'" "adds m m'"
    using callback_effect [OF assms(1)] assms(2) by (simp_all add: idle_context_def)
  then show ?thesis using assms(2) by (auto simp: ran_def idle_context_def adds_def) (simp add: frame_def)
qed

lemma replies_ran:
  "idle_context m \<Longrightarrow>
     \<exists>r. run_replies P m = Some r \<and>
       (\<forall>m'. r = Inr m' \<longrightarrow>
         ran (m\<lparr>ac_replies := [], taken_cbs := taken_cbs m @ map (\<lambda>cb. (cb, None)) (ac_replies m)\<rparr>) (ac_replies m) m')"
proof (induction "ac_replies m" arbitrary: m)
  case Nil
  then have "run_replies P m = Some (Inr m)"
    by (subst run_replies.simps) (simp add: shift_reply_def redisShiftCallback_def)
  moreover have "m\<lparr>ac_replies := [], taken_cbs := taken_cbs m @ map (\<lambda>cb. (cb, None)) (ac_replies m)\<rparr> = m"
    using Nil(1) by (cases m) simp
  ultimately show ?case using Nil(2) by (metis Nil(1) ran_Nil sum.inject(2))
next
  case (Cons cb l)
  let ?m = "m\<lparr>ac_replies := l, taken_cbs := taken_cbs m @ [(cb, None)]\<rparr>"
  have idle: "idle_context ?m" using Cons.prems by (simp add: idle_context_def closing_def)
  have run: "run_replies P m = (case redisRunCallback P cb None ?m of Inl e \<Rightarrow> Some (Inl e) | Inr m \<Rightarrow> run_replies P m)"
    using Cons.hyps(2) [symmetric] by (subst run_replies.simps) (simp add: shift_reply_def redisShiftCallback_def)
  show ?case
  proof (cases "redisRunCallback P cb None ?m")
    case (Inr m1)
    have r1: "ran ?m [cb] m1" by (rule callback_ran [OF Inr idle])
    then have l: "ac_replies m1 = l" "taken_cbs m1 = taken_cbs m @ [(cb, None)]" by (simp_all add: ran_def frame_def)
    obtain r where r: "run_replies P m1 = Some r"
      "\<And>m'. r = Inr m' \<Longrightarrow> ran (m1\<lparr>ac_replies := [], taken_cbs := taken_cbs m1 @ map (\<lambda>cb. (cb, None)) l\<rparr>) l m'"
      using Cons.hyps(1) [of m1] ran_idle [OF r1] l by auto
    have "ran (m\<lparr>ac_replies := [], taken_cbs := taken_cbs m @ map (\<lambda>cb. (cb, None)) (cb # l)\<rparr>) (cb # l) m'"
      if "r = Inr m'" for m'
      using r(2) [OF that] r1 l by (simp add: ran_def frame_def)
    then show ?thesis using run Inr r(1) Cons.hyps(2) by simp
  qed (simp add: run)
qed

lemma invalid_ran:
  "idle_context m \<Longrightarrow>
     \<exists>r. run_invalid P m = Some r \<and> (\<forall>m'. r = Inr m' \<longrightarrow> ran (m\<lparr>sub_invalid := []\<rparr>) (sub_invalid m) m')"
proof (induction "sub_invalid m" arbitrary: m)
  case Nil
  then have "run_invalid P m = Some (Inr m)" by (subst run_invalid.simps) (simp add: redisShiftCallback_def)
  moreover have "m\<lparr>sub_invalid := []\<rparr> = m" using Nil(1) by (cases m) simp
  ultimately show ?case using Nil(2) by (metis Nil(1) ran_Nil sum.inject(2))
next
  case (Cons cb l)
  let ?m = "m\<lparr>sub_invalid := l\<rparr>"
  have idle: "idle_context ?m" using Cons.prems by (simp add: idle_context_def closing_def)
  have run: "run_invalid P m = (case redisRunCallback P cb None ?m of Inl e \<Rightarrow> Some (Inl e) | Inr m \<Rightarrow> run_invalid P m)"
    using Cons.hyps(2) [symmetric] by (subst run_invalid.simps) (simp add: redisShiftCallback_def)
  show ?case
  proof (cases "redisRunCallback P cb None ?m")
    case (Inr m1)
    have r1: "ran ?m [cb] m1" by (rule callback_ran [OF Inr idle])
    then have l: "sub_invalid m1 = l" by (simp add: ran_def)
    obtain r where r: "run_invalid P m1 = Some r" "\<And>m'. r = Inr m' \<Longrightarrow> ran (m1\<lparr>sub_invalid := []\<rparr>) l m'"
      using Cons.hyps(1) [of m1] ran_idle [OF r1] l by auto
    have "ran (m\<lparr>sub_invalid := []\<rparr>) (cb # l) m'" if "r = Inr m'" for m'
      using r(2) [OF that] r1 l by (simp add: ran_def frame_def)
    then show ?thesis using run Inr r(1) Cons.hyps(2) by simp
  qed (simp add: run)
qed

lemma dictNext_progress:
  "dictNext d it = Inr (Some e, it') \<Longrightarrow>
     it_entry it' \<noteq> [] \<and>
     (it_index it < it_index it' \<and> it_index it' < sint (size_of d) \<or>
      it_index it' = it_index it \<and> it_entry it \<noteq> [] \<and> length (it_next it') < length (it_next it))"
proof (induction d it rule: dictNext.induct)
  case (1 d it)
  show ?case
  proof (cases "it_entry it = []")
    case True
    then have i: "\<not> sint (size_of d) \<le> it_index it + 1" "\<not> it_index it + 1 < 0"
      using 1(3) by (auto simp: dictNext.simps [of d it] Let_def split: if_splits)
    then obtain c where c: "chain_at (table d) (nat (it_index it + 1)) = Inr c"
      using 1(3) True by (cases "chain_at (table d) (nat (it_index it + 1))") (auto simp: dictNext.simps [of d it] Let_def)
    show ?thesis
    proof (cases c)
      case Nil
      then have "dictNext d (it\<lparr>it_index := it_index it + 1, it_entry := []\<rparr>) = Inr (Some e, it')"
        using 1(3) True i c by (subst (asm) dictNext.simps) (simp add: Let_def)
      then show ?thesis using 1(1) [OF True refl] c Nil i by auto
    next
      case (Cons he rest)
      then show ?thesis using 1(3) True i c by (auto simp: dictNext.simps [of d it] Let_def)
    qed
  next
    case False
    show ?thesis
    proof (cases "it_next it")
      case Nil
      then have "dictNext d (it\<lparr>it_entry := []\<rparr>) = Inr (Some e, it')"
        using 1(3) False by (subst (asm) dictNext.simps) simp
      then show ?thesis using 1(2) [OF False Nil] by auto
    next
      case (Cons he rest)
      then show ?thesis using 1(3) False by (auto simp: dictNext.simps [of d it])
    qed
  qed
qed

definition left_of :: "('k, 'v) dict \<Rightarrow> ('k, 'v) dict_iterator \<Rightarrow> nat \<times> nat \<times> nat" where
  "left_of d it = (nat (sint (size_of d) - it_index it), if it_entry it = [] then 0 else 1, length (it_next it))"

lemma dictNext_less:
  "dictNext d it = Inr (Some e, it') \<Longrightarrow> (left_of d it', left_of d it) \<in> less_than <*lex*> less_than <*lex*> less_than"
  using dictNext_progress [of d it e it'] by (auto simp: left_of_def)

lemma wf_left: "wf (less_than <*lex*> less_than <*lex*> less_than)"
  by (simp add: wf_lex_prod)

lemma subs_ran:
  "idle_context m \<Longrightarrow>
     \<exists>r. run_subs P v it m = Some r \<and>
       (\<forall>m'. r = Inr m' \<longrightarrow>
         (\<exists>cbs. ran m cbs m' \<and>
            (dict_ok T (subs v m) \<and> - 1 \<le> it_index it \<longrightarrow> cbs = map snd (entries_left (subs v m) it))))"
proof (induction "left_of (subs v m) it" arbitrary: m it rule: wf_induct_rule [OF wf_left])
  case 1
  note IH = 1(1) and idle = 1(2)
  note run = run_subs.simps [of P v it m]
  consider (fault) e where "dictNext (subs v m) it = Inl e" | (none) it' where "dictNext (subs v m) it = Inr (None, it')"
    | (some) e it' where "dictNext (subs v m) it = Inr (Some e, it')"
    by (metis (no_types) option.exhaust surj_pair sum.exhaust)
  then show ?case
  proof cases
    case fault
    then show ?thesis using run by simp
  next
    case none
    then have "entries_left (subs v m) it = []" if "dict_ok T (subs v m)" "- 1 \<le> it_index it"
      using Next_entry [OF that(2) table_size [OF that(1)]] by (auto split: list.splits)
    then show ?thesis using run none idle by (auto intro!: exI [of _ "[]"])
  next
    case some
    have e: "entries_left (subs v m) it = e # entries_left (subs v m) it' \<and> - 1 \<le> it_index it'"
      if "dict_ok T (subs v m)" "- 1 \<le> it_index it"
      using Next_entry [OF that(2) table_size [OF that(1)]] some by (auto split: list.splits)
    show ?thesis
    proof (cases "redisRunCallback P (snd e) None m")
      case (Inr m1)
      have r1: "ran m [snd e] m1" by (rule callback_ran [OF Inr idle])
      note s1 = ranD(8) [OF r1, of v]
      obtain r where r: "run_subs P v it' m1 = Some r"
        "\<And>m'. r = Inr m' \<Longrightarrow> \<exists>cbs. ran m1 cbs m' \<and>
            (dict_ok T (subs v m) \<and> - 1 \<le> it_index it' \<longrightarrow> cbs = map snd (entries_left (subs v m) it'))"
        using IH [of m1 it'] dictNext_less [OF some] ran_idle [OF r1] s1 by metis
      have "\<exists>cbs. ran m cbs m' \<and> (dict_ok T (subs v m) \<and> - 1 \<le> it_index it \<longrightarrow> cbs = map snd (entries_left (subs v m) it))"
        if "r = Inr m'" for m'
      proof -
        obtain cbs where cbs: "ran m1 cbs m'"
          "dict_ok T (subs v m) \<and> - 1 \<le> it_index it' \<longrightarrow> cbs = map snd (entries_left (subs v m) it')"
          using r(2) [OF \<open>r = Inr m'\<close>] by blast
        show ?thesis using ran_trans [OF r1 cbs(1)] cbs(2) e by (intro exI [of _ "[snd e] @ cbs"]) auto
      qed
      then show ?thesis using run some Inr r(1) by simp
    qed (use run some in simp)
  qed
qed

lemma iterator_start: "- 1 \<le> it_index dictGetIterator" "entries_left d dictGetIterator = concat (table d)"
  by (simp_all add: dictGetIterator_def entries_left_def)

text \<open>All callbacks that a connection has.\<close>

definition subscribers :: "bool \<Rightarrow> ('s, 'u) async \<Rightarrow> redis_callback list" where
  "subscribers v m = map snd (concat (table (subs v m)))"

lemma finish_free_parts [simp]:
  "ctx (finish_free A P m) = ctx m" "a_freed (finish_free A P m)" "accepted (finish_free A P m) = accepted m"
  "ac_replies (finish_free A P m) = ac_replies m" "taken_cbs (finish_free A P m) = taken_cbs m"
  "called (finish_free A P m) = called m" "ac_err (finish_free A P m) = ac_err m"
  "n_sys (a_net (finish_free A P m)) = redisFree A (ctx m) (n_sys (a_net m))"
  by (simp_all add: finish_free_def Let_def run_status_def split: option.split)

lemma Free_raw:
  assumes "idle_context m"
  shows "\<exists>r. redisAsyncFree_raw A P m = Some r \<and>
    (\<forall>m'. r = Inr m' \<longrightarrow>
       a_freed m' \<and> accepted m' = accepted m \<and> ac_replies m' = [] \<and>
       taken_cbs m' = taken_cbs m @ map (\<lambda>cb. (cb, None)) (ac_replies m) \<and>
       n_sys (a_net m') = redisFree A (ctx m) (n_sys (a_net m)) \<and> c_reader (ctx m') = c_reader (ctx m) \<and>
       (\<forall>n \<in> {0, 1, 4}. bit (c_flags (ctx m')) n = bit (c_flags (ctx m)) n) \<and>
       (\<exists>cs ps. called m' = called m @ nulls (ac_replies m @ sub_invalid m @ cs @ ps) \<and>
          (dict_ok T (sub_channels m) \<longrightarrow> cs = subscribers False m) \<and>
          (dict_ok T (sub_patterns m) \<longrightarrow> ps = subscribers True m)))"
proof -
  define start :: "(string, redis_callback) dict_iterator" where "start = dictGetIterator"
  have st: "- 1 \<le> it_index start" "entries_left d start = concat (table d)" for d :: "(string, redis_callback) dict"
    by (simp_all add: start_def iterator_start)
  let ?q = "\<lambda>m. m\<lparr>ac_replies := [], taken_cbs := taken_cbs m @ map (\<lambda>cb. (cb, None)) (ac_replies m)\<rparr>"
  obtain r1 where r1: "run_replies P m = Some r1" "\<And>m'. r1 = Inr m' \<Longrightarrow> ran (?q m) (ac_replies m) m'"
    using replies_ran [OF assms, of P] by blast
  show ?thesis
  proof (cases r1)
    case (Inr m1)
    note m1 = r1(2) [OF Inr]
    obtain r2 where r2: "run_invalid P m1 = Some r2" "\<And>m'. r2 = Inr m' \<Longrightarrow> ran (m1\<lparr>sub_invalid := []\<rparr>) (sub_invalid m1) m'"
      using invalid_ran [OF ran_idle [OF m1], of P] by blast
    show ?thesis
    proof (cases r2)
      case r2_ok: (Inr m2)
      note m2 = r2(2) [OF r2_ok]
      obtain r3 where r3: "run_subs P False start m2 = Some r3"
        "\<forall>m'. r3 = Inr m' \<longrightarrow> (\<exists>cbs. ran m2 cbs m' \<and>
            (dict_ok T (subs False m2) \<and> - 1 \<le> it_index start \<longrightarrow> cbs = map snd (entries_left (subs False m2) start)))"
        using subs_ran [OF ran_idle [OF m2], of P False start T] by (elim exE conjE)
      show ?thesis
      proof (cases r3)
        case r3_ok: (Inr m3)
        obtain cs where m3: "ran m2 cs m3" "dict_ok T (subs False m2) \<longrightarrow> cs = subscribers False m2"
          using r3(2) [rule_format, OF r3_ok] by (auto simp: st subscribers_def)
        let ?m3 = "set_subs False (dictClear callbackDict (subs False m3)) m3"
        have idle3: "idle_context ?m3" using ran_idle [OF m3(1)] by (simp add: idle_context_def closing_def)
        obtain r4 where r4: "run_subs P True start ?m3 = Some r4"
          "\<forall>m'. r4 = Inr m' \<longrightarrow> (\<exists>cbs. ran ?m3 cbs m' \<and>
            (dict_ok T (subs True ?m3) \<and> - 1 \<le> it_index start \<longrightarrow> cbs = map snd (entries_left (subs True ?m3) start)))"
          using subs_ran [OF idle3, of P True start T] by (elim exE conjE)
        show ?thesis
        proof (cases r4)
          case r4_ok: (Inr m4)
          obtain ps where m4: "ran ?m3 ps m4" "dict_ok T (subs True ?m3) \<longrightarrow> ps = subscribers True ?m3"
            using r4(2) [rule_format, OF r4_ok] by (auto simp: st subscribers_def)
          let ?m4 = "set_subs True (dictClear callbackDict (subs True m4)) m4"
          have run: "redisAsyncFree_raw A P m = Some (Inr (finish_free A P ?m4))"
            using r1(1) Inr r2(1) r2_ok r3(1) r3_ok r4(1) r4_ok by (simp add: redisAsyncFree_raw_def Let_def flip: start_def)
          have same: "sub_channels m2 = sub_channels m" "sub_patterns m3 = sub_patterns m" "sub_invalid m1 = sub_invalid m"
            using ranD(5-7) [OF m1] ranD(6,7) [OF m2] ranD(7) [OF m3(1)] by simp_all
          then have "dict_ok T (sub_channels m) \<longrightarrow> cs = subscribers False m" "dict_ok T (sub_patterns m) \<longrightarrow> ps = subscribers True m"
            using m3(2) m4(2) by (simp_all add: subscribers_def subs_def set_subs_def)
          moreover have "called m4 = called m @ nulls (ac_replies m @ sub_invalid m @ cs @ ps)"
            using ranD(1) [OF m1] ranD(1) [OF m2] ranD(1) [OF m3(1)] ranD(1) [OF m4(1)] same(3) by simp
          ultimately have ex: "\<exists>cs ps. called m4 = called m @ nulls (ac_replies m @ sub_invalid m @ cs @ ps) \<and>
              (dict_ok T (sub_channels m) \<longrightarrow> cs = subscribers False m) \<and> (dict_ok T (sub_patterns m) \<longrightarrow> ps = subscribers True m)"
            by blast
          have "accepted m4 = accepted m" "ac_replies m4 = []" "n_sys (a_net m4) = n_sys (a_net m)"
            "taken_cbs m4 = taken_cbs m @ map (\<lambda>cb. (cb, None)) (ac_replies m)" "c_fd (ctx m4) = c_fd (ctx m)"
            "c_reader (ctx m4) = c_reader (ctx m)" "\<forall>n \<in> {0, 1, 4}. bit (c_flags (ctx m4)) n = bit (c_flags (ctx m)) n"
            using ranD(2-4,9-12) [OF m1] ranD(2-4,9-12) [OF m2] ranD(2-4,9-12) [OF m3(1)] ranD(2-4,9-12) [OF m4(1)] by simp_all
          then show ?thesis
            using ex unfolding run
            by (intro exI [of _ "Inr (finish_free A P ?m4)"]) (simp add: redisFree_def)
        qed (use r1(1) Inr r2(1) r2_ok r3(1) r3_ok r4(1) in \<open>simp add: redisAsyncFree_raw_def Let_def flip: start_def\<close>)
      qed (use r1(1) Inr r2(1) r2_ok r3(1) in \<open>simp add: redisAsyncFree_raw_def flip: start_def\<close>)
    qed (use r1(1) Inr r2(1) in \<open>simp add: redisAsyncFree_raw_def\<close>)
  qed (use r1(1) in \<open>simp add: redisAsyncFree_raw_def\<close>)
qed

text \<open>
  C29. Freeing a connection. Outside a callback \<open>redisAsyncFree\<close> returns, whatever the callbacks do,
  and unless a call of theirs faults, it has called with null exactly once, in this order, every
  callback whose reply was pending, every one of an invalid command, and every one of a
  subscription to a channel and to a pattern; the context is freed and its socket closed, and
  nothing is pending.
\<close>

theorem free_calls_everyone:
  assumes "\<not> has_flag REDIS_IN_CALLBACK (ctx m)" and "dict_ok callbackDict (sub_channels m)" and "dict_ok callbackDict (sub_patterns m)"
  shows "\<exists>r. redisAsyncFree A P m = Some r \<and>
    (\<forall>m'. r = Inr m' \<longrightarrow>
       a_freed m' \<and> ac_replies m' = [] \<and>
       called m' = called m @ map (\<lambda>cb. (cb, None))
         (filter (\<lambda>cb. cb_fn cb \<noteq> None) (ac_replies m @ sub_invalid m @ subscribers False m @ subscribers True m)) \<and>
       n_sys (a_net m') = redisFree A (ctx m) (n_sys (a_net m)))"
proof -
  have n: "nulls cbs = map (\<lambda>cb. (cb, None)) (filter (\<lambda>cb. cb_fn cb \<noteq> None) cbs)" for cbs
    by (induction cbs) (simp_all add: calls_def)
  have idle: "idle_context (request_free m)"
    using assms(1) request_effect(5) [of m] request_in_callback(1) [of m] by (simp add: idle_context_def flag_bit)
  have "\<not> has_flag REDIS_IN_CALLBACK (ctx (request_free m))" using assms(1) by (simp add: request_in_callback)
  then have run: "redisAsyncFree A P m = redisAsyncFree_raw A P (request_free m)" by (simp add: redisAsyncFree_def Let_def)
  have same: "ac_replies (request_free m) = ac_replies m" "sub_invalid (request_free m) = sub_invalid m"
    "called (request_free m) = called m" "sub_channels (request_free m) = sub_channels m"
    "sub_patterns (request_free m) = sub_patterns m" "subscribers v (request_free m) = subscribers v m"
    "redisFree A (ctx (request_free m)) s = redisFree A (ctx m) s" "n_sys (a_net (request_free m)) = n_sys (a_net m)" for v s
    by (simp_all add: request_free_def subscribers_def redisFree_def)
  obtain r where r: "redisAsyncFree_raw A P (request_free m) = Some r"
    "\<And>m'. r = Inr m' \<Longrightarrow> a_freed m' \<and> ac_replies m' = [] \<and> n_sys (a_net m') = redisFree A (ctx m) (n_sys (a_net m)) \<and>
       called m' = called m @ nulls (ac_replies m @ sub_invalid m @ subscribers False m @ subscribers True m)"
    using Free_raw [OF idle, of A P callbackDict] assms(2,3) unfolding same by (elim exE conjE) simp
  show ?thesis using r unfolding run n by (intro exI [of _ r]) simp
qed

text \<open>
  A program with a callback that disconnects and one that does not, both noting their data, and a
  connection on which the reply of one command without a callback and of two with one are pending.
\<close>

definition demo_program :: "nat list program" where
  "demo_program =
     \<lparr> p_reply = (\<lambda>fn d r e u. if fn = 0 then Call Call_disconnect (\<lambda>st. Return (u @ [d])) else Return (u @ [d])),
       p_status = (\<lambda>fn st e u. u @ [fn]), p_vprintf = (\<lambda>f ap. []) \<rparr>"

definition demo_async :: "(string \<times> string, nat list) async" where
  "demo_async =
     (redisAsyncInitialize [] \<lparr> n_c = demo_context\<lparr>c_flags := REDIS_CONNECTED\<rparr>, errnox = 0, n_sys = ([], []) \<rparr>)
       \<lparr>ac_replies := [\<lparr>cb_fn = Some 0, cb_privdata = 7\<rparr>, \<lparr>cb_fn = None, cb_privdata = 8\<rparr>, \<lparr>cb_fn = Some 1, cb_privdata = 9\<rparr>]\<rparr>"

theorem free_calls_everyone_witness:
  "\<exists>m'. redisAsyncFree slow_server demo_program demo_async = Some (Inr m') \<and>
     called m' = [(\<lparr>cb_fn = Some 0, cb_privdata = 7\<rparr>, None), (\<lparr>cb_fn = Some 1, cb_privdata = 9\<rparr>, None)]"
proof -
  have d: "dict_ok callbackDict dictCreate" unfolding dictCreate_def by (rule reset_ok)
  have s: "sub_channels demo_async = dictCreate" "sub_patterns demo_async = dictCreate"
    by (simp_all add: demo_async_def redisAsyncInitialize_def)
  have flag: "\<not> has_flag REDIS_IN_CALLBACK (ctx demo_async)" by code_simp
  have "map_option (map_sum id a_freed) (redisAsyncFree slow_server demo_program demo_async) = Some (Inr True)" by code_simp
  then obtain m' where m': "redisAsyncFree slow_server demo_program demo_async = Some (Inr m')"
    by (cases "redisAsyncFree slow_server demo_program demo_async"; cases "the (redisAsyncFree slow_server demo_program demo_async)") auto
  have "table (dictCreate :: (string, redis_callback) dict) = []" by (simp add: dictCreate_def dictReset_def)
  then have "called m' = called demo_async @ map (\<lambda>cb. (cb, None)) (filter (\<lambda>cb. cb_fn cb \<noteq> None) (ac_replies demo_async @ sub_invalid demo_async))"
    using free_calls_everyone [OF flag, of slow_server demo_program] d s m' by (auto simp: subscribers_def subs_def)
  then show ?thesis using m' by (simp add: demo_async_def redisAsyncInitialize_def)
qed

end
