(* ===== verification/Redis_Conversation.thy ===== *)
theory Redis_Conversation
  imports Redis_Callbacks
begin

text \<open>
  A conversation on an asynchronous connection: any sequence of calls of the program and events of
  the event library, with whatever its sockets and callbacks do. Every handler returns, and
  callbacks get their replies in the order of their commands.
\<close>

section \<open>Conversations without subscriptions\<close>

text \<open>The test of \<open>__redisAsyncCommand\<close> for a subscription.\<close>

definition subscribes :: "string \<Rightarrow> bool" where
  "subscribes cmd \<longleftrightarrow>
     (case nextArgument cmd of
        Inr (Some (cstr, clen, p)) \<Rightarrow>
          p \<noteq> [] \<and> hd p = CHR ''$'' \<and>
          strncasecmp_eq (if cstr \<noteq> [] \<and> c_tolower (hd cstr) = CHR ''p'' then tl cstr else cstr) (''subscribe'' @ [CR, LF])
      | _ \<Rightarrow> False)"

definition no_subscription :: "(string \<times> nat) res \<Rightarrow> bool" where
  "no_subscription x = (case x of Inr (cmd, len) \<Rightarrow> \<not> subscribes cmd | Inl e \<Rightarrow> True)"

fun plain_call :: "'u program \<Rightarrow> async_call \<Rightarrow> bool" where
  "plain_call P (Call_command cb argv) = no_subscription (redisFormatCommandArgv argv)"
| "plain_call P (Call_format cb format ap) = no_subscription (redisvFormatCommand (p_vprintf P) format ap)"
| "plain_call P Call_disconnect = True"
| "plain_call P Call_free = True"

primrec plain_act :: "'u program \<Rightarrow> 'u act \<Rightarrow> bool" where
  "plain_act P (Return u) = True"
| "plain_act P (Call x k) = (plain_call P x \<and> (\<forall>st. plain_act P (k st)))"

definition plain_program :: "'u program \<Rightarrow> bool" where
  "plain_program P \<longleftrightarrow> (\<forall>fn d r e u. plain_act P (p_reply P fn d r e u))"

definition unsubscribed :: "('s, 'u) async \<Rightarrow> bool" where
  "unsubscribed m \<longleftrightarrow> \<not> bit (c_flags (ctx m)) 5 \<and> sub_invalid m = [] \<and> sub_channels m = dictCreate \<and> sub_patterns m = dictCreate"

lemma unsubscribed_upd [simp]:
  "unsubscribed (m\<lparr>ac_replies := l, accepted := a\<rparr>) = unsubscribed m"
  "unsubscribed (m\<lparr>ac_replies := l, taken_cbs := t\<rparr>) = unsubscribed m"
  "unsubscribed (m\<lparr>a_user := u\<rparr>) = unsubscribed m" "unsubscribed (m\<lparr>called := k\<rparr>) = unsubscribed m"
  "unsubscribed (el_call h m) = unsubscribed m" "unsubscribed (on_c (redisAppendCommand_raw x) m) = unsubscribed m"
  "unsubscribed (on_c (set_flag REDIS_DISCONNECTING) m) = unsubscribed m"
  "unsubscribed (on_c (set_flag REDIS_FREEING) m) = unsubscribed m"
  "unsubscribed (on_c (set_flag REDIS_IN_CALLBACK) m) = unsubscribed m"
  "unsubscribed (on_c (clear_flag REDIS_IN_CALLBACK) m) = unsubscribed m"
  "unsubscribed (on_c (set_flag REDIS_CONNECTED) m) = unsubscribed m"
  by (auto simp: unsubscribed_def bit_simps)

lemma plain_command:
  assumes "\<not> subscribes cmd" and "unsubscribed m" and "redisAsyncCommand_raw cb cmd len m = Inr (st, m')"
  shows "unsubscribed m'"
proof (cases "closing m")
  case True
  then show ?thesis using assms(2,3) by (simp add: redisAsyncCommand_raw_def closing_def)
next
  case False
  obtain cstr clen p where arg: "nextArgument cmd = Inr (Some (cstr, clen, p))"
    using assms(3) False unfolding redisAsyncCommand_raw_def closing_def
    by (cases "nextArgument cmd") (auto split: option.splits)
  have no: "\<not> has_flag REDIS_SUBSCRIBED (ctx m)" using assms(2) by (simp add: unsubscribed_def flag_bit)
  show ?thesis
    using assms(3) False assms(1,2) no unfolding redisAsyncCommand_raw_def arg closing_def subscribes_def
    by (auto simp only: rbind_simps option.case prod.case Let_def rbind_Inr_conv if_False if_True sum.inject sum.case prod.inject
        unsubscribed_upd not_True_eq_False not_False_eq_True simp_thms split: if_splits)
qed

lemma plain_in_callback: "plain_call P x \<Longrightarrow> unsubscribed m \<Longrightarrow> call_in_callback P x m = Inr (st, m') \<Longrightarrow> unsubscribed m'"
  by (cases x)
    (auto simp: redisAsyncCommandArgv_def redisvAsyncCommand_def rbind_Inr_conv no_subscription_def request_free_def
      request_disconnect_def dest: plain_command)

lemma plain_run: "plain_act P t \<Longrightarrow> unsubscribed m \<Longrightarrow> run_act P t m = Inr m' \<Longrightarrow> unsubscribed m'"
proof (induction t arbitrary: m)
  case (Call x k)
  then obtain st m1 where 1: "call_in_callback P x m = Inr (st, m1)" "run_act P (k st) m1 = Inr m'"
    by (auto simp: rbind_Inr_conv)
  have p: "plain_call P x" "plain_act P (k st)" using Call.prems(1) by simp_all
  show ?case by (rule Call.IH [OF rangeI p(2) plain_in_callback [OF p(1) Call.prems(2) 1(1)] 1(2)])
qed auto

lemma plain_callback:
  assumes "plain_program P" and "unsubscribed m" and "redisRunCallback P cb r m = Inr m'"
  shows "unsubscribed m'"
proof (cases "cb_fn cb")
  case (Some fn)
  then obtain m1 where 1: "run_act P (p_reply P fn (cb_privdata cb) r (ac_err m) (a_user m))
      ((on_c (set_flag REDIS_IN_CALLBACK) m)\<lparr>called := called m @ [(cb, r)]\<rparr>) = Inr m1"
    "m' = on_c (clear_flag REDIS_IN_CALLBACK) m1"
    using assms(3) by (auto simp: redisRunCallback_def Let_def rbind_Inr_conv)
  have "unsubscribed ((on_c (set_flag REDIS_IN_CALLBACK) m)\<lparr>called := called m @ [(cb, r)]\<rparr>)"
    using assms(2) by simp
  then have "unsubscribed m1" using assms(1) by (intro plain_run [OF _ _ 1(1)]) (simp_all add: plain_program_def)
  then show ?thesis using 1(2) by simp
qed (use assms in \<open>simp add: redisRunCallback_def\<close>)


section \<open>The invariant\<close>

text \<open>
  The documented effect of the calls on the bytes received: \<open>recv\<close> adds what it gives, the others nothing.
\<close>

definition keeps_bytes :: "'s winsock \<Rightarrow> ('s \<Rightarrow> string) \<Rightarrow> bool" where
  "keeps_bytes A rec \<longleftrightarrow>
     (\<forall>fd t s. rec (snd (ws_send A fd t s)) = rec s) \<and>
     (\<forall>fd s. rec (snd (ws_so_error A fd s)) = rec s) \<and>
     (\<forall>fd s. rec (ws_close A fd s) = rec s)"

definition counts_bytes :: "'s winsock \<Rightarrow> ('s \<Rightarrow> string) \<Rightarrow> bool" where
  "counts_bytes A rec \<longleftrightarrow>
     keeps_bytes A rec \<and>
     (\<forall>fd n s. rec (snd (ws_recv A fd n s)) = rec s @ (case fst (ws_recv A fd n s) of None \<Rightarrow> [] | Some bs \<Rightarrow> bs))"

text \<open>
  Without subscriptions: the calls are those for the callbacks taken; the replies they were taken for
  are the first of the bytes received, and those that freeing took have null; after \<open>ds\<close>, which got
  no callback, the others are still to come from the reader.
\<close>

definition in_order :: "('s \<Rightarrow> string) \<Rightarrow> reply_obj list \<Rightarrow> areader \<Rightarrow> ('s, 'u) async \<Rightarrow> bool" where
  "in_order rec ds a m \<longleftrightarrow>
     called m = concat (map (\<lambda>(cb, r). calls cb r) (taken_cbs m)) \<and>
     (\<exists>rs n.
        map snd (taken_cbs m) = map Some rs @ replicate n None \<and>
        (\<forall>w. stream [] (rec (n_sys (a_net m)) @ w) = rs @ ds @ stream_of (add_bytes w a)) \<and>
        (\<not> a_freed m \<longrightarrow> n = 0 \<and> unsubscribed m))"

definition conv_ok :: "bool \<Rightarrow> ('s \<Rightarrow> string) \<Rightarrow> reply_obj list \<Rightarrow> areader \<Rightarrow> ('s, 'u) async \<Rightarrow> bool" where
  "conv_ok plain rec ds a m \<longleftrightarrow>
     \<not> bit (c_flags (ctx m)) 0 \<and> \<not> bit (c_flags (ctx m)) 4 \<and> represents (c_reader (ctx m)) a \<and>
     accepted m = map fst (taken_cbs m) @ ac_replies m \<and> (a_freed m \<longrightarrow> ac_replies m = []) \<and>
     (plain \<longrightarrow> in_order rec ds a m)"

text \<open>What the invariant is about.\<close>

definition same_conv :: "('s \<Rightarrow> string) \<Rightarrow> ('s, 'u) async \<Rightarrow> ('s, 'u) async \<Rightarrow> bool" where
  "same_conv rec m m' \<longleftrightarrow>
     (\<forall>n \<in> {0, 4}. bit (c_flags (ctx m')) n = bit (c_flags (ctx m)) n) \<and> c_reader (ctx m') = c_reader (ctx m) \<and>
     accepted m' = accepted m \<and> taken_cbs m' = taken_cbs m \<and> ac_replies m' = ac_replies m \<and> a_freed m' = a_freed m \<and>
     called m' = called m \<and> rec (n_sys (a_net m')) = rec (n_sys (a_net m)) \<and> unsubscribed m' = unsubscribed m"

lemma conv_ok_same: "conv_ok plain rec ds a m \<Longrightarrow> same_conv rec m m' \<Longrightarrow> conv_ok plain rec ds a m'"
  unfolding conv_ok_def same_conv_def in_order_def by simp

lemma same_conv_flags [simp]:
  "same_conv rec m (on_c (set_flag REDIS_DISCONNECTING) m)" "same_conv rec m (on_c (set_flag REDIS_FREEING) m)"
  "same_conv rec m (on_c (set_flag REDIS_CONNECTED) m)"
  "same_conv rec m (redisAsyncCopyError m)" "same_conv rec m (el_call h m)" "same_conv rec m (run_status P f st m)"
  by (auto simp: same_conv_def redisAsyncCopyError_def run_status_def bit_simps unsubscribed_def split: option.split)

lemma same_conv_trans: "same_conv rec a b \<Longrightarrow> same_conv rec b c \<Longrightarrow> same_conv rec a c"
  by (simp add: same_conv_def)

text \<open>The results a handler may have, all of them faults or states with the invariant.\<close>

definition returns :: "bool \<Rightarrow> ('s \<Rightarrow> string) \<Rightarrow> (('s, 'u) async \<Rightarrow> bool) \<Rightarrow> ('s, 'u) async res option \<Rightarrow> bool" where
  "returns plain rec Q x \<longleftrightarrow> (\<exists>r. x = Some r \<and> (\<forall>m'. r = Inr m' \<longrightarrow> Q m' \<and> (\<exists>ds a. conv_ok plain rec ds a m' \<and> (a_freed m' \<or> ds = []))))"

lemma Free_conv:
  assumes "conv_ok plain rec ds a m" and "idle_context m" and "\<not> a_freed m" and "keeps_bytes A rec"
  shows "returns plain rec a_freed (redisAsyncFree_raw A P m)"
proof -
  obtain r where r: "redisAsyncFree_raw A P m = Some r"
    "\<forall>m'. r = Inr m' \<longrightarrow>
       a_freed m' \<and> accepted m' = accepted m \<and> ac_replies m' = [] \<and>
       taken_cbs m' = taken_cbs m @ map (\<lambda>cb. (cb, None)) (ac_replies m) \<and>
       n_sys (a_net m') = redisFree A (ctx m) (n_sys (a_net m)) \<and> c_reader (ctx m') = c_reader (ctx m) \<and>
       (\<forall>n \<in> {0, 1, 4}. bit (c_flags (ctx m')) n = bit (c_flags (ctx m)) n) \<and>
       (\<exists>cs ps. called m' = called m @ nulls (ac_replies m @ sub_invalid m @ cs @ ps) \<and>
          (dict_ok callbackDict (sub_channels m) \<longrightarrow> cs = subscribers False m) \<and>
          (dict_ok callbackDict (sub_patterns m) \<longrightarrow> ps = subscribers True m))"
    using Free_raw [OF assms(2), of A P callbackDict] by (elim exE conjE)
  have "a_freed m' \<and> conv_ok plain rec ds a m'" if "r = Inr m'" for m'
  proof -
    note m' = r(2) [rule_format, OF that]
    obtain cs ps where c: "called m' = called m @ nulls (ac_replies m @ sub_invalid m @ cs @ ps)"
      "dict_ok callbackDict (sub_channels m) \<longrightarrow> cs = subscribers False m"
      "dict_ok callbackDict (sub_patterns m) \<longrightarrow> ps = subscribers True m"
      using m' by (elim exE conjE)
    have rec: "rec (n_sys (a_net m')) = rec (n_sys (a_net m))"
      using m' assms(4) by (simp add: redisFree_def keeps_bytes_def)
    have "in_order rec ds a m'" if "in_order rec ds a m"
    proof -
      obtain rs where rs: "map snd (taken_cbs m) = map Some rs"
        "\<And>w. stream [] (rec (n_sys (a_net m)) @ w) = rs @ ds @ stream_of (add_bytes w a)" "unsubscribed m"
        "called m = concat (map (\<lambda>(cb, r). calls cb r) (taken_cbs m))"
        using \<open>in_order rec ds a m\<close> assms(3) unfolding in_order_def by auto
      have d: "dict_ok callbackDict dictCreate" unfolding dictCreate_def by (rule reset_ok)
      have "table (dictCreate :: (string, redis_callback) dict) = []" by (simp add: dictCreate_def dictReset_def)
      then have "cs = []" "ps = []" "sub_invalid m = []"
        using c(2,3) rs(3) d by (simp_all add: unsubscribed_def subscribers_def subs_def)
      then have "called m' = concat (map (\<lambda>(cb, r). calls cb r) (taken_cbs m'))"
        using c(1) rs(4) m' by (simp add: nulls_def comp_def)
      moreover have "map snd (taken_cbs m') = map Some rs @ replicate (length (ac_replies m)) None"
        using m' rs(1) by (simp add: comp_def map_replicate_const)
      ultimately show ?thesis using rs(2) rec m' unfolding in_order_def
        by (intro conjI exI [of _ rs] exI [of _ "length (ac_replies m)"]) simp_all
    qed
    then show ?thesis using m' assms(1) by (simp add: conv_ok_def comp_def)
  qed
  then show ?thesis unfolding returns_def using r(1) by blast
qed

lemma Disconnect_conv:
  assumes "conv_ok plain rec ds a m" and "c_err (ctx m) \<noteq> 0 \<or> closing m" and "\<not> a_freed m" and "keeps_bytes A rec"
  shows "returns plain rec a_freed (redisAsyncDisconnect_raw A P m)"
proof -
  let ?m = "redisAsyncCopyError m" and ?d = "on_c (set_flag REDIS_DISCONNECTING) (redisAsyncCopyError m)"
  have bit4: "\<not> bit (c_flags (ctx m)) 4" using assms(1) by (simp add: conv_ok_def)
  have err: "ac_err ?m = c_err (ctx m)" by (simp add: redisAsyncCopyError_def)
  have ctx: "ctx ?m = ctx m" "a_freed ?m = a_freed m" by (simp_all add: redisAsyncCopyError_def)
  have c: "conv_ok plain rec ds a ?m" "conv_ok plain rec ds a ?d"
    by (rule conv_ok_same [OF assms(1)], simp, rule conv_ok_same [OF assms(1)], rule same_conv_trans [of _ _ ?m]) simp_all
  show ?thesis
  proof (cases "c_err (ctx m) = 0")
    case True
    then have "idle_context ?m" using assms(2) bit4 ctx(1) by (simp add: idle_context_def closing_def)
    then have f: "returns plain rec a_freed (redisAsyncFree_raw A P ?m)" using Free_conv [OF c(1)] assms(3,4) ctx(2) by simp
    show ?thesis
    proof (cases "redisShiftCallback (ac_replies ?m) = None")
      case False
      then have "redisAsyncDisconnect_raw A P m = Some (Inl Assert_fail)"
        using True err by (auto simp: redisAsyncDisconnect_raw_def Let_def)
      then show ?thesis by (simp add: returns_def)
    qed (use f True err in \<open>simp add: redisAsyncDisconnect_raw_def Let_def\<close>)
  next
    case False
    have "idle_context ?d" using bit4 ctx(1) by (auto simp: idle_context_def closing_def flag_bit bit_simps)
    then have "returns plain rec a_freed (redisAsyncFree_raw A P ?d)" using Free_conv [OF c(2)] assms(3,4) ctx(2) by simp
    then show ?thesis using False err by (simp add: redisAsyncDisconnect_raw_def Let_def)
  qed
qed


section \<open>One reply\<close>

lemma poll_async:
  assumes "\<not> bit (c_flags c) 0" and "represents (c_reader c) a"
  obtains st c' where "redisGetReply A (c, s) = Some (Inr (st, fst (get_reply a), c', s))"
    "c_fd c' = c_fd c" "c_flags c' = c_flags c" "c_obuf c' = c_obuf c" "represents (c_reader c') (snd (get_reply a))"
    "(st = REDIS_ERR \<and> fst (get_reply a) = None \<and> c_err c' \<noteq> 0 \<and> (\<exists>e. snd (get_reply a) = Broken e)) \<or> (st = REDIS_OK \<and> c_err c' = c_err c)"
proof -
  obtain r where r: "redisReaderGetReply (c_reader c) =
      Inr (case snd (get_reply a) of Broken _ \<Rightarrow> REDIS_ERR | _ \<Rightarrow> REDIS_OK, fst (get_reply a), r)"
    "represents r (snd (get_reply a))"
    using GetReply_refines [OF assms(2)] by blast
  have none: "fst (get_reply a) = None" if "snd (get_reply a) = Broken e" for e
    using that by (cases a) (auto simp: get_reply.simps split: outcome.splits)
  have nb: "\<not> has_flag REDIS_BLOCK (c\<lparr>c_reader := r\<rparr>)" using assms(1) by (simp add: flag_bit)
  show thesis
  proof (cases "snd (get_reply a)")
    case (Broken e)
    then have "r_err r \<noteq> 0" using r(2) by (simp add: has_failed_def REDIS_ERR_PROTOCOL_def)
    then show thesis using r Broken none [OF Broken]
      by (intro that [of REDIS_ERR "redisSetError (r_err r) (r_errstr r) (c\<lparr>c_reader := r\<rparr>)"])
        (simp_all add: redisGetReply_def redisGetReplyFromReader_def redisSetError_def REDIS_OK_def REDIS_ERR_def)
  next
    case (Going gs u)
    then show thesis using r nb
      by (intro that [of REDIS_OK "c\<lparr>c_reader := r\<rparr>"])
        (simp_all add: redisGetReply_def redisGetReplyFromReader_def REDIS_OK_def REDIS_ERR_def del: represents.simps)
  qed
qed

lemma with_ctx_parts [simp]:
  "ctx (with_ctx c s m) = c" "n_sys (a_net (with_ctx c s m)) = s" "ac_replies (with_ctx c s m) = ac_replies m"
  "sub_invalid (with_ctx c s m) = sub_invalid m" "sub_channels (with_ctx c s m) = sub_channels m"
  "sub_patterns (with_ctx c s m) = sub_patterns m" "a_freed (with_ctx c s m) = a_freed m"
  "accepted (with_ctx c s m) = accepted m" "taken_cbs (with_ctx c s m) = taken_cbs m" "called (with_ctx c s m) = called m"
  by (simp_all add: with_ctx_def)

lemma polled:
  assumes "conv_ok plain rec [] a m" and "get_reply a = (out, a')" and "represents (c_reader c) a'"
    and "c_flags c = c_flags (ctx m)" and "s = n_sys (a_net m)"
  shows "conv_ok plain rec (case out of None \<Rightarrow> [] | Some x \<Rightarrow> [x]) a' (with_ctx c s m)"
proof -
  have "stream_of (add_bytes w a) = (case out of None \<Rightarrow> [] | Some x \<Rightarrow> [x]) @ stream_of (add_bytes w a')" for w
    using assms(2) stream_of_none [of a a' w] stream_of_cons [of a _ a' w] by (cases out) simp_all
  then show ?thesis using assms(1,3-5) by (simp add: conv_ok_def in_order_def unsubscribed_def)
qed

text \<open>The callback at the head has been called with the reply, if it has a function.\<close>

lemma answered:
  assumes "conv_ok plain rec [x] a m" and "\<not> a_freed m" and "ac_replies m = cb # q"
    and "frame (m\<lparr>ac_replies := q, taken_cbs := taken_cbs m @ [(cb, Some x)], called := called m @ calls cb (Some x)\<rparr>) m'"
    and "adds (m\<lparr>ac_replies := q, taken_cbs := taken_cbs m @ [(cb, Some x)]\<rparr>) m'" and "plain \<Longrightarrow> unsubscribed m'"
  shows "conv_ok plain rec [] a m' \<and> \<not> a_freed m'"
proof -
  obtain new where new: "accepted m' = accepted m @ new" "ac_replies m' = q @ new" using assms(5) by (auto simp: adds_def)
  have m': "taken_cbs m' = taken_cbs m @ [(cb, Some x)]" "called m' = called m @ calls cb (Some x)" "a_freed m' = a_freed m"
    "c_reader (ctx m') = c_reader (ctx m)" "n_sys (a_net m') = n_sys (a_net m)"
    "bit (c_flags (ctx m')) 0 = bit (c_flags (ctx m)) 0" "bit (c_flags (ctx m')) 4 = bit (c_flags (ctx m)) 4"
    using assms(4) by (simp_all add: frame_def)
  have "in_order rec [] a m'" if plain
  proof -
    obtain rs where "called m = concat (map (\<lambda>(cb, r). calls cb r) (taken_cbs m))" "map snd (taken_cbs m) = map Some rs"
      "\<And>w. stream [] (rec (n_sys (a_net m)) @ w) = rs @ [x] @ stream_of (add_bytes w a)"
      using assms(1,2) \<open>plain\<close> by (auto simp: conv_ok_def in_order_def)
    then show ?thesis using m' assms(6) \<open>plain\<close> unfolding in_order_def
      by (intro conjI exI [of _ "rs @ [x]"] exI [of _ 0]) simp_all
  qed
  then show ?thesis using assms(1-3) new m' by (simp add: conv_ok_def)
qed

text \<open>A subscribed connection: the queue of regular callbacks is empty and stays so, but for new commands.\<close>

definition keeps :: "('s, 'u) async \<Rightarrow> ('s, 'u) async \<Rightarrow> bool" where
  "keeps m m' \<longleftrightarrow> frame m m' \<and> accepted m' = accepted m \<and> ac_replies m' = ac_replies m"

lemma answered_sub:
  assumes "conv_ok False rec ds a m" and "\<not> a_freed m" and "keeps m m1"
    and "frame (m1\<lparr>called := called m1 @ cs\<rparr>) m2" and "adds m1 m2"
  shows "conv_ok False rec [] a m2 \<and> \<not> a_freed m2"
  using assms by (auto simp: conv_ok_def frame_def adds_def keeps_def)

lemma keeps_subs [simp]:
  "keeps m m" "keeps m (set_subs v d m)" "keeps m (on_c (clear_flag REDIS_SUBSCRIBED) (set_subs v d m))"
  "keeps m (m\<lparr>sub_invalid := l\<rparr>)"
  by (auto simp: keeps_def frame_def bit_simps)

lemma found_effect:
  assumes "rbind found (\<lambda>de.
             case de of
               None \<Rightarrow> Inr (dst, m)
             | Some (k, cb) \<Rightarrow>
                 if unsub then rbind rm (\<lambda>(st, d). let m = set_subs v d m in rbind cnt (\<lambda>i.
                        Inr (Some cb, if i = 0 then on_c (clear_flag REDIS_SUBSCRIBED) m else m)))
                 else Inr (Some cb, m)) = Inr (cb, m')"
  shows "keeps m m'"
proof -
  obtain de where de: "found = Inr de" using assms by (cases found) simp_all
  show ?thesis
  proof (cases de)
    case (Some e)
    obtain k c where "e = (k, c)" by fastforce
    then show ?thesis using assms de Some
      by (cases unsub; cases rm; cases cnt) (auto simp: Let_def split: if_splits)
  qed (use assms de in simp)
qed

lemma subscribe_callback_effect:
  assumes "redisGetSubscribeCallback reply dst m = Inr (cb, m')"
  shows "keeps m m'"
proof (cases reply)
  case (Obj_array n es)
  show ?thesis
  proof (cases "rbind (element es 0) text_of")
    case stype: (Inr t)
    show ?thesis
    proof (cases "rbind (element es 1) text_of")
      case (Inr u)
      have "2 \<le> n \<or> n < 0" using assms unfolding redisGetSubscribeCallback_def Obj_array by (auto simp: assert_utils_def split: if_splits)
      then show ?thesis using assms unfolding redisGetSubscribeCallback_def Obj_array reply_obj.case stype Inr
        by (simp only: assert_utils_simps rbind_simps if_True if_False simp_thms Let_def [of "_ \<and> _"]) (rule found_effect)
    qed (use assms stype in \<open>simp add: redisGetSubscribeCallback_def Obj_array assert_utils_def Let_def split: if_splits\<close>)
  qed (use assms in \<open>simp add: redisGetSubscribeCallback_def Obj_array assert_utils_def split: if_splits\<close>)
qed (use assms in \<open>auto simp: redisGetSubscribeCallback_def redisShiftCallback_def split: list.splits option.splits\<close>)


section \<open>The loop\<close>

definition turn_ok :: "bool \<Rightarrow> ('s \<Rightarrow> string) \<Rightarrow> areader \<Rightarrow> bool \<Rightarrow> ('s, 'u) async \<Rightarrow> bool" where
  "turn_ok plain rec a again m' \<longleftrightarrow>
     (if again then \<not> a_freed m' \<and> (\<exists>x a'. get_reply a = (Some x, a') \<and> conv_ok plain rec [] a' m')
      else \<exists>ds a'. conv_ok plain rec ds a' m' \<and> (a_freed m' \<or> ds = []))"

definition turns :: "bool \<Rightarrow> ('s \<Rightarrow> string) \<Rightarrow> areader \<Rightarrow> (bool \<times> redis_callback option \<times> ('s, 'u) async) res option \<Rightarrow> bool" where
  "turns plain rec a x \<longleftrightarrow> (\<exists>r. x = Some r \<and> (\<forall>again cb m'. r = Inr (again, cb, m') \<longrightarrow> turn_ok plain rec a again m'))"

lemma turns_simps [simp]:
  "turns plain rec a (Some (Inl e))" "turns plain rec a (Some (Inr (again, cb, m))) \<longleftrightarrow> turn_ok plain rec a again m"
  by (simp_all add: turns_def)

lemma ends_turns:
  assumes "returns plain rec Q x"
  shows "turns plain rec a (ends cb x)"
proof -
  obtain r where r: "x = Some r" "\<forall>m'. r = Inr m' \<longrightarrow> Q m' \<and> (\<exists>ds a. conv_ok plain rec ds a m' \<and> (a_freed m' \<or> ds = []))"
    using assms unfolding returns_def by blast
  show ?thesis
  proof (cases r)
    case (Inr m')
    then show ?thesis using r by (simp add: ends_def turn_ok_def)
  qed (simp add: ends_def r(1))
qed

text \<open>The callback has been taken, and is now run.\<close>

lemma run_reply_turns:
  assumes "keeps_bytes A rec" and "get_reply b = (Some x, a)" and "\<not> bit (c_flags (ctx m)) 4"
    and "\<And>m'. frame (m\<lparr>called := called m @ calls cb (Some x)\<rparr>) m' \<Longrightarrow> adds m m' \<Longrightarrow>
           cb_fn cb = None \<and> m' = m \<or> redisRunCallback P cb (Some x) m = Inr m' \<Longrightarrow>
           conv_ok plain rec [] a m' \<and> \<not> a_freed m'"
  shows "turns plain rec b (run_reply A P x cb m)"
proof (cases "cb_fn cb")
  case None
  then have "frame (m\<lparr>called := called m @ calls cb (Some x)\<rparr>) m" by (simp add: calls_def frame_def)
  then show ?thesis using None assms(2,4) by (simp add: run_reply_def turn_ok_def)
next
  case (Some fn)
  show ?thesis
  proof (cases "redisRunCallback P cb (Some x) m")
    case (Inr m1)
    have c: "conv_ok plain rec [] a m1" "\<not> a_freed m1"
      using assms(4) [of m1] callback_effect [OF Inr assms(3)] Inr by blast+
    have "idle_context m1" if "has_flag REDIS_FREEING (ctx m1)"
      using that c(1) by (simp add: idle_context_def closing_def flag_bit conv_ok_def)
    then show ?thesis using Some Inr c assms(1,2) ends_turns [OF Free_conv [OF c(1) _ c(2) assms(1)]]
      by (auto simp: run_reply_def turn_ok_def)
  qed (simp add: run_reply_def Some)
qed

lemma taken_turns:
  assumes "conv_ok plain rec [x] a m" and "\<not> a_freed m" and "keeps_bytes A rec" and "plain \<longrightarrow> plain_program P"
    and "get_reply b = (Some x, a)"
  shows "turns plain rec b (obind (Some (take_callback x v m)) (\<lambda>(closing, cb, m).
      if closing then ends cb (redisAsyncDisconnect_raw A P m)
      else case cb of None \<Rightarrow> Some (Inl Uninitialised) | Some cb \<Rightarrow> run_reply A P x cb m))"
proof (cases "ac_replies m")
  case (Cons cb q)
  let ?m = "m\<lparr>ac_replies := q, taken_cbs := taken_cbs m @ [(cb, Some x)]\<rparr>"
  have t: "take_callback x v m = Inr (False, Some cb, ?m)"
    by (simp add: take_callback_def shift_reply_def redisShiftCallback_def Cons)
  have u: "unsubscribed ?m" if plain using assms(1,2) that by (auto simp: conv_ok_def in_order_def)
  have "turns plain rec b (run_reply A P x cb ?m)"
  proof (rule run_reply_turns [OF assms(3,5)])
    show "\<not> bit (c_flags (ctx ?m)) 4" using assms(1) by (simp add: conv_ok_def)
    fix m' assume m': "frame (?m\<lparr>called := called ?m @ calls cb (Some x)\<rparr>) m'" "adds ?m m'"
      "cb_fn cb = None \<and> m' = ?m \<or> redisRunCallback P cb (Some x) ?m = Inr m'"
    show "conv_ok plain rec [] a m' \<and> \<not> a_freed m'"
    proof (rule answered [OF assms(1,2) Cons _ m'(2)])
      show "unsubscribed m'" if plain
        using m'(3) plain_callback [OF _ u [OF that], of P cb "Some x" m'] u [OF that] assms(4) that by auto
    qed (use m'(1) in simp)
  qed
  then show ?thesis by (simp add: t)
next
  case Nil
  have shift: "shift_reply (Some x) m = None" by (simp add: shift_reply_def redisShiftCallback_def Nil)
  show ?thesis
  proof (cases "has_flag REDIS_SUBSCRIBED (ctx m)")
    case True
    then have not_plain: "\<not> plain" using assms(1,2) by (auto simp: conv_ok_def in_order_def unsubscribed_def flag_bit)
    show ?thesis
    proof (cases "redisGetSubscribeCallback x v m")
      case (Inr z)
      obtain cb m1 where z: "z = (cb, m1)" by fastforce
      have k: "keeps m m1" by (rule subscribe_callback_effect) (use Inr z in simp)
      have c: "conv_ok False rec [x] a m" using assms(1) not_plain by simp
      have "turns plain rec b (run_reply A P x cb' m1)" for cb'
      proof (rule run_reply_turns [OF assms(3,5)])
        show "\<not> bit (c_flags (ctx m1)) 4" using c k by (simp add: conv_ok_def keeps_def frame_def)
      qed (use answered_sub [OF c assms(2) k] not_plain in simp)
      then show ?thesis using Inr True by (cases cb) (simp_all add: take_callback_def shift z)
    qed (simp add: take_callback_def shift True)
  next
    case False
    show ?thesis
    proof (cases "\<exists>s. x = Obj_text REDIS_REPLY_ERROR s \<and> length (Sds.c_str s) < 128")
      case True
      then obtain s where s: "x = Obj_text REDIS_REPLY_ERROR s" "length (Sds.c_str s) < 128" by blast
      let ?f = "\<lambda>c. c\<lparr>c_err := REDIS_ERR_OTHER, c_errstr := Sds.c_str s\<rparr>"
      have "same_conv rec m (on_c ?f m)" by (simp add: same_conv_def unsubscribed_def)
      then have "returns plain rec a_freed (redisAsyncDisconnect_raw A P (on_c ?f m))"
        using Disconnect_conv [OF conv_ok_same [OF assms(1)] _ _ assms(3), of "on_c ?f m" P] assms(2)
        by (simp add: REDIS_ERR_OTHER_def)
      moreover have "take_callback x v m = Inr (True, v, on_c ?f m)"
        unfolding take_callback_def shift using s False by (simp add: sprintf_s_def)
      ultimately show ?thesis by (simp add: ends_turns)
    next
      case other: False
      then have "\<exists>e. take_callback x v m = Inl e"
        unfolding take_callback_def shift using False by (cases x) (auto simp: sprintf_s_def)
      then show ?thesis by auto
    qed
  qed
qed

lemma process_reply_turns:
  assumes "conv_ok plain rec [] a m" and "\<not> a_freed m" and "keeps_bytes A rec" and "plain \<longrightarrow> plain_program P"
  shows "turns plain rec a (process_reply A P v m)"
proof -
  have nb: "\<not> bit (c_flags (ctx m)) 0" "represents (c_reader (ctx m)) a" using assms(1) by (simp_all add: conv_ok_def)
  obtain out a' where g: "get_reply a = (out, a')" by fastforce
  obtain st c where c: "redisGetReply A (ctx m, n_sys (a_net m)) = Some (Inr (st, out, c, n_sys (a_net m)))"
    "c_fd c = c_fd (ctx m)" "c_flags c = c_flags (ctx m)" "c_obuf c = c_obuf (ctx m)" "represents (c_reader c) a'"
    "st = REDIS_ERR \<and> out = None \<and> c_err c \<noteq> 0 \<and> (\<exists>e. a' = Broken e) \<or> st = REDIS_OK \<and> c_err c = c_err (ctx m)"
    by (rule poll_async [OF nb, of A "n_sys (a_net m)"]) (simp add: g)
  let ?m = "with_ctx c (n_sys (a_net m)) m"
  have p: "conv_ok plain rec (case out of None \<Rightarrow> [] | Some x \<Rightarrow> [x]) a' ?m"
    by (rule polled [OF assms(1) g c(5,3) refl])
  have live: "\<not> a_freed ?m" using assms(2) by simp
  show ?thesis
  proof (cases "st = REDIS_OK")
    case False
    then have "returns plain rec a_freed (redisAsyncDisconnect_raw A P ?m)"
      using Disconnect_conv [OF p _ live assms(3)] c(6) by simp
    then show ?thesis using False by (simp add: process_reply_def c(1) ends_turns)
  next
    case ok: True
    show ?thesis
    proof (cases out)
      case None
      have "returns plain rec a_freed (redisAsyncDisconnect_raw A P ?m)" if "has_flag REDIS_DISCONNECTING (ctx ?m)"
        using Disconnect_conv [OF p _ live assms(3)] that by (auto simp: closing_def flag_bit)
      moreover have "turn_ok plain rec a False ?m" using p None by (auto simp: turn_ok_def)
      ultimately show ?thesis using ok None ends_turns by (auto simp: process_reply_def c(1) Let_def)
    next
      case (Some x)
      then have "turns plain rec a (obind (Some (take_callback x v ?m)) (\<lambda>(closing, cb, m).
          if closing then ends cb (redisAsyncDisconnect_raw A P m)
          else case cb of None \<Rightarrow> Some (Inl Uninitialised) | Some cb \<Rightarrow> run_reply A P x cb m))"
        using taken_turns [OF _ live assms(3,4)] p g by simp
      then show ?thesis using ok Some by (simp add: process_reply_def c(1))
    qed
  qed
qed

lemma async_loop_returns:
  assumes "keeps_bytes A rec" and "plain \<longrightarrow> plain_program P"
  shows "conv_ok plain rec [] a m \<Longrightarrow> \<not> a_freed m \<Longrightarrow> returns plain rec (\<lambda>m. True) (process_callbacks A P v m)"
proof (induction "length (stream_of a)" arbitrary: a m v rule: less_induct)
  case less
  obtain r where r: "process_reply A P v m = Some r" "\<And>again cb m'. r = Inr (again, cb, m') \<Longrightarrow> turn_ok plain rec a again m'"
    using process_reply_turns [OF less.prems assms, of v] unfolding turns_def by blast
  show ?case
  proof (cases r)
    case (Inl e)
    then show ?thesis by (subst process_callbacks.simps) (simp add: r(1) returns_def)
  next
    case (Inr z)
    obtain again cb m' where z: "z = (again, cb, m')" by (metis prod_cases3)
    have t: "turn_ok plain rec a again m'" using r(2) Inr z by simp
    show ?thesis
    proof (cases again)
      case True
      then obtain x a' where a': "get_reply a = (Some x, a')" "conv_ok plain rec [] a' m'" "\<not> a_freed m'"
        using t by (auto simp: turn_ok_def)
      have "length (stream_of a') < length (stream_of a)" using stream_of_get [of a] a'(1) by simp
      from less.hyps [OF this a'(2,3)] show ?thesis
        by (subst process_callbacks.simps) (simp add: r(1) Inr z True)
    next
      case False
      then show ?thesis using t by (subst process_callbacks.simps) (simp add: r(1) Inr z returns_def turn_ok_def)
    qed
  qed
qed


section \<open>Events\<close>

lemma check_socket:
  assumes "keeps_bytes A rec" and "redisCheckSocketError A fd n = (st, n')"
  shows "c_flags (n_c n') = c_flags (n_c n)" "c_reader (n_c n') = c_reader (n_c n)" "rec (n_sys n') = rec (n_sys n)"
    "st = REDIS_ERR \<Longrightarrow> c_err (n_c n') \<noteq> 0"
proof -
  obtain r e s where so: "ws_so_error A fd (n_sys n) = ((r, e), s)" by (metis surj_pair)
  have "rec (snd (ws_so_error A fd (n_sys n))) = rec (n_sys n)" "rec (ws_close A fd s) = rec s"
    using assms(1) unfolding keeps_bytes_def by blast+
  then show "c_flags (n_c n') = c_flags (n_c n)" "c_reader (n_c n') = c_reader (n_c n)" "rec (n_sys n') = rec (n_sys n)"
    "st = REDIS_ERR \<Longrightarrow> c_err (n_c n') \<noteq> 0"
    using assms(2) so
    by (auto simp: redisCheckSocketError_def ws_call_def close_socket_def redisSetErrorFromErrno_def on_context_def
        redisSetError_def Let_def REDIS_ERR_IO_def REDIS_OK_def REDIS_ERR_def split: if_splits)
qed

lemma connected_returns:
  assumes "keeps_bytes A rec" and "conv_ok plain rec [] a m" and "\<not> a_freed m"
    and "\<And>m'. conv_ok plain rec [] a m' \<Longrightarrow> \<not> a_freed m' \<Longrightarrow> returns plain rec (\<lambda>m. True) (k m')"
  shows "returns plain rec (\<lambda>m. True) (when_connected A P k m)"
proof (cases "has_flag REDIS_CONNECTED (ctx m)")
  case False
  obtain st n where n: "redisCheckSocketError A (c_fd (ctx m)) (a_net m) = (st, n)" by fastforce
  let ?m = "m\<lparr>a_net := n\<rparr>"
  have "same_conv rec m ?m" using check_socket [OF assms(1) n] by (simp add: same_conv_def unsubscribed_def)
  note c = conv_ok_same [OF assms(2) this]
  have live: "\<not> a_freed ?m" using assms(3) by simp
  show ?thesis
  proof (cases "st = REDIS_ERR")
    case err: True
    show ?thesis
    proof (cases "ws_errno A (n_sys n) = EINPROGRESS")
      case True
      have "has_flag REDIS_CONNECTED (ctx ?m) = has_flag REDIS_CONNECTED (ctx m)"
        using check_socket(1) [OF assms(1) n] by (simp add: has_flag_def)
      then show ?thesis using True False err c n
        by (auto simp: when_connected_def redisAsyncHandleConnect_def returns_def)
    next
      case other: False
      let ?c = "run_status P (onConnect ?m) REDIS_ERR ?m"
      have e: "c_err (ctx ?c) \<noteq> 0" "\<not> a_freed ?c"
        using check_socket(4) [OF assms(1) n err] live by (simp_all add: run_status_def split: option.split)
      obtain r where r: "redisAsyncDisconnect_raw A P ?c = Some r"
        "\<forall>m'. r = Inr m' \<longrightarrow> a_freed m' \<and> (\<exists>ds a. conv_ok plain rec ds a m' \<and> (a_freed m' \<or> ds = []))"
        using Disconnect_conv [OF conv_ok_same [OF c] _ e(2) assms(1), of P] e(1) unfolding returns_def by auto
      show ?thesis using False err other n r
        by (cases r) (auto simp: when_connected_def redisAsyncHandleConnect_def returns_def REDIS_ERR_def REDIS_OK_def)
    qed
  next
    case ok: False
    let ?d = "on_c (set_flag REDIS_CONNECTED) ?m"
    let ?c = "run_status P (onConnect ?d) REDIS_OK ?d"
    have "same_conv rec ?m ?c" by (rule same_conv_trans [of _ _ ?d]) simp_all
    note c = conv_ok_same [OF c this]
    have l: "\<not> a_freed ?c" "has_flag REDIS_CONNECTED (ctx ?c)"
      using live by (auto simp: run_status_def flag_bit bit_simps split: option.split)
    then show ?thesis using assms(4) [OF c l(1)] False ok n
      by (simp add: when_connected_def redisAsyncHandleConnect_def Let_def)
  qed
qed (use assms in \<open>simp add: when_connected_def\<close>)

lemma buffer_read:
  assumes "represents (c_reader c) a"
  obtains st c' s' bs where "redisBufferRead A (c, s) = Inr (st, c', s')" "c_flags c' = c_flags c"
    "represents (c_reader c') (add_bytes bs a)" "st \<noteq> REDIS_ERR \<or> c_err c' \<noteq> 0"
    "\<forall>rec. counts_bytes A rec \<longrightarrow> rec s' = rec s @ bs"
proof -
  obtain got s1 where g: "ws_recv A (c_fd c) 2048 s = (got, s1)" by fastforce
  have rec: "rec s1 = rec s @ (case got of None \<Rightarrow> [] | Some bs \<Rightarrow> bs)" if "counts_bytes A rec" for rec
    using that g unfolding counts_bytes_def by (metis fst_conv snd_conv)
  show thesis
  proof (cases "c_err c = 0")
    case False
    then show thesis using assms
      by (intro that [of REDIS_ERR c s "[]"]) (simp_all add: redisBufferRead_def del: represents.simps)
  next
    case True
    consider (none) "got = None" | (closed) "got = Some []" | (bytes) bs where "got = Some bs" "bs \<noteq> []"
      by (cases got) auto
    then show thesis
    proof cases
      case none
      show thesis
      proof (cases "has_flag REDIS_BLOCK c")
        case block: True
        show thesis using True none g assms rec block
          by (intro that [of REDIS_ERR "io_error A s1 c" s1 "[]"])
            (simp_all add: redisBufferRead_def io_error_def redisSetError_def REDIS_ERR_IO_def del: represents.simps)
      next
        case False
        then show thesis using True none g assms rec
          by (intro that [of REDIS_OK c s1 "[]"]) (simp_all add: redisBufferRead_def REDIS_OK_def REDIS_ERR_def del: represents.simps)
      qed
    next
      case closed
      then show thesis using True g assms rec
        by (intro that [of REDIS_ERR "redisSetError REDIS_ERR_EOF ''Server closed the connection'' c" s1 "[]"])
          (simp_all add: redisBufferRead_def redisSetError_def REDIS_ERR_EOF_def del: represents.simps)
    next
      case bytes
      obtain st r where f: "redisReaderFeed bs (c_reader c) = Inr (st, r)" "represents r (add_bytes bs a)"
        using Feed_refines [OF assms] by blast
      have e: "st = REDIS_OK \<or> r_err r \<noteq> 0" using f(1)
        by (auto simp: redisReaderFeed_def Let_def split: if_splits option.splits)
      show thesis
      proof (cases "st = REDIS_OK")
        case ok: True
        then show thesis using True bytes g f rec
          by (intro that [of REDIS_OK "c\<lparr>c_reader := r\<rparr>" s1 bs])
            (simp_all add: redisBufferRead_def REDIS_OK_def REDIS_ERR_def del: represents.simps)
      next
        case False
        then show thesis using True bytes g f e rec
          by (intro that [of REDIS_ERR "redisSetError (r_err r) (r_errstr r) (c\<lparr>c_reader := r\<rparr>)" s1 bs])
            (simp_all add: redisBufferRead_def redisSetError_def del: represents.simps)
      qed
    qed
  qed
qed

lemma buffer_write:
  assumes "redisBufferWrite A (c, s) = (st, wdone, c', s')"
  shows "c_flags c' = c_flags c" "c_reader c' = c_reader c" "st = REDIS_ERR \<Longrightarrow> c_err c' \<noteq> 0"
    "keeps_bytes A rec \<Longrightarrow> rec s' = rec s"
proof -
  obtain n s1 where w: "ws_send A (c_fd c) (s_buf (c_obuf c)) s = (n, s1)" by fastforce
  have r: "rec s1 = rec s" if "keeps_bytes A rec"
    using that w unfolding keeps_bytes_def by (metis snd_conv)
  show "c_flags c' = c_flags c" "c_reader c' = c_reader c" "st = REDIS_ERR \<Longrightarrow> c_err c' \<noteq> 0"
    "keeps_bytes A rec \<Longrightarrow> rec s' = rec s"
    using assms w r
    by (auto simp: redisBufferWrite_def Let_def io_error_def redisSetError_def REDIS_OK_def REDIS_ERR_def REDIS_ERR_IO_def
        split: if_splits option.splits)
qed


lemma read_conv:
  assumes "plain \<longrightarrow> counts_bytes A rec" and "keeps_bytes A rec" and "plain \<longrightarrow> plain_program P"
    and "conv_ok plain rec [] a m" and "\<not> a_freed m"
  shows "returns plain rec (\<lambda>m. True) (redisAsyncHandleRead A P m)"
  unfolding redisAsyncHandleRead_def
proof (rule connected_returns [OF assms(2,4,5)])
  fix m :: "('a, 'b) async"
  assume c: "conv_ok plain rec [] a m" and live: "\<not> a_freed m"
  have rep: "represents (c_reader (ctx m)) a" using c by (simp add: conv_ok_def)
  obtain st c1 s1 bs where b: "redisBufferRead A (ctx m, n_sys (a_net m)) = Inr (st, c1, s1)" "c_flags c1 = c_flags (ctx m)"
    "represents (c_reader c1) (add_bytes bs a)" "st \<noteq> REDIS_ERR \<or> c_err c1 \<noteq> 0"
    "\<forall>rec. counts_bytes A rec \<longrightarrow> rec s1 = rec (n_sys (a_net m)) @ bs"
    by (rule buffer_read [OF rep, of A "n_sys (a_net m)"])
  let ?m = "with_ctx c1 s1 m"
  have "in_order rec [] (add_bytes bs a) ?m" if plain
  proof -
    have "rec s1 = rec (n_sys (a_net m)) @ bs" using b(5) assms(1) \<open>plain\<close> by simp
    then show ?thesis using c live \<open>plain\<close> b(2) by (auto simp: conv_ok_def in_order_def unsubscribed_def)
  qed
  then have c1: "conv_ok plain rec [] (add_bytes bs a) ?m" using c b(2,3) live by (simp add: conv_ok_def)
  have l1: "\<not> a_freed ?m" using live by simp
  show "returns plain rec (\<lambda>m. True)
     (case redisBufferRead A (ctx m, n_sys (a_net m)) of
         Inl e \<Rightarrow> Some (Inl e)
       | Inr (st, c, s) \<Rightarrow>
           (let m = with_ctx c s m
            in if st = REDIS_ERR then redisAsyncDisconnect_raw A P m
               else redisProcessCallbacks A P (el_call AddRead m)))"
  proof (cases "st = REDIS_ERR")
    case True
    then have "returns plain rec a_freed (redisAsyncDisconnect_raw A P ?m)"
      using Disconnect_conv [OF c1 _ l1 assms(2)] b(4) by simp
    then show ?thesis using True by (auto simp: b(1) returns_def)
  next
    case False
    have "conv_ok plain rec [] (add_bytes bs a) (el_call AddRead ?m)" by (rule conv_ok_same [OF c1]) simp
    moreover have "\<not> a_freed (el_call AddRead ?m)" using live by simp
    ultimately show ?thesis using async_loop_returns [OF assms(2,3)] False by (simp add: b(1) redisProcessCallbacks_def)
  qed
qed

lemma write_conv:
  assumes "keeps_bytes A rec" and "conv_ok plain rec [] a m" and "\<not> a_freed m"
  shows "returns plain rec (\<lambda>m. True) (redisAsyncHandleWrite A P m)"
  unfolding redisAsyncHandleWrite_def
proof (rule connected_returns [OF assms])
  fix m :: "('a, 'b) async"
  assume c: "conv_ok plain rec [] a m" and live: "\<not> a_freed m"
  obtain st wdone c1 s1 where b: "redisBufferWrite A (ctx m, n_sys (a_net m)) = (st, wdone, c1, s1)" by (metis prod_cases4)
  let ?m = "with_ctx c1 s1 m"
  have "same_conv rec m ?m" using buffer_write [OF b] assms(1) by (simp add: same_conv_def unsubscribed_def)
  note c1 = conv_ok_same [OF c this]
  have l1: "\<not> a_freed ?m" using live by simp
  show "returns plain rec (\<lambda>m. True)
     (case redisBufferWrite A (ctx m, n_sys (a_net m)) of
         (st, wdone, c, s) \<Rightarrow>
           (let m = with_ctx c s m
            in if st = REDIS_ERR then redisAsyncDisconnect_raw A P m
               else let m = (if wdone \<noteq> Some True then el_call AddWrite m else el_call DelWrite m)
                    in Some (Inr (el_call AddRead m))))"
  proof (cases "st = REDIS_ERR")
    case True
    then have "returns plain rec a_freed (redisAsyncDisconnect_raw A P ?m)"
      using Disconnect_conv [OF c1 _ l1 assms(1)] buffer_write(3) [OF b] by simp
    then show ?thesis using True by (auto simp: b returns_def)
  next
    case False
    have "conv_ok plain rec [] a (el_call AddRead (el_call h ?m))" for h
      by (rule conv_ok_same [OF c1 same_conv_trans [OF same_conv_flags(5) same_conv_flags(5)]])
    then show ?thesis using False by (cases "wdone \<noteq> Some True") (auto simp: b returns_def Let_def)
  qed
qed

text \<open>The calls outside a callback.\<close>

lemma command_conv:
  assumes "redisAsyncCommand_raw cb cmd len m = Inr (st, m')" and "conv_ok plain rec [] a m" and "\<not> a_freed m"
    and "plain \<longrightarrow> \<not> subscribes cmd"
  shows "conv_ok plain rec [] a m'"
proof -
  have e: "frame m m'" "adds m m'" using command_effect [OF assms(1)] by simp_all
  have u: "unsubscribed m'" if plain
    using plain_command [OF _ _ assms(1)] assms(2-4) that by (auto simp: conv_ok_def in_order_def)
  have "in_order rec [] a m'" if plain
    using assms(2,3) e(1) u that by (auto simp: conv_ok_def in_order_def frame_def)
  then show ?thesis using assms(2,3) e by (auto simp: conv_ok_def frame_def adds_def)
qed

lemma request_conv: "conv_ok plain rec [] a m \<Longrightarrow> conv_ok plain rec [] a (request_free m)"
  "conv_ok plain rec [] a m \<Longrightarrow> conv_ok plain rec [] a (request_disconnect m)"
  unfolding request_free_def request_disconnect_def by (rule conv_ok_same, assumption, simp)+

lemma free_conv:
  assumes "keeps_bytes A rec" and "conv_ok plain rec [] a m" and "\<not> a_freed m"
  shows "returns plain rec (\<lambda>m. True) (redisAsyncFree A P m)" "returns plain rec (\<lambda>m. True) (redisAsyncDisconnect A P m)"
proof -
  note c = request_conv [OF assms(2)]
  have bits: "\<not> has_flag REDIS_IN_CALLBACK (ctx (request_free m))" "\<not> has_flag REDIS_IN_CALLBACK (ctx (request_disconnect m))"
    using assms(2) request_in_callback [of m] by (simp_all add: flag_bit conv_ok_def)
  have live: "\<not> a_freed (request_free m)" "\<not> a_freed (request_disconnect m)"
    using assms(3) by (simp_all add: request_free_def request_disconnect_def)
  have "idle_context (request_free m)" using request_effect(5) [of m] bits(1) by (simp add: idle_context_def flag_bit)
  then have "returns plain rec a_freed (redisAsyncFree_raw A P (request_free m))" using Free_conv [OF c(1) _ live(1) assms(1)] by simp
  then show "returns plain rec (\<lambda>m. True) (redisAsyncFree A P m)" using bits(1) by (auto simp: redisAsyncFree_def returns_def)
  have "returns plain rec a_freed (redisAsyncDisconnect_raw A P (request_disconnect m))"
    using Disconnect_conv [OF c(2) _ live(2) assms(1)] request_effect(6) [of m] by simp
  then show "returns plain rec (\<lambda>m. True) (redisAsyncDisconnect A P m)"
    using bits(2) c(2) by (auto simp: redisAsyncDisconnect_def returns_def Let_def)
qed


section \<open>Conversations\<close>

datatype async_event =
    Ev_call async_call
  | Ev_on_connect "nat option"
  | Ev_on_disconnect "nat option"
  | Ev_hooks "async_hook \<Rightarrow> bool"
  | Ev_readable
  | Ev_writable

fun async_step :: "'s winsock \<Rightarrow> 'u program \<Rightarrow> async_event \<Rightarrow> ('s, 'u) async \<Rightarrow> ('s, 'u) async res option" where
  "async_step A P (Ev_call (Call_command cb argv)) m = Some (rbind (redisAsyncCommandArgv cb argv m) (\<lambda>(st, m). Inr m))"
| "async_step A P (Ev_call (Call_format cb format ap)) m = Some (rbind (redisvAsyncCommand P cb format ap m) (\<lambda>(st, m). Inr m))"
| "async_step A P (Ev_call Call_disconnect) m = redisAsyncDisconnect A P m"
| "async_step A P (Ev_call Call_free) m = redisAsyncFree A P m"
| "async_step A P (Ev_on_connect fn) m = Some (Inr (snd (redisAsyncSetConnectCallback fn m)))"
| "async_step A P (Ev_on_disconnect fn) m = Some (Inr (snd (redisAsyncSetDisconnectCallback fn m)))"
| "async_step A P (Ev_hooks hs) m = Some (Inr (m\<lparr>ac_hooks := hs\<rparr>))"
| "async_step A P Ev_readable m = redisAsyncHandleRead A P m"
| "async_step A P Ev_writable m = redisAsyncHandleWrite A P m"

text \<open>Events until the context is freed.\<close>

fun async_run :: "'s winsock \<Rightarrow> 'u program \<Rightarrow> async_event list \<Rightarrow> ('s, 'u) async \<Rightarrow> ('s, 'u) async res option" where
  "async_run A P [] m = Some (Inr m)"
| "async_run A P (ev # evs) m = (if a_freed m then Some (Inr m) else obind (async_step A P ev m) (async_run A P evs))"

fun plain_event :: "'u program \<Rightarrow> async_event \<Rightarrow> bool" where
  "plain_event P (Ev_call x) = plain_call P x"
| "plain_event P _ = True"

lemma returns_command:
  assumes "rbind x (\<lambda>(cmd, len). redisAsyncCommand_raw cb cmd len m) = y" and "conv_ok plain rec [] a m"
    and "\<not> a_freed m" and "plain \<longrightarrow> no_subscription x"
  shows "returns plain rec (\<lambda>m. True) (Some (rbind y (\<lambda>(st, m). Inr m)))"
proof (cases y)
  case (Inr z)
  obtain st m' where z: "z = (st, m')" by fastforce
  obtain cmd len where x: "x = Inr (cmd, len)" using assms(1) Inr by (cases x) auto
  have "conv_ok plain rec [] a m'"
    by (rule command_conv [OF _ assms(2,3), of cb cmd len st]) (use assms(1,4) Inr z x in \<open>auto simp: no_subscription_def\<close>)
  then show ?thesis using Inr z by (auto simp: returns_def)
qed (simp add: returns_def)

lemma step_conv:
  assumes "plain \<longrightarrow> counts_bytes A rec" and "keeps_bytes A rec" and "plain \<longrightarrow> plain_program P"
    and "conv_ok plain rec [] a m" and "\<not> a_freed m" and "plain \<longrightarrow> plain_event P ev"
  shows "returns plain rec (\<lambda>m. True) (async_step A P ev m)"
proof -
  have same: "returns plain rec (\<lambda>m. True) (Some (Inr m'))" if "same_conv rec m m'" for m'
    using conv_ok_same [OF assms(4) that] by (auto simp: returns_def)
  show ?thesis
  proof (cases "(A, P, ev, m)" rule: async_step.cases [case_names command fmt disc free conn disconn hooks readable writable])
    case (command A1 P1 cb argv m1)
    then show ?thesis using returns_command [OF _ assms(4,5), of "redisFormatCommandArgv argv" cb] assms(6)
      by (simp add: redisAsyncCommandArgv_def)
  next
    case (fmt A1 P1 cb format ap m1)
    then show ?thesis using returns_command [OF _ assms(4,5), of "redisvFormatCommand (p_vprintf P) format ap" cb] assms(6)
      by (simp add: redisvAsyncCommand_def)
  qed (use assms free_conv [OF assms(2,4,5)] read_conv [OF assms(1-5)] write_conv [OF assms(2,4,5)] in
      \<open>auto intro!: same simp: redisAsyncSetConnectCallback_def redisAsyncSetDisconnectCallback_def same_conv_def unsubscribed_def\<close>)
qed


lemma run_conv:
  assumes "plain \<longrightarrow> counts_bytes A rec" and "keeps_bytes A rec" and "plain \<longrightarrow> plain_program P"
  shows "conv_ok plain rec ds a m \<Longrightarrow> a_freed m \<or> ds = [] \<Longrightarrow> plain \<longrightarrow> (\<forall>ev \<in> set evs. plain_event P ev) \<Longrightarrow>
    returns plain rec (\<lambda>m. True) (async_run A P evs m)"
proof (induction evs arbitrary: ds a m)
  case Nil
  then show ?case by (auto simp: returns_def)
next
  case (Cons ev evs)
  show ?case
  proof (cases "a_freed m")
    case True
    then show ?thesis using Cons.prems(1) by (auto simp: returns_def)
  next
    case False
    then have "returns plain rec (\<lambda>m. True) (async_step A P ev m)"
      using step_conv [OF assms, of a m ev] Cons.prems by simp
    then obtain r where r: "async_step A P ev m = Some r"
      "\<forall>m'. r = Inr m' \<longrightarrow> (\<exists>ds a. conv_ok plain rec ds a m' \<and> (a_freed m' \<or> ds = []))"
      unfolding returns_def by blast
    show ?thesis
    proof (cases r)
      case (Inr m1)
      then obtain ds' a' where "conv_ok plain rec ds' a' m1" "a_freed m1 \<or> ds' = []" using r(2) by blast
      then show ?thesis using Cons.IH [of ds' a' m1] Cons.prems(3) False r(1) Inr by simp
    qed (simp add: returns_def r(1) False)
  qed
qed

text \<open>A connection as it is made.\<close>

definition fresh :: "('s, 'u) async \<Rightarrow> bool" where
  "fresh m \<longleftrightarrow>
     \<not> has_flag REDIS_BLOCK (ctx m) \<and> \<not> has_flag REDIS_IN_CALLBACK (ctx m) \<and> c_reader (ctx m) = redisReaderCreate \<and>
     accepted m = [] \<and> taken_cbs m = [] \<and> called m = [] \<and> ac_replies m = [] \<and> \<not> a_freed m \<and> unsubscribed m"

definition same_reader :: "'s net \<Rightarrow> 's net \<Rightarrow> bool" where
  "same_reader n n' \<longleftrightarrow> c_reader (n_c n') = c_reader (n_c n) \<and> (\<forall>k. k \<noteq> 1 \<longrightarrow> bit (c_flags (n_c n')) k = bit (c_flags (n_c n)) k)"

lemma same_reader_trans [trans]: "same_reader a b \<Longrightarrow> same_reader b c \<Longrightarrow> same_reader a c" by (simp add: same_reader_def)

lemma same_reader_parts [simp]:
  "same_reader n n" "same_reader n (snd (ws_call f n))" "same_reader n (n\<lparr>errnox := e\<rparr>)"
  "same_reader k (set_errno A n) = same_reader k n" "same_reader k (close_socket A fd n) = same_reader k n"
  "same_reader k (redisSetErrorFromErrno A type p n) = same_reader k n"
  "same_reader k (on_context (redisSetError type t) n) = same_reader k n"
  "same_reader k (n\<lparr>errnox := e\<rparr>) = same_reader k n"
  by (simp_all add: same_reader_def ws_call_def redisSetErrorFromErrno_def on_context_def redisSetError_def Let_def split_def set_errno_def close_socket_def)

lemma same_reader_call: "ws_call f n = (x, n') \<Longrightarrow> same_reader k n' = same_reader k n"
  by (cases "f (n_sys n)") (auto simp: ws_call_def same_reader_def)

lemma same_reader_steps:
  "same_reader n (snd (redisCreateSocket A n))" "same_reader n (snd (redisSetBlocking A fd b n))"
  "same_reader n (snd (redisSetTcpNoDelay A fd n))" "same_reader n (snd (redisContextWaitReady A fd tv n))"
  by (auto simp: redisCreateSocket_def redisSetBlocking_def redisSetTcpNoDelay_def redisContextWaitReady_def Let_def
      same_reader_call split: prod.split)

lemma same_reader_connect: "same_reader n (snd (connect_socket A s sa b tv n))"
proof -
  obtain r n1 where 1: "ws_call (ws_connect A s sa) n = (r, n1)" by fastforce
  have "same_reader n n1" using same_reader_call [OF 1, of n] by simp
  moreover have "same_reader n1 (snd (redisContextWaitReady A s tv (set_errno A n1)))"
    using same_reader_steps(4) [of "set_errno A n1" A s tv] by (simp add: same_reader_def set_errno_def)
  ultimately show ?thesis using same_reader_trans by (auto simp: connect_socket_def 1 Let_def)
qed

lemma same_reader_finish: "same_reader n (snd (finish_connect A s b n))"
proof -
  obtain r n1 where 1: "(if b then redisSetBlocking A s True n else (REDIS_OK, n)) = (r, n1)" by fastforce
  have s1: "same_reader n n1" using 1 same_reader_steps(2) [of n A s True] by (auto split: if_splits)
  obtain r2 n2 where 2: "redisSetTcpNoDelay A s n1 = (r2, n2)" by fastforce
  have "same_reader n n2" using same_reader_steps(3) [of n1 A s] 2 s1 same_reader_trans by simp
  moreover have "same_reader n2 (on_context (\<lambda>c. set_flag REDIS_CONNECTED (c\<lparr>c_fd := s\<rparr>)) n2)"
    by (simp add: same_reader_def on_context_def bit_simps)
  ultimately show ?thesis using s1 same_reader_trans by (auto simp: finish_connect_def 1 2)
qed

lemma same_reader_resolve:
  assumes "resolve_address A addr port s n = Inr (sa, n')"
  shows "same_reader n n'"
proof -
  obtain a n1 where 1: "ws_call (ws_string_to_address A (addr @ CHR '':'' # dec_of_int port)) n = (a, n1)" by fastforce
  obtain he n2 where 2: "ws_call (ws_gethostbyname A addr) n1 = (he, n2)" by fastforce
  have "same_reader n n1" "same_reader n n2"
    using same_reader_call [OF 1, of n] same_reader_call [OF 2, of n] by simp_all
  then show ?thesis using assms 1 2 by (auto simp: resolve_address_def sprintf_s_def split: option.splits if_splits)
qed

lemma same_reader_tcp:
  assumes "redisContextConnectTcp A addr port tv n = Inr (st, n')"
  shows "same_reader n n'"
proof -
  obtain s n1 where 1: "redisCreateSocket A n = (s, n1)" by fastforce
  obtain r n2 where 2: "redisSetBlocking A s False n1 = (r, n2)" by fastforce
  have s: "same_reader n n1" "same_reader n1 n2"
    using same_reader_steps(1) [of n A] same_reader_steps(2) [of n1 A s False] 1 2 by simp_all
  note s2 = same_reader_trans [OF s]
  show ?thesis
  proof (cases "s < 0 \<or> r \<noteq> REDIS_OK")
    case True
    then show ?thesis using assms 1 2 s(1) s2 by (auto simp: redisContextConnectTcp_def Let_def split: if_splits)
  next
    case False
    then obtain sa n3 where 3: "resolve_address A addr port s n2 = Inr (sa, n3)"
      using assms 1 2 by (cases "resolve_address A addr port s n2") (auto simp: redisContextConnectTcp_def Let_def)
    note s3 = same_reader_trans [OF s2 same_reader_resolve [OF 3]]
    show ?thesis
    proof (cases sa)
      case None
      then show ?thesis using assms 1 2 3 False s3 by (simp add: redisContextConnectTcp_def Let_def)
    next
      case (Some z)
      then obtain h p where z: "sa = Some (Some h, p)"
        using assms 1 2 3 False by (cases z; cases "fst z") (auto simp: redisContextConnectTcp_def Let_def)
      let ?b = "has_flag REDIS_BLOCK (n_c n)"
      obtain r4 n4 where 4: "connect_socket A s (h, p) ?b tv n3 = (r4, n4)" by fastforce
      have s4: "same_reader n n4" using same_reader_trans [OF s3] same_reader_connect [of n3 A s "(h, p)" ?b tv] 4 by simp
      show ?thesis
      proof (cases "r4 = REDIS_OK")
        case True
        then have "finish_connect A s ?b n4 = (st, n')"
          using assms 1 2 3 False z 4 by (simp add: redisContextConnectTcp_def Let_def)
        then show ?thesis using same_reader_trans [OF s4 same_reader_finish [of n4 A s ?b]] by simp
      qed (use assms 1 2 3 False z 4 s4 in \<open>simp add: redisContextConnectTcp_def Let_def\<close>)
    qed
  qed
qed

lemma connect_fresh:
  assumes "redisAsyncConnect A ip port eno s u = Inr m"
  shows "fresh m"
proof -
  obtain n where n: "redisConnectNonBlock A ip port eno s = Inr n" "m = redisAsyncCopyError (redisAsyncInitialize u n)"
    using assms by (auto simp: redisAsyncConnect_def rbind_Inr_conv)
  obtain c s1 where c: "redisContextInit A s = (Some c, s1)"
    using n(1) by (cases "redisContextInit A s"; cases "fst (redisContextInit A s)")
      (auto simp: redisConnectNonBlock_def connect_with_def)
  obtain st where "redisContextConnectTcp A ip port None \<lparr> n_c = clear_flag REDIS_BLOCK c, errnox = eno, n_sys = s1 \<rparr> = Inr (st, n)"
    using n(1) c by (auto simp: redisConnectNonBlock_def connect_with_def rbind_Inr_conv)
  note k = same_reader_tcp [OF this]
  have "c_reader c = redisReaderCreate" "c_flags c = 0"
    using c by (auto simp: redisContextInit_def Let_def split: prod.splits if_splits)
  then have "c_reader (n_c n) = redisReaderCreate" "\<And>k. k \<noteq> 1 \<Longrightarrow> \<not> bit (c_flags (n_c n)) k"
    using k by (simp_all add: same_reader_def)
  then show ?thesis using n(2)
    by (simp add: fresh_def redisAsyncCopyError_def redisAsyncInitialize_def on_context_def flag_bit unsubscribed_def bit_simps)
qed


text \<open>
  C28. Every handler returns and no callback is lost. On a connection just made, after any calls of
  the program and events of the event library, with whatever the sockets and the callbacks do: the run
  returns, and unless it faults, the callbacks of the regular commands that were accepted are, in
  order, those that were taken, each once, and those still waiting; none waits once the context is
  freed.
\<close>

theorem no_callback_is_lost:
  assumes "fresh m"
  shows "\<exists>r. async_run A P evs m = Some r \<and>
    (\<forall>m'. r = Inr m' \<longrightarrow>
       accepted m' = map fst (taken_cbs m') @ ac_replies m' \<and> (a_freed m' \<longrightarrow> ac_replies m' = []))"
proof -
  have "conv_ok False (\<lambda>s. []) [] (Going [] []) m"
    using assms create_represents by (simp add: fresh_def conv_ok_def flag_bit del: represents.simps)
  moreover have "keeps_bytes A (\<lambda>s. [])" by (simp add: keeps_bytes_def)
  ultimately have "returns False (\<lambda>s. []) (\<lambda>m. True) (async_run A P evs m)"
    using run_conv [of False A "\<lambda>s. []" P "[]" "Going [] []" m evs] by simp
  then show ?thesis unfolding returns_def by (auto simp: conv_ok_def)
qed

text \<open>
  C27. Replies in order. When neither the program nor its callbacks subscribe: in every state of a
  conversation on a connection just made, there is a number \<open>k\<close> such that the first \<open>k\<close> callbacks
  taken were taken for the first \<open>k\<close> replies in the bytes received, in order, the others, taken
  when the context was freed, for null, and the calls of callbacks were exactly the calls of those taken
  that have a function, each once, with its reply or null.
\<close>

theorem replies_in_order:
  assumes "fresh m" and "plain_program P" and "\<forall>ev \<in> set evs. plain_event P ev" and "counts_bytes A rec"
    and "rec (n_sys (a_net m)) = []" and "async_run A P evs m = Some (Inr m')"
  shows "\<exists>k. k \<le> length (stream [] (rec (n_sys (a_net m')))) \<and>
    map snd (taken_cbs m') = map Some (take k (stream [] (rec (n_sys (a_net m'))))) @ replicate (length (taken_cbs m') - k) None \<and>
    (\<not> a_freed m' \<longrightarrow> k = length (taken_cbs m')) \<and>
    called m' = filter (\<lambda>(cb, r). cb_fn cb \<noteq> None) (taken_cbs m')"
proof -
  have "in_order rec [] (Going [] []) m"
    using assms(1,5) unfolding in_order_def fresh_def by (intro conjI exI [of _ "[]"] exI [of _ 0]) simp_all
  then have "conv_ok True rec [] (Going [] []) m"
    using assms(1) create_represents by (simp add: fresh_def conv_ok_def flag_bit del: represents.simps)
  then have "returns True rec (\<lambda>m. True) (async_run A P evs m)"
    using assms(2-4) by (intro run_conv) (auto simp: counts_bytes_def)
  then obtain ds a where c: "in_order rec ds a m'" using assms(6) by (auto simp: returns_def conv_ok_def)
  then obtain rs n where rs: "map snd (taken_cbs m') = map Some rs @ replicate n None"
    "\<And>w. stream [] (rec (n_sys (a_net m')) @ w) = rs @ ds @ stream_of (add_bytes w a)" "\<not> a_freed m' \<longrightarrow> n = 0"
    unfolding in_order_def by blast
  have s: "stream [] (rec (n_sys (a_net m'))) = rs @ ds @ stream_of a" using rs(2) [of "[]"] by simp
  have len: "length (taken_cbs m') = length rs + n" using arg_cong [OF rs(1), of length] by simp
  have call: "concat (map (\<lambda>(cb, r). calls cb r) xs) = filter (\<lambda>(cb, r). cb_fn cb \<noteq> None) xs" for xs
    by (induction xs) (auto simp: calls_def)
  show ?thesis using rs(1,3) c len unfolding s in_order_def call by (intro exI [of _ "length rs"]) simp
qed


text \<open>A server that takes everything, keeps what it sent, and gives nine bytes at a time.\<close>

definition nine_bytes :: "(string \<times> string \<times> string) winsock" where
  "nine_bytes =
     \<lparr> ws_startup = (\<lambda>s. (0, s)), ws_socket = (\<lambda>s. (1, s)),
       ws_setsockopt = (\<lambda>fd t s. (0, s)), ws_ioctl_nbio = (\<lambda>fd f s. (0, s)),
       ws_string_to_address = (\<lambda>t s. (Some (''127.0.0.1'', 6379), s)),
       ws_gethostbyname = (\<lambda>t s. (Some t, s)), ws_connect = (\<lambda>fd a s. (0, s)),
       ws_select = (\<lambda>fd tv s. ((1, True), s)), ws_so_error = (\<lambda>fd s. ((0, 0), s)),
       ws_close = (\<lambda>fd s. s), ws_send = (\<lambda>fd t (taken, s). (Some (length t), (taken @ t, s))),
       ws_recv = (\<lambda>fd m (taken, inp, given). (Some (take 9 inp), (taken, drop 9 inp, given @ take 9 inp))),
       ws_last_error = (\<lambda>s. 0), ws_errno = (\<lambda>s. 0), ws_strerror = (\<lambda>e. []) \<rparr>"

definition demo_start :: "(string \<times> string \<times> string, nat list) async" where
  "demo_start =
     redisAsyncInitialize []
       \<lparr> n_c = demo_context\<lparr>c_flags := REDIS_CONNECTED\<rparr>, errnox = 0, n_sys = ([], ''+PONG'' @ [CR, LF] @ '':7'' @ [CR, LF], []) \<rparr>"

text \<open>Three commands, of which two are answered, one of these without a callback, before the connection is freed.\<close>

definition demo_conversation :: "async_event list" where
  "demo_conversation =
     [Ev_call (Call_command \<lparr>cb_fn = Some 1, cb_privdata = 1\<rparr> [(''PING'', None)]),
      Ev_call (Call_command \<lparr>cb_fn = None, cb_privdata = 2\<rparr> [(''INCR'', None), (''x'', None)]),
      Ev_writable, Ev_readable,
      Ev_call (Call_command \<lparr>cb_fn = Some 1, cb_privdata = 3\<rparr> [(''PING'', None)]),
      Ev_readable, Ev_call Call_free]"

lemma demo_fresh: "fresh demo_start"
proof -
  have "\<not> has_flag REDIS_BLOCK (ctx demo_start)" "\<not> has_flag REDIS_IN_CALLBACK (ctx demo_start)" by code_simp+
  moreover have "unsubscribed demo_start"
    by (simp add: demo_start_def redisAsyncInitialize_def on_context_def unsubscribed_def bit_simps)
  ultimately show ?thesis
    by (simp add: fresh_def demo_start_def redisAsyncInitialize_def on_context_def demo_context_def)
qed

lemma demo_result:
  "map_option (map_sum id (\<lambda>m. (called m, a_freed m, length (taken_cbs m), a_user m))) (async_run nine_bytes demo_program demo_conversation demo_start) =
     Some (Inr ([(\<lparr>cb_fn = Some 1, cb_privdata = 1\<rparr>, Some (Obj_text REDIS_REPLY_STATUS ''PONG'')), (\<lparr>cb_fn = Some 1, cb_privdata = 3\<rparr>, None)],
       True, 3, [1, 3]))"
  by code_simp

theorem no_callback_is_lost_witness:
  "\<exists>m'. async_run nine_bytes demo_program demo_conversation demo_start = Some (Inr m') \<and>
     accepted m' = map fst (taken_cbs m') \<and> length (accepted m') = 3"
proof -
  obtain m' where m': "async_run nine_bytes demo_program demo_conversation demo_start = Some (Inr m')" "a_freed m'" "length (taken_cbs m') = 3"
    using demo_result by (cases "async_run nine_bytes demo_program demo_conversation demo_start";
        cases "the (async_run nine_bytes demo_program demo_conversation demo_start)") auto
  then show ?thesis using no_callback_is_lost [OF demo_fresh, of nine_bytes demo_program demo_conversation] by auto
qed

theorem replies_in_order_witness:
  "\<exists>m' k. async_run nine_bytes demo_program demo_conversation demo_start = Some (Inr m') \<and>
     map snd (taken_cbs m') = map Some (take k (stream [] (snd (snd (n_sys (a_net m')))))) @ replicate (3 - k) None"
proof -
  obtain m' where m': "async_run nine_bytes demo_program demo_conversation demo_start = Some (Inr m')" "length (taken_cbs m') = 3"
    using demo_result by (cases "async_run nine_bytes demo_program demo_conversation demo_start";
        cases "the (async_run nine_bytes demo_program demo_conversation demo_start)") auto
  have p: "plain_program demo_program" by (simp add: plain_program_def demo_program_def)
  have c: "counts_bytes nine_bytes (\<lambda>s. snd (snd s))"
    by (simp add: counts_bytes_def keeps_bytes_def nine_bytes_def split: prod.splits)
  have e: "\<forall>ev \<in> set demo_conversation. plain_event demo_program ev"
    unfolding demo_conversation_def by (simp; code_simp)
  have r: "snd (snd (n_sys (a_net demo_start))) = []" by (simp add: demo_start_def redisAsyncInitialize_def on_context_def)
  show ?thesis using replies_in_order [OF demo_fresh p e c r m'(1)] m' by auto
qed


section \<open>Disconnecting inside a callback\<close>

text \<open>
  C30. A callback that disconnects while replies are pending. Once the commands are sent, if a callback
  asks for a clean disconnect and the reply of a later command has not yet arrived, the loop
  does not wait for it, as the comment says, but fails an assertion: it looks at
  the output buffer alone.
\<close>

theorem disconnect_in_callback_fails:
  assumes "\<not> has_flag REDIS_BLOCK (ctx m)" and "\<not> has_flag REDIS_FREEING (ctx m)" and "c_err (ctx m) = 0"
    and "s_buf (c_obuf (ctx m)) = []" and "represents (c_reader (ctx m)) a"
    and "get_reply a = (Some x, a1)" and "get_reply a1 = (None, Going gs u)"
    and "ac_replies m = cb # later # q" and "cb_fn cb = Some fn"
    and "p_reply P fn (cb_privdata cb) (Some x) (ac_err m) (a_user m) = Call Call_disconnect k" and "k REDIS_OK = Return v"
  shows "redisProcessCallbacks A P m = Some (Inl Assert_fail)"
proof -
  have nb: "\<not> bit (c_flags (ctx m)) 0" using assms(1) by (simp add: flag_bit)
  obtain st c where c: "redisGetReply A (ctx m, n_sys (a_net m)) = Some (Inr (st, Some x, c, n_sys (a_net m)))"
    "c_flags c = c_flags (ctx m)" "c_obuf c = c_obuf (ctx m)" "represents (c_reader c) a1" "st = REDIS_OK" "c_err c = 0"
    by (rule poll_async [OF nb assms(5), of A "n_sys (a_net m)"]) (auto simp: assms(3,6))
  let ?m = "(with_ctx c (n_sys (a_net m)) m)\<lparr>ac_replies := later # q, taken_cbs := taken_cbs m @ [(cb, Some x)]\<rparr>"
  let ?in = "(on_c (set_flag REDIS_IN_CALLBACK) ?m)\<lparr>called := called m @ [(cb, Some x)]\<rparr>"
  let ?out = "on_c (clear_flag REDIS_IN_CALLBACK) ((request_disconnect ?in)\<lparr>a_user := v\<rparr>)"
  have "take_callback x None (with_ctx c (n_sys (a_net m)) m) = Inr (False, Some cb, ?m)"
    using assms(8) by (simp add: take_callback_def shift_reply_def redisShiftCallback_def)
  moreover have "ac_err ?m = ac_err m" "a_user ?m = a_user m" by (simp_all add: with_ctx_def)
  then have "redisRunCallback P cb (Some x) ?m = Inr ?out"
    using assms(9-11) by (simp add: redisRunCallback_def Let_def)
  moreover have "\<not> has_flag REDIS_FREEING (ctx ?out)"
    using assms(2) c(2) by (simp add: request_disconnect_def flag_bit bit_simps)
  ultimately have 1: "process_reply A P None m = Some (Inr (True, Some cb, ?out))"
    using c(1,5) assms(9) by (simp add: process_reply_def run_reply_def REDIS_OK_def Let_def)
  have nb': "\<not> bit (c_flags (ctx ?out)) 0" using nb c(2) by (simp add: request_disconnect_def bit_simps)
  have rep: "represents (c_reader (ctx ?out)) a1" using c(4) by (simp add: request_disconnect_def del: represents.simps)
  obtain st' d where d: "redisGetReply A (ctx ?out, n_sys (a_net ?out)) = Some (Inr (st', None, d, n_sys (a_net ?out)))"
    "c_flags d = c_flags (ctx ?out)" "c_obuf d = c_obuf (ctx ?out)" "represents (c_reader d) (Going gs u)"
    "st' = REDIS_OK" "c_err d = c_err (ctx ?out)"
    by (rule poll_async [OF nb' rep, of A "n_sys (a_net ?out)"]) (auto simp: assms(7))
  have "has_flag REDIS_DISCONNECTING d" using d(2) by (simp add: request_disconnect_def flag_bit bit_simps)
  moreover have "sdslen (c_obuf d) = 0" using d(3) c(3) assms(4) by (simp add: request_disconnect_def sdslen_def)
  moreover have "redisAsyncDisconnect_raw A P (with_ctx d (n_sys (a_net ?out)) ?out) = Some (Inl Assert_fail)"
    using d(6) c(6)
    by (auto simp: redisAsyncDisconnect_raw_def Let_def redisAsyncCopyError_def request_disconnect_def redisShiftCallback_def REDIS_OK_def REDIS_ERR_def)
  ultimately have 2: "process_reply A P (Some cb) ?out = Some (Inl Assert_fail)"
    using d(1,5) by (simp add: process_reply_def ends_def Let_def)
  show ?thesis
    unfolding redisProcessCallbacks_def
    by (subst process_callbacks.simps, subst 1, simp, subst process_callbacks.simps, subst 2, simp)
qed


definition demo_reader :: redis_reader where
  "demo_reader = snd (projr (redisReaderFeed (encode (Obj_text REDIS_REPLY_STATUS ''PONG'')) redisReaderCreate))"

definition demo_pending :: "(string \<times> string \<times> string, nat list) async" where
  "demo_pending =
     (redisAsyncInitialize []
        \<lparr> n_c = demo_context\<lparr>c_flags := REDIS_CONNECTED, c_reader := demo_reader\<rparr>, errnox = 0, n_sys = ([], [], []) \<rparr>)
       \<lparr>ac_replies := [\<lparr>cb_fn = Some 0, cb_privdata = 7\<rparr>, \<lparr>cb_fn = Some 1, cb_privdata = 8\<rparr>]\<rparr>"

theorem disconnect_in_callback_fails_witness:
  "redisProcessCallbacks nine_bytes demo_program demo_pending = Some (Inl Assert_fail)"
proof -
  let ?x = "Obj_text REDIS_REPLY_STATUS ''PONG''"
  obtain st r where f: "redisReaderFeed (encode ?x) redisReaderCreate = Inr (st, r)" "represents r (Going [] (encode ?x))"
    using Feed_refines [OF create_represents, of "encode ?x"] by auto
  have rep: "represents (c_reader (ctx demo_pending)) (Going [] (encode ?x))"
    using f by (simp add: demo_pending_def redisAsyncInitialize_def on_context_def demo_reader_def del: represents.simps encode.simps)
  have e: "encodable 0 ?x" by (simp add: reply_types)
  have g: "get_reply (Going [] (encode ?x)) = (Some ?x, Going [] [])"
    using decode_encode [of "[]" ?x "[]"] e by (simp add: get_reply.simps del: encode.simps)
  have c: "\<not> has_flag REDIS_BLOCK (ctx demo_pending)" "\<not> has_flag REDIS_FREEING (ctx demo_pending)"
    "c_err (ctx demo_pending) = 0" "s_buf (c_obuf (ctx demo_pending)) = []"
    by (simp_all add: demo_pending_def redisAsyncInitialize_def on_context_def demo_context_def flag_bit bit_simps sdsempty_def sdsnewlen_def)
  show ?thesis
    by (rule disconnect_in_callback_fails [OF c rep g get_nothing, where cb = "\<lparr>cb_fn = Some 0, cb_privdata = 7\<rparr>"
          and later = "\<lparr>cb_fn = Some 1, cb_privdata = 8\<rparr>" and q = "[]" and fn = 0 and k = "\<lambda>st. Return [7]" and v = "[7]"])
      (simp_all add: demo_pending_def redisAsyncInitialize_def demo_program_def)
qed

end
