(* ===== verification/Redis_Subscriptions.thy ===== *)
theory Redis_Subscriptions
  imports Redis_Conversation
begin

text \<open>
  Subscriptions on an asynchronous connection: the arguments of a command are found in its text, a
  subscription registers its callback for every channel or pattern, and messages find it.
\<close>

section \<open>The arguments of a command\<close>

definition bulks :: "string list \<Rightarrow> string" where
  "bulks args = concat (map (\<lambda>t. encode (Obj_text REDIS_REPLY_STRING t)) args)"

lemma bulks_simps:
  "bulks [] = []"
  "bulks (t # args) = CHR ''$'' # dec_of_nat (length t) @ [CR, LF] @ t @ [CR, LF] @ bulks args"
  by (simp_all add: bulks_def)

lemma strchr_skip: "\<forall>x \<in> set ds. x \<noteq> c \<and> x \<noteq> NUL \<Longrightarrow> strchr c (ds @ c # r) = Some (c # r)"
  by (induction ds) auto

lemma digits_skip: "x \<in> set (dec_of_nat n) \<Longrightarrow> x \<noteq> CR \<and> x \<noteq> NUL \<and> x \<noteq> CHR ''$''"
  using dec_of_nat_digits [of n] by (fastforce simp: is_digit_def NUL_def)

lemma length_atoi:
  assumes "n < 2 ^ 31"
  shows "atoi (dec_of_nat n @ CR # r) = int n"
proof -
  have "leading_int (dec_of_nat n @ CR # r) = Some (int n)" by (rule leading_int_dec_nat) (simp add: is_digit_def)
  then show ?thesis using assms by (simp add: atoi_def clamp_def)
qed

lemma next_bulk:
  assumes "length t < 2 ^ 31"
  shows "nextArgument (bulks (t # args)) = Inr (Some (t @ [CR, LF] @ bulks args, length t, bulks args))"
proof -
  have "strchr CR (CHR ''$'' # dec_of_nat (length t) @ CR # LF # t @ CR # LF # bulks args) = Some (CR # LF # t @ CR # LF # bulks args)"
    using strchr_skip [of "CHR ''$'' # dec_of_nat (length t)" CR] digits_skip by (auto simp: NUL_def)
  then show ?thesis using length_atoi [OF assms] by (simp add: bulks_simps nextArgument_def Let_def)
qed

lemma command_text: "encode (command_obj argv) = CHR ''*'' # dec_of_nat (length argv) @ CR # LF # bulks argv"
  by (simp add: command_obj_def bulks_def comp_def dec_of_int_def)

lemma strchr_hd: "strchr c s = Some t \<Longrightarrow> t \<noteq> [] \<and> hd t = c"
  by (induction c s rule: strchr.induct) (auto split: if_splits)

lemma next_from:
  assumes "strchr (CHR ''$'') s = Some t"
  shows "nextArgument s = nextArgument t"
proof -
  have t: "t \<noteq> [] \<and> hd t = CHR ''$''" by (rule strchr_hd [OF assms])
  have "s = t" if "s \<noteq> [] \<and> hd s = CHR ''$''" using that assms by (cases s) auto
  then show ?thesis using t assms by (cases "s \<noteq> [] \<and> hd s = CHR ''$''") (auto simp: nextArgument_def)
qed

lemma next_command:
  assumes "length name < 2 ^ 31"
  shows "nextArgument (encode (command_obj (name # args))) = Inr (Some (name @ [CR, LF] @ bulks args, length name, bulks args))"
proof -
  obtain r where r: "bulks (name # args) = CHR ''$'' # r" by (simp add: bulks_simps)
  have "strchr (CHR ''$'') ((CHR ''*'' # dec_of_nat (length (name # args)) @ [CR, LF]) @ CHR ''$'' # r) = Some (CHR ''$'' # r)"
    by (rule strchr_skip) (use digits_skip in \<open>auto simp: NUL_def\<close>)
  then have "strchr (CHR ''$'') (encode (command_obj (name # args))) = Some (bulks (name # args))"
    unfolding command_text r by simp
  from next_from [OF this] show ?thesis unfolding next_bulk [OF assms] .
qed


section \<open>Subscribing\<close>

lemma callbackDict_plain: "plain_type callbackDict"
  by (auto simp: plain_type_def dictCompareHashKeys_def callbackDict_def callbackKeyCompare_def Let_def dup_def callbackValDup_def)

lemma subscribe_bulks:
  "dict_ok callbackDict d \<Longrightarrow> unat (used d) + length chs < 2 ^ 29 \<Longrightarrow> \<forall>ch \<in> set chs. length ch < 2 ^ 31 \<Longrightarrow>
     \<exists>d'. subscribe_args v cb (bulks chs) d = Inr d' \<and> dict_ok callbackDict d' \<and>
       contents d' = (\<lambda>ch. if ch \<in> set chs then Some cb else contents d ch)"
proof (induction chs arbitrary: d)
  case Nil
  then show ?case by (subst subscribe_args.simps) (simp add: bulks_def nextArgument_def)
next
  case (Cons ch chs)
  have "nextArgument (bulks (ch # chs)) = Inr (Some (ch @ [CR, LF] @ bulks chs, length ch, bulks chs))"
    by (rule next_bulk) (use Cons.prems(3) in simp)
  moreover obtain d1 where d1: "dictReplace callbackDict ch cb d = Inr (if contents d ch = None then 1 else 0, d1)"
    "dict_ok callbackDict d1" "contents d1 = (contents d)(ch \<mapsto> cb)" "unat (used d1) \<le> Suc (unat (used d))"
    using Replace_ok [OF callbackDict_plain Cons.prems(1), of ch cb] Cons.prems(2) by auto
  ultimately have run: "subscribe_args v cb (bulks (ch # chs)) d = subscribe_args v cb (bulks chs) d1"
    by (subst subscribe_args.simps) simp
  obtain d2 where "subscribe_args v cb (bulks chs) d1 = Inr d2" "dict_ok callbackDict d2"
    "contents d2 = (\<lambda>c. if c \<in> set chs then Some cb else contents d1 c)"
    using Cons.IH [OF d1(2)] Cons.prems(2,3) d1(4) by auto
  then show ?case using run d1(3) by (intro exI [of _ d2]) (auto simp: fun_eq_iff)
qed

lemma text_args_format:
  "redisFormatCommandArgv (text_args argv) = Inr (encode (command_obj argv), length (encode (command_obj argv)))"
proof -
  have "all_bytes (text_args argv) = Inr argv" by (induction argv) (simp_all add: text_args_def arg_bytes_def)
  then show ?thesis by (simp add: argv_command del: encode.simps)
qed

lemma subscribe_command:
  assumes "\<not> closing m" and "nextArgument cmd = Inr (Some (cstr, clen, p))" and "p \<noteq> [] \<and> hd p = CHR ''$''"
    and "(cstr \<noteq> [] \<and> c_tolower (hd cstr) = CHR ''p'') = v"
    and "strncasecmp_eq (if v then tl cstr else cstr) (''subscribe'' @ [CR, LF])"
    and "subscribe_args v cb p (subs v m) = Inr d"
  shows "redisAsyncCommand_raw cb cmd len m =
    Inr (REDIS_OK, el_call AddWrite (on_c (redisAppendCommand_raw (take len cmd)) (set_subs v d (on_c (set_flag REDIS_SUBSCRIBED) m))))"
  using assms unfolding redisAsyncCommand_raw_def closing_def
  by (simp only: rbind_simps option.case prod.case Let_def if_False if_True subs_parts simp_thms) (simp add: REDIS_OK_def REDIS_ERR_def)

lemma subscribe_registers:
  assumes "\<not> closing m" and "dict_ok callbackDict (subs v m)" and "unat (used (subs v m)) + length chs < 2 ^ 29"
    and "\<forall>ch \<in> set chs. length ch < 2 ^ 31" and "chs \<noteq> []"
    and "map c_tolower name = (if v then ''psubscribe'' else ''subscribe'')"
  shows "\<exists>m'. redisAsyncCommandArgv cb (text_args (name # chs)) m = Inr (REDIS_OK, m') \<and>
    contents (subs v m') = (\<lambda>ch. if ch \<in> set chs then Some cb else contents (subs v m) ch) \<and>
    dict_ok callbackDict (subs v m') \<and> subs (\<not> v) m' = subs (\<not> v) m \<and> has_flag REDIS_SUBSCRIBED (ctx m') \<and>
    ac_replies m' = ac_replies m \<and> sub_invalid m' = sub_invalid m \<and>
    s_buf (c_obuf (ctx m')) = s_buf (c_obuf (ctx m)) @ encode (command_obj (name # chs))"
proof -
  let ?cmd = "encode (command_obj (name # chs))"
  let ?cstr = "name @ [CR, LF] @ bulks chs"
  have len: "length name = (if v then 10 else 9)" using arg_cong [OF assms(6), of length] by (simp split: if_splits)
  then have arg: "nextArgument ?cmd = Inr (Some (?cstr, length name, bulks chs))" by (intro next_command) (simp split: if_splits)
  obtain c cs where name: "name = c # cs" using len by (cases name) (auto split: if_splits)
  have pv: "(?cstr \<noteq> [] \<and> c_tolower (hd ?cstr) = CHR ''p'') = v"
    using assms(6) name by (cases v) auto
  have lower: "c_tolower CR = CR" "c_tolower LF = LF" by code_simp+
  have sub: "strncasecmp_eq (if v then tl ?cstr else ?cstr) (''subscribe'' @ [CR, LF])"
  proof -
    have rest: "take 11 (t @ [CR, LF] @ r) = t @ [CR, LF]" if "length t = 9" for t r :: string using that by simp
    have low: "map c_tolower ''subscribe'' = ''subscribe''" by code_simp
    show ?thesis
    proof (cases v)
      case True
      then have "map c_tolower cs = ''subscribe''" "length cs = 9" using assms(6) name len by auto
      then show ?thesis using True name rest [of cs "bulks chs"] low lower by (simp add: strncasecmp_eq_def)
    next
      case False
      then have "map c_tolower name = ''subscribe''" "length name = 9" using assms(6) len by auto
      then show ?thesis using False rest [of name "bulks chs"] low lower by (simp add: strncasecmp_eq_def)
    qed
  qed
  obtain ch chs' where chs: "chs = ch # chs'" using assms(5) by (cases chs) auto
  have next_arg: "bulks chs \<noteq> [] \<and> hd (bulks chs) = CHR ''$''" by (simp add: chs bulks_simps)
  let ?m = "on_c (set_flag REDIS_SUBSCRIBED) m"
  obtain d where d: "subscribe_args v cb (bulks chs) (subs v m) = Inr d" "dict_ok callbackDict d"
    "contents d = (\<lambda>ch. if ch \<in> set chs then Some cb else contents (subs v m) ch)"
    using subscribe_bulks [OF assms(2-4), of v cb] by blast
  let ?r = "el_call AddWrite (on_c (redisAppendCommand_raw (take (length ?cmd) ?cmd)) (set_subs v d ?m))"
  have "redisAsyncCommand_raw cb ?cmd (length ?cmd) m = Inr (REDIS_OK, ?r)"
    by (rule subscribe_command [OF assms(1) arg next_arg pv sub d(1)])
  then have "redisAsyncCommandArgv cb (text_args (name # chs)) m = Inr (REDIS_OK, ?r)"
    by (simp add: redisAsyncCommandArgv_def text_args_format del: encode.simps take_all)
  moreover have "subs w (set_subs v d ?m) = (if v = w then d else subs w m)" for w by simp
  ultimately show ?thesis using d(2,3)
    by (intro exI [of _ ?r]) (simp add: flag_bit bit_simps redisAppendCommand_raw_def del: encode.simps)
qed

text \<open>
  Subscribing. On a connection that is not about to be closed, a command whose name is SUBSCRIBE or
  PSUBSCRIBE in any case, with at least one argument, is accepted, puts its bytes into the output
  buffer, makes the connection a subscribed one, registers its callback for exactly its
  channels or patterns, instead of one they had, and puts it into no queue.
\<close>

theorem subscribing:
  assumes "\<not> closing m" and "dict_ok callbackDict (subs v m)" and "unat (used (subs v m)) + length chs < 2 ^ 29"
    and "\<forall>ch \<in> set chs. length ch < 2 ^ 31" and "chs \<noteq> []"
    and "map c_tolower name = (if v then ''psubscribe'' else ''subscribe'')"
  shows "\<exists>m'. redisAsyncCommandArgv cb (text_args (name # chs)) m = Inr (REDIS_OK, m') \<and>
    contents (subs v m') = (\<lambda>ch. if ch \<in> set chs then Some cb else contents (subs v m) ch) \<and>
    dict_ok callbackDict (subs v m') \<and> subs (\<not> v) m' = subs (\<not> v) m \<and> has_flag REDIS_SUBSCRIBED (ctx m') \<and>
    ac_replies m' = ac_replies m \<and> sub_invalid m' = sub_invalid m \<and>
    s_buf (c_obuf (ctx m')) = s_buf (c_obuf (ctx m)) @ encode (command_obj (name # chs))"
  by (rule subscribe_registers [OF assms])

lemma demo_empty: "dict_ok callbackDict (subs v demo_start)" "used (subs v demo_start) = 0" "contents (subs v demo_start) = Map.empty"
  using reset_ok by (simp_all add: subs_def demo_start_def redisAsyncInitialize_def dictCreate_def)

lemma demo_open: "\<not> closing demo_start"
  unfolding closing_def by code_simp

definition demo_subscriber :: redis_callback where "demo_subscriber = \<lparr>cb_fn = Some 1, cb_privdata = 5\<rparr>"

theorem subscribing_witness:
  "\<exists>m'. redisAsyncCommandArgv demo_subscriber (text_args [''Subscribe'', ''news'', ''talk'']) demo_start = Inr (REDIS_OK, m') \<and>
     contents (subs False m') = [''news'' \<mapsto> demo_subscriber, ''talk'' \<mapsto> demo_subscriber]"
proof -
  have n: "map c_tolower ''Subscribe'' = (if False then ''psubscribe'' else ''subscribe'')" by code_simp
  obtain m' where "redisAsyncCommandArgv demo_subscriber (text_args [''Subscribe'', ''news'', ''talk'']) demo_start = Inr (REDIS_OK, m')"
    "contents (subs False m') = (\<lambda>ch. if ch \<in> set [''news'', ''talk''] then Some demo_subscriber else contents (subs False demo_start) ch)"
    using subscribing [OF demo_open demo_empty(1), of False "[''news'', ''talk'']" "''Subscribe''" demo_subscriber] demo_empty(2) n by auto
  then show ?thesis using demo_empty(3) by (intro exI [of _ m']) (auto simp: fun_eq_iff)
qed


section \<open>Messages\<close>

text \<open>A message of a kind for a channel or, when the kind begins with a P, a pattern.\<close>

definition message :: "string \<Rightarrow> string \<Rightarrow> reply_obj option list \<Rightarrow> reply_obj" where
  "message kind ch rest = Obj_array (int (length rest) + 2) (Some (Obj_text REDIS_REPLY_STRING kind) # Some (Obj_text REDIS_REPLY_STRING ch) # rest)"

definition for_pattern :: "string \<Rightarrow> bool" where
  "for_pattern kind \<longleftrightarrow> kind \<noteq> [] \<and> c_tolower (hd kind) = CHR ''p''"

definition ends_subscription :: "string \<Rightarrow> bool" where
  "ends_subscription kind \<longleftrightarrow> Sds.c_str (if for_pattern kind then tl kind else kind) = ''unsubscribe''"

lemma find_message:
  assumes "dict_ok callbackDict (subs (for_pattern kind) m)"
  shows "redisGetSubscribeCallback (message kind ch rest) dst m =
    (case contents (subs (for_pattern kind) m) ch of
       None \<Rightarrow> Inr (dst, m)
     | Some cb \<Rightarrow>
         if ends_subscription kind
         then rbind (dictDelete callbackDict ch (subs (for_pattern kind) m)) (\<lambda>(st, d).
              rbind (rbind (element (None # None # rest) 2) integer_of) (\<lambda>i.
                Inr (Some cb, if i = 0 then on_c (clear_flag REDIS_SUBSCRIBED) (set_subs (for_pattern kind) d m)
                              else set_subs (for_pattern kind) d m)))
         else Inr (Some cb, m))"
proof -
  let ?es = "Some (Obj_text REDIS_REPLY_STRING kind) # Some (Obj_text REDIS_REPLY_STRING ch) # rest"
  have e: "rbind (element ?es 0) text_of = Inr kind" "rbind (element ?es 1) text_of = Inr ch"
    "element ?es 2 = element (None # None # rest) 2"
    by (simp_all add: element_def text_of_def)
  have f: "dictFind callbackDict ch (subs (for_pattern kind) m) = Inr (map_option (\<lambda>v. (ch, v)) (contents (subs (for_pattern kind) m) ch))"
    by (rule Find_contents [OF callbackDict_plain assms])
  show ?thesis
    unfolding redisGetSubscribeCallback_def message_def reply_obj.case e Let_def rbind_simps for_pattern_def [symmetric]
      f ends_subscription_def [symmetric]
    by (simp split: option.split)
qed

lemma subscribed_take:
  assumes "ac_replies m = []" and "has_flag REDIS_SUBSCRIBED (ctx m)"
  shows "take_callback x v m = rbind (redisGetSubscribeCallback x v m) (\<lambda>(cb, m). Inr (False, cb, m))"
  using assms by (simp add: take_callback_def shift_reply_def redisShiftCallback_def Let_def)

lemma message_for_subscriber:
  assumes "ac_replies m = []" and "has_flag REDIS_SUBSCRIBED (ctx m)" and "dict_ok callbackDict (subs (for_pattern kind) m)"
  shows "contents (subs (for_pattern kind) m) ch = None \<Longrightarrow> take_callback (message kind ch rest) v m = Inr (False, v, m)"
    "contents (subs (for_pattern kind) m) ch = Some cb \<Longrightarrow> \<not> ends_subscription kind \<Longrightarrow>
       take_callback (message kind ch rest) v m = Inr (False, Some cb, m)"
  using assms by (simp_all add: subscribed_take find_message)

text \<open>
  C31. Messages reach their subscribers. On a subscribed connection without pending regular
  callbacks: a message for a channel or a pattern with a callback is answered by that callback and leaves the
  subscriptions as they are, whatever its other elements; the end of a subscription is answered by
  the callback, too, and takes away this subscription and no other, and the connection stops to be
  a subscribed one exactly when the count of subscriptions in the message is 0.
\<close>

theorem messages_reach_subscribers:
  assumes "ac_replies m = []" and "has_flag REDIS_SUBSCRIBED (ctx m)" and "dict_ok callbackDict (subs (for_pattern kind) m)"
    and "contents (subs (for_pattern kind) m) ch = Some cb"
  shows "(\<not> ends_subscription kind \<longrightarrow> take_callback (message kind ch rest) v m = Inr (False, Some cb, m)) \<and>
    (ends_subscription kind \<longrightarrow>
       (\<exists>m'. take_callback (message kind ch (Some (Obj_integer i) # rest)) v m = Inr (False, Some cb, m') \<and>
          contents (subs (for_pattern kind) m') = (contents (subs (for_pattern kind) m))(ch := None) \<and>
          dict_ok callbackDict (subs (for_pattern kind) m') \<and>
          subs (\<not> for_pattern kind) m' = subs (\<not> for_pattern kind) m \<and>
          (has_flag REDIS_SUBSCRIBED (ctx m') \<longleftrightarrow> i \<noteq> 0)))"
proof (intro conjI impI)
  show "take_callback (message kind ch rest) v m = Inr (False, Some cb, m)" if "\<not> ends_subscription kind"
    using message_for_subscriber(2) [OF assms that] .
next
  assume unsub: "ends_subscription kind"
  obtain d where d: "dictDelete callbackDict ch (subs (for_pattern kind) m) = Inr (DICT_OK, d)" "dict_ok callbackDict d"
    "contents d = (contents (subs (for_pattern kind) m))(ch := None)"
    using Delete_ok [OF callbackDict_plain assms(3), of ch] assms(4) by auto
  let ?d = "set_subs (for_pattern kind) d m"
  let ?m = "if i = 0 then on_c (clear_flag REDIS_SUBSCRIBED) ?d else ?d"
  have "take_callback (message kind ch (Some (Obj_integer i) # rest)) v m = Inr (False, Some cb, ?m)"
    using assms(4) unsub d(1) unfolding subscribed_take [OF assms(1,2)] find_message [OF assms(3)]
    by (simp add: element_def integer_of_def)
  moreover have "has_flag REDIS_SUBSCRIBED (ctx ?m) \<longleftrightarrow> i \<noteq> 0"
    using assms(2) by (simp add: flag_bit bit_simps)
  ultimately show "\<exists>m'. take_callback (message kind ch (Some (Obj_integer i) # rest)) v m = Inr (False, Some cb, m') \<and>
      contents (subs (for_pattern kind) m') = (contents (subs (for_pattern kind) m))(ch := None) \<and>
      dict_ok callbackDict (subs (for_pattern kind) m') \<and>
      subs (\<not> for_pattern kind) m' = subs (\<not> for_pattern kind) m \<and>
      (has_flag REDIS_SUBSCRIBED (ctx m') \<longleftrightarrow> i \<noteq> 0)"
    using d(2,3) by (intro exI [of _ ?m]) simp
qed

theorem messages_reach_subscribers_witness:
  "\<exists>m1 m2. redisAsyncCommandArgv demo_subscriber (text_args [''SUBSCRIBE'', ''news'']) demo_start = Inr (REDIS_OK, m1) \<and>
     take_callback (message ''message'' ''news'' [Some (Obj_text REDIS_REPLY_STRING ''x'')]) None m1 = Inr (False, Some demo_subscriber, m1) \<and>
     take_callback (message ''unsubscribe'' ''news'' [Some (Obj_integer 0)]) None m1 = Inr (False, Some demo_subscriber, m2) \<and>
     contents (subs False m2) = Map.empty \<and> \<not> has_flag REDIS_SUBSCRIBED (ctx m2)"
proof -
  have n: "map c_tolower ''SUBSCRIBE'' = (if False then ''psubscribe'' else ''subscribe'')" by code_simp
  obtain m1 where m1: "redisAsyncCommandArgv demo_subscriber (text_args [''SUBSCRIBE'', ''news'']) demo_start = Inr (REDIS_OK, m1)"
    "contents (subs False m1) = (\<lambda>ch. if ch \<in> set [''news''] then Some demo_subscriber else contents (subs False demo_start) ch)"
    "dict_ok callbackDict (subs False m1)" "has_flag REDIS_SUBSCRIBED (ctx m1)" "ac_replies m1 = ac_replies demo_start"
    using subscribe_registers [OF demo_open demo_empty(1), of False "[''news'']" "''SUBSCRIBE''" demo_subscriber] demo_empty(2) n by auto
  have r: "ac_replies m1 = []" using m1(5) by (simp add: demo_start_def redisAsyncInitialize_def)
  have p: "\<not> for_pattern ''message''" "\<not> for_pattern ''unsubscribe''" "\<not> ends_subscription ''message''" "ends_subscription ''unsubscribe''"
    by code_simp+
  have c: "contents (subs False m1) ''news'' = Some demo_subscriber" using m1(2) by simp
  have t: "take_callback (message ''message'' ''news'' [Some (Obj_text REDIS_REPLY_STRING ''x'')]) None m1 = Inr (False, Some demo_subscriber, m1)"
    using messages_reach_subscribers [OF r m1(4), of "''message''" "''news''" demo_subscriber] p(1,3) m1(3) c by simp
  obtain m2 where "take_callback (message ''unsubscribe'' ''news'' [Some (Obj_integer 0)]) None m1 = Inr (False, Some demo_subscriber, m2)"
    "contents (subs False m2) = (contents (subs False m1))(''news'' := None)" "\<not> has_flag REDIS_SUBSCRIBED (ctx m2)"
    using messages_reach_subscribers [OF r m1(4), of "''unsubscribe''" "''news''" demo_subscriber "[]" None 0] p(2,4) m1(3) c by auto
  then show ?thesis using m1(1,2) t demo_empty(3) by (intro exI [of _ m1] exI [of _ m2]) (auto simp: fun_eq_iff)
qed


section \<open>A message that nobody subscribed to\<close>

lemma message_turn:
  fixes m :: "('s, 'u) async"
  assumes "\<not> bit (c_flags (ctx m)) 0" and "represents (c_reader (ctx m)) a" and "get_reply a = (Some x, a')"
    and "\<And>m' :: ('s, 'u) async. ac_replies m' = ac_replies m \<Longrightarrow> c_flags (ctx m') = c_flags (ctx m) \<Longrightarrow>
           sub_channels m' = sub_channels m \<Longrightarrow> sub_patterns m' = sub_patterns m \<Longrightarrow> take_callback x v m' = Inr (False, Some cb, m')"
    and "\<not> has_flag REDIS_FREEING (ctx m)" and "cb_fn cb = Some fn"
    and "\<And>e u. p_reply P fn (cb_privdata cb) (Some x) e u = Return (note e u)"
  shows "\<exists>m'. process_reply A P v m = Some (Inr (True, Some cb, m')) \<and> represents (c_reader (ctx m')) a' \<and>
    called m' = called m @ [(cb, Some x)] \<and> ac_replies m' = ac_replies m \<and> sub_channels m' = sub_channels m \<and>
    sub_patterns m' = sub_patterns m \<and> (\<forall>n. n \<noteq> 4 \<longrightarrow> bit (c_flags (ctx m')) n = bit (c_flags (ctx m)) n)"
proof -
  obtain st c where c: "redisGetReply A (ctx m, n_sys (a_net m)) = Some (Inr (st, Some x, c, n_sys (a_net m)))"
    "c_flags c = c_flags (ctx m)" "represents (c_reader c) a'" "st = REDIS_OK"
    by (rule poll_async [OF assms(1,2), of A "n_sys (a_net m)"]) (auto simp: assms(3))
  let ?m = "with_ctx c (n_sys (a_net m)) m"
  let ?in = "(on_c (set_flag REDIS_IN_CALLBACK) ?m)\<lparr>called := called m @ [(cb, Some x)]\<rparr>"
  let ?out = "on_c (clear_flag REDIS_IN_CALLBACK) (?in\<lparr>a_user := note (ac_err ?m) (a_user ?m)\<rparr>)"
  have t: "take_callback x v ?m = Inr (False, Some cb, ?m)" by (rule assms(4)) (simp_all add: c(2))
  have r: "redisRunCallback P cb (Some x) ?m = Inr ?out"
    using assms(6,7) by (simp add: redisRunCallback_def Let_def)
  have "\<not> has_flag REDIS_FREEING (ctx ?out)" using assms(5) c(2) by (simp add: flag_bit bit_simps)
  then have "process_reply A P v m = Some (Inr (True, Some cb, ?out))"
    using c(1,4) t r assms(6) by (simp add: process_reply_def run_reply_def REDIS_OK_def Let_def)
  then show ?thesis using c(2,3) by (intro exI [of _ ?out]) (auto simp: bit_simps dest: bit_imp_le_length)
qed

text \<open>
  The variable for the callback is not set when none is found: a message for a channel nobody
  subscribed to is handed to the callback of the reply before it; as the first reply of an event
  it leads to the call of an unwritten function pointer.
\<close>

lemma message_for_nobody:
  assumes "\<not> has_flag REDIS_BLOCK (ctx m)" and "\<not> has_flag REDIS_FREEING (ctx m)" and "\<not> has_flag REDIS_DISCONNECTING (ctx m)"
    and "has_flag REDIS_SUBSCRIBED (ctx m)" and "ac_replies m = []" and "represents (c_reader (ctx m)) a"
    and "\<And>v. dict_ok callbackDict (subs v m)" and "\<not> ends_subscription kind"
    and "contents (subs (for_pattern kind) m) ch = Some cb" and "contents (subs (for_pattern kind2) m) nobody = None"
    and "cb_fn cb = Some fn" and "\<And>x e u. p_reply P fn (cb_privdata cb) (Some x) e u = Return (note x e u)"
  shows "get_reply a = (Some (message kind ch r), a1) \<Longrightarrow> get_reply a1 = (Some (message kind2 nobody r2), a2) \<Longrightarrow>
      get_reply a2 = (None, Going gs u) \<Longrightarrow>
      \<exists>m'. redisProcessCallbacks A P m = Some (Inr m') \<and>
        called m' = called m @ [(cb, Some (message kind ch r)), (cb, Some (message kind2 nobody r2))]"
    and "get_reply a = (Some (message kind2 nobody r2), a1) \<Longrightarrow> redisProcessCallbacks A P m = Some (Inl Uninitialised)"
proof -
  have nb: "\<not> bit (c_flags (ctx m)) 0" using assms(1) by (simp add: flag_bit)
  have flags: "has_flag REDIS_SUBSCRIBED (ctx m')" if "\<And>n. n \<noteq> 4 \<Longrightarrow> bit (c_flags (ctx m')) n = bit (c_flags (ctx m)) n" for m' :: "('a, 'b) async"
    using assms(4) that [of 5] by (simp add: flag_bit)
  have found: "take_callback (message kind ch r) v m' = Inr (False, Some cb, m')"
    and none: "take_callback (message kind2 nobody r2) v m' = Inr (False, v, m')"
    if "ac_replies m' = ac_replies m" "\<And>n. n \<noteq> 4 \<Longrightarrow> bit (c_flags (ctx m')) n = bit (c_flags (ctx m)) n"
      "sub_channels m' = sub_channels m" "sub_patterns m' = sub_patterns m" for m' :: "('a, 'b) async" and v
  proof -
    have s: "subs w m' = subs w m" for w using that(3,4) by (simp add: subs_def)
    show "take_callback (message kind ch r) v m' = Inr (False, Some cb, m')"
      by (rule message_for_subscriber(2)) (use assms(5,7-9) flags [OF that(2)] that(1) s in simp_all)
    show "take_callback (message kind2 nobody r2) v m' = Inr (False, v, m')"
      by (rule message_for_subscriber(1)) (use assms(5,7,10) flags [OF that(2)] that(1) s in simp_all)
  qed
  show "redisProcessCallbacks A P m = Some (Inl Uninitialised)" if g: "get_reply a = (Some (message kind2 nobody r2), a1)"
  proof -
    obtain st c where c: "redisGetReply A (ctx m, n_sys (a_net m)) = Some (Inr (st, Some (message kind2 nobody r2), c, n_sys (a_net m)))"
      "c_flags c = c_flags (ctx m)" "st = REDIS_OK"
      by (rule poll_async [OF nb assms(6), of A "n_sys (a_net m)"]) (auto simp: g)
    have "take_callback (message kind2 nobody r2) None (with_ctx c (n_sys (a_net m)) m) = Inr (False, None, with_ctx c (n_sys (a_net m)) m)"
      by (rule none) (simp_all add: c(2))
    then have "process_reply A P None m = Some (Inl Uninitialised)" using c(1,3) by (simp add: process_reply_def Let_def)
    then show ?thesis unfolding redisProcessCallbacks_def by (subst process_callbacks.simps) simp
  qed
  show "\<exists>m'. redisProcessCallbacks A P m = Some (Inr m') \<and>
        called m' = called m @ [(cb, Some (message kind ch r)), (cb, Some (message kind2 nobody r2))]"
    if g: "get_reply a = (Some (message kind ch r), a1)" "get_reply a1 = (Some (message kind2 nobody r2), a2)" "get_reply a2 = (None, Going gs u)"
  proof -
    have "\<exists>m'. process_reply A P None m = Some (Inr (True, Some cb, m')) \<and> represents (c_reader (ctx m')) a1 \<and>
        called m' = called m @ [(cb, Some (message kind ch r))] \<and> ac_replies m' = ac_replies m \<and> sub_channels m' = sub_channels m \<and>
        sub_patterns m' = sub_patterns m \<and> (\<forall>n. n \<noteq> 4 \<longrightarrow> bit (c_flags (ctx m')) n = bit (c_flags (ctx m)) n)"
      by (rule message_turn [OF nb assms(6) g(1) _ assms(2,11,12)]) (rule found, simp_all)
    then obtain m1 where m1: "process_reply A P None m = Some (Inr (True, Some cb, m1))" "represents (c_reader (ctx m1)) a1"
      "called m1 = called m @ [(cb, Some (message kind ch r))]" "ac_replies m1 = ac_replies m" "sub_channels m1 = sub_channels m"
      "sub_patterns m1 = sub_patterns m" "\<And>n. n \<noteq> 4 \<Longrightarrow> bit (c_flags (ctx m1)) n = bit (c_flags (ctx m)) n" by auto
    have nb1: "\<not> bit (c_flags (ctx m1)) 0" "\<not> has_flag REDIS_FREEING (ctx m1)"
      using nb assms(2) m1(7) [of 0] m1(7) [of 3] by (simp_all add: flag_bit)
    have "\<exists>m'. process_reply A P (Some cb) m1 = Some (Inr (True, Some cb, m')) \<and> represents (c_reader (ctx m')) a2 \<and>
        called m' = called m1 @ [(cb, Some (message kind2 nobody r2))] \<and> ac_replies m' = ac_replies m1 \<and> sub_channels m' = sub_channels m1 \<and>
        sub_patterns m' = sub_patterns m1 \<and> (\<forall>n. n \<noteq> 4 \<longrightarrow> bit (c_flags (ctx m')) n = bit (c_flags (ctx m1)) n)"
      by (rule message_turn [OF nb1(1) m1(2) g(2) _ nb1(2) assms(11,12)]) (rule none, simp_all add: m1)
    then obtain m2 where m2: "process_reply A P (Some cb) m1 = Some (Inr (True, Some cb, m2))" "represents (c_reader (ctx m2)) a2"
      "called m2 = called m1 @ [(cb, Some (message kind2 nobody r2))]" "\<And>n. n \<noteq> 4 \<Longrightarrow> bit (c_flags (ctx m2)) n = bit (c_flags (ctx m1)) n" by auto
    have nb2: "\<not> bit (c_flags (ctx m2)) 0" using nb1(1) m2(4) [of 0] by simp
    obtain st c where c: "redisGetReply A (ctx m2, n_sys (a_net m2)) = Some (Inr (st, None, c, n_sys (a_net m2)))"
      "c_flags c = c_flags (ctx m2)" "st = REDIS_OK"
      by (rule poll_async [OF nb2 m2(2), of A "n_sys (a_net m2)"]) (auto simp: g(3))
    have "\<not> has_flag REDIS_DISCONNECTING c" using assms(3) c(2) m1(7) [of 2] m2(4) [of 2] by (simp add: flag_bit)
    then have 3: "process_reply A P (Some cb) m2 = Some (Inr (False, Some cb, with_ctx c (n_sys (a_net m2)) m2))"
      using c(1,3) by (simp add: process_reply_def Let_def)
    have "redisProcessCallbacks A P m = Some (Inr (with_ctx c (n_sys (a_net m2)) m2))"
      unfolding redisProcessCallbacks_def
      by (subst process_callbacks.simps, subst m1(1), simp, subst process_callbacks.simps, subst m2(1), simp,
          subst process_callbacks.simps, subst 3, simp)
    then show ?thesis using m1(3) m2(3) by simp
  qed
qed

text \<open>The answer of the server to an end of subscriptions when there is none has no channel, and fails an assertion.\<close>

lemma unsubscribe_nothing_fails:
  assumes "ac_replies m = []" and "has_flag REDIS_SUBSCRIBED (ctx m)"
  shows "take_callback (Obj_array 3 [Some (Obj_text REDIS_REPLY_STRING ''unsubscribe''), Some Obj_nil, Some (Obj_integer i)]) v m = Inl Assert_fail"
  unfolding subscribed_take [OF assms]
  by (simp add: redisGetSubscribeCallback_def element_def text_of_def Let_def)

end
