(* ===== verification/Float32.thy ===== *)
theory Float32
  imports Complex_Main "HOL-Library.Log_Nat" "HOL-Library.Product_Lexorder"
begin

text \<open>
  The arithmetic of \<open>float\<close>, single precision of IEEE 754 in the mode in which programs start (to
  the nearest number, ties to the even one): a number is a sign and a magnitude, which is rational. The
  definitions of \<open>Math\<close> are written with the operators of the type classes; they run on this type, and
  on the rational numbers, where nothing is rounded.
\<close>

section \<open>Numbers\<close>

datatype f32 = F_nan | F_inf (f_neg: bool) | F_num (f_neg: bool) (f_mag: rat)
  where "f_neg F_nan = False"

text \<open>Powers of two, the exponent of a positive number, and rounding to an integer.\<close>

definition pow2 :: "int \<Rightarrow> rat" where
  "pow2 k = (if 0 \<le> k then 2 ^ nat k else 1 / 2 ^ nat (- k))"

definition log2_floor :: "rat \<Rightarrow> int" where
  "log2_floor q =
     (if 1 \<le> q then int (floorlog 2 (nat \<lfloor>q\<rfloor>)) - 1
      else - int (floorlog 2 (nat (\<lceil>1 / q\<rceil> - 1))))"

definition round_even :: "rat \<Rightarrow> int" where
  "round_even x =
     (let n = \<lfloor>x\<rfloor>; d = x - of_int n
      in if d < 1 / 2 \<or> d = 1 / 2 \<and> even n then n else n + 1)"

text \<open>The nearest number with 24 bits, none of which is below \<open>2 ^ - 149\<close>; from \<open>2 ^ 128\<close> on infinity.\<close>

definition round_magnitude :: "bool \<Rightarrow> rat \<Rightarrow> f32" where
  "round_magnitude s q =
     (if q = 0 then F_num s 0
      else let u = pow2 (max (- 149) (log2_floor q - 23));
               r = of_int (round_even (q / u)) * u
           in if 2 ^ 128 \<le> r then F_inf s else F_num s r)"

definition f32_of_rat :: "rat \<Rightarrow> f32" where
  "f32_of_rat q = round_magnitude (q < 0) \<bar>q\<bar>"

definition rat_of_f32 :: "f32 \<Rightarrow> rat" where
  "rat_of_f32 a = (if f_neg a then - f_mag a else f_mag a)"


section \<open>Operations\<close>

instantiation f32 :: "{zero, one, uminus, plus, minus, times, divide, inverse, ord}"
begin

definition zero_f32 :: f32 where "0 = F_num False 0"

definition one_f32 :: f32 where "1 = F_num False 1"

fun uminus_f32 :: "f32 \<Rightarrow> f32" where
  "- F_nan = F_nan"
| "- F_inf s = F_inf (\<not> s)"
| "- F_num s q = F_num (\<not> s) q"

text \<open>A sum that is zero is negative only when both summands are negative zeros.\<close>

fun plus_f32 :: "f32 \<Rightarrow> f32 \<Rightarrow> f32" where
  "F_nan + b = F_nan"
| "a + F_nan = F_nan"
| "F_inf s + F_inf t = (if s = t then F_inf s else F_nan)"
| "F_inf s + F_num t q = F_inf s"
| "F_num s p + F_inf t = F_inf t"
| "F_num s p + F_num t q =
     (let v = rat_of_f32 (F_num s p) + rat_of_f32 (F_num t q)
      in if v = 0 then F_num (s \<and> t) 0 else f32_of_rat v)"

definition minus_f32 :: "f32 \<Rightarrow> f32 \<Rightarrow> f32" where
  "a - b = a + (- b :: f32)"

fun times_f32 :: "f32 \<Rightarrow> f32 \<Rightarrow> f32" where
  "F_nan * b = F_nan"
| "a * F_nan = F_nan"
| "F_inf s * F_inf t = F_inf (s \<noteq> t)"
| "F_inf s * F_num t q = (if q = 0 then F_nan else F_inf (s \<noteq> t))"
| "F_num s p * F_inf t = (if p = 0 then F_nan else F_inf (s \<noteq> t))"
| "F_num s p * F_num t q = round_magnitude (s \<noteq> t) (p * q)"

fun divide_f32 :: "f32 \<Rightarrow> f32 \<Rightarrow> f32" where
  "F_nan div b = F_nan"
| "a div F_nan = F_nan"
| "F_inf s div F_inf t = F_nan"
| "F_inf s div F_num t q = F_inf (s \<noteq> t)"
| "F_num s p div F_inf t = F_num (s \<noteq> t) 0"
| "F_num s p div F_num t q =
     (if q = 0 then if p = 0 then F_nan else F_inf (s \<noteq> t) else round_magnitude (s \<noteq> t) (p / q))"

definition inverse_f32 :: "f32 \<Rightarrow> f32" where "inverse a = 1 div (a :: f32)"

text \<open>The order, by the infinities and the value; nothing is below or above what is no number.\<close>

definition less_f32 :: "f32 \<Rightarrow> f32 \<Rightarrow> bool" where
  "a < b \<longleftrightarrow>
     (case (a, b) of
        (F_nan, _) \<Rightarrow> False
      | (_, F_nan) \<Rightarrow> False
      | (F_inf s, F_inf t) \<Rightarrow> s \<and> \<not> t
      | (F_inf s, F_num _ _) \<Rightarrow> s
      | (F_num _ _, F_inf t) \<Rightarrow> \<not> t
      | (F_num _ _, F_num _ _) \<Rightarrow> rat_of_f32 a < rat_of_f32 b)"

definition less_eq_f32 :: "f32 \<Rightarrow> f32 \<Rightarrow> bool" where
  "a \<le> b \<longleftrightarrow> a \<noteq> F_nan \<and> b \<noteq> F_nan \<and> \<not> b < (a :: f32)"

instance ..

end

section \<open>The order\<close>

text \<open>
  What is a number is ordered by its place: the infinities outside, everything else by its value. Both
  zeros have the same place, and what is no number compares with nothing, not even with itself.
\<close>

fun place :: "f32 \<Rightarrow> int \<times> rat" where
  "place F_nan = (0, 0)"
| "place (F_inf s) = (if s then - 1 else 1, 0)"
| "place (F_num s q) = (0, rat_of_f32 (F_num s q))"

lemma f32_less_iff: "a < b \<longleftrightarrow> a \<noteq> F_nan \<and> b \<noteq> F_nan \<and> place a < place (b :: f32)"
  by (cases a; cases b) (auto simp: less_f32_def)

lemma f32_less_eq_iff: "a \<le> b \<longleftrightarrow> a \<noteq> F_nan \<and> b \<noteq> F_nan \<and> place a \<le> place (b :: f32)"
  by (auto simp: less_eq_f32_def f32_less_iff not_less)

lemmas f32_order = f32_less_iff f32_less_eq_iff

lemma place_uminus: "place (- a) = (- fst (place a), - snd (place a))"
  by (cases a) (auto simp: rat_of_f32_def)

lemma uminus_nan [simp]: "- a = F_nan \<longleftrightarrow> a = F_nan"
  by (cases a) auto

text \<open>A number rounded to an integer is not farther than a half from it.\<close>

lemma round_even_near: "\<bar>rat_of_int (round_even x) - x\<bar> \<le> 1 / 2"
proof -
  have "rat_of_int \<lfloor>x\<rfloor> \<le> x" "x < rat_of_int \<lfloor>x\<rfloor> + 1" by linarith+
  then show ?thesis by (auto simp: round_even_def Let_def abs_le_iff)
qed

lemma round_even_of_int [simp]: "round_even (rat_of_int n) = n"
  by (simp add: round_even_def)

lemma pow2_pos [simp]: "0 < pow2 k"
  by (simp add: pow2_def)

text \<open>The rounding error is at most half a unit of the last place.\<close>

lemma round_magnitude_near:
  assumes "round_magnitude s q = F_num t r"
  shows "\<bar>r - q\<bar> \<le> pow2 (max (- 149) (log2_floor q - 23)) / 2"
proof (cases "q = 0")
  case True
  then show ?thesis using assms by (simp add: round_magnitude_def less_imp_le)
next
  case False
  let ?u = "pow2 (max (- 149) (log2_floor q - 23))"
  have u: "0 < ?u" by simp
  have "r = rat_of_int (round_even (q / ?u)) * ?u"
    using assms False by (auto simp: round_magnitude_def Let_def split: if_splits)
  then have "r - q = (rat_of_int (round_even (q / ?u)) - q / ?u) * ?u"
    using less_imp_neq [OF u] by (simp add: algebra_simps)
  then have "\<bar>r - q\<bar> = \<bar>rat_of_int (round_even (q / ?u)) - q / ?u\<bar> * ?u"
    using abs_of_pos [OF u] by (simp only: abs_mult)
  also have "\<dots> \<le> 1 / 2 * ?u"
    by (intro mult_right_mono round_even_near less_imp_le [OF u])
  finally show ?thesis by simp
qed

text \<open>Numbers that need no rounding.\<close>

lemma round_magnitude_exact:
  assumes "q = rat_of_int n * pow2 (max (- 149) (log2_floor q - 23))" and "q < 2 ^ 128"
  shows "round_magnitude s q = F_num s q"
proof -
  let ?u = "pow2 (max (- 149) (log2_floor q - 23))"
  have "q / ?u = rat_of_int n" using pow2_pos [of "max (- 149) (log2_floor q - 23)"]
    by (subst (1) assms(1)) (simp del: pow2_pos)
  then show ?thesis using assms by (simp add: round_magnitude_def Let_def)
qed

text \<open>The exponent is that of the greatest power of two below the number.\<close>

lemma floorlog_numeral [simp]: "floorlog 2 (numeral w) = floorlog 2 (numeral w div 2) + 1"
  by (subst compute_floorlog) simp

lemma floorlog_one_zero [simp]: "floorlog 2 0 = 0" "floorlog 2 (Suc 0) = 1"
  by (simp_all add: compute_floorlog [of 2 "Suc 0"] floorlog_def)

lemma rat_floor_numeral [simp]: "\<lfloor>numeral a / numeral b :: rat\<rfloor> = numeral a div numeral b"
  using floor_divide_of_int_eq [of "numeral a" "numeral b", where 'a = rat] by simp

lemma rat_ceiling_numeral [simp]: "\<lceil>numeral a / numeral b :: rat\<rceil> = - (- numeral a div numeral b)"
  using ceiling_divide_eq_div [of "numeral a" "numeral b", where 'a = rat] by simp

text \<open>The arithmetic rounds: a tenth has no representation, and a large number absorbs a small one.\<close>

lemmas f32_run = f32_of_rat_def round_magnitude_def log2_floor_def round_even_def pow2_def
  rat_of_f32_def Let_def

lemma tenth: "f32_of_rat (1 / 10) = F_num False (13421773 / 134217728)"
  by (simp add: f32_run)

lemma absorbed: "f32_of_rat 16777216 + 1 = f32_of_rat 16777216"
  by (simp add: f32_run one_f32_def)

lemma overflow: "f32_of_rat (10 ^ 30) * f32_of_rat (10 ^ 30) = F_inf False"
  by (simp add: f32_run)

lemma underflow: "f32_of_rat (- 1 / 10 ^ 30) * f32_of_rat (1 / 10 ^ 30) = F_num True 0"
  by (simp add: f32_run)

end
