(* ===== verification/Vectors.thy ===== *)
theory Vectors
  imports Float32
begin

text \<open>
  Vectors and the small functions of \<open>MathUtil\<close>. The definitions of \<open>Math\<close> use the operators of the
  type of numbers, \<open>'f\<close> for \<open>float\<close> and \<open>'d\<close> for \<open>double\<close>: with \<open>f32\<close> they compute what a processor does
  that evaluates every operation in single precision, with the rational or real numbers they compute
  without rounding, which is what the theorems on geometry are about. What \<open>cmath\<close> provides, the
  constants of the code and the conversion to double precision are a parameter.
\<close>

section \<open>Numbers and cmath\<close>

text \<open>
  The names with \<open>_f\<close> are the overloads for \<open>float\<close>; \<open>lit\<close> and \<open>dlit\<close> are the nearest numbers of the two
  types to a decimal constant.
\<close>

record ('f, 'd) cmath =
  lit :: "rat \<Rightarrow> 'f"
  dlit :: "rat \<Rightarrow> 'd"
  widen :: "'f \<Rightarrow> 'd"
  sqrt_f :: "'f \<Rightarrow> 'f"
  sin_f :: "'f \<Rightarrow> 'f"
  cos_f :: "'f \<Rightarrow> 'f"
  tan_f :: "'f \<Rightarrow> 'f"
  asin_f :: "'f \<Rightarrow> 'f"
  acos_f :: "'f \<Rightarrow> 'f"
  atan_f :: "'f \<Rightarrow> 'f"
  atan2_f :: "'f \<Rightarrow> 'f \<Rightarrow> 'f"
  floor_f :: "'f \<Rightarrow> 'f"

text \<open>
  The operator \<open>==\<close> of C: the zeros are equal, and what is no number equals nothing. And \<open>fabs\<close>, which
  the code uses in comparisons only, where the sign of zero does not matter.
\<close>

definition feq :: "'f::ord \<Rightarrow> 'f \<Rightarrow> bool" where
  "feq a b \<longleftrightarrow> a \<le> b \<and> b \<le> a"

definition fabs :: "'f::{zero, uminus, ord} \<Rightarrow> 'f" where
  "fabs a = (if a < 0 then - a else a)"

lemma feq_order [simp]: "feq a b \<longleftrightarrow> a = (b :: 'f::order)"
  by (auto simp: feq_def)

lemma fabs_abs [simp]: "fabs a = \<bar>a :: 'f::linordered_idom\<bar>"
  by (simp add: fabs_def)

lemma feq_f32: "feq a b \<longleftrightarrow> a \<noteq> F_nan \<and> b \<noteq> F_nan \<and> place a = place b"
  by (auto simp: feq_def f32_less_eq_iff)


section \<open>Vectors\<close>

record 'f vector3 =
  v_x :: 'f
  v_y :: 'f
  v_z :: 'f

definition Vector3 :: "'f \<Rightarrow> 'f \<Rightarrow> 'f \<Rightarrow> 'f vector3" where
  "Vector3 nx ny nz = \<lparr>v_x = nx, v_y = ny, v_z = nz\<rparr>"

lemma Vector3_sel [simp]: "v_x (Vector3 p q r) = p" "v_y (Vector3 p q r) = q" "v_z (Vector3 p q r) = r"
  by (simp_all add: Vector3_def)

lemma Vector3_eqI: "v_x a = v_x b \<Longrightarrow> v_y a = v_y b \<Longrightarrow> v_z a = v_z b \<Longrightarrow> a = (b :: 'f vector3)"
  by simp

lemma Vector3_inject [simp]: "Vector3 p q r = Vector3 p' q' r' \<longleftrightarrow> p = p' \<and> q = q' \<and> r = r'"
  by (simp add: Vector3_def)

definition Vector3_eq :: "'f::ord vector3 \<Rightarrow> 'f vector3 \<Rightarrow> bool" where
  "Vector3_eq v a \<longleftrightarrow> feq (v_x v) (v_x a) \<and> feq (v_y v) (v_y a) \<and> feq (v_z v) (v_z a)"

definition Vector3_ne :: "'f::ord vector3 \<Rightarrow> 'f vector3 \<Rightarrow> bool" where
  "Vector3_ne v a \<longleftrightarrow> \<not> feq (v_x v) (v_x a) \<or> \<not> feq (v_y v) (v_y a) \<or> \<not> feq (v_z v) (v_z a)"

definition Vector3_zero :: "'f::zero vector3 \<Rightarrow> 'f vector3" where
  "Vector3_zero v = v\<lparr>v_x := 0, v_y := 0, v_z := 0\<rparr>"

definition Vector3_neg :: "'f::uminus vector3 \<Rightarrow> 'f vector3" where
  "Vector3_neg v = Vector3 (- v_x v) (- v_y v) (- v_z v)"

definition Vector3_add :: "'f::plus vector3 \<Rightarrow> 'f vector3 \<Rightarrow> 'f vector3" where
  "Vector3_add v a = Vector3 (v_x v + v_x a) (v_y v + v_y a) (v_z v + v_z a)"

definition Vector3_sub :: "'f::minus vector3 \<Rightarrow> 'f vector3 \<Rightarrow> 'f vector3" where
  "Vector3_sub v a = Vector3 (v_x v - v_x a) (v_y v - v_y a) (v_z v - v_z a)"

definition Vector3_scale :: "'f::times vector3 \<Rightarrow> 'f \<Rightarrow> 'f vector3" where
  "Vector3_scale v a = Vector3 (v_x v * a) (v_y v * a) (v_z v * a)"

definition Vector3_div :: "'f::{one, times, inverse} vector3 \<Rightarrow> 'f \<Rightarrow> 'f vector3" where
  "Vector3_div v a =
     (let oneOverA = 1 / a in Vector3 (v_x v * oneOverA) (v_y v * oneOverA) (v_z v * oneOverA))"

definition Vector3_add_assign :: "'f::plus vector3 \<Rightarrow> 'f vector3 \<Rightarrow> 'f vector3" where
  "Vector3_add_assign v a = v\<lparr>v_x := v_x v + v_x a, v_y := v_y v + v_y a, v_z := v_z v + v_z a\<rparr>"

definition Vector3_sub_assign :: "'f::minus vector3 \<Rightarrow> 'f vector3 \<Rightarrow> 'f vector3" where
  "Vector3_sub_assign v a = v\<lparr>v_x := v_x v - v_x a, v_y := v_y v - v_y a, v_z := v_z v - v_z a\<rparr>"

definition Vector3_scale_assign :: "'f::times vector3 \<Rightarrow> 'f \<Rightarrow> 'f vector3" where
  "Vector3_scale_assign v a = v\<lparr>v_x := v_x v * a, v_y := v_y v * a, v_z := v_z v * a\<rparr>"

definition Vector3_div_assign :: "'f::{one, times, inverse} vector3 \<Rightarrow> 'f \<Rightarrow> 'f vector3" where
  "Vector3_div_assign v a =
     (let oneOverA = 1 / a
      in v\<lparr>v_x := v_x v * oneOverA, v_y := v_y v * oneOverA, v_z := v_z v * oneOverA\<rparr>)"

definition Vector3_normalize ::
  "('f::{zero, one, plus, times, inverse, ord}, 'd) cmath \<Rightarrow> 'f vector3 \<Rightarrow> 'f vector3" where
  "Vector3_normalize M v =
     (let magSq = v_x v * v_x v + v_y v * v_y v + v_z v * v_z v
      in if magSq > 0
         then let oneOverMag = 1 / sqrt_f M magSq
              in v\<lparr>v_x := v_x v * oneOverMag, v_y := v_y v * oneOverMag, v_z := v_z v * oneOverMag\<rparr>
         else v)"

definition Vector3_dot :: "'f::{plus, times} vector3 \<Rightarrow> 'f vector3 \<Rightarrow> 'f" where
  "Vector3_dot v a = v_x v * v_x a + v_y v * v_y a + v_z v * v_z a"

definition vectorMag :: "('f::{plus, times}, 'd) cmath \<Rightarrow> 'f vector3 \<Rightarrow> 'f" where
  "vectorMag M a = sqrt_f M (v_x a * v_x a + v_y a * v_y a + v_z a * v_z a)"

definition crossProduct :: "'f::{minus, times} vector3 \<Rightarrow> 'f vector3 \<Rightarrow> 'f vector3" where
  "crossProduct a b = Vector3
     (v_y a * v_z b - v_z a * v_y b)
     (v_z a * v_x b - v_x a * v_z b)
     (v_x a * v_y b - v_y a * v_x b)"

definition scale_Vector3 :: "'f::times \<Rightarrow> 'f vector3 \<Rightarrow> 'f vector3" where
  "scale_Vector3 k v = Vector3 (k * v_x v) (k * v_y v) (k * v_z v)"

definition distanceSquared :: "'f::{plus, minus, times} vector3 \<Rightarrow> 'f vector3 \<Rightarrow> 'f" where
  "distanceSquared a b =
     (let dx = v_x a - v_x b; dy = v_y a - v_y b; dz = v_z a - v_z b in dx * dx + dy * dy + dz * dz)"

definition distance :: "('f::{plus, minus, times}, 'd) cmath \<Rightarrow> 'f vector3 \<Rightarrow> 'f vector3 \<Rightarrow> 'f" where
  "distance M a b =
     (let dx = v_x a - v_x b; dy = v_y a - v_y b; dz = v_z a - v_z b
      in sqrt_f M (dx * dx + dy * dy + dz * dz))"

definition kZeroVector :: "'f::zero vector3" where
  "kZeroVector = Vector3 0 0 0"


section \<open>Angles\<close>

definition kPi :: "('f, 'd) cmath \<Rightarrow> 'f" where
  "kPi M = lit M (314159265 / 100000000)"

definition k2Pi :: "('f::times, 'd) cmath \<Rightarrow> 'f" where
  "k2Pi M = kPi M * lit M 2"

definition kPiOver2 :: "('f::inverse, 'd) cmath \<Rightarrow> 'f" where
  "kPiOver2 M = kPi M / lit M 2"

definition k1OverPi :: "('f::{one, inverse}, 'd) cmath \<Rightarrow> 'f" where
  "k1OverPi M = 1 / kPi M"

definition k1Over2Pi :: "('f::{one, times, inverse}, 'd) cmath \<Rightarrow> 'f" where
  "k1Over2Pi M = 1 / k2Pi M"

definition kPiOver180 :: "('f::inverse, 'd) cmath \<Rightarrow> 'f" where
  "kPiOver180 M = kPi M / lit M 180"

definition k180OverPi :: "('f::inverse, 'd) cmath \<Rightarrow> 'f" where
  "k180OverPi M = lit M 180 / kPi M"

definition wrapPi :: "('f::{one, plus, minus, times, inverse}, 'd) cmath \<Rightarrow> 'f \<Rightarrow> 'f" where
  "wrapPi M theta =
     (let theta = theta + kPi M;
          theta = theta - floor_f M (theta * k1Over2Pi M) * k2Pi M
      in theta - kPi M)"

definition safeAcos :: "('f::{zero, one, uminus, ord}, 'd) cmath \<Rightarrow> 'f \<Rightarrow> 'f" where
  "safeAcos M a = (if a \<le> - 1 then kPi M else if a \<ge> 1 then 0 else acos_f M a)"

definition degToRad :: "('f::{times, inverse}, 'd) cmath \<Rightarrow> 'f \<Rightarrow> 'f" where
  "degToRad M deg = deg * kPiOver180 M"

definition radToDeg :: "('f::{times, inverse}, 'd) cmath \<Rightarrow> 'f \<Rightarrow> 'f" where
  "radToDeg M rad = rad * k180OverPi M"

definition sinCos :: "('f, 'd) cmath \<Rightarrow> 'f \<Rightarrow> 'f \<times> 'f" where
  "sinCos M theta = (sin_f M theta, cos_f M theta)"

definition fovToZoom :: "('f::{one, times, inverse}, 'd) cmath \<Rightarrow> 'f \<Rightarrow> 'f" where
  "fovToZoom M fov = 1 / tan_f M (fov * lit M (1 / 2))"

definition zoomToFov :: "('f::{one, times, inverse}, 'd) cmath \<Rightarrow> 'f \<Rightarrow> 'f" where
  "zoomToFov M zoom = lit M 2 * atan_f M (1 / zoom)"

text \<open>
  Over the real numbers: every function of \<open>cmath\<close> is the function of mathematics, and the angle of a
  point that \<open>atan2\<close> gives is found from the arctangent by the quarter in which the point lies.
\<close>

definition atan2_real :: "real \<Rightarrow> real \<Rightarrow> real" where
  "atan2_real s c =
     (if c > 0 then arctan (s / c)
      else if c < 0 then if s \<ge> 0 then arctan (s / c) + pi else arctan (s / c) - pi
      else if s > 0 then pi / 2 else if s < 0 then - (pi / 2) else 0)"

definition cmath_real :: "(real, real) cmath" where
  "cmath_real =
     \<lparr>lit = of_rat, dlit = of_rat, widen = id, sqrt_f = sqrt, sin_f = sin, cos_f = cos, tan_f = tan,
      asin_f = arcsin, acos_f = arccos, atan_f = arctan, atan2_f = atan2_real,
      floor_f = (\<lambda>a. of_int \<lfloor>a\<rfloor>)\<rparr>"

end
