(* ===== verification/Rotations.thy ===== *)
theory Rotations
  imports Vectors
begin

text \<open>
  Quaternions, Euler angles and rotation matrices, as \<open>Quaternion\<close>, \<open>EulerAngles\<close> and
  \<open>RotationMatrix\<close> have them. An operation that sets its object takes the object before and returns it
  after; one that contains an \<open>assert\<close> returns no object when the assertion fails, as in the
  configuration for debugging.
\<close>

section \<open>Types\<close>

record 'f quaternion =
  q_w :: 'f
  q_x :: 'f
  q_y :: 'f
  q_z :: 'f

record 'f eulerAngles =
  heading :: 'f
  pitch :: 'f
  bank :: 'f

record 'f rotationMatrix =
  r11 :: 'f
  r12 :: 'f
  r13 :: 'f
  r21 :: 'f
  r22 :: 'f
  r23 :: 'f
  r31 :: 'f
  r32 :: 'f
  r33 :: 'f


section \<open>Quaternions\<close>

definition kQuaternionIdentity :: "'f::{zero, one} quaternion" where
  "kQuaternionIdentity = \<lparr>q_w = 1, q_x = 0, q_y = 0, q_z = 0\<rparr>"

definition Quaternion_identity :: "'f::{zero, one} quaternion \<Rightarrow> 'f quaternion" where
  "Quaternion_identity q = q\<lparr>q_w := 1, q_x := 0, q_y := 0, q_z := 0\<rparr>"

definition setToRotateAboutX :: "('f::{zero, times}, 'd) cmath \<Rightarrow> 'f quaternion \<Rightarrow> 'f \<Rightarrow> 'f quaternion" where
  "setToRotateAboutX M q theta =
     (let thetaOver2 = theta * lit M (1 / 2)
      in q\<lparr>q_w := cos_f M thetaOver2, q_x := sin_f M thetaOver2, q_y := 0, q_z := 0\<rparr>)"

definition setToRotateAboutY :: "('f::{zero, times}, 'd) cmath \<Rightarrow> 'f quaternion \<Rightarrow> 'f \<Rightarrow> 'f quaternion" where
  "setToRotateAboutY M q theta =
     (let thetaOver2 = theta * lit M (1 / 2)
      in q\<lparr>q_w := cos_f M thetaOver2, q_x := 0, q_y := sin_f M thetaOver2, q_z := 0\<rparr>)"

definition setToRotateAboutZ :: "('f::{zero, times}, 'd) cmath \<Rightarrow> 'f quaternion \<Rightarrow> 'f \<Rightarrow> 'f quaternion" where
  "setToRotateAboutZ M q theta =
     (let thetaOver2 = theta * lit M (1 / 2)
      in q\<lparr>q_w := cos_f M thetaOver2, q_x := 0, q_y := 0, q_z := sin_f M thetaOver2\<rparr>)"

definition setToRotateAboutAxis ::
  "('f::{zero, one, uminus, plus, minus, times, ord}, 'd) cmath \<Rightarrow> 'f quaternion \<Rightarrow> 'f vector3 \<Rightarrow> 'f
     \<Rightarrow> 'f quaternion option" where
  "setToRotateAboutAxis M q axis theta =
     (if fabs (vectorMag M axis - 1) < lit M (1 / 100)
      then let thetaOver2 = theta * lit M (1 / 2);
               sinThetaOver2 = sin_f M thetaOver2
           in Some (q\<lparr>q_w := cos_f M thetaOver2, q_x := v_x axis * sinThetaOver2,
                      q_y := v_y axis * sinThetaOver2, q_z := v_z axis * sinThetaOver2\<rparr>)
      else None)"

definition setToRotateObjectToInertial ::
  "('f::{uminus, plus, minus, times}, 'd) cmath \<Rightarrow> 'f quaternion \<Rightarrow> 'f eulerAngles \<Rightarrow> 'f quaternion" where
  "setToRotateObjectToInertial M q orientation =
     (let (sp, cp) = sinCos M (pitch orientation * lit M (1 / 2));
          (sb, cb) = sinCos M (bank orientation * lit M (1 / 2));
          (sh, ch) = sinCos M (heading orientation * lit M (1 / 2))
      in q\<lparr>q_w := ch * cp * cb + sh * sp * sb,
           q_x := ch * sp * cb + sh * cp * sb,
           q_y := - ch * sp * sb + sh * cp * cb,
           q_z := - sh * sp * cb + ch * cp * sb\<rparr>)"

definition setToRotateInertialToObject ::
  "('f::{uminus, plus, minus, times}, 'd) cmath \<Rightarrow> 'f quaternion \<Rightarrow> 'f eulerAngles \<Rightarrow> 'f quaternion" where
  "setToRotateInertialToObject M q orientation =
     (let (sp, cp) = sinCos M (pitch orientation * lit M (1 / 2));
          (sb, cb) = sinCos M (bank orientation * lit M (1 / 2));
          (sh, ch) = sinCos M (heading orientation * lit M (1 / 2))
      in q\<lparr>q_w := ch * cp * cb + sh * sp * sb,
           q_x := - ch * sp * cb - sh * cp * sb,
           q_y := ch * sp * sb - sh * cb * cp,
           q_z := sh * sp * cb - ch * cp * sb\<rparr>)"

definition Quaternion_times :: "'f::{plus, minus, times} quaternion \<Rightarrow> 'f quaternion \<Rightarrow> 'f quaternion" where
  "Quaternion_times q a =
     \<lparr>q_w = q_w q * q_w a - q_x q * q_x a - q_y q * q_y a - q_z q * q_z a,
      q_x = q_w q * q_x a + q_x q * q_w a + q_z q * q_y a - q_y q * q_z a,
      q_y = q_w q * q_y a + q_y q * q_w a + q_x q * q_z a - q_z q * q_x a,
      q_z = q_w q * q_z a + q_z q * q_w a + q_y q * q_x a - q_x q * q_y a\<rparr>"

definition Quaternion_times_assign :: "'f::{plus, minus, times} quaternion \<Rightarrow> 'f quaternion \<Rightarrow> 'f quaternion" where
  "Quaternion_times_assign q a = (let q = Quaternion_times q a in q)"

definition Quaternion_normalize ::
  "('f::{zero, one, plus, times, inverse, ord}, 'd) cmath \<Rightarrow> 'f quaternion \<Rightarrow> 'f quaternion option" where
  "Quaternion_normalize M q =
     (let mag = sqrt_f M (q_w q * q_w q + q_x q * q_x q + q_y q * q_y q + q_z q * q_z q)
      in if mag > 0
         then let oneOverMag = 1 / mag
              in Some (q\<lparr>q_w := q_w q * oneOverMag, q_x := q_x q * oneOverMag,
                         q_y := q_y q * oneOverMag, q_z := q_z q * oneOverMag\<rparr>)
         else None)"

definition getRotationAngle :: "('f::{zero, one, uminus, times, ord}, 'd) cmath \<Rightarrow> 'f quaternion \<Rightarrow> 'f" where
  "getRotationAngle M q = (let thetaOver2 = safeAcos M (q_w q) in thetaOver2 * lit M 2)"

definition getRotationAxis ::
  "('f::{zero, one, minus, times, inverse, ord}, 'd) cmath \<Rightarrow> 'f quaternion \<Rightarrow> 'f vector3" where
  "getRotationAxis M q =
     (let sinThetaOver2Sq = 1 - q_w q * q_w q
      in if sinThetaOver2Sq \<le> 0 then Vector3 1 0 0
         else let oneOverSinThetaOver2 = 1 / sqrt_f M sinThetaOver2Sq
              in Vector3 (q_x q * oneOverSinThetaOver2) (q_y q * oneOverSinThetaOver2)
                   (q_z q * oneOverSinThetaOver2))"

definition dotProduct :: "'f::{plus, times} quaternion \<Rightarrow> 'f quaternion \<Rightarrow> 'f" where
  "dotProduct a b = q_w a * q_w b + q_x a * q_x b + q_y a * q_y b + q_z a * q_z b"

definition slerp ::
  "('f::{zero, one, uminus, plus, minus, times, inverse, ord}, 'd) cmath \<Rightarrow> 'f quaternion \<Rightarrow> 'f quaternion
     \<Rightarrow> 'f \<Rightarrow> 'f quaternion option" where
  "slerp M q0 q1 t =
     (if t \<le> 0 then Some q0
      else if t \<ge> 1 then Some q1
      else
        let cosOmega = dotProduct q0 q1;
            (q1w, q1x, q1y, q1z) = (q_w q1, q_x q1, q_y q1, q_z q1);
            (q1w, q1x, q1y, q1z, cosOmega) =
              (if cosOmega < 0 then (- q1w, - q1x, - q1y, - q1z, - cosOmega)
               else (q1w, q1x, q1y, q1z, cosOmega))
        in if cosOmega < lit M (11 / 10)
           then let (k0, k1) =
                      (if cosOmega > lit M (9999 / 10000) then (1 - t, t)
                       else let sinOmega = sqrt_f M (1 - cosOmega * cosOmega);
                                omega = atan2_f M sinOmega cosOmega;
                                oneOverSinOmega = 1 / sinOmega
                            in (sin_f M ((1 - t) * omega) * oneOverSinOmega,
                                sin_f M (t * omega) * oneOverSinOmega))
                in Some \<lparr>q_w = k0 * q_w q0 + k1 * q1w, q_x = k0 * q_x q0 + k1 * q1x,
                         q_y = k0 * q_y q0 + k1 * q1y, q_z = k0 * q_z q0 + k1 * q1z\<rparr>
           else None)"

definition conjugate :: "'f::uminus quaternion \<Rightarrow> 'f quaternion" where
  "conjugate q = \<lparr>q_w = q_w q, q_x = - q_x q, q_y = - q_y q, q_z = - q_z q\<rparr>"

definition Quaternion_pow ::
  "('f::{zero, uminus, times, inverse, ord}, 'd) cmath \<Rightarrow> 'f quaternion \<Rightarrow> 'f \<Rightarrow> 'f quaternion" where
  "Quaternion_pow M q exponent =
     (if fabs (q_w q) > lit M (9999 / 10000) then q
      else let alpha = acos_f M (q_w q);
               newAlpha = alpha * exponent;
               mult = sin_f M newAlpha / sin_f M alpha
           in \<lparr>q_w = cos_f M newAlpha, q_x = q_x q * mult, q_y = q_y q * mult, q_z = q_z q * mult\<rparr>)"


section \<open>Rotation matrices\<close>

definition RotationMatrix_identity :: "'f::{zero, one} rotationMatrix \<Rightarrow> 'f rotationMatrix" where
  "RotationMatrix_identity r = r\<lparr>
     r11 := 1, r12 := 0, r13 := 0,
     r21 := 0, r22 := 1, r23 := 0,
     r31 := 0, r32 := 0, r33 := 1\<rparr>"

definition RotationMatrix_setup ::
  "('f::{uminus, plus, times}, 'd) cmath \<Rightarrow> 'f rotationMatrix \<Rightarrow> 'f eulerAngles \<Rightarrow> 'f rotationMatrix" where
  "RotationMatrix_setup M r orientation =
     (let (sh, ch) = sinCos M (heading orientation);
          (sp, cp) = sinCos M (pitch orientation);
          (sb, cb) = sinCos M (bank orientation)
      in r\<lparr>
        r11 := ch * cb + sh * sp * sb, r12 := - ch * sb + sh * sp * cb, r13 := sh * cp,
        r21 := sb * cp, r22 := cb * cp, r23 := - sp,
        r31 := - sh * cb + ch * sp * sb, r32 := sb * sh + ch * sp * cb, r33 := ch * cp\<rparr>)"

definition RotationMatrix_fromInertialToObjectQuaternion ::
  "('f::{one, plus, minus, times}, 'd) cmath \<Rightarrow> 'f rotationMatrix \<Rightarrow> 'f quaternion \<Rightarrow> 'f rotationMatrix" where
  "RotationMatrix_fromInertialToObjectQuaternion M r q = r\<lparr>
     r11 := 1 - lit M 2 * (q_y q * q_y q + q_z q * q_z q),
     r12 := lit M 2 * (q_x q * q_y q + q_w q * q_z q),
     r13 := lit M 2 * (q_x q * q_z q - q_w q * q_y q),
     r21 := lit M 2 * (q_x q * q_y q - q_w q * q_z q),
     r22 := 1 - lit M 2 * (q_x q * q_x q + q_z q * q_z q),
     r23 := lit M 2 * (q_y q * q_z q + q_w q * q_x q),
     r31 := lit M 2 * (q_x q * q_z q + q_w q * q_y q),
     r32 := lit M 2 * (q_y q * q_z q - q_w q * q_x q),
     r33 := 1 - lit M 2 * (q_x q * q_x q + q_y q * q_y q)\<rparr>"

definition RotationMatrix_fromObjectToInertialQuaternion ::
  "('f::{one, plus, minus, times}, 'd) cmath \<Rightarrow> 'f rotationMatrix \<Rightarrow> 'f quaternion \<Rightarrow> 'f rotationMatrix" where
  "RotationMatrix_fromObjectToInertialQuaternion M r q = r\<lparr>
     r11 := 1 - lit M 2 * (q_y q * q_y q + q_z q * q_z q),
     r12 := lit M 2 * (q_x q * q_y q - q_w q * q_z q),
     r13 := lit M 2 * (q_x q * q_z q + q_w q * q_y q),
     r21 := lit M 2 * (q_x q * q_y q + q_w q * q_z q),
     r22 := 1 - lit M 2 * (q_x q * q_x q + q_z q * q_z q),
     r23 := lit M 2 * (q_y q * q_z q - q_w q * q_x q),
     r31 := lit M 2 * (q_x q * q_z q - q_w q * q_y q),
     r32 := lit M 2 * (q_y q * q_z q + q_w q * q_x q),
     r33 := 1 - lit M 2 * (q_x q * q_x q + q_y q * q_y q)\<rparr>"

definition inertialToObject :: "'f::{plus, times} rotationMatrix \<Rightarrow> 'f vector3 \<Rightarrow> 'f vector3" where
  "inertialToObject r v = Vector3
     (r11 r * v_x v + r21 r * v_y v + r31 r * v_z v)
     (r12 r * v_x v + r22 r * v_y v + r32 r * v_z v)
     (r13 r * v_x v + r23 r * v_y v + r33 r * v_z v)"

definition objectToInertial :: "'f::{plus, times} rotationMatrix \<Rightarrow> 'f vector3 \<Rightarrow> 'f vector3" where
  "objectToInertial r v = Vector3
     (r11 r * v_x v + r12 r * v_y v + r13 r * v_z v)
     (r21 r * v_x v + r22 r * v_y v + r23 r * v_z v)
     (r31 r * v_x v + r32 r * v_y v + r33 r * v_z v)"


section \<open>Euler angles\<close>

definition EulerAngles_identity :: "'f::zero eulerAngles \<Rightarrow> 'f eulerAngles" where
  "EulerAngles_identity e = e\<lparr>pitch := 0, bank := 0, heading := 0\<rparr>"

definition kEulerAnglesIdentity :: "'f::zero eulerAngles" where
  "kEulerAnglesIdentity = \<lparr>heading = 0, pitch = 0, bank = 0\<rparr>"

text \<open>The comparison for the gimbal lock is one of double precision, as its constant is.\<close>

definition canonize ::
  "('f::{zero, one, uminus, plus, minus, times, inverse, ord}, 'd::{minus, ord}) cmath \<Rightarrow> 'f eulerAngles
     \<Rightarrow> 'f eulerAngles" where
  "canonize M e =
     (let e = e\<lparr>pitch := wrapPi M (pitch e)\<rparr>;
          e = (if pitch e < - kPiOver2 M
               then e\<lparr>pitch := - kPi M - pitch e, heading := heading e + kPi M, bank := bank e + kPi M\<rparr>
               else if pitch e > kPiOver2 M
               then e\<lparr>pitch := kPi M - pitch e, heading := heading e + kPi M, bank := bank e + kPi M\<rparr>
               else e);
          e = (if widen M (fabs (pitch e)) > widen M (kPiOver2 M) - dlit M (1 / 10000)
               then e\<lparr>heading := heading e + bank e, bank := 0\<rparr>
               else e\<lparr>bank := wrapPi M (bank e)\<rparr>)
      in e\<lparr>heading := wrapPi M (heading e)\<rparr>)"

definition EulerAngles_fromObjectToInertialQuaternion ::
  "('f::{zero, uminus, plus, minus, times, inverse, ord}, 'd) cmath \<Rightarrow> 'f eulerAngles \<Rightarrow> 'f quaternion
     \<Rightarrow> 'f eulerAngles" where
  "EulerAngles_fromObjectToInertialQuaternion M e q =
     (let sp = - lit M 2 * (q_y q * q_z q - q_w q * q_x q)
      in if fabs sp > lit M (9999 / 10000)
         then e\<lparr>pitch := kPiOver2 M * sp,
                heading := atan2_f M (- q_x q * q_z q + q_w q * q_y q)
                             (lit M (1 / 2) - q_y q * q_y q - q_z q * q_z q),
                bank := 0\<rparr>
         else e\<lparr>pitch := asin_f M sp,
                heading := atan2_f M (q_x q * q_z q + q_w q * q_y q)
                             (lit M (1 / 2) - q_x q * q_x q - q_y q * q_y q),
                bank := atan2_f M (q_x q * q_y q + q_w q * q_z q)
                          (lit M (1 / 2) - q_x q * q_x q - q_z q * q_z q)\<rparr>)"

definition EulerAngles_fromInertialToObjectQuaternion ::
  "('f::{zero, uminus, plus, minus, times, inverse, ord}, 'd) cmath \<Rightarrow> 'f eulerAngles \<Rightarrow> 'f quaternion
     \<Rightarrow> 'f eulerAngles" where
  "EulerAngles_fromInertialToObjectQuaternion M e q =
     (let sp = - lit M 2 * (q_y q * q_z q + q_w q * q_x q)
      in if fabs sp > lit M (9999 / 10000)
         then e\<lparr>pitch := kPiOver2 M * sp,
                heading := atan2_f M (- q_x q * q_z q - q_w q * q_y q)
                             (lit M (1 / 2) - q_y q * q_y q - q_z q * q_z q),
                bank := 0\<rparr>
         else e\<lparr>pitch := asin_f M sp,
                heading := atan2_f M (q_x q * q_z q - q_w q * q_y q)
                             (lit M (1 / 2) - q_x q * q_x q - q_y q * q_y q),
                bank := atan2_f M (q_x q * q_y q - q_w q * q_z q)
                          (lit M (1 / 2) - q_x q * q_x q - q_z q * q_z q)\<rparr>)"

definition fromRotationMatrix ::
  "('f::{zero, uminus, times, inverse, ord}, 'd) cmath \<Rightarrow> 'f eulerAngles \<Rightarrow> 'f rotationMatrix
     \<Rightarrow> 'f eulerAngles" where
  "fromRotationMatrix M e r =
     (let sp = - r23 r
      in if fabs sp > lit M (999999 / 100000)
         then e\<lparr>pitch := kPiOver2 M * sp, heading := atan2_f M (- r31 r) (r11 r), bank := 0\<rparr>
         else e\<lparr>heading := atan2_f M (r13 r) (r33 r), pitch := asin_f M sp,
                bank := atan2_f M (r21 r) (r22 r)\<rparr>)"

end
