(* ===== verification/Matrices.thy ===== *)
theory Matrices
  imports Rotations
begin

text \<open>
  The affine maps of \<open>Matrix4x3\<close>: nine numbers of a linear map on row vectors, and a translation. The
  operators and set-up functions, the determinant, the inverse, the way from and to Euler angles; an
  operation with a failed \<open>assert\<close> returns nothing.
\<close>

record 'f matrix4x3 =
  m11 :: 'f
  m12 :: 'f
  m13 :: 'f
  m21 :: 'f
  m22 :: 'f
  m23 :: 'f
  m31 :: 'f
  m32 :: 'f
  m33 :: 'f
  tx :: 'f
  ty :: 'f
  tz :: 'f


section \<open>Setting up\<close>

definition Matrix_identity :: "'f::{zero, one} matrix4x3 \<Rightarrow> 'f matrix4x3" where
  "Matrix_identity m = m\<lparr>
     m11 := 1, m12 := 0, m13 := 0,
     m21 := 0, m22 := 1, m23 := 0,
     m31 := 0, m32 := 0, m33 := 1,
     tx := 0, ty := 0, tz := 1\<rparr>"

definition zeroTranslation :: "'f::zero matrix4x3 \<Rightarrow> 'f matrix4x3" where
  "zeroTranslation m = m\<lparr>tx := 0, ty := 0, tz := 0\<rparr>"

definition setTranslation :: "'f matrix4x3 \<Rightarrow> 'f vector3 \<Rightarrow> 'f matrix4x3" where
  "setTranslation m d = m\<lparr>tx := v_x d, ty := v_y d, tz := v_z d\<rparr>"

definition setupTranslation :: "'f::{zero, one} matrix4x3 \<Rightarrow> 'f vector3 \<Rightarrow> 'f matrix4x3" where
  "setupTranslation m d = m\<lparr>
     m11 := 1, m12 := 0, m13 := 0,
     m21 := 0, m22 := 1, m23 := 0,
     m31 := 0, m32 := 0, m33 := 1,
     tx := v_x d, ty := v_y d, tz := v_z d\<rparr>"

definition setupLocalToParent :: "'f matrix4x3 \<Rightarrow> 'f vector3 \<Rightarrow> 'f rotationMatrix \<Rightarrow> 'f matrix4x3" where
  "setupLocalToParent m pos orient = m\<lparr>
     m11 := r11 orient, m12 := r21 orient, m13 := r31 orient,
     m21 := r12 orient, m22 := r22 orient, m23 := r32 orient,
     m31 := r13 orient, m32 := r23 orient, m33 := r33 orient,
     tx := v_x pos, ty := v_y pos, tz := v_z pos\<rparr>"

definition setupLocalToParent_euler ::
  "('f::{uminus, plus, times}, 'd) cmath \<Rightarrow> 'f rotationMatrix \<Rightarrow> 'f matrix4x3 \<Rightarrow> 'f vector3
     \<Rightarrow> 'f eulerAngles \<Rightarrow> 'f matrix4x3" where
  "setupLocalToParent_euler M fresh m pos orient =
     (let orientMatrix = RotationMatrix_setup M fresh orient in setupLocalToParent m pos orientMatrix)"

definition setupParentToLocal ::
  "'f::{uminus, plus, times} matrix4x3 \<Rightarrow> 'f vector3 \<Rightarrow> 'f rotationMatrix \<Rightarrow> 'f matrix4x3" where
  "setupParentToLocal m pos orient =
     (let m = m\<lparr>
        m11 := r11 orient, m12 := r12 orient, m13 := r13 orient,
        m21 := r21 orient, m22 := r22 orient, m23 := r23 orient,
        m31 := r31 orient, m32 := r32 orient, m33 := r33 orient\<rparr>
      in m\<lparr>
        tx := - (v_x pos * m11 m + v_y pos * m21 m + v_z pos * m31 m),
        ty := - (v_x pos * m12 m + v_y pos * m22 m + v_z pos * m32 m),
        tz := - (v_x pos * m13 m + v_y pos * m23 m + v_z pos * m33 m)\<rparr>)"

definition setupParentToLocal_euler ::
  "('f::{uminus, plus, times}, 'd) cmath \<Rightarrow> 'f rotationMatrix \<Rightarrow> 'f matrix4x3 \<Rightarrow> 'f vector3
     \<Rightarrow> 'f eulerAngles \<Rightarrow> 'f matrix4x3" where
  "setupParentToLocal_euler M fresh m pos orient =
     (let orientMatrix = RotationMatrix_setup M fresh orient in setupParentToLocal m pos orientMatrix)"

definition setupRotate_axis ::
  "('f::{zero, one, uminus}, 'd) cmath \<Rightarrow> 'f matrix4x3 \<Rightarrow> int \<Rightarrow> 'f \<Rightarrow> 'f matrix4x3 option" where
  "setupRotate_axis M m axis theta =
     (let (s, c) = sinCos M theta
      in if axis = 1 then Some (zeroTranslation (m\<lparr>
              m11 := 1, m12 := 0, m13 := 0,
              m21 := 0, m22 := c, m23 := s,
              m31 := 0, m32 := - s, m33 := c\<rparr>))
         else if axis = 2 then Some (zeroTranslation (m\<lparr>
              m11 := c, m12 := 0, m13 := - s,
              m21 := 0, m22 := 1, m23 := 0,
              m31 := s, m32 := 0, m33 := c\<rparr>))
         else if axis = 3 then Some (zeroTranslation (m\<lparr>
              m11 := c, m12 := s, m13 := 0,
              m21 := - s, m22 := c, m23 := 0,
              m31 := 0, m32 := 0, m33 := 1\<rparr>))
         else None)"

text \<open>The check that an axis has length 1.\<close>

definition unit_axis :: "('f::{zero, one, uminus, plus, minus, times, ord}, 'd) cmath \<Rightarrow> 'f vector3 \<Rightarrow> bool" where
  "unit_axis M axis \<longleftrightarrow> fabs (Vector3_dot axis axis - 1) < lit M (1 / 100)"

definition setupRotate ::
  "('f::{zero, one, uminus, plus, minus, times, ord}, 'd) cmath \<Rightarrow> 'f matrix4x3 \<Rightarrow> 'f vector3 \<Rightarrow> 'f
     \<Rightarrow> 'f matrix4x3 option" where
  "setupRotate M m axis theta =
     (if unit_axis M axis
      then let (s, c) = sinCos M theta;
               a = 1 - c;
               ax = a * v_x axis;
               ay = a * v_y axis;
               az = a * v_z axis
           in Some (zeroTranslation (m\<lparr>
                m11 := ax * v_x axis + c,
                m12 := ax * v_y axis + v_z axis * s,
                m13 := ax * v_z axis - v_y axis * s,
                m21 := ay * v_x axis - v_z axis * s,
                m22 := ay * v_y axis + c,
                m23 := ay * v_z axis + v_x axis * s,
                m31 := az * v_x axis + v_y axis * s,
                m32 := az * v_y axis - v_x axis * s,
                m33 := az * v_z axis + c\<rparr>))
      else None)"

definition fromQuaternion ::
  "('f::{zero, one, plus, minus, times}, 'd) cmath \<Rightarrow> 'f matrix4x3 \<Rightarrow> 'f quaternion \<Rightarrow> 'f matrix4x3" where
  "fromQuaternion M m q =
     (let ww = lit M 2 * q_w q;
          xx = lit M 2 * q_x q;
          yy = lit M 2 * q_y q;
          zz = lit M 2 * q_z q
      in zeroTranslation (m\<lparr>
           m11 := 1 - yy * q_y q - zz * q_z q,
           m12 := xx * q_y q + ww * q_z q,
           m13 := xx * q_z q - ww * q_x q,
           m21 := xx * q_y q - ww * q_z q,
           m22 := 1 - xx * q_x q - zz * q_z q,
           m23 := yy * q_z q + ww * q_x q,
           m31 := xx * q_z q + ww * q_y q,
           m32 := yy * q_z q - ww * q_x q,
           m33 := 1 - xx * q_x q - yy * q_y q\<rparr>))"

definition setupScale :: "'f::zero matrix4x3 \<Rightarrow> 'f vector3 \<Rightarrow> 'f matrix4x3" where
  "setupScale m s = zeroTranslation (m\<lparr>
     m11 := v_x s, m12 := 0, m13 := 0,
     m21 := 0, m22 := v_y s, m23 := 0,
     m31 := 0, m32 := 0, m33 := v_z s\<rparr>)"

definition setupScaleAlongAxis ::
  "('f::{zero, one, uminus, plus, minus, times, ord}, 'd) cmath \<Rightarrow> 'f matrix4x3 \<Rightarrow> 'f vector3 \<Rightarrow> 'f
     \<Rightarrow> 'f matrix4x3 option" where
  "setupScaleAlongAxis M m axis k =
     (if unit_axis M axis
      then let a = k - 1;
               ax = a * v_x axis;
               ay = a * v_y axis;
               az = a * v_z axis
           in Some (zeroTranslation (m\<lparr>
                m11 := ax * v_x axis + 1,
                m22 := ay * v_y axis + 1,
                m32 := az * v_z axis + 1,
                m12 := ax * v_y axis, m21 := ax * v_y axis,
                m13 := ax * v_z axis, m31 := ax * v_z axis,
                m23 := ay * v_z axis, m32 := ay * v_z axis\<rparr>))
      else None)"

definition setupShear :: "'f::{zero, one} matrix4x3 \<Rightarrow> int \<Rightarrow> 'f \<Rightarrow> 'f \<Rightarrow> 'f matrix4x3 option" where
  "setupShear m axis s t =
     (if axis = 1 then Some (zeroTranslation (m\<lparr>
          m11 := 1, m12 := s, m13 := t,
          m21 := 0, m22 := 1, m23 := 0,
          m31 := 0, m32 := 0, m33 := 1\<rparr>))
      else if axis = 2 then Some (zeroTranslation (m\<lparr>
          m11 := 1, m12 := 0, m13 := 0,
          m21 := s, m22 := 1, m23 := t,
          m31 := 0, m32 := 0, m33 := 1\<rparr>))
      else if axis = 3 then Some (zeroTranslation (m\<lparr>
          m11 := 1, m12 := 0, m13 := 0,
          m21 := 0, m22 := 1, m23 := 0,
          m31 := s, m32 := t, m33 := 1\<rparr>))
      else None)"

definition setupProject ::
  "('f::{zero, one, uminus, plus, minus, times, ord}, 'd) cmath \<Rightarrow> 'f matrix4x3 \<Rightarrow> 'f vector3
     \<Rightarrow> 'f matrix4x3 option" where
  "setupProject M m n =
     (if unit_axis M n
      then Some (zeroTranslation (m\<lparr>
             m11 := 1 - v_x n * v_x n,
             m22 := 1 - v_y n * v_y n,
             m33 := 1 - v_z n * v_z n,
             m12 := - v_x n * v_y n, m21 := - v_x n * v_y n,
             m13 := - v_x n * v_z n, m31 := - v_x n * v_z n,
             m23 := - v_y n * v_z n, m32 := - v_y n * v_z n\<rparr>))
      else None)"

definition setupReflect_axis ::
  "('f::{zero, one, uminus, times}, 'd) cmath \<Rightarrow> 'f matrix4x3 \<Rightarrow> int \<Rightarrow> 'f \<Rightarrow> 'f matrix4x3 option" where
  "setupReflect_axis M m axis k =
     (if axis = 1 then Some (m\<lparr>
          m11 := - 1, m12 := 0, m13 := 0,
          m21 := 0, m22 := 1, m23 := 0,
          m31 := 0, m32 := 0, m33 := 1,
          tx := lit M 2 * k, ty := 0, tz := 0\<rparr>)
      else if axis = 2 then Some (m\<lparr>
          m11 := 1, m12 := 0, m13 := 0,
          m21 := 0, m22 := - 1, m23 := 0,
          m31 := 0, m32 := 0, m33 := 1,
          tx := 0, ty := lit M 2 * k, tz := 0\<rparr>)
      else if axis = 3 then Some (m\<lparr>
          m11 := 1, m12 := 0, m13 := 0,
          m21 := 0, m22 := 1, m23 := 0,
          m31 := 0, m32 := 0, m33 := - 1,
          tx := 0, ty := 0, tz := lit M 2 * k\<rparr>)
      else None)"

definition setupReflect ::
  "('f::{zero, one, uminus, plus, minus, times, ord}, 'd) cmath \<Rightarrow> 'f matrix4x3 \<Rightarrow> 'f vector3
     \<Rightarrow> 'f matrix4x3 option" where
  "setupReflect M m n =
     (if unit_axis M n
      then let ax = - lit M 2 * v_x n;
               ay = - lit M 2 * v_y n;
               az = - lit M 2 * v_z n
           in Some (zeroTranslation (m\<lparr>
                m11 := 1 + ax * v_x n,
                m22 := 1 + ay * v_y n,
                m32 := 1 + az * v_z n,
                m12 := ax * v_y n, m21 := ax * v_y n,
                m13 := ax * v_z n, m31 := ax * v_z n,
                m23 := ay * v_z n, m32 := ay * v_z n\<rparr>))
      else None)"


section \<open>Operators\<close>

definition Vector3_transform :: "'f::{plus, times} vector3 \<Rightarrow> 'f matrix4x3 \<Rightarrow> 'f vector3" where
  "Vector3_transform p m = Vector3
     (v_x p * m11 m + v_y p * m21 m + v_z p * m31 m + tx m)
     (v_x p * m12 m + v_y p * m22 m + v_z p * m32 m + ty m)
     (v_x p * m13 m + v_y p * m23 m + v_z p * m33 m + tz m)"

definition Vector3_transform_assign :: "'f::{plus, times} vector3 \<Rightarrow> 'f matrix4x3 \<Rightarrow> 'f vector3" where
  "Vector3_transform_assign p m = (let p = Vector3_transform p m in p)"

definition Matrix_times :: "'f::{plus, times} matrix4x3 \<Rightarrow> 'f matrix4x3 \<Rightarrow> 'f matrix4x3" where
  "Matrix_times a b = \<lparr>
     m11 = m11 a * m11 b + m12 a * m21 b + m13 a * m31 b,
     m12 = m11 a * m12 b + m12 a * m22 b + m13 a * m32 b,
     m13 = m11 a * m13 b + m12 a * m23 b + m13 a * m33 b,
     m21 = m21 a * m11 b + m22 a * m21 b + m23 a * m31 b,
     m22 = m21 a * m12 b + m22 a * m22 b + m23 a * m32 b,
     m23 = m21 a * m13 b + m22 a * m23 b + m23 a * m33 b,
     m31 = m31 a * m11 b + m32 a * m21 b + m33 a * m31 b,
     m32 = m31 a * m12 b + m32 a * m22 b + m33 a * m32 b,
     m33 = m31 a * m13 b + m32 a * m23 b + m33 a * m33 b,
     tx = tx a * m11 b + ty a * m21 b + tz a * m31 b + tx b,
     ty = tx a * m12 b + ty a * m22 b + tz a * m32 b + ty b,
     tz = tx a * m13 b + ty a * m23 b + tz a * m33 b + tz b\<rparr>"

definition Matrix_times_assign :: "'f::{plus, times} matrix4x3 \<Rightarrow> 'f matrix4x3 \<Rightarrow> 'f matrix4x3" where
  "Matrix_times_assign a b = (let a = Matrix_times a b in a)"

definition determinant :: "'f::{plus, minus, times} matrix4x3 \<Rightarrow> 'f" where
  "determinant m =
     m11 m * (m22 m * m33 m - m23 m * m32 m)
     + m12 m * (m23 m * m31 m - m21 m * m33 m)
     + m13 m * (m21 m * m32 m - m22 m * m31 m)"

definition Matrix_inverse ::
  "('f::{zero, one, uminus, plus, minus, times, inverse, ord}, 'd) cmath \<Rightarrow> 'f matrix4x3
     \<Rightarrow> 'f matrix4x3 option" where
  "Matrix_inverse M m =
     (let det = determinant m
      in if fabs det > lit M (1 / 1000000)
         then let oneOverDet = 1 / det;
                  r11 = (m22 m * m33 m - m23 m * m32 m) * oneOverDet;
                  r12 = (m13 m * m32 m - m12 m * m33 m) * oneOverDet;
                  r13 = (m12 m * m23 m - m13 m * m22 m) * oneOverDet;
                  r21 = (m23 m * m31 m - m21 m * m33 m) * oneOverDet;
                  r22 = (m11 m * m33 m - m13 m * m31 m) * oneOverDet;
                  r23 = (m13 m * m21 m - m11 m * m23 m) * oneOverDet;
                  r31 = (m21 m * m32 m - m22 m * m31 m) * oneOverDet;
                  r32 = (m12 m * m31 m - m11 m * m32 m) * oneOverDet;
                  r33 = (m11 m * m22 m - m12 m * m21 m) * oneOverDet
              in Some \<lparr>m11 = r11, m12 = r12, m13 = r13,
                       m21 = r21, m22 = r22, m23 = r23,
                       m31 = r31, m32 = r32, m33 = r33,
                       tx = - (tx m * r11 + ty m * r21 + tz m * r31),
                       ty = - (tx m * r12 + ty m * r22 + tz m * r32),
                       tz = - (tx m * r13 + ty m * r23 + tz m * r33)\<rparr>
         else None)"

definition getTranslation :: "'f matrix4x3 \<Rightarrow> 'f vector3" where
  "getTranslation m = Vector3 (tx m) (ty m) (tz m)"

definition getPositionFromParentToLocalMatrix :: "'f::{uminus, plus, times} matrix4x3 \<Rightarrow> 'f vector3" where
  "getPositionFromParentToLocalMatrix m = Vector3
     (- (tx m * m11 m + ty m * m12 m + tz m * m13 m))
     (- (tx m * m21 m + ty m * m22 m + tz m * m23 m))
     (- (tx m * m31 m + ty m * m32 m + tz m * m33 m))"

definition getPositionFromLocalToParentMatrix :: "'f matrix4x3 \<Rightarrow> 'f vector3" where
  "getPositionFromLocalToParentMatrix m = Vector3 (tx m) (ty m) (tz m)"

definition fromObjectToWorldMatrix ::
  "('f::{zero, uminus, times, inverse, ord}, 'd) cmath \<Rightarrow> 'f eulerAngles \<Rightarrow> 'f matrix4x3
     \<Rightarrow> 'f eulerAngles" where
  "fromObjectToWorldMatrix M e m =
     (let sp = - m32 m
      in if fabs sp > lit M (999999 / 100000)
         then e\<lparr>pitch := kPiOver2 M * sp, heading := atan2_f M (- m23 m) (m11 m), bank := 0\<rparr>
         else e\<lparr>heading := atan2_f M (m31 m) (m33 m), pitch := asin_f M sp,
                bank := atan2_f M (m12 m) (m22 m)\<rparr>)"

definition fromWorldToObjectMatrix ::
  "('f::{zero, uminus, times, inverse, ord}, 'd) cmath \<Rightarrow> 'f eulerAngles \<Rightarrow> 'f matrix4x3
     \<Rightarrow> 'f eulerAngles" where
  "fromWorldToObjectMatrix M e m =
     (let sp = - m23 m
      in if fabs sp > lit M (999999 / 100000)
         then e\<lparr>pitch := kPiOver2 M * sp, heading := atan2_f M (- m31 m) (m11 m), bank := 0\<rparr>
         else e\<lparr>heading := atan2_f M (m13 m) (m33 m), pitch := asin_f M sp,
                bank := atan2_f M (m21 m) (m22 m)\<rparr>)"

end
