(* ===== verification/Orientation.thy ===== *)
theory Orientation
  imports Matrices
begin

text \<open>
  What the matrices, quaternions and Euler angles compute, without rounding: products are compositions,
  inverses undo, and the three ways to give an orientation agree, from Euler angles to quaternions and
  matrices and back.
\<close>

section \<open>Matrices as maps\<close>

lemmas matrix_ops = Vector3_transform_def Matrix_times_def

lemma transform_times:
  "Vector3_transform (Vector3_transform p a) b = Vector3_transform p (Matrix_times a (b :: 'f::comm_ring matrix4x3))"
  by (simp add: matrix_ops algebra_simps)

lemma Matrix_times_assoc:
  "Matrix_times (Matrix_times a b) c = Matrix_times a (Matrix_times b (c :: 'f::comm_ring matrix4x3))"
  by (simp add: matrix_ops algebra_simps)

lemma determinant_times:
  "determinant (Matrix_times a b) = determinant a * determinant (b :: 'f::comm_ring matrix4x3)"
  by (simp add: Matrix_times_def determinant_def algebra_simps)

text \<open>A matrix and a candidate for its inverse; the linear parts and the translations.\<close>

definition linear_inverse :: "'f::comm_ring_1 matrix4x3 \<Rightarrow> 'f matrix4x3 \<Rightarrow> bool" where
  "linear_inverse m r \<longleftrightarrow>
     m11 m * m11 r + m12 m * m21 r + m13 m * m31 r = 1 \<and>
     m11 m * m12 r + m12 m * m22 r + m13 m * m32 r = 0 \<and>
     m11 m * m13 r + m12 m * m23 r + m13 m * m33 r = 0 \<and>
     m21 m * m11 r + m22 m * m21 r + m23 m * m31 r = 0 \<and>
     m21 m * m12 r + m22 m * m22 r + m23 m * m32 r = 1 \<and>
     m21 m * m13 r + m22 m * m23 r + m23 m * m33 r = 0 \<and>
     m31 m * m11 r + m32 m * m21 r + m33 m * m31 r = 0 \<and>
     m31 m * m12 r + m32 m * m22 r + m33 m * m32 r = 0 \<and>
     m31 m * m13 r + m32 m * m23 r + m33 m * m33 r = 1"

text \<open>When the rows of one matrix undo the columns of the other, transforming by both changes no point.\<close>

lemma transform_undone:
  assumes "linear_inverse m r"
    and "tx m * m11 r + ty m * m21 r + tz m * m31 r + tx r = 0"
    and "tx m * m12 r + ty m * m22 r + tz m * m32 r + ty r = 0"
    and "tx m * m13 r + ty m * m23 r + tz m * m33 r + tz r = 0"
  shows "Vector3_transform (Vector3_transform p m) r = (p :: 'f::comm_ring_1 vector3)"
proof -
  have c: "(a * m11 m + b * m21 m + c * m31 m + tx m) * x + (a * m12 m + b * m22 m + c * m32 m + ty m) * y
      + (a * m13 m + b * m23 m + c * m33 m + tz m) * z + t
    = a * (m11 m * x + m12 m * y + m13 m * z) + b * (m21 m * x + m22 m * y + m23 m * z)
      + c * (m31 m * x + m32 m * y + m33 m * z) + (tx m * x + ty m * y + tz m * z + t)" for a b c x y z t
    by (simp add: algebra_simps)
  show ?thesis
    using assms unfolding linear_inverse_def
    by (intro Vector3_eqI) (simp_all only: Vector3_transform_def Vector3_sel c mult_1_right mult_zero_right add_0_left add_0_right)
qed

lemma Matrix_inverse_linear:
  assumes "Matrix_inverse M m = Some r" and "0 \<le> lit M (1 / 1000000)"
  shows "linear_inverse m r" "linear_inverse r (m :: 'f::linordered_field matrix4x3)"
proof -
  let ?d = "determinant m"
  have d: "?d \<noteq> 0" using assms by (auto simp: Matrix_inverse_def Let_def split: if_splits)
  have k: "a * (1 / ?d) = b \<longleftrightarrow> a = b * ?d" for a b using d by (simp add: field_simps)
  have r: "m11 r = (m22 m * m33 m - m23 m * m32 m) * (1 / ?d)"
    "m12 r = (m13 m * m32 m - m12 m * m33 m) * (1 / ?d)"
    "m13 r = (m12 m * m23 m - m13 m * m22 m) * (1 / ?d)"
    "m21 r = (m23 m * m31 m - m21 m * m33 m) * (1 / ?d)"
    "m22 r = (m11 m * m33 m - m13 m * m31 m) * (1 / ?d)"
    "m23 r = (m13 m * m21 m - m11 m * m23 m) * (1 / ?d)"
    "m31 r = (m21 m * m32 m - m22 m * m31 m) * (1 / ?d)"
    "m32 r = (m12 m * m31 m - m11 m * m32 m) * (1 / ?d)"
    "m33 r = (m11 m * m22 m - m12 m * m21 m) * (1 / ?d)"
    using assms by (auto simp: Matrix_inverse_def Let_def split: if_splits)
  have f: "x * (a * e) + y * (b * e) + z * (c * e) = (x * a + y * b + z * c) * e"
    "(a * e) * x + (b * e) * y + (c * e) * z = (x * a + y * b + z * c) * e" for x y z a b c e :: 'f
    by (simp_all add: algebra_simps)
  show "linear_inverse m r"
    unfolding linear_inverse_def r f k
    by (simp add: determinant_def algebra_simps)
  show "linear_inverse r m"
    unfolding linear_inverse_def r f k
    by (simp add: determinant_def algebra_simps)
qed

lemma Matrix_inverse_translation:
  assumes "Matrix_inverse M m = Some (r :: 'f::linordered_field matrix4x3)"
  shows "tx r = - (tx m * m11 r + ty m * m21 r + tz m * m31 r)"
    "ty r = - (tx m * m12 r + ty m * m22 r + tz m * m32 r)"
    "tz r = - (tx m * m13 r + ty m * m23 r + tz m * m33 r)"
  using assms by (auto simp: Matrix_inverse_def Let_def split: if_splits)

text \<open>The inverse undoes a matrix from both sides, wherever the determinant is not rejected.\<close>

theorem inverse_undoes:
  assumes "Matrix_inverse M m = Some r" and "0 \<le> lit M (1 / 1000000)"
  shows "Vector3_transform (Vector3_transform p m) r = (p :: 'f::linordered_field vector3) \<and>
    Vector3_transform (Vector3_transform p r) m = p"
proof -
  note l = Matrix_inverse_linear [OF assms]
  note t = Matrix_inverse_translation [OF assms(1)]
  have "Vector3_transform (Vector3_transform p m) r = p"
    by (rule transform_undone [OF l(1)]) (simp_all add: t)
  moreover have "Vector3_transform (Vector3_transform p r) m = p"
  proof (rule transform_undone [OF l(2)])
    have e: "- (a * x1 + b * x2 + c * x3) * y1 + - (a * z1 + b * z2 + c * z3) * y2
        + - (a * w1 + b * w2 + c * w3) * y3
      = - (a * (x1 * y1 + z1 * y2 + w1 * y3) + b * (x2 * y1 + z2 * y2 + w2 * y3) + c * (x3 * y1 + z3 * y2 + w3 * y3))"
      for a b c x1 x2 x3 y1 y2 y3 z1 z2 z3 w1 w2 w3 :: 'f
      by (simp add: algebra_simps)
    show "tx r * m11 m + ty r * m21 m + tz r * m31 m + tx m = 0"
      "tx r * m12 m + ty r * m22 m + tz r * m32 m + ty m = 0"
      "tx r * m13 m + ty r * m23 m + tz r * m33 m + tz m = 0"
      using l(2) unfolding t e linear_inverse_def by simp_all
  qed
  ultimately show ?thesis by blast
qed


theorem inverse_undoes_witness:
  "\<exists>r. Matrix_inverse cmath_real
      \<lparr>m11 = 2, m12 = 0, m13 = 1, m21 = 0, m22 = 4, m23 = 0, m31 = 0, m32 = 0, m33 = 8,
       tx = 1, ty = 2, tz = 3\<rparr> = Some r \<and>
    Vector3_transform (Vector3_transform (Vector3 5 6 7)
      \<lparr>m11 = 2, m12 = 0, m13 = 1, m21 = 0, m22 = 4, m23 = 0, m31 = 0, m32 = 0, m33 = 8,
       tx = 1, ty = 2, tz = 3\<rparr>) r = Vector3 5 6 7"
proof -
  let ?m = "\<lparr>m11 = 2, m12 = 0, m13 = 1, m21 = 0, m22 = 4, m23 = 0, m31 = 0, m32 = 0, m33 = 8,
       tx = 1, ty = 2, tz = 3\<rparr> :: real matrix4x3"
  have l: "lit cmath_real (1 / 1000000) = 1 / 1000000" by (simp add: cmath_real_def of_rat_divide)
  obtain r where r: "Matrix_inverse cmath_real ?m = Some r"
    by (simp add: Matrix_inverse_def determinant_def l Let_def)
  show ?thesis using inverse_undoes [OF r, of "Vector3 5 6 7"] r by (simp add: l)
qed

section \<open>Orientations over the real numbers\<close>

lemma cmath_real_sel [simp]:
  "lit cmath_real = of_rat" "dlit cmath_real = of_rat" "widen cmath_real = id" "sqrt_f cmath_real = sqrt"
  "sin_f cmath_real = sin" "cos_f cmath_real = cos" "tan_f cmath_real = tan" "asin_f cmath_real = arcsin"
  "acos_f cmath_real = arccos" "atan_f cmath_real = arctan" "atan2_f cmath_real = atan2_real"
  "floor_f cmath_real = (\<lambda>a. of_int \<lfloor>a\<rfloor>)" "sinCos cmath_real a = (sin a, cos a)"
  by (simp_all add: cmath_real_def sinCos_def)

definition orthogonal :: "'f::comm_ring_1 rotationMatrix \<Rightarrow> bool" where
  "orthogonal r \<longleftrightarrow>
     r11 r * r11 r + r12 r * r12 r + r13 r * r13 r = 1 \<and>
     r21 r * r21 r + r22 r * r22 r + r23 r * r23 r = 1 \<and>
     r31 r * r31 r + r32 r * r32 r + r33 r * r33 r = 1 \<and>
     r11 r * r21 r + r12 r * r22 r + r13 r * r23 r = 0 \<and>
     r11 r * r31 r + r12 r * r32 r + r13 r * r33 r = 0 \<and>
     r21 r * r31 r + r22 r * r32 r + r23 r * r33 r = 0 \<and>
     r11 r * r11 r + r21 r * r21 r + r31 r * r31 r = 1 \<and>
     r12 r * r12 r + r22 r * r22 r + r32 r * r32 r = 1 \<and>
     r13 r * r13 r + r23 r * r23 r + r33 r * r33 r = 1 \<and>
     r11 r * r12 r + r21 r * r22 r + r31 r * r32 r = 0 \<and>
     r11 r * r13 r + r21 r * r23 r + r31 r * r33 r = 0 \<and>
     r12 r * r13 r + r22 r * r23 r + r32 r * r33 r = 0"

text \<open>The matrix of Euler angles from sines and cosines whose squares add up to 1.\<close>

lemma euler_orthogonal_ring:
  fixes sh ch sp cp sb cb :: real
  assumes "sh * sh + ch * ch = 1" "sp * sp + cp * cp = 1" "sb * sb + cb * cb = 1"
  shows "orthogonal \<lparr>
    r11 = ch * cb + sh * sp * sb, r12 = - ch * sb + sh * sp * cb, r13 = sh * cp,
    r21 = sb * cp, r22 = cb * cp, r23 = - sp,
    r31 = - sh * cb + ch * sp * sb, r32 = sb * sh + ch * sp * cb, r33 = ch * cp\<rparr>"
  unfolding orthogonal_def rotationMatrix.simps using assms by (intro conjI; algebra)

lemma RotationMatrix_setup_real:
  "RotationMatrix_setup cmath_real r e =
     (let (sh, ch) = (sin (heading e), cos (heading e));
          (sp, cp) = (sin (pitch e), cos (pitch e));
          (sb, cb) = (sin (bank e), cos (bank e))
      in \<lparr>r11 = ch * cb + sh * sp * sb, r12 = - ch * sb + sh * sp * cb, r13 = sh * cp,
          r21 = sb * cp, r22 = cb * cp, r23 = - sp,
          r31 = - sh * cb + ch * sp * sb, r32 = sb * sh + ch * sp * cb, r33 = ch * cp\<rparr>)"
  by (simp add: RotationMatrix_setup_def)

lemma sin_cos_one: "sin a * sin a + cos a * cos a = (1 :: real)"
  using sin_cos_squared_add [of a] by (simp add: power2_eq_square)

lemma RotationMatrix_setup_orthogonal: "orthogonal (RotationMatrix_setup cmath_real r e)"
  unfolding RotationMatrix_setup_real Let_def prod.case
  by (rule euler_orthogonal_ring) (rule sin_cos_one)+

text \<open>Euler angles make the same matrix as the quaternion that they make.\<close>

lemma euler_quaternion_ring:
  fixes sh ch sp cp sb cb :: real
  assumes h: "sh * sh + ch * ch = 1" and p: "sp * sp + cp * cp = 1" and b: "sb * sb + cb * cb = 1"
    and w: "w = ch * cp * cb + sh * sp * sb" and x: "x = - ch * sp * cb - sh * cp * sb"
    and y: "y = ch * sp * sb - sh * cb * cp" and z: "z = sh * sp * cb - ch * cp * sb"
  defines "h2 \<equiv> 2 * sh * ch" and "h1 \<equiv> ch * ch - sh * sh" and "p2 \<equiv> 2 * sp * cp" and "p1 \<equiv> cp * cp - sp * sp"
    and "b2 \<equiv> 2 * sb * cb" and "b1 \<equiv> cb * cb - sb * sb"
  shows "1 - 2 * (y * y + z * z) = h1 * b1 + h2 * p2 * b2"
    "2 * (x * y + w * z) = - h1 * b2 + h2 * p2 * b1"
    "2 * (x * z - w * y) = h2 * p1"
    "2 * (x * y - w * z) = b2 * p1"
    "1 - 2 * (x * x + z * z) = b1 * p1"
    "2 * (y * z + w * x) = - p2"
    "2 * (x * z + w * y) = - h2 * b1 + h1 * p2 * b2"
    "2 * (y * z - w * x) = b2 * h2 + h1 * p2 * b1"
    "1 - 2 * (x * x + y * y) = h1 * p1"
  using h p b unfolding w x y z h1_def h2_def p1_def p2_def b1_def b2_def
  by algebra+

lemma half_angle: "sin a = 2 * sin (a * (1 / 2)) * cos (a * (1 / 2))"
  "cos a = cos (a * (1 / 2)) * cos (a * (1 / 2)) - sin (a * (1 / 2)) * sin (a * (1 / 2))" for a :: real
  using sin_double [of "a * (1 / 2)"] cos_double [of "a * (1 / 2)"] by (simp_all add: power2_eq_square)

lemma lit_half [simp]: "real_of_rat (1 / 2) = 1 / 2" "real_of_rat 2 = 2"
  by (simp_all add: of_rat_divide)

lemma setToRotateObjectToInertial_conjugate:
  "setToRotateObjectToInertial cmath_real q e = conjugate (setToRotateInertialToObject cmath_real q' e)"
  by (simp add: setToRotateObjectToInertial_def setToRotateInertialToObject_def conjugate_def Let_def)

lemma fromObjectToInertial_conjugate:
  "RotationMatrix_fromObjectToInertialQuaternion M r (conjugate q) =
     RotationMatrix_fromInertialToObjectQuaternion M r' (q :: 'f::comm_ring_1 quaternion)"
  by (simp add: RotationMatrix_fromObjectToInertialQuaternion_def
      RotationMatrix_fromInertialToObjectQuaternion_def conjugate_def)

lemma setToRotateInertialToObject_real:
  "setToRotateInertialToObject cmath_real q e =
     (let (sp, cp) = (sin (pitch e * (1 / 2)), cos (pitch e * (1 / 2)));
          (sb, cb) = (sin (bank e * (1 / 2)), cos (bank e * (1 / 2)));
          (sh, ch) = (sin (heading e * (1 / 2)), cos (heading e * (1 / 2)))
      in \<lparr>q_w = ch * cp * cb + sh * sp * sb, q_x = - ch * sp * cb - sh * cp * sb,
          q_y = ch * sp * sb - sh * cb * cp, q_z = sh * sp * cb - ch * cp * sb\<rparr>)"
  by (simp add: setToRotateInertialToObject_def Let_def)

lemma fromInertialToObject_real:
  "RotationMatrix_fromInertialToObjectQuaternion cmath_real r q = \<lparr>
     r11 = 1 - 2 * (q_y q * q_y q + q_z q * q_z q),
     r12 = 2 * (q_x q * q_y q + q_w q * q_z q),
     r13 = 2 * (q_x q * q_z q - q_w q * q_y q),
     r21 = 2 * (q_x q * q_y q - q_w q * q_z q),
     r22 = 1 - 2 * (q_x q * q_x q + q_z q * q_z q),
     r23 = 2 * (q_y q * q_z q + q_w q * q_x q),
     r31 = 2 * (q_x q * q_z q + q_w q * q_y q),
     r32 = 2 * (q_y q * q_z q - q_w q * q_x q),
     r33 = 1 - 2 * (q_x q * q_x q + q_y q * q_y q)\<rparr>"
  by (simp add: RotationMatrix_fromInertialToObjectQuaternion_def)

lemma quaternion_matrix_of_euler:
  "RotationMatrix_fromInertialToObjectQuaternion cmath_real r (setToRotateInertialToObject cmath_real q e) =
     RotationMatrix_setup cmath_real r' e"
proof -
  note ring = euler_quaternion_ring [OF sin_cos_one [of "heading e * (1 / 2)"] sin_cos_one [of "pitch e * (1 / 2)"]
      sin_cos_one [of "bank e * (1 / 2)"] refl refl refl refl]
  show ?thesis
    unfolding setToRotateInertialToObject_real RotationMatrix_setup_real Let_def prod.case
      half_angle [of "heading e"] half_angle [of "pitch e"] half_angle [of "bank e"]
      fromInertialToObject_real quaternion.simps ring
    by (rule refl)
qed

text \<open>A quaternion of length 1 rotates as its matrix does, and products of quaternions apply in order.\<close>

definition pure :: "'f::zero vector3 \<Rightarrow> 'f quaternion" where
  "pure v = \<lparr>q_w = 0, q_x = v_x v, q_y = v_y v, q_z = v_z v\<rparr>"

definition unit_quaternion :: "'f::comm_ring_1 quaternion \<Rightarrow> bool" where
  "unit_quaternion q \<longleftrightarrow> dotProduct q q = 1"

lemma dotProduct_times:
  "dotProduct (Quaternion_times a b) (Quaternion_times a b) = dotProduct a a * dotProduct b (b :: 'f::comm_ring quaternion)"
  by (simp add: dotProduct_def Quaternion_times_def algebra_simps)

lemma Quaternion_times_assoc:
  "Quaternion_times (Quaternion_times a b) c = Quaternion_times a (Quaternion_times b (c :: 'f::comm_ring quaternion))"
  by (simp add: Quaternion_times_def algebra_simps)

lemma conjugate_times:
  "conjugate (Quaternion_times a b) = Quaternion_times (conjugate b) (conjugate (a :: 'f::comm_ring quaternion))"
  by (simp add: Quaternion_times_def conjugate_def algebra_simps)

lemma conjugate_inverse:
  "unit_quaternion q \<Longrightarrow> Quaternion_times (conjugate q) q = (kQuaternionIdentity :: 'f::comm_ring_1 quaternion)"
  "unit_quaternion q \<Longrightarrow> Quaternion_times q (conjugate q) = (kQuaternionIdentity :: 'f::comm_ring_1 quaternion)"
  by (simp_all add: unit_quaternion_def dotProduct_def Quaternion_times_def conjugate_def kQuaternionIdentity_def
      algebra_simps)

lemma rotation_ring:
  fixes w x y z a b c :: real
  assumes "w * w + x * x + y * y + z * z = 1"
  shows "0 = (w * 0 - - x * a - - y * b - - z * c) * w - (w * a + - x * 0 + - z * b - - y * c) * x -
      (w * b + - y * 0 + - x * c - - z * a) * y - (w * c + - z * 0 + - y * a - - x * b) * z"
    "(1 - 2 * (y * y + z * z)) * a + 2 * (x * y - w * z) * b + 2 * (x * z + w * y) * c =
      (w * 0 - - x * a - - y * b - - z * c) * x + (w * a + - x * 0 + - z * b - - y * c) * w +
      (w * c + - z * 0 + - y * a - - x * b) * y - (w * b + - y * 0 + - x * c - - z * a) * z"
    "2 * (x * y + w * z) * a + (1 - 2 * (x * x + z * z)) * b + 2 * (y * z - w * x) * c =
      (w * 0 - - x * a - - y * b - - z * c) * y + (w * b + - y * 0 + - x * c - - z * a) * w +
      (w * a + - x * 0 + - z * b - - y * c) * z - (w * c + - z * 0 + - y * a - - x * b) * x"
    "2 * (x * z - w * y) * a + 2 * (y * z + w * x) * b + (1 - 2 * (x * x + y * y)) * c =
      (w * 0 - - x * a - - y * b - - z * c) * z + (w * c + - z * 0 + - y * a - - x * b) * w +
      (w * b + - y * 0 + - x * c - - z * a) * x - (w * a + - x * 0 + - z * b - - y * c) * y"
  subgoal by (simp add: algebra_simps)
  using assms apply algebra
  using assms apply algebra
  using assms by algebra

lemma rotation_of_quaternion:
  fixes v :: "real vector3"
  assumes "unit_quaternion q"
  shows "pure (inertialToObject (RotationMatrix_fromInertialToObjectQuaternion cmath_real r q) v) =
    Quaternion_times (Quaternion_times (conjugate q) (pure v)) q"
  using rotation_ring [OF assms [unfolded unit_quaternion_def dotProduct_def]]
  unfolding pure_def inertialToObject_def fromInertialToObject_real Quaternion_times_def
    conjugate_def quaternion.simps rotationMatrix.simps Vector3_sel
  by (simp only: simp_thms)

lemma pure_inject [simp]: "pure a = pure b \<longleftrightarrow> a = b"
  by (auto simp: pure_def intro: vector3.equality)

lemma unit_times: "unit_quaternion a \<Longrightarrow> unit_quaternion b \<Longrightarrow> unit_quaternion (Quaternion_times a (b :: 'f::comm_ring_1 quaternion))"
  by (simp add: unit_quaternion_def dotProduct_times)

lemma rotations_in_order:
  fixes v :: "real vector3"
  assumes "unit_quaternion a" and "unit_quaternion b"
  shows "inertialToObject (RotationMatrix_fromInertialToObjectQuaternion cmath_real r (Quaternion_times a b)) v =
    inertialToObject (RotationMatrix_fromInertialToObjectQuaternion cmath_real r b)
      (inertialToObject (RotationMatrix_fromInertialToObjectQuaternion cmath_real r a) v)"
proof -
  note r = rotation_of_quaternion [where r = r]
  show ?thesis
    by (subst pure_inject [symmetric])
      (simp add: r assms unit_times conjugate_times Quaternion_times_assoc)
qed

text \<open>An orthogonal matrix and its transpose undo each other.\<close>

lemma orthogonal_undone:
  fixes v :: "real vector3"
  assumes "orthogonal r"
  shows "objectToInertial r (inertialToObject r v) = v" "inertialToObject r (objectToInertial r v) = v"
  using assms unfolding orthogonal_def objectToInertial_def inertialToObject_def
  by (intro Vector3_eqI; simp only: Vector3_sel; algebra)+

lemma unit_kept: "unit_quaternion (setToRotateInertialToObject cmath_real q e)"
proof -
  have "w * w + x * x + y * y + z * z = 1"
    if "w = ch * cp * cb + sh * sp * sb" "x = - ch * sp * cb - sh * cp * sb"
      "y = ch * sp * sb - sh * cb * cp" "z = sh * sp * cb - ch * cp * sb"
      "sh * sh + ch * ch = 1" "sp * sp + cp * cp = 1" "sb * sb + cb * cb = 1"
    for w x y z sh ch sp cp sb cb :: real
    using that(5-7) unfolding that(1-4) by algebra
  from this [OF refl refl refl refl sin_cos_one sin_cos_one sin_cos_one] show ?thesis
    unfolding unit_quaternion_def dotProduct_def setToRotateInertialToObject_real Let_def prod.case quaternion.simps .
qed

text \<open>
  C37. Without rounding the ways to give an orientation agree. For all Euler angles, the quaternions
  that are made for the two directions are conjugate and have length 1, the matrices made from either of
  them and the matrix made from the angles are the same, that matrix rotates a vector as the quaternion
  does, and rotating forth and back changes nothing.
\<close>

theorem orientations_agree:
  "let q = setToRotateInertialToObject cmath_real q0 e;
       r = RotationMatrix_setup cmath_real r0 e
   in unit_quaternion q \<and>
      setToRotateObjectToInertial cmath_real q0 e = conjugate q \<and>
      RotationMatrix_fromInertialToObjectQuaternion cmath_real r0 q = r \<and>
      RotationMatrix_fromObjectToInertialQuaternion cmath_real r0 (conjugate q) = r \<and>
      pure (inertialToObject r v) = Quaternion_times (Quaternion_times (conjugate q) (pure v)) q \<and>
      objectToInertial r (inertialToObject r v) = v \<and>
      inertialToObject r (objectToInertial r v) = v"
  unfolding Let_def
proof (intro conjI)
  let ?q = "setToRotateInertialToObject cmath_real q0 e" and ?r = "RotationMatrix_setup cmath_real r0 e"
  show "unit_quaternion ?q" by (rule unit_kept)
  show "setToRotateObjectToInertial cmath_real q0 e = conjugate ?q"
    by (rule setToRotateObjectToInertial_conjugate)
  show q: "RotationMatrix_fromInertialToObjectQuaternion cmath_real r0 ?q = ?r"
    by (rule quaternion_matrix_of_euler)
  then show "RotationMatrix_fromObjectToInertialQuaternion cmath_real r0 (conjugate ?q) = ?r"
    by (simp only: fromObjectToInertial_conjugate [where r' = r0])
  show "pure (inertialToObject ?r v) = Quaternion_times (Quaternion_times (conjugate ?q) (pure v)) ?q"
    unfolding q [symmetric] by (rule rotation_of_quaternion [OF unit_kept])
  show "objectToInertial ?r (inertialToObject ?r v) = v" "inertialToObject ?r (objectToInertial ?r v) = v"
    by (rule orthogonal_undone [OF RotationMatrix_setup_orthogonal])+
qed


section \<open>Frames of reference\<close>

lemma setup_frames:
  "setupParentToLocal m pos r = \<lparr>
     m11 = r11 r, m12 = r12 r, m13 = r13 r, m21 = r21 r, m22 = r22 r, m23 = r23 r,
     m31 = r31 r, m32 = r32 r, m33 = r33 r,
     tx = - (v_x pos * r11 r + v_y pos * r21 r + v_z pos * r31 r),
     ty = - (v_x pos * r12 r + v_y pos * r22 r + v_z pos * r32 r),
     tz = - (v_x pos * r13 r + v_y pos * r23 r + v_z pos * r33 r)\<rparr>"
  "setupLocalToParent m pos r = \<lparr>
     m11 = r11 r, m12 = r21 r, m13 = r31 r, m21 = r12 r, m22 = r22 r, m23 = r32 r,
     m31 = r13 r, m32 = r23 r, m33 = r33 r, tx = v_x pos, ty = v_y pos, tz = v_z pos\<rparr>"
  by (simp_all add: setupParentToLocal_def setupLocalToParent_def Let_def)

lemma parent_local_linear:
  fixes m m' :: "real matrix4x3" and pos :: "real vector3"
  assumes "orthogonal r"
  shows "linear_inverse (setupParentToLocal m pos r) (setupLocalToParent m' pos r)"
    "linear_inverse (setupLocalToParent m' pos r) (setupParentToLocal m pos (r :: real rotationMatrix))"
  using assms
  by (simp_all add: orthogonal_def linear_inverse_def setupParentToLocal_def setupLocalToParent_def Let_def mult.commute)

lemma parent_local_translation:
  fixes m0 l0 :: "real matrix4x3" and pos :: "real vector3"
  assumes "orthogonal (r :: real rotationMatrix)"
  defines "m \<equiv> setupParentToLocal m0 pos r" and "l \<equiv> setupLocalToParent l0 pos r"
  shows "tx m * m11 l + ty m * m21 l + tz m * m31 l + tx l = 0"
    "tx m * m12 l + ty m * m22 l + tz m * m32 l + ty l = 0"
    "tx m * m13 l + ty m * m23 l + tz m * m33 l + tz l = 0"
    "tx l * m11 m + ty l * m21 m + tz l * m31 m + tx m = 0"
    "tx l * m12 m + ty l * m22 m + tz l * m32 m + ty m = 0"
    "tx l * m13 m + ty l * m23 m + tz l * m33 m + tz m = 0"
    "getPositionFromParentToLocalMatrix m = pos"
proof -
  note d = m_def l_def setup_frames matrix4x3.simps
  note o = assms(1) [unfolded orthogonal_def]
  show "tx m * m11 l + ty m * m21 l + tz m * m31 l + tx l = 0"
    "tx m * m12 l + ty m * m22 l + tz m * m32 l + ty l = 0"
    "tx m * m13 l + ty m * m23 l + tz m * m33 l + tz l = 0"
    using o unfolding d by algebra+
  show "tx l * m11 m + ty l * m21 m + tz l * m31 m + tx m = 0"
    "tx l * m12 m + ty l * m22 m + tz l * m32 m + ty m = 0"
    "tx l * m13 m + ty l * m23 m + tz l * m33 m + tz m = 0"
    unfolding d by simp_all
  have "- (tx m * m11 m + ty m * m12 m + tz m * m13 m) = v_x pos"
    "- (tx m * m21 m + ty m * m22 m + tz m * m23 m) = v_y pos"
    "- (tx m * m31 m + ty m * m32 m + tz m * m33 m) = v_z pos"
    using o unfolding d by algebra+
  then show "getPositionFromParentToLocalMatrix m = pos"
    by (simp add: getPositionFromParentToLocalMatrix_def Vector3_def)
qed

text \<open>
  For every position and orientation of an object, the matrix to its space and the matrix from its
  space undo each other on all points; the former takes the position to the origin, and the position is
  read back from either.
\<close>

theorem reference_frames:
  "let to_local = setupParentToLocal_euler cmath_real r m0 pos e;
       to_parent = setupLocalToParent_euler cmath_real r m0 pos e
   in Vector3_transform (Vector3_transform p to_local) to_parent = p \<and>
      Vector3_transform (Vector3_transform p to_parent) to_local = p \<and>
      Vector3_transform pos to_local = kZeroVector \<and>
      getPositionFromParentToLocalMatrix to_local = pos \<and>
      getPositionFromLocalToParentMatrix to_parent = pos"
proof -
  define orient where "orient = RotationMatrix_setup cmath_real r e"
  have o: "orthogonal orient" by (simp only: orient_def RotationMatrix_setup_orthogonal)
  note l = parent_local_linear [OF o] and t = parent_local_translation [OF o]
  let ?m = "setupParentToLocal m0 pos orient" and ?l = "setupLocalToParent m0 pos orient"
  have "Vector3_transform (Vector3_transform p ?m) ?l = p"
    by (rule transform_undone [OF l(1) t(1-3)])
  moreover have "Vector3_transform (Vector3_transform p ?l) ?m = p"
    by (rule transform_undone [OF l(2) t(4-6)])
  moreover have "Vector3_transform pos ?m = kZeroVector"
    by (simp add: Vector3_transform_def setupParentToLocal_def kZeroVector_def Let_def)
  moreover have "getPositionFromParentToLocalMatrix ?m = pos"
    by (rule t(7))
  moreover have "getPositionFromLocalToParentMatrix ?l = pos"
    by (simp add: getPositionFromLocalToParentMatrix_def setupLocalToParent_def Vector3_def)
  ultimately show ?thesis
    unfolding setupParentToLocal_euler_def setupLocalToParent_euler_def Let_def orient_def by (intro conjI)
qed


section \<open>Angles read back\<close>

lemma atan2_polar:
  assumes "0 < k" and "- pi < a" and "a \<le> pi"
  shows "atan2_real (sin a * k) (cos a * k) = a"
proof -
  have t: "sin a * k / (cos a * k) = tan a" using assms(1) by (simp add: tan_def)
  consider (front) "- (pi / 2) < a" "a < pi / 2" | (left_) "a = pi / 2" | (right) "a = - (pi / 2)"
    | (back_left) "pi / 2 < a" | (back_right) "a < - (pi / 2)" by linarith
  then show ?thesis
  proof cases
    case front
    then have "0 < cos a * k" using assms(1) by (intro mult_pos_pos cos_gt_zero_pi)
    then show ?thesis using front by (simp add: atan2_real_def t arctan_tan)
  next
    case left_
    have "sin a = 1" "cos a = 0" unfolding left_ by simp_all
    then have "atan2_real (sin a * k) (cos a * k) = pi / 2" using assms(1) by (simp add: atan2_real_def)
    then show ?thesis by (simp only: left_)
  next
    case right
    have "sin a = - 1" "cos a = 0" unfolding right by simp_all
    then have "atan2_real (sin a * k) (cos a * k) = - (pi / 2)" using assms(1) by (simp add: atan2_real_def)
    then show ?thesis by (simp only: right)
  next
    case back_left
    then have "cos a < 0" using cos_gt_zero_pi [of "a - pi"] assms by (simp add: cos_diff)
    moreover have "0 \<le> sin a" using back_left assms by (intro sin_ge_zero) (simp_all add: order.trans [OF pi_half_ge_zero])
    moreover have "arctan (tan a) = a - pi"
      using back_left assms arctan_tan [of "a - pi"] tan_periodic_pi [of "a - pi"] by simp
    ultimately show ?thesis using assms(1) by (simp add: atan2_real_def t mult_less_0_iff zero_less_mult_iff)
  next
    case back_right
    then have "cos a < 0" using cos_gt_zero_pi [of "a + pi"] assms by (simp add: cos_add)
    moreover have "sin a < 0" using sin_gt_zero [of "a + pi"] back_right assms by (simp add: sin_add)
    moreover have "arctan (tan a) = a + pi"
      using back_right assms arctan_tan [of "a + pi"] tan_periodic_pi [of a] by simp
    ultimately show ?thesis using assms(1) by (simp add: atan2_real_def t mult_less_0_iff zero_less_mult_iff not_le)
  qed
qed

definition canonical :: "real eulerAngles \<Rightarrow> bool" where
  "canonical e \<longleftrightarrow> - pi < heading e \<and> heading e \<le> pi \<and> - (pi / 2) < pitch e \<and> pitch e < pi / 2 \<and>
     - pi < bank e \<and> bank e \<le> pi"

lemma canonical_read_back:
  assumes "canonical e"
  shows "atan2_real (sin (heading e) * cos (pitch e)) (cos (heading e) * cos (pitch e)) = heading e"
    "atan2_real (sin (bank e) * cos (pitch e)) (cos (bank e) * cos (pitch e)) = bank e"
    "arcsin (sin (pitch e)) = pitch e"
proof -
  have "0 < cos (pitch e)" using assms by (intro cos_gt_zero_pi) (simp_all add: canonical_def)
  then show "atan2_real (sin (heading e) * cos (pitch e)) (cos (heading e) * cos (pitch e)) = heading e"
    "atan2_real (sin (bank e) * cos (pitch e)) (cos (bank e) * cos (pitch e)) = bank e"
    using assms by (simp_all add: atan2_polar canonical_def)
  show "arcsin (sin (pitch e)) = pitch e" using assms by (intro arcsin_sin) (simp_all add: canonical_def)
qed

text \<open>No sine is beyond the bound 9.99999 with which the code wants to recognize the gimbal lock.\<close>

lemma gimbal_lock_unnoticed: "\<not> real_of_rat (999999 / 100000) < \<bar>sin a\<bar>"
proof -
  have "real_of_rat (999999 / 100000) = 999999 / 100000" by (simp add: of_rat_divide)
  then show ?thesis using abs_sin_le_one [of a] by linarith
qed

text \<open>
  Canonical Euler angles that are no gimbal lock are read back, without rounding, from the
  rotation matrix that they make and from the matrices to and from the space of the object.
\<close>

theorem angles_read_back:
  assumes "canonical e"
  shows "fromRotationMatrix cmath_real e0 (RotationMatrix_setup cmath_real r e) = e \<and>
    fromWorldToObjectMatrix cmath_real e0 (setupParentToLocal_euler cmath_real r m pos e) = e \<and>
    fromObjectToWorldMatrix cmath_real e0 (setupLocalToParent_euler cmath_real r m pos e) = e"
proof -
  note a = canonical_read_back [OF assms]
  have r: "r13 (RotationMatrix_setup cmath_real r e) = sin (heading e) * cos (pitch e)"
    "r33 (RotationMatrix_setup cmath_real r e) = cos (heading e) * cos (pitch e)"
    "r21 (RotationMatrix_setup cmath_real r e) = sin (bank e) * cos (pitch e)"
    "r22 (RotationMatrix_setup cmath_real r e) = cos (bank e) * cos (pitch e)"
    "r23 (RotationMatrix_setup cmath_real r e) = - sin (pitch e)"
    by (simp_all add: RotationMatrix_setup_real)
  show ?thesis
    by (simp add: fromRotationMatrix_def fromWorldToObjectMatrix_def fromObjectToWorldMatrix_def
        setupParentToLocal_euler_def setupLocalToParent_euler_def setup_frames r a gimbal_lock_unnoticed Let_def)
qed


theorem angles_read_back_witness:
  "canonical \<lparr>heading = pi, pitch = pi / 4, bank = - (pi / 2)\<rparr> \<and>
   fromRotationMatrix cmath_real kEulerAnglesIdentity
     (RotationMatrix_setup cmath_real (RotationMatrix_identity undefined) \<lparr>heading = pi, pitch = pi / 4, bank = - (pi / 2)\<rparr>)
     = \<lparr>heading = pi, pitch = pi / 4, bank = - (pi / 2)\<rparr>"
proof -
  have c: "canonical \<lparr>heading = pi, pitch = pi / 4, bank = - (pi / 2)\<rparr>"
    using pi_gt_zero unfolding canonical_def by (simp; linarith)
  show ?thesis using angles_read_back [OF c] c by blast
qed


section \<open>Lengths and angles\<close>

lemma normalize_unit:
  assumes "Vector3_dot v v \<noteq> 0"
  shows "Vector3_dot (Vector3_normalize cmath_real v) (Vector3_normalize cmath_real v) = 1"
proof -
  let ?m = "v_x v * v_x v + v_y v * v_y v + v_z v * v_z v"
  have m: "0 < ?m" using assms by (metis Vector3_dot_def add_nonneg_nonneg less_eq_real_def zero_le_square)
  obtain k where k: "k = 1 / sqrt ?m" by blast
  have "k * k = 1 / ?m" using m by (simp add: k)
  then have "?m * (k * k) = 1" using m by simp
  moreover have "Vector3_normalize cmath_real v = v\<lparr>v_x := v_x v * k, v_y := v_y v * k, v_z := v_z v * k\<rparr>"
    using m by (simp add: Vector3_normalize_def Let_def k)
  ultimately show ?thesis by (simp add: Vector3_dot_def algebra_simps)
qed

lemma normalize_quaternion:
  assumes "Quaternion_normalize cmath_real q = Some r"
  shows "unit_quaternion r"
proof -
  let ?m = "q_w q * q_w q + q_x q * q_x q + q_y q * q_y q + q_z q * q_z q"
  have m: "0 < ?m" using assms by (auto simp: Quaternion_normalize_def Let_def split: if_splits)
  obtain k where k: "k = 1 / sqrt ?m" by blast
  have "k * k = 1 / ?m" using m by (simp add: k)
  then have "?m * (k * k) = 1" using m by simp
  moreover have "r = q\<lparr>q_w := q_w q * k, q_x := q_x q * k, q_y := q_y q * k, q_z := q_z q * k\<rparr>"
    using assms unfolding k by (simp add: Quaternion_normalize_def Let_def split: if_splits)
  ultimately show ?thesis by (simp add: unit_quaternion_def dotProduct_def algebra_simps)
qed

text \<open>A wrapped angle is in the interval about 0, and differs from the angle by whole turns.\<close>

lemma wrapPi_range:
  "- kPi cmath_real \<le> wrapPi cmath_real a" "wrapPi cmath_real a < kPi cmath_real"
  "\<exists>k. wrapPi cmath_real a = a - of_int k * k2Pi cmath_real"
proof -
  obtain P where P: "P = kPi cmath_real" by blast
  have pos: "0 < P" by (simp add: P kPi_def of_rat_divide)
  obtain n where n: "n = \<lfloor>(a + P) / (P * 2)\<rfloor>" by blast
  have w: "wrapPi cmath_real a = a - of_int n * (P * 2)"
    by (simp add: wrapPi_def k1Over2Pi_def k2Pi_def Let_def P [symmetric] n)
  have "of_int n \<le> (a + P) / (P * 2)" "(a + P) / (P * 2) < of_int n + 1" unfolding n by linarith+
  then have "of_int n * (P * 2) \<le> a + P" "a + P < (of_int n + 1) * (P * 2)"
    using pos by (simp_all add: pos_le_divide_eq pos_divide_less_eq)
  then show "- kPi cmath_real \<le> wrapPi cmath_real a" "wrapPi cmath_real a < kPi cmath_real"
    unfolding w P [symmetric] by (simp_all add: algebra_simps)
  show "\<exists>k. wrapPi cmath_real a = a - of_int k * k2Pi cmath_real"
    using w by (auto simp: k2Pi_def P [symmetric])
qed

text \<open>Interpolation between quaternions of length 1 stays on the sphere, except where it is linear.\<close>

lemma slerp_weights:
  fixes c t :: real
  assumes "0 \<le> c" and "c < 1"
  defines "s \<equiv> sqrt (1 - c * c)"
  defines "om \<equiv> atan2_real s c"
  defines "k0 \<equiv> sin ((1 - t) * om) * (1 / s)" and "k1 \<equiv> sin (t * om) * (1 / s)"
  shows "k0 * k0 + k1 * k1 + 2 * k0 * k1 * c = 1"
proof -
  have "c * c < 1" using assms(1,2) mult_strict_mono' [of c 1 c 1] by simp
  then have s: "0 < s" "s * s = 1 - c * c" by (simp_all add: s_def)
  have a: "cos (arccos c) = c" "sin (arccos c) = s"
    using assms(1,2) by (simp_all add: sin_arccos s_def power2_eq_square)
  have "om = arccos c"
    using atan2_polar [of 1 "arccos c"] arccos_bounded [of c] assms(1,2) pi_gt_zero
    unfolding om_def a by (simp; linarith)
  then have om: "sin om = s" "cos om = c" using a by simp_all
  have sum: "(1 - t) * om + t * om = om" by (simp add: algebra_simps)
  let ?a = "(1 - t) * om" and ?b = "t * om"
  have e: "s = sin ?a * cos ?b + cos ?a * sin ?b" "c = cos ?a * cos ?b - sin ?a * sin ?b"
    using om sin_add [of ?a ?b] cos_add [of ?a ?b] unfolding sum by simp_all
  have "sin ?a * sin ?a + sin ?b * sin ?b + 2 * sin ?a * sin ?b * c = s * s"
    using sin_cos_one [of ?a] sin_cos_one [of ?b] unfolding e by algebra
  moreover have "k0 * k0 + k1 * k1 + 2 * k0 * k1 * c =
    (sin ?a * sin ?a + sin ?b * sin ?b + 2 * sin ?a * sin ?b * c) * (1 / s * (1 / s))"
    unfolding k0_def k1_def by (simp add: algebra_simps)
  ultimately show ?thesis using s(1) by simp
qed

lemma slerp_unit:
  assumes "unit_quaternion q0" and "unit_quaternion q1" and "slerp cmath_real q0 q1 t = Some r"
    and "\<bar>dotProduct q0 q1\<bar> \<le> 9999 / 10000"
  shows "unit_quaternion r"
proof -
  have l: "real_of_rat (9999 / 10000) = 9999 / 10000" by (simp add: of_rat_divide)
  have *: "unit_quaternion \<lparr>q_w = k0 * q_w q0 + k1 * w, q_x = k0 * q_x q0 + k1 * x,
      q_y = k0 * q_y q0 + k1 * y, q_z = k0 * q_z q0 + k1 * z\<rparr>"
    if "w * w + x * x + y * y + z * z = 1" "q_w q0 * w + q_x q0 * x + q_y q0 * y + q_z q0 * z = c"
      "k0 * k0 + k1 * k1 + 2 * k0 * k1 * c = 1" for w x y z c k0 k1
    using that assms(1) unfolding unit_quaternion_def dotProduct_def quaternion.simps by algebra
  have q1: "q_w q1 * q_w q1 + q_x q1 * q_x q1 + q_y q1 * q_y q1 + q_z q1 * q_z q1 = 1"
    using assms(2) by (simp add: unit_quaternion_def dotProduct_def)
  consider "t \<le> 0" | "t \<ge> 1" | "0 < t" "t < 1" "dotProduct q0 q1 < 0" | "0 < t" "t < 1" "0 \<le> dotProduct q0 q1"
    by linarith
  then show ?thesis
  proof cases
    case 3
    then have c: "0 \<le> - dotProduct q0 q1" "- dotProduct q0 q1 < 1" "\<not> - dotProduct q0 q1 > 9999 / 10000"
      using assms(4) by linarith+
    show ?thesis
      using assms(3) 3 c
        * [OF _ _ slerp_weights [OF c(1,2), of t], of "- q_w q1" "- q_x q1" "- q_y q1" "- q_z q1"] q1
      by (auto simp: slerp_def Let_def l dotProduct_def split: if_splits)
  next
    case 4
    then have c: "0 \<le> dotProduct q0 q1" "dotProduct q0 q1 < 1" "\<not> dotProduct q0 q1 > 9999 / 10000"
      using assms(4) by linarith+
    show ?thesis
      using assms(3) 4 c
        * [OF q1 _ slerp_weights [OF c(1,2), of t]]
      by (auto simp: slerp_def Let_def l dotProduct_def split: if_splits)
  qed (use assms in \<open>auto simp: slerp_def\<close>)
qed

section \<open>Mistakes\<close>

text \<open>The identity moves every point by 1 along the third axis.\<close>

lemma identity_translates:
  "Vector3_transform p (Matrix_identity m) = Vector3_add p (Vector3 0 0 (1 :: 'f::comm_ring_1))"
  by (simp add: Vector3_transform_def Matrix_identity_def Vector3_add_def)

text \<open>Scaling along an axis and reflection leave the last diagonal element as it was.\<close>

lemma last_element_unwritten:
  "setupScaleAlongAxis M m axis k = Some r \<Longrightarrow> m33 r = m33 m"
  "setupReflect M m axis = Some r \<Longrightarrow> m33 r = m33 m"
  by (auto simp: setupScaleAlongAxis_def setupReflect_def zeroTranslation_def Let_def split: if_splits)

text \<open>
  One element of the matrix made from a quaternion, which should be that of \<open>RotationMatrix\<close>, has the
  wrong component; the others agree.
\<close>

lemma fromQuaternion_element:
  fixes q :: "real quaternion" and r0 :: "real rotationMatrix"
  defines "r \<equiv> RotationMatrix_fromInertialToObjectQuaternion cmath_real r0 q"
  shows "fromQuaternion cmath_real m q =
    (setupParentToLocal m kZeroVector r)\<lparr>m13 := r13 r + 2 * q_w q * (q_y q - q_x q)\<rparr>"
  unfolding r_def fromInertialToObject_real setup_frames
  by (simp add: fromQuaternion_def zeroTranslation_def kZeroVector_def Let_def algebra_simps)

end
