(* ===== verification/Boxes.thy ===== *)
theory Boxes
  imports Matrices
begin

text \<open>
  Axis-aligned boxes, \<open>AABB3\<close>: their construction, the tests of points, spheres, planes and other boxes
  against them, and the times at which rays and moving boxes meet them.
\<close>

section \<open>Boxes\<close>

record 'f aabb3 =
  b_min :: "'f vector3"
  b_max :: "'f vector3"

definition AABB3_size :: "'f::minus aabb3 \<Rightarrow> 'f vector3" where
  "AABB3_size b = Vector3_sub (b_max b) (b_min b)"

definition xSize :: "'f::minus aabb3 \<Rightarrow> 'f" where "xSize b = v_x (b_max b) - v_x (b_min b)"

definition ySize :: "'f::minus aabb3 \<Rightarrow> 'f" where "ySize b = v_y (b_max b) - v_y (b_min b)"

definition zSize :: "'f::minus aabb3 \<Rightarrow> 'f" where "zSize b = v_z (b_max b) - v_z (b_min b)"

definition AABB3_center :: "('f::{plus, times}, 'd) cmath \<Rightarrow> 'f aabb3 \<Rightarrow> 'f vector3" where
  "AABB3_center M b = Vector3_scale (Vector3_add (b_min b) (b_max b)) (lit M (1 / 2))"

definition corner :: "'f aabb3 \<Rightarrow> int \<Rightarrow> 'f vector3 option" where
  "corner b i =
     (if i \<ge> 0 \<and> i \<le> 7
      then Some (Vector3 (if bit i 0 then v_x (b_max b) else v_x (b_min b))
                   (if bit i 1 then v_y (b_max b) else v_y (b_min b))
                   (if bit i 2 then v_z (b_max b) else v_z (b_min b)))
      else None)"

definition AABB3_empty :: "('f::uminus, 'd) cmath \<Rightarrow> 'f aabb3 \<Rightarrow> 'f aabb3" where
  "AABB3_empty M b =
     (let kBigNumber = lit M (10 ^ 37)
      in b\<lparr>b_min := Vector3 kBigNumber kBigNumber kBigNumber,
           b_max := Vector3 (- kBigNumber) (- kBigNumber) (- kBigNumber)\<rparr>)"

text \<open>Assignments to a coordinate of a corner.\<close>

definition min_x :: "'f \<Rightarrow> 'f aabb3 \<Rightarrow> 'f aabb3" where "min_x a b = b\<lparr>b_min := (b_min b)\<lparr>v_x := a\<rparr>\<rparr>"
definition min_y :: "'f \<Rightarrow> 'f aabb3 \<Rightarrow> 'f aabb3" where "min_y a b = b\<lparr>b_min := (b_min b)\<lparr>v_y := a\<rparr>\<rparr>"
definition min_z :: "'f \<Rightarrow> 'f aabb3 \<Rightarrow> 'f aabb3" where "min_z a b = b\<lparr>b_min := (b_min b)\<lparr>v_z := a\<rparr>\<rparr>"
definition max_x :: "'f \<Rightarrow> 'f aabb3 \<Rightarrow> 'f aabb3" where "max_x a b = b\<lparr>b_max := (b_max b)\<lparr>v_x := a\<rparr>\<rparr>"
definition max_y :: "'f \<Rightarrow> 'f aabb3 \<Rightarrow> 'f aabb3" where "max_y a b = b\<lparr>b_max := (b_max b)\<lparr>v_y := a\<rparr>\<rparr>"
definition max_z :: "'f \<Rightarrow> 'f aabb3 \<Rightarrow> 'f aabb3" where "max_z a b = b\<lparr>b_max := (b_max b)\<lparr>v_z := a\<rparr>\<rparr>"

lemmas set_coordinate = min_x_def min_y_def min_z_def max_x_def max_y_def max_z_def

definition AABB3_add_point :: "'f::ord aabb3 \<Rightarrow> 'f vector3 \<Rightarrow> 'f aabb3" where
  "AABB3_add_point b p =
     (let b = (if v_x p < v_x (b_min b) then min_x (v_x p) b else b);
          b = (if v_x p > v_x (b_max b) then max_x (v_x p) b else b);
          b = (if v_y p < v_x (b_min b) then min_y (v_y p) b else b);
          b = (if v_y p > v_x (b_max b) then max_y (v_y p) b else b);
          b = (if v_z p < v_x (b_min b) then min_z (v_z p) b else b);
          b = (if v_z p > v_x (b_max b) then max_z (v_z p) b else b)
      in b)"

definition AABB3_add_box :: "'f::ord aabb3 \<Rightarrow> 'f aabb3 \<Rightarrow> 'f aabb3" where
  "AABB3_add_box b box =
     (let b = (if v_x (b_min box) < v_x (b_min b) then min_x (v_x (b_min box)) b else b);
          b = (if v_x (b_min box) > v_x (b_max b) then max_x (v_x (b_min box)) b else b);
          b = (if v_y (b_min box) < v_x (b_min b) then min_y (v_y (b_min box)) b else b);
          b = (if v_y (b_min box) > v_x (b_max b) then max_y (v_y (b_min box)) b else b);
          b = (if v_z (b_min box) < v_x (b_min b) then min_z (v_z (b_min box)) b else b);
          b = (if v_z (b_min box) > v_x (b_max b) then max_z (v_z (b_min box)) b else b)
      in b)"

definition AABB3_isEmpty :: "'f::ord aabb3 \<Rightarrow> bool" where
  "AABB3_isEmpty b \<longleftrightarrow>
     v_x (b_min b) > v_x (b_max b) \<or> v_y (b_min b) > v_y (b_max b) \<or> v_z (b_min b) > v_z (b_max b)"

text \<open>
  One element of the matrix widens one axis of the result, from the lower bound \<open>lo\<close> and the upper bound
  \<open>hi\<close> accumulated so far, by the range \<open>bmin\<close> to \<open>bmax\<close> of the axis it multiplies.
\<close>

definition transform_element :: "'f::{zero, plus, times, ord} \<Rightarrow> 'f \<Rightarrow> 'f \<Rightarrow> 'f \<times> 'f \<Rightarrow> 'f \<times> 'f" where
  "transform_element m bmin bmax = (\<lambda>(lo, hi).
     if m > 0 then (lo + m * bmin, hi + m * bmax) else (lo + m * bmax, hi + m * bmin))"

definition setToTransformedBox ::
  "('f::{zero, uminus, plus, times, ord}, 'd) cmath \<Rightarrow> 'f aabb3 \<Rightarrow> 'f aabb3 \<Rightarrow> 'f matrix4x3
     \<Rightarrow> 'f aabb3" where
  "setToTransformedBox M b box m =
     (if AABB3_isEmpty box then AABB3_empty M b
      else
        let t = getTranslation m;
            (x0, x1) = transform_element (m11 m) (v_x (b_min box)) (v_x (b_max box)) (v_x t, v_x t);
            (y0, y1) = transform_element (m12 m) (v_x (b_min box)) (v_x (b_max box)) (v_y t, v_y t);
            (z0, z1) = transform_element (m13 m) (v_x (b_min box)) (v_x (b_max box)) (v_z t, v_z t);
            (x0, x1) = transform_element (m21 m) (v_y (b_min box)) (v_y (b_max box)) (x0, x1);
            (y0, y1) = transform_element (m22 m) (v_y (b_min box)) (v_y (b_max box)) (y0, y1);
            (z0, z1) = transform_element (m23 m) (v_y (b_min box)) (v_y (b_max box)) (z0, z1);
            (x0, x1) = transform_element (m31 m) (v_z (b_min box)) (v_z (b_max box)) (x0, x1);
            (y0, y1) = transform_element (m32 m) (v_z (b_min box)) (v_z (b_max box)) (y0, y1);
            (z0, z1) = transform_element (m33 m) (v_z (b_min box)) (v_z (b_max box)) (z0, z1)
        in b\<lparr>b_min := Vector3 x0 y0 z0, b_max := Vector3 x1 y1 z1\<rparr>)"

definition AABB3_contains :: "'f::ord aabb3 \<Rightarrow> 'f vector3 \<Rightarrow> bool" where
  "AABB3_contains b p \<longleftrightarrow>
     v_x p \<ge> v_x (b_min b) \<and> v_x p \<le> v_x (b_max b) \<and>
     v_y p \<ge> v_y (b_min b) \<and> v_y p \<le> v_y (b_max b) \<and>
     v_z p \<ge> v_z (b_min b) \<and> v_z p \<le> v_z (b_max b)"

definition push_into :: "'f::ord \<Rightarrow> 'f \<Rightarrow> 'f \<Rightarrow> 'f" where
  "push_into lo hi a = (if a < lo then lo else if a > hi then hi else a)"

definition closestPointTo :: "'f::ord aabb3 \<Rightarrow> 'f vector3 \<Rightarrow> 'f vector3" where
  "closestPointTo b p = Vector3
     (push_into (v_x (b_min b)) (v_x (b_max b)) (v_x p))
     (push_into (v_y (b_min b)) (v_y (b_max b)) (v_y p))
     (push_into (v_z (b_min b)) (v_z (b_max b)) (v_z p))"

definition intersectsSphere ::
  "'f::{plus, minus, times, ord} aabb3 \<Rightarrow> 'f vector3 \<Rightarrow> 'f \<Rightarrow> bool" where
  "intersectsSphere b center radius =
     (let closestPoint = closestPointTo b center
      in distanceSquared center closestPoint < radius * radius)"


section \<open>Rays\<close>

text \<open>
  The parametric distance to the front face on one axis: nothing when the ray does not reach it, else
  whether the origin is within the range of the axis, the distance and the direction of the normal. The
  latter is not set when the origin is within; \<open>junk\<close> is what the variable holds then.
\<close>

definition ray_axis ::
  "'f \<Rightarrow> 'f \<Rightarrow> 'f \<Rightarrow> 'f \<Rightarrow> 'f \<Rightarrow> (bool \<times> 'f \<times> 'f::{zero, one, uminus, minus, inverse, ord}) option" where
  "ray_axis junk lo hi org delta =
     (if org < lo
      then let t = lo - org in if t > delta then None else Some (False, t / delta, - 1)
      else if org > hi
      then let t = hi - org in if t < delta then None else Some (False, t / delta, 1)
      else Some (True, - 1, junk))"

text \<open>Whether the ray is outside the box on an axis at time \<open>t\<close>.\<close>

definition ray_misses :: "'f::{plus, times, ord} \<Rightarrow> 'f \<Rightarrow> 'f \<Rightarrow> 'f \<Rightarrow> 'f \<Rightarrow> bool" where
  "ray_misses lo hi org delta t = (let a = org + delta * t in a < lo \<or> a > hi)"

definition rayIntersect ::
  "('f::{zero, one, uminus, plus, minus, times, inverse, ord}, 'd) cmath \<Rightarrow> 'f \<Rightarrow> 'f aabb3 \<Rightarrow> 'f vector3
     \<Rightarrow> 'f vector3 \<Rightarrow> 'f vector3 option \<Rightarrow> 'f \<times> 'f vector3 option" where
  "rayIntersect M junk b rayOrg rayDelta returnNormal =
     (let kNoIntersection = lit M (10 ^ 30) in
      case ray_axis junk (v_x (b_min b)) (v_x (b_max b)) (v_x rayOrg) (v_x rayDelta) of
        None \<Rightarrow> (kNoIntersection, returnNormal)
      | Some (inx, xt, xn) \<Rightarrow>
      (case ray_axis junk (v_y (b_min b)) (v_y (b_max b)) (v_y rayOrg) (v_y rayDelta) of
        None \<Rightarrow> (kNoIntersection, returnNormal)
      | Some (iny, yt, yn) \<Rightarrow>
      (case ray_axis junk (v_z (b_min b)) (v_z (b_max b)) (v_z rayOrg) (v_z rayDelta) of
        None \<Rightarrow> (kNoIntersection, returnNormal)
      | Some (inz, zt, zn) \<Rightarrow>
        if inx \<and> iny \<and> inz
        then (0, map_option (\<lambda>_. Vector3_normalize M (Vector3_neg rayDelta)) returnNormal)
        else
          let (which, t) = (0::nat, xt);
              (which, t) = (if yt > t then (1, yt) else (which, t));
              (which, t) = (if zt > t then (2, zt) else (which, t));
              x_out = ray_misses (v_x (b_min b)) (v_x (b_max b)) (v_x rayOrg) (v_x rayDelta) t;
              y_out = ray_misses (v_y (b_min b)) (v_y (b_max b)) (v_y rayOrg) (v_y rayDelta) t;
              z_out = ray_misses (v_z (b_min b)) (v_z (b_max b)) (v_z rayOrg) (v_z rayDelta) t
          in if which = 0
             then if y_out \<or> z_out then (kNoIntersection, returnNormal)
                  else (t, map_option (\<lambda>_. Vector3 xn 0 0) returnNormal)
             else if which = 1
             then if x_out \<or> z_out then (kNoIntersection, returnNormal)
                  else (t, map_option (\<lambda>_. Vector3 0 yn 0) returnNormal)
             else if x_out \<or> y_out then (kNoIntersection, returnNormal)
                  else (t, map_option (\<lambda>_. Vector3 0 0 zn) returnNormal))))"


section \<open>Planes\<close>

text \<open>The least and the greatest product of the normal with a point of the box.\<close>

definition plane_range :: "'f::{zero, plus, times, ord} aabb3 \<Rightarrow> 'f vector3 \<Rightarrow> 'f \<times> 'f" where
  "plane_range b n =
     (let (minD, maxD) =
            (if v_x n > 0 then (v_x n * v_x (b_min b), v_x n * v_x (b_max b))
             else (v_x n * v_x (b_max b), v_x n * v_x (b_min b)));
          (minD, maxD) =
            (if v_y n > 0 then (minD + v_y n * v_y (b_min b), maxD + v_y n * v_y (b_max b))
             else (minD + v_y n * v_y (b_max b), maxD + v_y n * v_y (b_min b)));
          (minD, maxD) =
            (if v_z n > 0 then (minD + v_z n * v_z (b_min b), maxD + v_z n * v_z (b_max b))
             else (minD + v_z n * v_z (b_max b), maxD + v_z n * v_z (b_min b)))
      in (minD, maxD))"

definition classifyPlane :: "'f::{zero, plus, times, ord} aabb3 \<Rightarrow> 'f vector3 \<Rightarrow> 'f \<Rightarrow> int" where
  "classifyPlane b n d =
     (let (minD, maxD) = plane_range b n in if minD \<ge> d then 1 else if maxD \<le> d then - 1 else 0)"

text \<open>The assertions of the next function compare in double precision.\<close>

definition intersectPlane ::
  "('f::{zero, uminus, plus, minus, times, inverse, ord}, 'd::{zero, one, uminus, minus, ord}) cmath
     \<Rightarrow> 'f aabb3 \<Rightarrow> 'f vector3 \<Rightarrow> 'f \<Rightarrow> 'f vector3 \<Rightarrow> 'f option" where
  "intersectPlane M b n planeD dir =
     (if \<not> fabs (widen M (Vector3_dot n n) - 1) < dlit M (1 / 100) then None
      else if \<not> fabs (widen M (Vector3_dot dir dir) - 1) < dlit M (1 / 100) then None
      else Some (
        let kNoIntersection = lit M (10 ^ 30);
            dot = Vector3_dot n dir
        in if dot \<ge> 0 then kNoIntersection
           else
             let (minD, maxD) = plane_range b n
             in if maxD \<le> planeD then kNoIntersection
                else let t = (planeD - minD) / dot in if t < 0 then 0 else t))"


section \<open>Two boxes\<close>

definition std_max :: "'f::ord \<Rightarrow> 'f \<Rightarrow> 'f" where "std_max a b = (if a < b then b else a)"

definition std_min :: "'f::ord \<Rightarrow> 'f \<Rightarrow> 'f" where "std_min a b = (if b < a then b else a)"

text \<open>The result, and what \<open>boxIntersect\<close> points to, if it does to something.\<close>

definition intersectAABBs ::
  "'f::ord aabb3 \<Rightarrow> 'f aabb3 \<Rightarrow> 'f aabb3 option \<Rightarrow> bool \<times> 'f aabb3 option" where
  "intersectAABBs box1 box2 boxIntersect =
     (if v_x (b_min box1) > v_x (b_max box2) then (False, boxIntersect)
      else if v_x (b_max box1) < v_x (b_min box2) then (False, boxIntersect)
      else if v_y (b_min box1) > v_y (b_max box2) then (False, boxIntersect)
      else if v_y (b_max box1) < v_y (b_min box2) then (False, boxIntersect)
      else if v_z (b_min box1) > v_z (b_max box2) then (False, boxIntersect)
      else if v_z (b_max box1) < v_z (b_min box2) then (False, boxIntersect)
      else (True, map_option (\<lambda>r. r\<lparr>
        b_min := Vector3 (std_max (v_x (b_min box1)) (v_x (b_min box2)))
                   (std_max (v_y (b_min box1)) (v_y (b_min box2)))
                   (std_max (v_z (b_min box1)) (v_z (b_min box2))),
        b_max := Vector3 (std_min (v_x (b_max box1)) (v_x (b_max box2)))
                   (std_min (v_y (b_max box1)) (v_y (b_max box2)))
                   (std_min (v_z (b_max box1)) (v_z (b_max box2)))\<rparr>) boxIntersect))"

text \<open>The time of overlap on one axis is met with the times so far; nothing when there is none.\<close>

definition sweep_axis ::
  "'f \<Rightarrow> 'f \<Rightarrow> 'f \<Rightarrow> 'f \<Rightarrow> 'f \<Rightarrow> 'f \<times> 'f
     \<Rightarrow> ('f \<times> 'f::{zero, one, minus, times, inverse, ord}) option" where
  "sweep_axis smin smax mmin mmax d = (\<lambda>(tEnter, tLeave).
     if feq d 0
     then if smin \<ge> mmax \<or> smax \<le> mmin then None else Some (tEnter, tLeave)
     else
       let oneOverD = 1 / d;
           enter = (smin - mmax) * oneOverD;
           leave = (smax - mmin) * oneOverD;
           (enter, leave) = (if enter > leave then (leave, enter) else (enter, leave));
           tEnter = (if enter > tEnter then enter else tEnter);
           tLeave = (if leave < tLeave then leave else tLeave)
       in if tEnter > tLeave then None else Some (tEnter, tLeave))"

definition intersectMovingAABB ::
  "('f::{zero, one, minus, times, inverse, ord}, 'd) cmath \<Rightarrow> 'f aabb3 \<Rightarrow> 'f aabb3 \<Rightarrow> 'f vector3 \<Rightarrow> 'f" where
  "intersectMovingAABB M stationaryBox movingBox d =
     (let kNoIntersection = lit M (10 ^ 30);
          (s0, s1) = (b_min stationaryBox, b_max stationaryBox);
          (o0, o1) = (b_min movingBox, b_max movingBox)
      in case sweep_axis (v_x s0) (v_x s1) (v_x o0) (v_x o1) (v_x d) (0, 1) of
           None \<Rightarrow> kNoIntersection
         | Some t \<Rightarrow>
         (case sweep_axis (v_y s0) (v_y s1) (v_y o0) (v_y o1) (v_y d) t of
           None \<Rightarrow> kNoIntersection
         | Some t \<Rightarrow>
         (case sweep_axis (v_z s0) (v_z s1) (v_z o0) (v_z o1) (v_z d) t of
           None \<Rightarrow> kNoIntersection
         | Some (tEnter, tLeave) \<Rightarrow> tEnter)))"

end
