(* ===== verification/Geometry.thy ===== *)
theory Geometry
  imports Boxes
begin

text \<open>
  What the operations on boxes compute: the comparisons on the numbers of the processor, whatever they are,
  and the arithmetic without rounding.
\<close>

section \<open>Boxes of processor numbers\<close>

lemma f32_less_trans: "a < b \<Longrightarrow> b < c \<Longrightarrow> a < (c :: f32)"
  unfolding f32_less_iff by (meson order.strict_trans)

lemma f32_less_le_trans: "a < b \<Longrightarrow> b \<le> c \<Longrightarrow> a < (c :: f32)"
  unfolding f32_order by (meson order.strict_trans2)

lemma f32_less_asym: "a < b \<Longrightarrow> \<not> b \<le> a" "a < b \<Longrightarrow> \<not> b < (a :: f32)"
  unfolding f32_order by (meson order.asym not_le)+

text \<open>
  C40. A box that was emptied stays empty, and does not contain the point, when a point is added whose
  second coordinate is between the limits of the empty box and whose first is below them: the second and
  third coordinate are compared with the limits of the first axis.
\<close>

theorem added_point_is_lost:
  assumes "v_x p < lit M (10 ^ 37)" and "v_y p < lit M (10 ^ 37)" and "- lit M (10 ^ 37) < v_y p"
  shows "AABB3_isEmpty (AABB3_add_point (AABB3_empty M b) p) \<and>
    \<not> AABB3_contains (AABB3_add_point (AABB3_empty M b) (p :: f32 vector3)) p"
proof -
  let ?k = "lit M (10 ^ 37)" and ?r = "AABB3_add_point (AABB3_empty M b) p"
  have k: "- ?k < ?k" using assms(2,3) by (rule f32_less_trans [rotated])
  have "v_y (b_max ?r) < v_y (b_min ?r)"
  proof (cases "- ?k < v_x p")
    case True
    then show ?thesis
      using assms k f32_less_asym [of "v_y p" "v_x p"]
      by (simp add: AABB3_add_point_def AABB3_empty_def set_coordinate Let_def)
  next
    case False
    then have "\<not> v_y p < v_x p" using f32_less_trans [OF assms(3)] by blast
    then show ?thesis
      using False assms k by (simp add: AABB3_add_point_def AABB3_empty_def set_coordinate Let_def)
  qed
  then show ?thesis
    unfolding AABB3_isEmpty_def AABB3_contains_def using f32_less_le_trans f32_less_asym by blast
qed

theorem added_point_is_lost_witness:
  "\<exists>M :: (f32, rat) cmath. lit M = f32_of_rat \<and>
    AABB3_isEmpty (AABB3_add_point (AABB3_empty M undefined) (Vector3 1 (- 1) 0))"
proof -
  let ?M = "\<lparr>lit = f32_of_rat, dlit = id, widen = rat_of_f32, sqrt_f = id, sin_f = id, cos_f = id, tan_f = id,
    asin_f = id, acos_f = id, atan_f = id, atan2_f = \<lambda>a b. a, floor_f = id\<rparr> :: (f32, rat) cmath"
  have l: "lit ?M (10 ^ 37) = f32_of_rat (10 ^ 37)" by simp
  have "1 < f32_of_rat (10 ^ 37)" "- f32_of_rat (10 ^ 37) < - 1" "- 1 < f32_of_rat (10 ^ 37)"
    by (simp_all add: f32_less_iff one_f32_def f32_run)
  then have "AABB3_isEmpty (AABB3_add_point (AABB3_empty ?M undefined) (Vector3 1 (- 1) 0))"
    using added_point_is_lost [of "Vector3 1 (- 1) 0" ?M undefined] unfolding l Vector3_sel by blast
  then show ?thesis by (intro exI [of _ ?M]) simp
qed


section \<open>Points and boxes\<close>

lemma contains_nonempty: "AABB3_contains b p \<Longrightarrow> \<not> AABB3_isEmpty (b :: 'f::linorder aabb3)"
  by (auto simp: AABB3_contains_def AABB3_isEmpty_def)

lemma nonempty_contains: "\<not> AABB3_isEmpty b \<Longrightarrow> AABB3_contains b (b_min (b :: 'f::linorder aabb3))"
  by (auto simp: AABB3_contains_def AABB3_isEmpty_def not_less)

lemma isEmpty_iff: "AABB3_isEmpty b \<longleftrightarrow> (\<forall>p. \<not> AABB3_contains (b :: 'f::linorder aabb3) p)"
  using contains_nonempty nonempty_contains by blast

text \<open>The eight corners are points of the box.\<close>

lemma corner_in_box: "\<not> AABB3_isEmpty b \<Longrightarrow> corner b i = Some p \<Longrightarrow> AABB3_contains (b :: 'f::linorder aabb3) p"
  by (auto simp: AABB3_contains_def AABB3_isEmpty_def corner_def not_less split: if_splits)

text \<open>On an axis, no point of the range is closer than the one the code takes.\<close>

lemma push_into_range: "lo \<le> hi \<Longrightarrow> lo \<le> push_into lo hi a \<and> push_into lo hi a \<le> (hi :: 'f::linorder)"
  by (auto simp: push_into_def)

lemma push_into_closest:
  assumes "lo \<le> r" and "r \<le> hi"
  shows "(a - push_into lo hi a) * (a - push_into lo hi a) \<le> (a - r) * (a - (r :: 'f::linordered_field))"
proof -
  have "\<bar>a - push_into lo hi a\<bar> \<le> \<bar>a - r\<bar>" using assms by (auto simp: push_into_def)
  then show ?thesis by (simp only: abs_le_square_iff power2_eq_square)
qed

lemma closest_point:
  assumes "\<not> AABB3_isEmpty b"
  shows "AABB3_contains b (closestPointTo b p)"
    and "AABB3_contains b r \<Longrightarrow>
      distanceSquared p (closestPointTo b p) \<le> distanceSquared p (r :: 'f::linordered_field vector3)"
proof -
  show "AABB3_contains b (closestPointTo b p)"
    using assms by (simp add: AABB3_contains_def AABB3_isEmpty_def closestPointTo_def push_into_range not_less)
  show "AABB3_contains b r \<Longrightarrow> distanceSquared p (closestPointTo b p) \<le> distanceSquared p r"
    unfolding distanceSquared_def Let_def closestPointTo_def Vector3_sel
    by (intro add_mono push_into_closest) (simp_all add: AABB3_contains_def)
qed

lemma sphere_meets_box:
  assumes "\<not> AABB3_isEmpty b"
  shows "intersectsSphere b c radius \<longleftrightarrow>
    (\<exists>r. AABB3_contains b r \<and> distanceSquared c r < radius * (radius :: 'f::linordered_field))"
  using closest_point(1) [OF assms, of c] closest_point(2) [OF assms, of _ c]
  unfolding intersectsSphere_def Let_def by (meson order.strict_trans1)

text \<open>The common points of two boxes.\<close>

lemma std_max_min [simp]: "std_max a b = max a b" "std_min a b = min a (b :: 'f::linorder)"
  by (auto simp: std_max_def std_min_def)

definition boxes_overlap :: "'f::ord aabb3 \<Rightarrow> 'f aabb3 \<Rightarrow> bool" where
  "boxes_overlap a b \<longleftrightarrow>
     v_x (b_min a) \<le> v_x (b_max b) \<and> v_x (b_min b) \<le> v_x (b_max a) \<and>
     v_y (b_min a) \<le> v_y (b_max b) \<and> v_y (b_min b) \<le> v_y (b_max a) \<and>
     v_z (b_min a) \<le> v_z (b_max b) \<and> v_z (b_min b) \<le> v_z (b_max a)"

definition common_box :: "'f::linorder aabb3 \<Rightarrow> 'f aabb3 \<Rightarrow> 'f aabb3" where
  "common_box a b = \<lparr>
     b_min = Vector3 (max (v_x (b_min a)) (v_x (b_min b))) (max (v_y (b_min a)) (v_y (b_min b)))
               (max (v_z (b_min a)) (v_z (b_min b))),
     b_max = Vector3 (min (v_x (b_max a)) (v_x (b_max b))) (min (v_y (b_max a)) (v_y (b_max b)))
               (min (v_z (b_max a)) (v_z (b_max b)))\<rparr>"

lemma intersectAABBs_eq:
  "intersectAABBs a b r =
     (if boxes_overlap a b then (True, map_option (\<lambda>_. common_box a b) r) else (False, (r :: 'f::linorder aabb3 option)))"
  by (cases r) (simp_all add: intersectAABBs_def boxes_overlap_def common_box_def not_less [symmetric])

lemma contains_common_box:
  "AABB3_contains (common_box a b) p \<longleftrightarrow> AABB3_contains a p \<and> AABB3_contains b (p :: 'f::linorder vector3)"
  by (simp add: AABB3_contains_def common_box_def conj_ac)

lemma common_box_nonempty:
  "\<not> AABB3_isEmpty a \<Longrightarrow> \<not> AABB3_isEmpty b \<Longrightarrow> AABB3_isEmpty (common_box a b) \<longleftrightarrow> \<not> boxes_overlap a (b :: 'f::linorder aabb3)"
  by (simp add: AABB3_isEmpty_def common_box_def boxes_overlap_def not_less [symmetric]
      min_less_iff_disj less_max_iff_disj)

lemma boxes_intersect:
  assumes "\<not> AABB3_isEmpty b1" and "\<not> AABB3_isEmpty (b2 :: 'f::linorder aabb3)"
  shows "fst (intersectAABBs b1 b2 r) \<longleftrightarrow> (\<exists>p. AABB3_contains b1 p \<and> AABB3_contains b2 p)"
    and "intersectAABBs b1 b2 (Some r0) = (True, Some s) \<Longrightarrow>
      AABB3_contains s p \<longleftrightarrow> AABB3_contains b1 p \<and> AABB3_contains b2 p"
  using common_box_nonempty [OF assms] isEmpty_iff [of "common_box b1 b2"]
  by (auto simp: intersectAABBs_eq contains_common_box split: if_splits)


section \<open>Transformed boxes and planes\<close>

lemma transform_element_encloses:
  assumes "(lo', hi') = transform_element m bmin bmax (lo, hi)" and "lo \<le> a" and "a \<le> hi"
    and "bmin \<le> x" and "x \<le> bmax"
  shows "lo' \<le> a + x * m \<and> a + x * m \<le> (hi' :: 'f::linordered_field)"
proof -
  have "m * bmin \<le> m * x \<and> m * x \<le> m * bmax" if "m > 0"
    using that assms(4,5) by (simp add: mult_left_mono)
  moreover have "m * bmax \<le> m * x \<and> m * x \<le> m * bmin" if "\<not> m > 0"
    using that assms(4,5) by (simp add: mult_left_mono_neg)
  ultimately show ?thesis
    using assms(1-3) by (auto simp: transform_element_def mult.commute [of x] intro: add_mono split: if_splits)
qed

text \<open>The box of a transformed box contains the image of every point of it.\<close>

lemma transformed_box_encloses:
  assumes p: "AABB3_contains box p"
  shows "AABB3_contains (setToTransformedBox M b box m) (Vector3_transform p (m :: 'f::linordered_field matrix4x3))"
proof -
  have axis: "lo3 \<le> v_x p * m1 + v_y p * m2 + v_z p * m3 + t \<and> v_x p * m1 + v_y p * m2 + v_z p * m3 + t \<le> hi3"
    if "transform_element m3 (v_z (b_min box)) (v_z (b_max box))
        (transform_element m2 (v_y (b_min box)) (v_y (b_max box))
          (transform_element m1 (v_x (b_min box)) (v_x (b_max box)) (t, t))) = (lo3, hi3)" for m1 m2 m3 t lo3 hi3
  proof -
    obtain lo1 hi1 where e1: "(lo1, hi1) = transform_element m1 (v_x (b_min box)) (v_x (b_max box)) (t, t)"
      by (metis surj_pair)
    obtain lo2 hi2 where e2: "(lo2, hi2) = transform_element m2 (v_y (b_min box)) (v_y (b_max box)) (lo1, hi1)"
      by (metis surj_pair)
    have e3: "(lo3, hi3) = transform_element m3 (v_z (b_min box)) (v_z (b_max box)) (lo2, hi2)"
      using that unfolding e1 [symmetric] e2 [symmetric] by simp
    have x: "v_x (b_min box) \<le> v_x p" "v_x p \<le> v_x (b_max box)"
      and y: "v_y (b_min box) \<le> v_y p" "v_y p \<le> v_y (b_max box)"
      and z: "v_z (b_min box) \<le> v_z p" "v_z p \<le> v_z (b_max box)"
      using p by (simp_all add: AABB3_contains_def)
    note s1 = transform_element_encloses [OF e1 order_refl order_refl x]
    note s2 = transform_element_encloses [OF e2 conjunct1 [OF s1] conjunct2 [OF s1] y]
    note s3 = transform_element_encloses [OF e3 conjunct1 [OF s2] conjunct2 [OF s2] z]
    then show ?thesis by (simp add: algebra_simps)
  qed
  show ?thesis
    using contains_nonempty [OF p]
    by (auto simp: setToTransformedBox_def AABB3_contains_def Vector3_transform_def getTranslation_def Let_def
        dest!: axis split: prod.split)
qed

text \<open>The range of the products with a normal over a box, which its corners attain.\<close>

lemma plane_axis:
  fixes n :: "'f::linordered_field"
  assumes "lo \<le> x" and "x \<le> hi"
  shows "(if n > 0 then n * lo else n * hi) \<le> n * x" "n * x \<le> (if n > 0 then n * hi else n * lo)"
  using assms by (simp_all add: mult_left_mono mult_left_mono_neg)

lemma plane_range_eq:
  "plane_range b n =
    ((if v_x n > 0 then v_x n * v_x (b_min b) else v_x n * v_x (b_max b)) +
     (if v_y n > 0 then v_y n * v_y (b_min b) else v_y n * v_y (b_max b)) +
     (if v_z n > 0 then v_z n * v_z (b_min b) else v_z n * v_z (b_max b)),
     (if v_x n > 0 then v_x n * v_x (b_max b) else v_x n * v_x (b_min b)) +
     (if v_y n > 0 then v_y n * v_y (b_max b) else v_y n * v_y (b_min b)) +
     (if v_z n > 0 then v_z n * v_z (b_max b) else v_z n * v_z (b_min b)))"
  by (simp add: plane_range_def Let_def)

lemma plane_range_bounds:
  assumes "AABB3_contains b p" and "plane_range b n = (minD, maxD)"
  shows "minD \<le> Vector3_dot n p" "Vector3_dot n p \<le> (maxD :: 'f::linordered_field)"
  using assms
  by (auto simp: plane_range_eq Vector3_dot_def AABB3_contains_def simp del: if_split intro!: add_mono plane_axis)

lemma plane_range_attained:
  assumes "\<not> AABB3_isEmpty b" and "plane_range b n = (minD, maxD)"
  obtains p q where "AABB3_contains b p" and "Vector3_dot n p = minD"
    and "AABB3_contains b q" and "Vector3_dot n q = (maxD :: 'f::linordered_field)"
proof
  let ?p = "Vector3 (if v_x n > 0 then v_x (b_min b) else v_x (b_max b))
    (if v_y n > 0 then v_y (b_min b) else v_y (b_max b)) (if v_z n > 0 then v_z (b_min b) else v_z (b_max b))"
  let ?q = "Vector3 (if v_x n > 0 then v_x (b_max b) else v_x (b_min b))
    (if v_y n > 0 then v_y (b_max b) else v_y (b_min b)) (if v_z n > 0 then v_z (b_max b) else v_z (b_min b))"
  show "AABB3_contains b ?p" "AABB3_contains b ?q"
    using assms(1) by (simp_all add: AABB3_contains_def AABB3_isEmpty_def not_less)
  show "Vector3_dot n ?p = minD" "Vector3_dot n ?q = maxD"
    using assms(2) by (auto simp: plane_range_eq Vector3_dot_def)
qed

text \<open>The class of a box: in front of the plane, behind it, or points strictly on both sides.\<close>

lemma plane_classes:
  assumes "\<not> AABB3_isEmpty (b :: 'f::linordered_field aabb3)"
  shows "classifyPlane b n d = 1 \<longleftrightarrow> (\<forall>p. AABB3_contains b p \<longrightarrow> d \<le> Vector3_dot n p)"
    and "classifyPlane b n d = 0 \<longleftrightarrow>
      (\<exists>p. AABB3_contains b p \<and> Vector3_dot n p < d) \<and> (\<exists>p. AABB3_contains b p \<and> d < Vector3_dot n p)"
proof -
  obtain minD maxD where r: "plane_range b n = (minD, maxD)" by fastforce
  note lo = plane_range_bounds(1) [OF _ r] and hi = plane_range_bounds(2) [OF _ r]
  obtain p q where "AABB3_contains b p" "Vector3_dot n p = minD" "AABB3_contains b q" "Vector3_dot n q = maxD"
    using plane_range_attained [OF assms r] by blast
  then have "(\<forall>p. AABB3_contains b p \<longrightarrow> d \<le> Vector3_dot n p) \<longleftrightarrow> d \<le> minD"
    "(\<exists>p. AABB3_contains b p \<and> Vector3_dot n p < d) \<longleftrightarrow> minD < d"
    "(\<exists>p. AABB3_contains b p \<and> d < Vector3_dot n p) \<longleftrightarrow> d < maxD"
    using lo hi by (meson order.trans order.strict_trans1 order.strict_trans2)+
  then show "classifyPlane b n d = 1 \<longleftrightarrow> (\<forall>p. AABB3_contains b p \<longrightarrow> d \<le> Vector3_dot n p)"
    "classifyPlane b n d = 0 \<longleftrightarrow>
      (\<exists>p. AABB3_contains b p \<and> Vector3_dot n p < d) \<and> (\<exists>p. AABB3_contains b p \<and> d < Vector3_dot n p)"
    by (auto simp: classifyPlane_def r)
qed

end
