(* ===== verification/Collisions.thy ===== *)
theory Collisions
  imports Geometry
begin

text \<open>
  Rays and moving boxes, without rounding: the times that the code returns are the first at which the ray,
  or the moving box, meets the box, and it returns one beyond the interval exactly when they do not meet.
\<close>

section \<open>Rays\<close>

text \<open>
  On one axis: the time from which on the ray can be in the range. It is in the range at that time and
  nowhere before.
\<close>

definition entered :: "'f::linordered_field \<Rightarrow> 'f \<Rightarrow> 'f \<Rightarrow> 'f \<Rightarrow> 'f \<Rightarrow> bool" where
  "entered lo hi p d e \<longleftrightarrow> 0 \<le> e \<and> \<not> ray_misses lo hi p d e \<and> (\<forall>s. 0 \<le> s \<and> s < e \<longrightarrow> ray_misses lo hi p d s)"

lemma ray_misses_iff: "ray_misses lo hi p d t \<longleftrightarrow> \<not> (lo \<le> p + d * t \<and> p + d * t \<le> (hi :: 'f::linordered_field))"
  by (auto simp: ray_misses_def Let_def)

lemma ray_axis_None:
  assumes "ray_axis junk lo hi p d = None" and "0 \<le> s" and "s \<le> (1 :: 'f::linordered_field)"
  shows "ray_misses lo hi p d s"
proof -
  obtain a where a: "a = d * s" "0 \<le> d \<Longrightarrow> 0 \<le> a \<and> a \<le> d" "\<not> 0 \<le> d \<Longrightarrow> a \<le> 0 \<and> d \<le> a"
    using assms(2,3) mult_left_mono [of s 1 d] mult_left_mono_neg [of s 1 d]
    by (simp add: mult_nonpos_nonneg)
  show ?thesis
    using assms(1) a(2,3) unfolding ray_misses_iff a(1) [symmetric]
    by (cases "0 \<le> d") (auto simp: ray_axis_def Let_def split: if_splits)
qed

lemma enteredI:
  assumes "0 \<le> t" and "p + d * t = lo \<or> p + d * t = hi" and "lo \<le> hi"
    and "\<And>s. s < t \<Longrightarrow> p + d * s < lo \<or> hi < p + d * s"
  shows "entered lo hi p d (t :: 'f::linordered_field)"
  using assms unfolding entered_def ray_misses_iff by (auto simp: not_le)

lemma ray_axis_Some:
  assumes "ray_axis junk lo hi p d = Some (inn, t, n)" and "lo \<le> (hi :: 'f::linordered_field)"
  shows "entered lo hi p d (max 0 t)" and "inn \<longleftrightarrow> t \<le> 0" and "t \<le> 1" and "inn \<Longrightarrow> t = - 1"
proof -
  consider (lower) "p < lo" "lo - p \<le> d" "t = (lo - p) / d" "\<not> inn"
    | (upper) "hi < p" "d \<le> hi - p" "t = (hi - p) / d" "\<not> inn"
    | (inside) "lo \<le> p" "p \<le> hi" "t = - 1" "inn"
    using assms(1) by (auto simp: ray_axis_def Let_def split: if_splits)
  then have "entered lo hi p d (max 0 t) \<and> (inn \<longleftrightarrow> t \<le> 0) \<and> t \<le> 1 \<and> (inn \<longrightarrow> t = - 1)"
  proof cases
    case lower
    then have d: "0 < d" "d * t = lo - p" by simp_all
    then have "0 < t" "t \<le> 1" using lower by (simp_all add: zero_less_divide_iff)
    moreover have "p + d * s < lo" if "s < t" for s using that d mult_strict_left_mono [of s t d] by simp
    moreover have "entered lo hi p d t" by (rule enteredI) (use calculation d assms(2) in auto)
    ultimately show ?thesis using lower(4) by (simp add: max_def)
  next
    case upper
    then have d: "d < 0" "d * t = hi - p" by simp_all
    then have "0 < t" "t \<le> 1" using upper by (simp_all add: zero_less_divide_iff divide_le_eq)
    moreover have "hi < p + d * s" if "s < t" for s using that d mult_strict_left_mono_neg [of s t d] by simp
    moreover have "entered lo hi p d t" by (rule enteredI) (use calculation d assms(2) in auto)
    ultimately show ?thesis using upper(4) by (simp add: max_def)
  next
    case inside
    then show ?thesis by (auto simp: entered_def ray_misses_iff)
  qed
  then show "entered lo hi p d (max 0 t)" and "inn \<longleftrightarrow> t \<le> 0" and "t \<le> 1" and "inn \<Longrightarrow> t = - 1"
    by blast+
qed

text \<open>Once it has left the range the ray does not come back.\<close>

lemma left_for_good:
  assumes "entered lo hi p d e" and "e \<le> t" and "ray_misses lo hi p d t" and "t \<le> s"
  shows "ray_misses lo hi p d (s :: 'f::linordered_field)"
proof (cases "0 \<le> d")
  case True
  then have "d * e \<le> d * t" "d * t \<le> d * s" using assms(2,4) by (simp_all add: mult_left_mono)
  then show ?thesis using assms(1,3) by (auto simp: entered_def ray_misses_iff not_le)
next
  case False
  then have "d * t \<le> d * e" "d * s \<le> d * t" using assms(2,4) by (simp_all add: mult_left_mono_neg)
  then show ?thesis using assms(1,3) by (auto simp: entered_def ray_misses_iff not_le)
qed

text \<open>The point of a ray at a time, and whether it is in the box.\<close>

definition ray_at :: "'f::{plus, times} vector3 \<Rightarrow> 'f vector3 \<Rightarrow> 'f \<Rightarrow> 'f vector3" where
  "ray_at p d t = Vector3_add p (Vector3_scale d t)"

lemma contains_ray_at:
  "AABB3_contains b (ray_at p d t) \<longleftrightarrow>
     \<not> ray_misses (v_x (b_min b)) (v_x (b_max b)) (v_x p) (v_x d) t \<and>
     \<not> ray_misses (v_y (b_min b)) (v_y (b_max b)) (v_y p) (v_y d) t \<and>
     \<not> ray_misses (v_z (b_min b)) (v_z (b_max b)) (v_z p) (v_z d) (t :: 'f::linordered_field)"
  by (auto simp: AABB3_contains_def ray_at_def Vector3_add_def Vector3_scale_def ray_misses_iff)

text \<open>The first time in the box is the last of the times at which the axes are entered, or there is none.\<close>

lemma first_time_in_box:
  assumes "entered (v_x (b_min b)) (v_x (b_max b)) (v_x p) (v_x d) ex"
    and "entered (v_y (b_min b)) (v_y (b_max b)) (v_y p) (v_y d) ey"
    and "entered (v_z (b_min b)) (v_z (b_max b)) (v_z p) (v_z d) ez"
    and T: "T = max ex (max ey (ez :: 'f::linordered_field))"
  shows "0 \<le> s \<Longrightarrow> s < T \<Longrightarrow> \<not> AABB3_contains b (ray_at p d s)"
    and "\<not> AABB3_contains b (ray_at p d T) \<Longrightarrow> 0 \<le> s \<Longrightarrow> \<not> AABB3_contains b (ray_at p d s)"
proof -
  show early: "\<not> AABB3_contains b (ray_at p d s)" if "0 \<le> s" "s < T" for s
    using that assms unfolding contains_ray_at entered_def by (auto simp: less_max_iff_disj)
  have "ex \<le> T" "ey \<le> T" "ez \<le> T" unfolding T by simp_all
  then show "\<not> AABB3_contains b (ray_at p d s)" if "\<not> AABB3_contains b (ray_at p d T)" "0 \<le> s"
    using early [of s] that left_for_good [OF assms(1)] left_for_good [OF assms(2)] left_for_good [OF assms(3)]
    unfolding contains_ray_at by (meson not_le)
qed

text \<open>The time that is returned, when the ray reaches the front face on every axis.\<close>

lemma rayIntersect_time:
  assumes "ray_axis junk (v_x (b_min b)) (v_x (b_max b)) (v_x p) (v_x d) = Some (inx, xt, xn)"
    and "ray_axis junk (v_y (b_min b)) (v_y (b_max b)) (v_y p) (v_y d) = Some (iny, yt, yn)"
    and "ray_axis junk (v_z (b_min b)) (v_z (b_max b)) (v_z p) (v_z d) = Some (inz, zt, zn)"
  shows "fst (rayIntersect M junk b p d r) =
    (let x_out = ray_misses (v_x (b_min b)) (v_x (b_max b)) (v_x p) (v_x d);
         y_out = ray_misses (v_y (b_min b)) (v_y (b_max b)) (v_y p) (v_y d);
         z_out = ray_misses (v_z (b_min b)) (v_z (b_max b)) (v_z p) (v_z d);
         t = (if yt > xt then yt else xt)
     in if inx \<and> iny \<and> inz then 0
        else if zt > t then if x_out zt \<or> y_out zt then lit M (10 ^ 30) else zt
        else if yt > xt then if x_out yt \<or> z_out yt then lit M (10 ^ 30) else yt
        else if y_out xt \<or> z_out xt then lit M (10 ^ 30) else xt)"
  unfolding rayIntersect_def assms Let_def option.case prod.case
  by (simp split del: if_split cong: if_cong) (simp add: if_distrib [of fst] split: if_split)

text \<open>What the code returns when the ray reaches the front face on every axis.\<close>

lemma rayIntersect_eq:
  fixes p d :: "'f::linordered_field vector3"
  assumes "ray_axis junk (v_x (b_min b)) (v_x (b_max b)) (v_x p) (v_x d) = Some (inx, xt, xn)"
    and "ray_axis junk (v_y (b_min b)) (v_y (b_max b)) (v_y p) (v_y d) = Some (iny, yt, yn)"
    and "ray_axis junk (v_z (b_min b)) (v_z (b_max b)) (v_z p) (v_z d) = Some (inz, zt, zn)"
    and b: "\<not> AABB3_isEmpty b"
  defines "T \<equiv> max (max 0 xt) (max (max 0 yt) (max 0 zt))"
  shows "fst (rayIntersect M junk b p d r) =
    (if AABB3_contains b (ray_at p d T) then T else lit M (10 ^ 30))"
proof -
  have r: "v_x (b_min b) \<le> v_x (b_max b)" "v_y (b_min b) \<le> v_y (b_max b)" "v_z (b_min b) \<le> v_z (b_max b)"
    using b by (simp_all add: AABB3_isEmpty_def not_less)
  note x = ray_axis_Some [OF assms(1) r(1)] and y = ray_axis_Some [OF assms(2) r(2)]
    and z = ray_axis_Some [OF assms(3) r(3)]
  have e: "\<not> ray_misses (v_x (b_min b)) (v_x (b_max b)) (v_x p) (v_x d) (max 0 xt)"
    "\<not> ray_misses (v_y (b_min b)) (v_y (b_max b)) (v_y p) (v_y d) (max 0 yt)"
    "\<not> ray_misses (v_z (b_min b)) (v_z (b_max b)) (v_z p) (v_z d) (max 0 zt)"
    using x(1) y(1) z(1) by (simp_all add: entered_def)
  note fx = x(2) and fy = y(2) and fz = z(2)
  consider (inside) "xt \<le> 0" "yt \<le> 0" "zt \<le> 0"
    | (x) "0 < xt" "yt \<le> xt" "zt \<le> xt"
    | (y) "0 < yt" "xt < yt" "zt \<le> yt"
    | (z) "0 < zt" "xt < zt" "yt < zt"
    by linarith
  then show ?thesis
  proof cases
    case inside
    then show ?thesis
      using e fx fy fz unfolding contains_ray_at T_def by (simp add: rayIntersect_time [OF assms(1-3)])
  next
    case x
    then have "T = xt" "max 0 xt = xt" "\<not> inx" "\<not> xt < yt" "\<not> xt < zt" using fx by (simp_all add: T_def)
    then show ?thesis
      using e(1) unfolding contains_ray_at by (simp add: rayIntersect_time [OF assms(1-3)])
  next
    case y
    then have "T = yt" "max 0 yt = yt" "\<not> iny" "xt < yt" "\<not> yt < zt" using fy by (simp_all add: T_def)
    then show ?thesis
      using e(2) unfolding contains_ray_at by (simp add: rayIntersect_time [OF assms(1-3)])
  next
    case z
    then have "T = zt" "max 0 zt = zt" "\<not> inz" "xt < zt" "yt < zt" using fz by (simp_all add: T_def)
    then show ?thesis
      using e(3) unfolding contains_ray_at by (cases "xt < yt") (simp_all add: rayIntersect_time [OF assms(1-3)])
  qed
qed

text \<open>
  C38. For a box that is not empty, the value that \<open>rayIntersect\<close> returns is at most 1 exactly when the
  segment meets the box; it is then the time of the first point of the segment in the box.
\<close>

theorem ray_first_hit:
  fixes p d :: "'f::linordered_field vector3"
  assumes "\<not> AABB3_isEmpty b" and "1 < lit M (10 ^ 30)"
  shows "let t = fst (rayIntersect M junk b p d returnNormal)
    in (t \<le> 1 \<longrightarrow> 0 \<le> t \<and> AABB3_contains b (ray_at p d t) \<and>
          (\<forall>s. 0 \<le> s \<and> s < t \<longrightarrow> \<not> AABB3_contains b (ray_at p d s))) \<and>
       (1 < t \<longrightarrow> (\<forall>s. 0 \<le> s \<and> s \<le> 1 \<longrightarrow> \<not> AABB3_contains b (ray_at p d s)))"
proof -
  have r: "v_x (b_min b) \<le> v_x (b_max b)" "v_y (b_min b) \<le> v_y (b_max b)" "v_z (b_min b) \<le> v_z (b_max b)"
    using assms(1) by (simp_all add: AABB3_isEmpty_def not_less)
  let ?x = "ray_axis junk (v_x (b_min b)) (v_x (b_max b)) (v_x p) (v_x d)"
  let ?y = "ray_axis junk (v_y (b_min b)) (v_y (b_max b)) (v_y p) (v_y d)"
  let ?z = "ray_axis junk (v_z (b_min b)) (v_z (b_max b)) (v_z p) (v_z d)"
  consider (miss) "?x = None \<or> ?y = None \<or> ?z = None"
    | (reach) inx xt xn iny yt yn inz zt zn where
      "?x = Some (inx, xt, xn)" "?y = Some (iny, yt, yn)" "?z = Some (inz, zt, zn)"
    by (metis not_None_eq surj_pair)
  then show ?thesis
  proof cases
    case miss
    then have "fst (rayIntersect M junk b p d returnNormal) = lit M (10 ^ 30)"
      by (auto simp: rayIntersect_def Let_def split: option.split)
    moreover have "\<not> AABB3_contains b (ray_at p d s)" if "0 \<le> s" "s \<le> 1" for s
      using miss ray_axis_None that unfolding contains_ray_at by blast
    ultimately show ?thesis using assms(2) by simp
  next
    case reach
    let ?T = "max (max 0 xt) (max (max 0 yt) (max 0 zt))"
    note x = ray_axis_Some [OF reach(1) r(1)] and y = ray_axis_Some [OF reach(2) r(2)]
      and z = ray_axis_Some [OF reach(3) r(3)]
    note first = first_time_in_box [OF x(1) y(1) z(1) refl]
    have T: "0 \<le> ?T" "?T \<le> 1" using x(3) y(3) z(3) by simp_all
    obtain T where T': "T = ?T" by blast
    show ?thesis
      using T first assms(2) unfolding rayIntersect_eq [OF reach assms(1)] Let_def T' [symmetric]
      by (cases "AABB3_contains b (ray_at p d T)") (simp_all only: if_True if_False, auto)
  qed
qed

theorem ray_first_hit_witness:
  "fst (rayIntersect cmath_real 0 \<lparr>b_min = Vector3 0 0 0, b_max = Vector3 1 1 1\<rparr>
      (Vector3 (- 1) (1 / 2) (1 / 2)) (Vector3 4 0 1) None) = 1 / 4 \<and>
   AABB3_contains \<lparr>b_min = Vector3 0 0 0, b_max = Vector3 1 1 1\<rparr>
     (ray_at (Vector3 (- 1) (1 / 2) (1 / 2)) (Vector3 4 0 1) (1 / 4 :: real)) \<and>
   \<not> AABB3_contains \<lparr>b_min = Vector3 0 0 0, b_max = Vector3 1 1 1\<rparr>
     (ray_at (Vector3 (- 1) (1 / 2) (1 / 2)) (Vector3 4 0 1) (1 / 5 :: real))"
proof -
  let ?b = "\<lparr>b_min = Vector3 0 0 0, b_max = Vector3 1 1 1\<rparr> :: real aabb3"
  let ?p = "Vector3 (- 1) (1 / 2) (1 / 2) :: real vector3" and ?d = "Vector3 4 0 1 :: real vector3"
  have b: "\<not> AABB3_isEmpty ?b" by (simp add: AABB3_isEmpty_def)
  have k: "1 < lit cmath_real (10 ^ 30)" by (simp add: cmath_real_def)
  have t: "fst (rayIntersect cmath_real 0 ?b ?p ?d None) = 1 / 4"
    by (simp add: rayIntersect_def ray_axis_def ray_misses_def)
  note hit = ray_first_hit [OF b k, of 0 ?p ?d None, unfolded t Let_def]
  show ?thesis by (intro conjI t) (use hit in simp_all)
qed


section \<open>Moving boxes\<close>

text \<open>
  The times that one axis leaves, as the branches of the code have them: without movement on the
  axis the ranges have to overlap, with movement it is enough that they touch.
\<close>

definition axis_swept :: "'f::linordered_field \<Rightarrow> 'f \<Rightarrow> 'f \<Rightarrow> 'f \<Rightarrow> 'f \<Rightarrow> 'f \<Rightarrow> bool" where
  "axis_swept smin smax mmin mmax d t \<longleftrightarrow>
     (if d = 0 then mmin < smax \<and> smin < mmax else mmin + d * t \<le> smax \<and> smin \<le> mmax + d * t)"

lemma axis_swept_times:
  assumes "d \<noteq> 0"
  shows "axis_swept smin smax mmin mmax d t \<longleftrightarrow>
    (if 0 < d then (smin - mmax) / d \<le> t \<and> t \<le> (smax - mmin) / d
     else (smax - mmin) / d \<le> t \<and> t \<le> (smin - mmax) / (d :: 'f::linordered_field))"
  using assms by (auto simp: axis_swept_def field_simps)

text \<open>The interval of times is cut down to those at which the ranges meet.\<close>

lemma sweep_axis_times:
  assumes "smin \<le> smax" and "mmin \<le> mmax" and "a \<le> (b :: 'f::linordered_field)"
  shows "sweep_axis smin smax mmin mmax d (a, b) = None \<Longrightarrow> a \<le> t \<Longrightarrow> t \<le> b \<Longrightarrow>
      \<not> axis_swept smin smax mmin mmax d t"
    and "sweep_axis smin smax mmin mmax d (a, b) = Some (a', b') \<Longrightarrow>
      a' \<le> b' \<and> (a' \<le> t \<and> t \<le> b' \<longleftrightarrow> a \<le> t \<and> t \<le> b \<and> axis_swept smin smax mmin mmax d t)"
proof -
  consider (zero) "d = 0" | (pos) "0 < d" | (neg) "d < 0" by linarith
  then have "(sweep_axis smin smax mmin mmax d (a, b) = None \<longrightarrow> a \<le> t \<and> t \<le> b \<longrightarrow>
      \<not> axis_swept smin smax mmin mmax d t) \<and>
    (sweep_axis smin smax mmin mmax d (a, b) = Some (a', b') \<longrightarrow>
      a' \<le> b' \<and> (a' \<le> t \<and> t \<le> b' \<longleftrightarrow> a \<le> t \<and> t \<le> b \<and> axis_swept smin smax mmin mmax d t))"
  proof cases
    case zero
    then show ?thesis using assms(3) by (auto simp: sweep_axis_def axis_swept_def split: if_splits)
  next
    case pos
    obtain u v where u: "u = (smin - mmax) / d" and v: "v = (smax - mmin) / d" by blast
    have "u \<le> v" using assms(1,2) pos unfolding u v by (intro divide_right_mono) simp_all
    moreover have "axis_swept smin smax mmin mmax d t \<longleftrightarrow> u \<le> t \<and> t \<le> v"
      using axis_swept_times [of d] pos unfolding u v by simp
    ultimately show ?thesis
      using pos by (auto simp: sweep_axis_def u [symmetric] v [symmetric] Let_def split: if_splits)
  next
    case neg
    obtain u v where u: "u = (smin - mmax) / d" and v: "v = (smax - mmin) / d" by blast
    have "v \<le> u" using assms(1,2) neg unfolding u v by (intro divide_right_mono_neg) simp_all
    moreover have "axis_swept smin smax mmin mmax d t \<longleftrightarrow> v \<le> t \<and> t \<le> u"
      using axis_swept_times [of d] neg unfolding u v by simp
    ultimately show ?thesis
      using neg by (auto simp: sweep_axis_def u [symmetric] v [symmetric] Let_def split: if_splits)
  qed
  then show "sweep_axis smin smax mmin mmax d (a, b) = None \<Longrightarrow> a \<le> t \<Longrightarrow> t \<le> b \<Longrightarrow>
      \<not> axis_swept smin smax mmin mmax d t"
    "sweep_axis smin smax mmin mmax d (a, b) = Some (a', b') \<Longrightarrow>
      a' \<le> b' \<and> (a' \<le> t \<and> t \<le> b' \<longleftrightarrow> a \<le> t \<and> t \<le> b \<and> axis_swept smin smax mmin mmax d t)"
    by blast+
qed

definition boxes_swept :: "'f::linordered_field aabb3 \<Rightarrow> 'f aabb3 \<Rightarrow> 'f vector3 \<Rightarrow> 'f \<Rightarrow> bool" where
  "boxes_swept b m d t \<longleftrightarrow>
     axis_swept (v_x (b_min b)) (v_x (b_max b)) (v_x (b_min m)) (v_x (b_max m)) (v_x d) t \<and>
     axis_swept (v_y (b_min b)) (v_y (b_max b)) (v_y (b_min m)) (v_y (b_max m)) (v_y d) t \<and>
     axis_swept (v_z (b_min b)) (v_z (b_max b)) (v_z (b_min m)) (v_z (b_max m)) (v_z d) t"

lemma intersectMovingAABB_times:
  fixes b m :: "'f::linordered_field aabb3"
  assumes "\<not> AABB3_isEmpty b" and "\<not> AABB3_isEmpty m" and "1 < lit M (10 ^ 30)"
  shows "let t = intersectMovingAABB M b m d
    in (t \<le> 1 \<longrightarrow> 0 \<le> t \<and> boxes_swept b m d t \<and> (\<forall>s. 0 \<le> s \<and> s < t \<longrightarrow> \<not> boxes_swept b m d s)) \<and>
       (1 < t \<longrightarrow> (\<forall>s. 0 \<le> s \<and> s \<le> 1 \<longrightarrow> \<not> boxes_swept b m d s))"
proof -
  let ?x = "sweep_axis (v_x (b_min b)) (v_x (b_max b)) (v_x (b_min m)) (v_x (b_max m)) (v_x d)"
  let ?y = "sweep_axis (v_y (b_min b)) (v_y (b_max b)) (v_y (b_min m)) (v_y (b_max m)) (v_y d)"
  let ?z = "sweep_axis (v_z (b_min b)) (v_z (b_max b)) (v_z (b_min m)) (v_z (b_max m)) (v_z d)"
  have r: "v_x (b_min b) \<le> v_x (b_max b)" "v_y (b_min b) \<le> v_y (b_max b)" "v_z (b_min b) \<le> v_z (b_max b)"
    "v_x (b_min m) \<le> v_x (b_max m)" "v_y (b_min m) \<le> v_y (b_max m)" "v_z (b_min m) \<le> v_z (b_max m)"
    using assms(1,2) by (simp_all add: AABB3_isEmpty_def not_less)
  note X = sweep_axis_times [OF r(1,4) zero_le_one, of "v_x d"]
  have none: ?thesis
    if "intersectMovingAABB M b m d = lit M (10 ^ 30)" "\<And>s. 0 \<le> s \<Longrightarrow> s \<le> 1 \<Longrightarrow> \<not> boxes_swept b m d s"
    using that assms(3) by (simp add: Let_def)
  show ?thesis
  proof (cases "?x (0, 1)")
    case None
    show ?thesis
      by (rule none) (use None X(1) in \<open>simp_all add: intersectMovingAABB_def boxes_swept_def\<close>)
  next
    case (Some xs)
    obtain x0 x1 where x: "?x (0, 1) = Some (x0, x1)" using Some by (cases xs) simp
    note x' = X(2) [OF x]
    note Y = sweep_axis_times [OF r(2,5) conjunct1 [OF x'], of "v_y d"]
    show ?thesis
    proof (cases "?y (x0, x1)")
      case None
      show ?thesis
        by (rule none) (use None x x' Y(1) in \<open>auto simp: intersectMovingAABB_def boxes_swept_def\<close>)
    next
      case (Some ys)
      obtain y0 y1 where y: "?y (x0, x1) = Some (y0, y1)" using Some by (cases ys) simp
      note y' = Y(2) [OF y]
      note Z = sweep_axis_times [OF r(3,6) conjunct1 [OF y'], of "v_z d"]
      show ?thesis
      proof (cases "?z (y0, y1)")
        case None
        show ?thesis
          by (rule none) (use None x y x' y' Z(1) in \<open>auto simp: intersectMovingAABB_def boxes_swept_def\<close>)
      next
        case (Some zs)
        obtain z0 z1 where z: "?z (y0, y1) = Some (z0, z1)" using Some by (cases zs) simp
        note z' = Z(2) [OF z]
        have t: "intersectMovingAABB M b m d = z0" using x y z by (simp add: intersectMovingAABB_def)
        have "z0 \<le> t \<and> t \<le> z1 \<longleftrightarrow> 0 \<le> t \<and> t \<le> 1 \<and> boxes_swept b m d t" for t
          using x' y' z' unfolding boxes_swept_def by blast
        then show ?thesis
          using conjunct1 [OF z'] unfolding t Let_def by (meson order.refl order.strict_trans2 not_le order.trans less_imp_le)
      qed
    qed
  qed
qed

text \<open>
  The moving box after a part of the movement; and two boxes whose ranges touch, or are the same
  point, on an axis without movement.
\<close>

definition moved :: "'f::linordered_field aabb3 \<Rightarrow> 'f vector3 \<Rightarrow> 'f \<Rightarrow> 'f aabb3" where
  "moved m d s =
     \<lparr> b_min = Vector3 (v_x (b_min m) + v_x d * s) (v_y (b_min m) + v_y d * s) (v_z (b_min m) + v_z d * s),
       b_max = Vector3 (v_x (b_max m) + v_x d * s) (v_y (b_max m) + v_y d * s) (v_z (b_max m) + v_z d * s) \<rparr>"

definition touch_where_still :: "'f::linordered_field aabb3 \<Rightarrow> 'f aabb3 \<Rightarrow> 'f vector3 \<Rightarrow> bool" where
  "touch_where_still b m d \<longleftrightarrow>
     v_x d = 0 \<and> (v_x (b_max b) = v_x (b_min m) \<or> v_x (b_max m) = v_x (b_min b)) \<or>
     v_y d = 0 \<and> (v_y (b_max b) = v_y (b_min m) \<or> v_y (b_max m) = v_y (b_min b)) \<or>
     v_z d = 0 \<and> (v_z (b_max b) = v_z (b_min m) \<or> v_z (b_max m) = v_z (b_min b))"

lemma axis_swept_closed:
  "axis_swept smin smax mmin mmax d t \<longleftrightarrow>
     \<not> (d = 0 \<and> (smax = mmin \<or> mmax = smin)) \<and> mmin + d * t \<le> smax \<and> smin \<le> mmax + d * t"
  by (auto simp: axis_swept_def)

lemma boxes_swept_closed:
  "boxes_swept b m d t \<longleftrightarrow> \<not> touch_where_still b m d \<and> fst (intersectAABBs b (moved m d t) None)"
  unfolding boxes_swept_def axis_swept_closed touch_where_still_def
  by (auto simp: intersectAABBs_def moved_def not_less)

text \<open>
  C39. When \<open>intersectMovingAABB\<close> reports a meeting, for boxes that are not empty, computed without
  rounding, and in the sense of \<open>intersectAABBs\<close>, for which boxes that touch meet: unless the
  boxes touch on an axis without movement, the value returned is at most 1 exactly when the
  moving box meets the other one at some time of the movement, and is then the first such time.
  Boxes that touch on an axis without movement are reported as not meeting, whether or not they
  meet in that sense.
\<close>

theorem moving_boxes_first_meeting:
  fixes b m :: "'f::linordered_field aabb3" and d :: "'f vector3"
  assumes "\<not> AABB3_isEmpty b" and "\<not> AABB3_isEmpty m" and "1 < lit M (10 ^ 30)"
  defines "meets \<equiv> \<lambda>s. fst (intersectAABBs b (moved m d s) None)"
    and "t \<equiv> intersectMovingAABB M b m d"
  shows "if touch_where_still b m d then 1 < t
    else if t \<le> 1 then 0 \<le> t \<and> meets t \<and> (\<forall>s. 0 \<le> s \<and> s < t \<longrightarrow> \<not> meets s)
    else \<forall>s. 0 \<le> s \<and> s \<le> 1 \<longrightarrow> \<not> meets s"
  using intersectMovingAABB_times [OF assms(1-3), of d]
  unfolding boxes_swept_closed Let_def meets_def t_def by (auto simp: not_le)

text \<open>
  A box that moves towards another one and meets it half-way; and one that moves along a face
  of the other one, touching it, which is not reported.
\<close>

theorem moving_boxes_first_meeting_witness:
  "intersectMovingAABB cmath_real \<lparr>b_min = Vector3 0 0 0, b_max = Vector3 1 1 1\<rparr>
      \<lparr>b_min = Vector3 3 0 0, b_max = Vector3 4 2 1\<rparr> (Vector3 (- 4) 0 1) = 1 / 2 \<and>
   fst (intersectAABBs \<lparr>b_min = Vector3 0 0 0, b_max = Vector3 1 1 1\<rparr>
     (moved \<lparr>b_min = Vector3 3 0 0, b_max = Vector3 4 2 1\<rparr> (Vector3 (- 4) 0 1) (1 / 2 :: real)) None) \<and>
   \<not> fst (intersectAABBs \<lparr>b_min = Vector3 0 0 0, b_max = Vector3 1 1 1\<rparr>
     (moved \<lparr>b_min = Vector3 3 0 0, b_max = Vector3 4 2 1\<rparr> (Vector3 (- 4) 0 1) (1 / 3 :: real)) None) \<and>
   1 < intersectMovingAABB cmath_real \<lparr>b_min = Vector3 0 0 0, b_max = Vector3 1 1 1\<rparr>
     \<lparr>b_min = Vector3 3 1 0, b_max = Vector3 4 2 1\<rparr> (Vector3 (- 4) 0 1) \<and>
   fst (intersectAABBs \<lparr>b_min = Vector3 0 0 0, b_max = Vector3 1 1 1\<rparr>
     (moved \<lparr>b_min = Vector3 3 1 0, b_max = Vector3 4 2 1\<rparr> (Vector3 (- 4) 0 1) (1 / 2 :: real)) None)"
proof -
  let ?b = "\<lparr>b_min = Vector3 0 0 0, b_max = Vector3 1 1 1\<rparr> :: real aabb3"
  let ?m = "\<lparr>b_min = Vector3 3 0 0, b_max = Vector3 4 2 1\<rparr> :: real aabb3"
  let ?n = "\<lparr>b_min = Vector3 3 1 0, b_max = Vector3 4 2 1\<rparr> :: real aabb3"
  let ?d = "Vector3 (- 4) 0 1 :: real vector3"
  have e: "\<not> AABB3_isEmpty ?b" "\<not> AABB3_isEmpty ?m" "\<not> AABB3_isEmpty ?n" by (simp_all add: AABB3_isEmpty_def)
  have k: "1 < lit cmath_real (10 ^ 30)" by (simp add: cmath_real_def)
  have t: "intersectMovingAABB cmath_real ?b ?m ?d = 1 / 2"
    by (simp add: intersectMovingAABB_def sweep_axis_def Let_def)
  have s: "\<not> touch_where_still ?b ?m ?d" "touch_where_still ?b ?n ?d" by (simp_all add: touch_where_still_def)
  have f: "fst (intersectAABBs ?b (moved ?m ?d (1 / 2)) None)"
    and g: "\<not> fst (intersectAABBs ?b (moved ?m ?d (1 / 3)) None)"
    using moving_boxes_first_meeting [OF e(1,2) k, of ?d] s(1) unfolding t by auto
  have h: "1 < intersectMovingAABB cmath_real ?b ?n ?d"
    using moving_boxes_first_meeting [OF e(1,3) k, of ?d] s(2) by simp
  have i: "fst (intersectAABBs ?b (moved ?n ?d (1 / 2)) None)" by (simp add: intersectAABBs_def moved_def)
  show ?thesis by (intro conjI t f g h i)
qed

end
