(* ===== verification/Spec2Isabelle.thy ===== *)
theory Spec2Isabelle
  imports Gm_Prelude Address Name_Pool Paged_Directory Mailboxes Scheduler Actor_System Framework Redis_Adapter Data_Sharing Mysql_Client Data_Transfer Timers Net Rank_Utils Fast_Memcpy Xml_Tables Logging Redis_Client Hiredis_Dict Redis_Subscriptions Orientation Collisions
begin

text \<open>
  A verification library for the C++ sources of \<open>src/CoreLib\<close>: the actor library \<open>LibActor\<close>, the
  data library \<open>DataHandle\<close> that keeps structures in redis and a MySQL database, with its redis client
  \<open>hiredis_win\<close>, \<open>Utils\<close> and \<open>Math\<close>.

  \<^bold>\<open>The program.\<close> A process owns a \<open>Framework\<close>. It registers actors in a paged \<open>Directory\<close> of
  mailboxes, and an actor's \<open>Address\<close> holds its index there. \<open>Framework::SendMsg\<close> pushes a message to
  the mailbox of the address and schedules the mailbox; the worker threads of \<open>SchedulerSemaphore\<close>
  pop mailboxes and call \<open>Mailbox::Process\<close>, which hands the messages to the actor's handlers.
  Addresses of other processes go to the \<open>EndPoint\<close>, which holds a TCP connection. In the data
  library a program describes its data as structures (\<open>TStruct\<close>) of values (\<open>TBaseValue\<close>) and
  containers of structures (\<open>TRepeated\<close>); a \<open>RedisAdapter\<close> loads and saves their fields, buffers
  changes (\<open>RedisBuffer\<close>), publishes them, and applies the changes of other processes, which arrive
  at \<open>RedisWrap\<close>, are parsed as \<open>RedisSyncData\<close> and handed to the \<open>RedisListen\<close> of each adapter by the
  \<open>RedisSubMgr\<close>. \<open>DataTransfer\<close> copies structures between the database and redis. Below \<open>RedisWrap\<close> the
  client of \<open>hiredis_win\<close> formats commands, writes them to a socket, and reads replies from the bytes
  that arrive.

  \<^bold>\<open>Conventions.\<close> Names are those of the source, with a suffix for an overload or where a name is
  taken. Machine integers are words, and signed ones are \<open>int\<close> with the clamping written out where a
  conversion clamps. An execution that leaves the defined behaviour or throws is a value of \<open>fault\<close>
  in the sum \<open>res\<close>; an operation that may throw after it changed state returns both the fault and
  the state. \<open>std::map\<close> is a list ordered by key, \<open>std::unordered_map\<close> an association list.
  Pointers to objects of one owner are indices, and null pointers \<open>None\<close>. A loop that may not end is a
  \<open>partial_function\<close> whose \<open>None\<close> is the call that does not return, and what returns is proved to
  return. One model has fuel, that of handlers which call \<open>OnTimer\<close> (\<open>nested_OnTimer\<close> in \<open>Timers\<close>),
  used for one counterexample. Concurrency is a step relation or a run of
  events, one step per critical section. Libraries outside the sources (MySQL client, Boost,
  sockets, the file system, RapidXML's parser, the C library's calendar) are parameters, and what
  a theorem needs of one is a named hypothesis with an instance in the theorem's witness. The model of
  \<open>RedisWrap\<close> has the commands of the redis client as a parameter, too; the client's own code is
  modelled by itself.

  \<^bold>\<open>LibActor.\<close>
  \<^item> \<open>Gm_Prelude\<close>: words, bit fields, faults, and the containers with the contract \<open>kv_store\<close> both keep.
  \<^item> \<open>Address\<close> (\<open>Address.h\<close>): the fields of an address are read back modulo their widths.
  \<^item> \<open>Name_Pool\<close> (\<open>NamePool.h\<close>, \<open>Name.h\<close>, \<open>HashName.h\<close>): interning refines string equality in any history.
  \<^item> \<open>Paged_Directory\<close> (\<open>Directory.h\<close>): indices in order, then the first free one, then a fault; the contract
    \<open>entry_table\<close> is interpreted on it.
  \<^item> \<open>Mailboxes\<close> (\<open>Message/*.h\<close>, \<open>Mailbox.*\<close>): dispatch by identifier, and the result of \<open>Process\<close> when a
    handler throws.
  \<^item> \<open>Scheduler\<close> (\<open>IScheduler.h\<close>, \<open>SchedulerSemaphore.*\<close>): \<open>Pop\<close> (with the contract \<open>scheduler_queue\<close>) and the life
    of the threads, with the lost wake-up of \<open>Destroy\<close>.
  \<^item> \<open>Actor_System\<close>: mailboxes, list and workers together as a step relation; delivery in order, mutual
    exclusion and no lost wake-up by rule induction, and what a throw makes of a mailbox.
  \<^item> \<open>Framework\<close> (\<open>Framework.*\<close>, \<open>Actor.*\<close>, \<open>EndPoint.*\<close>): registration, routing, and the invariant of every
    reachable framework.
  \<^item> \<open>Net\<close> (\<open>BoostNet/*\<close>): packets, services, and sessions as state machines whose pending operations complete
    in any order and way; the locale \<open>session_client\<close> holds what a session may assume of its callbacks
    and is interpreted on the end point. In every run of an end point, with sending in its two locked
    parts, connecting and disconnecting, every packet is accounted for up to the first fault, which
    comes when the queue has been sent.

  \<^bold>\<open>DataHandle.\<close>
  \<^item> \<open>String_Value\<close> (\<open>TData/StringValue.h\<close>, \<open>Utils/StringUtils.h\<close>): values as text; the locale \<open>text_codec\<close> is
    interpreted on every type's pair of conversions.
  \<^item> \<open>Key_Fields\<close> (\<open>TData/keyFieldMgr.h\<close>): the registry of keys, fields and tables.
  \<^item> \<open>Redis_Messages\<close> (\<open>RedisBuffer.*\<close>, \<open>RedisSyncData.h\<close>): what is published is parsed to the last values, for
    values without separators.
  \<^item> \<open>Redis_Listening\<close> (\<open>SyncValue.h\<close>, \<open>RedisListen.*\<close>, \<open>RedisSubMgr.*\<close>): every key is subscribed to once.
  \<^item> \<open>Redis_Wrap\<close> (\<open>RedisWrap.*\<close>): commands, replies, SCAN and the receiving loop, over a redis client.
  \<^item> \<open>Redis_Adapter\<close> (\<open>RedisAdapter.*\<close>): saved values are loaded when their texts are words; \<open>GetAllKey\<close> ends when the cursors lead to 0.
  \<^item> \<open>Data_Model\<close> (\<open>IBase.h\<close>, \<open>TValue.h\<close>, \<open>TStruct.h\<close>, \<open>TRepeated.h\<close>, \<open>IDataAdapter.h\<close>, and the structures of
    \<open>Test\<close>): values, structures and containers with their operations over a record of the adapter's.
  \<^item> \<open>Data_Types\<close>: every operation, with any adapter and whatever throws, keeps members, field indices, types
    and the order of containers; what a container holds after loading and after a synchronisation.
  \<^item> \<open>Data_Sharing\<close>: the data model over the redis adapter; an element added by one process is read back by
    another, and \<open>Sync\<close> equals one pass over the members.
  \<^item> \<open>Mysql_Client\<close> (\<open>MySqlAdapter/util_mysql.*\<close>): handles are balanced in every sequence of calls; a command
    is sent at most twice.
  \<^item> \<open>Data_Transfer\<close> (\<open>DataTransfer.*\<close>): the transfer of packages and tables, and what its two conversions make of a
    value.

  \<^bold>\<open>The redis client\<close> (\<open>DataHandle/hiredis_win\<close>, in the build for Windows).
  \<^item> \<open>Sds\<close> (\<open>sds.*\<close>): strings with spare room; quoted arguments are split back.
  \<^item> \<open>Redis_Reader\<close> (\<open>hiredis.*\<close>): the reader of replies with its stack of tasks over a buffer.
  \<^item> \<open>Redis_Protocol\<close>: an abstract machine that decodes a list of bytes with a list of open arrays, and the
    simulation lemmas by which the reader implements it.
  \<^item> \<open>Redis_Stream\<close>: the replies do not depend on how the bytes are cut; encoded replies are read back.
  \<^item> \<open>Redis_Format\<close> (\<open>hiredis.c\<close>): commands from formats and lists of texts, and what they stand for.
  \<^item> \<open>Redis_Connect\<close> (\<open>net.c\<close>, \<open>hiredis.c\<close>): contexts and sockets; none is lost whatever call fails.
  \<^item> \<open>Redis_Client\<close> (\<open>hiredis.c\<close>): buffers and the blocking loops; commands in a row are all sent and
    their replies handed out in order, and an error is final.
  \<^item> \<open>Hiredis_Dict\<close> (\<open>dict.*\<close>): the hash table refines a map under any sequence of operations.
  \<^item> \<open>Redis_Async\<close> (\<open>async.*\<close>): asynchronous connections. A callback of the program is a tree of calls, each chosen
    by the results of those before.
  \<^item> \<open>Redis_Callbacks\<close>: what callbacks can change, and that freeing calls every one of them once.
  \<^item> \<open>Redis_Conversation\<close>: the invariant of all calls and events; every handler returns, no callback is lost,
    replies are handed out in the order of their commands, and a disconnection that fails.
  \<^item> \<open>Redis_Subscriptions\<close>: commands are parsed back, subscriptions registered, and messages find them.

  \<^bold>\<open>Utils.\<close>
  \<^item> \<open>Timers\<close> (\<open>TimeUtils.*\<close>): timers with handlers that act on the timers; no freed entity is reached unless a
    handler calls \<open>OnTimer\<close>, for which one is shown.
  \<^item> \<open>Rank_Utils\<close> (\<open>RankUtils.h\<close>, \<open>MapUtils.h\<close>): rankings against sorting.
  \<^item> \<open>Fast_Memcpy\<close> (\<open>FastMemcpy.h\<close>): the jump table and the block loops against a byte-wise copy.
  \<^item> \<open>Xml_Tables\<close> (\<open>XmlLoader.*\<close>): the iteration over the rows of a table.
  \<^item> \<open>Logging\<close> (\<open>Log.*\<close>, \<open>ErrorCode.h\<close>, \<open>FileUtils.*\<close>): order of the log in every interleaving.

  \<^item> \<open>Float32\<close>, \<open>Vectors\<close>, \<open>Rotations\<close>, \<open>Matrices\<close> and \<open>Boxes\<close> (\<open>Math\<close>): single precision numbers, and the
    operations on vectors, quaternions, Euler angles, matrices and boxes, for any type of numbers; the
    functions of \<open>cmath\<close> are the parameter \<open>cmath\<close>. No other part of the program uses them.
  \<^item> \<open>Orientation\<close>: without rounding, inverses undo, the representations of orientations agree and are
    read back, lengths are kept; mistakes in the matrices that are set up.
  \<^item> \<open>Geometry\<close> and \<open>Collisions\<close>: a point added to a box is lost, in single precision; without rounding,
    the tests of boxes against points, spheres, planes and boxes are exact, rays meet a box at the time
    returned and not before, and so do moving boxes unless they touch on an axis without movement.

  \<^bold>\<open>Bounds.\<close> A directory has 32 pages of 256 entries; a packet's length has 16 bits, two of which count
  the length itself; addresses and sizes in \<open>Fast_Memcpy\<close> do not wrap. In the redis client memory is
  always granted, sizes of texts stay below 2 to the 31 and tables below 2 to the 29 entries.

  \<^bold>\<open>Not modelled.\<close> The vendored libraries of \<open>ThirdParty\<close>. Reply functions of \<open>hiredis_win\<close> other
  than the default ones, and callbacks that call the handlers of the event library.
  The overloads of text conversions for \<open>float\<close> and \<open>double\<close>, whose digits the standard library chooses.
  \<open>Utils/MySqlUtils.cpp\<close> and \<open>MysqlUtils.h\<close>, a copy of \<open>util_mysql.*\<close>;
  \<open>RandomUtils.h\<close>, a wrapper of the standard library's generator. \<open>Name::operator<\<close>, which compares
  heap addresses. Handlers that call \<open>ActorTimer::OnTimer\<close> (calls of \<open>SubTimer::OnTimer\<close>
  are modelled apart), and a second \<open>Log::Init\<close> without \<open>Stop\<close>.
\<close>

end
